(* ===== verification/Pay_Prelude.thy ===== *)
theory Pay_Prelude
  imports Main "HOL-Library.Word" "HOL-Library.AList" "HOL-Library.Sublist"
begin

text \<open>
  Shared vocabulary of the development.

  \<^item> Fallible Rust code returns \<open>'e + 'a\<close>: \<open>Inl\<close> is \<open>Err\<close>, \<open>Inr\<close> is \<open>Ok\<close>.
    \<open>and_then\<close> is the \<open>?\<close> operator, \<open>ok_or\<close> is \<open>Option::ok_or\<close>, \<open>ensure\<close> an early
    \<open>return Err(..)\<close>, \<open>try_fold\<close> a \<open>for\<close> loop that leaves on the first error.
  \<^item> Unsigned machine integers are \<open>nat\<close> with the width written out in every operation that can
    leave it: \<open>checked_add 64\<close>, \<open>saturating_mul 64\<close>, \<open>wrapping_mul 64\<close> and so on follow the
    Rust operations of the same name. Bytes are \<open>8 word\<close>.
  \<^item> Hash maps whose emptiness or length the code tests are association lists with distinct keys
    (\<open>HOL-Library.AList\<close>), other hash maps are HOL maps.
  \<^item> \<open>state_machine\<close> is the interface every component with mutable state offers to the
    properties that span its operations: an invariant that each operation keeps.
\<close>

named_theorems res_simps \<open>characterisations of the error monad\<close>
named_theorems arith_checked \<open>characterisations of checked machine arithmetic\<close>
named_theorems bytes_simps \<open>little-endian byte encodings\<close>

type_synonym byte = "8 word"
type_synonym bytes = "8 word list"
type_synonym pubkey = "8 word list"
type_synonym ('e, 'a) result = "'e + 'a"

section \<open>Results\<close>

definition and_then :: "'e + 'a \<Rightarrow> ('a \<Rightarrow> 'e + 'b) \<Rightarrow> 'e + 'b" where
  "and_then m f = (case m of Inl e \<Rightarrow> Inl e | Inr a \<Rightarrow> f a)"

definition ok_or :: "'e \<Rightarrow> 'a option \<Rightarrow> 'e + 'a" where
  "ok_or e m = (case m of None \<Rightarrow> Inl e | Some a \<Rightarrow> Inr a)"

definition map_err :: "('e \<Rightarrow> 'f) \<Rightarrow> 'e + 'a \<Rightarrow> 'f + 'a" where
  "map_err g m = (case m of Inl e \<Rightarrow> Inl (g e) | Inr a \<Rightarrow> Inr a)"

definition ensure :: "bool \<Rightarrow> 'e \<Rightarrow> 'e + unit" where
  "ensure b e = (if b then Inr () else Inl e)"

definition is_ok :: "'e + 'a \<Rightarrow> bool" where
  "is_ok m = (case m of Inl _ \<Rightarrow> False | Inr _ \<Rightarrow> True)"

fun try_fold :: "('s \<Rightarrow> 'x \<Rightarrow> 'e + 's) \<Rightarrow> 's \<Rightarrow> 'x list \<Rightarrow> 'e + 's" where
  "try_fold f s [] = Inr s"
| "try_fold f s (x # xs) = and_then (f s x) (\<lambda>s'. try_fold f s' xs)"

fun collect_results :: "('e + 'a) list \<Rightarrow> 'e + 'a list" where
  "collect_results [] = Inr []"
| "collect_results (m # ms) =
     and_then m (\<lambda>a. and_then (collect_results ms) (\<lambda>as. Inr (a # as)))"

section \<open>Machine arithmetic\<close>

definition checked_add :: "nat \<Rightarrow> nat \<Rightarrow> nat \<Rightarrow> nat option" where
  "checked_add w a b = (if a + b < 2 ^ w then Some (a + b) else None)"

definition checked_mul :: "nat \<Rightarrow> nat \<Rightarrow> nat \<Rightarrow> nat option" where
  "checked_mul w a b = (if a * b < 2 ^ w then Some (a * b) else None)"

definition checked_sub :: "nat \<Rightarrow> nat \<Rightarrow> nat option" where
  "checked_sub a b = (if b \<le> a then Some (a - b) else None)"

definition checked_pow :: "nat \<Rightarrow> nat \<Rightarrow> nat \<Rightarrow> nat option" where
  "checked_pow w a n = (if a ^ n < 2 ^ w then Some (a ^ n) else None)"

definition try_from :: "nat \<Rightarrow> nat \<Rightarrow> nat option" where
  "try_from w a = (if a < 2 ^ w then Some a else None)"

definition saturating_add :: "nat \<Rightarrow> nat \<Rightarrow> nat \<Rightarrow> nat" where
  "saturating_add w a b = min (a + b) (2 ^ w - 1)"

definition saturating_mul :: "nat \<Rightarrow> nat \<Rightarrow> nat \<Rightarrow> nat" where
  "saturating_mul w a b = min (a * b) (2 ^ w - 1)"

definition saturating_sub :: "nat \<Rightarrow> nat \<Rightarrow> nat" where
  "saturating_sub a b = (if b \<le> a then a - b else 0)"

definition wrapping :: "nat \<Rightarrow> nat \<Rightarrow> nat" where
  "wrapping w a = a mod 2 ^ w"

definition div_ceil :: "nat \<Rightarrow> nat \<Rightarrow> nat" where
  "div_ceil a b = (if a mod b = 0 then a div b else a div b + 1)"

fun checked_sum :: "nat \<Rightarrow> nat \<Rightarrow> nat list \<Rightarrow> nat option" where
  "checked_sum w acc [] = Some acc"
| "checked_sum w acc (x # xs) =
     (case checked_add w acc x of None \<Rightarrow> None | Some s \<Rightarrow> checked_sum w s xs)"

section \<open>Little-endian encodings\<close>

fun to_le_bytes :: "nat \<Rightarrow> nat \<Rightarrow> bytes" where
  "to_le_bytes 0 v = []"
| "to_le_bytes (Suc n) v = word_of_nat (v mod 256) # to_le_bytes n (v div 256)"

fun from_le_bytes :: "bytes \<Rightarrow> nat" where
  "from_le_bytes [] = 0"
| "from_le_bytes (b # bs) = unat b + 256 * from_le_bytes bs"

section \<open>Lemmas on results\<close>

lemma and_then_simps [simp]:
  "and_then (Inl e) f = Inl e"
  "and_then (Inr a) f = f a"
  by (simp_all add: and_then_def)

lemma and_then_eq_Inr [res_simps]:
  "and_then m f = Inr b \<longleftrightarrow> (\<exists>a. m = Inr a \<and> f a = Inr b)"
  by (cases m) auto

lemma and_then_eq_Inl [res_simps]:
  "and_then m f = Inl e \<longleftrightarrow> m = Inl e \<or> (\<exists>a. m = Inr a \<and> f a = Inl e)"
  by (cases m) auto

lemma and_then_assoc: "and_then (and_then m f) g = and_then m (\<lambda>a. and_then (f a) g)"
  by (cases m) auto

lemma and_then_cong [fundef_cong]:
  "m = m' \<Longrightarrow> (\<And>a. m' = Inr a \<Longrightarrow> f a = g a) \<Longrightarrow> and_then m f = and_then m' g"
  by (cases m') auto

text \<open>For evaluation: the continuation is left alone until its argument is known.\<close>

lemma and_then_weak_cong: "m = m' \<Longrightarrow> and_then m f = and_then m' f"
  by simp

lemma ok_or_simps [simp]:
  "ok_or e None = Inl e"
  "ok_or e (Some a) = Inr a"
  by (simp_all add: ok_or_def)

lemma ok_or_eq_Inr [res_simps]: "ok_or e m = Inr a \<longleftrightarrow> m = Some a"
  by (cases m) auto

lemma ok_or_eq_Inl [res_simps]: "ok_or e m = Inl e' \<longleftrightarrow> m = None \<and> e = e'"
  by (cases m) auto

lemma map_err_simps [simp]:
  "map_err g (Inl e) = Inl (g e)"
  "map_err g (Inr a) = Inr a"
  by (simp_all add: map_err_def)

lemma map_err_eq_Inr [res_simps]: "map_err g m = Inr a \<longleftrightarrow> m = Inr a"
  by (cases m) auto

lemma map_err_eq_Inl [res_simps]: "map_err g m = Inl e \<longleftrightarrow> (\<exists>e'. m = Inl e' \<and> e = g e')"
  by (cases m) auto

lemma ensure_eq_Inr [res_simps]: "ensure b e = Inr u \<longleftrightarrow> b"
  by (simp add: ensure_def)

lemma ensure_eq_Inl [res_simps]: "ensure b e = Inl e' \<longleftrightarrow> \<not> b \<and> e = e'"
  by (auto simp: ensure_def)

lemma if_Inl_eq_Inr [res_simps]: "(if b then Inl e else m) = Inr a \<longleftrightarrow> \<not> b \<and> m = Inr a"
  by simp

lemma ensure_simps [simp]:
  "ensure True e = Inr ()"
  "ensure False e = Inl e"
  by (simp_all add: ensure_def)

lemma is_ok_simps [simp]:
  "is_ok (Inr a)"
  "\<not> is_ok (Inl e)"
  by (simp_all add: is_ok_def)

lemma is_ok_iff: "is_ok m \<longleftrightarrow> (\<exists>a. m = Inr a)"
  by (cases m) auto

lemma try_fold_append:
  "try_fold f s (xs @ ys) = and_then (try_fold f s xs) (\<lambda>s'. try_fold f s' ys)"
  by (induction xs arbitrary: s) (auto simp: and_then_assoc)

lemma try_fold_concat:
  "try_fold (\<lambda>s c. try_fold f s (g c)) s cs = try_fold f s (concat (map g cs))"
  by (induction cs arbitrary: s) (simp_all add: try_fold_append)

lemma try_fold_invariant:
  assumes "try_fold f s xs = Inr t" and "P s"
    and "\<And>s x s'. P s \<Longrightarrow> x \<in> set xs \<Longrightarrow> f s x = Inr s' \<Longrightarrow> P s'"
  shows "P t"
  using assms
proof (induction xs arbitrary: s)
  case Nil
  then show ?case by simp
next
  case (Cons x xs)
  from Cons.prems(1) obtain s' where s': "f s x = Inr s'" and rest: "try_fold f s' xs = Inr t"
    by (auto simp: and_then_eq_Inr)
  have "P s'"
    using Cons.prems(2,3) s' by (meson list.set_intros(1))
  then show ?case
    using Cons.IH [OF rest] Cons.prems(3) by (meson list.set_intros(2))
qed

lemma collect_results_Inr:
  "collect_results ms = Inr as \<longleftrightarrow> ms = map Inr as"
  by (induction ms arbitrary: as) (auto simp: and_then_eq_Inr Cons_eq_map_conv)

section \<open>Lemmas on arithmetic\<close>

lemma checked_add_Some [arith_checked]:
  "checked_add w a b = Some c \<longleftrightarrow> c = a + b \<and> a + b < 2 ^ w"
  by (auto simp: checked_add_def)

lemma checked_add_None [arith_checked]: "checked_add w a b = None \<longleftrightarrow> 2 ^ w \<le> a + b"
  by (auto simp: checked_add_def)

lemma checked_mul_Some [arith_checked]:
  "checked_mul w a b = Some c \<longleftrightarrow> c = a * b \<and> a * b < 2 ^ w"
  by (auto simp: checked_mul_def)

lemma checked_mul_None [arith_checked]: "checked_mul w a b = None \<longleftrightarrow> 2 ^ w \<le> a * b"
  by (auto simp: checked_mul_def)

lemma checked_sub_Some [arith_checked]: "checked_sub a b = Some c \<longleftrightarrow> b \<le> a \<and> c = a - b"
  by (auto simp: checked_sub_def)

lemma checked_sub_None [arith_checked]: "checked_sub a b = None \<longleftrightarrow> a < b"
  by (auto simp: checked_sub_def)

lemma checked_pow_Some [arith_checked]:
  "checked_pow w a n = Some c \<longleftrightarrow> c = a ^ n \<and> a ^ n < 2 ^ w"
  by (auto simp: checked_pow_def)

lemma try_from_Some [arith_checked]: "try_from w a = Some c \<longleftrightarrow> c = a \<and> a < 2 ^ w"
  by (auto simp: try_from_def)

lemma try_from_None [arith_checked]: "try_from w a = None \<longleftrightarrow> 2 ^ w \<le> a"
  by (auto simp: try_from_def)

lemma saturating_add_ge: "a < 2 ^ w \<Longrightarrow> a \<le> saturating_add w a b"
  by (simp add: saturating_add_def)

lemma saturating_add_le: "saturating_add w a b \<le> a + b"
  by (simp add: saturating_add_def)

lemma saturating_add_lt: "saturating_add w a b < 2 ^ w"
  by (simp add: saturating_add_def min_less_iff_disj)

lemma checked_sum_eq:
  assumes "acc < 2 ^ w"
  shows "checked_sum w acc xs =
    (if acc + sum_list xs < 2 ^ w then Some (acc + sum_list xs) else None)"
  using assms
proof (induction xs arbitrary: acc)
  case Nil
  then show ?case by simp
next
  case (Cons x xs)
  show ?case
  proof (cases "acc + x < 2 ^ w")
    case True
    then show ?thesis
      using Cons.IH [OF True] by (simp add: checked_add_def add.assoc)
  next
    case False
    then show ?thesis by (simp add: checked_add_def)
  qed
qed

lemma checked_sum_zero_Some:
  "checked_sum w 0 xs = Some s \<longleftrightarrow> s = sum_list xs \<and> sum_list xs < 2 ^ w"
  using checked_sum_eq [of 0 w xs] by auto

lemma div_ceil_eq: "0 < b \<Longrightarrow> div_ceil a b = (a + (b - 1)) div b"
proof -
  assume b: "0 < b"
  define q r where "q = a div b" and "r = a mod b"
  have a: "a = q * b + r" and r: "r < b"
    using b by (simp_all add: q_def r_def)
  show ?thesis
  proof (cases "r = 0")
    case True
    have "(a + (b - 1)) div b = ((b - 1) + q * b) div b"
      using True a by (simp add: add.commute)
    also have "\<dots> = q"
      using b by (subst div_mult_self1) simp_all
    finally have "(a + (b - 1)) div b = q" .
    then show ?thesis
      using True by (simp add: div_ceil_def q_def r_def)
  next
    case False
    then have "a + (b - 1) = (q + 1) * b + (r - 1)" and "r - 1 < b"
      using a b r by (simp_all add: algebra_simps)
    then have "(a + (b - 1)) div b = ((r - 1) + (q + 1) * b) div b"
      by (simp only: add.commute)
    also have "\<dots> = q + 1"
      using b \<open>r - 1 < b\<close> by (subst div_mult_self1) simp_all
    finally have "(a + (b - 1)) div b = q + 1" .
    then show ?thesis
      using False by (simp add: div_ceil_def q_def r_def)
  qed
qed

lemma ceil_div_least:
  fixes a b q :: nat
  assumes "0 < b"
  shows "(a + (b - 1)) div b \<le> q \<longleftrightarrow> a \<le> q * b"
proof -
  have "(a + (b - 1)) div b \<le> q \<longleftrightarrow> (a + (b - 1)) div b < q + 1"
    by linarith
  also have "\<dots> \<longleftrightarrow> a + (b - 1) < (q + 1) * b"
    using assms by (rule div_less_iff_less_mult)
  also have "\<dots> \<longleftrightarrow> a \<le> q * b"
    using assms by (auto simp: algebra_simps)
  finally show ?thesis .
qed

lemma ceil_div_mono:
  fixes a a' b :: nat
  shows "a \<le> a' \<Longrightarrow> (a + (b - 1)) div b \<le> (a' + (b - 1)) div b"
  by (simp add: div_le_mono)

section \<open>Lemmas on encodings\<close>

lemma unat_byte_lt: "unat (b :: byte) < 256"
proof -
  have "unat b < 2 ^ LENGTH(8)"
    by (rule unsigned_less)
  then show ?thesis by simp
qed

lemma length_to_le_bytes [simp]: "length (to_le_bytes n v) = n"
  by (induction n arbitrary: v) simp_all

lemma from_le_bytes_bound: "from_le_bytes bs < 256 ^ length bs"
proof (induction bs)
  case Nil
  then show ?case by simp
next
  case (Cons b bs)
  have "unat b < 256"
    by (rule unat_byte_lt)
  moreover have "from_le_bytes bs + 1 \<le> 256 ^ length bs"
    using Cons.IH by simp
  then have "256 * (from_le_bytes bs + 1) \<le> 256 * 256 ^ length bs"
    by (rule mult_le_mono2)
  ultimately show ?case by simp
qed

lemma from_to_le_bytes [bytes_simps]: "from_le_bytes (to_le_bytes n v) = v mod 256 ^ n"
proof (induction n arbitrary: v)
  case 0
  then show ?case by simp
next
  case (Suc n)
  have "unat (word_of_nat (v mod 256) :: byte) = v mod 256"
    by (simp add: unat_of_nat)
  then show ?case
    using Suc.IH [of "v div 256"] by (simp add: mod_mult2_eq)
qed

lemma to_le_bytes_inj:
  "v < 256 ^ n \<Longrightarrow> v' < 256 ^ n \<Longrightarrow> to_le_bytes n v = to_le_bytes n v' \<Longrightarrow> v = v'"
  by (metis from_to_le_bytes mod_less)

lemma to_from_le_bytes [bytes_simps]: "to_le_bytes (length bs) (from_le_bytes bs) = bs"
proof (induction bs)
  case Nil
  then show ?case by simp
next
  case (Cons b bs)
  have b: "unat b < 256"
    by (rule unat_byte_lt)
  then have "(unat b + 256 * from_le_bytes bs) mod 256 = unat b"
    and "(unat b + 256 * from_le_bytes bs) div 256 = from_le_bytes bs"
    by simp_all
  then show ?case
    using Cons.IH by simp
qed

lemma two_pow_64_bytes: "(256::nat) ^ 8 = 2 ^ 64"
  by simp

section \<open>Stateful components\<close>

text \<open>
  A component is a step function on its state, one step per call with its arguments. An
  invariant that every call keeps holds after every sequence of calls.
\<close>

definition run_ops :: "('s \<Rightarrow> 'op \<Rightarrow> 's) \<Rightarrow> 's \<Rightarrow> 'op list \<Rightarrow> 's" where
  "run_ops step s ops = foldl step s ops"

locale state_machine =
  fixes step :: "'s \<Rightarrow> 'op \<Rightarrow> 's"
    and inv :: "'s \<Rightarrow> bool"
  assumes step_inv: "inv s \<Longrightarrow> inv (step s c)"
begin

lemma run_inv: "inv s \<Longrightarrow> inv (run_ops step s ops)"
  unfolding run_ops_def
  by (induction ops arbitrary: s) (simp_all add: step_inv)

lemma run_append: "run_ops step s (xs @ ys) = run_ops step (run_ops step s xs) ys"
  by (simp add: run_ops_def)

end

text \<open>
  A component with a monotone measure: a quantity no call decreases.
\<close>

locale monotone_machine = state_machine step inv
  for step :: "'s \<Rightarrow> 'op \<Rightarrow> 's" and inv :: "'s \<Rightarrow> bool" +
  fixes level :: "'s \<Rightarrow> nat"
  assumes step_level: "inv s \<Longrightarrow> level s \<le> level (step s c)"
begin

lemma run_level: "inv s \<Longrightarrow> level s \<le> level (run_ops step s ops)"
proof (induction ops arbitrary: s)
  case Nil
  then show ?case by (simp add: run_ops_def)
next
  case (Cons c ops)
  have "level s \<le> level (step s c)"
    by (rule step_level [OF Cons.prems])
  also have "\<dots> \<le> level (run_ops step (step s c) ops)"
    by (rule Cons.IH [OF step_inv [OF Cons.prems]])
  finally show ?case by (simp add: run_ops_def)
qed

end

text \<open>
  A handler that reads and changes a state and may fail, its composition by \<open>?\<close>, and partial correctness
  with a postcondition for the result and one for the error.
\<close>

type_synonym ('s, 'e, 'a) handler = "'s \<Rightarrow> 's \<times> ('e + 'a)"

definition h_bind :: "('s, 'e, 'a) handler \<Rightarrow> ('a \<Rightarrow> ('s, 'e, 'b) handler) \<Rightarrow> ('s, 'e, 'b) handler" where
  "h_bind m f s = (case m s of (s', Inl e) \<Rightarrow> (s', Inl e) | (s', Inr a) \<Rightarrow> f a s')"

definition h_lift :: "'e + 'a \<Rightarrow> ('s, 'e, 'a) handler" where
  "h_lift r s = (s, r)"

definition h_triple ::
  "('s \<Rightarrow> bool) \<Rightarrow> ('s, 'e, 'a) handler \<Rightarrow> ('a \<Rightarrow> 's \<Rightarrow> bool) \<Rightarrow> ('s \<Rightarrow> bool) \<Rightarrow> bool" where
  "h_triple P m Q E \<longleftrightarrow>
     (\<forall>s. P s \<longrightarrow> (case m s of (s', Inr a) \<Rightarrow> Q a s' | (s', Inl _) \<Rightarrow> E s'))"

lemma h_tripleI:
  assumes "\<And>s s' r. P s \<Longrightarrow> m s = (s', r) \<Longrightarrow> case r of Inr a \<Rightarrow> Q a s' | Inl _ \<Rightarrow> E s'"
  shows "h_triple P m Q E"
  using assms unfolding h_triple_def by (auto split: prod.split sum.split)

lemma h_triple_apply:
  "h_triple P m Q E \<Longrightarrow> P s \<Longrightarrow> m s = (s', r) \<Longrightarrow> case r of Inr a \<Rightarrow> Q a s' | Inl _ \<Rightarrow> E s'"
  unfolding h_triple_def by (auto split: sum.splits dest!: spec [of _ s])

lemma h_triple_bind:
  assumes "h_triple P m R E" and "\<And>a. h_triple (R a) (f a) Q E"
  shows "h_triple P (h_bind m f) Q E"
proof (rule h_tripleI)
  fix s s' r
  assume s: "P s" and step: "h_bind m f s = (s', r)"
  obtain s1 r1 where m: "m s = (s1, r1)"
    by (cases "m s")
  show "case r of Inr a \<Rightarrow> Q a s' | Inl _ \<Rightarrow> E s'"
    using h_triple_apply [OF assms(1) s m] h_triple_apply [OF assms(2), of _ s1 s' r] step m
    by (cases r1) (auto simp: h_bind_def)
qed

lemma h_bind_Inr: "h_bind m f s = (s', Inr b) \<longleftrightarrow> (\<exists>s1 a. m s = (s1, Inr a) \<and> f a s1 = (s', Inr b))"
  by (auto simp: h_bind_def split: prod.splits sum.splits)

lemma h_lift_Inr: "h_lift r s = (s', Inr a) \<longleftrightarrow> s' = s \<and> r = Inr a"
  by (auto simp: h_lift_def)

lemma h_triple_lift: "(\<And>s a. P s \<Longrightarrow> r = Inr a \<Longrightarrow> Q a s) \<Longrightarrow> (\<And>s. P s \<Longrightarrow> E s) \<Longrightarrow> h_triple P (h_lift r) Q E"
  by (cases r) (simp_all add: h_triple_def h_lift_def)

lemma h_triple_weaken:
  "h_triple P m Q E \<Longrightarrow> (\<And>s. P' s \<Longrightarrow> P s) \<Longrightarrow> (\<And>a s. Q a s \<Longrightarrow> Q' a s) \<Longrightarrow> (\<And>s. E s \<Longrightarrow> E' s) \<Longrightarrow> h_triple P' m Q' E'"
  unfolding h_triple_def by (fastforce split: prod.splits sum.splits)

section \<open>Ordered maps and slices\<close>

text \<open>A \<open>BTreeMap\<close> is the list of its bindings in key order; \<open>chunks_of\<close> is \<open>slice::chunks\<close>.\<close>

fun btree_insert :: "'k::linorder \<Rightarrow> 'v \<Rightarrow> ('k \<times> 'v) list \<Rightarrow> ('k \<times> 'v) list" where
  "btree_insert k v [] = [(k, v)]"
| "btree_insert k v ((k', v') # bs) =
     (if k < k' then (k, v) # (k', v') # bs
      else if k = k' then (k, v) # bs
      else (k', v') # btree_insert k v bs)"

definition btree :: "('k::linorder \<times> 'v) list \<Rightarrow> bool" where
  "btree bs \<longleftrightarrow> sorted_wrt (<) (map fst bs)"

lemma btree_Nil [simp]: "btree []"
  by (simp add: btree_def)

lemma btree_Cons [simp]: "btree ((k, v) # bs) \<longleftrightarrow> (\<forall>k'\<in>fst ` set bs. k < k') \<and> btree bs"
  by (simp add: btree_def)

lemma btree_insert_keys [simp]: "fst ` set (btree_insert k v bs) = insert k (fst ` set bs)"
  by (induction k v bs rule: btree_insert.induct) (simp_all add: insert_commute)

lemma btree_insert [simp]: "btree bs \<Longrightarrow> btree (btree_insert k v bs)"
proof (induction k v bs rule: btree_insert.induct)
  case (2 k v k' v' bs)
  then have "k' < k \<Longrightarrow> \<forall>x\<in>fst ` set (btree_insert k v bs). k' < x"
    unfolding btree_insert_keys by simp
  with 2 show ?case
    by (auto dest: less_trans)
qed simp

lemma btree_distinct: "btree bs \<Longrightarrow> distinct (map fst bs)"
  by (simp add: btree_def strict_sorted_iff)

lemma map_of_btree_insert: "btree bs \<Longrightarrow> map_of (btree_insert k v bs) = (map_of bs)(k \<mapsto> v)"
proof (induction bs)
  case (Cons b bs)
  then show ?case
    by (cases b) (auto simp: fun_eq_iff)
qed simp

lemma btree_last_key:
  assumes "btree bs" and "bs \<noteq> []" and "k \<in> fst ` set bs"
  shows "k \<le> fst (last bs)"
  using assms
proof (induction bs)
  case (Cons b bs)
  show ?case
  proof (cases "bs = []")
    case False
    then have "fst b < fst (last bs)"
      using Cons.prems(1) by (cases b) simp
    then show ?thesis
      using False Cons by (cases b) (auto simp: less_imp_le)
  qed (use Cons in auto)
qed simp

function chunks_of :: "nat \<Rightarrow> 'a list \<Rightarrow> 'a list list" where
  "chunks_of n xs = (if xs = [] \<or> n = 0 then [] else take n xs # chunks_of n (drop n xs))"
  by pat_completeness auto
termination by (relation "measure (\<lambda>(n, xs). length xs)") auto

declare chunks_of.simps [simp del]

lemma chunks_of_Nil [simp]: "chunks_of n [] = []"
  by (simp add: chunks_of.simps)

lemma concat_chunks_of: "0 < n \<Longrightarrow> concat (chunks_of n xs) = xs"
proof (induction n xs rule: chunks_of.induct)
  case (1 n xs)
  then show ?case
    by (cases "xs = []") (simp_all add: chunks_of.simps [of n xs])
qed

lemma chunks_of_length: "c \<in> set (chunks_of n xs) \<Longrightarrow> c \<noteq> [] \<and> length c \<le> n"
proof (induction n xs rule: chunks_of.induct)
  case (1 n xs)
  then show ?case
    by (subst (asm) (2) chunks_of.simps) (auto split: if_splits)
qed

lemmas result_elims = and_then_eq_Inr ok_or_eq_Inr map_err_eq_Inr ensure_eq_Inr

end
