(* ===== verification/Float64.thy ===== *)
theory Float64
  imports Pay_Prelude "HOL-Library.Log_Nat"
begin

text \<open>
  The binary64 arithmetic of Rust's \<open>f64\<close> that the repository uses on money: values as rationals, every
  operation rounded to the nearest representable number, ties to even. The two zeros are one value: no
  modelled code divides by a computed number or inspects a sign bit.

  The lemmas bound the rounding error of an operation and show that small integers are exact.
\<close>

datatype f64 =
    NaN
  | Infinity bool
  | Finite rat

definition round_half_even :: "rat \<Rightarrow> int" where
  "round_half_even q =
     (let f = \<lfloor>q\<rfloor>; r = q - of_int f in
      if r < 1 / 2 then f else if 1 / 2 < r then f + 1 else if even f then f else f + 1)"

definition floor_log2 :: "rat \<Rightarrow> int" where
  "floor_log2 a =
     (case quotient_of a of (p, q) \<Rightarrow>
      let k = bitlen p - bitlen q in
      if 2 powi k \<le> a then k else k - 1)"

definition ulp :: "rat \<Rightarrow> rat" where
  "ulp a = 2 powi (max (floor_log2 a - 52) (- 1074))"

definition round_f64 :: "rat \<Rightarrow> f64" where
  "round_f64 x =
     (if x = 0 then Finite 0
      else
        let a = \<bar>x\<bar>; u = ulp a; m = of_int (round_half_even (a / u)) * u in
        if 2 ^ 1024 \<le> m then Infinity (x < 0) else Finite (sgn x * m))"

definition f64_of_nat :: "nat \<Rightarrow> f64" where
  "f64_of_nat n = round_f64 (of_nat n)"

fun f64_add :: "f64 \<Rightarrow> f64 \<Rightarrow> f64" where
  "f64_add (Finite a) (Finite b) = round_f64 (a + b)"
| "f64_add (Infinity s) (Infinity t) = (if s = t then Infinity s else NaN)"
| "f64_add (Infinity s) (Finite _) = Infinity s"
| "f64_add (Finite _) (Infinity t) = Infinity t"
| "f64_add _ _ = NaN"

fun f64_mul :: "f64 \<Rightarrow> f64 \<Rightarrow> f64" where
  "f64_mul (Finite a) (Finite b) = round_f64 (a * b)"
| "f64_mul (Infinity s) (Infinity t) = Infinity (s \<noteq> t)"
| "f64_mul (Infinity s) (Finite b) = (if b = 0 then NaN else Infinity (s \<noteq> (b < 0)))"
| "f64_mul (Finite a) (Infinity t) = (if a = 0 then NaN else Infinity ((a < 0) \<noteq> t))"
| "f64_mul _ _ = NaN"

text \<open>Division by a constant that is finite and not zero.\<close>

fun f64_div_const :: "f64 \<Rightarrow> rat \<Rightarrow> f64" where
  "f64_div_const (Finite a) c = round_f64 (a / c)"
| "f64_div_const (Infinity s) c = Infinity (s \<noteq> (c < 0))"
| "f64_div_const NaN c = NaN"

text \<open>
  \<open>10f64.powi(n)\<close>, correctly rounded. Rust leaves its precision open; up to \<open>n = 22\<close> every power is
  representable, so repeated multiplication gives this value too.
\<close>

definition ten_powi :: "nat \<Rightarrow> f64" where
  "ten_powi n = round_f64 (10 ^ n)"

fun is_finite :: "f64 \<Rightarrow> bool" where
  "is_finite (Finite _) = True"
| "is_finite _ = False"

fun f64_less :: "f64 \<Rightarrow> f64 \<Rightarrow> bool" where
  "f64_less (Finite a) (Finite b) = (a < b)"
| "f64_less (Infinity s) (Finite _) = s"
| "f64_less (Finite _) (Infinity t) = (\<not> t)"
| "f64_less (Infinity s) (Infinity t) = (s \<and> \<not> t)"
| "f64_less _ _ = False"

definition f64_le :: "f64 \<Rightarrow> f64 \<Rightarrow> bool" where
  "f64_le x y \<longleftrightarrow> x \<noteq> NaN \<and> y \<noteq> NaN \<and> (f64_less x y \<or> x = y)"

text \<open>\<open>ceil\<close> and \<open>round\<close> (half away from zero): an integer that results is representable.\<close>

fun f64_ceil :: "f64 \<Rightarrow> f64" where
  "f64_ceil (Finite a) = Finite (of_int \<lceil>a\<rceil>)"
| "f64_ceil x = x"

fun f64_round :: "f64 \<Rightarrow> f64" where
  "f64_round (Finite a) = Finite (sgn a * of_int \<lfloor>\<bar>a\<bar> + 1 / 2\<rfloor>)"
| "f64_round x = x"

text \<open>\<open>as u64\<close> truncates and saturates, and sends \<open>NaN\<close> to zero.\<close>

fun f64_to_u64 :: "f64 \<Rightarrow> nat" where
  "f64_to_u64 (Finite a) = min (nat \<lfloor>a\<rfloor>) (2 ^ 64 - 1)"
| "f64_to_u64 (Infinity s) = (if s then 0 else 2 ^ 64 - 1)"
| "f64_to_u64 NaN = 0"


section \<open>Rounding\<close>

lemma bitlen_powi:
  assumes "0 < p"
  shows "2 powi (bitlen p - 1) \<le> (of_int p :: rat)" and "(of_int p :: rat) < 2 powi bitlen p"
proof -
  have b: "2 ^ nat (bitlen p - 1) \<le> p" "p < 2 ^ nat (bitlen p)"
    using bitlen_bounds [OF assms] by auto
  have pos: "0 < bitlen p"
    using b(2) assms by (cases "0 < bitlen p") simp_all
  have "(of_int (2 ^ nat (bitlen p - 1)) :: rat) \<le> of_int p" "(of_int p :: rat) < of_int (2 ^ nat (bitlen p))"
    using b by (simp_all only: of_int_le_iff of_int_less_iff)
  then show "2 powi (bitlen p - 1) \<le> (of_int p :: rat)" "(of_int p :: rat) < 2 powi bitlen p"
    using pos by (simp_all add: power_int_def)
qed

lemma floor_log2_bounds:
  assumes "0 < a"
  shows "2 powi floor_log2 a \<le> a" and "a < 2 powi (floor_log2 a + 1)"
proof -
  obtain p q where pq: "quotient_of a = (p, q)"
    by (cases "quotient_of a")
  have a: "a = of_int p / of_int q" and q: "0 < q"
    using quotient_of_div [OF pq] quotient_of_denom_pos [OF pq] by simp_all
  have p: "0 < p"
    using assms q by (simp add: a zero_less_divide_iff)
  let ?k = "bitlen p - bitlen q"
  have "a < 2 powi bitlen p / 2 powi (bitlen q - 1)"
    unfolding a using bitlen_powi [OF p] bitlen_powi [OF q] p q by (intro frac_less) auto
  then have up: "a < 2 powi (?k + 1)"
    by (simp add: power_int_diff [symmetric] algebra_simps)
  have "2 powi (bitlen p - 1) / 2 powi bitlen q \<le> a"
    unfolding a using bitlen_powi [OF p] bitlen_powi [OF q] p q by (intro frac_le) auto
  then have low: "2 powi (?k - 1) \<le> a"
    by (simp add: power_int_diff [symmetric] algebra_simps)
  show "2 powi floor_log2 a \<le> a" "a < 2 powi (floor_log2 a + 1)"
    using up low by (auto simp: floor_log2_def pq Let_def)
qed

lemma powi_less_imp: "2 powi m < (2 powi n :: rat) \<Longrightarrow> m < n"
  by (metis not_less one_le_numeral power_int_increasing)

lemma floor_log2_unique:
  assumes "2 powi e \<le> a" and "a < 2 powi (e + 1)"
  shows "floor_log2 a = e"
proof -
  have "0 < a"
    by (rule less_le_trans [OF _ assms(1)]) simp
  note b = floor_log2_bounds [OF this]
  have "2 powi e < (2 powi (floor_log2 a + 1) :: rat)" "2 powi floor_log2 a < (2 powi (e + 1) :: rat)"
    using assms b by simp_all
  then show ?thesis
    by (auto dest!: powi_less_imp)
qed

lemma round_half_even_near: "\<bar>of_int (round_half_even q) - q\<bar> \<le> 1 / 2"
proof -
  define f where "f = \<lfloor>q\<rfloor>"
  have "of_int f \<le> q" "q < of_int f + 1"
    using floor_correct [of q] by (simp_all add: f_def)
  then show ?thesis
    unfolding round_half_even_def Let_def abs_le_iff f_def [symmetric] by auto
qed

lemma round_half_even_unique:
  assumes "\<bar>of_int m - q\<bar> < 1 / 2"
  shows "round_half_even q = m"
proof -
  have "\<bar>of_int (round_half_even q) - (of_int m :: rat)\<bar> < 1"
    using assms round_half_even_near [of q] unfolding abs_less_iff abs_le_iff by linarith
  then have "\<bar>of_int (round_half_even q - m) :: rat\<bar> < of_int 1"
    by simp
  then show ?thesis
    by (simp only: of_int_abs [symmetric] of_int_less_iff)
qed

lemma round_half_even_int [simp]: "round_half_even (of_int m) = m"
  by (rule round_half_even_unique) simp

text \<open>How a concrete rounding is computed: exponent and significand are given and checked.\<close>

lemma round_f64_normal:
  assumes "2 powi e \<le> x" and "x < 2 powi (e + 1)" and "- 1022 \<le> e"
    and "\<bar>of_int m - x / 2 powi (e - 52)\<bar> < 1 / 2" and "of_int m * 2 powi (e - 52) < (2 ^ 1024 :: rat)"
  shows "round_f64 x = Finite (of_int m * 2 powi (e - 52))"
proof -
  have x: "0 < x"
    by (rule less_le_trans [OF _ assms(1)]) simp
  have "ulp x = 2 powi (e - 52)"
    using assms(3) floor_log2_unique [OF assms(1,2)] by (simp add: ulp_def)
  then show ?thesis
    using x assms(5) round_half_even_unique [OF assms(4)] by (simp add: round_f64_def Let_def)
qed


lemma round_f64_fraction:
  assumes "1 \<le> x * 2 ^ k" and "x * 2 ^ k < 2" and "k \<le> 1022"
    and "\<bar>of_int m - x * 2 ^ (k + 52)\<bar> < 1 / 2" and "m \<le> 2 ^ 53"
  shows "round_f64 x = Finite (of_int m / 2 ^ (k + 52))"
proof -
  have scale: "(2 powi (- int k) :: rat) = 1 / 2 ^ k" "(2 powi (- int k + 1) :: rat) = 2 / 2 ^ k"
    "(2 powi (- int k - 52) :: rat) = 1 / 2 ^ (k + 52)"
    using power_int_minus_divide [of "2 :: rat" "int k"] power_int_diff [of "2 :: rat" 1 "int k"]
      power_int_minus_divide [of "2 :: rat" "int (k + 52)"]
    by (simp_all only: power_int_of_nat power_int_1_right) (simp_all add: add.commute)
  have "(of_int m :: rat) \<le> of_int (2 ^ 53)"
    using assms(5) by (simp only: of_int_le_iff)
  also have "\<dots> \<le> 2 ^ 53 * 2 ^ (k + 52)"
    using mult_left_mono [of 1 "2 ^ (k + 52) :: rat" "2 ^ 53"] by simp
  finally have "of_int m / 2 ^ (k + 52) \<le> (2 ^ 53 :: rat)"
    by (simp add: divide_le_eq)
  then have "of_int m / 2 ^ (k + 52) < (2 ^ 1024 :: rat)"
    by (rule le_less_trans) simp
  moreover have "1 / 2 ^ k \<le> x" "x < 2 / 2 ^ k"
    using assms(1,2) by (simp_all add: divide_le_eq less_divide_eq)
  moreover have "\<bar>of_int m - x / (1 / 2 ^ (k + 52))\<bar> < 1 / 2"
    using assms(4) by (simp only: divide_divide_eq_right div_by_1)
  ultimately show ?thesis
    using round_f64_normal [of "- int k" x m, unfolded scale] assms(3) by (simp only: times_divide_eq_right mult_1_right)
qed

lemma ulp_normal: "2 powi (- 1022) \<le> a \<Longrightarrow> ulp a = 2 powi (floor_log2 a - 52)"
proof -
  assume a: "2 powi (- 1022) \<le> a"
  have "0 < a"
    by (rule less_le_trans [OF _ a]) simp
  then have "2 powi (- 1022) < (2 powi (floor_log2 a + 1) :: rat)"
    using a floor_log2_bounds(2) [of a] by linarith
  then have "- 1022 < floor_log2 a + 1"
    by (rule powi_less_imp)
  then show ?thesis
    by (simp add: ulp_def)
qed

text \<open>The relative error of a rounding to a positive normal number is at most \<open>2\<^sup>-\<^sup>5\<^sup>3\<close>.\<close>

lemma round_f64_error:
  assumes "2 powi (- 1022) \<le> x" and "round_f64 x = Finite y"
  shows "\<bar>y - x\<bar> \<le> x / 2 ^ 53"
proof -
  let ?u = "ulp x"
  have x: "0 < x"
    by (rule less_le_trans [OF _ assms(1)]) simp
  have u: "?u = 2 powi floor_log2 x / 2 ^ 52"
    by (simp add: ulp_normal [OF assms(1)] power_int_diff)
  have pos: "0 < ?u"
    by (simp add: ulp_def)
  have y: "y = of_int (round_half_even (x / ?u)) * ?u"
    using assms(2) x by (auto simp: round_f64_def Let_def split: if_splits)
  have "y - x = (of_int (round_half_even (x / ?u)) - x / ?u) * ?u"
    using pos by (simp add: y left_diff_distrib)
  then have "\<bar>y - x\<bar> = \<bar>of_int (round_half_even (x / ?u)) - x / ?u\<bar> * ?u"
    using pos by (simp add: abs_mult)
  also have "\<dots> \<le> 1 / 2 * ?u"
    using round_half_even_near pos by (intro mult_right_mono) simp_all
  also have "\<dots> \<le> x / 2 ^ 53"
    using floor_log2_bounds(1) [OF x] by (simp add: u field_simps)
  finally show ?thesis .
qed

lemma round_f64_of_nat:
  assumes "n < 2 ^ 53"
  shows "round_f64 (of_nat n) = Finite (of_nat n)"
proof (cases "n = 0")
  case False
  let ?e = "floor_log2 (of_nat n)"
  have "(of_nat 1 :: rat) \<le> of_nat n" "(of_nat n :: rat) < of_nat (2 ^ 53)"
    using False assms by (simp_all only: of_nat_le_iff of_nat_less_iff)
  then have n: "1 \<le> (of_nat n :: rat)" "(of_nat n :: rat) < 2 ^ 53"
    by simp_all
  have b: "2 powi ?e \<le> (of_nat n :: rat)" "(of_nat n :: rat) < 2 powi (?e + 1)"
    using floor_log2_bounds [of "of_nat n"] False by simp_all
  have "2 powi ?e < (2 powi 53 :: rat)" "2 powi 0 < (2 powi (?e + 1) :: rat)"
    using b n by simp_all
  then have "?e < 53" "0 < ?e + 1"
    by (blast dest: powi_less_imp)+
  then have e: "0 \<le> ?e" "?e \<le> 52"
    by simp_all
  then have u: "ulp (of_nat n) = 1 / 2 ^ nat (52 - ?e)"
    using power_int_minus_divide [of "2 :: rat" "52 - ?e"] power_int_of_nat [of "2 :: rat" "nat (52 - ?e)"]
    by (simp add: ulp_def)
  have "of_nat n / ulp (of_nat n) = of_int (int n * 2 ^ nat (52 - ?e))"
    by (simp add: u)
  then have "of_int (round_half_even (of_nat n / ulp (of_nat n))) * ulp (of_nat n) = (of_nat n :: rat)"
    by (simp only: round_half_even_int) (simp add: u)
  moreover have "\<not> (2 ^ 1024 :: rat) \<le> of_nat n"
    using n(2) by simp
  ultimately show ?thesis
    using False by (simp add: round_f64_def Let_def)
qed (simp add: round_f64_def)

lemma ten_powi_exact: "d \<le> 15 \<Longrightarrow> ten_powi d = Finite (10 ^ d)"
proof -
  assume "d \<le> 15"
  then have "(10 :: nat) ^ d \<le> 10 ^ 15"
    by (rule power_increasing) simp
  then show ?thesis
    using round_f64_of_nat [of "10 ^ d"] by (simp add: ten_powi_def)
qed

end
