(* ===== verification/Token_Amount.thy ===== *)
theory Token_Amount
  imports Pay_Prelude
begin

text \<open>
  Decimal token amounts (\<open>parse_token_amount\<close> and \<open>format_token_amount\<close> of
  \<^verbatim>\<open>src/rust/crates/core/src/client/send.rs\<close>), and the parts of Rust's \<open>str\<close> they use:
  UTF-8 strings are byte lists, \<open>trim\<close> strips Unicode white space, \<open>split\<close> cuts at a
  separator, \<open>parse::<u64>\<close> reads a decimal u64.

  The lemmas characterise exactly which strings parse and to what, and that printing an amount
  and parsing it back is the identity.
\<close>

section \<open>Strings\<close>

definition is_ascii_digit :: "char \<Rightarrow> bool" where
  "is_ascii_digit ch \<longleftrightarrow> 48 \<le> (of_char ch :: nat) \<and> (of_char ch :: nat) \<le> 57"

definition digit_value :: "char \<Rightarrow> nat" where
  "digit_value ch = of_char ch - 48"

definition digits_value :: "string \<Rightarrow> nat" where
  "digits_value s = foldl (\<lambda>n ch. 10 * n + digit_value ch) 0 s"

definition digit_char :: "nat \<Rightarrow> char" where
  "digit_char k = char_of (48 + k)"

fun show_nat :: "nat \<Rightarrow> string" where
  "show_nat n = (if n < 10 then [digit_char n] else show_nat (n div 10) @ [digit_char (n mod 10)])"

declare show_nat.simps [simp del]

text \<open>The UTF-8 encodings of the code points with the White\_Space property.\<close>

definition whitespace_utf8 :: "string list" where
  "whitespace_utf8 = map (map char_of)
     ([[9], [10], [11], [12], [13], [32], [194, 133], [194, 160], [225, 154, 128],
       [226, 128, 168], [226, 128, 169], [226, 128, 175], [226, 129, 159], [227, 128, 128 :: nat]]
      @ map (\<lambda>k. [226, 128, k]) [128..<139])"

function strip_leading :: "string list \<Rightarrow> string \<Rightarrow> string" where
  "strip_leading ws s =
     (case find (\<lambda>w. w \<noteq> [] \<and> prefix w s) ws of
        None \<Rightarrow> s
      | Some w \<Rightarrow> strip_leading ws (drop (length w) s))"
  by pat_completeness auto
termination
proof (relation "measure (\<lambda>(ws, s). length s)")
  show "wf (measure (\<lambda>(ws :: string list, s :: string). length s))"
    by simp
next
  fix ws :: "string list" and s w
  assume "find (\<lambda>w. w \<noteq> [] \<and> prefix w s) ws = Some w"
  then have "w \<noteq> []" and "prefix w s"
    by (auto simp: find_Some_iff)
  then have "length s - length w < length s"
    by (cases w; cases s) auto
  then show "((ws, drop (length w) s), (ws, s)) \<in> measure (\<lambda>(ws, s). length s)"
    by simp
qed

declare strip_leading.simps [simp del]

definition trim :: "string \<Rightarrow> string" where
  "trim s =
     rev (strip_leading (map rev whitespace_utf8) (rev (strip_leading whitespace_utf8 s)))"

fun split_on :: "char \<Rightarrow> string \<Rightarrow> string list" where
  "split_on sep [] = [[]]"
| "split_on sep (ch # s) =
     (if ch = sep then [] # split_on sep s
      else (case split_on sep s of [] \<Rightarrow> [[ch]] | p # ps \<Rightarrow> (ch # p) # ps))"

definition to_ascii_lowercase :: "string \<Rightarrow> string" where
  "to_ascii_lowercase s =
     map (\<lambda>ch. let n = of_char ch :: nat in if 65 \<le> n \<and> n \<le> 90 then char_of (n + 32) else ch) s"

definition eq_ignore_ascii_case :: "string \<Rightarrow> string \<Rightarrow> bool" where
  "eq_ignore_ascii_case a b \<longleftrightarrow> to_ascii_lowercase a = to_ascii_lowercase b"

definition strip_suffix :: "string \<Rightarrow> string \<Rightarrow> string option" where
  "strip_suffix suf s = (if suffix suf s then Some (take (length s - length suf) s) else None)"

definition CR :: char where
  "CR = CHR 0x0D"

definition LF :: char where
  "LF = CHR 0x0A"

definition parse_u64 :: "string \<Rightarrow> nat option" where
  "parse_u64 s =
     (let ds = (case s of ch # rest \<Rightarrow> if ch = CHR ''+'' then rest else s | [] \<Rightarrow> []) in
      if ds \<noteq> [] \<and> list_all is_ascii_digit ds then try_from 64 (digits_value ds) else None)"

section \<open>Token amounts\<close>

datatype amount_error =
    DecimalsTooLarge
  | AmountEmpty
  | AmountNegative
  | InvalidAmountPlaces string nat
  | InvalidAmount string
  | AmountTooLarge

definition parse_fraction :: "nat \<Rightarrow> string \<Rightarrow> amount_error + nat" where
  "parse_fraction decimals fraction =
     try_fold (\<lambda>acc (index, byte).
         let digit = digit_value byte; place = 10 ^ (decimals - index - 1) in
         ok_or AmountTooLarge (checked_add 64 acc (wrapping 64 (digit * place))))
       0 (enumerate 0 fraction)"

definition parse_token_amount :: "string \<Rightarrow> nat \<Rightarrow> amount_error + nat" where
  "parse_token_amount input decimals =
     (if 18 < decimals then Inl DecimalsTooLarge
      else
        let s = trim input in
        if s = [] then Inl AmountEmpty
        else if prefix ''-'' s then Inl AmountNegative
        else
          let parts = split_on (CHR ''.'') s;
              whole = (case parts of [] \<Rightarrow> [] | p # _ \<Rightarrow> p);
              fraction = (case parts of _ # p # _ \<Rightarrow> p | _ \<Rightarrow> []) in
          if 2 < length parts \<or> whole = [] \<or> \<not> list_all is_ascii_digit whole
             \<or> \<not> list_all is_ascii_digit fraction \<or> decimals < length fraction
          then Inl (InvalidAmountPlaces s decimals)
          else
            and_then (ok_or (InvalidAmount s) (parse_u64 whole)) (\<lambda>w.
            and_then (ok_or AmountTooLarge (checked_mul 64 w (wrapping 64 (10 ^ decimals))))
              (\<lambda>whole_units.
            and_then (parse_fraction decimals fraction) (\<lambda>fraction_units.
              ok_or AmountTooLarge (checked_add 64 whole_units fraction_units)))))"

text \<open>
  \<open>10_u64.pow\<close> wraps in release builds, and dividing by a scale that wrapped to zero panics:
  \<open>None\<close> is that panic.
\<close>

definition format_token_amount :: "nat \<Rightarrow> nat \<Rightarrow> string option" where
  "format_token_amount raw decimals =
     (if decimals = 0 then Some (show_nat raw)
      else
        let scale = wrapping 64 (10 ^ decimals) in
        if scale = 0 then None
        else
          let whole = raw div scale; fraction = raw mod scale in
          if fraction = 0 then Some (show_nat whole)
          else
            let digits = show_nat fraction;
                padded = replicate (decimals - length digits) (CHR ''0'') @ digits;
                trimmed = rev (dropWhile (\<lambda>ch. ch = CHR ''0'') (rev padded)) in
            Some (show_nat whole @ ''.'' @ trimmed))"

section \<open>Digits\<close>

lemma of_char_digit [simp]: "k < 10 \<Longrightarrow> (of_char (digit_char k) :: nat) = 48 + k"
  by (simp add: digit_char_def of_char_of)

lemma digit_char_simps [simp]:
  "k < 10 \<Longrightarrow> is_ascii_digit (digit_char k)"
  "k < 10 \<Longrightarrow> digit_value (digit_char k) = k"
  by (simp_all add: is_ascii_digit_def digit_value_def)

lemma digits_value_simps [simp]:
  "digits_value [] = 0"
  "digits_value (s @ [ch]) = 10 * digits_value s + digit_value ch"
  by (simp_all add: digits_value_def)

lemma digits_value_append:
  "digits_value (s @ t) = digits_value s * 10 ^ length t + digits_value t"
proof (induction t rule: rev_induct)
  case Nil
  then show ?case by simp
next
  case (snoc ch t)
  then show ?case
    using digits_value_simps(2) [of "s @ t" ch] by (simp add: algebra_simps)
qed

lemma digits_value_Cons:
  "digits_value (ch # s) = digit_value ch * 10 ^ length s + digits_value s"
  using digits_value_append [of "[ch]" s] digits_value_simps(2) [of "[]" ch] by simp

lemma digit_value_lt: "is_ascii_digit ch \<Longrightarrow> digit_value ch < 10"
  by (auto simp: is_ascii_digit_def digit_value_def)

lemma digits_value_lt: "list_all is_ascii_digit s \<Longrightarrow> digits_value s < 10 ^ length s"
proof (induction s)
  case Nil
  then show ?case by simp
next
  case (Cons ch s)
  then have "digit_value ch + 1 \<le> 10" and "digits_value s < 10 ^ length s"
    using digit_value_lt [of ch] by simp_all
  then have "digit_value ch * 10 ^ length s + 10 ^ length s \<le> 10 * 10 ^ length s"
    using mult_le_mono1 [of "digit_value ch + 1" 10 "10 ^ length s"]
    by (simp only: distrib_right mult_1)
  moreover have "(10::nat) ^ length (ch # s) = 10 * 10 ^ length s"
    by simp
  ultimately show ?case
    using \<open>digits_value s < 10 ^ length s\<close> unfolding digits_value_Cons by linarith
qed

lemma show_nat_props:
  "digits_value (show_nat n) = n \<and> list_all is_ascii_digit (show_nat n) \<and> show_nat n \<noteq> []"
proof (induction n rule: show_nat.induct)
  case (1 n)
  show ?case
  proof (cases "n < 10")
    case True
    then show ?thesis
      using digits_value_simps(2) [of "[]" "digit_char n"] by (simp add: show_nat.simps)
  next
    case False
    then show ?thesis
      using "1.IH" by (simp add: show_nat.simps [of n])
  qed
qed

lemma length_show_nat: "n < 10 ^ k \<Longrightarrow> 0 < k \<Longrightarrow> length (show_nat n) \<le> k"
proof (induction n arbitrary: k rule: show_nat.induct)
  case (1 n)
  show ?case
  proof (cases "n < 10")
    case True
    then show ?thesis using "1.prems" by (simp add: show_nat.simps)
  next
    case False
    then have k: "1 < k"
      using "1.prems" by (cases k; cases "k - 1") auto
    then have "n div 10 < 10 ^ (k - 1)"
      using "1.prems"(1) by (cases k) (simp_all add: less_mult_imp_div_less mult.commute)
    then have "length (show_nat (n div 10)) \<le> k - 1"
      using "1.IH" [OF False, of "k - 1"] k by simp
    then show ?thesis
      using False k by (simp add: show_nat.simps [of n])
  qed
qed


section \<open>White space and separators\<close>

lemma digit_not_space:
  assumes "is_ascii_digit ch"
  shows "list_all (\<lambda>w. \<not> prefix w (ch # s)) whitespace_utf8"
    and "list_all (\<lambda>w. \<not> prefix w (ch # s)) (map rev whitespace_utf8)"
proof -
  have "char_of n \<noteq> ch" if "n < 48 \<or> 57 < n" "n < 256" for n :: nat
    using assms that by (auto simp: is_ascii_digit_def of_char_of)
  then show "list_all (\<lambda>w. \<not> prefix w (ch # s)) whitespace_utf8"
    and "list_all (\<lambda>w. \<not> prefix w (ch # s)) (map rev whitespace_utf8)"
    by (simp_all add: whitespace_utf8_def upt_rec)
qed

lemma strip_leading_id:
  "list_all (\<lambda>w. \<not> prefix w s) ws \<Longrightarrow> strip_leading ws s = s"
proof -
  assume "list_all (\<lambda>w. \<not> prefix w s) ws"
  then have "find (\<lambda>w. w \<noteq> [] \<and> prefix w s) ws = None"
    by (auto simp: find_None_iff list_all_iff)
  then show ?thesis
    by (simp add: strip_leading.simps)
qed

lemma trim_id:
  assumes "s \<noteq> []" and "is_ascii_digit (hd s)" and "is_ascii_digit (last s)"
  shows "trim s = s"
proof -
  obtain ch t where s: "s = ch # t" and "is_ascii_digit ch"
    using assms by (cases s) auto
  then have 1: "strip_leading whitespace_utf8 s = s"
    using strip_leading_id digit_not_space(1) by blast
  obtain ch' t' where r: "rev s = ch' # t'" and "is_ascii_digit ch'"
    using assms by (cases "rev s") (auto simp: last_rev hd_rev [symmetric])
  then have "strip_leading (map rev whitespace_utf8) (rev s) = rev s"
    using strip_leading_id digit_not_space(2) by metis
  then show ?thesis
    by (simp add: trim_def 1)
qed

lemma split_on_notin: "sep \<notin> set s \<Longrightarrow> split_on sep s = [s]"
  by (induction s) auto

lemma split_on_nonempty: "split_on sep s \<noteq> []"
  by (induction s) (auto split: list.splits)

lemma split_on_append: "sep \<notin> set s \<Longrightarrow> split_on sep (s @ sep # t) = s # split_on sep t"
  by (induction s) auto

lemma split_on_Cons_other:
  "ch \<noteq> sep \<Longrightarrow> split_on sep (ch # s) = p # ps \<longleftrightarrow> (\<exists>q. p = ch # q \<and> split_on sep s = q # ps)"
  using split_on_nonempty [of sep s] by (cases "split_on sep s") auto

lemma split_on_one: "split_on sep s = [p] \<longleftrightarrow> s = p \<and> sep \<notin> set s"
proof (induction s arbitrary: p)
  case Nil
  then show ?case by auto
next
  case (Cons ch s)
  show ?case
  proof (cases "ch = sep")
    case True
    then show ?thesis by (simp add: split_on_nonempty)
  next
    case False
    have "split_on sep (ch # s) = [p] \<longleftrightarrow> (\<exists>q. p = ch # q \<and> s = q \<and> sep \<notin> set s)"
      unfolding split_on_Cons_other [OF False] Cons.IH by blast
    also have "\<dots> \<longleftrightarrow> ch # s = p \<and> sep \<notin> set (ch # s)"
      using False by auto
    finally show ?thesis .
  qed
qed

lemma split_on_two:
  "split_on sep s = [p, q] \<longleftrightarrow> s = p @ sep # q \<and> sep \<notin> set p \<and> sep \<notin> set q"
proof (induction s arbitrary: p)
  case Nil
  then show ?case by auto
next
  case (Cons ch s)
  show ?case
  proof (cases "ch = sep")
    case True
    have "split_on sep (ch # s) = [p, q] \<longleftrightarrow> p = [] \<and> s = q \<and> sep \<notin> set q"
      using True by (auto simp: split_on_one)
    also have "\<dots> \<longleftrightarrow> ch # s = p @ sep # q \<and> sep \<notin> set p \<and> sep \<notin> set q"
      using True by (cases p) auto
    finally show ?thesis .
  next
    case False
    have "split_on sep (ch # s) = [p, q] \<longleftrightarrow>
        (\<exists>r. p = ch # r \<and> s = r @ sep # q \<and> sep \<notin> set r \<and> sep \<notin> set q)"
      unfolding split_on_Cons_other [OF False] Cons.IH by blast
    also have "\<dots> \<longleftrightarrow> ch # s = p @ sep # q \<and> sep \<notin> set p \<and> sep \<notin> set q"
      using False by (cases p) auto
    finally show ?thesis .
  qed
qed

lemma digits_no_dot: "list_all is_ascii_digit s \<Longrightarrow> CHR ''.'' \<notin> set s"
  by (auto simp: list_all_iff is_ascii_digit_def)

section \<open>Parsing\<close>

lemma parse_fraction_step:
  assumes "list_all is_ascii_digit f" and "i + length f \<le> d" and "d \<le> 18"
    and "acc + digits_value f * 10 ^ (d - i - length f) < 2 ^ 64"
  shows "try_fold (\<lambda>acc (index, byte).
         let digit = digit_value byte; place = 10 ^ (d - index - 1) in
         ok_or AmountTooLarge (checked_add 64 acc (wrapping 64 (digit * place))))
       acc (enumerate i f) = Inr (acc + digits_value f * 10 ^ (d - i - length f))"
  using assms
proof (induction f arbitrary: i acc)
  case Nil
  then show ?case by simp
next
  case (Cons ch f)
  define place where "place = (10::nat) ^ (d - Suc i)"
  have place: "place = 10 ^ length f * 10 ^ (d - Suc i - length f)"
    using Cons.prems(2) by (simp add: place_def power_add [symmetric])
  have split: "digits_value (ch # f) * 10 ^ (d - i - length (ch # f))
      = digit_value ch * place + digits_value f * 10 ^ (d - Suc i - length f)"
    using Cons.prems(2) by (simp add: digits_value_Cons place algebra_simps)
  have "digit_value ch * place < 2 ^ 64" and "acc + digit_value ch * place < 2 ^ 64"
    using Cons.prems(4) split by simp_all
  then have step: "ok_or AmountTooLarge (checked_add 64 acc (wrapping 64 (digit_value ch * place)))
      = Inr (acc + digit_value ch * place)"
    by (simp add: wrapping_def checked_add_def)
  have "try_fold (\<lambda>acc (index, byte).
         let digit = digit_value byte; place = 10 ^ (d - index - 1) in
         ok_or AmountTooLarge (checked_add 64 acc (wrapping 64 (digit * place))))
       (acc + digit_value ch * place) (enumerate (Suc i) f)
      = Inr (acc + digit_value ch * place + digits_value f * 10 ^ (d - Suc i - length f))"
    using Cons.prems split by (intro Cons.IH) (simp_all add: add.assoc)
  then show ?case
    using step unfolding split by (simp add: place_def Let_def add.assoc)
qed

lemma ten_pow_le_18: "d \<le> 18 \<Longrightarrow> (10::nat) ^ d \<le> 10 ^ 18"
  by (rule power_increasing) simp_all

lemma parse_fraction_eq:
  assumes "list_all is_ascii_digit f" and "length f \<le> d" and "d \<le> 18"
  shows "parse_fraction d f = Inr (digits_value f * 10 ^ (d - length f))"
    and "digits_value f * 10 ^ (d - length f) < 10 ^ d"
proof -
  have "digits_value f * 10 ^ (d - length f) < 10 ^ length f * 10 ^ (d - length f)"
    using digits_value_lt [OF assms(1)] by simp
  also have "\<dots> = 10 ^ d"
    using assms(2) by (simp add: power_add [symmetric])
  finally show lt: "digits_value f * 10 ^ (d - length f) < 10 ^ d" .
  have "digits_value f * 10 ^ (d - length f) < 2 ^ 64"
    using lt ten_pow_le_18 [OF assms(3)] by simp
  then show "parse_fraction d f = Inr (digits_value f * 10 ^ (d - length f))"
    using parse_fraction_step [of f 0 d 0] assms by (simp add: parse_fraction_def)
qed

lemma parse_u64_digits:
  assumes "w \<noteq> []" and "list_all is_ascii_digit w"
  shows "parse_u64 w = try_from 64 (digits_value w)"
proof -
  obtain ch t where "w = ch # t" using assms(1) by (cases w) auto
  moreover have "ch \<noteq> CHR ''+''"
    using assms(2) calculation by (auto simp: is_ascii_digit_def)
  ultimately show ?thesis
    using assms by (simp add: parse_u64_def)
qed

lemma parse_u64_show: "n < 2 ^ 64 \<Longrightarrow> parse_u64 (show_nat n) = Some n"
  using show_nat_props [of n] by (simp add: parse_u64_digits try_from_Some)

text \<open>The part of the parser after the shape of the string is known.\<close>

lemma parse_units_eq:
  assumes w: "w \<noteq> []" "list_all is_ascii_digit w"
    and f: "list_all is_ascii_digit f" "length f \<le> d" and d: "d \<le> 18"
  shows "and_then (ok_or (InvalidAmount s) (parse_u64 w)) (\<lambda>w.
      and_then (ok_or AmountTooLarge (checked_mul 64 w (wrapping 64 (10 ^ d)))) (\<lambda>whole_units.
      and_then (parse_fraction d f) (\<lambda>fraction_units.
        ok_or AmountTooLarge (checked_add 64 whole_units fraction_units)))) = Inr n
    \<longleftrightarrow> n = digits_value w * 10 ^ d + digits_value f * 10 ^ (d - length f) \<and> n < 2 ^ 64"
proof -
  have scale: "wrapping 64 (10 ^ d) = 10 ^ d"
    using ten_pow_le_18 [OF d] by (simp add: wrapping_def)
  have key: "digits_value w < 2 ^ 64" if "digits_value w * 10 ^ d + x < 2 ^ 64" for x
  proof -
    have "digits_value w * 1 \<le> digits_value w * 10 ^ d"
      by (rule mult_le_mono2) simp
    then show ?thesis using that by linarith
  qed
  show ?thesis
    using key [of "digits_value f * 10 ^ (d - length f)"]
    unfolding scale parse_u64_digits [OF w] parse_fraction_eq(1) [OF f d]
    by (auto simp: res_simps arith_checked)
qed

lemma parse_token_amount_iff:
  "parse_token_amount s d = Inr n \<longleftrightarrow>
     d \<le> 18 \<and> (\<exists>w f. (trim s = w \<and> f = [] \<or> trim s = w @ ''.'' @ f)
       \<and> w \<noteq> [] \<and> list_all is_ascii_digit w \<and> list_all is_ascii_digit f \<and> length f \<le> d
       \<and> n = digits_value w * 10 ^ d + digits_value f * 10 ^ (d - length f) \<and> n < 2 ^ 64)"
    (is "?L \<longleftrightarrow> ?R")
proof
  assume L: ?L
  have d: "d \<le> 18"
    using L by (simp add: parse_token_amount_def split: if_splits)
  define parts where "parts = split_on (CHR ''.'') (trim s)"
  define w where "w = (case parts of [] \<Rightarrow> [] | p # _ \<Rightarrow> p)"
  define f where "f = (case parts of _ # p # _ \<Rightarrow> p | _ \<Rightarrow> [])"
  have shape: "length parts \<le> 2" "w \<noteq> []" "list_all is_ascii_digit w" "list_all is_ascii_digit f"
      "length f \<le> d"
    and units: "and_then (ok_or (InvalidAmount (trim s)) (parse_u64 w)) (\<lambda>w.
      and_then (ok_or AmountTooLarge (checked_mul 64 w (wrapping 64 (10 ^ d)))) (\<lambda>whole_units.
      and_then (parse_fraction d f) (\<lambda>fraction_units.
        ok_or AmountTooLarge (checked_add 64 whole_units fraction_units)))) = Inr n"
    using L by (simp_all add: parse_token_amount_def Let_def parts_def w_def f_def split: if_splits)
  have "parts = [w] \<and> f = [] \<or> parts = [w, f]"
    using shape(1,2) by (auto simp: w_def f_def split: list.splits)
  then have "trim s = w \<and> f = [] \<or> trim s = w @ ''.'' @ f"
    by (auto simp: parts_def split_on_one split_on_two)
  then show ?R
    using d shape parse_units_eq [OF shape(2-5) d] units by blast
next
  assume R: ?R
  then obtain w f where d: "d \<le> 18" and s: "trim s = w \<and> f = [] \<or> trim s = w @ ''.'' @ f"
    and w: "w \<noteq> []" "list_all is_ascii_digit w"
    and f: "list_all is_ascii_digit f" "length f \<le> d"
    and n: "n = digits_value w * 10 ^ d + digits_value f * 10 ^ (d - length f) \<and> n < 2 ^ 64"
    by blast
  have "split_on (CHR ''.'') (trim s) = [w] \<and> f = [] \<or> split_on (CHR ''.'') (trim s) = [w, f]"
    using s digits_no_dot [OF w(2)] digits_no_dot [OF f(1)]
    by (auto simp: split_on_notin split_on_append)
  moreover have "trim s \<noteq> []" and "\<not> prefix ''-'' (trim s)"
    using s w by (cases w; auto simp: is_ascii_digit_def)+
  ultimately show ?L
    using d w f n parse_units_eq [OF w f d, of "trim s" n]
    by (auto simp: parse_token_amount_def Let_def)
qed

section \<open>Printing\<close>

lemma digits_value_zeros [simp]: "digits_value (replicate k (CHR ''0'')) = 0"
  by (induction k) (simp_all add: digits_value_Cons digit_value_def)

lemma list_all_replicate_zero: "list_all is_ascii_digit (replicate k (CHR ''0''))"
  by (simp add: list_all_iff is_ascii_digit_def)

lemma strip_zeros:
  "\<exists>k. s = rev (dropWhile (\<lambda>ch. ch = CHR ''0'') (rev s)) @ replicate k (CHR ''0'')"
proof -
  let ?t = "takeWhile (\<lambda>ch. ch = CHR ''0'') (rev s)"
  have "rev s = ?t @ dropWhile (\<lambda>ch. ch = CHR ''0'') (rev s)"
    by simp
  then have "s = rev (dropWhile (\<lambda>ch. ch = CHR ''0'') (rev s)) @ rev ?t"
    by (metis rev_append rev_rev_ident)
  moreover have "rev ?t = replicate (length ?t) (CHR ''0'')"
    by (rule replicate_eqI) (auto dest: set_takeWhileD)
  ultimately show ?thesis by metis
qed

lemma trim_amount:
  assumes "w \<noteq> []" "list_all is_ascii_digit w" "f \<noteq> []" "list_all is_ascii_digit f"
  shows "trim w = w" and "trim (w @ ''.'' @ f) = w @ ''.'' @ f"
  using assms by (auto intro!: trim_id simp: list_all_iff hd_append)

lemma format_fraction:
  assumes "0 < fraction" and "fraction < 10 ^ d" and "0 < d"
  defines "padded \<equiv> replicate (d - length (show_nat fraction)) (CHR ''0'') @ show_nat fraction"
  defines "f \<equiv> rev (dropWhile (\<lambda>ch. ch = CHR ''0'') (rev padded))"
  shows "f \<noteq> [] \<and> list_all is_ascii_digit f \<and> length f \<le> d
    \<and> digits_value f * 10 ^ (d - length f) = fraction"
proof -
  have len: "length padded = d"
    using length_show_nat [OF assms(2,3)] by (simp add: padded_def)
  have val: "digits_value padded = fraction"
    using show_nat_props [of fraction] by (simp add: padded_def digits_value_append)
  have dig: "list_all is_ascii_digit padded"
    using show_nat_props [of fraction] list_all_replicate_zero by (simp add: padded_def)
  obtain k where k: "padded = f @ replicate k (CHR ''0'')"
    using strip_zeros [of padded] unfolding f_def by blast
  have "length f + k = d"
    using len k by simp
  moreover have "digits_value f * 10 ^ k = fraction"
    using val unfolding k by (simp add: digits_value_append)
  moreover have "list_all is_ascii_digit f"
    using dig unfolding k by simp
  ultimately show ?thesis
    using assms(1) by (cases f) auto
qed

lemma format_parse_trim:
  assumes "raw < 2 ^ 64" and d: "d \<le> 18"
  shows "\<exists>s. format_token_amount raw d = Some s \<and> parse_token_amount s d = Inr raw \<and> trim s = s"
proof -
  define scale where "scale = (10::nat) ^ d"
  have scale: "wrapping 64 (10 ^ d) = scale" "0 < scale"
    using ten_pow_le_18 [OF d] by (simp_all add: wrapping_def scale_def)
  define w where "w = show_nat (raw div scale)"
  have w: "w \<noteq> []" "list_all is_ascii_digit w" "digits_value w = raw div scale"
    using show_nat_props by (auto simp: w_def)
  show ?thesis
  proof (cases "raw mod scale = 0")
    case True
    then have "format_token_amount raw d = Some w"
      using scale by (cases "d = 0") (simp_all add: format_token_amount_def w_def scale_def Let_def)
    moreover have "raw = digits_value w * 10 ^ d + digits_value [] * 10 ^ (d - length [])"
      using True w(3) by (auto simp: scale_def)
    moreover have "trim w = w"
      using trim_amount(1) [OF w(1,2), of "''0''"] by (simp add: is_ascii_digit_def)
    moreover have "list_all is_ascii_digit [] \<and> length ([] :: string) \<le> d"
      by simp
    ultimately show ?thesis
      using w d assms(1) unfolding parse_token_amount_iff by blast
  next
    case False
    then have d0: "0 < d"
      by (auto simp: scale_def intro: Nat.gr0I)
    define fraction where "fraction = raw mod scale"
    define padded where "padded = replicate (d - length (show_nat fraction)) (CHR ''0'')
      @ show_nat fraction"
    define f where "f = rev (dropWhile (\<lambda>ch. ch = CHR ''0'') (rev padded))"
    have f: "f \<noteq> [] \<and> list_all is_ascii_digit f \<and> length f \<le> d
        \<and> digits_value f * 10 ^ (d - length f) = fraction"
      unfolding f_def padded_def using False scale d0
      by (intro format_fraction) (simp_all add: fraction_def scale_def)
    have "format_token_amount raw d = Some (w @ ''.'' @ f)"
      using False d0 scale
      by (simp add: format_token_amount_def Let_def w_def f_def padded_def fraction_def)
    moreover have "raw = digits_value w * 10 ^ d + digits_value f * 10 ^ (d - length f)"
    proof -
      have "raw = raw div scale * scale + raw mod scale"
        by simp
      then show ?thesis
        using w(3) f by (simp only: fraction_def scale_def)
    qed
    moreover have "trim (w @ ''.'' @ f) = w @ ''.'' @ f"
      using trim_amount(2) [OF w(1,2)] f by blast
    ultimately show ?thesis
      using w f d assms(1) unfolding parse_token_amount_iff by blast
  qed
qed

lemma format_parse:
  assumes "raw < 2 ^ 64" and "d \<le> 18"
  shows "\<exists>s. format_token_amount raw d = Some s \<and> parse_token_amount s d = Inr raw"
  using format_parse_trim [OF assms] by blast

section \<open>Properties\<close>

text \<open>
  C21: which strings are token amounts. \<open>parse_token_amount\<close> accepts exactly the trimmed strings
  made of a non-empty run of digits and optionally a dot and at most \<open>decimals\<close> more digits,
  for at most 18 decimals, whose value fits a u64, and returns exactly that value in raw units;
  every other string is an error.
\<close>
theorem parse_token_amount_exact:
  "parse_token_amount s d = Inr n \<longleftrightarrow>
     d \<le> 18 \<and> (\<exists>w f. (trim s = w \<and> f = [] \<or> trim s = w @ ''.'' @ f)
       \<and> w \<noteq> [] \<and> list_all is_ascii_digit w \<and> list_all is_ascii_digit f \<and> length f \<le> d
       \<and> n = digits_value w * 10 ^ d + digits_value f * 10 ^ (d - length f) \<and> n < 2 ^ 64)"
  by (rule parse_token_amount_iff)

text \<open>
  Printing and parsing round-trip. For at most 18 decimals, \<open>format_token_amount\<close> never
  panics on a u64, and \<open>parse_token_amount\<close> reads back the same raw amount.
\<close>
lemma format_parse_roundtrip:
  assumes "raw < 2 ^ 64" and "d \<le> 18"
  shows "\<exists>s. format_token_amount raw d = Some s \<and> parse_token_amount s d = Inr raw"
  using assms by (rule format_parse)

theorem format_parse_roundtrip_witness:
  "\<exists>s. format_token_amount 1230000 6 = Some s \<and> parse_token_amount s 6 = Inr 1230000"
  by (rule format_parse_roundtrip) simp_all

end
