(* ===== verification/Auth_Intent.thy ===== *)
theory Auth_Intent
  imports Token_Amount
begin

text \<open>
  What a signature is approved for (\<^verbatim>\<open>src/rust/crates/keystore/src/auth.rs\<close>): the intent shown in an
  approval prompt, the amount in ten-thousandths of a dollar that a spending policy reads, and the
  amount bucket that selects a Linux Polkit action.

  Strings are UTF-8 byte lists; where the code counts or classifies characters, \<open>utf8_chars\<close> cuts a
  string into the encodings of its characters. The lemmas show that dollar texts are read exactly and
  rounded up, that a bucket is the least one that covers its amount, and that decorating a prompt
  never changes what a policy judges.
\<close>

section \<open>Characters and words\<close>

definition is_continuation :: "char \<Rightarrow> bool" where
  "is_continuation ch \<longleftrightarrow> 128 \<le> (of_char ch :: nat) \<and> (of_char ch :: nat) < 192"

function utf8_chars :: "string \<Rightarrow> string list" where
  "utf8_chars [] = []"
| "utf8_chars (ch # s) = (ch # takeWhile is_continuation s) # utf8_chars (dropWhile is_continuation s)"
  by pat_completeness auto
termination
  by (relation "measure length") (auto simp: le_imp_less_Suc length_dropWhile_le)

fun words_of :: "string list \<Rightarrow> string list \<Rightarrow> string list" where
  "words_of word [] = (if word = [] then [] else [concat word])"
| "words_of word (ch # cs) =
     (if ch \<in> set whitespace_utf8 then (if word = [] then [] else [concat word]) @ words_of [] cs
      else words_of (word @ [ch]) cs)"

definition split_whitespace :: "string \<Rightarrow> string list" where
  "split_whitespace s = words_of [] (utf8_chars s)"

fun join :: "string \<Rightarrow> string list \<Rightarrow> string" where
  "join sep [] = []"
| "join sep [w] = w"
| "join sep (w # ws) = w @ sep @ join sep ws"

fun contains :: "string \<Rightarrow> string \<Rightarrow> bool" where
  "contains needle [] = (needle = [])"
| "contains needle (ch # s) = (prefix needle (ch # s) \<or> contains needle s)"

fun split_once :: "string \<Rightarrow> string \<Rightarrow> (string \<times> string) option" where
  "split_once sep [] = (if sep = [] then Some ([], []) else None)"
| "split_once sep (ch # s) =
     (if prefix sep (ch # s) then Some ([], drop (length sep) (ch # s))
      else map_option (\<lambda>(a, b). (ch # a, b)) (split_once sep s))"

definition NL2 :: string where
  "NL2 = [char_of (10::nat), char_of (10::nat)]"

section \<open>Dollar amounts\<close>

definition USD_MINOR_UNITS_PER_DOLLAR :: nat where
  "USD_MINOR_UNITS_PER_DOLLAR = 10000"

definition fractional_units :: "string \<Rightarrow> nat option" where
  "fractional_units frac =
     (case foldl (\<lambda>acc b. case acc of
            None \<Rightarrow> None
          | Some (units, multiplier) \<Rightarrow>
              map_option (\<lambda>units. (units, multiplier div 10)) (checked_add 64 units (digit_value b * multiplier)))
         (Some (0, 1000)) (take 4 frac) of
        None \<Rightarrow> None
      | Some (units, _) \<Rightarrow>
          if \<exists>b\<in>set (drop 4 frac). b \<noteq> CHR ''0'' then checked_add 64 units 1 else Some units)"

definition parse_usd_minor_units :: "string \<Rightarrow> nat option" where
  "parse_usd_minor_units input =
     (let amount = (if prefix ''$'' (trim input) then drop 1 (trim input) else trim input) in
      if amount = [] then None
      else
        let parts = split_on (CHR ''.'') amount;
            whole = (case parts of [] \<Rightarrow> [] | p # _ \<Rightarrow> p);
            frac = (case parts of _ # p # _ \<Rightarrow> p | _ \<Rightarrow> []) in
        if 2 < length parts \<or> whole = [] \<or> \<not> list_all is_ascii_digit whole \<or> \<not> list_all is_ascii_digit frac
        then None
        else
          Option.bind (parse_u64 whole) (\<lambda>w.
          Option.bind (checked_mul 64 w 10000) (\<lambda>whole_units.
          Option.bind (fractional_units frac) (\<lambda>frac_units.
          checked_add 64 whole_units frac_units))))"

section \<open>Payment limits\<close>

datatype payment_limit =
    Usd00001 | Usd0001 | Usd0005 | Usd001 | Usd005 | Usd01 | Usd05 | Usd1 | Usd2 | Usd5
  | Usd10 | Usd15 | Usd20 | Usd25 | Usd50 | AboveUsd50

definition BUCKETS :: "(nat \<times> payment_limit) list" where
  "BUCKETS = [(1, Usd00001), (10, Usd0001), (50, Usd0005), (100, Usd001), (500, Usd005), (1000, Usd01),
     (5000, Usd05), (10000, Usd1), (20000, Usd2), (50000, Usd5), (100000, Usd10), (150000, Usd15),
     (200000, Usd20), (250000, Usd25), (500000, Usd50)]"

definition from_minor_units :: "nat \<Rightarrow> payment_limit" where
  "from_minor_units units =
     (case find (\<lambda>(ceiling, _). units \<le> ceiling) BUCKETS of Some (_, limit) \<Rightarrow> limit | None \<Rightarrow> AboveUsd50)"

definition limit_from_amount :: "string \<Rightarrow> payment_limit option" where
  "limit_from_amount amount = map_option from_minor_units (parse_usd_minor_units amount)"

fun limit_label :: "payment_limit \<Rightarrow> string" where
  "limit_label Usd00001 = ''$0.0001''"
| "limit_label Usd0001 = ''$0.001''"
| "limit_label Usd0005 = ''$0.005''"
| "limit_label Usd001 = ''$0.01''"
| "limit_label Usd005 = ''$0.05''"
| "limit_label Usd01 = ''$0.10''"
| "limit_label Usd05 = ''$0.50''"
| "limit_label Usd1 = ''$1''"
| "limit_label Usd2 = ''$2''"
| "limit_label Usd5 = ''$5''"
| "limit_label Usd10 = ''$10''"
| "limit_label Usd15 = ''$15''"
| "limit_label Usd20 = ''$20''"
| "limit_label Usd25 = ''$25''"
| "limit_label Usd50 = ''$50''"
| "limit_label AboveUsd50 = ''more than $50''"

fun limit_suffix :: "payment_limit \<Rightarrow> string" where
  "limit_suffix Usd00001 = ''00001''"
| "limit_suffix Usd0001 = ''0001''"
| "limit_suffix Usd0005 = ''0005''"
| "limit_suffix Usd001 = ''001''"
| "limit_suffix Usd005 = ''005''"
| "limit_suffix Usd01 = ''01''"
| "limit_suffix Usd05 = ''05''"
| "limit_suffix Usd1 = ''1''"
| "limit_suffix Usd2 = ''2''"
| "limit_suffix Usd5 = ''5''"
| "limit_suffix Usd10 = ''10''"
| "limit_suffix Usd15 = ''15''"
| "limit_suffix Usd20 = ''20''"
| "limit_suffix Usd25 = ''25''"
| "limit_suffix Usd50 = ''50''"
| "limit_suffix AboveUsd50 = ''above-50''"

section \<open>Prompt texts\<close>

datatype payment_amount_kind = Exact | Maximum | Escrow

fun headline :: "payment_amount_kind \<Rightarrow> string" where
  "headline Exact = ''authorize a payment.''"
| "headline Maximum = ''authorize a series of payments.''"
| "headline Escrow = ''authorize a channel escrow deposit.''"

fun field_label :: "payment_amount_kind \<Rightarrow> string" where
  "field_label Exact = ''amount''"
| "field_label Maximum = ''total allowance''"
| "field_label Escrow = ''escrow deposit''"

definition prompt_detail :: "string \<Rightarrow> string" where
  "prompt_detail value =
     (let v = trim (join '' '' (split_whitespace value)) in if v = [] then ''unknown'' else v)"

definition truncate_detail :: "string \<Rightarrow> nat \<Rightarrow> string" where
  "truncate_detail value max_chars =
     (let cs = utf8_chars value in
      if length cs \<le> max_chars then concat (take max_chars cs)
      else if max_chars \<le> 3 then replicate max_chars (CHR ''.'')
      else concat (take (max_chars - 3) cs) @ ''...'')"

definition meaningful_operator :: "string \<Rightarrow> string option" where
  "meaningful_operator value =
     (let v = trim (join '' '' (split_whitespace value)) in
      if v = [] then None
      else if to_ascii_lowercase v \<in> {''unknown'', ''localhost'', ''127.0.0.1'', ''::1'', ''[::1]''} then None
      else Some (truncate_detail v 64))"

definition abbreviate_address :: "string \<Rightarrow> string" where
  "abbreviate_address value =
     (let v = prompt_detail value; cs = utf8_chars v in
      if length cs \<le> 12 then v
      else concat (take 4 cs) @ ''...'' @ concat (drop (length cs - 4) cs))"

definition payment_authorization_message ::
  "payment_amount_kind \<Rightarrow> string \<Rightarrow> string option \<Rightarrow> string \<Rightarrow> string" where
  "payment_authorization_message amount_kind amount reason operator =
     headline amount_kind @ NL2 @ field_label amount_kind @ '': '' @ truncate_detail (prompt_detail amount) 48
     @ (case reason of None \<Rightarrow> [] | Some r \<Rightarrow> NL2 @ ''reason: '' @ truncate_detail (prompt_detail r) 64)
     @ (case meaningful_operator operator of None \<Rightarrow> [] | Some label \<Rightarrow> NL2 @ ''operator: '' @ label)"

definition batch_authorization_message ::
  "string \<Rightarrow> nat \<Rightarrow> string \<Rightarrow> string \<Rightarrow> string \<Rightarrow> string \<Rightarrow> string \<Rightarrow> string" where
  "batch_authorization_message account recipient_count recipient_total max_total currency network hash_prefix =
     (let account = truncate_detail (prompt_detail account) 64;
          currency = truncate_detail (prompt_detail currency) 24;
          network = truncate_detail (prompt_detail network) 24;
          hash_prefix = truncate_detail (prompt_detail hash_prefix) 24 in
      ''authorize a batch payout from '' @ account @ ''.'' @ NL2
      @ ''recipients: '' @ show_nat recipient_count @ NL2
      @ ''recipient total: '' @ truncate_detail (prompt_detail recipient_total) 32 @ '' '' @ currency @ NL2
      @ ''maximum total: '' @ truncate_detail (prompt_detail max_total) 32 @ '' '' @ currency @ NL2
      @ ''network: '' @ network @ NL2 @ ''manifest: '' @ hash_prefix)"

definition trim_end_dots :: "string \<Rightarrow> string" where
  "trim_end_dots s = rev (dropWhile (\<lambda>ch. ch = CHR ''.'') (rev s))"

definition payment_message_with_account :: "string \<Rightarrow> string \<Rightarrow> string" where
  "payment_message_with_account message account =
     (let trimmed = strip_leading whitespace_utf8 message in
      if \<not> prefix ''authorize a payment of '' trimmed \<and> \<not> prefix (headline Exact) trimmed
         \<and> \<not> prefix (headline Maximum) trimmed \<and> \<not> prefix (headline Escrow) trimmed
      then message
      else
        let account = truncate_detail (prompt_detail account) 64;
            parts = (case split_once NL2 message of
                 None \<Rightarrow> (message, None) | Some (first, details) \<Rightarrow> (first, Some details));
            line = trim (trim_end_dots (fst parts)) in
        if line = [] \<or> suffix ('' from '' @ account) line then message
        else
          let first = line @ '' from '' @ account @ ''.'' in
          case snd parts of None \<Rightarrow> first | Some details \<Rightarrow> first @ NL2 @ details)"

definition DEFAULT_AUTH_REASON :: string where
  "DEFAULT_AUTH_REASON = ''authorize pay to use your payment account''"

definition normalize_message :: "string \<Rightarrow> string" where
  "normalize_message reason =
     (let v = trim (join '' '' (split_whitespace reason)) in if v = [] then DEFAULT_AUTH_REASON else v)"

section \<open>Intents\<close>

datatype auth_intent =
    AuthorizePayment string "payment_limit option" "nat option" bool
  | CreateAccount string
  | ImportAccount string
  | ExportAccount string
  | DeleteAccount string
  | OpenSession string
  | UseGatewayFeePayer string
  | UseAccount string
  | SignIn string
  | AuthorizeBatch string "payment_limit option" "nat option"

definition authorize_payment :: "string \<Rightarrow> string \<Rightarrow> auth_intent" where
  "authorize_payment amount description =
     AuthorizePayment (''authorize payment of '' @ amount @ '' for '' @ description) (limit_from_amount amount)
       (parse_usd_minor_units amount) False"

definition authorize_payment_details :: "string \<Rightarrow> string \<Rightarrow> string \<Rightarrow> auth_intent" where
  "authorize_payment_details amount reason operator =
     AuthorizePayment (payment_authorization_message Exact amount (Some reason) operator)
       (limit_from_amount amount) (parse_usd_minor_units amount) False"

definition authorize_subscription :: "string \<Rightarrow> string \<Rightarrow> string \<Rightarrow> auth_intent" where
  "authorize_subscription amount reason operator =
     AuthorizePayment (payment_authorization_message Exact amount (Some reason) operator)
       (limit_from_amount amount) (parse_usd_minor_units amount) True"

definition authorize_channel_escrow :: "string \<Rightarrow> string \<Rightarrow> string \<Rightarrow> auth_intent" where
  "authorize_channel_escrow amount reason operator =
     AuthorizePayment (payment_authorization_message Escrow amount (Some reason) operator)
       (limit_from_amount amount) (parse_usd_minor_units amount) False"

definition with_account_context :: "auth_intent \<Rightarrow> string \<Rightarrow> auth_intent" where
  "with_account_context intent account =
     (case intent of
        AuthorizePayment message limit amount recurring \<Rightarrow>
          AuthorizePayment (payment_message_with_account message (prompt_detail account)) limit amount recurring
      | other \<Rightarrow> other)"

definition LISTED_SPLITS :: nat where
  "LISTED_SPLITS = 3"

definition with_payment_destinations :: "auth_intent \<Rightarrow> string \<Rightarrow> (string \<times> string) list \<Rightarrow> auth_intent" where
  "with_payment_destinations intent recipient splits =
     (case intent of
        AuthorizePayment message limit amount recurring \<Rightarrow>
          let message = message @ NL2 @ ''to: '' @ abbreviate_address recipient;
              listed = join '', '' (map (\<lambda>(recipient, amount).
                truncate_detail (prompt_detail amount) 24 @ '' '' @ abbreviate_address recipient)
                (take LISTED_SPLITS splits));
              message = (if splits = [] then message
                else message @ NL2 @ ''splits ('' @ show_nat (length splits) @ ''): '' @ listed
                  @ (if LISTED_SPLITS < length splits
                     then '', +'' @ show_nat (length splits - LISTED_SPLITS) @ '' more'' else [])) in
          AuthorizePayment message limit amount recurring
      | other \<Rightarrow> other)"

definition default_payment :: auth_intent where
  "default_payment = AuthorizePayment ''authorize a payment with pay'' None None False"

definition send_sol :: "string \<Rightarrow> auth_intent" where
  "send_sol recipient = AuthorizePayment (''authorize sending SOL to '' @ recipient) None None False"

definition create_account :: "string \<Rightarrow> auth_intent" where
  "create_account account = CreateAccount (''set up the \"'' @ account @ ''\" payment account'')"

definition import_account :: "string \<Rightarrow> auth_intent" where
  "import_account account = ImportAccount (''import the \"'' @ account @ ''\" payment account'')"

definition export_account :: "string \<Rightarrow> auth_intent" where
  "export_account account = ExportAccount (''export the \"'' @ account @ ''\" payment account'')"

definition delete_account :: "string \<Rightarrow> auth_intent" where
  "delete_account account = DeleteAccount (''delete the \"'' @ account @ ''\" payment account'')"

definition open_session :: auth_intent where
  "open_session = OpenSession ''authorize opening a pay session''"

definition use_gateway_fee_payer :: auth_intent where
  "use_gateway_fee_payer = UseGatewayFeePayer ''use your pay account as the gateway fee payer''"

definition use_account :: "string \<Rightarrow> auth_intent" where
  "use_account message = UseAccount message"

definition sign_in :: "string \<Rightarrow> auth_intent" where
  "sign_in message = SignIn (normalize_message message)"

definition authorize_spend_up_to :: "string option \<Rightarrow> string \<Rightarrow> string \<Rightarrow> auth_intent" where
  "authorize_spend_up_to amount limit operator =
     AuthorizePayment (payment_authorization_message Maximum limit None operator)
       (Option.bind amount limit_from_amount) (parse_usd_minor_units limit) False"

definition authorize_batch ::
  "string \<Rightarrow> nat \<Rightarrow> string \<Rightarrow> string \<Rightarrow> string \<Rightarrow> string \<Rightarrow> string \<Rightarrow> string \<Rightarrow> auth_intent" where
  "authorize_batch account recipient_count recipient_total max_total max_total_usd currency network hash_prefix =
     AuthorizeBatch (batch_authorization_message account recipient_count recipient_total max_total currency
         network hash_prefix)
       (limit_from_amount max_total_usd) (parse_usd_minor_units max_total_usd)"

definition payment_limit_from_message :: "string \<Rightarrow> payment_limit option" where
  "payment_limit_from_message message =
     (let tail = dropWhile (\<lambda>ch. ch \<noteq> CHR ''$'') message in
      if tail = [] then None
      else limit_from_amount (trim_end_dots
        (takeWhile (\<lambda>ch. is_ascii_digit ch \<or> ch = CHR ''$'' \<or> ch = CHR ''.'') tail)))"

definition from_reason :: "string \<Rightarrow> auth_intent" where
  "from_reason reason =
     (let message = normalize_message reason; lower = to_ascii_lowercase message in
      if prefix ''authorize payment'' lower \<or> prefix ''authorize a payment'' lower
         \<or> prefix ''authorize sending'' lower
      then AuthorizePayment message (payment_limit_from_message message) None False
      else if prefix ''set up'' lower \<or> prefix ''store keypair'' lower then CreateAccount message
      else if prefix ''import'' lower then ImportAccount message
      else if prefix ''export'' lower then ExportAccount message
      else if prefix ''delete'' lower then DeleteAccount message
      else if prefix ''authorize opening a pay session'' lower then OpenSession message
      else if contains ''gateway fee payer'' lower then UseGatewayFeePayer message
      else UseAccount message)"

fun intent_message :: "auth_intent \<Rightarrow> string" where
  "intent_message (AuthorizePayment message _ _ _) = message"
| "intent_message (AuthorizeBatch message _ _) = message"
| "intent_message (CreateAccount message) = message"
| "intent_message (ImportAccount message) = message"
| "intent_message (ExportAccount message) = message"
| "intent_message (DeleteAccount message) = message"
| "intent_message (OpenSession message) = message"
| "intent_message (UseGatewayFeePayer message) = message"
| "intent_message (UseAccount message) = message"
| "intent_message (SignIn message) = message"

definition intent_limit :: "auth_intent \<Rightarrow> payment_limit option" where
  "intent_limit intent =
     (case intent of AuthorizePayment _ limit _ _ \<Rightarrow> limit | AuthorizeBatch _ limit _ \<Rightarrow> limit | _ \<Rightarrow> None)"

definition amount_minor_units :: "auth_intent \<Rightarrow> nat option" where
  "amount_minor_units intent =
     (case intent of AuthorizePayment _ _ amount _ \<Rightarrow> amount | AuthorizeBatch _ _ amount \<Rightarrow> amount | _ \<Rightarrow> None)"

definition moves_money :: "auth_intent \<Rightarrow> bool" where
  "moves_money intent = (case intent of AuthorizePayment _ _ _ _ \<Rightarrow> True | AuthorizeBatch _ _ _ \<Rightarrow> True | _ \<Rightarrow> False)"

definition is_recurring :: "auth_intent \<Rightarrow> bool" where
  "is_recurring intent = (case intent of AuthorizePayment _ _ _ recurring \<Rightarrow> recurring | _ \<Rightarrow> False)"

definition signs_raw_proof :: "auth_intent \<Rightarrow> bool" where
  "signs_raw_proof intent = (case intent of SignIn _ \<Rightarrow> True | _ \<Rightarrow> False)"

section \<open>Reading dollar amounts\<close>

lemma fractional_fold:
  assumes "list_all is_ascii_digit ds" and "length ds \<le> k" and "k \<le> 4" and "units < 10 ^ 4"
    and "units + digits_value ds * 10 ^ (k - length ds) < 10 ^ 4"
  shows "\<exists>m. foldl (\<lambda>acc b. case acc of
            None \<Rightarrow> None
          | Some (units, multiplier) \<Rightarrow>
              map_option (\<lambda>units. (units, multiplier div 10)) (checked_add 64 units (digit_value b * multiplier)))
         (Some (units, 10 ^ k div 10)) ds = Some (units + digits_value ds * 10 ^ (k - length ds), m)"
  using assms
proof (induction ds arbitrary: k units)
  case Nil
  then show ?case by simp
next
  case (Cons b ds)
  obtain k' where k: "k = Suc k'"
    using Cons.prems(2) by (cases k) auto
  have val: "digits_value (b # ds) * 10 ^ (k - length (b # ds))
      = digit_value b * 10 ^ k' + digits_value ds * 10 ^ (k' - length ds)"
  proof -
    have "10 ^ length ds * 10 ^ (k' - length ds) = (10::nat) ^ k'"
      using Cons.prems(2) k by (simp flip: power_add)
    then show ?thesis
      by (simp add: digits_value_Cons k algebra_simps)
  qed
  have small: "units + digit_value b * 10 ^ k' < 10 ^ 4"
    using Cons.prems(5) unfolding val by simp
  have "checked_add 64 units (digit_value b * 10 ^ k') = Some (units + digit_value b * 10 ^ k')"
    using small by (simp add: checked_add_def)
  moreover have "\<exists>m. foldl (\<lambda>acc b. case acc of
            None \<Rightarrow> None
          | Some (units, multiplier) \<Rightarrow>
              map_option (\<lambda>units. (units, multiplier div 10)) (checked_add 64 units (digit_value b * multiplier)))
         (Some (units + digit_value b * 10 ^ k', 10 ^ k' div 10)) ds
      = Some (units + digit_value b * 10 ^ k' + digits_value ds * 10 ^ (k' - length ds), m)"
    using Cons.prems small unfolding val by (intro Cons.IH) (simp_all add: k)
  ultimately show ?case
    unfolding val by (simp add: k add.assoc)
qed

lemma digits_zero_iff: "list_all is_ascii_digit ds \<Longrightarrow> digits_value ds = 0 \<longleftrightarrow> (\<forall>b\<in>set ds. b = CHR ''0'')"
proof (induction ds)
  case Nil
  then show ?case by simp
next
  case (Cons b ds)
  have "digit_value b = 0 \<longleftrightarrow> (of_char b :: nat) = of_char (CHR ''0'')"
    using Cons.prems by (auto simp: digit_value_def is_ascii_digit_def)
  then have "digit_value b = 0 \<longleftrightarrow> b = CHR ''0''"
    by (simp only: of_char_eq_iff)
  then show ?case
    using Cons by (simp add: digits_value_Cons)
qed

text \<open>A fraction is read in ten-thousandths, rounded up.\<close>

lemma fractional_units_ceil:
  assumes "list_all is_ascii_digit f"
  shows "fractional_units f = Some (div_ceil (digits_value f * 10000) (10 ^ length f))"
    and "div_ceil (digits_value f * 10000) (10 ^ length f) \<le> 10000"
proof -
  define a b where "a = take 4 f" and "b = drop 4 f"
  have f: "f = a @ b"
    by (simp add: a_def b_def)
  have digits: "list_all is_ascii_digit a" "list_all is_ascii_digit b"
    using assms by (simp_all add: f)
  have len: "length a \<le> 4" "b \<noteq> [] \<Longrightarrow> length a = 4"
    by (auto simp: a_def b_def)
  define u where "u = digits_value a * 10 ^ (4 - length a)"
  have u: "u < 10000"
  proof -
    have "digits_value a * 10 ^ (4 - length a) < 10 ^ length a * 10 ^ (4 - length a)"
      using digits_value_lt [OF digits(1)] by simp
    also have "\<dots> = 10 ^ 4"
      using len(1) by (simp flip: power_add)
    finally show ?thesis
      by (simp add: u_def)
  qed
  obtain m where fold: "foldl (\<lambda>acc b. case acc of
            None \<Rightarrow> None
          | Some (units, multiplier) \<Rightarrow>
              map_option (\<lambda>units. (units, multiplier div 10)) (checked_add 64 units (digit_value b * multiplier)))
         (Some (0, 1000)) a = Some (u, m)"
    using fractional_fold [OF digits(1) len(1), of 0] u by (auto simp: u_def)
  have units: "fractional_units f = Some (u + (if digits_value b = 0 then 0 else 1))"
    using fold u digits_zero_iff [OF digits(2)] unfolding a_def b_def
    by (simp add: fractional_units_def checked_add_def)
  have ceil: "div_ceil (digits_value f * 10000) (10 ^ length f) = u + (if digits_value b = 0 then 0 else 1)"
  proof -
    have "digits_value f * 10000 = u * 10 ^ length f + digits_value b * 10 ^ 4"
    proof -
      have "digits_value a * 10 ^ length b * 10 ^ 4 = u * (10 ^ length a * 10 ^ length b)"
      proof -
        have "(10::nat) ^ 4 = 10 ^ (4 - length a) * 10 ^ length a"
          using len(1) by (simp flip: power_add)
        then show ?thesis
          by (simp only: u_def ac_simps)
      qed
      then show ?thesis
        by (simp add: f digits_value_append power_add algebra_simps)
    qed
    moreover have "digits_value b * 10 ^ 4 < 10 ^ length f"
    proof (cases "b = []")
      case False
      then have "(10::nat) ^ length f = 10 ^ length b * 10 ^ 4"
        using len(2) by (simp add: f power_add)
      then show ?thesis
        using digits_value_lt [OF digits(2)] by simp
    qed simp
    ultimately show ?thesis
      by (simp add: div_ceil_def)
  qed
  show "fractional_units f = Some (div_ceil (digits_value f * 10000) (10 ^ length f))"
    "div_ceil (digits_value f * 10000) (10 ^ length f) \<le> 10000"
    using units ceil u by simp_all
qed

text \<open>The amount without its dollar sign.\<close>

definition dollar_text :: "string \<Rightarrow> string" where
  "dollar_text s = (if prefix ''$'' (trim s) then drop 1 (trim s) else trim s)"

lemma usd_units_eq:
  assumes w: "w \<noteq> []" "list_all is_ascii_digit w" and f: "list_all is_ascii_digit f"
  shows "Option.bind (parse_u64 w) (\<lambda>w. Option.bind (checked_mul 64 w 10000) (\<lambda>whole_units.
      Option.bind (fractional_units f) (\<lambda>frac_units. checked_add 64 whole_units frac_units))) = Some u
    \<longleftrightarrow> u = div_ceil (digits_value (w @ f) * 10000) (10 ^ length f) \<and> u < 2 ^ 64"
proof -
  define x where "x = div_ceil (digits_value f * 10000) (10 ^ length f)"
  have "digits_value (w @ f) * 10000 = (digits_value w * 10000) * 10 ^ length f + digits_value f * 10000"
    by (simp add: digits_value_append algebra_simps)
  then have total: "div_ceil (digits_value (w @ f) * 10000) (10 ^ length f) = digits_value w * 10000 + x"
    by (simp add: div_ceil_def x_def)
  show ?thesis
    unfolding total parse_u64_digits [OF w] fractional_units_ceil(1) [OF f, folded x_def]
    by (auto simp: try_from_def checked_mul_def checked_add_def)
qed

lemma parse_usd_iff:
  "parse_usd_minor_units s = Some u \<longleftrightarrow>
     (\<exists>w f. (dollar_text s = w \<and> f = [] \<or> dollar_text s = w @ ''.'' @ f) \<and> w \<noteq> []
        \<and> list_all is_ascii_digit w \<and> list_all is_ascii_digit f
        \<and> u = div_ceil (digits_value (w @ f) * 10000) (10 ^ length f) \<and> u < 2 ^ 64)"
    (is "?L \<longleftrightarrow> ?R")
proof
  assume L: ?L
  define parts where "parts = split_on (CHR ''.'') (dollar_text s)"
  define w where "w = (case parts of [] \<Rightarrow> [] | p # _ \<Rightarrow> p)"
  define f where "f = (case parts of _ # p # _ \<Rightarrow> p | _ \<Rightarrow> [])"
  have shape: "length parts \<le> 2" "w \<noteq> []" "list_all is_ascii_digit w" "list_all is_ascii_digit f"
    and units: "Option.bind (parse_u64 w) (\<lambda>w. Option.bind (checked_mul 64 w 10000) (\<lambda>whole_units.
      Option.bind (fractional_units f) (\<lambda>frac_units. checked_add 64 whole_units frac_units))) = Some u"
    using L unfolding parse_usd_minor_units_def Let_def dollar_text_def [symmetric] parts_def [symmetric]
      w_def [symmetric] f_def [symmetric]
    by (simp_all split: if_splits)
  have "parts = [w] \<and> f = [] \<or> parts = [w, f]"
    using shape(1,2) by (auto simp: w_def f_def split: list.splits)
  then have "dollar_text s = w \<and> f = [] \<or> dollar_text s = w @ ''.'' @ f"
    by (auto simp: parts_def split_on_one split_on_two)
  then show ?R
    using shape usd_units_eq [OF shape(2-4)] units by blast
next
  assume R: ?R
  then obtain w f where s: "dollar_text s = w \<and> f = [] \<or> dollar_text s = w @ ''.'' @ f"
    and w: "w \<noteq> []" "list_all is_ascii_digit w" and f: "list_all is_ascii_digit f"
    and u: "u = div_ceil (digits_value (w @ f) * 10000) (10 ^ length f) \<and> u < 2 ^ 64"
    by blast
  have "split_on (CHR ''.'') (dollar_text s) = [w] \<and> f = [] \<or> split_on (CHR ''.'') (dollar_text s) = [w, f]"
    using s digits_no_dot [OF w(2)] digits_no_dot [OF f(1)]
    by (auto simp: split_on_notin split_on_append)
  moreover have "dollar_text s \<noteq> []"
    using s w by auto
  ultimately show ?L
    using w f usd_units_eq [OF w f, of u] u
    unfolding parse_usd_minor_units_def Let_def dollar_text_def [symmetric]
    by auto
qed

section \<open>Buckets and prompts\<close>

lemma utf8_chars_concat [simp]: "concat (utf8_chars s) = s"
  by (induction s rule: utf8_chars.induct) simp_all

lemma utf8_chars_append:
  "t = [] \<or> \<not> is_continuation (hd t) \<Longrightarrow> utf8_chars (s @ t) = utf8_chars s @ utf8_chars t"
proof (induction s rule: utf8_chars.induct)
  case (2 ch s)
  have "takeWhile is_continuation (s @ t) = takeWhile is_continuation s"
    "dropWhile is_continuation (s @ t) = dropWhile is_continuation s @ t"
    using 2(2) by (cases t; induction s; simp)+
  then show ?case
    using 2 by simp
qed simp

lemma hd_utf8_chars: "s \<noteq> [] \<Longrightarrow> concat (take (Suc k) (utf8_chars s)) \<noteq> [] \<and> hd (concat (take (Suc k) (utf8_chars s))) = hd s"
  by (cases s) simp_all

lemma utf8_chars_take: "utf8_chars (concat (take k (utf8_chars s))) = take k (utf8_chars s)"
proof (induction s arbitrary: k rule: utf8_chars.induct)
  case (2 ch s)
  let ?rest = "dropWhile is_continuation s"
  show ?case
  proof (cases k)
    case (Suc j)
    have "concat (take j (utf8_chars ?rest)) = [] \<or> \<not> is_continuation (hd (concat (take j (utf8_chars ?rest))))"
    proof (cases "j = 0 \<or> ?rest = []")
      case False
      then obtain i where "j = Suc i"
        by (cases j) auto
      then show ?thesis
        using False hd_utf8_chars [of ?rest i] hd_dropWhile [of is_continuation s] by simp
    next
      case True
      then have "concat (take j (utf8_chars ?rest)) = []"
        by (metis concat.simps(1) take_0 take_Nil utf8_chars.simps(1))
      then show ?thesis ..
    qed
    then have "utf8_chars ((ch # takeWhile is_continuation s) @ concat (take j (utf8_chars ?rest)))
      = utf8_chars (ch # takeWhile is_continuation s) @ take j (utf8_chars ?rest)"
      by (simp only: utf8_chars_append 2)
    moreover have "dropWhile is_continuation (takeWhile is_continuation s) = []"
      by (auto simp: dropWhile_eq_Nil_conv dest: set_takeWhileD)
    ultimately show ?thesis
      using Suc by simp
  qed simp
qed simp

text \<open>A truncated detail has at most the given number of characters.\<close>

lemma truncate_detail_bound: "length (utf8_chars (truncate_detail v n)) \<le> n"
proof -
  have dots: "utf8_chars (replicate k (CHR ''.'')) = replicate k ''.''" for k
    by (induction k) (simp_all add: is_continuation_def)
  have "utf8_chars (concat (take (n - 3) (utf8_chars v)) @ ''...'') = take (n - 3) (utf8_chars v) @ replicate 3 ''.''"
    using utf8_chars_append [of "''...''"] by (simp add: utf8_chars_take is_continuation_def numeral_3_eq_3)
  then show ?thesis
    unfolding truncate_detail_def Let_def by (simp add: dots utf8_chars_take)
qed

text \<open>Decorating a prompt leaves alone what a policy judges.\<close>

lemma decorated_intent_judged_alike:
  "amount_minor_units (with_account_context i a) = amount_minor_units i"
  "moves_money (with_account_context i a) = moves_money i"
  "is_recurring (with_account_context i a) = is_recurring i"
  "amount_minor_units (with_payment_destinations i r splits) = amount_minor_units i"
  "moves_money (with_payment_destinations i r splits) = moves_money i"
  "is_recurring (with_payment_destinations i r splits) = is_recurring i"
  by (simp_all add: amount_minor_units_def moves_money_def is_recurring_def with_account_context_def
      with_payment_destinations_def Let_def split: auth_intent.split)

lemma find_bucket_least:
  fixes bs :: "(nat \<times> 'l) list"
  assumes "sorted_wrt (<) (map fst bs)" and "find (\<lambda>(c, _). u \<le> c) bs = Some (c, l)"
  shows "u \<le> c \<and> (c, l) \<in> set bs \<and> (\<forall>(c', l')\<in>set bs. u \<le> c' \<longrightarrow> c \<le> c')"
  using assms by (induction bs) (auto split: if_splits)

text \<open>The bucket of an amount is the least one that covers it.\<close>

lemma from_minor_units_least:
  assumes "(c, l) \<in> set BUCKETS" and "u \<le> c"
  shows "\<exists>c'. (c', from_minor_units u) \<in> set BUCKETS \<and> u \<le> c' \<and> c' \<le> c"
proof -
  have "find (\<lambda>(c, _). u \<le> c) BUCKETS \<noteq> None"
    using assms unfolding find_None_iff by (metis case_prod_conv)
  then obtain c' l' where found: "find (\<lambda>(c, _). u \<le> c) BUCKETS = Some (c', l')"
    by auto
  have "sorted_wrt (<) (map fst BUCKETS)"
    by (simp add: BUCKETS_def)
  from find_bucket_least [OF this found] show ?thesis
    using assms found by (auto simp: from_minor_units_def)
qed

section \<open>Properties\<close>

text \<open>
  C32: how a dollar text becomes the amount a policy judges. \<open>parse_usd_minor_units\<close> accepts exactly the
  decimal texts, with an optional dollar sign and surrounding white space, whose value in
  ten-thousandths of a dollar fits 64 bits after rounding up, and returns that rounded value: an
  amount is never judged smaller than it is.
\<close>
theorem parse_usd_minor_units_exact:
  "parse_usd_minor_units s = Some u \<longleftrightarrow>
     (\<exists>w f. (dollar_text s = w \<and> f = [] \<or> dollar_text s = w @ ''.'' @ f) \<and> w \<noteq> []
        \<and> list_all is_ascii_digit w \<and> list_all is_ascii_digit f
        \<and> u = div_ceil (digits_value (w @ f) * 10000) (10 ^ length f) \<and> u < 2 ^ 64)"
  by (rule parse_usd_iff)

end
