(* ===== verification/Float64_Ops.thy ===== *)
theory Float64_Ops
  imports Float64 Auth_Intent
begin

text \<open>
  More of Rust's \<open>f64\<close>: division, minimum and maximum, \<open>clamp\<close>, \<open>total_cmp\<close>, \<open>sum\<close>, the parser of
  \<open>str::parse\<close> and the fixed-precision formatter. A not-a-number is the positive quiet one; as in
  Float64 the two zeros are one value, so \<open>total_cmp\<close> puts them level.

  The lemmas show that rounding, and with it every operation on amounts that are not negative, is monotone.
\<close>

section \<open>Operations\<close>

fun f64_neg :: "f64 \<Rightarrow> f64" where
  "f64_neg (Finite a) = Finite (- a)"
| "f64_neg (Infinity s) = Infinity (\<not> s)"
| "f64_neg NaN = NaN"

definition f64_sub :: "f64 \<Rightarrow> f64 \<Rightarrow> f64" where
  "f64_sub x y = f64_add x (f64_neg y)"

fun f64_abs :: "f64 \<Rightarrow> f64" where
  "f64_abs (Finite a) = Finite \<bar>a\<bar>"
| "f64_abs (Infinity s) = Infinity False"
| "f64_abs NaN = NaN"

fun f64_div :: "f64 \<Rightarrow> f64 \<Rightarrow> f64" where
  "f64_div (Finite a) (Finite b) =
     (if b = 0 then if a = 0 then NaN else Infinity (a < 0) else round_f64 (a / b))"
| "f64_div (Infinity s) (Finite b) = Infinity (s \<noteq> (b < 0))"
| "f64_div (Finite _) (Infinity _) = Finite 0"
| "f64_div _ _ = NaN"

text \<open>\<open>f64::max\<close> and \<open>f64::min\<close> ignore a not-a-number; \<open>clamp\<close> panics (\<open>None\<close>) unless its bounds are ordered.\<close>

definition f64_max :: "f64 \<Rightarrow> f64 \<Rightarrow> f64" where
  "f64_max x y = (if x = NaN then y else if y = NaN then x else if f64_less x y then y else x)"

definition f64_min :: "f64 \<Rightarrow> f64 \<Rightarrow> f64" where
  "f64_min x y = (if x = NaN then y else if y = NaN then x else if f64_less y x then y else x)"

definition f64_clamp :: "f64 \<Rightarrow> f64 \<Rightarrow> f64 \<Rightarrow> f64 option" where
  "f64_clamp x lo hi =
     (if f64_le lo hi then Some (if f64_less x lo then lo else if f64_less hi x then hi else x) else None)"

definition f64_total_le :: "f64 \<Rightarrow> f64 \<Rightarrow> bool" where
  "f64_total_le x y \<longleftrightarrow> y = NaN \<or> f64_le x y"

definition f64_sum :: "f64 list \<Rightarrow> f64" where
  "f64_sum xs = foldl f64_add (Finite 0) xs"

text \<open>\<open>x.fract() == 0.0\<close>: the fractional part of an infinity is not a number.\<close>

fun fract_is_zero :: "f64 \<Rightarrow> bool" where
  "fract_is_zero (Finite a) = (of_int \<lfloor>a\<rfloor> = a)"
| "fract_is_zero _ = False"

text \<open>\<open>Iterator::max_by\<close> keeps the last of equal maxima, \<open>min_by\<close> the first of equal minima.\<close>

fun max_by :: "('a \<Rightarrow> 'a \<Rightarrow> bool) \<Rightarrow> 'a list \<Rightarrow> 'a option" where
  "max_by le [] = None"
| "max_by le (x # xs) = Some (foldl (\<lambda>best y. if le best y then y else best) x xs)"

fun min_by :: "('a \<Rightarrow> 'a \<Rightarrow> bool) \<Rightarrow> 'a list \<Rightarrow> 'a option" where
  "min_by lt [] = None"
| "min_by lt (x # xs) = Some (foldl (\<lambda>best y. if lt y best then y else best) x xs)"


section \<open>Texts\<close>

text \<open>
  \<open>str::parse::<f64>\<close>: an optional sign, then \<open>inf\<close>, \<open>infinity\<close> or \<open>nan\<close> in any case, or decimal digits with
  at most one point and at least one digit, and an optional exponent; the value is correctly rounded.
\<close>

definition all_digits :: "string \<Rightarrow> bool" where
  "all_digits s \<longleftrightarrow> list_all is_ascii_digit s"

definition parse_mantissa :: "string \<Rightarrow> rat option" where
  "parse_mantissa s =
     (case split_on (CHR ''.'') s of
        [w] \<Rightarrow> if w \<noteq> [] \<and> all_digits w then Some (of_nat (digits_value w)) else None
      | [w, f] \<Rightarrow>
          if (w \<noteq> [] \<or> f \<noteq> []) \<and> all_digits w \<and> all_digits f
          then Some (of_nat (digits_value (w @ f)) / 10 ^ length f) else None
      | _ \<Rightarrow> None)"

definition parse_exponent :: "string \<Rightarrow> int option" where
  "parse_exponent s =
     (let (negative, digits) =
        (case s of
           ch # rest \<Rightarrow> if ch = CHR ''-'' then (True, rest) else if ch = CHR ''+'' then (False, rest) else (False, s)
         | [] \<Rightarrow> (False, s)) in
      if digits \<noteq> [] \<and> all_digits digits
      then Some (if negative then - int (digits_value digits) else int (digits_value digits)) else None)"

definition parse_unsigned_f64 :: "string \<Rightarrow> rat option" where
  "parse_unsigned_f64 s =
     (case split_once ''e'' s of
        None \<Rightarrow> parse_mantissa s
      | Some (m, e) \<Rightarrow>
          Option.bind (parse_mantissa m) (\<lambda>v. map_option (\<lambda>n. v * 10 powi n) (parse_exponent e)))"

definition parse_f64 :: "string \<Rightarrow> f64 option" where
  "parse_f64 s =
     (let t = to_ascii_lowercase s;
          (negative, body) =
            (case t of
               ch # rest \<Rightarrow> if ch = CHR ''-'' then (True, rest) else if ch = CHR ''+'' then (False, rest) else (False, t)
             | [] \<Rightarrow> (False, t)) in
      if body = ''inf'' \<or> body = ''infinity'' then Some (Infinity negative)
      else if body = ''nan'' then Some NaN
      else map_option (\<lambda>v. round_f64 (if negative then - v else v)) (parse_unsigned_f64 body))"

text \<open>\<open>{:.n}\<close>: the exact value rounded to \<open>n\<close> decimals, half to even.\<close>

definition format_decimals :: "nat \<Rightarrow> nat \<Rightarrow> string" where
  "format_decimals n v =
     (let digits = show_nat (v mod 10 ^ n) in
      show_nat (v div 10 ^ n) @ (if n = 0 then [] else ''.'' @ replicate (n - length digits) (CHR ''0'') @ digits))"

fun format_fixed :: "nat \<Rightarrow> f64 \<Rightarrow> string" where
  "format_fixed n (Finite a) =
     (if a < 0 then ''-'' else []) @ format_decimals n (nat (round_half_even (\<bar>a\<bar> * 10 ^ n)))"
| "format_fixed n (Infinity s) = (if s then ''-inf'' else ''inf'')"
| "format_fixed n NaN = ''NaN''"

section \<open>Monotonicity\<close>

lemma round_half_even_bounds: "\<lfloor>q\<rfloor> \<le> round_half_even q" "round_half_even q \<le> \<lfloor>q\<rfloor> + 1"
  by (auto simp: round_half_even_def Let_def)

lemma round_half_even_mono:
  assumes "q \<le> r"
  shows "round_half_even q \<le> round_half_even r"
proof (cases "\<lfloor>q\<rfloor> = \<lfloor>r\<rfloor>")
  case True
  then show ?thesis
    using assms by (auto simp: round_half_even_def Let_def)
next
  case False
  then have "\<lfloor>q\<rfloor> + 1 \<le> \<lfloor>r\<rfloor>"
    using floor_mono [OF assms] by linarith
  then show ?thesis
    using round_half_even_bounds(2) [of q] round_half_even_bounds(1) [of r] by linarith
qed

definition round_magnitude :: "rat \<Rightarrow> rat" where
  "round_magnitude a = of_int (round_half_even (a / ulp a)) * ulp a"

lemma floor_log2_mono:
  assumes "0 < x" and "x \<le> y"
  shows "floor_log2 x \<le> floor_log2 y"
proof -
  have "2 powi floor_log2 x < (2 powi (floor_log2 y + 1) :: rat)"
    using floor_log2_bounds(1) [OF assms(1)] floor_log2_bounds(2) [of y] assms by linarith
  then show ?thesis
    using powi_less_imp by force
qed

lemma ulp_pos [simp]: "0 < ulp a"
  by (simp add: ulp_def)

lemma powi_add_int: "(2 :: rat) powi (a + b) = 2 powi a * 2 powi b"
  by (rule power_int_add) simp

lemma round_magnitude_mono:
  assumes "0 < x" and "x \<le> y"
  shows "round_magnitude x \<le> round_magnitude y"
proof (cases "ulp x = ulp y")
  case True
  have "round_half_even (x / ulp x) \<le> round_half_even (y / ulp x)"
    using assms by (intro round_half_even_mono divide_right_mono) (simp_all add: less_imp_le)
  then show ?thesis
    by (simp add: round_magnitude_def True)
next
  case False
  let ?e = "floor_log2 y" and ?k = "max (floor_log2 x - 52) (- 1074)"
  have k: "?k \<noteq> max (?e - 52) (- 1074)"
    using False by (auto simp only: ulp_def)
  have less: "?k < ?e - 52" "- 1074 < ?e - 52"
    using k floor_log2_mono [OF assms] by linarith+
  then have uy: "ulp y = 2 powi (?e - 52)"
    by (simp add: ulp_def)
  have ux: "ulp x = 2 powi ?k"
    by (simp add: ulp_def)
  have y: "0 < y"
    using assms by linarith
  have "(2 :: rat) powi ?e = 2 ^ 52 * 2 powi (?e - 52)"
    using powi_add_int [of 52 "?e - 52"] by simp
  then have "of_int (2 ^ 52) \<le> y / ulp y"
    using floor_log2_bounds(1) [OF y] by (simp add: uy pos_le_divide_eq)
  then have "2 ^ 52 \<le> round_half_even (y / ulp y)"
    using round_half_even_mono [of "of_int (2 ^ 52)"] by (simp only: round_half_even_int)
  then have "of_int (2 ^ 52) * ulp y \<le> of_int (round_half_even (y / ulp y)) * ulp y"
    by (intro mult_right_mono) (simp_all only: of_int_le_iff ulp_pos less_imp_le)
  then have low: "2 powi ?e \<le> round_magnitude y"
    using \<open>2 powi ?e = 2 ^ 52 * 2 powi (?e - 52)\<close> by (simp add: round_magnitude_def uy)
  have "floor_log2 x + 1 \<le> ?e"
    using less by simp
  then have "x \<le> 2 powi ?e"
    using floor_log2_bounds(2) [OF assms(1)] power_int_increasing [of "floor_log2 x + 1" ?e "2 :: rat"] by linarith
  moreover have split: "(2 :: rat) powi ?e = of_int (2 ^ nat (?e - ?k)) * 2 powi ?k"
    using powi_add_int [of "?e - ?k" ?k] power_int_of_nat [of "2 :: rat" "nat (?e - ?k)"] less by simp
  ultimately have "x / ulp x \<le> of_int (2 ^ nat (?e - ?k))"
    by (simp add: ux pos_divide_le_eq)
  then have "round_half_even (x / ulp x) \<le> 2 ^ nat (?e - ?k)"
    using round_half_even_mono [of _ "of_int (2 ^ nat (?e - ?k))"] by (simp only: round_half_even_int)
  then have "of_int (round_half_even (x / ulp x)) * ulp x \<le> of_int (2 ^ nat (?e - ?k)) * ulp x"
    by (intro mult_right_mono) (simp_all only: of_int_le_iff ulp_pos less_imp_le)
  then have "round_magnitude x \<le> 2 powi ?e"
    by (simp add: round_magnitude_def ux split)
  then show ?thesis
    using low by (rule order_trans)
qed


lemma round_f64_pos:
  "0 < x \<Longrightarrow>
     round_f64 x = (if 2 ^ 1024 \<le> round_magnitude x then Infinity False else Finite (round_magnitude x))"
  by (simp add: round_f64_def round_magnitude_def Let_def)

lemma round_magnitude_nonneg: "0 < x \<Longrightarrow> 0 \<le> round_magnitude x"
  using round_half_even_mono [of "of_int 0" "x / ulp x"]
  by (simp only: round_half_even_int) (simp add: round_magnitude_def less_imp_le)

fun f64_nonneg :: "f64 \<Rightarrow> bool" where
  "f64_nonneg (Finite a) = (0 \<le> a)"
| "f64_nonneg (Infinity s) = (\<not> s)"
| "f64_nonneg NaN = False"

lemma f64_nonneg_cases:
  assumes "f64_nonneg x"
  obtains a where "x = Finite a" and "0 \<le> a" | "x = Infinity False"
  using assms by (cases x) auto

lemma round_f64_nonneg: "0 \<le> x \<Longrightarrow> f64_nonneg (round_f64 x)"
  by (cases "x = 0") (simp_all add: round_f64_pos round_magnitude_nonneg, simp add: round_f64_def)

lemma round_f64_mono:
  assumes "0 \<le> x" and "x \<le> y"
  shows "f64_le (round_f64 x) (round_f64 y)"
proof (cases "x = 0")
  case True
  have zero: "round_f64 0 = Finite 0"
    by (simp add: round_f64_def)
  show ?thesis
    using round_f64_nonneg [of y] assms by (auto elim!: f64_nonneg_cases simp: True zero f64_le_def)
next
  case False
  then have "0 < x" "0 < y"
    using assms by simp_all
  then show ?thesis
    using round_magnitude_mono [OF _ assms(2)] by (auto simp: round_f64_pos f64_le_def)
qed

lemma f64_le_simps [simp]:
  "f64_le (Finite a) (Finite b) \<longleftrightarrow> a \<le> b" "f64_le (Finite a) (Infinity s) \<longleftrightarrow> \<not> s"
  "f64_le (Infinity s) (Finite a) \<longleftrightarrow> s" "f64_le (Infinity s) (Infinity t) \<longleftrightarrow> (t \<longrightarrow> s)"
  "\<not> f64_le NaN x" "\<not> f64_le x NaN"
  by (auto simp: f64_le_def)

lemma f64_le_refl: "x \<noteq> NaN \<Longrightarrow> f64_le x x"
  by (cases x) simp_all

lemma f64_le_trans: "f64_le x y \<Longrightarrow> f64_le y z \<Longrightarrow> f64_le x z"
  by (cases x; cases y; cases z) auto

lemma f64_nonneg_not_NaN: "f64_nonneg x \<Longrightarrow> x \<noteq> NaN"
  by (cases x) simp_all

lemma f64_total_le_refl: "f64_total_le x x"
  by (cases x) (simp_all add: f64_total_le_def)

lemma f64_total_le_trans: "f64_total_le x y \<Longrightarrow> f64_total_le y z \<Longrightarrow> f64_total_le x z"
  by (auto simp: f64_total_le_def intro: f64_le_trans)

lemma f64_total_le_linear: "f64_total_le x y \<or> f64_total_le y x"
  by (cases x; cases y) (auto simp: f64_total_le_def)

lemma f64_total_le_D: "f64_total_le x y \<Longrightarrow> y \<noteq> NaN \<Longrightarrow> f64_le x y"
  by (simp add: f64_total_le_def)

lemma f64_add_nonneg: "f64_nonneg x \<Longrightarrow> f64_nonneg y \<Longrightarrow> f64_nonneg (f64_add x y)"
  by (elim f64_nonneg_cases) (simp_all add: round_f64_nonneg)

lemma f64_le_infinity [simp]: "f64_le x (Infinity False) \<longleftrightarrow> x \<noteq> NaN"
  by (cases x) simp_all

lemma round_f64_not_NaN [simp]: "round_f64 x \<noteq> NaN"
  by (simp add: round_f64_def Let_def)

lemma f64_add_mono:
  assumes "f64_nonneg x" "f64_nonneg y" "f64_le x x'" "f64_le y y'"
  shows "f64_le (f64_add x y) (f64_add x' y')"
proof -
  have "f64_nonneg x'" "f64_nonneg y'"
    using assms by (cases x; cases x'; cases y; cases y'; auto)+
  then show ?thesis
    using assms by (elim f64_nonneg_cases) (auto intro: round_f64_mono)
qed

lemma f64_div_pos_nonneg: "f64_nonneg x \<Longrightarrow> 0 < b \<Longrightarrow> f64_nonneg (f64_div x (Finite b))"
  by (elim f64_nonneg_cases) (simp_all add: round_f64_nonneg)

lemma f64_div_mono:
  assumes "f64_nonneg x" "f64_le x y" "0 < b"
  shows "f64_le (f64_div x (Finite b)) (f64_div y (Finite b))"
proof -
  have "f64_nonneg y"
    using assms(1,2) by (cases x; cases y) auto
  then show ?thesis
    using assms by (elim f64_nonneg_cases) (auto intro!: round_f64_mono divide_right_mono simp: zero_le_divide_iff)
qed

lemma f64_sum_mono_from:
  assumes "list_all2 (\<lambda>x y. f64_nonneg x \<and> f64_le x y) xs ys" and "f64_nonneg a" and "f64_le a b"
  shows "f64_nonneg (foldl f64_add a xs) \<and> f64_le (foldl f64_add a xs) (foldl f64_add b ys)"
  using assms
proof (induction arbitrary: a b rule: list_all2_induct)
  case (Cons x xs y ys)
  then show ?case
    using Cons.IH [of "f64_add a x" "f64_add b y"] by (simp add: f64_add_nonneg f64_add_mono)
qed simp

lemma f64_sum_mono:
  "list_all2 (\<lambda>x y. f64_nonneg x \<and> f64_le x y) xs ys \<Longrightarrow> f64_le (f64_sum xs) (f64_sum ys)"
  using f64_sum_mono_from [of xs ys "Finite 0" "Finite 0"] by (simp add: f64_sum_def)

lemma f64_sum_nonneg: "list_all f64_nonneg xs \<Longrightarrow> f64_nonneg (f64_sum xs)"
  using f64_sum_mono_from [of xs xs "Finite 0" "Finite 0"]
  by (simp add: f64_sum_def list_all2_same list.pred_set f64_le_refl f64_nonneg_not_NaN)


lemma round_f64_bounded:
  assumes "0 \<le> x" and "x \<le> of_nat k" and "k < 2 ^ 53"
  obtains y where "round_f64 x = Finite y" and "0 \<le> y" and "y \<le> of_nat k"
proof -
  have "f64_le (round_f64 x) (Finite (of_nat k))"
    using round_f64_mono [OF assms(1,2)] round_f64_of_nat [OF assms(3)] by simp
  then show thesis
    using round_f64_nonneg [OF assms(1)] that by (cases "round_f64 x") auto
qed

lemma round_f64_abs: "f64_abs (round_f64 x) = round_f64 \<bar>x\<bar>"
proof (cases "x = 0")
  case False
  then have "0 < \<bar>x\<bar>"
    by simp
  then have "0 \<le> round_magnitude \<bar>x\<bar>"
    by (rule round_magnitude_nonneg)
  then show ?thesis
    using False by (simp add: round_f64_def round_magnitude_def [symmetric] Let_def abs_mult)
qed (simp add: round_f64_def)

lemma f64_not_less: "f64_le x y \<Longrightarrow> \<not> f64_less y x"
  by (cases x; cases y) auto

section \<open>Maxima\<close>

lemma foldl_max_upper:
  assumes trans: "\<And>x y z. le x y \<Longrightarrow> le y z \<Longrightarrow> le x z" and linear: "\<And>x y. le x y \<or> le y x"
  shows "(\<forall>y \<in> insert x (set xs). le y (foldl (\<lambda>best y. if le best y then y else best) x xs))
         \<and> foldl (\<lambda>best y. if le best y then y else best) x xs \<in> insert x (set xs)"
proof (induction xs arbitrary: x)
  case Nil
  show ?case
    using linear [of x x] by simp
next
  case (Cons y ys)
  let ?b = "if le x y then y else x" and ?pick = "foldl (\<lambda>best y. if le best y then y else best)"
  have ih: "\<forall>z \<in> insert ?b (set ys). le z (?pick ?b ys)" "?pick ?b ys \<in> insert ?b (set ys)"
    using Cons [of ?b] by blast+
  have "le x ?b" "le y ?b"
    using linear [of x y] linear [of x x] linear [of y y] by auto
  then have "le x (?pick ?b ys)" "le y (?pick ?b ys)"
    using ih(1) trans by blast+
  moreover have "?pick ?b ys \<in> insert x (set (y # ys))"
    using ih(2) by (auto split: if_splits)
  ultimately show ?case
    using ih(1) by simp
qed

lemma max_by_upper:
  assumes "max_by le xs = Some m"
    and "\<And>x y z. le x y \<Longrightarrow> le y z \<Longrightarrow> le x z" and "\<And>x y. le x y \<or> le y x"
  shows "m \<in> set xs" and "x \<in> set xs \<Longrightarrow> le x m"
proof -
  obtain y ys where xs: "xs = y # ys" "m = foldl (\<lambda>best y. if le best y then y else best) y ys"
    using assms(1) by (cases xs) simp_all
  have upper: "(\<forall>z \<in> insert y (set ys). le z m) \<and> m \<in> insert y (set ys)"
    unfolding xs(2) by (rule foldl_max_upper) (fact assms(2), fact assms(3))
  show "m \<in> set xs"
    using upper xs by auto
  show "x \<in> set xs \<Longrightarrow> le x m"
    using upper xs by auto
qed

lemma max_by_None [simp]: "max_by le xs = None \<longleftrightarrow> xs = []"
  by (cases xs) simp_all

text \<open>The maximum of a list by a numeric key, compared with \<open>total_cmp\<close>.\<close>

lemma max_by_key:
  assumes "max_by (\<lambda>x y. f64_total_le (key x) (key y)) xs = Some m"
  shows "m \<in> set xs" and "x \<in> set xs \<Longrightarrow> f64_total_le (key x) (key m)"
  using max_by_upper [OF assms] f64_total_le_trans f64_total_le_linear by blast+

end
