(* ===== verification/Session_Metering.thy ===== *)
theory Session_Metering
  imports Pay_Prelude Complex_Main
begin

text \<open>
  Integer metering of payment-channel sessions
  (\<^verbatim>\<open>src/rust/crates/core/src/server/session_metering.rs\<close>): a meter specification with
  integer prices, cumulative usage observations, the rating of an observation against the one
  before it, the conversion to stablecoin base units and the usage gate that decides when a
  new voucher is needed. Prices are u64, intermediate amounts u128, and every overflow of the
  source is an \<open>Overflow\<close> value carrying the source's context string.

  The lemmas show that the incremental arithmetic on \<open>FractionalAmount\<close> computes the exact
  rational total rounded once, half up, that subtraction of cumulative totals never underflows,
  and that the charges of a stream telescope.
\<close>

section \<open>Data\<close>

datatype meter_direction = Input | Output | Usage | Storage

datatype billing_unit =
    Tokens | Characters | Requests | Minutes | Hours | Seconds | Pages | Documents
  | Invocations | Bytes | Gibibytes | Tebibytes | Vcpu | QuotaUnits | Instances

datatype session_metering_error =
    EmptySpec
  | UnsupportedSkuTiers
  | NoDimensions
  | NoPriceTier meter_direction billing_unit
  | InvalidPrice
  | InexactMicroUsdPrice
  | InvalidScale meter_direction billing_unit
  | MissingRequiredObservation meter_direction billing_unit
  | NonMonotonicUsage meter_direction billing_unit nat nat
  | Overflow string
  | InvalidStream string
  | UnobservableMeter

record session_meter_dimension =
  direction :: meter_direction
  billing_unit :: billing_unit
  scale :: nat
  price_micro_usd :: nat
  required :: bool
  aggregate :: bool

record session_meter_spec =
  dimensions :: "session_meter_dimension list"

record usage_sample =
  sample_direction :: meter_direction
  sample_unit :: billing_unit
  sample_amount :: nat

type_synonym usage_observation = "usage_sample list"

record fractional_amount =
  whole :: nat
  numerator :: nat
  denominator :: nat

record rated_dimension_delta =
  line_direction :: meter_direction
  line_unit :: billing_unit
  line_previous_units :: nat
  line_current_units :: nat
  line_previous_micro_usd :: nat
  line_current_micro_usd :: nat
  line_delta_micro_usd :: nat
  line_scale :: nat
  line_price_micro_usd :: nat

record rated_usage_delta =
  previous_micro_usd :: nat
  current_micro_usd :: nat
  delta_micro_usd :: nat
  lines :: "rated_dimension_delta list"

record stablecoin_settlement =
  decimals :: nat

record rated_voucher_delta =
  usage :: rated_usage_delta
  previous_base_units :: nat
  current_base_units :: nat
  delta_base_units :: nat

datatype gate_mode = Streaming | Final

datatype session_gate_decision =
    Continue rated_voucher_delta nat nat nat
  | VoucherRequired rated_voucher_delta nat nat nat

record session_usage_gate =
  gate_spec :: session_meter_spec
  settlement :: stablecoin_settlement
  baseline_base_units :: nat
  committed_base_units :: nat
  min_voucher_delta :: nat
  last_observation :: usage_observation

section \<open>Operations\<close>

definition unit_is_prorated :: "billing_unit \<Rightarrow> bool" where
  "unit_is_prorated u = (u \<in> {Tokens, QuotaUnits})"

definition is_response_measured :: "meter_direction \<Rightarrow> billing_unit \<Rightarrow> bool" where
  "is_response_measured d u =
     (d = Output \<and> u \<in> {Bytes, Characters, Tokens, QuotaUnits})"

definition is_prorated :: "meter_direction \<Rightarrow> billing_unit \<Rightarrow> bool" where
  "is_prorated d u = (unit_is_prorated u \<or> is_response_measured d u)"

definition required_dimension ::
  "meter_direction \<Rightarrow> billing_unit \<Rightarrow> nat \<Rightarrow> nat \<Rightarrow> session_meter_dimension" where
  "required_dimension d u s p =
     \<lparr>direction = d, billing_unit = u, scale = s, price_micro_usd = p,
      required = True, aggregate = is_prorated d u\<rparr>"

definition optional_dimension ::
  "meter_direction \<Rightarrow> billing_unit \<Rightarrow> nat \<Rightarrow> nat \<Rightarrow> session_meter_dimension" where
  "optional_dimension d u s p =
     \<lparr>direction = d, billing_unit = u, scale = s, price_micro_usd = p,
      required = False, aggregate = is_prorated d u\<rparr>"

definition validate :: "session_meter_spec \<Rightarrow> session_metering_error + unit" where
  "validate spec =
     (if dimensions spec = [] then Inl EmptySpec
      else try_fold (\<lambda>_ d. ensure (scale d \<noteq> 0) (InvalidScale (direction d) (billing_unit d)))
             () (dimensions spec))"

fun observation_set ::
  "usage_observation \<Rightarrow> meter_direction \<Rightarrow> billing_unit \<Rightarrow> nat \<Rightarrow> usage_observation" where
  "observation_set [] d u a = [\<lparr>sample_direction = d, sample_unit = u, sample_amount = a\<rparr>]"
| "observation_set (s # ss) d u a =
     (if sample_direction s = d \<and> sample_unit s = u
      then s\<lparr>sample_amount := a\<rparr> # ss
      else s # observation_set ss d u a)"

definition observation_get ::
  "usage_observation \<Rightarrow> meter_direction \<Rightarrow> billing_unit \<Rightarrow> nat option" where
  "observation_get ss d u =
     map_option sample_amount (find (\<lambda>s. sample_direction s = d \<and> sample_unit s = u) ss)"

definition ceil_div :: "nat \<Rightarrow> nat \<Rightarrow> session_metering_error + nat" where
  "ceil_div n d =
     (if d = 0 then Inl (Overflow ''division by zero'')
      else ok_or (Overflow ''ceil division'')
             (map_option (\<lambda>v. v div d) (checked_add 128 n (d - 1))))"

definition rate_units :: "nat \<Rightarrow> session_meter_dimension \<Rightarrow> session_metering_error + nat" where
  "rate_units units d =
     (if scale d = 0 then Inl (InvalidScale (direction d) (billing_unit d))
      else
        and_then (ok_or (Overflow ''dimension rating'') (checked_mul 128 units (price_micro_usd d)))
          (\<lambda>num. and_then
             (if aggregate d then ceil_div num (scale d)
              else and_then (ceil_div units (scale d))
                (\<lambda>blocks. ok_or (Overflow ''dimension rating'')
                   (checked_mul 128 blocks (price_micro_usd d))))
             (\<lambda>amount. ok_or (Overflow ''dimension rating'') (try_from 64 amount))))"

fun gcd_loop :: "nat \<Rightarrow> nat \<Rightarrow> nat" where
  "gcd_loop left right = (if right \<noteq> 0 then gcd_loop right (left mod right) else left)"

declare gcd_loop.simps [simp del]

definition fractional_default :: fractional_amount where
  "fractional_default = \<lparr>whole = 0, numerator = 0, denominator = 1\<rparr>"

definition fractional_add ::
  "fractional_amount \<Rightarrow> nat \<Rightarrow> session_meter_dimension \<Rightarrow>
     session_metering_error + fractional_amount" where
  "fractional_add f units d =
     (let overflow = Overflow ''total dimension rating'' in
      if \<not> aggregate d then
        and_then (rate_units units d) (\<lambda>r.
        and_then (ok_or overflow (checked_add 128 (whole f) r)) (\<lambda>w.
          Inr (f\<lparr>whole := w\<rparr>)))
      else
        and_then (ok_or overflow (checked_mul 128 units (price_micro_usd d))) (\<lambda>quoted.
        and_then (ok_or overflow (checked_add 128 (whole f) (quoted div scale d))) (\<lambda>w.
          let remainder = quoted mod scale d in
          if remainder = 0 then Inr (f\<lparr>whole := w\<rparr>)
          else
            let divisor = gcd_loop (denominator f) (scale d) in
            and_then (ok_or overflow (checked_mul 128 (denominator f) (scale d div divisor)))
              (\<lambda>common.
            and_then (ok_or overflow
                (case checked_mul 128 (numerator f) (scale d div divisor) of
                   None \<Rightarrow> None
                 | Some left \<Rightarrow>
                     (case checked_mul 128 remainder (denominator f div divisor) of
                        None \<Rightarrow> None
                      | Some right \<Rightarrow> checked_add 128 left right)))
              (\<lambda>num.
            and_then (ok_or overflow (checked_add 128 w (num div common))) (\<lambda>w'.
              Inr \<lparr>whole = w', numerator = num mod common, denominator = common\<rparr>))))))"

definition fractional_round :: "fractional_amount \<Rightarrow> session_metering_error + nat" where
  "fractional_round f =
     and_then (ok_or (Overflow ''total rounding'')
        (checked_add 128 (whole f)
           (if denominator f div 2 + denominator f mod 2 \<le> numerator f then 1 else 0)))
       (\<lambda>rounded. ok_or (Overflow ''total rounding'') (try_from 64 rounded))"

definition rate_dimension_step ::
  "usage_observation \<Rightarrow> usage_observation \<Rightarrow>
     fractional_amount \<times> fractional_amount \<times> rated_dimension_delta list \<Rightarrow>
     session_meter_dimension \<Rightarrow>
     session_metering_error + fractional_amount \<times> fractional_amount \<times> rated_dimension_delta list"
where
  "rate_dimension_step previous current acc d =
     (case acc of (previous_total, current_total, ls) \<Rightarrow>
      let previous_units = (case observation_get previous (direction d) (billing_unit d) of
            None \<Rightarrow> 0 | Some v \<Rightarrow> v) in
      and_then
        (case observation_get current (direction d) (billing_unit d) of
           Some v \<Rightarrow> Inr v
         | None \<Rightarrow> if required d
                   then Inl (MissingRequiredObservation (direction d) (billing_unit d))
                   else Inr 0)
        (\<lambda>current_units.
      and_then (ensure (previous_units \<le> current_units)
          (NonMonotonicUsage (direction d) (billing_unit d) previous_units current_units)) (\<lambda>_.
      and_then (rate_units previous_units d) (\<lambda>previous_micro.
      and_then (rate_units current_units d) (\<lambda>current_micro.
      and_then (ok_or (Overflow ''dimension delta'') (checked_sub current_micro previous_micro))
        (\<lambda>delta_micro.
      and_then (fractional_add previous_total previous_units d) (\<lambda>previous_total'.
      and_then (fractional_add current_total current_units d) (\<lambda>current_total'.
        Inr (previous_total', current_total',
             ls @ [\<lparr>line_direction = direction d, line_unit = billing_unit d,
                    line_previous_units = previous_units, line_current_units = current_units,
                    line_previous_micro_usd = previous_micro,
                    line_current_micro_usd = current_micro,
                    line_delta_micro_usd = delta_micro,
                    line_scale = scale d, line_price_micro_usd = price_micro_usd d\<rparr>])))))))))"

definition rate_observation ::
  "session_meter_spec \<Rightarrow> usage_observation \<Rightarrow> usage_observation \<Rightarrow>
     session_metering_error + rated_usage_delta" where
  "rate_observation spec previous current =
     and_then (validate spec) (\<lambda>_.
     and_then (try_fold (rate_dimension_step previous current)
         (fractional_default, fractional_default, []) (dimensions spec))
       (\<lambda>(previous_total, current_total, ls).
     and_then (fractional_round previous_total) (\<lambda>p.
     and_then (fractional_round current_total) (\<lambda>c.
     and_then (ok_or (Overflow ''total delta'') (checked_sub c p)) (\<lambda>delta.
       Inr \<lparr>previous_micro_usd = p, current_micro_usd = c, delta_micro_usd = delta,
            lines = ls\<rparr>)))))"

definition MICRO_USD_PER_USD :: nat where
  "MICRO_USD_PER_USD = 1000000"

definition micro_usd_to_base_units_ceil ::
  "nat \<Rightarrow> stablecoin_settlement \<Rightarrow> session_metering_error + nat" where
  "micro_usd_to_base_units_ceil amount s =
     and_then (ok_or (Overflow ''settlement multiplier'') (checked_pow 128 10 (decimals s)))
       (\<lambda>multiplier.
     and_then (ok_or (Overflow ''microUSD to base-unit numerator'')
         (checked_mul 128 amount multiplier)) (\<lambda>num.
     and_then (ceil_div num MICRO_USD_PER_USD) (\<lambda>base_units.
       ok_or (Overflow ''base-unit conversion'') (try_from 64 base_units))))"

definition rate_voucher_delta ::
  "session_meter_spec \<Rightarrow> stablecoin_settlement \<Rightarrow> usage_observation \<Rightarrow> usage_observation \<Rightarrow>
     session_metering_error + rated_voucher_delta" where
  "rate_voucher_delta spec s previous current =
     and_then (rate_observation spec previous current) (\<lambda>u.
     and_then (micro_usd_to_base_units_ceil (previous_micro_usd u) s) (\<lambda>p.
     and_then (micro_usd_to_base_units_ceil (current_micro_usd u) s) (\<lambda>c.
     and_then (ok_or (Overflow ''voucher base-unit delta'') (checked_sub c p)) (\<lambda>delta.
       Inr \<lparr>usage = u, previous_base_units = p, current_base_units = c,
            delta_base_units = delta\<rparr>))))"

definition gate_new ::
  "session_meter_spec \<Rightarrow> stablecoin_settlement \<Rightarrow> nat \<Rightarrow> nat \<Rightarrow>
     session_metering_error + session_usage_gate" where
  "gate_new spec s baseline min_delta =
     and_then (validate spec) (\<lambda>_.
       Inr \<lparr>gate_spec = spec, settlement = s, baseline_base_units = baseline,
            committed_base_units = baseline, min_voucher_delta = min_delta,
            last_observation = []\<rparr>)"

definition observe ::
  "session_usage_gate \<Rightarrow> usage_observation \<Rightarrow> gate_mode \<Rightarrow>
     session_usage_gate \<times> (session_metering_error + session_gate_decision)" where
  "observe g current mode =
     (case rate_voucher_delta (gate_spec g) (settlement g) (last_observation g) current of
        Inl e \<Rightarrow> (g, Inl e)
      | Inr rated \<Rightarrow>
     (case rate_voucher_delta (gate_spec g) (settlement g) [] current of
        Inl e \<Rightarrow> (g, Inl e)
      | Inr total_rated \<Rightarrow>
        (let g' = g\<lparr>last_observation := current\<rparr> in
         (g', and_then (ok_or (Overflow ''gate target cumulative'')
                (checked_add 64 (baseline_base_units g) (current_base_units total_rated)))
              (\<lambda>target_cumulative.
                let outstanding = saturating_sub target_cumulative (committed_base_units g);
                    threshold = max (min_voucher_delta g) 1 in
                Inr (if outstanding = 0 \<or> (mode = Streaming \<and> outstanding < threshold)
                     then Continue rated target_cumulative (committed_base_units g) outstanding
                     else VoucherRequired rated target_cumulative (committed_base_units g)
                            outstanding))))))"

definition record_commit :: "session_usage_gate \<Rightarrow> nat \<Rightarrow> session_usage_gate" where
  "record_commit g c = g\<lparr>committed_base_units := max (committed_base_units g) c\<rparr>"

fun requires_voucher :: "session_gate_decision \<Rightarrow> bool" where
  "requires_voucher (VoucherRequired _ _ _ _) = True"
| "requires_voucher (Continue _ _ _ _) = False"

fun target_cumulative_base_units :: "session_gate_decision \<Rightarrow> nat" where
  "target_cumulative_base_units (Continue _ t _ _) = t"
| "target_cumulative_base_units (VoucherRequired _ t _ _) = t"

fun outstanding_base_units :: "session_gate_decision \<Rightarrow> nat" where
  "outstanding_base_units (Continue _ _ _ n) = n"
| "outstanding_base_units (VoucherRequired _ _ _ n) = n"


section \<open>What a total is worth\<close>

text \<open>
  The reference: the exact rational price of a usage, prorated for aggregate dimensions and in
  whole blocks for the others, summed over the dimensions, and rounded once, half up.
\<close>

definition exact_amount :: "nat \<Rightarrow> session_meter_dimension \<Rightarrow> rat" where
  "exact_amount units d =
     (if aggregate d then of_nat (units * price_micro_usd d) / of_nat (scale d)
      else of_nat (((units + (scale d - 1)) div scale d) * price_micro_usd d))"

definition units_of :: "usage_observation \<Rightarrow> session_meter_dimension \<Rightarrow> nat" where
  "units_of obs d =
     (case observation_get obs (direction d) (billing_unit d) of None \<Rightarrow> 0 | Some v \<Rightarrow> v)"

definition exact_total :: "session_meter_dimension list \<Rightarrow> usage_observation \<Rightarrow> rat" where
  "exact_total ds obs = (\<Sum>d\<leftarrow>ds. exact_amount (units_of obs d) d)"

definition round_half_up :: "rat \<Rightarrow> nat" where
  "round_half_up x = nat \<lfloor>x + 1 / 2\<rfloor>"

definition frac_value :: "fractional_amount \<Rightarrow> rat" where
  "frac_value f = of_nat (whole f) + of_nat (numerator f) / of_nat (denominator f)"

definition frac_ok :: "fractional_amount \<Rightarrow> bool" where
  "frac_ok f \<longleftrightarrow> 0 < denominator f \<and> numerator f < denominator f"

subsection \<open>Observations\<close>

lemma observation_get_set [simp]:
  "observation_get (observation_set obs d u a) d' u' =
     (if d = d' \<and> u = u' then Some a else observation_get obs d' u')"
  by (induction obs) (auto simp: observation_get_def)

subsection \<open>Fractional amounts\<close>

lemma gcd_loop_eq: "gcd_loop a b = gcd a b"
proof (induction a b rule: gcd_loop.induct)
  case (1 a b)
  show ?case
  proof (cases "b = 0")
    case True
    then show ?thesis by (simp add: gcd_loop.simps)
  next
    case False
    then show ?thesis
      using "1.IH" by (simp add: gcd_loop.simps [of a b] gcd_red_nat [of a b])
  qed
qed

lemma validate_Inr:
  "validate spec = Inr u \<longleftrightarrow>
     dimensions spec \<noteq> [] \<and> list_all (\<lambda>d. 0 < scale d) (dimensions spec)"
proof -
  have "try_fold (\<lambda>_ d. ensure (scale d \<noteq> 0) (InvalidScale (direction d) (billing_unit d))) v ds
      = Inr u \<longleftrightarrow> list_all (\<lambda>d. 0 < scale d) ds" for v and ds :: "session_meter_dimension list"
    by (induction ds arbitrary: v) (auto simp: res_simps)
  then show ?thesis by (simp add: validate_def)
qed

lemma ceil_div_Inr [arith_checked]:
  "ceil_div n d = Inr q \<longleftrightarrow>
     0 < d \<and> n + (d - 1) < 2 ^ 128 \<and> q = (n + (d - 1)) div d"
  by (auto simp: ceil_div_def res_simps arith_checked)

lemma rate_units_Inr:
  assumes "rate_units units d = Inr m"
  shows "0 < scale d" and "m < 2 ^ 64"
    and "m = (if aggregate d then (units * price_micro_usd d + (scale d - 1)) div scale d
              else (units + (scale d - 1)) div scale d * price_micro_usd d)"
  using assms by (auto simp: rate_units_def res_simps arith_checked split: if_splits)

lemma exact_amount_le_rate:
  assumes "rate_units units d = Inr m"
  shows "exact_amount units d \<le> of_nat m"
proof (cases "aggregate d")
  case True
  have s: "0 < scale d" and m: "m = (units * price_micro_usd d + (scale d - 1)) div scale d"
    using rate_units_Inr [OF assms] True by simp_all
  have "units * price_micro_usd d \<le> m * scale d"
    using ceil_div_least [OF s, of "units * price_micro_usd d" m] m by simp
  then have "(of_nat (units * price_micro_usd d) :: rat) \<le> of_nat m * of_nat (scale d)"
    by (metis of_nat_le_iff of_nat_mult)
  then show ?thesis
    using s True by (simp add: exact_amount_def divide_le_eq)
next
  case False
  then show ?thesis
    using rate_units_Inr [OF assms] by (simp add: exact_amount_def)
qed

lemma exact_amount_mono: "u \<le> v \<Longrightarrow> exact_amount u d \<le> exact_amount v d"
proof -
  assume uv: "u \<le> v"
  show ?thesis
  proof (cases "aggregate d")
    case True
    have "(of_nat (u * price_micro_usd d) :: rat) \<le> of_nat (v * price_micro_usd d)"
      using uv by (simp only: of_nat_le_iff mult_le_mono1)
    then show ?thesis
      using True by (simp add: exact_amount_def divide_right_mono)
  next
    case False
    have "(u + (scale d - 1)) div scale d * price_micro_usd d
        \<le> (v + (scale d - 1)) div scale d * price_micro_usd d"
      using ceil_div_mono [OF uv] by (rule mult_le_mono1)
    then show ?thesis
      using False by (simp only: exact_amount_def of_nat_le_iff if_False)
  qed
qed

lemma exact_amount_nonneg: "0 \<le> exact_amount u d"
  by (simp add: exact_amount_def)

lemma common_denominator:
  fixes n b r s :: nat
  assumes "0 < b" and "0 < s"
  defines "g \<equiv> gcd b s"
  shows "(of_nat (n * (s div g) + r * (b div g)) :: rat) / of_nat (b * (s div g))
    = of_nat n / of_nat b + of_nat r / of_nat s"
proof -
  have g: "0 < g"
    using assms by (simp add: g_def)
  obtain b' s' where b: "b = g * b'" and s: "s = g * s'"
    using gcd_dvd1 gcd_dvd2 unfolding g_def by (metis dvdE)
  have "0 < b'" "0 < s'"
    using assms(1,2) b s by (auto intro: Nat.gr0I)
  then show ?thesis
    using g by (simp add: b s field_simps)
qed

lemma split_quotient:
  fixes n d :: nat
  assumes "0 < d"
  shows "(of_nat n :: rat) / of_nat d = of_nat (n div d) + of_nat (n mod d) / of_nat d"
proof -
  have "(of_nat n :: rat) = of_nat (n div d) * of_nat d + of_nat (n mod d)"
    by (metis div_mult_mod_eq of_nat_add of_nat_mult)
  then show ?thesis
    using assms by (simp add: field_simps)
qed

lemma fractional_add_value:
  assumes "fractional_add f units d = Inr f'" and "frac_ok f" and s: "0 < scale d"
  shows "frac_ok f' \<and> frac_value f' = frac_value f + exact_amount units d"
proof (cases "aggregate d")
  case False
  then obtain r where r: "rate_units units d = Inr r" and f': "f' = f\<lparr>whole := whole f + r\<rparr>"
    using assms(1) by (auto simp: fractional_add_def res_simps arith_checked)
  then show ?thesis
    using False rate_units_Inr [OF r] assms(2)
    by (simp add: frac_ok_def frac_value_def exact_amount_def)
next
  case agg: True
  define quoted where "quoted = units * price_micro_usd d"
  define w r where "w = whole f + quoted div scale d" and "r = quoted mod scale d"
  have amount: "exact_amount units d
      = of_nat (quoted div scale d) + of_nat r / of_nat (scale d)"
    using agg split_quotient [OF s, of quoted] by (simp add: exact_amount_def quoted_def r_def)
  show ?thesis
  proof (cases "r = 0")
    case True
    then have "f' = f\<lparr>whole := w\<rparr>"
      using assms(1) agg
      by (auto simp: fractional_add_def res_simps arith_checked Let_def quoted_def w_def r_def)
    then show ?thesis
      using assms(2) amount True by (simp add: frac_ok_def frac_value_def w_def)
  next
    case False
    define g where "g = gcd (denominator f) (scale d)"
    define common where "common = denominator f * (scale d div g)"
    define num where "num = numerator f * (scale d div g) + r * (denominator f div g)"
    have f': "f' = \<lparr>whole = w + num div common, numerator = num mod common,
                   denominator = common\<rparr>"
      using assms(1) agg False
      by (auto simp: fractional_add_def res_simps arith_checked Let_def gcd_loop_eq
          quoted_def w_def r_def g_def common_def num_def split: option.splits)
    have den: "0 < denominator f"
      using assms(2) by (simp add: frac_ok_def)
    then have "0 < g"
      by (simp add: g_def)
    then have "0 < scale d div g"
      using s by (simp add: g_def div_greater_zero_iff dvd_imp_le)
    then have common: "0 < common"
      using den by (simp add: common_def)
    have "(of_nat num :: rat) / of_nat common
        = of_nat (numerator f) / of_nat (denominator f) + of_nat r / of_nat (scale d)"
      using common_denominator [OF den s] by (simp only: num_def common_def g_def)
    then show ?thesis
      using f' common amount split_quotient [OF common, of num]
      by (simp add: frac_ok_def frac_value_def w_def)
  qed
qed

lemma frac_default [simp]: "frac_ok fractional_default" "frac_value fractional_default = 0"
  by (simp_all add: frac_ok_def frac_value_def fractional_default_def)

lemma half_rounds_up:
  fixes n d :: nat
  assumes "0 < d" and "n < d"
  shows "\<lfloor>(of_nat n :: rat) / of_nat d + 1 / 2\<rfloor> = (if d div 2 + d mod 2 \<le> n then 1 else 0)"
proof -
  have "d div 2 + d mod 2 \<le> n \<longleftrightarrow> d \<le> 2 * n"
    by presburger
  also have "\<dots> \<longleftrightarrow> (of_nat d :: rat) \<le> of_nat (2 * n)"
    by (simp only: of_nat_le_iff)
  also have "\<dots> \<longleftrightarrow> 1 \<le> (of_nat n :: rat) / of_nat d + 1 / 2"
    using assms(1) by (simp add: field_simps)
  finally have iff: "d div 2 + d mod 2 \<le> n \<longleftrightarrow> 1 \<le> (of_nat n :: rat) / of_nat d + 1 / 2" .
  have "(of_nat n :: rat) / of_nat d < 1" and "0 \<le> (of_nat n :: rat) / of_nat d"
    using assms by (simp_all add: divide_less_eq)
  then show ?thesis
    unfolding iff by (auto simp: floor_eq_iff)
qed

lemma fractional_round_eq:
  assumes "fractional_round f = Inr r" and "frac_ok f"
  shows "r = round_half_up (frac_value f)" and "r < 2 ^ 64"
proof -
  have r: "r = whole f + (if denominator f div 2 + denominator f mod 2 \<le> numerator f then 1 else 0)"
    and lt: "r < 2 ^ 64"
    using assms(1) by (auto simp: fractional_round_def res_simps arith_checked)
  have "\<lfloor>frac_value f + 1 / 2\<rfloor>
      = int (whole f) + \<lfloor>(of_nat (numerator f) :: rat) / of_nat (denominator f) + 1 / 2\<rfloor>"
    using int_add_floor [of "int (whole f)"
        "(of_nat (numerator f) :: rat) / of_nat (denominator f) + 1 / 2"]
    by (simp add: frac_value_def add.assoc)
  also have "\<dots> = int r"
    using half_rounds_up [of "denominator f" "numerator f"] assms(2) r by (simp add: frac_ok_def)
  finally show "r = round_half_up (frac_value f)"
    by (simp add: round_half_up_def)
  show "r < 2 ^ 64" by (rule lt)
qed

lemma round_half_up_mono: "x \<le> y \<Longrightarrow> round_half_up x \<le> round_half_up y"
  unfolding round_half_up_def by (rule nat_mono) (simp add: floor_mono)


subsection \<open>Rating an observation\<close>

lemma rate_units_mono:
  assumes "rate_units u d = Inr m" and "rate_units v d = Inr n" and "u \<le> v"
  shows "m \<le> n"
proof (cases "aggregate d")
  case True
  have "(u * price_micro_usd d + (scale d - 1)) div scale d
      \<le> (v * price_micro_usd d + (scale d - 1)) div scale d"
    using assms(3) by (intro ceil_div_mono mult_le_mono1)
  then show ?thesis
    using rate_units_Inr(3) [OF assms(1)] rate_units_Inr(3) [OF assms(2)] True by simp
next
  case False
  have "(u + (scale d - 1)) div scale d * price_micro_usd d
      \<le> (v + (scale d - 1)) div scale d * price_micro_usd d"
    using assms(3) by (intro ceil_div_mono mult_le_mono1)
  then show ?thesis
    using rate_units_Inr(3) [OF assms(1)] rate_units_Inr(3) [OF assms(2)] False by simp
qed

lemma rate_dimension_stepE:
  assumes "rate_dimension_step previous current (p, c, ls) d = Inr (p', c', ls')"
  obtains pm cm where "units_of previous d \<le> units_of current d"
    and "rate_units (units_of previous d) d = Inr pm"
    and "rate_units (units_of current d) d = Inr cm"
    and "fractional_add p (units_of previous d) d = Inr p'"
    and "fractional_add c (units_of current d) d = Inr c'"
    and "map line_current_micro_usd ls' = map line_current_micro_usd ls @ [cm]"
    and "required d \<Longrightarrow> observation_get current (direction d) (billing_unit d) \<noteq> None"
  using assms
  by (auto simp: rate_dimension_step_def units_of_def res_simps arith_checked Let_def
      split: option.splits if_splits)

lemma rate_fold:
  assumes "try_fold (rate_dimension_step previous current) (p, c, ls) ds = Inr (p', c', ls')"
    and "frac_ok p" and "frac_ok c" and "list_all (\<lambda>d. 0 < scale d) ds"
  shows "frac_ok p' \<and> frac_ok c'
    \<and> frac_value p' = frac_value p + exact_total ds previous
    \<and> frac_value c' = frac_value c + exact_total ds current
    \<and> exact_total ds previous \<le> exact_total ds current
    \<and> exact_total ds current + of_nat (sum_list (map line_current_micro_usd ls))
        \<le> of_nat (sum_list (map line_current_micro_usd ls'))"
  using assms
proof (induction ds arbitrary: p c ls)
  case Nil
  then show ?case by (simp add: exact_total_def)
next
  case (Cons d ds)
  obtain p1 c1 ls1 where step: "rate_dimension_step previous current (p, c, ls) d = Inr (p1, c1, ls1)"
    and rest: "try_fold (rate_dimension_step previous current) (p1, c1, ls1) ds = Inr (p', c', ls')"
    using Cons.prems(1) by (auto simp: res_simps)
  from step obtain cm where le: "units_of previous d \<le> units_of current d"
    and cm: "rate_units (units_of current d) d = Inr cm"
    and p1: "fractional_add p (units_of previous d) d = Inr p1"
    and c1: "fractional_add c (units_of current d) d = Inr c1"
    and ls1: "map line_current_micro_usd ls1 = map line_current_micro_usd ls @ [cm]"
    by (rule rate_dimension_stepE)
  have s: "0 < scale d" and ss: "list_all (\<lambda>d. 0 < scale d) ds"
    using Cons.prems(4) by simp_all
  note vp = fractional_add_value [OF p1 Cons.prems(2) s]
  note vc = fractional_add_value [OF c1 Cons.prems(3) s]
  note IH = Cons.IH [OF rest conjunct1 [OF vp] conjunct1 [OF vc] ss]
  show ?case
    using IH vp vc exact_amount_mono [OF le, of d] exact_amount_le_rate [OF cm] ls1
    by (simp add: exact_total_def)
qed

lemma rate_observationE:
  assumes "rate_observation spec previous current = Inr r"
  shows "previous_micro_usd r = round_half_up (exact_total (dimensions spec) previous)"
    and "current_micro_usd r = round_half_up (exact_total (dimensions spec) current)"
    and "previous_micro_usd r + delta_micro_usd r = current_micro_usd r"
    and "current_micro_usd r < 2 ^ 64"
    and "exact_total (dimensions spec) current
           \<le> of_nat (sum_list (map line_current_micro_usd (lines r)))"
proof -
  obtain pt ct ls p c where v: "validate spec = Inr ()"
    and f: "try_fold (rate_dimension_step previous current)
        (fractional_default, fractional_default, []) (dimensions spec) = Inr (pt, ct, ls)"
    and p: "fractional_round pt = Inr p" and c: "fractional_round ct = Inr c"
    and r: "p \<le> c" "r = \<lparr>previous_micro_usd = p, current_micro_usd = c, delta_micro_usd = c - p,
      lines = ls\<rparr>"
    using assms by (auto simp: rate_observation_def res_simps arith_checked)
  have pos: "list_all (\<lambda>d. 0 < scale d) (dimensions spec)"
    using v by (simp add: validate_Inr)
  note F = rate_fold [OF f frac_default(1) frac_default(1) pos]
  show "previous_micro_usd r = round_half_up (exact_total (dimensions spec) previous)"
    using fractional_round_eq(1) [OF p] F r by simp
  show "current_micro_usd r = round_half_up (exact_total (dimensions spec) current)"
    and "current_micro_usd r < 2 ^ 64"
    using fractional_round_eq [OF c] F r by simp_all
  show "previous_micro_usd r + delta_micro_usd r = current_micro_usd r"
    using r by simp
  show "exact_total (dimensions spec) current
      \<le> of_nat (sum_list (map line_current_micro_usd (lines r)))"
    using F r by simp
qed

lemma round_half_up_le_nat: "x \<le> of_nat n \<Longrightarrow> round_half_up x \<le> n"
proof -
  assume "x \<le> of_nat n"
  then have "\<lfloor>x + 1 / 2\<rfloor> \<le> \<lfloor>(of_nat n :: rat) + 1 / 2\<rfloor>"
    by (intro floor_mono) simp
  also have "\<dots> = int n"
    by (simp add: floor_eq_iff)
  finally show ?thesis
    by (simp add: round_half_up_def)
qed

subsection \<open>Where rating can overflow\<close>

definition rating_overflows :: "string set" where
  "rating_overflows = {''total dimension rating'', ''dimension rating'', ''ceil division''}"

lemma rate_units_overflow:
  "rate_units u d = Inl (Overflow ctx) \<Longrightarrow> ctx \<in> rating_overflows"
  by (auto simp: rate_units_def ceil_div_def res_simps rating_overflows_def split: if_splits)

lemma fractional_add_overflow:
  "fractional_add f u d = Inl (Overflow ctx) \<Longrightarrow> ctx \<in> rating_overflows"
  by (auto simp: fractional_add_def res_simps Let_def rating_overflows_def
      dest: rate_units_overflow [unfolded rating_overflows_def] split: if_splits)

lemma rate_delta_defined:
  "rate_units u d = Inr m \<Longrightarrow> rate_units v d = Inr n \<Longrightarrow> u \<le> v \<Longrightarrow> checked_sub n m \<noteq> None"
  by (simp add: checked_sub_def rate_units_mono)

lemma rate_dimension_step_overflow:
  assumes "rate_dimension_step previous current acc d = Inl (Overflow ctx)"
  shows "ctx \<in> rating_overflows"
proof -
  obtain p c ls where acc: "acc = (p, c, ls)"
    by (cases acc) auto
  define u v where "u = units_of previous d"
    and "v = (case observation_get current (direction d) (billing_unit d) of
      None \<Rightarrow> 0 | Some n \<Rightarrow> n)"
  have "\<exists>m n. u \<le> v \<and> (rate_units u d = Inl (Overflow ctx)
      \<or> rate_units v d = Inl (Overflow ctx)
      \<or> (rate_units u d = Inr m \<and> rate_units v d = Inr n \<and> checked_sub n m = None)
      \<or> fractional_add p u d = Inl (Overflow ctx)
      \<or> fractional_add c v d = Inl (Overflow ctx))"
    using assms
    by (auto simp: acc rate_dimension_step_def units_of_def u_def v_def and_then_eq_Inl ok_or_eq_Inl
        and_then_eq_Inr ensure_eq_Inl ensure_eq_Inr Let_def split: option.splits if_splits)
  then show ?thesis
    using rate_delta_defined [of u d _ v] rate_units_overflow [of _ d ctx]
      fractional_add_overflow [of _ _ d ctx] by blast
qed

lemma rate_fold_overflow:
  assumes "try_fold (rate_dimension_step previous current) acc ds = Inl (Overflow ctx)"
  shows "ctx \<in> rating_overflows"
  using assms
  by (induction ds arbitrary: acc) (auto simp: res_simps dest: rate_dimension_step_overflow)

lemma validate_no_overflow: "validate spec \<noteq> Inl (Overflow ctx)"
proof -
  have "try_fold (\<lambda>_ d. ensure (scale d \<noteq> 0) (InvalidScale (direction d) (billing_unit d))) v ds
      \<noteq> Inl (Overflow ctx)" for v and ds :: "session_meter_dimension list"
    by (induction ds arbitrary: v) (auto simp: res_simps)
  then show ?thesis by (simp add: validate_def)
qed

lemma fractional_round_overflow:
  "fractional_round f = Inl (Overflow ctx) \<Longrightarrow> ctx = ''total rounding''"
  by (auto simp: fractional_round_def and_then_eq_Inl ok_or_eq_Inl)

lemma rate_totals_ordered:
  assumes "validate spec = Inr ()"
    and f: "try_fold (rate_dimension_step previous current)
      (fractional_default, fractional_default, []) (dimensions spec) = Inr (pt, ct, ls)"
    and p: "fractional_round pt = Inr p" and c: "fractional_round ct = Inr c"
  shows "p \<le> c"
proof -
  have "list_all (\<lambda>d. 0 < scale d) (dimensions spec)"
    using assms(1) by (simp add: validate_Inr)
  note F = rate_fold [OF f frac_default(1) frac_default(1) this]
  show ?thesis
    using F fractional_round_eq(1) [OF p] fractional_round_eq(1) [OF c]
    by (simp add: round_half_up_mono)
qed

lemma rate_observation_overflow:
  assumes "rate_observation spec previous current = Inl (Overflow ctx)"
  shows "ctx \<in> insert ''total rounding'' rating_overflows"
proof (cases "validate spec")
  case (Inl e)
  then show ?thesis
    using assms validate_no_overflow [of spec ctx] by (simp add: rate_observation_def)
next
  case (Inr u)
  then have v: "validate spec = Inr ()" by simp
  show ?thesis
  proof (cases "try_fold (rate_dimension_step previous current)
      (fractional_default, fractional_default, []) (dimensions spec)")
    case (Inl e)
    then show ?thesis
      using assms v rate_fold_overflow [of previous current _ "dimensions spec" ctx]
      by (auto simp: rate_observation_def)
  next
    case (Inr acc)
    then obtain pt ct ls where f: "try_fold (rate_dimension_step previous current)
        (fractional_default, fractional_default, []) (dimensions spec) = Inr (pt, ct, ls)"
      by (cases acc) auto
    then show ?thesis
      using assms v rate_totals_ordered [OF v f] fractional_round_overflow [of _ ctx]
      by (auto simp: rate_observation_def and_then_eq_Inl ok_or_eq_Inl checked_sub_None
          not_le [symmetric])
  qed
qed


lemma base_units_Inr:
  "micro_usd_to_base_units_ceil a s = Inr b \<longleftrightarrow>
     a * 10 ^ decimals s + 999999 < 2 ^ 128 \<and> 10 ^ decimals s < (2::nat) ^ 128 \<and>
     b = (a * 10 ^ decimals s + 999999) div 1000000 \<and> b < 2 ^ 64"
  by (auto simp: micro_usd_to_base_units_ceil_def MICRO_USD_PER_USD_def res_simps arith_checked)

lemma base_units_mono:
  "micro_usd_to_base_units_ceil a s = Inr x \<Longrightarrow> micro_usd_to_base_units_ceil b s = Inr y \<Longrightarrow>
     a \<le> b \<Longrightarrow> x \<le> y"
  by (simp add: base_units_Inr div_le_mono)

definition conversion_overflows :: "string set" where
  "conversion_overflows = {''settlement multiplier'', ''microUSD to base-unit numerator'',
     ''ceil division'', ''base-unit conversion''}"

lemma base_units_overflow:
  "micro_usd_to_base_units_ceil a s = Inl (Overflow ctx) \<Longrightarrow>
     ctx \<in> conversion_overflows"
  by (auto simp: conversion_overflows_def micro_usd_to_base_units_ceil_def MICRO_USD_PER_USD_def ceil_div_def
      and_then_eq_Inl ok_or_eq_Inl)

subsection \<open>Cumulative charging\<close>

text \<open>
  A meter that charges the step between two observations. When the charge of two steps in a row
  is the charge of the one step they make, a stream pays for its last observation however it
  was cut.
\<close>

fun stream_charges :: "('o \<Rightarrow> 'o \<Rightarrow> 'e + nat) \<Rightarrow> 'o \<Rightarrow> 'o list \<Rightarrow> 'e + nat list" where
  "stream_charges charge a [] = Inr []"
| "stream_charges charge a (b # bs) =
     and_then (charge a b) (\<lambda>x. and_then (stream_charges charge b bs) (\<lambda>xs. Inr (x # xs)))"

locale cumulative_meter =
  fixes charge :: "'o \<Rightarrow> 'o \<Rightarrow> 'e + nat"
  assumes charge_trans: "charge a b = Inr x \<Longrightarrow> charge b c = Inr y \<Longrightarrow> charge a c = Inr (x + y)"
begin

lemma stream_telescopes:
  "stream_charges charge a bs = Inr xs \<Longrightarrow> bs \<noteq> [] \<Longrightarrow> charge a (last bs) = Inr (sum_list xs)"
proof (induction bs arbitrary: a xs)
  case Nil
  then show ?case by simp
next
  case (Cons b bs)
  then obtain x ys where x: "charge a b = Inr x" and ys: "stream_charges charge b bs = Inr ys"
    and xs: "xs = x # ys"
    by (auto simp: and_then_eq_Inr)
  show ?case
  proof (cases "bs = []")
    case True
    then show ?thesis using x ys xs by simp
  next
    case False
    then show ?thesis
      using charge_trans [OF x Cons.IH [OF ys False]] xs by simp
  qed
qed

end

definition rates_step :: "usage_observation \<Rightarrow> usage_observation \<Rightarrow> session_meter_dimension \<Rightarrow> bool"
where
  "rates_step previous current d \<longleftrightarrow>
     units_of previous d \<le> units_of current d
     \<and> (required d \<longrightarrow> observation_get current (direction d) (billing_unit d) \<noteq> None)
     \<and> is_ok (rate_units (units_of previous d) d) \<and> is_ok (rate_units (units_of current d) d)"

definition fractional_total ::
  "session_meter_dimension list \<Rightarrow> usage_observation \<Rightarrow> fractional_amount \<Rightarrow>
     session_metering_error + fractional_amount" where
  "fractional_total ds obs f = try_fold (\<lambda>f d. fractional_add f (units_of obs d) d) f ds"

lemma rate_dimension_step_iff:
  "(\<exists>ls'. rate_dimension_step previous current (p, c, ls) d = Inr (p', c', ls')) \<longleftrightarrow>
     rates_step previous current d
     \<and> fractional_add p (units_of previous d) d = Inr p'
     \<and> fractional_add c (units_of current d) d = Inr c'"
proof
  assume "\<exists>ls'. rate_dimension_step previous current (p, c, ls) d = Inr (p', c', ls')"
  then show "rates_step previous current d
     \<and> fractional_add p (units_of previous d) d = Inr p'
     \<and> fractional_add c (units_of current d) d = Inr c'"
    by (auto simp: rates_step_def elim!: rate_dimension_stepE)
next
  assume R: "rates_step previous current d
     \<and> fractional_add p (units_of previous d) d = Inr p'
     \<and> fractional_add c (units_of current d) d = Inr c'"
  then obtain m n where "rate_units (units_of previous d) d = Inr m"
    and "rate_units (units_of current d) d = Inr n"
    by (auto simp: rates_step_def is_ok_iff)
  moreover from this have "m \<le> n"
    using R rate_units_mono by (auto simp: rates_step_def)
  ultimately show "\<exists>ls'. rate_dimension_step previous current (p, c, ls) d = Inr (p', c', ls')"
    using R
    by (auto simp: rates_step_def rate_dimension_step_def units_of_def res_simps checked_sub_def
        split: option.splits)
qed

lemma rate_fold_iff:
  "(\<exists>ls'. try_fold (rate_dimension_step previous current) (p, c, ls) ds = Inr (p', c', ls')) \<longleftrightarrow>
     list_all (rates_step previous current) ds
     \<and> fractional_total ds previous p = Inr p' \<and> fractional_total ds current c = Inr c'"
proof (induction ds arbitrary: p c ls)
  case Nil
  then show ?case by (auto simp: fractional_total_def)
next
  case (Cons d ds)
  have "(\<exists>ls'. try_fold (rate_dimension_step previous current) (p, c, ls) (d # ds)
      = Inr (p', c', ls')) \<longleftrightarrow>
    (\<exists>p1 c1 ls1. rate_dimension_step previous current (p, c, ls) d = Inr (p1, c1, ls1) \<and>
      (\<exists>ls'. try_fold (rate_dimension_step previous current) (p1, c1, ls1) ds
        = Inr (p', c', ls')))"
    by (auto simp: and_then_eq_Inr)
  also have "\<dots> \<longleftrightarrow> (\<exists>p1 c1. (\<exists>ls1. rate_dimension_step previous current (p, c, ls) d
      = Inr (p1, c1, ls1)) \<and> list_all (rates_step previous current) ds
      \<and> fractional_total ds previous p1 = Inr p' \<and> fractional_total ds current c1 = Inr c')"
    using Cons.IH by blast
  also have "\<dots> \<longleftrightarrow> list_all (rates_step previous current) (d # ds)
     \<and> fractional_total (d # ds) previous p = Inr p'
     \<and> fractional_total (d # ds) current c = Inr c'"
    by (auto simp: rate_dimension_step_iff fractional_total_def and_then_eq_Inr)
  finally show ?case .
qed

lemma rate_observation_iff:
  "(\<exists>r. rate_observation spec previous current = Inr r \<and> previous_micro_usd r = p
      \<and> current_micro_usd r = c) \<longleftrightarrow>
   validate spec = Inr () \<and> list_all (rates_step previous current) (dimensions spec)
   \<and> and_then (fractional_total (dimensions spec) previous fractional_default) fractional_round
      = Inr p
   \<and> and_then (fractional_total (dimensions spec) current fractional_default) fractional_round
      = Inr c" (is "?L \<longleftrightarrow> ?R")
proof
  assume ?L
  then obtain pt ct ls where v: "validate spec = Inr ()"
    and f: "try_fold (rate_dimension_step previous current)
        (fractional_default, fractional_default, []) (dimensions spec) = Inr (pt, ct, ls)"
    and p: "fractional_round pt = Inr p" and c: "fractional_round ct = Inr c"
    by (auto simp: rate_observation_def res_simps arith_checked)
  have "list_all (rates_step previous current) (dimensions spec)
     \<and> fractional_total (dimensions spec) previous fractional_default = Inr pt
     \<and> fractional_total (dimensions spec) current fractional_default = Inr ct"
    using f rate_fold_iff by blast
  then show ?R using v p c by simp
next
  assume R: ?R
  then obtain pt ct where t: "list_all (rates_step previous current) (dimensions spec)"
      "fractional_total (dimensions spec) previous fractional_default = Inr pt"
      "fractional_total (dimensions spec) current fractional_default = Inr ct"
    and p: "fractional_round pt = Inr p" and c: "fractional_round ct = Inr c"
    by (auto simp: and_then_eq_Inr)
  obtain ls where f: "try_fold (rate_dimension_step previous current)
        (fractional_default, fractional_default, []) (dimensions spec) = Inr (pt, ct, ls)"
    using rate_fold_iff t by blast
  have "p \<le> c"
    using rate_totals_ordered [OF _ f p c] R by simp
  then show ?L
    using R f p c by (simp add: rate_observation_def checked_sub_def)
qed

lemma rates_step_trans:
  "rates_step a b d \<Longrightarrow> rates_step b c d \<Longrightarrow> rates_step a c d"
  by (auto simp: rates_step_def)

definition charge_micro_usd ::
  "session_meter_spec \<Rightarrow> usage_observation \<Rightarrow> usage_observation \<Rightarrow>
     session_metering_error + nat" where
  "charge_micro_usd spec previous current =
     and_then (rate_observation spec previous current) (\<lambda>r. Inr (delta_micro_usd r))"

definition charge_base_units ::
  "session_meter_spec \<Rightarrow> stablecoin_settlement \<Rightarrow> usage_observation \<Rightarrow> usage_observation \<Rightarrow>
     session_metering_error + nat" where
  "charge_base_units spec s previous current =
     and_then (rate_voucher_delta spec s previous current) (\<lambda>r. Inr (delta_base_units r))"

lemma rate_observation_trans:
  assumes "rate_observation spec a b = Inr r1" and "rate_observation spec b c = Inr r2"
  shows "\<exists>r. rate_observation spec a c = Inr r
    \<and> previous_micro_usd r = previous_micro_usd r1 \<and> current_micro_usd r = current_micro_usd r2
    \<and> current_micro_usd r1 = previous_micro_usd r2"
proof -
  have 1: "validate spec = Inr () \<and> list_all (rates_step a b) (dimensions spec)
   \<and> and_then (fractional_total (dimensions spec) a fractional_default) fractional_round
      = Inr (previous_micro_usd r1)
   \<and> and_then (fractional_total (dimensions spec) b fractional_default) fractional_round
      = Inr (current_micro_usd r1)"
    using assms(1) rate_observation_iff [of spec a b] by blast
  have 2: "list_all (rates_step b c) (dimensions spec)
   \<and> and_then (fractional_total (dimensions spec) b fractional_default) fractional_round
      = Inr (previous_micro_usd r2)
   \<and> and_then (fractional_total (dimensions spec) c fractional_default) fractional_round
      = Inr (current_micro_usd r2)"
    using assms(2) rate_observation_iff [of spec b c] by blast
  have "list_all (rates_step a c) (dimensions spec)"
    using 1 2 by (auto simp: list_all_iff intro: rates_step_trans)
  then have "\<exists>r. rate_observation spec a c = Inr r \<and> previous_micro_usd r = previous_micro_usd r1
      \<and> current_micro_usd r = current_micro_usd r2"
    using 1 2 rate_observation_iff [of spec a c] by blast
  then show ?thesis using 1 2 by auto
qed

interpretation micro_meter: cumulative_meter "charge_micro_usd spec" for spec
proof
  fix a b c x y
  assume "charge_micro_usd spec a b = Inr x" and "charge_micro_usd spec b c = Inr y"
  then obtain r1 r2 where r: "rate_observation spec a b = Inr r1" "x = delta_micro_usd r1"
      "rate_observation spec b c = Inr r2" "y = delta_micro_usd r2"
    by (auto simp: charge_micro_usd_def and_then_eq_Inr)
  obtain r3 where "rate_observation spec a c = Inr r3"
    "previous_micro_usd r3 = previous_micro_usd r1" "current_micro_usd r3 = current_micro_usd r2"
    "current_micro_usd r1 = previous_micro_usd r2"
    using rate_observation_trans [OF r(1,3)] by blast
  then show "charge_micro_usd spec a c = Inr (x + y)"
    using rate_observationE(3) [of spec a c r3] rate_observationE(3) [OF r(1)]
      rate_observationE(3) [OF r(3)] r by (simp add: charge_micro_usd_def)
qed

lemma rate_voucher_deltaE:
  assumes "rate_voucher_delta spec s previous current = Inr v"
  shows "rate_observation spec previous current = Inr (usage v)"
    and "micro_usd_to_base_units_ceil (previous_micro_usd (usage v)) s
      = Inr (previous_base_units v)"
    and "micro_usd_to_base_units_ceil (current_micro_usd (usage v)) s
      = Inr (current_base_units v)"
    and "previous_base_units v + delta_base_units v = current_base_units v"
  using assms by (auto simp: rate_voucher_delta_def res_simps arith_checked)

interpretation voucher_meter: cumulative_meter "charge_base_units spec s" for spec s
proof
  fix a b c x y
  assume "charge_base_units spec s a b = Inr x" and "charge_base_units spec s b c = Inr y"
  then obtain r1 r2 where r: "rate_voucher_delta spec s a b = Inr r1" "x = delta_base_units r1"
      "rate_voucher_delta spec s b c = Inr r2" "y = delta_base_units r2"
    by (auto simp: charge_base_units_def and_then_eq_Inr)
  note V1 = rate_voucher_deltaE [OF r(1)] and V2 = rate_voucher_deltaE [OF r(3)]
  obtain u where u: "rate_observation spec a c = Inr u"
    "previous_micro_usd u = previous_micro_usd (usage r1)"
    "current_micro_usd u = current_micro_usd (usage r2)"
    "current_micro_usd (usage r1) = previous_micro_usd (usage r2)"
    using rate_observation_trans [OF V1(1) V2(1)] by blast
  have "current_base_units r1 = previous_base_units r2"
    using V1(3) V2(2) u(4) by simp
  then show "charge_base_units spec s a c = Inr (x + y)"
    using u V1 V2 r
    by (simp add: charge_base_units_def rate_voucher_delta_def checked_sub_def)
qed


subsection \<open>The usage gate\<close>

datatype gate_op = Observe usage_observation gate_mode | RecordCommit nat

definition gate_step :: "session_usage_gate \<Rightarrow> gate_op \<Rightarrow> session_usage_gate" where
  "gate_step g c =
     (case c of Observe obs mode \<Rightarrow> fst (observe g obs mode) | RecordCommit n \<Rightarrow> record_commit g n)"

definition gate_inv :: "session_usage_gate \<Rightarrow> bool" where
  "gate_inv g \<longleftrightarrow> baseline_base_units g \<le> committed_base_units g"

lemma observe_frame [simp]:
  "gate_spec (fst (observe g obs mode)) = gate_spec g"
  "settlement (fst (observe g obs mode)) = settlement g"
  "baseline_base_units (fst (observe g obs mode)) = baseline_base_units g"
  "committed_base_units (fst (observe g obs mode)) = committed_base_units g"
  by (auto simp: observe_def Let_def split: sum.splits)

lemma record_commit_frame [simp]:
  "gate_spec (record_commit g n) = gate_spec g"
  "settlement (record_commit g n) = settlement g"
  "baseline_base_units (record_commit g n) = baseline_base_units g"
  "last_observation (record_commit g n) = last_observation g"
  "committed_base_units (record_commit g n) = max (committed_base_units g) n"
  by (simp_all add: record_commit_def)

interpretation gate: monotone_machine gate_step gate_inv committed_base_units
  by unfold_locales (auto simp: gate_step_def gate_inv_def split: gate_op.splits)

lemma gate_new_inv: "gate_new spec s baseline m = Inr g \<Longrightarrow> gate_inv g"
  by (auto simp: gate_new_def gate_inv_def and_then_eq_Inr)

lemma observeE:
  assumes "observe g obs mode = (g', Inr dec)"
  obtains r t where "rate_voucher_delta (gate_spec g) (settlement g) (last_observation g) obs = Inr r"
    and "rate_voucher_delta (gate_spec g) (settlement g) [] obs = Inr t"
    and "baseline_base_units g + current_base_units t < 2 ^ 64"
    and "g' = g\<lparr>last_observation := obs\<rparr>"
    and "dec = (let target = baseline_base_units g + current_base_units t;
                    outstanding = saturating_sub target (committed_base_units g) in
                if outstanding = 0 \<or> (mode = Streaming \<and> outstanding < max (min_voucher_delta g) 1)
                then Continue r target (committed_base_units g) outstanding
                else VoucherRequired r target (committed_base_units g) outstanding)"
  using assms
  by (auto simp: observe_def Let_def res_simps arith_checked split: sum.splits)

lemma rate_voucher_same:
  assumes "rate_voucher_delta spec s a b = Inr r"
  shows "\<exists>r'. rate_voucher_delta spec s b b = Inr r'"
proof -
  note V = rate_voucher_deltaE [OF assms]
  have "validate spec = Inr () \<and> list_all (rates_step a b) (dimensions spec)
   \<and> and_then (fractional_total (dimensions spec) b fractional_default) fractional_round
      = Inr (current_micro_usd (usage r))"
    using V(1) rate_observation_iff [of spec a b] by blast
  moreover from this have "list_all (rates_step b b) (dimensions spec)"
    by (auto simp: list_all_iff rates_step_def)
  ultimately obtain u where "rate_observation spec b b = Inr u"
    "previous_micro_usd u = current_micro_usd (usage r)"
    "current_micro_usd u = current_micro_usd (usage r)"
    using rate_observation_iff [of spec b b] by blast
  then show ?thesis
    using V(3) by (simp add: rate_voucher_delta_def checked_sub_def)
qed

section \<open>Properties\<close>

text \<open>
  C19: the total charged for a cumulative observation is the exact rational price of all its
  dimensions, rounded once, half up; the delta is the difference of the two cumulative totals;
  and the total never exceeds the sum of the independently rounded per-dimension lines.
\<close>
theorem rate_observation_exact:
  assumes "rate_observation spec previous current = Inr r"
  shows "current_micro_usd r = round_half_up (exact_total (dimensions spec) current)
    \<and> previous_micro_usd r = round_half_up (exact_total (dimensions spec) previous)
    \<and> previous_micro_usd r + delta_micro_usd r = current_micro_usd r
    \<and> current_micro_usd r \<le> sum_list (map line_current_micro_usd (lines r))"
  using rate_observationE [OF assms] by (simp add: round_half_up_le_nat)

definition demo_spec :: session_meter_spec where
  "demo_spec = \<lparr>dimensions = [required_dimension Input Tokens 1000 250,
      required_dimension Output Tokens 1000 1250, optional_dimension Usage Requests 10 7]\<rparr>"

definition demo_obs :: "nat \<Rightarrow> nat \<Rightarrow> usage_observation" where
  "demo_obs i k = observation_set (observation_set [] Input Tokens i) Output Tokens k"

lemmas meter_eval =
  demo_spec_def demo_obs_def rate_observation_def validate_def rate_dimension_step_def
  required_dimension_def optional_dimension_def is_prorated_def unit_is_prorated_def
  is_response_measured_def observation_get_def rate_units_def ceil_div_def fractional_add_def
  fractional_default_def fractional_round_def gcd_loop.simps checked_add_def checked_mul_def
  checked_sub_def checked_pow_def try_from_def Let_def rate_voucher_delta_def
  micro_usd_to_base_units_ceil_def MICRO_USD_PER_USD_def charge_base_units_def
  exact_total_def exact_amount_def units_of_def round_half_up_def

lemma demo_rates: "is_ok (rate_observation demo_spec (demo_obs 1 0) (demo_obs 3 5))"
  by (simp add: meter_eval cong: and_then_weak_cong)

theorem rate_observation_exact_witness:
  "\<exists>r. rate_observation demo_spec (demo_obs 1 0) (demo_obs 3 5) = Inr r
     \<and> current_micro_usd r = round_half_up (exact_total (dimensions demo_spec) (demo_obs 3 5))
     \<and> round_half_up (exact_total (dimensions demo_spec) (demo_obs 3 5)) = 7"
proof -
  obtain r where r: "rate_observation demo_spec (demo_obs 1 0) (demo_obs 3 5) = Inr r"
    using demo_rates by (auto simp: is_ok_iff)
  have "round_half_up (exact_total (dimensions demo_spec) (demo_obs 3 5)) = 7"
    by (simp add: meter_eval floor_eq_iff nat_eq_iff)
  then show ?thesis
    using r rate_observation_exact [OF r] by blast
qed

text \<open>
  Subtracting cumulative amounts never underflows. Rating an observation against an earlier
  one can fail for the documented reasons, but never with the overflow contexts of the three
  subtractions (per dimension, total, base units).
\<close>
lemma rating_subtractions_defined:
  assumes "rate_voucher_delta spec s previous current = Inl (Overflow ctx)"
  shows "ctx \<notin> {''dimension delta'', ''total delta'', ''voucher base-unit delta''}"
proof -
  have "ctx \<in> insert ''total rounding'' rating_overflows \<union> conversion_overflows"
  proof (cases "rate_observation spec previous current")
    case (Inl e)
    then show ?thesis
      using assms rate_observation_overflow [of spec previous current ctx]
      by (auto simp: rate_voucher_delta_def)
  next
    case (Inr u)
    have "previous_micro_usd u \<le> current_micro_usd u"
      using rate_observationE(3) [OF Inr] by simp
    then have "micro_usd_to_base_units_ceil (previous_micro_usd u) s = Inl (Overflow ctx)
      \<or> micro_usd_to_base_units_ceil (current_micro_usd u) s = Inl (Overflow ctx)"
      using assms Inr base_units_mono [of "previous_micro_usd u" s _ "current_micro_usd u"]
      by (auto simp: rate_voucher_delta_def and_then_eq_Inl ok_or_eq_Inl checked_sub_None
          not_less [symmetric])
    then show ?thesis
      using base_units_overflow by blast
  qed
  then show ?thesis
    by (auto simp: rating_overflows_def conversion_overflows_def)
qed

theorem rating_subtractions_defined_witness:
  "\<exists>ctx. rate_voucher_delta demo_spec \<lparr>decimals = 39\<rparr> [] (demo_obs 1 1) = Inl (Overflow ctx)
     \<and> ctx \<notin> {''dimension delta'', ''total delta'', ''voucher base-unit delta''}"
proof -
  have e: "rate_voucher_delta demo_spec \<lparr>decimals = 39\<rparr> [] (demo_obs 1 1)
      = Inl (Overflow ''settlement multiplier'')"
    by (simp add: meter_eval cong: and_then_weak_cong)
  show ?thesis
    by (intro exI conjI) (rule e, rule rating_subtractions_defined [OF e])
qed

text \<open>
  C20: charges do not depend on how a stream is cut. If every chunk of a stream of cumulative
  observations is rated against the one before it, the single rating of the last observation
  against the first also succeeds, and its voucher delta is the sum of the chunk deltas.
\<close>
theorem stream_charges_telescope:
  assumes "stream_charges (charge_base_units spec s) start os = Inr xs" and "os \<noteq> []"
  shows "charge_base_units spec s start (last os) = Inr (sum_list xs)"
  using assms by (rule voucher_meter.stream_telescopes)

theorem stream_charges_telescope_witness:
  "\<exists>xs. stream_charges (charge_base_units demo_spec \<lparr>decimals = 6\<rparr>) []
        [demo_obs 1 1, demo_obs 1 2, demo_obs 4 9] = Inr xs
     \<and> charge_base_units demo_spec \<lparr>decimals = 6\<rparr> [] (demo_obs 4 9) = Inr (sum_list xs)"
proof -
  have "is_ok (stream_charges (charge_base_units demo_spec \<lparr>decimals = 6\<rparr>) []
      [demo_obs 1 1, demo_obs 1 2, demo_obs 4 9])"
    by (simp add: meter_eval cong: and_then_weak_cong)
  then obtain xs where "stream_charges (charge_base_units demo_spec \<lparr>decimals = 6\<rparr>) []
      [demo_obs 1 1, demo_obs 1 2, demo_obs 4 9] = Inr xs"
    by (auto simp: is_ok_iff)
  then show ?thesis
    using stream_charges_telescope [of demo_spec "\<lparr>decimals = 6\<rparr>" "[]"
        "[demo_obs 1 1, demo_obs 1 2, demo_obs 4 9]" xs] by simp
qed

text \<open>
  the conversion of micro-USD to token base units rounds up by less than one base unit, and
  its result is a u64.
\<close>
theorem base_units_conversion:
  assumes "micro_usd_to_base_units_ceil a s = Inr b"
  shows "a * 10 ^ decimals s \<le> b * MICRO_USD_PER_USD
    \<and> b * MICRO_USD_PER_USD < a * 10 ^ decimals s + MICRO_USD_PER_USD
    \<and> b < 2 ^ 64"
proof -
  define n where "n = a * 10 ^ decimals s"
  have b: "b = (n + 999999) div 1000000" and lt: "b < 2 ^ 64"
    using assms by (simp_all add: base_units_Inr n_def)
  have "n \<le> b * 1000000"
    using ceil_div_least [of 1000000 n b] b by simp
  moreover have "b * 1000000 \<le> n + 999999"
    unfolding b by (rule div_times_less_eq_dividend)
  ultimately have "n \<le> b * 1000000 \<and> b * 1000000 < n + 1000000"
    by simp
  then show ?thesis
    using lt by (simp add: n_def MICRO_USD_PER_USD_def)
qed

theorem base_units_conversion_witness:
  "micro_usd_to_base_units_ceil 12345 \<lparr>decimals = 2\<rparr> = Inr 2
     \<and> 12345 * 10 ^ 2 \<le> 2 * MICRO_USD_PER_USD"
proof -
  have e: "micro_usd_to_base_units_ceil 12345 \<lparr>decimals = 2\<rparr> = Inr 2"
    by (simp add: meter_eval cong: and_then_weak_cong)
  show ?thesis
    using e base_units_conversion [OF e] by simp
qed

text \<open>
  the gate's decision. The target is the baseline plus the full price of the current
  observation, whatever was observed before; a voucher is required exactly when something is
  outstanding and the response is final or the outstanding amount reaches the voucher
  threshold; observing commits nothing.
\<close>
theorem observe_decision:
  assumes "observe g obs mode = (g', Inr dec)"
  shows "(\<exists>t. rate_voucher_delta (gate_spec g) (settlement g) [] obs = Inr t
           \<and> target_cumulative_base_units dec = baseline_base_units g + current_base_units t)
    \<and> outstanding_base_units dec = target_cumulative_base_units dec - committed_base_units g
    \<and> (requires_voucher dec \<longleftrightarrow> 0 < outstanding_base_units dec
           \<and> (mode = Final \<or> max (min_voucher_delta g) 1 \<le> outstanding_base_units dec))
    \<and> g' = g\<lparr>last_observation := obs\<rparr>"
  using assms
  by (cases mode) (auto elim!: observeE simp: Let_def saturating_sub_def split: if_splits)

definition demo_gate :: session_usage_gate where
  "demo_gate = \<lparr>gate_spec = demo_spec, settlement = \<lparr>decimals = 6\<rparr>, baseline_base_units = 100,
     committed_base_units = 100, min_voucher_delta = 5, last_observation = []\<rparr>"

lemmas gate_eval = meter_eval demo_gate_def observe_def saturating_sub_def

theorem observe_decision_witness:
  "\<exists>g' dec. observe demo_gate (demo_obs 3 5) Streaming = (g', Inr dec)
     \<and> requires_voucher dec \<and> target_cumulative_base_units dec = 107
     \<and> g' = demo_gate\<lparr>last_observation := demo_obs 3 5\<rparr>"
proof -
  have o: "is_ok (snd (observe demo_gate (demo_obs 3 5) Streaming))"
    by (simp add: gate_eval cong: and_then_weak_cong)
  obtain g' m where o': "observe demo_gate (demo_obs 3 5) Streaming = (g', m)"
    by (cases "observe demo_gate (demo_obs 3 5) Streaming")
  with o obtain dec where d: "observe demo_gate (demo_obs 3 5) Streaming = (g', Inr dec)"
    by (auto simp: is_ok_iff)
  have "(case snd (observe demo_gate (demo_obs 3 5) Streaming) of Inl _ \<Rightarrow> False
      | Inr x \<Rightarrow> requires_voucher x \<and> target_cumulative_base_units x = 107)"
    by (simp add: gate_eval cong: and_then_weak_cong)
  then show ?thesis
    using d observe_decision [OF d] by auto
qed

text \<open>
  paying settles. After an observation is accepted and a voucher for its target is recorded,
  a final observation of the same usage succeeds, needs no voucher and leaves nothing
  outstanding.
\<close>
theorem commit_settles:
  assumes "observe g obs mode = (g', Inr dec)"
  shows "\<exists>g'' dec'. observe (record_commit g' (target_cumulative_base_units dec)) obs Final
      = (g'', Inr dec') \<and> \<not> requires_voucher dec' \<and> outstanding_base_units dec' = 0"
proof -
  obtain r t where r: "rate_voucher_delta (gate_spec g) (settlement g) (last_observation g) obs = Inr r"
    and t: "rate_voucher_delta (gate_spec g) (settlement g) [] obs = Inr t"
    and lt: "baseline_base_units g + current_base_units t < 2 ^ 64"
    and g': "g' = g\<lparr>last_observation := obs\<rparr>"
    and target: "target_cumulative_base_units dec = baseline_base_units g + current_base_units t"
    using assms by (auto elim!: observeE simp: Let_def split: if_splits)
  obtain r' where r': "rate_voucher_delta (gate_spec g) (settlement g) obs obs = Inr r'"
    using rate_voucher_same [OF r] by blast
  show ?thesis
    using r' t lt g' target
    by (simp add: observe_def record_commit_def checked_add_def Let_def saturating_sub_def)
qed

theorem commit_settles_witness:
  "\<exists>g' dec g'' dec'. observe demo_gate (demo_obs 3 5) Streaming = (g', Inr dec)
     \<and> observe (record_commit g' (target_cumulative_base_units dec)) (demo_obs 3 5) Final
         = (g'', Inr dec') \<and> \<not> requires_voucher dec'"
proof -
  have o: "is_ok (snd (observe demo_gate (demo_obs 3 5) Streaming))"
    by (simp add: gate_eval cong: and_then_weak_cong)
  obtain g' m where o': "observe demo_gate (demo_obs 3 5) Streaming = (g', m)"
    by (cases "observe demo_gate (demo_obs 3 5) Streaming")
  with o obtain dec where d: "observe demo_gate (demo_obs 3 5) Streaming = (g', Inr dec)"
    by (auto simp: is_ok_iff)
  show ?thesis
    using d commit_settles [OF d] by blast
qed

text \<open>
  over any interleaving of observations and commits, a gate's committed amount never
  decreases and never falls below the baseline it was opened with.
\<close>
theorem gate_committed_monotone:
  assumes "gate_new spec s baseline m = Inr g"
  shows "baseline \<le> committed_base_units (run_ops gate_step g ops)
    \<and> committed_base_units (run_ops gate_step g ops)
        \<le> committed_base_units (run_ops gate_step g (ops @ later))"
proof -
  have i: "gate_inv g" and b: "committed_base_units g = baseline"
    using assms by (auto simp: gate_new_inv gate_new_def and_then_eq_Inr)
  show ?thesis
    using gate.run_level [OF i, of ops] gate.run_level [OF gate.run_inv [OF i], of ops later] b
    by (simp add: gate.run_append)
qed

theorem gate_committed_monotone_witness:
  "gate_new demo_spec \<lparr>decimals = 6\<rparr> 100 5 = Inr demo_gate
     \<and> 100 \<le> committed_base_units (run_ops gate_step demo_gate [RecordCommit 40, RecordCommit 120])"
proof -
  have g: "gate_new demo_spec \<lparr>decimals = 6\<rparr> 100 5 = Inr demo_gate"
    by (simp add: gate_new_def validate_def demo_spec_def demo_gate_def required_dimension_def
        optional_dimension_def)
  show ?thesis
    using g gate_committed_monotone [OF g] by blast
qed

end
