(* ===== verification/Price_Table.thy ===== *)
theory Price_Table
  imports Float64_Ops Session_Metering
begin

text \<open>
  Metered prices of an API specification
  (\<^verbatim>\<open>src/rust/crates/types/src/metering.rs\<close>,
  \<^verbatim>\<open>src/rust/crates/core/src/server/metering.rs\<close>,
  \<^verbatim>\<open>src/rust/crates/core/src/server/accounting.rs\<close> and the adapter of
  \<^verbatim>\<open>src/rust/crates/core/src/server/session_metering.rs\<close>): endpoints found by method and path,
  variants chosen by a hint, tiers chosen by conditions on the request or by the volume used so far, the
  price a fixed per-call scheme charges before the body is read, and the conversion of a price table to the
  integer prices of a session meter.

  The main results: what a variant hint selects; that a fixed price is never below what the request turns
  out to cost once its body and properties are known; and that every dollar price of six decimals up to
  4000 dollars converts to its micro-dollars exactly.

  Records keep the fields that the modelled code reads. Numbers of a specification are \<open>f64\<close>, counts \<open>u64\<close>.
\<close>

section \<open>Data\<close>

record recipient_alias =
  alias_account :: string
  alias_label :: "string option"

record split_rule =
  rule_recipient :: string
  rule_amount :: "f64 option"
  rule_percent :: "f64 option"
  rule_memo :: "string option"

datatype compare_op = Lte | Lt | Gte | Gt | Eq

datatype meter_condition =
    InputTokens compare_op nat
  | InputCharacters compare_op nat
  | ContextLength compare_op nat
  | BodySize compare_op nat
  | DurationSeconds compare_op nat
  | BatchSize compare_op nat
  | ImagePixels compare_op nat

record price_tier =
  up_to :: "nat option"
  price_usd :: f64
  tier_condition :: "meter_condition option"
  tier_notes :: "string option"
  tier_splits :: "split_rule list"

datatype usage_meter_source = ResponseJson | ResponseHeader

record usage_meter =
  meter_source :: usage_meter_source
  meter_path :: "string option"
  meter_header :: "string option"

datatype billing_period = PerSecond | PerHour | PerDay | PerMonth

record meter_dimension =
  md_direction :: meter_direction
  md_unit :: billing_unit
  md_scale :: nat
  md_period :: "billing_period option"
  md_tiers :: "price_tier list"
  md_meter :: "usage_meter option"

record meter_variant =
  variant_param :: string
  variant_value :: string
  variant_dimensions :: "meter_dimension list"

datatype scheme = MppCharge | MppSession | X402Exact | X402Upto | X402BatchSettlement

datatype missing_usage_policy = Refund | Min | Ceiling | Error

record upto_metering =
  upto_max :: "f64 option"
  upto_min :: "f64 option"
  upto_missing_usage :: missing_usage_policy
  upto_max_bytes :: "nat option"
  usage_preset :: "string option"

datatype sku_level = Essentials | Pro | Enterprise

record metering =
  m_dimensions :: "meter_dimension list"
  m_variants :: "meter_variant list"
  m_sku_tiers :: "(string \<times> sku_level) list"
  m_splits :: "split_rule list"
  m_schemes :: "scheme list option"
  m_min_usd :: "f64 option"
  m_upto :: "upto_metering option"

datatype http_method = Get | Post | Put | Patch | Delete

record endpoint =
  ep_method :: http_method
  ep_path :: string
  ep_metering :: "metering option"
  ep_has_subscription :: bool

record request_properties =
  input_tokens :: "nat option"
  input_characters :: "nat option"
  context_length :: "nat option"
  body_size :: "nat option"
  duration_seconds :: "nat option"
  batch_size :: "nat option"
  image_pixels :: "nat option"

record resolved_dimension =
  rd_direction :: string
  rd_unit :: string
  rd_scale :: nat
  rd_price_usd :: f64

type_synonym resolved_price = "resolved_dimension list"

datatype accounting_mode = Pooled | PerAgent

record accounting_key =
  key_api :: string
  key_endpoint :: string
  key_period :: string
  key_scope :: string

type_synonym accounting_store = "accounting_key \<rightharpoonup> nat"

record metering_context =
  ctx_api_name :: string
  ctx_endpoint_path :: string
  ctx_mode :: accounting_mode
  ctx_store :: accounting_store
  ctx_wallet :: "string option"
  ctx_now :: nat


section \<open>Endpoints\<close>

fun method_name :: "http_method \<Rightarrow> string" where
  "method_name Get = ''GET''"
| "method_name Post = ''POST''"
| "method_name Put = ''PUT''"
| "method_name Patch = ''PATCH''"
| "method_name Delete = ''DELETE''"

definition path_segment_matches :: "string \<Rightarrow> string \<Rightarrow> bool" where
  "path_segment_matches pattern actual =
     (if prefix ''{'' pattern \<and> suffix ''}'' pattern then True
      else if CHR ''{'' \<in> set pattern then
        (case dropWhile (\<lambda>ch. ch \<noteq> CHR ''}'') pattern of
           [] \<Rightarrow> False
         | _ # rest \<Rightarrow> suffix rest actual)
      else pattern = actual)"

definition path_matches :: "string \<Rightarrow> string \<Rightarrow> bool" where
  "path_matches pattern path =
     (let pattern_parts = split_on (CHR ''/'') pattern; path_parts = split_on (CHR ''/'') path;
          segment = last pattern_parts in
      if prefix ''{*'' segment \<and> suffix ''}'' segment then
        length pattern_parts \<le> length path_parts
        \<and> list_all (\<lambda>(pat, actual). path_segment_matches pat actual) (zip (butlast pattern_parts) path_parts)
      else
        length pattern_parts = length path_parts
        \<and> list_all (\<lambda>(pat, actual). path_segment_matches pat actual) (zip pattern_parts path_parts))"

definition find_endpoint :: "endpoint list \<Rightarrow> string \<Rightarrow> string \<Rightarrow> endpoint option" where
  "find_endpoint endpoints meth path =
     (case find (\<lambda>e. method_name (ep_method e) = meth \<and> ep_path e = path) endpoints of
        Some e \<Rightarrow> Some e
      | None \<Rightarrow> find (\<lambda>e. method_name (ep_method e) = meth \<and> path_matches (ep_path e) path) endpoints)"

definition find_endpoint_by_path :: "endpoint list \<Rightarrow> string \<Rightarrow> endpoint option" where
  "find_endpoint_by_path endpoints path =
     (case find (\<lambda>e. ep_path e = path) endpoints of
        Some e \<Rightarrow> Some e
      | None \<Rightarrow> find (\<lambda>e. path_matches (ep_path e) path) endpoints)"

definition variant_hint_from_path :: "string \<Rightarrow> string option" where
  "variant_hint_from_path path =
     (let parts = split_on (CHR ''/'') path in
      map_option (\<lambda>(_, following). hd (split_on (CHR '':'') following))
        (find (\<lambda>(part, _). part = ''models'' \<or> part = ''voices'') (zip parts (tl parts))))"


section \<open>Accounting\<close>

definition get_usage :: "accounting_store \<Rightarrow> accounting_key \<Rightarrow> nat" where
  "get_usage store key = (case store key of None \<Rightarrow> 0 | Some n \<Rightarrow> n)"

text \<open>The counter is a \<open>u64\<close> and its addition wraps in a release build.\<close>

definition increment :: "accounting_store \<Rightarrow> accounting_key \<Rightarrow> nat \<Rightarrow> accounting_store \<times> nat" where
  "increment store key amount =
     (let total = wrapping 64 (get_usage store key + amount) in (store(key \<mapsto> total), total))"

definition reset_period :: "accounting_store \<Rightarrow> string \<Rightarrow> accounting_store" where
  "reset_period store period = (\<lambda>key. if key_period key = period then None else store key)"

definition current_period :: "nat \<Rightarrow> string" where
  "current_period now =
     (let days = now div 86400; year = 1970 + days div 365; month = days mod 365 div 30 + 1 in
      show_nat year @ ''-'' @ (if month < 10 then ''0'' else []) @ show_nat month)"

definition context_key :: "metering_context \<Rightarrow> accounting_key" where
  "context_key ctx =
     \<lparr>key_api = ctx_api_name ctx, key_endpoint = ctx_endpoint_path ctx, key_period = current_period (ctx_now ctx),
      key_scope = (case ctx_mode ctx of
                     Pooled \<Rightarrow> ''pool''
                   | PerAgent \<Rightarrow> (case ctx_wallet ctx of None \<Rightarrow> ''unknown'' | Some w \<Rightarrow> w))\<rparr>"


section \<open>Tiers\<close>

fun condition_property :: "meter_condition \<Rightarrow> request_properties \<Rightarrow> nat option" where
  "condition_property (InputTokens _ _) props = input_tokens props"
| "condition_property (InputCharacters _ _) props = input_characters props"
| "condition_property (ContextLength _ _) props = context_length props"
| "condition_property (BodySize _ _) props = body_size props"
| "condition_property (DurationSeconds _ _) props = duration_seconds props"
| "condition_property (BatchSize _ _) props = batch_size props"
| "condition_property (ImagePixels _ _) props = image_pixels props"

fun condition_test :: "meter_condition \<Rightarrow> compare_op \<times> nat" where
  "condition_test (InputTokens op v) = (op, v)"
| "condition_test (InputCharacters op v) = (op, v)"
| "condition_test (ContextLength op v) = (op, v)"
| "condition_test (BodySize op v) = (op, v)"
| "condition_test (DurationSeconds op v) = (op, v)"
| "condition_test (BatchSize op v) = (op, v)"
| "condition_test (ImagePixels op v) = (op, v)"

fun compare_values :: "compare_op \<Rightarrow> nat \<Rightarrow> nat \<Rightarrow> bool" where
  "compare_values Lte actual threshold = (actual \<le> threshold)"
| "compare_values Lt actual threshold = (actual < threshold)"
| "compare_values Gte actual threshold = (actual \<ge> threshold)"
| "compare_values Gt actual threshold = (actual > threshold)"
| "compare_values Eq actual threshold = (actual = threshold)"

definition evaluate_condition :: "meter_condition \<Rightarrow> request_properties \<Rightarrow> bool" where
  "evaluate_condition condition props =
     (case condition_property condition props of
        None \<Rightarrow> True
      | Some actual \<Rightarrow> (case condition_test condition of (op, threshold) \<Rightarrow> compare_values op actual threshold))"

datatype unmeasured = Provisional | Costliest

fun is_body_size :: "meter_condition \<Rightarrow> bool" where
  "is_body_size (BodySize _ _) = True"
| "is_body_size _ = False"

definition conservative :: "unmeasured \<Rightarrow> request_properties \<Rightarrow> meter_condition \<Rightarrow> bool" where
  "conservative unmeasured props condition \<longleftrightarrow>
     condition_property condition props = None \<and> (unmeasured = Costliest \<or> is_body_size condition)"

definition tier_matches :: "request_properties \<Rightarrow> price_tier \<Rightarrow> bool" where
  "tier_matches props tier =
     (case tier_condition tier of None \<Rightarrow> True | Some condition \<Rightarrow> evaluate_condition condition props)"

definition costliest_tier :: "price_tier list \<Rightarrow> price_tier option" where
  "costliest_tier tiers = max_by (\<lambda>a b. f64_total_le (price_usd a) (price_usd b)) tiers"

definition select_price_tier_from_tiers ::
  "price_tier list \<Rightarrow> request_properties \<Rightarrow> unmeasured \<Rightarrow> price_tier option" where
  "select_price_tier_from_tiers tiers props unmeasured =
     (if list_ex (\<lambda>tier. case tier_condition tier of None \<Rightarrow> False | Some c \<Rightarrow> conservative unmeasured props c) tiers
      then costliest_tier tiers
      else
        (case find (tier_matches props) tiers of
           Some tier \<Rightarrow> Some tier
         | None \<Rightarrow> if tiers = [] then None else Some (last tiers)))"

definition has_volume_tiers :: "price_tier list \<Rightarrow> bool" where
  "has_volume_tiers tiers = list_ex (\<lambda>tier. up_to tier \<noteq> None) tiers"

definition is_priced :: "price_tier \<Rightarrow> bool" where
  "is_priced tier = f64_less (Finite 0) (price_usd tier)"

definition select_tier :: "meter_dimension \<Rightarrow> request_properties \<Rightarrow> unmeasured \<Rightarrow> price_tier option" where
  "select_tier dimension props unmeasured =
     (if has_volume_tiers (md_tiers dimension) then
        (case find is_priced (md_tiers dimension) of
           Some tier \<Rightarrow> Some tier
         | None \<Rightarrow> if md_tiers dimension = [] then None else Some (hd (md_tiers dimension)))
      else select_price_tier_from_tiers (md_tiers dimension) props unmeasured)"

definition select_price_tier :: "meter_dimension \<Rightarrow> request_properties \<Rightarrow> price_tier option" where
  "select_price_tier dimension props = select_tier dimension props Provisional"

fun volume_price :: "price_tier list \<Rightarrow> nat \<Rightarrow> f64 option" where
  "volume_price [] used = None"
| "volume_price (tier # tiers) used =
     (case up_to tier of
        Some limit \<Rightarrow> if used \<le> limit then Some (price_usd tier) else volume_price tiers used
      | None \<Rightarrow> Some (price_usd tier))"

definition resolve_tier_by_volume :: "price_tier list \<Rightarrow> nat \<Rightarrow> f64" where
  "resolve_tier_by_volume tiers current_usage =
     (case volume_price tiers current_usage of
        Some price \<Rightarrow> price
      | None \<Rightarrow> if tiers = [] then Finite 0 else price_usd (last tiers))"

definition first_non_free_price :: "price_tier list \<Rightarrow> f64" where
  "first_non_free_price tiers = (case find is_priced tiers of Some tier \<Rightarrow> price_usd tier | None \<Rightarrow> Finite 0)"

definition resolve_tier ::
  "price_tier list \<Rightarrow> request_properties \<Rightarrow> metering_context option \<Rightarrow> unmeasured \<Rightarrow> f64" where
  "resolve_tier tiers props ctx unmeasured =
     (if has_volume_tiers tiers then
        (case ctx of
           Some c \<Rightarrow> resolve_tier_by_volume tiers (get_usage (ctx_store c) (context_key c))
         | None \<Rightarrow> first_non_free_price tiers)
      else
        (case select_price_tier_from_tiers tiers props unmeasured of
           Some tier \<Rightarrow> price_usd tier
         | None \<Rightarrow> Finite 0))"


section \<open>Prices\<close>

fun debug_direction :: "meter_direction \<Rightarrow> string" where
  "debug_direction Input = ''Input''"
| "debug_direction Output = ''Output''"
| "debug_direction Usage = ''Usage''"
| "debug_direction Storage = ''Storage''"

fun debug_unit :: "billing_unit \<Rightarrow> string" where
  "debug_unit Tokens = ''Tokens''"
| "debug_unit Characters = ''Characters''"
| "debug_unit Requests = ''Requests''"
| "debug_unit Minutes = ''Minutes''"
| "debug_unit Hours = ''Hours''"
| "debug_unit Seconds = ''Seconds''"
| "debug_unit Pages = ''Pages''"
| "debug_unit Documents = ''Documents''"
| "debug_unit Invocations = ''Invocations''"
| "debug_unit Bytes = ''Bytes''"
| "debug_unit Gibibytes = ''Gibibytes''"
| "debug_unit Tebibytes = ''Tebibytes''"
| "debug_unit Vcpu = ''Vcpu''"
| "debug_unit QuotaUnits = ''QuotaUnits''"
| "debug_unit Instances = ''Instances''"

definition resolve_dimensions_as ::
  "meter_dimension list \<Rightarrow> request_properties \<Rightarrow> metering_context option \<Rightarrow> unmeasured \<Rightarrow> resolved_price" where
  "resolve_dimensions_as dims props ctx unmeasured =
     map (\<lambda>d.
            \<lparr>rd_direction = to_ascii_lowercase (debug_direction (md_direction d)),
             rd_unit = to_ascii_lowercase (debug_unit (md_unit d)), rd_scale = md_scale d,
             rd_price_usd = resolve_tier (md_tiers d) props ctx unmeasured\<rparr>) dims"

definition resolve_dimensions ::
  "meter_dimension list \<Rightarrow> request_properties \<Rightarrow> metering_context option \<Rightarrow> resolved_price" where
  "resolve_dimensions dims props ctx = resolve_dimensions_as dims props ctx Provisional"

text \<open>The best variant so far and the first default one, as the loop over the variants carries them.\<close>

definition variant_step ::
  "string option \<Rightarrow> meter_variant option \<times> meter_variant option \<Rightarrow> meter_variant \<Rightarrow>
   meter_variant option \<times> meter_variant option" where
  "variant_step hint = (\<lambda>(fallback, best) variant.
     if to_ascii_lowercase (variant_value variant) = ''default'' then
       (if fallback = None then Some variant else fallback, best)
     else if (case hint of None \<Rightarrow> False | Some h \<Rightarrow> contains (variant_value variant) h)
             \<and> (case best of None \<Rightarrow> True | Some b \<Rightarrow> length (variant_value b) < length (variant_value variant))
     then (fallback, Some variant)
     else (fallback, best))"

definition resolve_variant :: "meter_variant list \<Rightarrow> string option \<Rightarrow> meter_variant option" where
  "resolve_variant variants hint =
     (case foldl (variant_step hint) (None, None) variants of
        (fallback, best) \<Rightarrow> if best \<noteq> None then best else fallback)"

definition sku_price :: resolved_price where
  "sku_price = [\<lparr>rd_direction = ''usage'', rd_unit = ''requests'', rd_scale = 1, rd_price_usd = Finite 0\<rparr>]"

definition resolve_price ::
  "metering \<Rightarrow> request_properties \<Rightarrow> string option \<Rightarrow> metering_context option \<Rightarrow> resolved_price option" where
  "resolve_price m props variant_hint ctx =
     (if m_variants m \<noteq> [] then
        (case resolve_variant (m_variants m) variant_hint of
           Some variant \<Rightarrow> Some (resolve_dimensions (variant_dimensions variant) props ctx)
         | None \<Rightarrow>
             if m_dimensions m \<noteq> [] then Some (resolve_dimensions (m_dimensions m) props ctx)
             else Some (resolve_dimensions (variant_dimensions (hd (m_variants m))) props ctx))
      else if m_dimensions m \<noteq> [] then Some (resolve_dimensions (m_dimensions m) props ctx)
      else if m_sku_tiers m \<noteq> [] then Some sku_price
      else None)"

definition scale_f64 :: "nat \<Rightarrow> f64" where
  "scale_f64 units = f64_of_nat (max units 1)"

definition per_call_usd :: "resolved_price \<Rightarrow> f64" where
  "per_call_usd price = f64_sum (map (\<lambda>d. f64_div (rd_price_usd d) (scale_f64 (rd_scale d))) price)"

definition is_aggregate_settled :: "meter_dimension \<Rightarrow> bool" where
  "is_aggregate_settled d \<longleftrightarrow> unit_is_prorated (md_unit d) \<or> md_meter d \<noteq> None"

definition all_dimensions :: "metering \<Rightarrow> meter_dimension list" where
  "all_dimensions m = m_dimensions m @ concat (map variant_dimensions (m_variants m))"

definition has_aggregate_dimensions :: "metering \<Rightarrow> bool" where
  "has_aggregate_dimensions m = list_ex is_aggregate_settled (all_dimensions m)"

definition accepted_schemes :: "metering \<Rightarrow> scheme list" where
  "accepted_schemes m = (case m_schemes m of None \<Rightarrow> [MppCharge] | Some schemes \<Rightarrow> schemes)"

definition costliest_usd :: "request_properties \<Rightarrow> meter_dimension list \<Rightarrow> f64" where
  "costliest_usd props dims = per_call_usd (resolve_dimensions_as dims props None Costliest)"

definition fixed_charge_dimensions ::
  "metering \<Rightarrow> request_properties \<Rightarrow> string option \<Rightarrow> meter_dimension list" where
  "fixed_charge_dimensions m props variant_hint =
     (if m_variants m = [] then m_dimensions m
      else
        (case (if variant_hint \<noteq> None then resolve_variant (m_variants m) variant_hint else None) of
           Some variant \<Rightarrow> variant_dimensions variant
         | None \<Rightarrow>
             if variant_hint \<noteq> None \<and> m_dimensions m \<noteq> [] then m_dimensions m
             else
               (case max_by (\<lambda>a b. f64_total_le (costliest_usd props a) (costliest_usd props b))
                       (map variant_dimensions (m_variants m) @ (if m_dimensions m \<noteq> [] then [m_dimensions m] else [])) of
                  Some dims \<Rightarrow> dims
                | None \<Rightarrow> m_dimensions m)))"

definition resolve_fixed_price ::
  "metering \<Rightarrow> request_properties \<Rightarrow> string option \<Rightarrow> string + resolved_price option" where
  "resolve_fixed_price m props variant_hint =
     (case find is_aggregate_settled (all_dimensions m) of
        Some d \<Rightarrow>
          Inl (debug_direction (md_direction d) @ '' '' @ debug_unit (md_unit d) @
               '' usage is metered from the response and cannot be charged per call'')
      | None \<Rightarrow>
          let dims = fixed_charge_dimensions m props variant_hint in
          if dims = [] then Inr (resolve_price m props variant_hint None)
          else Inr (Some (resolve_dimensions_as dims props None Costliest)))"

definition effective_dimensions :: "metering \<Rightarrow> string option \<Rightarrow> meter_dimension list" where
  "effective_dimensions m variant_hint =
     (if m_variants m \<noteq> [] then
        (case resolve_variant (m_variants m) variant_hint of
           Some variant \<Rightarrow> variant_dimensions variant
         | None \<Rightarrow> if m_dimensions m \<noteq> [] then m_dimensions m else variant_dimensions (hd (m_variants m)))
      else m_dimensions m)"

definition resolve_split_rules :: "metering \<Rightarrow> request_properties \<Rightarrow> string option \<Rightarrow> split_rule list" where
  "resolve_split_rules m props variant_hint =
     (case find (\<lambda>splits. splits \<noteq> [])
             (map tier_splits (List.map_filter (\<lambda>d. select_tier d props Costliest)
               (fixed_charge_dimensions m props variant_hint))) of
        Some splits \<Rightarrow> splits
      | None \<Rightarrow> m_splits m)"

definition dimension_splits :: "meter_dimension list \<Rightarrow> split_rule list" where
  "dimension_splits dims = concat (map (\<lambda>d. concat (map tier_splits (md_tiers d))) dims)"

definition all_split_rules :: "metering \<Rightarrow> split_rule list" where
  "all_split_rules m =
     m_splits m @ dimension_splits (m_dimensions m)
     @ concat (map (\<lambda>variant. dimension_splits (variant_dimensions variant)) (m_variants m))"

definition record_usage ::
  "metering \<Rightarrow> request_properties \<Rightarrow> string option \<Rightarrow> metering_context \<Rightarrow> nat \<Rightarrow>
   accounting_store \<times> resolved_price option" where
  "record_usage m props variant_hint ctx units_consumed =
     (let store = fst (increment (ctx_store ctx) (context_key ctx) units_consumed) in
      (store, resolve_price m props variant_hint (Some (ctx\<lparr>ctx_store := store\<rparr>))))"


section \<open>Session meters\<close>

definition price_usd_to_micro_usd :: "f64 \<Rightarrow> session_metering_error + nat" where
  "price_usd_to_micro_usd price =
     (if \<not> is_finite price \<or> f64_less price (Finite 0) then Inl InvalidPrice
      else
        let micro_usd = f64_mul price (f64_of_nat MICRO_USD_PER_USD); rounded = f64_round micro_usd in
        if f64_less (round_f64 (1 / 10 ^ 6)) (f64_abs (f64_sub micro_usd rounded)) then Inl InexactMicroUsdPrice
        else if f64_less (f64_of_nat (2 ^ 64 - 1)) rounded then Inl (Overflow ''price_usd conversion'')
        else Inr (f64_to_u64 rounded))"

definition dimension_from_metering ::
  "meter_dimension \<Rightarrow> request_properties \<Rightarrow> session_metering_error + session_meter_dimension" where
  "dimension_from_metering d props =
     (if md_scale d = 0 then Inl (InvalidScale (md_direction d) (md_unit d))
      else
        and_then (ok_or (NoPriceTier (md_direction d) (md_unit d)) (select_price_tier d props)) (\<lambda>tier.
        and_then (price_usd_to_micro_usd (price_usd tier)) (\<lambda>price_micro_usd.
        let rated = required_dimension (md_direction d) (md_unit d) (md_scale d) price_micro_usd in
        Inr (rated\<lparr>aggregate := aggregate rated \<or> is_aggregate_settled d\<rparr>))))"

definition select_dimensions :: "metering \<Rightarrow> string option \<Rightarrow> session_metering_error + meter_dimension list" where
  "select_dimensions m variant_hint =
     (if m_variants m \<noteq> [] then
        (case resolve_variant (m_variants m) variant_hint of
           Some variant \<Rightarrow> Inr (variant_dimensions variant)
         | None \<Rightarrow>
             if m_dimensions m \<noteq> [] then Inr (m_dimensions m) else Inr (variant_dimensions (hd (m_variants m))))
      else if m_dimensions m = [] then Inl NoDimensions
      else Inr (m_dimensions m))"

definition no_properties :: request_properties where
  "no_properties =
     \<lparr>input_tokens = None, input_characters = None, context_length = None, body_size = None,
      duration_seconds = None, batch_size = None, image_pixels = None\<rparr>"

definition spec_from_metering ::
  "metering \<Rightarrow> string option \<Rightarrow> request_properties option \<Rightarrow> session_metering_error + session_meter_spec" where
  "spec_from_metering m variant_hint request_properties =
     (if m_sku_tiers m \<noteq> [] then Inl UnsupportedSkuTiers
      else
        and_then (select_dimensions m variant_hint) (\<lambda>dims.
        let properties = (case request_properties of None \<Rightarrow> no_properties | Some p \<Rightarrow> p) in
        and_then (collect_results (map (\<lambda>d. dimension_from_metering d properties) dims)) (\<lambda>rated.
        let spec = \<lparr>dimensions = rated\<rparr> in
        and_then (validate spec) (\<lambda>_. Inr spec))))"


section \<open>Choice of a variant\<close>

definition variant_selected :: "string \<Rightarrow> meter_variant \<Rightarrow> bool" where
  "variant_selected hint variant \<longleftrightarrow>
     to_ascii_lowercase (variant_value variant) \<noteq> ''default'' \<and> contains (variant_value variant) hint"

lemma variant_fold_best:
  "snd (foldl (variant_step (Some hint)) (f, b) variants) =
     foldl (\<lambda>best v. if variant_selected hint v
                      \<and> (case best of None \<Rightarrow> True | Some w \<Rightarrow> length (variant_value w) < length (variant_value v))
                     then Some v else best) b variants"
proof (induction variants arbitrary: f b)
  case (Cons v vs)
  obtain f' b' where step: "variant_step (Some hint) (f, b) v = (f', b')"
    by fastforce
  then have "b' = (if variant_selected hint v
      \<and> (case b of None \<Rightarrow> True | Some w \<Rightarrow> length (variant_value w) < length (variant_value v)) then Some v else b)"
    by (auto simp: variant_step_def variant_selected_def split: if_splits)
  then show ?case
    using Cons [of f' b'] by (simp add: step)
qed simp

definition longest_variant :: "string \<Rightarrow> meter_variant option \<Rightarrow> meter_variant list \<Rightarrow> meter_variant option" where
  "longest_variant hint b variants =
     foldl (\<lambda>best v. if variant_selected hint v
                      \<and> (case best of None \<Rightarrow> True | Some w \<Rightarrow> length (variant_value w) < length (variant_value v))
                     then Some v else best) b variants"

lemma longest_variant_from:
  "longest_variant hint (Some w) variants = Some v \<Longrightarrow>
     (v = w \<or> v \<in> set variants \<and> variant_selected hint v)
     \<and> length (variant_value w) \<le> length (variant_value v)
     \<and> (\<forall>u \<in> set variants. variant_selected hint u \<longrightarrow> length (variant_value u) \<le> length (variant_value v))"
proof (induction variants arbitrary: w)
  case (Cons x xs)
  let ?w = "if variant_selected hint x \<and> length (variant_value w) < length (variant_value x) then x else w"
  have "longest_variant hint (Some ?w) xs = Some v"
    using Cons.prems by (auto simp: longest_variant_def split: if_splits)
  from Cons.IH [OF this] show ?case
    by (auto split: if_splits)
qed (simp add: longest_variant_def)

lemma longest_variant_exact:
  "(case longest_variant hint None variants of
      Some v \<Rightarrow> v \<in> set variants \<and> variant_selected hint v
               \<and> (\<forall>u \<in> set variants. variant_selected hint u \<longrightarrow> length (variant_value u) \<le> length (variant_value v))
    | None \<Rightarrow> \<forall>u \<in> set variants. \<not> variant_selected hint u)"
proof (induction variants)
  case Nil
  show ?case
    by (simp add: longest_variant_def)
next
  case (Cons x xs)
  show ?case
  proof (cases "variant_selected hint x")
    case True
    then have from_x: "longest_variant hint None (x # xs) = longest_variant hint (Some x) xs"
      by (simp add: longest_variant_def)
    have "\<exists>v. longest_variant hint (Some x) xs = Some v" for xs x
      by (induction xs arbitrary: x) (simp_all add: longest_variant_def)
    then obtain v where v: "longest_variant hint (Some x) xs = Some v"
      by blast
    show ?thesis
      using longest_variant_from [OF v] True by (auto simp: from_x v)
  next
    case False
    then have "longest_variant hint None (x # xs) = longest_variant hint None xs"
      by (simp add: longest_variant_def)
    then show ?thesis
      using Cons False by (auto split: option.splits)
  qed
qed

lemma resolve_variant_hint:
  "resolve_variant variants (Some hint) =
     (case longest_variant hint None variants of
        Some v \<Rightarrow> Some v
      | None \<Rightarrow> fst (foldl (variant_step (Some hint)) (None, None) variants))"
  using variant_fold_best [of hint None None variants]
  by (auto simp: resolve_variant_def longest_variant_def split: prod.splits option.splits)

lemma resolve_variant_in:
  assumes "resolve_variant variants hint = Some v"
  shows "v \<in> set variants"
proof -
  have "set_option (fst (foldl (variant_step hint) (f, b) vs)) \<union> set_option (snd (foldl (variant_step hint) (f, b) vs))
        \<subseteq> set_option f \<union> set_option b \<union> set vs" for f b vs
  proof (induction vs arbitrary: f b)
    case (Cons x xs)
    obtain f' b' where step: "variant_step hint (f, b) x = (f', b')"
      by fastforce
    then have "set_option f' \<union> set_option b' \<subseteq> set_option f \<union> set_option b \<union> {x}"
      by (auto simp: variant_step_def split: if_splits)
    then show ?case
      using Cons [of f' b'] by (auto simp: step)
  qed simp
  from this [of None None variants] show ?thesis
    using assms by (fastforce simp: resolve_variant_def split: prod.splits if_splits)
qed


section \<open>Fixed prices\<close>

text \<open>Properties known before the body is read, and what they become once everything is measured.\<close>

definition measured_more :: "request_properties \<Rightarrow> request_properties \<Rightarrow> bool" where
  "measured_more p q \<longleftrightarrow>
     input_tokens p \<in> {None, input_tokens q} \<and> input_characters p \<in> {None, input_characters q}
     \<and> context_length p \<in> {None, context_length q} \<and> body_size p \<in> {None, body_size q}
     \<and> duration_seconds p \<in> {None, duration_seconds q} \<and> batch_size p \<in> {None, batch_size q}
     \<and> image_pixels p \<in> {None, image_pixels q}"

lemma measured_more_property:
  "measured_more p q \<Longrightarrow> condition_property c p = None \<or> condition_property c q = condition_property c p"
  by (cases c) (auto simp: measured_more_def)

definition tiers_nonneg :: "price_tier list \<Rightarrow> bool" where
  "tiers_nonneg tiers = list_all (\<lambda>tier. f64_nonneg (price_usd tier)) tiers"

lemma select_price_tier_in:
  "select_price_tier_from_tiers tiers props unmeasured = Some tier \<Longrightarrow> tier \<in> set tiers"
  by (auto simp: select_price_tier_from_tiers_def costliest_tier_def find_Some_iff
      split: if_splits option.splits dest: max_by_key(1))

lemma select_price_tier_None:
  "select_price_tier_from_tiers tiers props unmeasured = None \<longleftrightarrow> tiers = []"
  by (auto simp: select_price_tier_from_tiers_def costliest_tier_def split: option.splits)

lemma select_price_tier_measured:
  assumes "measured_more p q"
    and "\<not> list_ex (\<lambda>tier. case tier_condition tier of None \<Rightarrow> False | Some c \<Rightarrow> conservative Costliest p c) tiers"
  shows "select_price_tier_from_tiers tiers q u = select_price_tier_from_tiers tiers p Costliest"
proof -
  have known: "condition_property c q = condition_property c p \<and> condition_property c q \<noteq> None"
    if "tier \<in> set tiers" "tier_condition tier = Some c" for tier c
    using assms(2) that measured_more_property [OF assms(1), of c]
    by (fastforce simp: list_ex_iff conservative_def)
  have "find (tier_matches q) tiers = find (tier_matches p) tiers"
    using known by (intro find_cong) (auto simp: tier_matches_def evaluate_condition_def split: option.splits)
  moreover have "\<not> list_ex (\<lambda>tier. case tier_condition tier of None \<Rightarrow> False | Some c \<Rightarrow> conservative u q c) tiers"
    using known by (fastforce simp: list_ex_iff conservative_def split: option.splits)
  ultimately show ?thesis
    using assms(2) by (simp only: select_price_tier_from_tiers_def if_False)
qed

lemma select_price_tier_le:
  assumes "measured_more p q" and "tiers_nonneg tiers"
    and "select_price_tier_from_tiers tiers q u = Some a" and "select_price_tier_from_tiers tiers p Costliest = Some b"
  shows "f64_le (price_usd a) (price_usd b)"
proof (cases "list_ex (\<lambda>tier. case tier_condition tier of None \<Rightarrow> False | Some c \<Rightarrow> conservative Costliest p c) tiers")
  case True
  then have "max_by (\<lambda>a b. f64_total_le (price_usd a) (price_usd b)) tiers = Some b"
    using assms(4) by (simp add: select_price_tier_from_tiers_def costliest_tier_def)
  note best = max_by_key [OF this]
  show ?thesis
    using best(2) [OF select_price_tier_in [OF assms(3)]] best(1) assms(2)
    by (auto simp: tiers_nonneg_def list_all_iff dest!: f64_nonneg_not_NaN intro!: f64_total_le_D)
next
  case False
  then have "a = b"
    using select_price_tier_measured [OF assms(1), of tiers u] assms(3,4) by simp
  then show ?thesis
    using select_price_tier_in [OF assms(3)] assms(2)
    by (auto simp: tiers_nonneg_def list_all_iff intro!: f64_le_refl dest!: f64_nonneg_not_NaN)
qed

lemma tiers_nonneg_member: "tiers_nonneg tiers \<Longrightarrow> tier \<in> set tiers \<Longrightarrow> f64_nonneg (price_usd tier)"
  by (simp add: tiers_nonneg_def list_all_iff)

lemma resolve_tier_nonneg: "tiers_nonneg tiers \<Longrightarrow> f64_nonneg (resolve_tier tiers props None u)"
  by (auto simp: resolve_tier_def first_non_free_price_def find_Some_iff in_set_conv_nth
      intro!: tiers_nonneg_member [of tiers] dest: select_price_tier_in split: option.splits)

lemma resolve_tier_le:
  assumes "measured_more p q" and "tiers_nonneg tiers"
  shows "f64_le (resolve_tier tiers q None u) (resolve_tier tiers p None Costliest)"
proof (cases "has_volume_tiers tiers")
  case True
  then have "resolve_tier tiers q None u = resolve_tier tiers p None Costliest"
    by (simp add: resolve_tier_def)
  then show ?thesis
    using resolve_tier_nonneg [OF assms(2)] by (simp add: f64_le_refl f64_nonneg_not_NaN)
next
  case False
  show ?thesis
  proof (cases "tiers = []")
    case True
    then show ?thesis
      using False by (simp add: resolve_tier_def select_price_tier_None [THEN iffD2])
  next
    case nonempty: False
    then obtain a b where "select_price_tier_from_tiers tiers q u = Some a"
      and "select_price_tier_from_tiers tiers p Costliest = Some b"
      using select_price_tier_None by (meson not_None_eq)
    then show ?thesis
      using select_price_tier_le [OF assms] False by (simp add: resolve_tier_def)
  qed
qed


definition dimensions_ok :: "meter_dimension list \<Rightarrow> bool" where
  "dimensions_ok dims = list_all (\<lambda>d. tiers_nonneg (md_tiers d) \<and> md_scale d < 2 ^ 64) dims"

text \<open>No price of the table is negative or not a number; scales are \<open>u64\<close>.\<close>

definition prices_ok :: "metering \<Rightarrow> bool" where
  "prices_ok m = dimensions_ok (all_dimensions m)"

lemma round_f64_two_64: "round_f64 (2 ^ 64) = Finite (2 ^ 64)"
  using round_f64_normal [of 64 "2 ^ 64" "2 ^ 52"] by simp

lemma scale_f64_pos:
  assumes "units < 2 ^ 64"
  obtains b where "scale_f64 units = Finite b" and "0 < b"
proof -
  let ?n = "of_nat (max units 1) :: rat"
  have low: "1 \<le> ?n"
    by (simp add: of_nat_max)
  have "(of_nat (max units 1) :: rat) \<le> of_nat (2 ^ 64)"
    using assms by (intro of_nat_mono) simp
  then have "f64_le (round_f64 ?n) (Finite (2 ^ 64))"
    using round_f64_mono [of ?n "2 ^ 64"] round_f64_two_64 low by simp
  moreover have "f64_le (Finite 1) (round_f64 ?n)"
    using round_f64_mono [of 1 ?n] round_f64_of_nat [of 1] low by simp
  ultimately show thesis
    using that by (cases "round_f64 ?n") (auto simp: scale_f64_def f64_of_nat_def)
qed

lemma per_call_le:
  assumes "measured_more p q" and "dimensions_ok dims"
  shows "f64_le (per_call_usd (resolve_dimensions_as dims q None u)) (costliest_usd p dims)"
  unfolding costliest_usd_def per_call_usd_def resolve_dimensions_as_def list.map_comp
proof (rule f64_sum_mono, simp add: list_all2_map1 list_all2_map2 list_all2_same o_def, intro ballI conjI)
  fix d
  assume "d \<in> set dims"
  then have d: "tiers_nonneg (md_tiers d)" "md_scale d < 2 ^ 64"
    using assms(2) by (simp_all add: dimensions_ok_def list_all_iff)
  obtain b where b: "scale_f64 (md_scale d) = Finite b" "0 < b"
    using d(2) by (rule scale_f64_pos)
  show "f64_nonneg (f64_div (resolve_tier (md_tiers d) q None u) (scale_f64 (md_scale d)))"
    using resolve_tier_nonneg [OF d(1)] b by (simp add: f64_div_pos_nonneg)
  show "f64_le (f64_div (resolve_tier (md_tiers d) q None u) (scale_f64 (md_scale d)))
          (f64_div (resolve_tier (md_tiers d) p None Costliest) (scale_f64 (md_scale d)))"
    using resolve_tier_nonneg [OF d(1)] resolve_tier_le [OF assms(1) d(1)] b by (simp add: f64_div_mono)
qed

lemma per_call_nonneg:
  assumes "dimensions_ok dims"
  shows "f64_nonneg (per_call_usd (resolve_dimensions_as dims q None u))"
  unfolding per_call_usd_def resolve_dimensions_as_def list.map_comp
proof (rule f64_sum_nonneg, simp add: list_all_iff, intro ballI)
  fix d
  assume "d \<in> set dims"
  then have d: "tiers_nonneg (md_tiers d)" "md_scale d < 2 ^ 64"
    using assms by (simp_all add: dimensions_ok_def list_all_iff)
  obtain b where b: "scale_f64 (md_scale d) = Finite b" "0 < b"
    using d(2) by (rule scale_f64_pos)
  show "f64_nonneg (f64_div (resolve_tier (md_tiers d) q None u) (scale_f64 (md_scale d)))"
    using resolve_tier_nonneg [OF d(1)] b by (simp add: f64_div_pos_nonneg)
qed

definition charge_candidates :: "metering \<Rightarrow> meter_dimension list list" where
  "charge_candidates m =
     (if m_variants m = [] then [m_dimensions m]
      else map variant_dimensions (m_variants m) @ (if m_dimensions m \<noteq> [] then [m_dimensions m] else []))"

lemma effective_dimensions_candidate: "effective_dimensions m hint \<in> set (charge_candidates m)"
  by (auto simp: effective_dimensions_def charge_candidates_def split: option.splits dest: resolve_variant_in)

lemma candidate_ok:
  assumes "prices_ok m" and "dims \<in> set (charge_candidates m)"
  shows "dimensions_ok dims"
proof -
  have "set dims \<subseteq> set (all_dimensions m)"
    using assms(2) by (auto simp: charge_candidates_def all_dimensions_def split: if_splits)
  then show ?thesis
    using assms(1) by (auto simp: prices_ok_def dimensions_ok_def list_all_iff)
qed

lemma resolve_price_effective:
  "resolve_price m props hint ctx =
     (if m_variants m = [] \<and> m_dimensions m = [] then if m_sku_tiers m \<noteq> [] then Some sku_price else None
      else Some (resolve_dimensions (effective_dimensions m hint) props ctx))"
  by (simp add: resolve_price_def effective_dimensions_def split: option.split)

lemma fixed_charge_maximal:
  assumes "prices_ok m" and "dims \<in> set (charge_candidates m)"
  shows "fixed_charge_dimensions m p None \<in> set (charge_candidates m)"
    and "f64_le (costliest_usd p dims) (costliest_usd p (fixed_charge_dimensions m p None))"
proof -
  have nonneg: "f64_nonneg (costliest_usd p dims')" if "dims' \<in> set (charge_candidates m)" for dims'
    using per_call_nonneg [OF candidate_ok [OF assms(1) that]] by (simp add: costliest_usd_def)
  have "fixed_charge_dimensions m p None \<in> set (charge_candidates m)
    \<and> f64_le (costliest_usd p dims) (costliest_usd p (fixed_charge_dimensions m p None))"
  proof (cases "m_variants m = []")
    case True
    then show ?thesis
      using assms(2) f64_le_refl [OF f64_nonneg_not_NaN [OF nonneg [OF assms(2)]]]
      by (simp add: fixed_charge_dimensions_def charge_candidates_def)
  next
    case False
    let ?best = "max_by (\<lambda>a b. f64_total_le (costliest_usd p a) (costliest_usd p b)) (charge_candidates m)"
    have "?best \<noteq> None"
      using False by (simp add: charge_candidates_def)
    then obtain best where best: "?best = Some best"
      by blast
    then have "fixed_charge_dimensions m p None = best"
      using False by (simp add: fixed_charge_dimensions_def charge_candidates_def)
    then show ?thesis
      using max_by_key [OF best] assms(2) nonneg f64_nonneg_not_NaN f64_total_le_D by blast
  qed
  then show "fixed_charge_dimensions m p None \<in> set (charge_candidates m)"
    and "f64_le (costliest_usd p dims) (costliest_usd p (fixed_charge_dimensions m p None))"
    by blast+
qed

text \<open>
  C16: A fixed per-call price never undercharges. Whatever price \<open>resolve_fixed_price\<close> quotes before the body of
  a request is read, the same request priced with everything measured and with any variant that its body
  selects costs at most that much per call, for every price table without negative prices: rounding included.
\<close>

theorem fixed_price_never_undercharges:
  assumes "resolve_fixed_price m known None = Inr (Some quoted)"
    and "prices_ok m"
    and "measured_more known measured"
    and "resolve_price m measured hint None = Some actual"
  shows "f64_le (per_call_usd actual) (per_call_usd quoted)"
proof -
  let ?fixed = "fixed_charge_dimensions m known None"
  have quoted: "quoted = resolve_dimensions_as ?fixed known None Costliest"
    if "?fixed \<noteq> []"
    using assms(1) that by (auto simp: resolve_fixed_price_def Let_def split: option.splits)
  have unpriced: "resolve_price m known None None = Some quoted" if "?fixed = []"
    using assms(1) that by (auto simp: resolve_fixed_price_def Let_def split: option.splits)
  show ?thesis
  proof (cases "m_variants m = [] \<and> m_dimensions m = []")
    case True
    then have "?fixed = []"
      by (simp add: fixed_charge_dimensions_def)
    then have "actual = quoted" "quoted = sku_price"
      using unpriced assms(4) True by (auto simp: resolve_price_effective split: if_splits)
    moreover have "per_call_usd sku_price = Finite 0"
      using round_f64_of_nat [of 0] round_f64_of_nat [of 1]
      by (simp add: per_call_usd_def sku_price_def f64_sum_def scale_f64_def f64_of_nat_def)
    ultimately show ?thesis
      by simp
  next
    case False
    let ?dims = "effective_dimensions m hint"
    note cand = effective_dimensions_candidate [of m hint]
    have "actual = resolve_dimensions_as ?dims measured None Provisional"
      using assms(4) False by (auto simp: resolve_price_effective resolve_dimensions_def)
    then have "f64_le (per_call_usd actual) (costliest_usd known ?dims)"
      using per_call_le [OF assms(3) candidate_ok [OF assms(2) cand]] by simp
    then have low: "f64_le (per_call_usd actual) (costliest_usd known ?fixed)"
      using fixed_charge_maximal(2) [OF assms(2) cand] f64_le_trans by blast
    show ?thesis
    proof (cases "?fixed = []")
      case fixed: True
      have "quoted = resolve_dimensions_as (effective_dimensions m None) known None Provisional"
        using unpriced [OF fixed] False by (auto simp: resolve_price_effective resolve_dimensions_def)
      then have "f64_nonneg (per_call_usd quoted)"
        using per_call_nonneg [OF candidate_ok [OF assms(2) effective_dimensions_candidate]] by simp
      moreover have "costliest_usd known [] = Finite 0"
        by (simp add: costliest_usd_def per_call_usd_def resolve_dimensions_as_def f64_sum_def)
      ultimately show ?thesis
        using low by (cases "per_call_usd quoted"; cases "per_call_usd actual") (auto simp: fixed)
    next
      case nonempty: False
      then show ?thesis
        using low quoted by (simp add: costliest_usd_def)
    qed
  qed
qed


definition priced :: "rat \<Rightarrow> meter_condition option \<Rightarrow> price_tier" where
  "priced usd condition =
     \<lparr>up_to = None, price_usd = Finite usd, tier_condition = condition, tier_notes = None, tier_splits = []\<rparr>"

definition per_request :: "price_tier list \<Rightarrow> meter_dimension" where
  "per_request tiers =
     \<lparr>md_direction = Usage, md_unit = Requests, md_scale = 1, md_period = None, md_tiers = tiers, md_meter = None\<rparr>"

text \<open>Two models; the second has a cheaper price for short bodies.\<close>

definition two_models :: metering where
  "two_models =
     \<lparr>m_dimensions = [],
      m_variants =
        [\<lparr>variant_param = ''model'', variant_value = ''small'', variant_dimensions = [per_request [priced 1 None]]\<rparr>,
         \<lparr>variant_param = ''model'', variant_value = ''large'',
          variant_dimensions = [per_request [priced 2 (Some (BodySize Lte 100)), priced 3 None]]\<rparr>],
      m_sku_tiers = [], m_splits = [], m_schemes = None, m_min_usd = None, m_upto = None\<rparr>"

lemma small_integers_exact:
  "round_f64 0 = Finite 0" "round_f64 1 = Finite 1" "round_f64 2 = Finite 2" "round_f64 3 = Finite 3"
  using round_f64_of_nat [of 0] round_f64_of_nat [of 1] round_f64_of_nat [of 2] round_f64_of_nat [of 3] by simp_all

lemmas price_table_eval =
  two_models_def per_request_def priced_def no_properties_def resolve_fixed_price_def fixed_charge_dimensions_def
  all_dimensions_def is_aggregate_settled_def unit_is_prorated_def costliest_usd_def per_call_usd_def
  resolve_dimensions_as_def resolve_dimensions_def resolve_tier_def has_volume_tiers_def
  select_price_tier_from_tiers_def costliest_tier_def conservative_def tier_matches_def evaluate_condition_def
  scale_f64_def f64_of_nat_def f64_sum_def f64_total_le_def resolve_price_def resolve_variant_def variant_step_def

lemma two_models_quote:
  "\<exists>quoted. resolve_fixed_price two_models no_properties None = Inr (Some quoted) \<and> per_call_usd quoted = Finite 3"
  by (simp add: price_table_eval small_integers_exact)

lemma two_models_actual:
  "\<exists>actual. resolve_price two_models (no_properties\<lparr>body_size := Some 40\<rparr>) (Some ''large'') None = Some actual
            \<and> per_call_usd actual = Finite 2"
  by (simp add: price_table_eval small_integers_exact to_ascii_lowercase_def)

text \<open>A short request for the large model: quoted at three dollars before the body is read, worth two.\<close>

theorem fixed_price_never_undercharges_witness:
  "\<exists>quoted actual. resolve_fixed_price two_models no_properties None = Inr (Some quoted)
     \<and> resolve_price two_models (no_properties\<lparr>body_size := Some 40\<rparr>) (Some ''large'') None = Some actual
     \<and> f64_le (per_call_usd actual) (per_call_usd quoted)"
proof -
  obtain quoted actual where
    "resolve_fixed_price two_models no_properties None = Inr (Some quoted)"
    "resolve_price two_models (no_properties\<lparr>body_size := Some 40\<rparr>) (Some ''large'') None = Some actual"
    using two_models_quote two_models_actual by blast
  moreover have "prices_ok two_models"
    by (simp add: prices_ok_def dimensions_ok_def tiers_nonneg_def all_dimensions_def two_models_def per_request_def
        priced_def)
  moreover have "measured_more no_properties (no_properties\<lparr>body_size := Some 40\<rparr>)"
    by (simp add: measured_more_def no_properties_def)
  ultimately show ?thesis
    using fixed_price_never_undercharges by blast
qed


section \<open>Micro-dollars\<close>

text \<open>From half a micro-dollar to 4000 dollars, the two roundings of a conversion stay within a millionth of a unit.\<close>

lemma micro_units_error:
  fixes q :: rat
  assumes "1 / 2 \<le> q" and "q \<le> 4 * 10 ^ 9"
  obtains x y where "round_f64 (q / 10 ^ 6) = Finite x" and "0 \<le> x" and "\<bar>x * 10 ^ 6 - q\<bar> \<le> q / 2 ^ 53"
    and "round_f64 (x * 10 ^ 6) = Finite y" and "\<bar>y - q\<bar> \<le> 1 / 10 ^ 6"
proof -
  have tiny: "2 powi (- 1022) \<le> (1 / 10 ^ 7 :: rat)"
    by (simp add: power_int_minus_divide)
  have "0 \<le> q / 10 ^ 6" "q / 10 ^ 6 \<le> of_nat 4000" "(4000 :: nat) < 2 ^ 53"
    using assms by simp_all
  then obtain x where x: "round_f64 (q / 10 ^ 6) = Finite x" "0 \<le> x" "x \<le> of_nat 4000"
    by (rule round_f64_bounded)
  have "2 powi (- 1022) \<le> q / 10 ^ 6"
    by (rule order_trans [OF tiny]) (use assms in simp)
  then have dx: "\<bar>x - q / 10 ^ 6\<bar> \<le> q / 10 ^ 6 / 2 ^ 53"
    using x(1) by (rule round_f64_error)
  define z where "z = x * 10 ^ 6"
  have bound: "\<bar>z - q\<bar> \<le> q / 2 ^ 53"
    using dx by (simp add: z_def abs_le_iff field_simps)
  moreover have "q / 2 ^ 53 \<le> 1 / 4"
    using assms by simp
  ultimately have near: "z \<le> q + 1" "1 / 4 \<le> z"
    using assms(1) by linarith+
  have "0 \<le> z" "z \<le> of_nat (5 * 10 ^ 9)" "(5 * 10 ^ 9 :: nat) < 2 ^ 53"
    using assms near by simp_all
  then obtain y where y: "round_f64 z = Finite y" "0 \<le> y" "y \<le> of_nat (5 * 10 ^ 9)"
    by (rule round_f64_bounded)
  have "2 powi (- 1022) \<le> z"
    by (rule order_trans [OF tiny], rule order_trans [OF _ near(2)]) simp
  then have "\<bar>y - z\<bar> \<le> z / 2 ^ 53"
    using y(1) by (rule round_f64_error)
  moreover have "z / 2 ^ 53 \<le> (q + 1) / 2 ^ 53"
    using near(1) by (rule divide_right_mono) simp
  ultimately have "\<bar>y - q\<bar> \<le> q / 2 ^ 53 + (q + 1) / 2 ^ 53"
    using bound by linarith
  also have "\<dots> \<le> 1 / 10 ^ 6"
    using assms by (simp add: field_simps)
  finally show thesis
    using that x bound y(1) by (simp add: z_def)
qed

lemma micro_usd_error:
  fixes n :: nat
  assumes "0 < n" and "n \<le> 4 * 10 ^ 9"
  obtains x y where "round_f64 (of_nat n / 10 ^ 6) = Finite x" and "0 \<le> x"
    and "round_f64 (x * 10 ^ 6) = Finite y" and "\<bar>y - of_nat n\<bar> \<le> 1 / 10 ^ 6"
proof -
  have "1 / 2 \<le> (of_nat n :: rat)" "(of_nat n :: rat) \<le> 4 * 10 ^ 9"
    using assms of_nat_mono [of 1 n, where 'a = rat] of_nat_mono [of n "4 * 10 ^ 9", where 'a = rat] by simp_all
  then show thesis
    using that by (rule micro_units_error)
qed

text \<open>
  C39: Every price written with at most six decimals, up to 4000 dollars, becomes exactly its number of
  micro-dollars in the session meter, although the specification holds it as a rounded \<open>f64\<close> and the
  conversion rounds twice more.
\<close>

theorem six_decimal_prices_exact:
  assumes "n \<le> 4 * 10 ^ 9"
  shows "price_usd_to_micro_usd (round_f64 (of_nat n / 10 ^ 6)) = Inr n"
proof (cases "n = 0")
  case True
  then show ?thesis
    using round_f64_mono [of 0 "of_nat (2 ^ 64 - 1)"] round_f64_mono [of 0 "1 / 10 ^ 6"] small_integers_exact(1)
    by (simp add: price_usd_to_micro_usd_def f64_of_nat_def MICRO_USD_PER_USD_def Let_def f64_sub_def f64_not_less
        ten_powi_exact [of 6, unfolded ten_powi_def, simplified] round_f64_of_nat [of 1000000, simplified])
next
  case False
  then obtain x y where xy: "round_f64 (of_nat n / 10 ^ 6) = Finite x" "0 \<le> x"
      "round_f64 (x * 10 ^ 6) = Finite y" "\<bar>y - of_nat n\<bar> \<le> 1 / 10 ^ 6"
    using micro_usd_error [of n] assms by blast
  have pos: "1 \<le> (of_nat n :: rat)"
    using False by (simp add: Suc_leI)
  have "\<bar>y - of_nat n\<bar> \<le> 1 / 4"
    using xy(4) by (rule order_trans) simp
  then have "0 < y" "of_int (int n) \<le> y + 1 / 2" "y + 1 / 2 < of_int (int n) + 1"
    using pos by (simp_all only: of_int_of_nat_eq)
  then have y: "0 < y" "\<lfloor>y + 1 / 2\<rfloor> = int n"
    by (simp_all only: floor_eq_iff)
  have million: "f64_of_nat MICRO_USD_PER_USD = Finite (10 ^ 6)"
    using round_f64_of_nat [of 1000000] by (simp add: f64_of_nat_def MICRO_USD_PER_USD_def)
  have rounded: "f64_round (Finite y) = Finite (of_nat n)"
    using y by (simp add: sgn_if)
  have "f64_le (round_f64 \<bar>y - of_nat n\<bar>) (round_f64 (1 / 10 ^ 6))"
    using xy(4) by (intro round_f64_mono) simp_all
  then have inexact: "\<not> f64_less (round_f64 (1 / 10 ^ 6)) (f64_abs (f64_sub (Finite y) (Finite (of_nat n))))"
    by (simp add: f64_sub_def round_f64_abs f64_not_less)
  have "n \<le> 2 ^ 64 - 1" "n < 2 ^ 53"
    using assms by simp_all
  then have "f64_le (Finite (of_nat n)) (f64_of_nat (2 ^ 64 - 1))"
    using round_f64_mono [of "of_nat n" "of_nat (2 ^ 64 - 1)"] round_f64_of_nat [of n]
    by (simp only: f64_of_nat_def of_nat_0_le_iff of_nat_le_iff)
  then have small: "\<not> f64_less (f64_of_nat (2 ^ 64 - 1)) (Finite (of_nat n))"
    by (rule f64_not_less)
  show ?thesis
    using xy small inexact rounded assms million
    by (simp add: price_usd_to_micro_usd_def Let_def)
qed

theorem six_decimal_prices_exact_witness:
  "(2500001 :: nat) \<le> 4 * 10 ^ 9 \<and> price_usd_to_micro_usd (round_f64 (of_nat 2500001 / 10 ^ 6)) = Inr 2500001"
  using six_decimal_prices_exact [of 2500001] by simp



section \<open>Endpoints and session meters\<close>

lemma find_endpoint_sound:
  assumes "find_endpoint endpoints meth path = Some e"
  shows "e \<in> set endpoints \<and> method_name (ep_method e) = meth
         \<and> (ep_path e = path
            \<or> path_matches (ep_path e) path
              \<and> (\<forall>e' \<in> set endpoints. method_name (ep_method e') = meth \<longrightarrow> ep_path e' \<noteq> path))"
  using assms by (auto simp: find_endpoint_def find_Some_iff find_None_iff split: option.splits)

text \<open>A meter built from a price table passes the validation of the session meter and has its dimensions in order.\<close>

lemma spec_from_metering_valid:
  assumes "spec_from_metering m hint props = Inr spec"
  shows "validate spec = Inr ()"
    and "map direction (dimensions spec) = map md_direction (effective_dimensions m hint)"
    and "map billing_unit (dimensions spec) = map md_unit (effective_dimensions m hint)"
    and "map scale (dimensions spec) = map md_scale (effective_dimensions m hint)"
proof -
  let ?props = "case props of None \<Rightarrow> no_properties | Some p \<Rightarrow> p"
  obtain dims rated where dims: "select_dimensions m hint = Inr dims"
    and rated: "map (\<lambda>d. dimension_from_metering d ?props) dims = map Inr rated"
    and spec: "spec = \<lparr>dimensions = rated\<rparr>" "validate spec = Inr ()"
    using assms by (auto simp: spec_from_metering_def Let_def res_simps collect_results_Inr split: if_splits)
  have eff: "dims = effective_dimensions m hint"
    using dims by (auto simp: select_dimensions_def effective_dimensions_def split: if_splits option.splits)
  have one: "direction r = md_direction d \<and> billing_unit r = md_unit d \<and> scale r = md_scale d"
    if "dimension_from_metering d ?props = Inr r" for d r
    using that by (auto simp: dimension_from_metering_def required_dimension_def Let_def res_simps split: if_splits)
  have all: "list_all2 (\<lambda>d r. dimension_from_metering d ?props = Inr r) dims rated"
    using rated by (simp add: list_all2_conv_all_nth list_eq_iff_nth_eq)
  have maps: "map direction rated = map md_direction dims \<and> map billing_unit rated = map md_unit dims
    \<and> map scale rated = map md_scale dims"
    using all by (induction rule: list_all2_induct) (auto dest!: one)
  show "validate spec = Inr ()"
    by (rule spec(2))
  show "map direction (dimensions spec) = map md_direction (effective_dimensions m hint)"
    and "map billing_unit (dimensions spec) = map md_unit (effective_dimensions m hint)"
    and "map scale (dimensions spec) = map md_scale (effective_dimensions m hint)"
    using maps by (simp_all add: spec(1) eff)
qed

text \<open>The split rules of a charge come from the tier whose price is quoted.\<close>

lemma split_tier_is_priced_tier:
  assumes "tiers_nonneg (md_tiers d)" and "select_tier d props Costliest = Some tier"
  shows "price_usd tier = resolve_tier (md_tiers d) props None Costliest"
proof (cases "has_volume_tiers (md_tiers d) \<and> find is_priced (md_tiers d) = None")
  case True
  then have "md_tiers d \<noteq> []" "tier = hd (md_tiers d)"
    using assms(2) by (auto simp: select_tier_def split: if_splits)
  then have tier: "tier \<in> set (md_tiers d)" "\<not> is_priced tier"
    using True by (simp_all add: find_None_iff)
  then have "price_usd tier = Finite 0"
    using tiers_nonneg_member [OF assms(1)] by (cases "price_usd tier") (fastforce simp: is_priced_def)+
  then show ?thesis
    using True by (simp add: resolve_tier_def first_non_free_price_def)
next
  case False
  then show ?thesis
    using assms(2)
    by (auto simp: select_tier_def resolve_tier_def first_non_free_price_def split: option.splits if_splits)
qed


section \<open>Accounting of volume\<close>

text \<open>The interface of the accounting back ends (\<open>AccountingStore\<close>).\<close>

locale usage_accounting =
  fixes usage_of :: "'s \<Rightarrow> accounting_key \<Rightarrow> nat"
    and count_usage :: "'s \<Rightarrow> accounting_key \<Rightarrow> nat \<Rightarrow> 's \<times> nat"
    and forget :: "'s \<Rightarrow> string \<Rightarrow> 's"
  assumes count_same: "usage_of s k + n < 2 ^ 64 \<Longrightarrow> usage_of (fst (count_usage s k n)) k = usage_of s k + n"
    and count_other: "k' \<noteq> k \<Longrightarrow> usage_of (fst (count_usage s k n)) k' = usage_of s k'"
    and count_result: "snd (count_usage s k n) = usage_of (fst (count_usage s k n)) k"
    and forget_period: "usage_of (forget s period) k = (if key_period k = period then 0 else usage_of s k)"
begin

definition count_all :: "(accounting_key \<times> nat) list \<Rightarrow> 's \<Rightarrow> 's" where
  "count_all reports s = foldl (\<lambda>s (k, n). fst (count_usage s k n)) s reports"

lemma count_all_total:
  assumes "usage_of s k + sum_list (map snd (filter (\<lambda>r. fst r = k) reports)) < 2 ^ 64"
  shows "usage_of (count_all reports s) k = usage_of s k + sum_list (map snd (filter (\<lambda>r. fst r = k) reports))"
  using assms
proof (induction reports arbitrary: s)
  case (Cons r reports)
  obtain k' n where r: "r = (k', n)"
    by fastforce
  show ?case
    using Cons.prems Cons.IH [of "fst (count_usage s k' n)"] count_same [of s k n] count_other [of k k' s n]
    by (cases "k' = k") (simp_all add: count_all_def r)
qed (simp add: count_all_def)

lemma forgotten_period_restarts:
  assumes "key_period k = period" and "sum_list (map snd (filter (\<lambda>r. fst r = k) reports)) < 2 ^ 64"
  shows "usage_of (count_all reports (forget s period)) k = sum_list (map snd (filter (\<lambda>r. fst r = k) reports))"
  using count_all_total [of "forget s period" k reports] assms by (simp add: forget_period)

end

interpretation memory_accounting: usage_accounting get_usage increment reset_period
  by unfold_locales (simp_all add: get_usage_def increment_def reset_period_def wrapping_def Let_def)

lemma record_usage_counts:
  assumes "get_usage (ctx_store ctx) (context_key ctx) + n < 2 ^ 64"
  shows "get_usage (fst (record_usage m props hint ctx n)) (context_key ctx)
         = get_usage (ctx_store ctx) (context_key ctx) + n"
    and "k \<noteq> context_key ctx \<Longrightarrow> get_usage (fst (record_usage m props hint ctx n)) k = get_usage (ctx_store ctx) k"
  using memory_accounting.count_same [OF assms] memory_accounting.count_other [of k "context_key ctx"]
  by (simp_all add: record_usage_def Let_def)


section \<open>Three observations\<close>

text \<open>The billing period of a late December day is a thirteenth month.\<close>

lemma month_thirteen: "current_period (360 * 86400) = ''1970-13''"
  by (simp add: current_period_def Let_def show_nat.simps digit_char_def) (intro conjI; code_simp)

text \<open>A literal prefix before a placeholder is not compared.\<close>

lemma literal_prefix_ignored: "path_segment_matches ''model-{id}:run'' ''other:run''"
  by code_simp

text \<open>The first paid tier of a volume table need not be the most expensive one.\<close>

lemma first_paid_tier_can_be_cheaper:
  "first_non_free_price [(priced 1 None)\<lparr>up_to := Some 10\<rparr>, priced 2 None] = Finite 1"
  "resolve_tier_by_volume [(priced 1 None)\<lparr>up_to := Some 10\<rparr>, priced 2 None] 11 = Finite 2"
  by (simp_all add: first_non_free_price_def resolve_tier_by_volume_def is_priced_def priced_def)

end
