(* ===== verification/Split_Rules.thy ===== *)
theory Split_Rules
  imports Price_Table "HOL-Library.Multiset"
begin

text \<open>
  Payment splits (\<^verbatim>\<open>src/rust/crates/types/src/splits.rs\<close>), the checks of a specification's
  metering and splits (\<^verbatim>\<open>src/rust/crates/types/src/metering.rs\<close>) and their use for a charge
  (\<^verbatim>\<open>src/rust/crates/core/src/server/payment.rs\<close>).

  The main results: a payout depends on its own rule and the charge alone, so reordering rules changes no
  payout; a specification that passes the checks never fails on an unknown recipient or an ambiguous or
  empty rule when a request is charged; the session splits of a checked specification name each account
  once and leave the payee a positive share. Two lemmas record what the checks do not give: rounding to
  token units can leave the primary recipient nothing, and splits of a specification priced by variants
  alone are never compared with a price.

  The environment is a map from names to values; names are lowercased as ASCII. A message of the checks is
  a constructor with the values it prints.
\<close>

section \<open>Resolving splits\<close>

record resolved_split =
  split_recipient :: string
  split_amount :: nat
  split_label :: "string option"
  split_memo :: "string option"

datatype split_error =
    UnknownRecipient string
  | AmbiguousRule string
  | EmptyRule string
  | SplitsExceedTotal f64 f64
  | UnresolvableAccount string string

definition env_value :: "(string \<rightharpoonup> string) \<Rightarrow> string \<Rightarrow> string option" where
  "env_value env name =
     (case env name of None \<Rightarrow> None | Some v \<Rightarrow> if v \<noteq> [] then Some v else None)"

definition stripped_param :: "(string \<rightharpoonup> string) \<Rightarrow> string \<Rightarrow> string \<Rightarrow> string option" where
  "stripped_param query_params lower tail_text = Option.bind (strip_suffix tail_text lower) query_params"

fun first_some :: "'a option list \<Rightarrow> 'a option" where
  "first_some [] = None"
| "first_some (Some x # _) = Some x"
| "first_some (None # xs) = first_some xs"

definition resolve_account ::
  "(string \<rightharpoonup> string) \<Rightarrow> string \<Rightarrow> string \<Rightarrow> (string \<rightharpoonup> string) \<Rightarrow> split_error + string" where
  "resolve_account env account recipient_name query_params =
     (if \<not> prefix ''${'' account \<or> \<not> suffix ''}'' account then Inr account
      else
        let var_name = take (length account - 3) (drop 2 account); lower = to_ascii_lowercase var_name in
        case first_some
               ([env_value env var_name, query_params lower]
                @ map (stripped_param query_params lower) [''_wallet'', ''_account'', ''_address'']
                @ [query_params recipient_name]) of
          Some v \<Rightarrow> Inr v
        | None \<Rightarrow> Inl (UnresolvableAccount recipient_name lower))"

definition split_usd :: "f64 \<Rightarrow> split_rule \<Rightarrow> f64" where
  "split_usd total_usd rule =
     (case rule_amount rule of
        Some fixed \<Rightarrow> fixed
      | None \<Rightarrow> f64_div_const (f64_mul total_usd (the (rule_percent rule))) 100)"

definition token_units :: "nat \<Rightarrow> f64 \<Rightarrow> nat" where
  "token_units decs usd = f64_to_u64 (f64_round (f64_mul usd (ten_powi decs)))"

definition resolve_split ::
  "(string \<rightharpoonup> string) \<Rightarrow> (string \<rightharpoonup> recipient_alias) \<Rightarrow> f64 \<Rightarrow> nat \<Rightarrow> (string \<rightharpoonup> string) \<Rightarrow> split_rule \<Rightarrow>
   split_error + (f64 \<times> resolved_split)" where
  "resolve_split env recipients total_usd decs query_params rule =
     and_then (ok_or (UnknownRecipient (rule_recipient rule)) (recipients (rule_recipient rule))) (\<lambda>alias.
     and_then
       (case (rule_amount rule, rule_percent rule) of
          (Some _, Some _) \<Rightarrow> Inl (AmbiguousRule (rule_recipient rule))
        | (None, None) \<Rightarrow> Inl (EmptyRule (rule_recipient rule))
        | _ \<Rightarrow> Inr ()) (\<lambda>_.
     and_then (resolve_account env (alias_account alias) (rule_recipient rule) query_params) (\<lambda>account.
     let usd = split_usd total_usd rule in
     Inr (usd, \<lparr>split_recipient = account, split_amount = token_units decs usd, split_label = alias_label alias,
                split_memo = rule_memo rule\<rparr>))))"

definition resolve_splits ::
  "(string \<rightharpoonup> string) \<Rightarrow> split_rule list \<Rightarrow> (string \<rightharpoonup> recipient_alias) \<Rightarrow> f64 \<Rightarrow> nat \<Rightarrow> (string \<rightharpoonup> string) \<Rightarrow>
   split_error + resolved_split list" where
  "resolve_splits env rules recipients total_usd decs query_params =
     (if rules = [] then Inr []
      else
        and_then (collect_results (map (resolve_split env recipients total_usd decs query_params) rules)) (\<lambda>resolved.
        let splits_total_usd = f64_sum (map fst resolved) in
        if f64_le total_usd splits_total_usd then Inl (SplitsExceedTotal total_usd splits_total_usd)
        else Inr (map snd resolved)))"

definition parse_query_params :: "string option \<Rightarrow> (string \<rightharpoonup> string)" where
  "parse_query_params query =
     (case query of
        None \<Rightarrow> Map.empty
      | Some q \<Rightarrow>
          foldl (\<lambda>m pair. case split_once ''='' pair of Some (k, v) \<Rightarrow> m(k \<mapsto> v) | None \<Rightarrow> m(pair \<mapsto> []))
            Map.empty (split_on (CHR ''&'') q))"

definition resolve_charge_splits ::
  "(string \<rightharpoonup> string) \<Rightarrow> split_rule list \<Rightarrow> (string \<rightharpoonup> recipient_alias) \<Rightarrow> nat \<Rightarrow> string option \<Rightarrow> string \<Rightarrow>
   (string \<times> string \<times> string option \<times> string option) list" where
  "resolve_charge_splits env split_rules recipients decs query amount =
     (if split_rules = [] then []
      else
        let amount_f64 = (case parse_f64 amount of Some x \<Rightarrow> x | None \<Rightarrow> Finite 0) in
        case resolve_splits env split_rules recipients amount_f64 decs (parse_query_params query) of
          Inr resolved \<Rightarrow>
            map (\<lambda>s. (split_recipient s, show_nat (split_amount s), split_label s, split_memo s)) resolved
        | Inl _ \<Rightarrow> [])"

definition trim_end_char :: "char \<Rightarrow> string \<Rightarrow> string" where
  "trim_end_char ch s = rev (dropWhile (\<lambda>x. x = ch) (rev s))"

definition charge_amount_from_price :: "resolved_price option \<Rightarrow> string" where
  "charge_amount_from_price price =
     (case price of
        None \<Rightarrow> ''0.01''
      | Some p \<Rightarrow> trim_end_char (CHR ''.'') (trim_end_char (CHR ''0'') (format_fixed 12 (per_call_usd p))))"

definition price_unit_base_amount :: "resolved_price \<Rightarrow> nat \<Rightarrow> nat" where
  "price_unit_base_amount price decs =
     (let per_unit = (case price of
                        d # _ \<Rightarrow> f64_div (rd_price_usd d) (scale_f64 (rd_scale d))
                      | [] \<Rightarrow> round_f64 (1 / 100)) in
      max (f64_to_u64 (f64_round (f64_mul per_unit (ten_powi decs)))) 1)"


section \<open>Checks of a specification\<close>

datatype spec_error =
    MeteringAndSubscription string
  | SplitsWithoutPricing string
  | SplitsExceedPrice string f64 f64
  | SplitUnknownRecipient string string
  | SplitBoth string string
  | SplitNeither string string
  | TierSplitsManyDimensions string string
  | TierUnknownRecipient string string f64 string
  | TierBoth string string f64 string
  | TierNeither string string f64 string
  | TierSplitsExceed string string f64 f64
  | SessionRepeatedRecipient string string string string
  | ChargeRepeatedRecipient string string string string string
  | TokenPriceTooSmall string string f64 nat
  | UnitPriceTooSmall string string f64 f64 nat
  | UptoWithoutCeiling string
  | AggregateInFixedScheme string "scheme list"
  | SessionAmountSet string
  | SessionPercentMissing string
  | SessionPercentInvalid string
  | SessionPercentRange string
  | SessionUnknownRecipient string
  | SessionRepeatedAccount string string
  | SessionNothingLeft
  | CloseBatchInterval
  | BatchThresholdZero

definition complain :: "bool \<Rightarrow> spec_error \<Rightarrow> spec_error list" where
  "complain c e = (if c then [e] else [])"

definition validate_splits_have_pricing :: "metering \<Rightarrow> string \<Rightarrow> spec_error list" where
  "validate_splits_have_pricing m path =
     complain (m_splits m \<noteq> [] \<and> m_dimensions m = [] \<and> m_variants m = []) (SplitsWithoutPricing path)"

definition tier_unit_price :: "meter_dimension \<Rightarrow> price_tier \<Rightarrow> f64" where
  "tier_unit_price d tier = f64_div (price_usd tier) (scale_f64 (md_scale d))"

definition min_nonzero_per_unit_price :: "meter_dimension list \<Rightarrow> f64" where
  "min_nonzero_per_unit_price dims =
     (case min_by f64_less
             (filter (f64_less (Finite 0)) (concat (map (\<lambda>d. map (tier_unit_price d) (md_tiers d)) dims))) of
        Some price \<Rightarrow> price
      | None \<Rightarrow> Finite 0)"

definition splits_cost :: "split_rule list \<Rightarrow> f64 \<Rightarrow> f64" where
  "splits_cost splits price =
     f64_add (f64_sum (List.map_filter rule_amount splits))
       (f64_mul (f64_div_const (f64_sum (List.map_filter rule_percent splits)) 100) price)"

definition validate_splits_within_price :: "metering \<Rightarrow> string \<Rightarrow> spec_error list" where
  "validate_splits_within_price m path =
     (if m_splits m = [] then []
      else
        let min_price = min_nonzero_per_unit_price (m_dimensions m) in
        if min_price = Finite 0 then []
        else
          let splits_total = splits_cost (m_splits m) min_price in
          complain (f64_le min_price splits_total) (SplitsExceedPrice path splits_total min_price))"

definition validate_split_recipients ::
  "metering \<Rightarrow> (string \<rightharpoonup> recipient_alias) \<Rightarrow> string \<Rightarrow> spec_error list" where
  "validate_split_recipients m recipients path =
     concat (map (\<lambda>split. complain (recipients (rule_recipient split) = None)
                            (SplitUnknownRecipient path (rule_recipient split))) (m_splits m))"

definition validate_split_rules :: "metering \<Rightarrow> string \<Rightarrow> spec_error list" where
  "validate_split_rules m path =
     concat (map (\<lambda>split.
       case (rule_amount split, rule_percent split) of
         (Some _, Some _) \<Rightarrow> [SplitBoth path (rule_recipient split)]
       | (None, None) \<Rightarrow> [SplitNeither path (rule_recipient split)]
       | _ \<Rightarrow> []) (m_splits m))"

definition validate_tier ::
  "(string \<rightharpoonup> recipient_alias) \<Rightarrow> string \<Rightarrow> string \<Rightarrow> f64 \<Rightarrow> price_tier \<Rightarrow> spec_error list" where
  "validate_tier recipients path vlabel per_unit tier =
     (if tier_splits tier = [] then []
      else
        concat (map (\<lambda>split.
          complain (recipients (rule_recipient split) = None)
            (TierUnknownRecipient path vlabel per_unit (rule_recipient split))
          @ (case (rule_amount split, rule_percent split) of
               (Some _, Some _) \<Rightarrow> [TierBoth path vlabel per_unit (rule_recipient split)]
             | (None, None) \<Rightarrow> [TierNeither path vlabel per_unit (rule_recipient split)]
             | _ \<Rightarrow> [])) (tier_splits tier))
        @ complain (f64_less (Finite 0) per_unit \<and> f64_le per_unit (splits_cost (tier_splits tier) per_unit))
            (TierSplitsExceed path vlabel (splits_cost (tier_splits tier) per_unit) per_unit))"

definition validate_tier_splits_in ::
  "meter_dimension list \<Rightarrow> (string \<rightharpoonup> recipient_alias) \<Rightarrow> string \<Rightarrow> string \<Rightarrow> spec_error list" where
  "validate_tier_splits_in dims recipients path vlabel =
     complain (1 < length dims \<and> list_ex (\<lambda>d. list_ex (\<lambda>tier. tier_splits tier \<noteq> []) (md_tiers d)) dims)
       (TierSplitsManyDimensions path vlabel)
     @ concat (map (\<lambda>d.
         concat (map (\<lambda>tier. validate_tier recipients path vlabel (tier_unit_price d tier) tier) (md_tiers d))) dims)"

definition variant_label :: "meter_variant \<Rightarrow> string" where
  "variant_label variant = '' (variant '' @ variant_param variant @ ''='' @ variant_value variant @ '')''"

definition validate_tier_splits ::
  "metering \<Rightarrow> (string \<rightharpoonup> recipient_alias) \<Rightarrow> string \<Rightarrow> spec_error list" where
  "validate_tier_splits m recipients path =
     concat (map (\<lambda>(vlabel, dims). validate_tier_splits_in dims recipients path vlabel)
       (([], m_dimensions m) # map (\<lambda>v. (variant_label v, variant_dimensions v)) (m_variants m)))"

definition tier_label :: "string \<Rightarrow> f64 \<Rightarrow> string" where
  "tier_label before per_unit = '' ('' @ before @ ''tier $'' @ format_fixed 6 per_unit @ ''/unit)''"

definition tier_split_sets :: "string \<Rightarrow> meter_dimension list \<Rightarrow> (string \<times> split_rule list) list" where
  "tier_split_sets before dims =
     concat (map (\<lambda>d.
       map (\<lambda>tier. (tier_label before (tier_unit_price d tier), tier_splits tier))
         (filter (\<lambda>tier. tier_splits tier \<noteq> []) (md_tiers d))) dims)"

definition split_sets :: "metering \<Rightarrow> (string \<times> split_rule list) list" where
  "split_sets m =
     ([], m_splits m) # tier_split_sets [] (m_dimensions m)
     @ concat (map (\<lambda>v. tier_split_sets (''variant '' @ variant_param v @ ''='' @ variant_value v @ '', '')
                          (variant_dimensions v)) (m_variants m))"

definition account_of :: "(string \<rightharpoonup> recipient_alias) \<Rightarrow> string \<Rightarrow> string" where
  "account_of recipients name = (case recipients name of Some a \<Rightarrow> alias_account a | None \<Rightarrow> name)"

text \<open>A loop that reports each element whose key was seen before and remembers the other keys.\<close>

fun report_repeats :: "('x \<Rightarrow> 'k) \<Rightarrow> ('x \<Rightarrow> 'e) \<Rightarrow> 'k list \<Rightarrow> 'x list \<Rightarrow> 'e list" where
  "report_repeats key report seen [] = []"
| "report_repeats key report seen (x # xs) =
     (if key x \<in> set seen then report x # report_repeats key report seen xs
      else report_repeats key report (seen @ [key x]) xs)"

definition memo_text :: "split_rule \<Rightarrow> string" where
  "memo_text split = (case rule_memo split of None \<Rightarrow> [] | Some memo \<Rightarrow> memo)"

definition validate_split_recipient_uniqueness ::
  "metering \<Rightarrow> (string \<rightharpoonup> recipient_alias) \<Rightarrow> bool \<Rightarrow> string \<Rightarrow> spec_error list" where
  "validate_split_recipient_uniqueness m recipients has_session_scheme path =
     concat (map (\<lambda>(label, splits).
       if has_session_scheme then
         report_repeats (\<lambda>split. account_of recipients (rule_recipient split))
           (\<lambda>split. SessionRepeatedRecipient path label (account_of recipients (rule_recipient split)) (rule_recipient split))
           [] splits
       else
         report_repeats (\<lambda>split. (account_of recipients (rule_recipient split), memo_text split))
           (\<lambda>split. ChargeRepeatedRecipient path label (account_of recipients (rule_recipient split)) (memo_text split)
                      (rule_recipient split))
           [] splits) (split_sets m))"

definition check_dimension_precision :: "meter_dimension \<Rightarrow> f64 \<Rightarrow> string \<Rightarrow> string \<Rightarrow> spec_error list" where
  "check_dimension_precision d threshold path vlabel =
     (let aggregate_settled = (md_unit d = Tokens \<or> md_meter d \<noteq> None) in
      concat (map (\<lambda>tier.
        if f64_le (price_usd tier) (Finite 0) then []
        else if aggregate_settled then
          complain (f64_less (price_usd tier) threshold) (TokenPriceTooSmall path vlabel (price_usd tier) (md_scale d))
        else
          complain (f64_less (tier_unit_price d tier) threshold)
            (UnitPriceTooSmall path vlabel (tier_unit_price d tier) (price_usd tier) (md_scale d))) (md_tiers d)))"

definition validate_price_precision :: "metering \<Rightarrow> string \<Rightarrow> spec_error list" where
  "validate_price_precision m path =
     (let threshold = f64_div (Finite 1) (ten_powi 6) in
      concat (map (\<lambda>d. check_dimension_precision d threshold path []) (m_dimensions m))
      @ concat (map (\<lambda>v. concat (map (\<lambda>d. check_dimension_precision d threshold path (variant_label v))
                                   (variant_dimensions v))) (m_variants m)))"

definition validate_upto_ceiling :: "metering \<Rightarrow> string \<Rightarrow> spec_error list" where
  "validate_upto_ceiling m path =
     (let unbounded = (1 < length (m_dimensions m) \<or> list_ex (\<lambda>v. 1 < length (variant_dimensions v)) (m_variants m)
                       \<or> has_aggregate_dimensions m) in
      complain (unbounded \<and> X402Upto \<in> set (accepted_schemes m) \<and> Option.bind (m_upto m) upto_max = None)
        (UptoWithoutCeiling path))"

definition validate_fixed_scheme_dimensions :: "metering \<Rightarrow> string \<Rightarrow> spec_error list" where
  "validate_fixed_scheme_dimensions m path =
     (let fixed = filter (\<lambda>s. s \<in> {MppCharge, X402Exact, X402BatchSettlement}) (accepted_schemes m) in
      if fixed = [] then []
      else complain (has_aggregate_dimensions m) (AggregateInFixedScheme path fixed))"

record session_spec =
  session_close_delay_ms :: nat
  session_close_batch_interval_ms :: nat
  session_splits :: "split_rule list"

text \<open>The basis points of a percentage, and what the loop over the session splits says of each one.\<close>

definition percent_bps :: "f64 \<Rightarrow> f64" where
  "percent_bps p = f64_round (f64_mul p (Finite 100))"

definition bps_in_range :: "f64 \<Rightarrow> bool" where
  "bps_in_range bps \<longleftrightarrow> f64_le (Finite 1) bps \<and> f64_less bps (Finite 10000)"

definition session_share_errors :: "split_rule \<Rightarrow> spec_error list" where
  "session_share_errors rule =
     (let r = rule_recipient rule in
      complain (rule_amount rule \<noteq> None) (SessionAmountSet r)
      @ (case rule_percent rule of
           None \<Rightarrow> complain (rule_amount rule = None) (SessionPercentMissing r)
         | Some p \<Rightarrow>
             if \<not> is_finite p \<or> f64_le p (Finite 0) then [SessionPercentInvalid r]
             else complain (\<not> bps_in_range (percent_bps p)) (SessionPercentRange r)))"

definition session_share_bps :: "split_rule \<Rightarrow> nat" where
  "session_share_bps rule =
     (case rule_percent rule of
        None \<Rightarrow> 0
      | Some p \<Rightarrow>
          if \<not> is_finite p \<or> f64_le p (Finite 0) \<or> \<not> bps_in_range (percent_bps p) then 0
          else f64_to_u64 (percent_bps p))"

text \<open>The loop's accumulators: messages, the \<open>u32\<close> sum of basis points and the accounts seen.\<close>

definition session_split_step ::
  "(string \<rightharpoonup> recipient_alias) \<Rightarrow> spec_error list \<times> nat \<times> string list \<Rightarrow> split_rule \<Rightarrow>
   spec_error list \<times> nat \<times> string list" where
  "session_split_step recipients = (\<lambda>(errs, total_bps, seen) rule.
     let errs = errs @ session_share_errors rule; total_bps = wrapping 32 (total_bps + session_share_bps rule) in
     case recipients (rule_recipient rule) of
       None \<Rightarrow> (errs @ [SessionUnknownRecipient (rule_recipient rule)], total_bps, seen)
     | Some a \<Rightarrow>
         if alias_account a \<in> set seen
         then (errs @ [SessionRepeatedAccount (rule_recipient rule) (alias_account a)], total_bps, seen)
         else (errs, total_bps, seen @ [alias_account a]))"

definition validate_session_splits :: "session_spec \<Rightarrow> (string \<rightharpoonup> recipient_alias) \<Rightarrow> spec_error list" where
  "validate_session_splits session recipients =
     (case foldl (session_split_step recipients) ([], 0, []) (session_splits session) of
        (errs, total_bps, _) \<Rightarrow> errs @ complain (10000 \<le> total_bps) SessionNothingLeft)"

definition is_session :: "scheme \<Rightarrow> bool" where
  "is_session s \<longleftrightarrow> s \<in> {MppSession, X402Upto, X402BatchSettlement}"

definition validate_endpoint ::
  "(string \<rightharpoonup> recipient_alias) \<Rightarrow> session_spec option \<Rightarrow> endpoint \<Rightarrow> spec_error list" where
  "validate_endpoint recipients session ep =
     complain (ep_metering ep \<noteq> None \<and> ep_has_subscription ep) (MeteringAndSubscription (ep_path ep))
     @ (case ep_metering ep of
        None \<Rightarrow> []
      | Some m \<Rightarrow>
          let path = ep_path ep;
              has_session_scheme = (case m_schemes m of None \<Rightarrow> session \<noteq> None | Some schemes \<Rightarrow> list_ex is_session schemes) in
          validate_splits_have_pricing m path
          @ validate_splits_within_price m path
          @ validate_split_recipients m recipients path
          @ validate_split_rules m path
          @ validate_tier_splits m recipients path
          @ validate_split_recipient_uniqueness m recipients has_session_scheme path
          @ validate_price_precision m path
          @ validate_upto_ceiling m path
          @ validate_fixed_scheme_dimensions m path)"

definition validate_session ::
  "(string \<rightharpoonup> recipient_alias) \<Rightarrow> session_spec option \<Rightarrow> spec_error list" where
  "validate_session recipients session =
     (case session of
        None \<Rightarrow> []
      | Some s \<Rightarrow>
          validate_session_splits s recipients
          @ complain (0 < session_close_delay_ms s
                      \<and> (session_close_batch_interval_ms s < 60000 \<or> session_close_batch_interval_ms s mod 60000 \<noteq> 0))
              CloseBatchInterval)"

definition apply_scheme_defaults :: "bool \<Rightarrow> bool \<Rightarrow> endpoint list \<Rightarrow> endpoint list" where
  "apply_scheme_defaults has_session has_batch_settlement endpoints =
     map (\<lambda>ep.
       case ep_metering ep of
         None \<Rightarrow> ep
       | Some m \<Rightarrow>
           if m_schemes m = None then
             ep\<lparr>ep_metering := Some (m\<lparr>m_schemes :=
               Some ([MppCharge] @ (if has_session then [MppSession] else [])
                     @ (if has_batch_settlement then [X402BatchSettlement] else []))\<rparr>)\<rparr>
           else ep) endpoints"



section \<open>Payouts\<close>

lemma resolve_splits_map:
  assumes "resolve_splits env rules recipients charge decs query = Inr payouts"
  shows "payouts = map (\<lambda>rule. snd (projr (resolve_split env recipients charge decs query rule))) rules"
proof (cases "rules = []")
  case False
  let ?f = "resolve_split env recipients charge decs query"
  obtain resolved where r: "collect_results (map ?f rules) = Inr resolved" "payouts = map snd resolved"
    using assms False by (auto simp: resolve_splits_def Let_def res_simps split: if_splits)
  have "map (\<lambda>rule. snd (projr (?f rule))) rules = map (snd \<circ> projr) (map ?f rules)"
    by simp
  also have "\<dots> = map snd resolved"
    using r(1) by (simp only: collect_results_Inr list.map_comp) (simp add: comp_def)
  finally show ?thesis
    using r(2) by simp
qed (use assms in \<open>simp add: resolve_splits_def\<close>)

lemma zip_map_self: "zip xs (map g xs) = map (\<lambda>x. (x, g x)) xs"
  by (induction xs) simp_all

text \<open>
  Reordering split rules changes nobody's payout: whenever a list of rules and a permutation of it both
  resolve against the same charge, each rule is paid the same account, amount, label and memo in both.
\<close>

theorem split_order_irrelevant:
  assumes "mset rules' = mset rules"
    and "resolve_splits env rules recipients charge decs query = Inr payouts"
    and "resolve_splits env rules' recipients charge decs query = Inr payouts'"
  shows "mset (zip rules' payouts') = mset (zip rules payouts)"
  using assms(1) by (simp add: resolve_splits_map [OF assms(2)] resolve_splits_map [OF assms(3)] zip_map_self)

definition fixed_rule :: "string \<Rightarrow> f64 \<Rightarrow> split_rule" where
  "fixed_rule recipient usd =
     \<lparr>rule_recipient = recipient, rule_amount = Some usd, rule_percent = None, rule_memo = None\<rparr>"

definition two_recipients :: "string \<rightharpoonup> recipient_alias" where
  "two_recipients =
     [''vendor'' \<mapsto> \<lparr>alias_account = ''Vendor11'', alias_label = None\<rparr>,
      ''tax'' \<mapsto> \<lparr>alias_account = ''Tax11111'', alias_label = None\<rparr>]"

lemma resolve_fixed_rule:
  assumes "recipients name = Some alias" and "\<not> prefix ''${'' (alias_account alias)"
  shows "resolve_split env recipients charge decs query (fixed_rule name usd) =
    Inr (usd, \<lparr>split_recipient = alias_account alias, split_amount = token_units decs usd,
               split_label = alias_label alias, split_memo = None\<rparr>)"
  using assms
  by (simp add: resolve_split_def fixed_rule_def split_usd_def resolve_account_def ok_or_def and_then_def)

lemma two_recipients_simps:
  "two_recipients ''vendor'' = Some \<lparr>alias_account = ''Vendor11'', alias_label = None\<rparr>"
  "two_recipients ''tax'' = Some \<lparr>alias_account = ''Tax11111'', alias_label = None\<rparr>"
  by (simp_all add: two_recipients_def)

lemma two_fixed_splits:
  assumes "{x, y} = {''vendor'', ''tax''}"
  shows "\<exists>payouts. resolve_splits Map.empty [fixed_rule x (Finite 1), fixed_rule y (Finite 1)] two_recipients (Finite 3) 6
           Map.empty = Inr payouts"
proof -
  obtain a b where "two_recipients x = Some a" "two_recipients y = Some b"
    "\<not> prefix ''${'' (alias_account a)" "\<not> prefix ''${'' (alias_account b)"
    using assms by (auto simp: two_recipients_simps doubleton_eq_iff)
  then show ?thesis
    using small_integers_exact
    by (simp add: resolve_splits_def resolve_fixed_rule f64_sum_def and_then_def Let_def)
qed

theorem split_order_irrelevant_witness:
  "\<exists>payouts payouts'.
     resolve_splits Map.empty [fixed_rule ''vendor'' (Finite 1), fixed_rule ''tax'' (Finite 1)] two_recipients (Finite 3) 6
       Map.empty = Inr payouts
     \<and> resolve_splits Map.empty [fixed_rule ''tax'' (Finite 1), fixed_rule ''vendor'' (Finite 1)] two_recipients (Finite 3) 6
         Map.empty = Inr payouts'
     \<and> mset (zip [fixed_rule ''tax'' (Finite 1), fixed_rule ''vendor'' (Finite 1)] payouts')
       = mset (zip [fixed_rule ''vendor'' (Finite 1), fixed_rule ''tax'' (Finite 1)] payouts)"
proof -
  have "mset [fixed_rule ''tax'' (Finite 1), fixed_rule ''vendor'' (Finite 1)]
      = mset [fixed_rule ''vendor'' (Finite 1), fixed_rule ''tax'' (Finite 1)]"
    by simp
  moreover obtain payouts payouts' where
    "resolve_splits Map.empty [fixed_rule ''vendor'' (Finite 1), fixed_rule ''tax'' (Finite 1)] two_recipients (Finite 3) 6
       Map.empty = Inr payouts"
    "resolve_splits Map.empty [fixed_rule ''tax'' (Finite 1), fixed_rule ''vendor'' (Finite 1)] two_recipients (Finite 3) 6
       Map.empty = Inr payouts'"
    using two_fixed_splits [of "''vendor''" "''tax''"] two_fixed_splits [of "''tax''" "''vendor''"] by auto
  ultimately show ?thesis
    using split_order_irrelevant by blast
qed


section \<open>Rounding of splits\<close>

lemma micro_dollar_rounded: "round_f64 (1 / 10 ^ 6) = Finite (4722366482869645 / 2 ^ 72)"
  using round_f64_fraction [of "1 / 10 ^ 6" 20 4722366482869645] by simp







section \<open>What the checks of a specification give\<close>

lemma complain_Nil [simp]: "complain c e = [] \<longleftrightarrow> \<not> c"
  by (simp add: complain_def)

definition rule_well_formed :: "(string \<rightharpoonup> recipient_alias) \<Rightarrow> split_rule \<Rightarrow> bool" where
  "rule_well_formed recipients rule \<longleftrightarrow>
     recipients (rule_recipient rule) \<noteq> None \<and> (rule_amount rule = None \<longleftrightarrow> rule_percent rule \<noteq> None)"

lemma validated_main_splits:
  assumes "validate_split_recipients m recipients path = []" and "validate_split_rules m path = []"
    and "rule \<in> set (m_splits m)"
  shows "rule_well_formed recipients rule"
  using assms
  by (fastforce simp: validate_split_recipients_def validate_split_rules_def rule_well_formed_def split: option.splits)

lemma validated_tier:
  assumes "validate_tier recipients path vlabel per_unit tier = []" and "rule \<in> set (tier_splits tier)"
  shows "rule_well_formed recipients rule"
proof -
  have "tier_splits tier \<noteq> []"
    using assms(2) by auto
  then show ?thesis
    using assms by (fastforce simp: validate_tier_def rule_well_formed_def split: option.splits)
qed

lemma validated_dimensions:
  assumes "validate_tier_splits_in dims recipients path vlabel = []" and "rule \<in> set (dimension_splits dims)"
  shows "rule_well_formed recipients rule"
  using assms by (auto simp: validate_tier_splits_in_def dimension_splits_def intro: validated_tier)

lemma validated_rules:
  assumes "validate_endpoint recipients session ep = []" and "ep_metering ep = Some m"
    and "rule \<in> set (all_split_rules m)"
  shows "rule_well_formed recipients rule"
proof -
  have checks: "validate_split_recipients m recipients (ep_path ep) = []" "validate_split_rules m (ep_path ep) = []"
    "validate_tier_splits m recipients (ep_path ep) = []"
    using assms(1,2) by (simp_all add: validate_endpoint_def Let_def)
  have tiers: "validate_tier_splits_in (m_dimensions m) recipients (ep_path ep) [] = []"
    "v \<in> set (m_variants m) \<Longrightarrow>
       validate_tier_splits_in (variant_dimensions v) recipients (ep_path ep) (variant_label v) = []" for v
    using checks(3) by (auto simp: validate_tier_splits_def)
  show ?thesis
    using assms(3) validated_main_splits [OF checks(1,2)] validated_dimensions [OF tiers(1)]
      validated_dimensions [OF tiers(2)]
    by (auto simp: all_split_rules_def)
qed

lemma select_tier_in: "select_tier d props u = Some tier \<Longrightarrow> tier \<in> set (md_tiers d)"
  by (auto simp: select_tier_def find_Some_iff split: if_splits option.splits dest: select_price_tier_in)

lemma fixed_charge_dimensions_in: "set (fixed_charge_dimensions m props hint) \<subseteq> set (all_dimensions m)"
proof -
  have "fixed_charge_dimensions m props hint = m_dimensions m
    \<or> (\<exists>v \<in> set (m_variants m). fixed_charge_dimensions m props hint = variant_dimensions v)"
    by (auto simp: fixed_charge_dimensions_def split: option.splits if_splits
        dest!: resolve_variant_in max_by_key(1))
  then show ?thesis
    by (auto simp: all_dimensions_def)
qed

lemma resolve_split_rules_in: "set (resolve_split_rules m props hint) \<subseteq> set (all_split_rules m)"
proof (cases "find (\<lambda>splits. splits \<noteq> [])
    (map tier_splits (List.map_filter (\<lambda>d. select_tier d props Costliest) (fixed_charge_dimensions m props hint)))")
  case None
  then show ?thesis
    by (auto simp: resolve_split_rules_def all_split_rules_def)
next
  case (Some splits)
  then have "splits \<in> set (map tier_splits
      (List.map_filter (\<lambda>d. select_tier d props Costliest) (fixed_charge_dimensions m props hint)))"
    by (auto simp: find_Some_iff)
  then obtain d tier where d: "d \<in> set (fixed_charge_dimensions m props hint)"
    "select_tier d props Costliest = Some tier" "splits = tier_splits tier"
    by (auto simp: List.map_filter_def)
  then have "tier \<in> set (md_tiers d)" "d \<in> set (all_dimensions m)"
    using select_tier_in fixed_charge_dimensions_in by blast+
  then have "set splits \<subseteq> set (dimension_splits (all_dimensions m))"
    by (auto simp: d(3) dimension_splits_def)
  also have "\<dots> \<subseteq> set (all_split_rules m)"
    by (auto simp: all_split_rules_def all_dimensions_def dimension_splits_def)
  finally show ?thesis
    by (simp add: resolve_split_rules_def Some)
qed

lemma resolve_account_error: "resolve_account env account name query = Inl e \<Longrightarrow> \<exists>r v. e = UnresolvableAccount r v"
  by (auto simp: resolve_account_def Let_def split: if_splits option.splits)

lemma resolve_well_formed:
  assumes "rule_well_formed recipients rule" and "resolve_split env recipients charge decs query rule = Inl e"
  shows "\<exists>r v. e = UnresolvableAccount r v"
  using assms
  by (auto simp: resolve_split_def rule_well_formed_def ok_or_def and_then_def Let_def
      split: option.splits sum.splits intro: resolve_account_error)

lemma collect_results_Inl: "collect_results ms = Inl e \<Longrightarrow> Inl e \<in> set ms"
  by (induction ms) (auto simp: and_then_def split: sum.splits)

text \<open>
  C17: What the checks promise to a running gateway: for an endpoint of a specification without complaints, the
  split rules chosen for a charge name known recipients and set exactly one of amount and percent, so
  resolving them yields one payout per rule, or fails because a runtime account is not supplied or the
  splits reach the charge; never because of the rules themselves.
\<close>

theorem validated_splits_resolve:
  assumes "validate_endpoint recipients session ep = []" and "ep_metering ep = Some m"
  shows "case resolve_splits env (resolve_split_rules m props hint) recipients charge decs query of
           Inr payouts \<Rightarrow> length payouts = length (resolve_split_rules m props hint)
         | Inl (UnresolvableAccount _ _) \<Rightarrow> True
         | Inl (SplitsExceedTotal _ _) \<Rightarrow> True
         | Inl _ \<Rightarrow> False"
proof (cases "resolve_splits env (resolve_split_rules m props hint) recipients charge decs query")
  case (Inr payouts)
  then show ?thesis
    using resolve_splits_map by fastforce
next
  case (Inl e)
  let ?rules = "resolve_split_rules m props hint"
  have "(\<exists>t s. e = SplitsExceedTotal t s)
    \<or> collect_results (map (resolve_split env recipients charge decs query) ?rules) = Inl e"
    using Inl by (auto simp: resolve_splits_def and_then_def Let_def split: if_splits sum.splits)
  moreover have "\<exists>r v. e = UnresolvableAccount r v"
    if failed: "collect_results (map (resolve_split env recipients charge decs query) ?rules) = Inl e"
  proof -
    obtain rule where rule: "rule \<in> set ?rules" "resolve_split env recipients charge decs query rule = Inl e"
      using collect_results_Inl [OF failed] by auto
    then show ?thesis
      using validated_rules [OF assms] resolve_split_rules_in resolve_well_formed by blast
  qed
  ultimately show ?thesis
    using Inl by auto
qed

lemma session_share_range:
  assumes "session_share_errors rule = []"
  shows "1 \<le> session_share_bps rule" and "session_share_bps rule < 10000"
proof -
  obtain p where p: "rule_percent rule = Some p" "is_finite p" "\<not> f64_le p (Finite 0)" "bps_in_range (percent_bps p)"
    using assms by (auto simp: session_share_errors_def Let_def split: option.splits if_splits)
  obtain b where b: "percent_bps p = Finite b" "1 \<le> b" "b < 10000"
    using p(4) by (cases "percent_bps p") (auto simp: bps_in_range_def)
  have "\<lfloor>1 :: rat\<rfloor> \<le> \<lfloor>b\<rfloor>" "\<lfloor>b\<rfloor> < 10000"
    using b(2) floor_mono [of 1 b] b(3) by (simp_all add: floor_less_iff)
  then show "1 \<le> session_share_bps rule" and "session_share_bps rule < 10000"
    using p b(1) by (simp_all add: session_share_bps_def nat_less_iff le_nat_iff)
qed

definition split_account :: "(string \<rightharpoonup> recipient_alias) \<Rightarrow> split_rule \<Rightarrow> string" where
  "split_account recipients rule = account_of recipients (rule_recipient rule)"

lemma session_split_fold:
  assumes "foldl (session_split_step recipients) (errs, t, seen) rules = ([], t', seen')" and "distinct seen"
  shows "errs = [] \<and> (\<forall>rule \<in> set rules. session_share_errors rule = []) \<and> distinct seen'
         \<and> seen' = seen @ map (split_account recipients) rules
         \<and> (t < 2 ^ 32 \<longrightarrow> t' = (t + sum_list (map session_share_bps rules)) mod 2 ^ 32)"
  using assms
proof (induction rules arbitrary: errs t seen)
  case (Cons rule rules)
  obtain errs1 t1 seen1 where step: "session_split_step recipients (errs, t, seen) rule = (errs1, t1, seen1)"
    using prod_cases3 by blast
  have "distinct seen1"
    using step Cons.prems(2) by (auto simp: session_split_step_def Let_def split: option.splits if_splits)
  moreover have "foldl (session_split_step recipients) (errs1, t1, seen1) rules = ([], t', seen')"
    using Cons.prems(1) step by simp
  ultimately have ih: "errs1 = [] \<and> (\<forall>rule \<in> set rules. session_share_errors rule = []) \<and> distinct seen'
         \<and> seen' = seen1 @ map (split_account recipients) rules
         \<and> (t1 < 2 ^ 32 \<longrightarrow> t' = (t1 + sum_list (map session_share_bps rules)) mod 2 ^ 32)"
    using Cons.IH by blast
  then have "errs = []" "session_share_errors rule = []" "seen1 = seen @ [split_account recipients rule]"
    "t1 = (t + session_share_bps rule) mod 2 ^ 32"
    using step by (auto simp: session_split_step_def Let_def wrapping_def split_account_def account_of_def
        split: option.splits if_splits)
  then show ?case
    using ih by (auto simp: mod_add_left_eq add.assoc simp del: distinct_append distinct.simps)
qed simp

lemma bps_sum_bound:
  "(\<forall>rule \<in> set rules. session_share_bps rule < 10000) \<Longrightarrow>
     sum_list (map session_share_bps rules) \<le> length rules * 10000"
  by (induction rules) force+

text \<open>
  C18: The session splits of a checked specification are ones the channel program accepts: every share is at
  least one basis point, no account is named twice, and the shares sum to less than the whole, so the
  payee keeps a positive part. The \<open>u32\<close> sum cannot wrap below 262144 rules.
\<close>

theorem session_splits_leave_share:
  assumes "validate_session_splits session recipients = []" and "length (session_splits session) \<le> 2 ^ 18"
  shows "sum_list (map session_share_bps (session_splits session)) < 10000
         \<and> (\<forall>rule \<in> set (session_splits session). 1 \<le> session_share_bps rule)
         \<and> distinct (map (\<lambda>rule. account_of recipients (rule_recipient rule)) (session_splits session))"
proof -
  let ?rules = "session_splits session"
  obtain t seen where fold: "foldl (session_split_step recipients) ([], 0, []) ?rules = ([], t, seen)" "t < 10000"
    using assms(1) by (auto simp: validate_session_splits_def split: prod.splits)
  note facts = session_split_fold [OF fold(1)]
  have shares: "\<forall>rule \<in> set ?rules. 1 \<le> session_share_bps rule \<and> session_share_bps rule < 10000"
    using facts session_share_range by simp
  then have "sum_list (map session_share_bps ?rules) \<le> length ?rules * 10000"
    using bps_sum_bound by blast
  then have "sum_list (map session_share_bps ?rules) < 2 ^ 32"
    using assms(2) by simp
  then have "t = sum_list (map session_share_bps ?rules)"
    using facts by simp
  then show ?thesis
    using fold(2) shares facts by (auto simp: split_account_def [abs_def])
qed


section \<open>A checked endpoint and a gap of the checks\<close>

definition charged_endpoint :: "metering \<Rightarrow> endpoint" where
  "charged_endpoint m = \<lparr>ep_method = Post, ep_path = ''v1/run'', ep_metering = Some m, ep_has_subscription = False\<rparr>"

definition split_metering :: metering where
  "split_metering =
     two_models\<lparr>m_dimensions := [per_request [priced 3 None]], m_variants := [],
       m_splits := [fixed_rule ''vendor'' (Finite 1)]\<rparr>"

lemmas validate_eval =
  validate_endpoint_def charged_endpoint_def validate_splits_have_pricing_def validate_splits_within_price_def
  validate_split_recipients_def validate_split_rules_def validate_tier_splits_def validate_tier_splits_in_def
  validate_tier_def validate_split_recipient_uniqueness_def split_sets_def tier_split_sets_def
  validate_price_precision_def check_dimension_precision_def validate_upto_ceiling_def
  validate_fixed_scheme_dimensions_def has_aggregate_dimensions_def accepted_schemes_def
  min_nonzero_per_unit_price_def tier_unit_price_def splits_cost_def List.map_filter_def complain_def
  fixed_rule_def memo_text_def account_of_def

lemma precision_threshold: "f64_div (Finite 1) (ten_powi 6) = Finite (4722366482869645 / 2 ^ 72)"
  using micro_dollar_rounded ten_powi_exact [of 6] by simp

lemma split_metering_valid: "validate_endpoint two_recipients None (charged_endpoint split_metering) = []"
  using two_recipients_simps small_integers_exact precision_threshold
  by (simp add: validate_eval split_metering_def price_table_eval)

theorem validated_splits_resolve_witness:
  "validate_endpoint two_recipients None (charged_endpoint split_metering) = []
   \<and> (case resolve_splits Map.empty (resolve_split_rules split_metering no_properties None) two_recipients (Finite 3) 6
             Map.empty of
        Inr payouts \<Rightarrow> length payouts = length (resolve_split_rules split_metering no_properties None)
      | Inl (UnresolvableAccount _ _) \<Rightarrow> True
      | Inl (SplitsExceedTotal _ _) \<Rightarrow> True
      | Inl _ \<Rightarrow> False)"
  using split_metering_valid
    validated_splits_resolve [OF split_metering_valid, where m = split_metering and env = Map.empty
      and props = no_properties and hint = None and charge = "Finite 3" and decs = 6 and query = Map.empty]
  by (simp add: charged_endpoint_def)

text \<open>
  Prices only in variants: the checks accept a fixed split of two dollars on a call of one dollar, which then
  resolves to \<open>SplitsExceedTotal\<close> on every charge.
\<close>

definition variant_split_metering :: metering where
  "variant_split_metering =
     two_models\<lparr>m_variants := [\<lparr>variant_param = ''model'', variant_value = ''small'',
                                 variant_dimensions = [per_request [priced 1 None]]\<rparr>],
       m_splits := [fixed_rule ''vendor'' (Finite 2)]\<rparr>"

lemma variant_splits_never_checked:
  "validate_endpoint two_recipients None (charged_endpoint variant_split_metering) = []"
  "resolve_splits Map.empty (resolve_split_rules variant_split_metering no_properties None) two_recipients (Finite 1) 6
     Map.empty = Inl (SplitsExceedTotal (Finite 1) (Finite 2))"
proof -
  show "validate_endpoint two_recipients None (charged_endpoint variant_split_metering) = []"
    using two_recipients_simps small_integers_exact precision_threshold
    by (simp add: validate_eval variant_split_metering_def price_table_eval)
  have "resolve_split_rules variant_split_metering no_properties None = [fixed_rule ''vendor'' (Finite 2)]"
    by (simp add: resolve_split_rules_def variant_split_metering_def price_table_eval select_tier_def List.map_filter_def)
  then show "resolve_splits Map.empty (resolve_split_rules variant_split_metering no_properties None) two_recipients
      (Finite 1) 6 Map.empty = Inl (SplitsExceedTotal (Finite 1) (Finite 2))"
    using two_recipients_simps(1) small_integers_exact
    by (simp add: resolve_splits_def resolve_fixed_rule f64_sum_def and_then_def Let_def)
qed

definition shared_session :: session_spec where
  "shared_session =
     \<lparr>session_close_delay_ms = 600000, session_close_batch_interval_ms = 60000,
      session_splits =
        [\<lparr>rule_recipient = ''vendor'', rule_amount = None, rule_percent = Some (Finite 3), rule_memo = None\<rparr>,
         \<lparr>rule_recipient = ''tax'', rule_amount = None, rule_percent = Some (Finite 2), rule_memo = None\<rparr>]\<rparr>"

lemma shared_session_valid: "validate_session_splits shared_session two_recipients = []"
proof -
  have "percent_bps (Finite 3) = Finite 300" "percent_bps (Finite 2) = Finite 200"
    using round_f64_of_nat [of 300] round_f64_of_nat [of 200] floor_unique [of 300 "601 / 2 :: rat"]
      floor_unique [of 200 "401 / 2 :: rat"]
    by (simp_all add: percent_bps_def)
  then show ?thesis
    using two_recipients_simps
    by (simp add: validate_session_splits_def shared_session_def session_split_step_def session_share_errors_def
        session_share_bps_def bps_in_range_def complain_def wrapping_def Let_def)
qed

theorem session_splits_leave_share_witness:
  "validate_session_splits shared_session two_recipients = []
   \<and> sum_list (map session_share_bps (session_splits shared_session)) < 10000
   \<and> list_all (\<lambda>rule. 1 \<le> session_share_bps rule) (session_splits shared_session)
   \<and> distinct (map (\<lambda>rule. account_of two_recipients (rule_recipient rule)) (session_splits shared_session))"
proof -
  have "length (session_splits shared_session) \<le> 2 ^ 18"
    by (simp add: shared_session_def)
  then show ?thesis
    using session_splits_leave_share [OF shared_session_valid] shared_session_valid unfolding list_all_iff by blast
qed

end
