(* ===== verification/Json_Value.thy ===== *)
theory Json_Value
  imports Pay_Prelude
begin

text \<open>
  JSON values as \<open>serde_json::Value\<close> has them, with its accessors. An object lists its members; a number
  that is no integer keeps its text.
\<close>

datatype json =
    JNull
  | JBool bool
  | JNumber int
  | JFloat string
  | JString string
  | JArray "json list"
  | JObject "(string \<times> json) list"

definition json_get :: "json \<Rightarrow> string \<Rightarrow> json option" where
  "json_get v key = (case v of JObject members \<Rightarrow> map_of members key | _ \<Rightarrow> None)"

definition json_as_str :: "json \<Rightarrow> string option" where
  "json_as_str v = (case v of JString s \<Rightarrow> Some s | _ \<Rightarrow> None)"

definition json_as_u64 :: "json \<Rightarrow> nat option" where
  "json_as_u64 v = (case v of JNumber n \<Rightarrow> if 0 \<le> n \<and> n < 2 ^ 64 then Some (nat n) else None | _ \<Rightarrow> None)"

definition json_as_array :: "json \<Rightarrow> json list option" where
  "json_as_array v = (case v of JArray vs \<Rightarrow> Some vs | _ \<Rightarrow> None)"

definition json_str_at :: "json \<Rightarrow> string \<Rightarrow> string option" where
  "json_str_at v key = Option.bind (json_get v key) json_as_str"

definition json_u64_at :: "json \<Rightarrow> string \<Rightarrow> nat option" where
  "json_u64_at v key = Option.bind (json_get v key) json_as_u64"

fun json_pointer :: "json \<Rightarrow> string list \<Rightarrow> json option" where
  "json_pointer v [] = Some v"
| "json_pointer v (key # path) = Option.bind (json_get v key) (\<lambda>inner. json_pointer inner path)"

definition json_as_bool :: "json \<Rightarrow> bool option" where
  "json_as_bool v = (case v of JBool b \<Rightarrow> Some b | _ \<Rightarrow> None)"

lemma json_value_simps:
  "json_get (JObject members) key = map_of members key"
  "json_as_str (JString s) = Some s" "json_as_bool (JBool b) = Some b"
  by (simp_all add: json_get_def json_as_str_def json_as_bool_def)

lemma json_as_str_Some: "json_as_str v = Some s \<longleftrightarrow> v = JString s"
  by (cases v) (simp_all add: json_as_str_def)

end
