(* ===== verification/Upto_Usage.thy ===== *)
theory Upto_Usage
  imports Price_Table Json_Value
begin

text \<open>
  Settlement of usage-metered calls (x402 \<open>upto\<close>) from the response
  (\<^verbatim>\<open>src/rust/crates/core/src/server/metering.rs\<close>, with the event documents of
  \<^verbatim>\<open>src/rust/crates/core/src/server/session_stream.rs\<close> and the default voucher of
  \<^verbatim>\<open>src/rust/crates/core/src/server/gate.rs\<close>): which quantity a dimension reads from the observer,
  a header or the body, its price, the clamp to the authorized ceiling, the policy for missing usage and the
  conversion to base units.

  The main results: a settlement never exceeds the authorized amount and is within one base unit of the
  exact share of it that the measured dollars are of the ceiling; the full ceiling settles the full amount,
  and positive usage never settles nothing. A later record of a stream never lowers the quantity that an
  earlier one established.

  Parameters: \<open>parse_json\<close> is \<open>serde_json::from_slice\<close>, \<open>pointer\<close> is \<open>serde_json::Value::pointer\<close>, and a
  header map gives for a name nothing, a value that is no visible ASCII (\<open>Inl\<close>) or its text. An error names
  what was missing or invalid instead of its message. \<open>None\<close> is the panic of \<open>clamp\<close> on a ceiling that is
  not a number.
\<close>

section \<open>Data\<close>

datatype usage_reason =
    NoMeteringDimensions
  | ResponseBodyUnavailable
  | NoPriceResolved
  | NoTokenUsage meter_direction billing_unit
  | NoQuotaHint meter_direction
  | NoUsageMeter meter_direction billing_unit
  | MeterWithoutPath
  | MeterWithoutHeader
  | HeaderMissing string
  | JsonPathMissing string
  | FractionalUsage f64 meter_direction billing_unit
  | HeaderNotText
  | JsonPathNegative string
  | JsonPathUnsupported string
  | JsonPathNotNumeric string
  | NotANumber string
  | NegativeUsage

datatype upto_usage_error =
    MissingUsage usage_reason
  | InvalidUsage usage_reason
  | InvalidJson
  | MissingUsagePolicyError

record inference_usage =
  usage_model :: "string option"
  tokens_prompt :: "nat option"
  tokens_completion :: "nat option"
  tokens_completion_estimated :: bool

record upto_settlement_plan =
  plan_metering :: metering
  plan_variant_hint :: "string option"
  plan_properties :: request_properties
  plan_ceiling_usd :: f64
  plan_inferred :: "inference_usage option"

record upto_actual_amount =
  actual_usd :: f64
  actual_base_units :: nat

type_synonym header_map = "string \<Rightarrow> (unit + string) option"

type_synonym json_pointer_fn = "json \<Rightarrow> string \<Rightarrow> json option"


section \<open>Policy\<close>

definition upto_max_usd :: "metering \<Rightarrow> resolved_price option \<Rightarrow> f64 option" where
  "upto_max_usd m resolved_price =
     (case Option.bind (m_upto m) upto_max of
        Some max_usd \<Rightarrow> Some max_usd
      | None \<Rightarrow>
          if has_aggregate_dimensions m then None
          else
            (case resolved_price of
               None \<Rightarrow> Some (round_f64 (1 / 100))
             | Some [] \<Rightarrow> Some (round_f64 (1 / 100))
             | Some [d] \<Rightarrow> Some (f64_div (rd_price_usd d) (scale_f64 (rd_scale d)))
             | Some _ \<Rightarrow> None))"

definition upto_min_usd :: "metering \<Rightarrow> f64 option" where
  "upto_min_usd m = (case Option.bind (m_upto m) upto_min of Some v \<Rightarrow> Some v | None \<Rightarrow> m_min_usd m)"

definition upto_missing_usage_policy :: "metering \<Rightarrow> missing_usage_policy" where
  "upto_missing_usage_policy m = (case m_upto m of Some u \<Rightarrow> upto_missing_usage u | None \<Rightarrow> Refund)"

definition token_path :: "meter_direction \<Rightarrow> string \<Rightarrow> string \<Rightarrow> string \<Rightarrow> string option" where
  "token_path dir input_path output_path usage_path =
     (case dir of
        Input \<Rightarrow> Some input_path
      | Output \<Rightarrow> Some output_path
      | Usage \<Rightarrow> Some usage_path
      | Storage \<Rightarrow> None)"

definition preset_json_path :: "string option \<Rightarrow> meter_dimension \<Rightarrow> string option" where
  "preset_json_path preset d =
     (case preset of
        None \<Rightarrow> None
      | Some p \<Rightarrow>
          if md_unit d \<noteq> Tokens then None
          else if eq_ignore_ascii_case p ''google-generativelanguage'' then
            token_path (md_direction d) ''/usageMetadata/promptTokenCount'' ''/usageMetadata/candidatesTokenCount''
              ''/usageMetadata/totalTokenCount''
          else if eq_ignore_ascii_case p ''openai-compatible'' then
            token_path (md_direction d) ''/usage/prompt_tokens'' ''/usage/completion_tokens'' ''/usage/total_tokens''
          else if eq_ignore_ascii_case p ''openai-responses'' then
            token_path (md_direction d) ''/usage/input_tokens'' ''/usage/output_tokens'' ''/usage/total_tokens''
          else None)"

definition dimension_reads_response_body :: "meter_dimension \<Rightarrow> string option \<Rightarrow> bool" where
  "dimension_reads_response_body d preset =
     (case map_option meter_source (md_meter d) of
        Some ResponseHeader \<Rightarrow> False
      | Some ResponseJson \<Rightarrow> True
      | None \<Rightarrow> md_unit d \<in> {Tokens, QuotaUnits} \<or> preset_json_path preset d \<noteq> None)"

definition metering_preset :: "metering \<Rightarrow> string option" where
  "metering_preset m = Option.bind (m_upto m) usage_preset"

definition upto_uses_response_usage :: "metering \<Rightarrow> string option \<Rightarrow> bool" where
  "upto_uses_response_usage m variant_hint \<longleftrightarrow>
     metering_preset m \<noteq> None
     \<or> list_ex (\<lambda>d. md_meter d \<noteq> None \<or> md_unit d = QuotaUnits) (effective_dimensions m variant_hint)"

definition upto_requires_response_body :: "metering \<Rightarrow> string option \<Rightarrow> bool" where
  "upto_requires_response_body m variant_hint =
     list_ex (\<lambda>d. dimension_reads_response_body d (metering_preset m)) (effective_dimensions m variant_hint)"

definition upto_response_body_limit :: "metering \<Rightarrow> nat" where
  "upto_response_body_limit m =
     (case Option.bind (m_upto m) upto_max_bytes of Some n \<Rightarrow> n | None \<Rightarrow> 1024 * 1024)"

definition UPTO_BUFFERED_RESPONSE_LIMIT :: nat where
  "UPTO_BUFFERED_RESPONSE_LIMIT = 16 * 1024 * 1024"

definition upto_buffered_response_limit :: "metering \<Rightarrow> string option \<Rightarrow> nat" where
  "upto_buffered_response_limit m variant_hint =
     (if upto_requires_response_body m variant_hint then upto_response_body_limit m
      else (case Option.bind (m_upto m) upto_max_bytes of Some n \<Rightarrow> n | None \<Rightarrow> UPTO_BUFFERED_RESPONSE_LIMIT))"

definition is_flat_request :: "meter_dimension \<Rightarrow> bool" where
  "is_flat_request d \<longleftrightarrow>
     md_direction d = Usage \<and> md_unit d = Requests \<and> md_meter d = None \<and> md_period d = None
     \<and> (case md_tiers d of [tier] \<Rightarrow> tier_condition tier = None \<and> up_to tier = None | _ \<Rightarrow> False)"

definition flat_request_price :: "metering \<Rightarrow> f64 option" where
  "flat_request_price m =
     (if m_dimensions m = [] \<or> m_variants m \<noteq> [] \<or> \<not> list_all is_flat_request (m_dimensions m) then None
      else
        Some (f64_max
          (f64_sum (map (\<lambda>d. f64_div (price_usd (hd (md_tiers d))) (scale_f64 (md_scale d))) (m_dimensions m)))
          (case upto_min_usd m of Some v \<Rightarrow> v | None \<Rightarrow> Finite 0)))"


section \<open>Documents of a response\<close>

text \<open>\<open>str::from_utf8\<close> on the bytes of a body.\<close>

definition utf8_tail :: "nat \<Rightarrow> bool" where
  "utf8_tail b \<longleftrightarrow> 128 \<le> b \<and> b \<le> 191"

fun valid_utf8 :: "nat list \<Rightarrow> bool" where
  "valid_utf8 [] = True"
| "valid_utf8 (a # bs) =
     (if a \<le> 127 then valid_utf8 bs
      else if 194 \<le> a \<and> a \<le> 223 then (case bs of b # cs \<Rightarrow> utf8_tail b \<and> valid_utf8 cs | _ \<Rightarrow> False)
      else if 224 \<le> a \<and> a \<le> 239 then
        (case bs of
           b # c # ds \<Rightarrow>
             utf8_tail b \<and> utf8_tail c \<and> (a = 224 \<longrightarrow> 160 \<le> b) \<and> (a = 237 \<longrightarrow> b \<le> 159) \<and> valid_utf8 ds
         | _ \<Rightarrow> False)
      else if 240 \<le> a \<and> a \<le> 244 then
        (case bs of
           b # c # d # es \<Rightarrow>
             utf8_tail b \<and> utf8_tail c \<and> utf8_tail d \<and> (a = 240 \<longrightarrow> 144 \<le> b) \<and> (a = 244 \<longrightarrow> b \<le> 143)
             \<and> valid_utf8 es
         | _ \<Rightarrow> False)
      else False)"

fun unify_newlines :: "string \<Rightarrow> string" where
  "unify_newlines [] = []"
| "unify_newlines (a # s) =
     (if a = CR then LF # (case s of b # t \<Rightarrow> if b = LF then unify_newlines t else unify_newlines s | [] \<Rightarrow> [])
      else a # unify_newlines s)"

fun split_blocks :: "string \<Rightarrow> string \<Rightarrow> string list" where
  "split_blocks block [] = [block]"
| "split_blocks block (a # s) =
     (case s of
        b # t \<Rightarrow> if a = LF \<and> b = LF then block # split_blocks [] t else split_blocks (block @ [a]) s
      | [] \<Rightarrow> split_blocks (block @ [a]) s)"

definition data_line :: "string \<Rightarrow> string option" where
  "data_line line =
     (if line = [] \<or> prefix '':'' line then None
      else
        (case split_once '':'' line of
           Some (field, v) \<Rightarrow>
             if field = ''data'' then Some (if prefix '' '' v then tl v else v) else None
         | None \<Rightarrow> None))"

definition parse_sse_event :: "string \<Rightarrow> string option" where
  "parse_sse_event block =
     (let data = List.map_filter data_line (split_on LF block) in
      if data = [] then None else Some (join [LF] data))"

definition sse_json_documents :: "(string \<Rightarrow> json option) \<Rightarrow> string \<Rightarrow> upto_usage_error + json list" where
  "sse_json_documents parse_json body =
     (if \<not> valid_utf8 (map of_char body) then Inl InvalidJson
      else Inr (List.map_filter parse_json (List.map_filter parse_sse_event (split_blocks [] (unify_newlines body)))))"

definition response_usage_documents ::
  "(string \<Rightarrow> json option) \<Rightarrow> header_map \<Rightarrow> string \<Rightarrow> upto_usage_error + json list" where
  "response_usage_documents parse_json headers body =
     (let is_sse = (case headers ''content-type'' of
                      Some (Inr v) \<Rightarrow> eq_ignore_ascii_case (trim (hd (split_on (CHR '';'') v))) ''text/event-stream''
                    | _ \<Rightarrow> False) in
      if \<not> is_sse then (case parse_json body of Some doc \<Rightarrow> Inr [doc] | None \<Rightarrow> Inl InvalidJson)
      else sse_json_documents parse_json body)"


section \<open>Quantities\<close>

definition parse_tokens_per_quota_unit :: "string \<Rightarrow> nat option" where
  "parse_tokens_per_quota_unit notes =
     (case split_once '' tokens per quota unit'' (to_ascii_lowercase notes) of
        None \<Rightarrow> None
      | Some (before, _) \<Rightarrow>
          (case List.map_filter
                  (\<lambda>part. case parse_u64 (filter (\<lambda>ch. ch \<noteq> CHR '','') part) of
                            Some n \<Rightarrow> if 0 < n then Some n else None
                          | None \<Rightarrow> None)
                  (rev (split_whitespace before)) of
             n # _ \<Rightarrow> Some n
           | [] \<Rightarrow> None))"

definition quota_tokens_per_unit :: "meter_dimension \<Rightarrow> request_properties \<Rightarrow> nat option" where
  "quota_tokens_per_unit d props =
     Option.bind (Option.bind (select_price_tier d props) tier_notes) parse_tokens_per_quota_unit"

definition ceil_div_u64 :: "nat \<Rightarrow> nat \<Rightarrow> nat" where
  "ceil_div_u64 v divisor = saturating_add 64 v (saturating_sub divisor 1) div max divisor 1"

definition inferred_quantity_for_dim :: "inference_usage \<Rightarrow> meter_dimension \<Rightarrow> request_properties \<Rightarrow> nat option" where
  "inferred_quantity_for_dim inferred d props =
     Option.bind
       (case md_direction d of
          Input \<Rightarrow> tokens_prompt inferred
        | Output \<Rightarrow> if tokens_completion_estimated inferred then None else tokens_completion inferred
        | _ \<Rightarrow> None)
       (\<lambda>tokens.
          case md_unit d of
            Tokens \<Rightarrow> Some tokens
          | QuotaUnits \<Rightarrow> map_option (ceil_div_u64 tokens) (quota_tokens_per_unit d props)
          | _ \<Rightarrow> None)"

definition get_either :: "json \<Rightarrow> string \<Rightarrow> string \<Rightarrow> json option" where
  "get_either v a b = (case json_get v a of Some x \<Rightarrow> Some x | None \<Rightarrow> json_get v b)"

definition u64_or_zero :: "json \<Rightarrow> string \<Rightarrow> nat" where
  "u64_or_zero v key = (case Option.bind (json_get v key) json_as_u64 of Some n \<Rightarrow> n | None \<Rightarrow> 0)"

definition provider_token_quantity :: "json_pointer_fn \<Rightarrow> json \<Rightarrow> meter_direction \<Rightarrow> nat option" where
  "provider_token_quantity pointer doc dir =
     (let usage_objects = List.map_filter id
            [json_get doc ''usage'', pointer doc ''/response/usage'', pointer doc ''/message/usage''];
          counts = (\<lambda>a b. List.map_filter (\<lambda>u. Option.bind (get_either u a b) json_as_u64) usage_objects) in
      case dir of
        Input \<Rightarrow>
          (case counts ''prompt_tokens'' ''input_tokens'' of
             n # ns \<Rightarrow> Some (foldl max n ns)
           | [] \<Rightarrow> Option.bind (pointer doc ''/usageMetadata/promptTokenCount'') json_as_u64)
      | Output \<Rightarrow>
          (case counts ''completion_tokens'' ''output_tokens'' of
             n # ns \<Rightarrow> Some (foldl max n ns)
           | [] \<Rightarrow>
               Option.bind (json_get doc ''usageMetadata'') (\<lambda>meta.
               Option.bind (Option.bind (json_get meta ''promptTokenCount'') json_as_u64) (\<lambda>input.
               let candidates = u64_or_zero meta ''candidatesTokenCount'';
                   thoughts = u64_or_zero meta ''thoughtsTokenCount'';
                   tool_prompt = u64_or_zero meta ''toolUsePromptTokenCount'';
                   derived = (case Option.bind (json_get meta ''totalTokenCount'') json_as_u64 of
                                Some total_count \<Rightarrow> saturating_sub (saturating_sub total_count input) tool_prompt
                              | None \<Rightarrow> 0) in
               Some (max (saturating_add 64 candidates thoughts) derived))))
      | _ \<Rightarrow> None)"

definition is_count_unit :: "billing_unit \<Rightarrow> bool" where
  "is_count_unit u \<longleftrightarrow> u \<notin> {Minutes, Hours, Seconds, Gibibytes, Tebibytes, Vcpu}"

definition parse_usage_quantity :: "string \<Rightarrow> upto_usage_error + f64" where
  "parse_usage_quantity v =
     (case parse_u64 (trim v) of
        Some n \<Rightarrow> Inr (f64_of_nat n)
      | None \<Rightarrow>
          (case parse_f64 (trim v) of
             None \<Rightarrow> Inl (InvalidUsage (NotANumber (trim v)))
           | Some x \<Rightarrow> if is_finite x \<and> f64_le (Finite 0) x then Inr x else Inl (InvalidUsage NegativeUsage)))"

text \<open>\<open>Number::as_f64\<close>: an integer is rounded, another number parsed from its text.\<close>

definition json_as_f64 :: "json \<Rightarrow> f64 option" where
  "json_as_f64 v = (case v of JNumber n \<Rightarrow> Some (round_f64 (of_int n)) | JFloat s \<Rightarrow> parse_f64 s | _ \<Rightarrow> None)"

definition json_number_quantity :: "json \<Rightarrow> string \<Rightarrow> upto_usage_error + f64" where
  "json_number_quantity v path =
     (case json_as_u64 v of
        Some n \<Rightarrow> Inr (f64_of_nat n)
      | None \<Rightarrow>
          (case json_as_f64 v of
             Some x \<Rightarrow>
               if is_finite x \<and> f64_le (Finite 0) x then Inr x else Inl (InvalidUsage (JsonPathNegative path))
           | None \<Rightarrow> Inl (InvalidUsage (JsonPathUnsupported path))))"

definition extract_from_json_pointer :: "json_pointer_fn \<Rightarrow> json \<Rightarrow> string \<Rightarrow> upto_usage_error + f64" where
  "extract_from_json_pointer pointer doc path =
     (case pointer doc path of
        None \<Rightarrow> Inl (MissingUsage (JsonPathMissing path))
      | Some v \<Rightarrow>
          (case v of
             JNumber _ \<Rightarrow> json_number_quantity v path
           | JFloat _ \<Rightarrow> json_number_quantity v path
           | JString s \<Rightarrow> parse_usage_quantity s
           | _ \<Rightarrow> Inl (InvalidUsage (JsonPathNotNumeric path))))"

definition with_document :: "json option \<Rightarrow> (json \<Rightarrow> upto_usage_error + 'a) \<Rightarrow> upto_usage_error + 'a" where
  "with_document doc f = and_then (ok_or (MissingUsage ResponseBodyUnavailable) doc) f"

definition extract_from_meter ::
  "json_pointer_fn \<Rightarrow> usage_meter \<Rightarrow> header_map \<Rightarrow> json option \<Rightarrow> upto_usage_error + f64" where
  "extract_from_meter pointer meter headers doc =
     (case meter_source meter of
        ResponseJson \<Rightarrow>
          with_document doc (\<lambda>json.
          and_then (ok_or (MissingUsage MeterWithoutPath) (meter_path meter)) (extract_from_json_pointer pointer json))
      | ResponseHeader \<Rightarrow>
          and_then (ok_or (MissingUsage MeterWithoutHeader) (meter_header meter)) (\<lambda>name.
          case headers name of
            None \<Rightarrow> Inl (MissingUsage (HeaderMissing name))
          | Some (Inl _) \<Rightarrow> Inl (InvalidUsage HeaderNotText)
          | Some (Inr v) \<Rightarrow> parse_usage_quantity v))"

definition is_header_meter :: "meter_dimension \<Rightarrow> bool" where
  "is_header_meter d \<longleftrightarrow> (case md_meter d of Some meter \<Rightarrow> meter_source meter = ResponseHeader | None \<Rightarrow> False)"

definition extract_quota_units ::
  "json_pointer_fn \<Rightarrow> meter_dimension \<Rightarrow> request_properties \<Rightarrow> json option \<Rightarrow> upto_usage_error + f64" where
  "extract_quota_units pointer d props doc =
     with_document doc (\<lambda>json.
     and_then (ok_or (MissingUsage (NoTokenUsage (md_direction d) QuotaUnits))
                (provider_token_quantity pointer json (md_direction d))) (\<lambda>tokens.
     and_then (ok_or (MissingUsage (NoQuotaHint (md_direction d))) (quota_tokens_per_unit d props)) (\<lambda>per_unit.
     Inr (f64_of_nat (ceil_div_u64 tokens per_unit)))))"

definition extract_unmetered ::
  "json_pointer_fn \<Rightarrow> meter_dimension \<Rightarrow> string option \<Rightarrow> request_properties \<Rightarrow> json option \<Rightarrow>
   upto_usage_error + f64" where
  "extract_unmetered pointer d preset props doc =
     (if md_unit d = QuotaUnits then extract_quota_units pointer d props doc
      else if md_unit d = Tokens then
        with_document doc (\<lambda>json.
        map_sum id f64_of_nat (ok_or (MissingUsage (NoTokenUsage (md_direction d) Tokens))
          (provider_token_quantity pointer json (md_direction d))))
      else
        (case preset_json_path preset d of
           Some path \<Rightarrow> with_document doc (\<lambda>json. extract_from_json_pointer pointer json path)
         | None \<Rightarrow>
             if md_direction d = Usage \<and> md_unit d = Requests then Inr (Finite 1)
             else Inl (MissingUsage (NoUsageMeter (md_direction d) (md_unit d)))))"

definition extract_raw_quantity ::
  "json_pointer_fn \<Rightarrow> meter_dimension \<Rightarrow> string option \<Rightarrow> request_properties \<Rightarrow> header_map \<Rightarrow> json option \<Rightarrow>
   inference_usage option \<Rightarrow> upto_usage_error + f64" where
  "extract_raw_quantity pointer d preset props headers doc inferred =
     (case Option.bind inferred (\<lambda>u. inferred_quantity_for_dim u d props) of
        Some quantity \<Rightarrow> Inr (f64_of_nat quantity)
      | None \<Rightarrow>
          if is_header_meter d then extract_from_meter pointer (the (md_meter d)) headers doc
          else if (case preset of Some p \<Rightarrow> eq_ignore_ascii_case p ''openai-responses'' | None \<Rightarrow> False)
                  \<and> preset_json_path preset d \<noteq> None
          then with_document doc (\<lambda>json. extract_from_json_pointer pointer json (the (preset_json_path preset d)))
          else
            (case md_meter d of
               Some meter \<Rightarrow> extract_from_meter pointer meter headers doc
             | None \<Rightarrow> extract_unmetered pointer d preset props doc))"

definition extract_dimension_quantity ::
  "json_pointer_fn \<Rightarrow> meter_dimension \<Rightarrow> string option \<Rightarrow> request_properties \<Rightarrow> header_map \<Rightarrow> json option \<Rightarrow>
   inference_usage option \<Rightarrow> upto_usage_error + f64" where
  "extract_dimension_quantity pointer d preset props headers doc inferred =
     and_then (extract_raw_quantity pointer d preset props headers doc inferred) (\<lambda>quantity.
     if is_count_unit (md_unit d) \<and> \<not> fract_is_zero quantity
     then Inl (InvalidUsage (FractionalUsage quantity (md_direction d) (md_unit d)))
     else Inr quantity)"

text \<open>The highest quantity that any document gives; without one, what the dimension gives without a body.\<close>

definition dimension_quantity :: "(json option \<Rightarrow> upto_usage_error + f64) \<Rightarrow> json list \<Rightarrow> upto_usage_error + f64" where
  "dimension_quantity extract docs =
     (case max_by f64_total_le
             (List.map_filter (\<lambda>doc. case extract (Some doc) of Inr q \<Rightarrow> Some q | Inl _ \<Rightarrow> None) docs) of
        Some q \<Rightarrow> Inr q
      | None \<Rightarrow> extract None)"


section \<open>Settlement\<close>

definition body_still_needed ::
  "metering \<Rightarrow> string option \<Rightarrow> request_properties \<Rightarrow> inference_usage option \<Rightarrow> bool" where
  "body_still_needed m variant_hint props inferred \<longleftrightarrow>
     upto_requires_response_body m variant_hint
     \<and> list_ex (\<lambda>d.
          Option.bind inferred (\<lambda>u. inferred_quantity_for_dim u d props) = None
          \<and> dimension_reads_response_body d (metering_preset m)) (effective_dimensions m variant_hint)"

definition find_map :: "('a \<Rightarrow> 'b option) \<Rightarrow> 'a list \<Rightarrow> 'b option" where
  "find_map f xs = (case List.map_filter f xs of y # _ \<Rightarrow> Some y | [] \<Rightarrow> None)"

definition with_context_length ::
  "json_pointer_fn \<Rightarrow> request_properties \<Rightarrow> inference_usage option \<Rightarrow> json list \<Rightarrow> request_properties" where
  "with_context_length pointer props inferred docs =
     (if context_length props = None then
        props\<lparr>context_length :=
          (case Option.bind inferred tokens_prompt of
             Some n \<Rightarrow> Some n
           | None \<Rightarrow> find_map (\<lambda>doc. provider_token_quantity pointer doc Input) (rev docs))\<rparr>
      else props)"

definition extract_and_price_usage ::
  "(string \<Rightarrow> json option) \<Rightarrow> json_pointer_fn \<Rightarrow> metering \<Rightarrow> string option \<Rightarrow> request_properties \<Rightarrow> header_map \<Rightarrow>
   string option \<Rightarrow> inference_usage option \<Rightarrow> upto_usage_error + f64" where
  "extract_and_price_usage parse_json pointer m variant_hint props headers body inferred =
     (let dims = effective_dimensions m variant_hint; preset = metering_preset m in
      if dims = [] then Inl (MissingUsage NoMeteringDimensions)
      else
        and_then
          (if body_still_needed m variant_hint props inferred
           then and_then (ok_or (MissingUsage ResponseBodyUnavailable) body) (response_usage_documents parse_json headers)
           else Inr []) (\<lambda>docs.
        let priced_props = with_context_length pointer props inferred docs in
        and_then (ok_or (MissingUsage NoPriceResolved) (resolve_price m priced_props variant_hint None)) (\<lambda>prices.
        try_fold (\<lambda>acc (idx, d).
          let price = (if idx < length prices then rd_price_usd (prices ! idx) else Finite 0) in
          and_then
            (dimension_quantity (\<lambda>doc. extract_dimension_quantity pointer d preset priced_props headers doc inferred) docs)
            (\<lambda>quantity. Inr (f64_add acc (f64_mul (f64_div quantity (scale_f64 (md_scale d))) price))))
          (Finite 0) (enumerate 0 dims))))"

definition clamp_actual_usd :: "metering \<Rightarrow> f64 \<Rightarrow> f64 \<Rightarrow> f64 option" where
  "clamp_actual_usd m usd ceiling_usd =
     (let with_min = (case upto_min_usd m of
                        Some min_usd \<Rightarrow> if f64_le (Finite 0) min_usd then f64_max usd min_usd else usd
                      | None \<Rightarrow> usd) in
      f64_clamp with_min (Finite 0) ceiling_usd)"

definition usd_to_base_units :: "f64 \<Rightarrow> f64 \<Rightarrow> nat \<Rightarrow> nat" where
  "usd_to_base_units usd units_per_usd max_amount =
     (if f64_le usd (Finite 0) \<or> \<not> is_finite usd then 0
      else min (f64_to_u64 (f64_max (f64_round (f64_mul usd units_per_usd)) (Finite 1))) max_amount)"

definition missing_usage_usd :: "metering \<Rightarrow> f64 \<Rightarrow> upto_usage_error + f64" where
  "missing_usage_usd m ceiling_usd =
     (case upto_missing_usage_policy m of
        Refund \<Rightarrow> Inr (Finite 0)
      | Min \<Rightarrow> Inr (f64_min (case upto_min_usd m of Some v \<Rightarrow> v | None \<Rightarrow> Finite 0) ceiling_usd)
      | Ceiling \<Rightarrow> Inr ceiling_usd
      | Error \<Rightarrow> Inl MissingUsagePolicyError)"

definition plan_hint :: "upto_settlement_plan \<Rightarrow> string option" where
  "plan_hint plan =
     (case Option.bind (plan_inferred plan) usage_model of
        Some model \<Rightarrow> Some model
      | None \<Rightarrow> plan_variant_hint plan)"

definition settled_usd ::
  "(string \<Rightarrow> json option) \<Rightarrow> json_pointer_fn \<Rightarrow> upto_settlement_plan \<Rightarrow> header_map \<Rightarrow> string option \<Rightarrow>
   (upto_usage_error + f64) option" where
  "settled_usd parse_json pointer plan headers body =
     (case extract_and_price_usage parse_json pointer (plan_metering plan) (plan_hint plan) (plan_properties plan)
             headers body (plan_inferred plan) of
        Inr usd \<Rightarrow> map_option Inr (clamp_actual_usd (plan_metering plan) usd (plan_ceiling_usd plan))
      | Inl _ \<Rightarrow> Some (missing_usage_usd (plan_metering plan) (plan_ceiling_usd plan)))"

definition upto_actual_amount_from_response ::
  "(string \<Rightarrow> json option) \<Rightarrow> json_pointer_fn \<Rightarrow> upto_settlement_plan \<Rightarrow> nat \<Rightarrow> header_map \<Rightarrow> string option \<Rightarrow>
   (upto_usage_error + upto_actual_amount) option" where
  "upto_actual_amount_from_response parse_json pointer plan max_amount headers body =
     (if f64_le (plan_ceiling_usd plan) (Finite 0) \<or> max_amount = 0
      then Some (Inr \<lparr>actual_usd = Finite 0, actual_base_units = 0\<rparr>)
      else
        map_option
          (map_sum id (\<lambda>usd.
             \<lparr>actual_usd = usd,
              actual_base_units =
                usd_to_base_units usd (f64_div (f64_of_nat max_amount) (plan_ceiling_usd plan)) max_amount\<rparr>))
          (settled_usd parse_json pointer plan headers body))"

definition upto_settle_amount :: "f64 option \<Rightarrow> f64 \<Rightarrow> nat \<Rightarrow> nat" where
  "upto_settle_amount min_usd ceiling_usd max_amount =
     (case min_usd of
        Some v \<Rightarrow>
          if f64_le (Finite 0) v \<and> f64_less (Finite 0) ceiling_usd
          then min (f64_to_u64 (f64_round (f64_mul v (f64_div (f64_of_nat max_amount) ceiling_usd)))) max_amount
          else max_amount
      | None \<Rightarrow> max_amount)"

definition dimension_honors_meter :: "meter_dimension \<Rightarrow> bool" where
  "dimension_honors_meter d =
     (case md_meter d of
        None \<Rightarrow> True
      | Some meter \<Rightarrow>
          meter_source meter = ResponseJson \<and> md_unit d = Tokens
          \<and> (let canonical =
                (case md_direction d of
                   Input \<Rightarrow> [''/usage/prompt_tokens'', ''/usage/input_tokens'', ''/response/usage/input_tokens'',
                             ''/message/usage/input_tokens'', ''/usageMetadata/promptTokenCount'']
                 | Output \<Rightarrow> [''/usage/completion_tokens'', ''/usage/output_tokens'', ''/response/usage/output_tokens'',
                              ''/message/usage/output_tokens'', ''/usageMetadata/candidatesTokenCount'']
                 | _ \<Rightarrow> []) in
             case meter_path meter of Some path \<Rightarrow> path \<in> set canonical | None \<Rightarrow> False))"

definition stream_honors_meters :: "metering \<Rightarrow> bool" where
  "stream_honors_meters m = list_all dimension_honors_meter (all_dimensions m)"


section \<open>Streams\<close>

lemma later_records_never_lower:
  assumes "dimension_quantity extract docs = Inr q" and "doc \<in> set docs" and "is_ok (extract (Some doc))"
  obtains q' where "dimension_quantity extract (docs @ rest) = Inr q'" and "f64_total_le q q'"
proof -
  let ?found = "\<lambda>docs. List.map_filter (\<lambda>doc. case extract (Some doc) of Inr q \<Rightarrow> Some q | Inl _ \<Rightarrow> None) docs"
  let ?best = "\<lambda>docs. max_by f64_total_le (?found docs)"
  have app: "?found (docs @ rest) = ?found docs @ ?found rest"
    by (simp add: List.map_filter_def)
  have "?found docs \<noteq> []"
    using assms(2,3) by (auto simp: List.map_filter_def is_ok_def filter_empty_conv split: sum.splits intro!: bexI [of _ doc])
  then obtain b where b: "?best docs = Some b" "q = b"
    using assms(1) by (cases "?best docs") (simp_all add: dimension_quantity_def)
  obtain b' where b': "?best (docs @ rest) = Some b'"
    using \<open>?found docs \<noteq> []\<close> by (cases "?best (docs @ rest)") (simp_all add: app)
  have "b \<in> set (?found (docs @ rest))"
    using max_by_key(1) [where key = "\<lambda>x. x", OF b(1)] by (simp add: app)
  then have "f64_total_le b b'"
    by (rule max_by_key(2) [where key = "\<lambda>x. x", OF b'])
  then show thesis
    using that b b' by (simp add: dimension_quantity_def)
qed


section \<open>The settled share\<close>

lemma ulp_le: "0 < x \<Longrightarrow> ulp x / 2 \<le> x / 2 ^ 53 + 2 powi (- 1075)"
proof (cases "- 1022 \<le> floor_log2 x")
  case True
  assume "0 < x"
  have "ulp x = 2 powi floor_log2 x / 2 ^ 52"
    using True by (simp add: ulp_def power_int_diff)
  then have "ulp x / 2 \<le> x / 2 ^ 53"
    using floor_log2_bounds(1) [OF \<open>0 < x\<close>] by simp
  then show ?thesis
    by (rule order_trans) simp
next
  case False
  assume "0 < x"
  have "ulp x = 2 powi (- 1074)"
    using False by (simp add: ulp_def)
  moreover have "(2 :: rat) powi (- 1074) / 2 = 2 powi (- 1075)"
    using power_int_diff [of "2 :: rat" "- 1074" 1] by simp
  ultimately show ?thesis
    using \<open>0 < x\<close> by simp
qed

lemma round_f64_error_any:
  assumes "0 < x" and "round_f64 x = Finite y"
  shows "\<bar>y - x\<bar> \<le> x / 2 ^ 53 + 2 powi (- 1075)"
proof -
  let ?u = "ulp x"
  have "y = of_int (round_half_even (x / ?u)) * ?u"
    using assms by (auto simp: round_f64_pos round_magnitude_def split: if_splits)
  then have "y - x = (of_int (round_half_even (x / ?u)) - x / ?u) * ?u"
    by (simp add: left_diff_distrib less_imp_neq [OF ulp_pos, symmetric])
  then have "\<bar>y - x\<bar> = \<bar>of_int (round_half_even (x / ?u)) - x / ?u\<bar> * ?u"
    by (simp add: abs_mult abs_of_pos [OF ulp_pos])
  also have "\<dots> \<le> 1 / 2 * ?u"
    using round_half_even_near by (intro mult_right_mono) (simp_all add: less_imp_le)
  also have "\<dots> \<le> x / 2 ^ 53 + 2 powi (- 1075)"
    using ulp_le [OF assms(1)] by simp
  finally show ?thesis .
qed

lemma tiny_error: "(2 :: rat) powi (- 1075) \<le> 1 / 2 ^ 100"
  by (simp add: power_int_minus_divide)

lemma settled_product:
  fixes c u :: rat
  assumes "1 / 10 ^ 9 \<le> c" and "c \<le> 10 ^ 9" and "0 < n" and "n \<le> 2 ^ 50" and "0 < u" and "u \<le> c"
  obtains p where "f64_mul (Finite u) (f64_div (f64_of_nat n) (Finite c)) = Finite p"
    and "0 \<le> p" and "\<bar>p - u * of_nat n / c\<bar> < 3 / 8"
proof -
  let ?n = "of_nat n :: rat"
  have c: "0 < c"
    using assms(1) by (rule less_le_trans [rotated]) simp
  have n: "1 \<le> ?n" "?n \<le> 2 ^ 50"
    using assms(3,4) of_nat_mono [of 1 n, where 'a = rat] of_nat_mono [of n "2 ^ 50", where 'a = rat] by simp_all
  have exact: "f64_of_nat n = Finite ?n"
    using round_f64_of_nat [of n] assms(4) by (simp add: f64_of_nat_def)
  have q_low: "1 / 10 ^ 9 \<le> ?n / c"
  proof -
    have "1 / 10 ^ 9 * c \<le> 1"
      using assms(2) by simp
    then have "1 / 10 ^ 9 * c \<le> ?n"
      using n(1) by linarith
    then show ?thesis
      using c by (simp only: pos_le_divide_eq)
  qed
  have "?n / c \<le> ?n / (1 / 10 ^ 9)"
    using assms(1) c n(1) by (intro divide_left_mono) simp_all
  then have q_high: "?n / c \<le> 2 ^ 80"
    using n(2) by simp
  have "f64_le (round_f64 (?n / c)) (round_f64 (2 ^ 80))"
    using q_high c n(1) by (intro round_f64_mono) simp_all
  moreover have "round_f64 (2 ^ 80) = Finite (2 ^ 80)"
    using round_f64_normal [of 80 "2 ^ 80" "2 ^ 52"] by simp
  moreover have "f64_nonneg (round_f64 (?n / c))"
    using c n(1) by (intro round_f64_nonneg) simp
  ultimately obtain q where q: "round_f64 (?n / c) = Finite q" "0 \<le> q"
    by (cases "round_f64 (?n / c)") auto
  have "2 powi (- 1022) \<le> ?n / c"
    by (rule order_trans [OF _ q_low]) (simp add: power_int_minus_divide)
  then have dq: "\<bar>q - ?n / c\<bar> \<le> ?n / c / 2 ^ 53"
    using q(1) by (rule round_f64_error)
  define s where "s = u * ?n / c"
  have s: "0 < s" "s \<le> 2 ^ 50"
  proof -
    show "0 < s"
      using assms(5) c n(1) by (simp add: s_def)
    have "s \<le> ?n"
      using assms(6) c n(1) by (simp add: s_def divide_le_eq mult.commute mult_right_mono)
    then show "s \<le> 2 ^ 50"
      using n(2) by linarith
  qed
  have "u * \<bar>q - ?n / c\<bar> \<le> u * (?n / c / 2 ^ 53)"
    using dq assms(5) by (intro mult_left_mono) simp_all
  moreover have "\<bar>u * q - s\<bar> = u * \<bar>q - ?n / c\<bar>"
    using assms(5) abs_mult [of u "q - ?n / c"] by (simp add: s_def right_diff_distrib)
  ultimately have du: "\<bar>u * q - s\<bar> \<le> s / 2 ^ 53"
    by (simp add: s_def)
  moreover have "s / 2 ^ 53 \<le> 2 ^ 50 / 2 ^ 53"
    using s(2) by (rule divide_right_mono) simp
  ultimately have near: "\<bar>u * q - s\<bar> \<le> 1 / 8"
    by simp
  have "s / 2 ^ 53 < s"
    using s(1) by simp
  then have uq: "0 < u * q"
    using du by linarith
  show thesis
  proof -
    have upper: "u * q \<le> 2 ^ 50 + 1"
      using near s(2) by linarith
    also have "\<dots> \<le> of_nat (2 ^ 51)"
      by simp
    finally have "u * q \<le> of_nat (2 ^ 51)" .
    then obtain p where p: "round_f64 (u * q) = Finite p" "0 \<le> p" "p \<le> of_nat (2 ^ 51)"
      using round_f64_bounded [of "u * q" "2 ^ 51"] uq by auto
    have "\<bar>p - u * q\<bar> \<le> u * q / 2 ^ 53 + 1 / 2 ^ 100"
      using round_f64_error_any [OF uq p(1)] tiny_error by linarith
    also have "\<dots> \<le> (2 ^ 50 + 1) / 2 ^ 53 + 1 / 2 ^ 100"
      using upper by (intro add_right_mono divide_right_mono) simp_all
    also have "\<dots> \<le> 1 / 8 + 1 / 16"
      by simp
    finally have "\<bar>p - s\<bar> < 3 / 8"
      using near by linarith
    then show thesis
      using that [of p] p(1,2) q(1) c by (simp add: exact s_def)
  qed
qed

lemma rounded_units:
  fixes p s :: rat
  assumes "0 \<le> p" and "\<bar>p - s\<bar> < 3 / 8" and "0 < s" and "s \<le> of_nat n" and "0 < n" and "n \<le> 2 ^ 50"
  shows "let base = min (f64_to_u64 (f64_max (f64_round (Finite p)) (Finite 1))) n in
         1 \<le> base \<and> \<bar>of_nat base - s\<bar> < 1 \<and> (s = of_nat n \<longrightarrow> base = n)"
proof -
  define r where "r = \<lfloor>p + 1 / 2\<rfloor>"
  have r: "of_int r \<le> p + 1 / 2" "p + 1 / 2 < of_int r + 1"
    using floor_correct [of "p + 1 / 2"] by (simp_all add: r_def)
  have "0 \<le> r"
    using assms(1) by (simp add: r_def)
  have "(of_int r :: rat) < of_nat n + 1"
    using r assms(2,4) by linarith
  then have "(of_int r :: rat) < of_int (int n + 1)"
    by simp
  then have "r \<le> int n"
    by (simp only: of_int_less_iff)
  define base where "base = nat (max r 1)"
  have b: "1 \<le> base" "base \<le> n"
    using \<open>r \<le> int n\<close> assms(5) by (simp_all add: base_def)
  have "f64_round (Finite p) = Finite (of_int r)"
    using assms(1) floor_unique [of 0 "1 / 2 :: rat"] by (cases "p = 0") (simp_all add: r_def sgn_if)
  then have "f64_max (f64_round (Finite p)) (Finite 1) = Finite (of_int (max r 1))"
    by (simp add: f64_max_def max_def)
  moreover have "base \<le> 2 ^ 64 - 1"
    using b(2) assms(6) by simp
  ultimately have "f64_to_u64 (f64_max (f64_round (Finite p)) (Finite 1)) = base"
    by (simp add: base_def)
  moreover have "\<bar>of_nat base - s\<bar> < 1"
  proof (cases "1 \<le> r")
    case True
    then have "of_nat base = (of_int r :: rat)"
      by (simp add: base_def)
    moreover have "\<bar>of_int r - s\<bar> < 1"
      using r assms(2) by linarith
    ultimately show ?thesis
      by simp
  next
    case False
    then have "r = 0" "base = 1"
      using \<open>0 \<le> r\<close> by (simp_all add: base_def)
    moreover have "\<bar>1 - s\<bar> < 1" if "(of_int r :: rat) = 0"
      using r assms(2,3) that by linarith
    ultimately show ?thesis
      by simp
  qed
  moreover have "base = n" if "s = of_nat n"
  proof -
    have "of_nat n - 1 < (of_int r :: rat)"
      using r assms(2) that by linarith
    then have "(of_int (int n - 1) :: rat) < of_int r"
      by simp
    then have "int n \<le> r"
      by (simp only: of_int_less_iff)
    then show ?thesis
      using \<open>r \<le> int n\<close> assms(5) by (simp add: base_def)
  qed
  ultimately show ?thesis
    using b by (simp add: Let_def)
qed


lemma settled_usd_at_most_ceiling:
  assumes "settled_usd parse_json pointer plan headers body = Some (Inr (Finite u))"
    and "plan_ceiling_usd plan = Finite c" and "0 < c"
  shows "u \<le> c"
proof (cases "extract_and_price_usage parse_json pointer (plan_metering plan) (plan_hint plan) (plan_properties plan)
    headers body (plan_inferred plan)")
  case (Inl e)
  then show ?thesis
    using assms
    by (auto simp: settled_usd_def missing_usage_usd_def f64_min_def split: missing_usage_policy.splits if_splits)
next
  case (Inr x)
  then show ?thesis
    using assms by (auto simp: settled_usd_def clamp_actual_usd_def f64_clamp_def Let_def split: if_splits)
qed

lemma settled_usd_finite:
  assumes "settled_usd parse_json pointer plan headers body = Some (Inr usd)"
    and "plan_ceiling_usd plan = Finite c" and "f64_less (Finite 0) usd"
  shows "is_finite usd"
proof (cases "extract_and_price_usage parse_json pointer (plan_metering plan) (plan_hint plan) (plan_properties plan)
    headers body (plan_inferred plan)")
  case (Inl e)
  then show ?thesis
    using assms
    by (cases usd) (auto simp: settled_usd_def missing_usage_usd_def f64_min_def
        split: missing_usage_policy.splits if_splits)
next
  case (Inr x)
  then show ?thesis
    using assms by (cases usd) (auto simp: settled_usd_def clamp_actual_usd_def f64_clamp_def Let_def split: if_splits)
qed

text \<open>
  C15: Settlement of a usage-metered call. For a ceiling between a billionth and a billion dollars and an
  authorized amount of at most \<open>2\<^sup>5\<^sup>0\<close> base units, whatever the response reports: the settled base units never
  exceed the authorization; they are zero exactly when the settled dollars are not positive; otherwise the
  dollars are at most the ceiling, the units are within one of the exact share that they are of it, and the
  full ceiling settles the full authorization. This covers the three roundings of the conversion.
\<close>

theorem upto_settles_measured_share:
  assumes "upto_actual_amount_from_response parse_json pointer plan max_amount headers body = Some (Inr r)"
    and "plan_ceiling_usd plan = Finite c" and "1 / 10 ^ 9 \<le> c" and "c \<le> 10 ^ 9"
    and "0 < max_amount" and "max_amount \<le> 2 ^ 50"
  shows "actual_base_units r \<le> max_amount
         \<and> (actual_base_units r = 0 \<longleftrightarrow> \<not> f64_less (Finite 0) (actual_usd r))
         \<and> (\<forall>u. actual_usd r = Finite u \<and> 0 < u \<longrightarrow>
               u \<le> c \<and> \<bar>of_nat (actual_base_units r) - u * of_nat max_amount / c\<bar> < 1
               \<and> (u = c \<longrightarrow> actual_base_units r = max_amount))"
proof -
  have c: "0 < c"
    using assms(3) by (rule less_le_trans [rotated]) simp
  let ?usd = "actual_usd r"
  obtain z where z: "settled_usd parse_json pointer plan headers body = Some z"
    "map_sum id (\<lambda>usd. \<lparr>actual_usd = usd, actual_base_units =
       usd_to_base_units usd (f64_div (f64_of_nat max_amount) (Finite c)) max_amount\<rparr>) z = Inr r"
    using assms(1,2,5) c by (auto simp: upto_actual_amount_from_response_def)
  then have usd: "settled_usd parse_json pointer plan headers body = Some (Inr ?usd)"
    and base: "actual_base_units r = usd_to_base_units ?usd (f64_div (f64_of_nat max_amount) (Finite c)) max_amount"
    by (cases z; auto)+
  show ?thesis
  proof (cases "f64_less (Finite 0) ?usd")
    case False
    then have "actual_base_units r = 0"
      by (cases ?usd) (simp_all add: base usd_to_base_units_def)
    then show ?thesis
      using False by auto
  next
    case True
    then obtain u where u: "?usd = Finite u" "0 < u"
      using settled_usd_finite [OF usd assms(2)] by (cases ?usd) auto
    have "u \<le> c"
      using settled_usd_at_most_ceiling usd u(1) assms(2) c by metis
    obtain p where p: "f64_mul (Finite u) (f64_div (f64_of_nat max_amount) (Finite c)) = Finite p" "0 \<le> p"
      "\<bar>p - u * of_nat max_amount / c\<bar> < 3 / 8"
      by (rule settled_product [OF assms(3-6) u(2) \<open>u \<le> c\<close>])
    have share: "0 < u * of_nat max_amount / c" "u * of_nat max_amount / c \<le> of_nat max_amount"
      using u(2) \<open>u \<le> c\<close> c assms(5) by (simp_all add: divide_le_eq mult.commute mult_right_mono)
    have units: "actual_base_units r = min (f64_to_u64 (f64_max (f64_round (Finite p)) (Finite 1))) max_amount"
      using u(2) p(1) by (simp only: base usd_to_base_units_def u(1)) simp
    have "1 \<le> actual_base_units r \<and> \<bar>of_nat (actual_base_units r) - u * of_nat max_amount / c\<bar> < 1
      \<and> (u * of_nat max_amount / c = of_nat max_amount \<longrightarrow> actual_base_units r = max_amount)"
      using rounded_units [OF p(2,3) share assms(5,6)] unfolding units Let_def .
    then show ?thesis
      using u \<open>u \<le> c\<close> c units by auto
  qed
qed

text \<open>A ceiling that is a number never panics, and only the \<open>error\<close> policy fails.\<close>

lemma upto_always_settles:
  assumes "plan_ceiling_usd plan \<noteq> NaN" and "upto_missing_usage_policy (plan_metering plan) \<noteq> Error"
  shows "\<exists>r. upto_actual_amount_from_response parse_json pointer plan max_amount headers body = Some (Inr r)"
proof (cases "f64_le (plan_ceiling_usd plan) (Finite 0) \<or> max_amount = 0")
  case False
  then have "f64_le (Finite 0) (plan_ceiling_usd plan)"
    using assms(1) by (cases "plan_ceiling_usd plan") auto
  then have "\<exists>usd. settled_usd parse_json pointer plan headers body = Some (Inr usd)"
    using assms(2)
    by (auto simp: settled_usd_def clamp_actual_usd_def f64_clamp_def missing_usage_usd_def Let_def
        split: sum.splits missing_usage_policy.splits)
  then show ?thesis
    using False by (auto simp: upto_actual_amount_from_response_def)
qed (simp add: upto_actual_amount_from_response_def)

definition metered_plan :: upto_settlement_plan where
  "metered_plan =
     \<lparr>plan_metering = two_models, plan_variant_hint = None, plan_properties = no_properties,
      plan_ceiling_usd = Finite 3, plan_inferred = None\<rparr>"

theorem upto_settles_measured_share_witness:
  "\<exists>r. upto_actual_amount_from_response (\<lambda>_. None) (\<lambda>_ _. None) metered_plan 3000000 (\<lambda>_. None) None = Some (Inr r)
       \<and> actual_base_units r \<le> 3000000
       \<and> (actual_base_units r = 0) = (\<not> f64_less (Finite 0) (actual_usd r))"
proof -
  have "upto_missing_usage_policy (plan_metering metered_plan) \<noteq> Error" "plan_ceiling_usd metered_plan = Finite 3"
    by (simp_all add: upto_missing_usage_policy_def metered_plan_def two_models_def)
  then obtain r where r:
    "upto_actual_amount_from_response (\<lambda>_. None) (\<lambda>_ _. None) metered_plan 3000000 (\<lambda>_. None) None = Some (Inr r)"
    using upto_always_settles [of metered_plan "\<lambda>_. None" "\<lambda>_ _. None" 3000000 "\<lambda>_. None" None] by auto
  have "1 / 10 ^ 9 \<le> (3 :: rat)" "(3 :: rat) \<le> 10 ^ 9" "(0 :: nat) < 3000000" "(3000000 :: nat) \<le> 2 ^ 50"
    by simp_all
  note settled = upto_settles_measured_share [OF r \<open>plan_ceiling_usd metered_plan = Finite 3\<close> this]
  from conjI [OF r conjI [OF conjunct1 [OF settled] conjunct1 [OF conjunct2 [OF settled]]]] show ?thesis
    by (rule exI)
qed

end
