(* ===== verification/Push_Manifest.thy ===== *)
theory Push_Manifest
  imports Token_Amount
begin

text \<open>
  The canonical payout manifest of \<open>pay push\<close>
  (\<^verbatim>\<open>src/rust/crates/core/src/client/push/manifest.rs\<close> and \<^verbatim>\<open>push/mod.rs\<close>):
  CSV input is checked for blank records, read into ordered payout rows, and bound to a BLAKE3
  digest of a length-prefixed encoding.

  Text is a list of UTF-8 bytes (\<open>string\<close>), binary data is \<open>bytes\<close>. Three pieces of third-party
  code are arguments: \<open>csv_records\<close> (the records the csv crate yields for an input, each a record
  of fields or an error), \<open>pubkey_from_str\<close> and \<open>blake3\<close>.

  The lemmas give the exact set of inputs that become a manifest and the manifest they become, a
  reference definition of blank records that the byte scanner implements, and that the hashed
  encoding determines the plan.
\<close>

section \<open>Data\<close>

definition MAX_TRANSFER_ROWS :: nat where
  "MAX_TRANSFER_ROWS = 100000"

definition MAX_CSV_BYTES :: nat where
  "MAX_CSV_BYTES = 16 * 1024 * 1024"

definition bytes_of_string :: "string \<Rightarrow> bytes" where
  "bytes_of_string s = map of_char s"

definition MANIFEST_VERSION :: bytes where
  "MANIFEST_VERSION = bytes_of_string ''pay-push:v1''"

record manifest_context =
  network_genesis_hash :: bytes
  mint :: pubkey
  token_program :: pubkey
  decimals :: nat

record transfer_row =
  row_number :: nat
  recipient :: pubkey
  amount_raw :: nat

record transfer_manifest =
  plan_context :: manifest_context
  manifest_rows :: "transfer_row list"
  total_amount_raw :: nat
  manifest_hash :: bytes

datatype manifest_error =
    ReadFailed
  | CsvTooLarge
  | CsvError string
  | MissingHeader
  | EmptyRecord nat
  | HeaderFieldCount
  | HeaderDuplicate string
  | HeaderUnknown string
  | HeaderIncomplete
  | TooManyRows nat
  | RecordFieldCount nat
  | FieldEmpty nat string
  | FieldPadded nat string
  | InvalidRecipient nat
  | DuplicateRecipient nat nat
  | InvalidRowAmount nat amount_error
  | RowAmountZero nat
  | TotalOverflow nat
  | NoPayoutRow

text \<open>
  A reader is its contents and, if reading fails, the offset at which it does;
  \<open>take(n).read_to_end\<close> fails only if that offset is among the first \<open>n\<close> bytes.
\<close>

record reader =
  contents :: string
  fails_at :: "nat option"

definition read_up_to :: "nat \<Rightarrow> reader \<Rightarrow> manifest_error + string" where
  "read_up_to n r =
     (case fails_at r of
        Some k \<Rightarrow> if k < n then Inl ReadFailed else Inr (take n (contents r))
      | None \<Rightarrow> Inr (take n (contents r)))"

section \<open>Hex digests\<close>

definition hex_digit :: "nat \<Rightarrow> char" where
  "hex_digit k = (if k < 10 then char_of (48 + k) else char_of (87 + k))"

definition byte_hex :: "byte \<Rightarrow> string" where
  "byte_hex b = [hex_digit (unat b div 16), hex_digit (unat b mod 16)]"

definition hash_hex :: "transfer_manifest \<Rightarrow> string" where
  "hash_hex m = concat (map byte_hex (manifest_hash m))"

definition MANIFEST_HASH_PREFIX_LEN :: nat where
  "MANIFEST_HASH_PREFIX_LEN = 8"

definition manifest_hash_prefix :: "string \<Rightarrow> string" where
  "manifest_hash_prefix hex = (let e = min (length hex) MANIFEST_HASH_PREFIX_LEN in take e hex)"

section \<open>The canonical hash\<close>

text \<open>The hasher is modelled by the bytes fed to it so far; \<open>blake3\<close> digests them at the end.\<close>

definition hash_part :: "bytes \<Rightarrow> bytes \<Rightarrow> bytes" where
  "hash_part hasher value = hasher @ to_le_bytes 8 (wrapping 64 (length value)) @ value"

definition canonical_preimage :: "manifest_context \<Rightarrow> transfer_row list \<Rightarrow> bytes" where
  "canonical_preimage c rs =
     (let h = hash_part [] MANIFEST_VERSION;
          h = hash_part h (network_genesis_hash c);
          h = hash_part h (mint c);
          h = hash_part h (token_program c);
          h = hash_part h [word_of_nat (decimals c)];
          h = hash_part h (to_le_bytes 8 (length rs)) in
      foldl (\<lambda>h row. hash_part (hash_part h (recipient row)) (to_le_bytes 8 (amount_raw row))) h rs)"

definition canonical_hash ::
  "(bytes \<Rightarrow> bytes) \<Rightarrow> manifest_context \<Rightarrow> transfer_row list \<Rightarrow> bytes" where
  "canonical_hash blake3 c rs = blake3 (canonical_preimage c rs)"

section \<open>Parsing\<close>

definition QUOTE :: char where
  "QUOTE = CHR 0x22"

fun reject_empty_loop :: "nat \<Rightarrow> bool \<Rightarrow> bool \<Rightarrow> string \<Rightarrow> manifest_error + unit" where
  "reject_empty_loop line in_quotes has_content [] = Inr ()"
| "reject_empty_loop line in_quotes has_content (byte # rest) =
     (if in_quotes then
        (if byte = QUOTE then
           (case rest of
              nxt # rest' \<Rightarrow>
                if nxt = QUOTE then reject_empty_loop line True has_content rest'
                else reject_empty_loop line False has_content rest
            | [] \<Rightarrow> reject_empty_loop line False has_content rest)
         else reject_empty_loop line True has_content rest)
      else if byte = QUOTE then reject_empty_loop line True True rest
      else if byte = CR \<or> byte = LF then
        (if \<not> has_content then Inl (EmptyRecord line)
         else
           (case rest of
              nxt # rest' \<Rightarrow>
                if byte = CR \<and> nxt = LF
                then reject_empty_loop (line + 1) False False rest'
                else reject_empty_loop (line + 1) False False rest
            | [] \<Rightarrow> reject_empty_loop (line + 1) False False rest))
      else reject_empty_loop line False True rest)"

definition reject_empty_records :: "string \<Rightarrow> manifest_error + unit" where
  "reject_empty_records input = reject_empty_loop 1 False False input"

text \<open>The byte order mark U+FEFF in UTF-8.\<close>

definition BOM :: string where
  "BOM = [CHR 0xEF, CHR 0xBB, CHR 0xBF]"

definition strip_bom :: "string \<Rightarrow> string" where
  "strip_bom name = (if prefix BOM name then drop (length BOM) name else name)"

definition parse_header_step ::
  "nat option \<times> nat option \<Rightarrow> nat \<times> string \<Rightarrow> manifest_error + (nat option \<times> nat option)" where
  "parse_header_step cols entry =
     (case (cols, entry) of ((recipient_column, amount_column), (index, field)) \<Rightarrow>
        let name = (if index = 0 then strip_bom field else field) in
        if name = ''recipient'' \<and> recipient_column = None then Inr (Some index, amount_column)
        else if name = ''amount'' \<and> amount_column = None then Inr (recipient_column, Some index)
        else if name = ''recipient'' \<or> name = ''amount'' then Inl (HeaderDuplicate name)
        else Inl (HeaderUnknown name))"

definition parse_header :: "string list \<Rightarrow> manifest_error + (nat \<times> nat)" where
  "parse_header header =
     (if length header \<noteq> 2 then Inl HeaderFieldCount
      else
        and_then (try_fold parse_header_step (None, None) (enumerate 0 header)) (\<lambda>cols.
          case cols of
            (Some r, Some a) \<Rightarrow> Inr (r, a)
          | _ \<Rightarrow> Inl HeaderIncomplete))"

definition require_nonempty_unpadded :: "string \<Rightarrow> nat \<Rightarrow> string \<Rightarrow> manifest_error + unit" where
  "require_nonempty_unpadded value row field =
     (if value = [] then Inl (FieldEmpty row field)
      else if trim value \<noteq> value then Inl (FieldPadded row field)
      else Inr ())"

text \<open>The loop's state: rows pushed so far, the recipient index, the running total.\<close>

type_synonym parse_state = "transfer_row list \<times> (pubkey \<rightharpoonup> nat) \<times> nat"

definition field_at :: "string list \<Rightarrow> nat \<Rightarrow> string" where
  "field_at cells i = (if i < length cells then cells ! i else [])"

definition parse_record_step ::
  "(string \<Rightarrow> pubkey option) \<Rightarrow> nat \<Rightarrow> nat \<times> nat \<Rightarrow> parse_state \<Rightarrow> string + string list
     \<Rightarrow> manifest_error + parse_state" where
  "parse_record_step pubkey_from_str decs cols st record_result =
     (case (cols, st) of ((recipient_column, amount_column), (rs, recipient_lines, acc)) \<Rightarrow>
        and_then (map_err CsvError record_result) (\<lambda>cells.
          let row = wrapping 64 (length rs + 2) in
          if length rs = MAX_TRANSFER_ROWS then Inl (TooManyRows row)
          else if length cells \<noteq> 2 then Inl (RecordFieldCount row)
          else
            let recipient_input = field_at cells recipient_column;
                amount_input = field_at cells amount_column in
            and_then (require_nonempty_unpadded recipient_input row ''recipient'') (\<lambda>_.
            and_then (require_nonempty_unpadded amount_input row ''amount'') (\<lambda>_.
            and_then (ok_or (InvalidRecipient row) (pubkey_from_str recipient_input)) (\<lambda>pk.
              case recipient_lines pk of
                Some first_line \<Rightarrow> Inl (DuplicateRecipient row first_line)
              | None \<Rightarrow>
                  and_then (map_err (InvalidRowAmount row) (parse_token_amount amount_input decs))
                    (\<lambda>amount.
                  if amount = 0 then Inl (RowAmountZero row)
                  else
                    and_then (ok_or (TotalOverflow row) (checked_add 64 acc amount)) (\<lambda>acc'.
                    Inr (rs @ [\<lparr>row_number = row, recipient = pk, amount_raw = amount\<rparr>],
                         recipient_lines(pk \<mapsto> row), acc'))))))))"

definition parse_manifest_csv ::
  "(string \<Rightarrow> (string + string list) list) \<Rightarrow> (string \<Rightarrow> pubkey option) \<Rightarrow> (bytes \<Rightarrow> bytes)
     \<Rightarrow> reader \<Rightarrow> manifest_context \<Rightarrow> manifest_error + transfer_manifest" where
  "parse_manifest_csv csv_records pubkey_from_str blake3 rd c =
     and_then (read_up_to (MAX_CSV_BYTES + 1) rd) (\<lambda>input.
       if MAX_CSV_BYTES < length input then Inl CsvTooLarge
       else
         and_then (reject_empty_records input) (\<lambda>_.
           case csv_records input of
             [] \<Rightarrow> Inl MissingHeader
           | first # records \<Rightarrow>
               and_then (map_err CsvError first) (\<lambda>header.
               and_then (parse_header header) (\<lambda>cols.
               and_then (try_fold (parse_record_step pubkey_from_str (decimals c) cols)
                           ([], Map.empty, 0) records)
                 (\<lambda>(rs, _, acc).
               if rs = [] then Inl NoPayoutRow
               else
                 Inr \<lparr>plan_context = c, manifest_rows = rs, total_amount_raw = acc,
                      manifest_hash = canonical_hash blake3 c rs\<rparr>)))))"

section \<open>Blank records\<close>

text \<open>
  The records of a CSV input: it is cut at every line end (CRLF, CR or LF) outside double quotes,
  where a doubled quote inside quotes is an escaped quote. The last piece follows the last line
  end and is not a record when it is empty.
\<close>

definition push_char :: "char \<Rightarrow> string list \<Rightarrow> string list" where
  "push_char ch ps = (case ps of [] \<Rightarrow> [[ch]] | p # rest \<Rightarrow> (ch # p) # rest)"

fun split_records :: "bool \<Rightarrow> string \<Rightarrow> string list" where
  "split_records q [] = [[]]"
| "split_records q (byte # rest) =
     (if q then
        (if byte = QUOTE then
           (case rest of
              nxt # rest' \<Rightarrow>
                if nxt = QUOTE then push_char byte (push_char nxt (split_records True rest'))
                else push_char byte (split_records False rest)
            | [] \<Rightarrow> push_char byte (split_records False rest))
         else push_char byte (split_records True rest))
      else if byte = QUOTE then push_char byte (split_records True rest)
      else if byte = CR \<or> byte = LF then
        (case rest of
           nxt # rest' \<Rightarrow>
             if byte = CR \<and> nxt = LF then [] # split_records False rest'
             else [] # split_records False rest
         | [] \<Rightarrow> [] # split_records False rest)
      else push_char byte (split_records False rest))"

text \<open>The first empty record, counted from a given number.\<close>

fun first_empty :: "nat \<Rightarrow> string list \<Rightarrow> nat option" where
  "first_empty k [] = None"
| "first_empty k (p # ps) = (if p = [] then Some k else first_empty (Suc k) ps)"

definition blank_verdict :: "nat option \<Rightarrow> manifest_error + unit" where
  "blank_verdict found = (case found of None \<Rightarrow> Inr () | Some k \<Rightarrow> Inl (EmptyRecord k))"

lemma push_char_nonempty [simp]: "push_char ch ps \<noteq> []"
  by (simp add: push_char_def split: list.split)

declare reject_empty_loop.simps(2) [simp del]
declare split_records.simps(2) [simp del]

lemma split_records_nonempty [simp]: "split_records q s \<noteq> []"
proof (cases s)
  case (Cons byte rest)
  then show ?thesis
    by (subst Cons, subst split_records.simps(2)) (simp split: list.split)
qed simp

lemma butlast_push_char:
  "ps \<noteq> [] \<Longrightarrow> butlast (push_char ch ps) =
     (case butlast ps of [] \<Rightarrow> [] | p # rest \<Rightarrow> (ch # p) # rest)"
  by (cases ps) (auto simp: push_char_def)

text \<open>
  With content already seen in the open record, a first piece that is empty counts as non-empty.
\<close>

definition open_verdict :: "nat \<Rightarrow> bool \<Rightarrow> string list \<Rightarrow> manifest_error + unit" where
  "open_verdict line has_content ps =
     blank_verdict
       (case butlast ps of
          [] \<Rightarrow> None
        | p # rest \<Rightarrow> if p = [] \<and> \<not> has_content then Some line else first_empty (Suc line) rest)"

lemma open_verdict_push:
  "ps \<noteq> [] \<Longrightarrow> open_verdict line h (push_char ch ps) = open_verdict line True ps"
  by (auto simp: open_verdict_def butlast_push_char split: list.split)

lemma open_verdict_line_end:
  "ps \<noteq> [] \<Longrightarrow> open_verdict line h ([] # ps) =
     (if h then open_verdict (Suc line) False ps else Inl (EmptyRecord line))"
  by (auto simp: open_verdict_def blank_verdict_def split: list.split)

lemma reject_empty_loop_eq:
  "(q \<longrightarrow> h) \<Longrightarrow> reject_empty_loop line q h s = open_verdict line h (split_records q s)"
proof (induction line q h s rule: reject_empty_loop.induct)
  case (1 line q h)
  then show ?case by (simp add: open_verdict_def blank_verdict_def)
next
  case (2 line q h byte rest)
  then show ?case
    by (subst reject_empty_loop.simps(2), subst split_records.simps(2))
      (auto simp: open_verdict_push open_verdict_line_end split: list.split)
qed

lemma open_verdict_False: "open_verdict k False ps = blank_verdict (first_empty k (butlast ps))"
  by (auto simp: open_verdict_def split: list.split)

lemma reject_empty_records_eq:
  "reject_empty_records s = blank_verdict (first_empty 1 (butlast (split_records False s)))"
  by (simp add: reject_empty_records_def reject_empty_loop_eq open_verdict_False)

lemma first_empty_None: "first_empty k ps = None \<longleftrightarrow> [] \<notin> set ps"
  by (induction ps arbitrary: k) auto

lemma first_empty_Some:
  "first_empty k ps = Some n \<longleftrightarrow>
     (\<exists>i < length ps. n = k + i \<and> ps ! i = [] \<and> [] \<notin> set (take i ps))"
proof (induction ps arbitrary: k)
  case Nil
  then show ?case by simp
next
  case (Cons p ps)
  show ?case
  proof (cases "p = []")
    case True
    then show ?thesis by (auto simp: less_Suc_eq_0_disj)
  next
    case False
    then show ?thesis
      using Cons.IH [of "Suc k"] by (simp add: Ex_less_Suc2)
  qed
qed

section \<open>The hashed encoding determines the plan\<close>

definition encode_part :: "bytes \<Rightarrow> bytes" where
  "encode_part value = hash_part [] value"

definition plan_parts :: "manifest_context \<Rightarrow> transfer_row list \<Rightarrow> bytes list" where
  "plan_parts c rs =
     [MANIFEST_VERSION, network_genesis_hash c, mint c, token_program c,
      [word_of_nat (decimals c)], to_le_bytes 8 (length rs)]
     @ concat (map (\<lambda>row. [recipient row, to_le_bytes 8 (amount_raw row)]) rs)"

lemma hash_part_eq: "hash_part h v = h @ encode_part v"
  by (simp add: hash_part_def encode_part_def)

lemma foldl_hash_rows:
  "foldl (\<lambda>h row. hash_part (hash_part h (recipient row)) (to_le_bytes 8 (amount_raw row))) h rs
   = h @ concat (map encode_part
       (concat (map (\<lambda>row. [recipient row, to_le_bytes 8 (amount_raw row)]) rs)))"
  by (induction rs arbitrary: h) (simp_all add: hash_part_eq)

lemma canonical_preimage_parts:
  "canonical_preimage c rs = concat (map encode_part (plan_parts c rs))"
  by (simp add: canonical_preimage_def plan_parts_def Let_def foldl_hash_rows)
     (simp add: hash_part_eq)

lemma encode_part_split:
  assumes "encode_part v @ xs = encode_part w @ ys"
    and "length v < 2 ^ 64" and "length w < 2 ^ 64"
  shows "v = w \<and> xs = ys"
proof -
  have "to_le_bytes 8 (length v) = to_le_bytes 8 (length w) \<and> v @ xs = w @ ys"
    using assms by (simp add: encode_part_def hash_part_def wrapping_def)
  moreover from this have "length v = length w"
    using assms(2,3) two_pow_64_bytes by (metis to_le_bytes_inj)
  ultimately show ?thesis by simp
qed

lemma encode_part_nonempty: "encode_part v \<noteq> []"
  by (metis Nil_is_append_conv encode_part_def hash_part_def length_to_le_bytes list.size(3)
      zero_neq_numeral)

lemma encode_parts_inj:
  assumes "concat (map encode_part vs) = concat (map encode_part ws)"
    and "\<And>v. v \<in> set vs \<Longrightarrow> length v < 2 ^ 64" and "\<And>w. w \<in> set ws \<Longrightarrow> length w < 2 ^ 64"
  shows "vs = ws"
  using assms
proof (induction vs arbitrary: ws)
  case Nil
  then show ?case by (cases ws) (auto simp: encode_part_nonempty)
next
  case (Cons v vs)
  then obtain w ws' where ws: "ws = w # ws'"
    by (cases ws) (auto simp: encode_part_nonempty)
  have "v = w \<and> concat (map encode_part vs) = concat (map encode_part ws')"
    using Cons.prems by (intro encode_part_split) (auto simp: ws)
  then show ?case
    using Cons.IH [of ws'] Cons.prems by (auto simp: ws)
qed

text \<open>Field widths of the Rust types: keys are 32 bytes, decimals a u8, amounts and counts u64.\<close>

definition context_typed :: "manifest_context \<Rightarrow> bool" where
  "context_typed c \<longleftrightarrow> length (network_genesis_hash c) = 32 \<and> length (mint c) = 32
     \<and> length (token_program c) = 32 \<and> decimals c < 256"

definition rows_typed :: "transfer_row list \<Rightarrow> bool" where
  "rows_typed rs \<longleftrightarrow> length rs < 2 ^ 64
     \<and> list_all (\<lambda>row. length (recipient row) = 32 \<and> amount_raw row < 2 ^ 64) rs"

definition plan_of_rows :: "transfer_row list \<Rightarrow> (pubkey \<times> nat) list" where
  "plan_of_rows rs = map (\<lambda>row. (recipient row, amount_raw row)) rs"

lemma row_parts_inj:
  assumes "concat (map (\<lambda>row. [recipient row, to_le_bytes 8 (amount_raw row)]) rs)
      = concat (map (\<lambda>row. [recipient row, to_le_bytes 8 (amount_raw row)]) rs')"
    and "list_all (\<lambda>row. amount_raw row < 2 ^ 64) rs"
    and "list_all (\<lambda>row. amount_raw row < 2 ^ 64) rs'"
  shows "plan_of_rows rs = plan_of_rows rs'"
  using assms
proof (induction rs arbitrary: rs')
  case Nil
  then show ?case by (cases rs') (auto simp: plan_of_rows_def)
next
  case (Cons row rs)
  then obtain row' rt where rs': "rs' = row' # rt"
    by (cases rs') auto
  have "to_le_bytes 8 (amount_raw row) = to_le_bytes 8 (amount_raw row')"
    using Cons.prems(1) by (simp add: rs')
  then have "amount_raw row = amount_raw row'"
    using Cons.prems(2,3) by (intro to_le_bytes_inj [of _ 8]) (simp_all add: rs')
  then show ?case
    using Cons.IH [of rt] Cons.prems by (simp add: rs' plan_of_rows_def)
qed

lemma plan_parts_short:
  "context_typed c \<Longrightarrow> rows_typed rs \<Longrightarrow> v \<in> set (plan_parts c rs) \<Longrightarrow> length v < 2 ^ 64"
  by (auto simp: context_typed_def rows_typed_def plan_parts_def MANIFEST_VERSION_def
      bytes_of_string_def list_all_iff)

lemma canonical_preimage_inj:
  assumes "context_typed c" "context_typed c'" "rows_typed rs" "rows_typed rs'"
    and "canonical_preimage c rs = canonical_preimage c' rs'"
  shows "c = c' \<and> plan_of_rows rs = plan_of_rows rs'"
proof -
  have parts: "plan_parts c rs = plan_parts c' rs'"
    using assms plan_parts_short by (intro encode_parts_inj) (auto simp: canonical_preimage_parts)
  have "(word_of_nat (decimals c) :: byte) = word_of_nat (decimals c')"
    using parts by (simp add: plan_parts_def)
  then have "decimals c = decimals c'"
    using assms(1,2) by (simp add: context_typed_def word_of_nat_eq_iff take_bit_eq_mod)
  then have "c = c'"
    using parts by (simp add: plan_parts_def)
  moreover have "plan_of_rows rs = plan_of_rows rs'"
    using parts assms(3,4)
    by (intro row_parts_inj) (auto simp: plan_parts_def rows_typed_def list_all_iff)
  ultimately show ?thesis ..
qed

section \<open>Which inputs become a manifest\<close>

text \<open>What one CSV record pays, if it is a valid payout record.\<close>

definition payout_of ::
  "(string \<Rightarrow> pubkey option) \<Rightarrow> nat \<Rightarrow> nat \<times> nat \<Rightarrow> string list \<Rightarrow> (pubkey \<times> nat) option" where
  "payout_of pubkey_from_str decs cols cells =
     (let r = field_at cells (fst cols); a = field_at cells (snd cols) in
      if length cells = 2 \<and> r \<noteq> [] \<and> a \<noteq> [] \<and> trim r = r \<and> trim a = a
      then (case (pubkey_from_str r, parse_token_amount a decs) of
              (Some pk, Inr amount) \<Rightarrow> if amount = 0 then None else Some (pk, amount)
            | _ \<Rightarrow> None)
      else None)"

definition number_rows :: "(pubkey \<times> nat) list \<Rightarrow> transfer_row list" where
  "number_rows ps =
     map (\<lambda>(i, pk, amount). \<lparr>row_number = i, recipient = pk, amount_raw = amount\<rparr>) (enumerate 2 ps)"

lemma number_rows_simps [simp]:
  "number_rows [] = []"
  "length (number_rows ps) = length ps"
  "number_rows (ps @ [(pk, a)])
     = number_rows ps @ [\<lparr>row_number = length ps + 2, recipient = pk, amount_raw = a\<rparr>]"
  by (simp_all add: number_rows_def enumerate_append_eq add.commute)

lemma number_rows_projections:
  "map recipient (number_rows ps) = map fst ps"
  "map amount_raw (number_rows ps) = map snd ps"
  "map row_number (number_rows ps) = [2..<length ps + 2]"
  "plan_of_rows (number_rows ps) = ps"
  by (induction ps rule: rev_induct)
     (auto simp: plan_of_rows_def upt_Suc_append [symmetric] simp del: upt_Suc)

lemma parse_record_step_iff:
  assumes "length rs \<le> MAX_TRANSFER_ROWS"
  shows "parse_record_step pfs decs cols (rs, L, acc) rr = Inr st \<longleftrightarrow>
    (\<exists>cells pk a. rr = Inr cells \<and> payout_of pfs decs cols cells = Some (pk, a)
       \<and> length rs < MAX_TRANSFER_ROWS \<and> L pk = None \<and> acc + a < 2 ^ 64
       \<and> st = (rs @ [\<lparr>row_number = length rs + 2, recipient = pk, amount_raw = a\<rparr>],
               L(pk \<mapsto> length rs + 2), acc + a))"
proof (cases "rr")
  case (Inr cells)
  have w: "wrapping 64 (length rs + 2) = length rs + 2"
    using assms by (simp add: wrapping_def MAX_TRANSFER_ROWS_def)
  define r a where "r = field_at cells (fst cols)" and "a = field_at cells (snd cols)"
  have step: "parse_record_step pfs decs cols (rs, L, acc) (Inr cells) =
    (if length rs = MAX_TRANSFER_ROWS then Inl (TooManyRows (length rs + 2))
     else if length cells \<noteq> 2 then Inl (RecordFieldCount (length rs + 2))
     else
       and_then (require_nonempty_unpadded r (length rs + 2) ''recipient'') (\<lambda>_.
       and_then (require_nonempty_unpadded a (length rs + 2) ''amount'') (\<lambda>_.
       and_then (ok_or (InvalidRecipient (length rs + 2)) (pfs r)) (\<lambda>pk.
         case L pk of
           Some first_line \<Rightarrow> Inl (DuplicateRecipient (length rs + 2) first_line)
         | None \<Rightarrow>
             and_then (map_err (InvalidRowAmount (length rs + 2)) (parse_token_amount a decs)) (\<lambda>amount.
             if amount = 0 then Inl (RowAmountZero (length rs + 2))
             else
               and_then (ok_or (TotalOverflow (length rs + 2)) (checked_add 64 acc amount)) (\<lambda>acc'.
               Inr (rs @ [\<lparr>row_number = length rs + 2, recipient = pk, amount_raw = amount\<rparr>],
                    L(pk \<mapsto> length rs + 2), acc')))))))"
    unfolding parse_record_step_def r_def a_def
    by (cases cols) (simp only: prod.case map_err_simps and_then_simps Let_def w fst_conv snd_conv)
  have payout: "payout_of pfs decs cols cells =
    (if length cells = 2 \<and> r \<noteq> [] \<and> a \<noteq> [] \<and> trim r = r \<and> trim a = a
     then (case (pfs r, parse_token_amount a decs) of
             (Some pk, Inr amount) \<Rightarrow> if amount = 0 then None else Some (pk, amount)
           | _ \<Rightarrow> None)
     else None)"
    by (simp only: payout_of_def Let_def r_def a_def)
  show ?thesis
    using assms
    by (cases "pfs r"; cases "parse_token_amount a decs")
      (auto simp: Inr step payout require_nonempty_unpadded_def checked_add_def split: option.split
        simp del: fun_upd_apply)
qed (simp add: parse_record_step_def split: prod.split)

lemma parse_records_iff:
  assumes "length ps0 \<le> MAX_TRANSFER_ROWS" and "acc < 2 ^ 64"
  shows "(\<exists>L'. try_fold (parse_record_step pfs decs cols) (number_rows ps0, L, acc) rrs
            = Inr (rs, L', acc')) \<longleftrightarrow>
    (\<exists>records ps. rrs = map Inr records \<and> map (payout_of pfs decs cols) records = map Some ps
       \<and> length ps0 + length ps \<le> MAX_TRANSFER_ROWS \<and> distinct (map fst ps)
       \<and> fst ` set ps \<inter> dom L = {} \<and> acc + sum_list (map snd ps) < 2 ^ 64
       \<and> rs = number_rows (ps0 @ ps) \<and> acc' = acc + sum_list (map snd ps))"
    (is "?fold rrs ps0 L acc \<longleftrightarrow> ?spec rrs ps0 L acc")
  using assms
proof (induction rrs arbitrary: ps0 L acc)
  case Nil
  then show ?case by auto
next
  case (Cons rr rrs)
  note step = parse_record_step_iff [of "number_rows ps0" pfs decs cols L acc rr, unfolded number_rows_simps(2)]
  have "?fold (rr # rrs) ps0 L acc \<longleftrightarrow>
    (\<exists>cells pk a. rr = Inr cells \<and> payout_of pfs decs cols cells = Some (pk, a)
       \<and> length ps0 < MAX_TRANSFER_ROWS \<and> L pk = None \<and> acc + a < 2 ^ 64
       \<and> ?fold rrs (ps0 @ [(pk, a)]) (L(pk \<mapsto> length ps0 + 2)) (acc + a))"
    (is "_ \<longleftrightarrow> ?unfolded")
  proof -
    have "?fold (rr # rrs) ps0 L acc \<longleftrightarrow>
      (\<exists>st. parse_record_step pfs decs cols (number_rows ps0, L, acc) rr = Inr st
         \<and> (\<exists>L'. try_fold (parse_record_step pfs decs cols) st rrs = Inr (rs, L', acc')))"
      by (simp only: try_fold.simps and_then_eq_Inr) blast
    also have "\<dots> \<longleftrightarrow> ?unfolded"
      using Cons.prems(1) by (simp only: step number_rows_simps) blast
    finally show ?thesis .
  qed
  also have "\<dots> \<longleftrightarrow>
    (\<exists>cells pk a. rr = Inr cells \<and> payout_of pfs decs cols cells = Some (pk, a)
       \<and> length ps0 < MAX_TRANSFER_ROWS \<and> L pk = None \<and> acc + a < 2 ^ 64
       \<and> ?spec rrs (ps0 @ [(pk, a)]) (L(pk \<mapsto> length ps0 + 2)) (acc + a))"
    by (intro ex_cong1 conj_cong refl Cons.IH) simp_all
  also have "\<dots> \<longleftrightarrow> ?spec (rr # rrs) ps0 L acc"
  proof
    assume "\<exists>cells pk a. rr = Inr cells \<and> payout_of pfs decs cols cells = Some (pk, a)
       \<and> length ps0 < MAX_TRANSFER_ROWS \<and> L pk = None \<and> acc + a < 2 ^ 64
       \<and> ?spec rrs (ps0 @ [(pk, a)]) (L(pk \<mapsto> length ps0 + 2)) (acc + a)"
    then obtain cells pk a records ps where spec:
      "rr = Inr cells" "payout_of pfs decs cols cells = Some (pk, a)" "L pk = None"
      "rrs = map Inr records" "map (payout_of pfs decs cols) records = map Some ps"
      "length ps0 + 1 + length ps \<le> MAX_TRANSFER_ROWS" "distinct (map fst ps)"
      "fst ` set ps \<inter> dom (L(pk \<mapsto> length ps0 + 2)) = {}"
      "acc + a + sum_list (map snd ps) < 2 ^ 64"
      "rs = number_rows (ps0 @ (pk, a) # ps)" "acc' = acc + a + sum_list (map snd ps)"
      by (elim exE conjE) (simp del: fun_upd_apply dom_fun_upd)
    from spec(8) have "pk \<notin> fst ` set ps" and "fst ` set ps \<inter> dom L = {}"
      by auto
    with spec(1-7,9-11) show "?spec (rr # rrs) ps0 L acc"
      by (rule_tac x = "cells # records" in exI, rule_tac x = "(pk, a) # ps" in exI)
        (simp add: add.assoc domIff)
  next
    assume "?spec (rr # rrs) ps0 L acc"
    then obtain records ps where spec: "rr # rrs = map Inr records"
      "map (payout_of pfs decs cols) records = map Some ps"
      "length ps0 + length ps \<le> MAX_TRANSFER_ROWS" "distinct (map fst ps)"
      "fst ` set ps \<inter> dom L = {}" "acc + sum_list (map snd ps) < 2 ^ 64"
      "rs = number_rows (ps0 @ ps)" "acc' = acc + sum_list (map snd ps)"
      by (elim exE conjE) (rule that)
    then obtain cells rest where rec: "records = cells # rest"
      by (cases records) auto
    with spec obtain pk a ps' where ps: "ps = (pk, a) # ps'"
      by (cases ps) auto
    have fresh: "fst ` set ps' \<inter> dom (L(pk \<mapsto> length ps0 + 2)) = {}"
      using spec(4,5) by (auto simp: ps)
    show "\<exists>cells pk a. rr = Inr cells \<and> payout_of pfs decs cols cells = Some (pk, a)
       \<and> length ps0 < MAX_TRANSFER_ROWS \<and> L pk = None \<and> acc + a < 2 ^ 64
       \<and> ?spec rrs (ps0 @ [(pk, a)]) (L(pk \<mapsto> length ps0 + 2)) (acc + a)"
      using spec fresh unfolding rec ps
      by (intro exI [of _ cells] exI [of _ pk] exI [of _ a] conjI
          exI [of _ rest] exI [of _ ps'])
        (auto simp: add.assoc simp del: fun_upd_apply dom_fun_upd)
  qed
  finally show ?case .
qed

text \<open>
  The functional specification: a manifest is the numbered list of the payouts of the records
  after the header.
\<close>

definition csv_payouts ::
  "(string \<Rightarrow> (string + string list) list) \<Rightarrow> (string \<Rightarrow> pubkey option) \<Rightarrow> nat \<Rightarrow> string
     \<Rightarrow> (pubkey \<times> nat) list \<Rightarrow> bool" where
  "csv_payouts csv_records pubkey_from_str decs input ps \<longleftrightarrow>
     (\<exists>header records cols. csv_records input = Inr header # map Inr records
        \<and> parse_header header = Inr cols
        \<and> map (payout_of pubkey_from_str decs cols) records = map Some ps)"

lemma parse_manifest_csv_iff:
  "parse_manifest_csv csv_records pfs blake3 rd c = Inr m \<longleftrightarrow>
   (\<exists>input ps. read_up_to (MAX_CSV_BYTES + 1) rd = Inr input \<and> length input \<le> MAX_CSV_BYTES
      \<and> reject_empty_records input = Inr () \<and> csv_payouts csv_records pfs (decimals c) input ps
      \<and> ps \<noteq> [] \<and> length ps \<le> MAX_TRANSFER_ROWS \<and> distinct (map fst ps)
      \<and> sum_list (map snd ps) < 2 ^ 64
      \<and> m = \<lparr>plan_context = c, manifest_rows = number_rows ps,
              total_amount_raw = sum_list (map snd ps),
              manifest_hash = canonical_hash blake3 c (number_rows ps)\<rparr>)"
    (is "?lhs \<longleftrightarrow> ?rhs")
proof -
  let ?fold = "\<lambda>cols rrs. try_fold (parse_record_step pfs (decimals c) cols) ([], Map.empty, 0) rrs"
  have "?lhs \<longleftrightarrow> (\<exists>input header cols rrs rs acc. read_up_to (MAX_CSV_BYTES + 1) rd = Inr input
      \<and> length input \<le> MAX_CSV_BYTES \<and> reject_empty_records input = Inr ()
      \<and> csv_records input = Inr header # rrs \<and> parse_header header = Inr cols
      \<and> (\<exists>L. ?fold cols rrs = Inr (rs, L, acc)) \<and> rs \<noteq> []
      \<and> m = \<lparr>plan_context = c, manifest_rows = rs, total_amount_raw = acc,
              manifest_hash = canonical_hash blake3 c rs\<rparr>)" (is "_ \<longleftrightarrow> ?unfolded")
  proof
    assume ?lhs
    then obtain input where input: "read_up_to (MAX_CSV_BYTES + 1) rd = Inr input"
        "length input \<le> MAX_CSV_BYTES" "reject_empty_records input = Inr ()"
      and rest: "(case csv_records input of [] \<Rightarrow> Inl MissingHeader
         | first # records \<Rightarrow> and_then (map_err CsvError first) (\<lambda>header.
             and_then (parse_header header) (\<lambda>cols. and_then (?fold cols records)
               (\<lambda>(rs, _, acc). if rs = [] then Inl NoPayoutRow
                 else Inr \<lparr>plan_context = c, manifest_rows = rs, total_amount_raw = acc,
                      manifest_hash = canonical_hash blake3 c rs\<rparr>)))) = Inr m"
      unfolding parse_manifest_csv_def by (auto simp: and_then_eq_Inr not_less split: if_splits)
    from rest obtain first rrs where csv: "csv_records input = first # rrs"
      by (cases "csv_records input") auto
    with rest obtain header where "first = Inr header"
      and parsed: "and_then (parse_header header) (\<lambda>cols. and_then (?fold cols rrs)
               (\<lambda>(rs, _, acc). if rs = [] then Inl NoPayoutRow
                 else Inr \<lparr>plan_context = c, manifest_rows = rs, total_amount_raw = acc,
                      manifest_hash = canonical_hash blake3 c rs\<rparr>)) = Inr m"
      by (cases first) simp_all
    moreover from parsed obtain cols where "parse_header header = Inr cols"
      and last: "and_then (?fold cols rrs) (\<lambda>(rs, _, acc). if rs = [] then Inl NoPayoutRow
                 else Inr \<lparr>plan_context = c, manifest_rows = rs, total_amount_raw = acc,
                      manifest_hash = canonical_hash blake3 c rs\<rparr>) = Inr m"
      by (cases "parse_header header") simp_all
    moreover from last obtain rs L acc where "?fold cols rrs = Inr (rs, L, acc)" "rs \<noteq> []"
        "m = \<lparr>plan_context = c, manifest_rows = rs, total_amount_raw = acc,
              manifest_hash = canonical_hash blake3 c rs\<rparr>"
      by (auto simp: and_then_eq_Inr split: if_splits)
    ultimately show ?unfolded
      using input csv by blast
  next
    assume ?unfolded
    then show ?lhs
      by (elim exE conjE) (simp add: parse_manifest_csv_def)
  qed
  also have "\<dots> \<longleftrightarrow> ?rhs"
  proof -
    have fold: "(\<exists>L. ?fold cols rrs = Inr (rs, L, acc)) \<longleftrightarrow>
      (\<exists>records ps. rrs = map Inr records
         \<and> map (payout_of pfs (decimals c) cols) records = map Some ps
         \<and> length ps \<le> MAX_TRANSFER_ROWS \<and> distinct (map fst ps) \<and> sum_list (map snd ps) < 2 ^ 64
         \<and> rs = number_rows ps \<and> acc = sum_list (map snd ps))" for cols rrs rs acc
      using parse_records_iff [of "[]" 0 pfs "decimals c" cols Map.empty rrs rs acc] by simp
    have "number_rows ps = [] \<longleftrightarrow> ps = []" for ps
      by (metis length_0_conv number_rows_simps(2))
    then show ?thesis
      unfolding fold csv_payouts_def by blast
  qed
  finally show ?thesis .
qed

section \<open>Well-formed manifests\<close>

definition manifest_wf :: "transfer_manifest \<Rightarrow> bool" where
  "manifest_wf m \<longleftrightarrow>
     manifest_rows m \<noteq> [] \<and> length (manifest_rows m) \<le> MAX_TRANSFER_ROWS
     \<and> distinct (map recipient (manifest_rows m))
     \<and> map row_number (manifest_rows m) = [2..<length (manifest_rows m) + 2]
     \<and> list_all (\<lambda>row. 0 < amount_raw row) (manifest_rows m)
     \<and> total_amount_raw m = sum_list (map amount_raw (manifest_rows m))
     \<and> total_amount_raw m < 2 ^ 64"

lemma payout_of_positive: "payout_of pfs decs cols cells = Some (pk, a) \<Longrightarrow> 0 < a"
  by (auto simp: payout_of_def Let_def split: if_splits option.splits sum.splits)

lemma csv_payouts_positive: "csv_payouts csv pfs decs input ps \<Longrightarrow> list_all (\<lambda>a. 0 < a) (map snd ps)"
proof -
  assume "csv_payouts csv pfs decs input ps"
  then obtain cols records where map: "map (payout_of pfs decs cols) records = map Some ps"
    by (auto simp: csv_payouts_def)
  have "0 < snd p" if "p \<in> set ps" for p
  proof -
    have "Some p \<in> set (map (payout_of pfs decs cols) records)"
      using that by (simp add: map)
    then show ?thesis
      using payout_of_positive [of pfs decs cols _ "fst p" "snd p"] by auto
  qed
  then show ?thesis by (simp add: list_all_iff)
qed

lemma parse_manifest_wf:
  assumes "parse_manifest_csv csv_records pfs blake3 rd c = Inr m"
  shows "manifest_wf m"
proof -
  from assms obtain input ps where "csv_payouts csv_records pfs (decimals c) input ps"
      and ps: "ps \<noteq> []" "length ps \<le> MAX_TRANSFER_ROWS" "distinct (map fst ps)"
        "sum_list (map snd ps) < 2 ^ 64"
      and m: "m = \<lparr>plan_context = c, manifest_rows = number_rows ps,
              total_amount_raw = sum_list (map snd ps),
              manifest_hash = canonical_hash blake3 c (number_rows ps)\<rparr>"
    unfolding parse_manifest_csv_iff by blast
  have "list_all (\<lambda>a. 0 < a) (map amount_raw (number_rows ps))"
    using csv_payouts_positive [OF \<open>csv_payouts _ _ _ _ ps\<close>]
    by (simp add: number_rows_projections(2))
  then have "list_all (\<lambda>row. 0 < amount_raw row) (number_rows ps)"
    by (simp add: list.pred_map o_def)
  moreover have "number_rows ps \<noteq> []"
    using ps(1) by (metis length_0_conv number_rows_simps(2))
  ultimately show ?thesis
    using ps by (simp add: manifest_wf_def m number_rows_projections)
qed

section \<open>Properties\<close>

text \<open>
  C22: exactly which inputs become a manifest, and which manifest. Parsing succeeds exactly when the
  reader yields at most 16 MiB, no record is blank, the csv crate yields only well-formed records,
  the header names the two columns, every further record is a valid positive payout, there are
  between 1 and 100000 of them with pairwise different recipients, and their sum fits a u64; the
  manifest then lists exactly those payouts in order, numbered from 2, with their exact sum and the
  digest of the canonical encoding.
\<close>
theorem parse_manifest_csv_exact:
  "parse_manifest_csv csv_records pubkey_from_str blake3 rd c = Inr m \<longleftrightarrow>
   (\<exists>input ps. read_up_to (MAX_CSV_BYTES + 1) rd = Inr input \<and> length input \<le> MAX_CSV_BYTES
      \<and> reject_empty_records input = Inr ()
      \<and> csv_payouts csv_records pubkey_from_str (decimals c) input ps
      \<and> ps \<noteq> [] \<and> length ps \<le> MAX_TRANSFER_ROWS \<and> distinct (map fst ps)
      \<and> sum_list (map snd ps) < 2 ^ 64
      \<and> m = \<lparr>plan_context = c, manifest_rows = number_rows ps,
              total_amount_raw = sum_list (map snd ps),
              manifest_hash = canonical_hash blake3 c (number_rows ps)\<rparr>)"
  by (rule parse_manifest_csv_iff)

text \<open>
  The blank-record scanner against its specification. \<open>reject_empty_records\<close> reports the
  first record that is empty, by its number, when the input is cut into records at the line ends
  outside quotes, and accepts when there is none; the piece after the last line end does not count.
\<close>
lemma reject_empty_records_exact:
  "reject_empty_records s =
     (case first_empty 1 (butlast (split_records False s)) of
        None \<Rightarrow> Inr ()
      | Some n \<Rightarrow> Inl (EmptyRecord n))
   \<and> (reject_empty_records s = Inr () \<longleftrightarrow> [] \<notin> set (butlast (split_records False s)))"
  using first_empty_None [of 1 "butlast (split_records False s)"]
  by (simp add: reject_empty_records_eq blank_verdict_def split: option.split) auto

text \<open>
  C23: the digest binds the plan. If two manifests over well-typed contexts and rows have the same
  canonical hash, they agree on genesis hash, mint, token program, decimals and on every recipient
  and amount in order, unless the two encodings are a collision of the digest function.
\<close>
theorem canonical_hash_binds_plan:
  assumes "context_typed c" "context_typed c'" "rows_typed rs" "rows_typed rs'"
    and "canonical_hash blake3 c rs = canonical_hash blake3 c' rs'"
  shows "c = c' \<and> plan_of_rows rs = plan_of_rows rs'
    \<or> canonical_preimage c rs \<noteq> canonical_preimage c' rs'
      \<and> blake3 (canonical_preimage c rs) = blake3 (canonical_preimage c' rs')"
proof (cases "canonical_preimage c rs = canonical_preimage c' rs'")
  case True
  then show ?thesis
    using canonical_preimage_inj assms by blast
next
  case False
  then show ?thesis
    using assms(5) by (simp add: canonical_hash_def)
qed

definition sample_context :: manifest_context where
  "sample_context = \<lparr>network_genesis_hash = replicate 32 7, mint = replicate 32 8,
     token_program = replicate 32 9, decimals = 6\<rparr>"

text \<open>
  Two ways to agree on a hash. Rows that carry other row numbers have the same encoding, and the theorem
  gives the same plan. A checksum in place of the digest does not see two payouts swapped between their
  recipients; the plans differ, and the theorem gives the collision.
\<close>

definition checksum :: "bytes \<Rightarrow> bytes" where
  "checksum bs = [sum_list bs]"

definition sample_payouts :: "transfer_row list" where
  "sample_payouts = number_rows [(replicate 32 1, 5), (replicate 32 2, 6)]"

definition renumbered_payouts :: "transfer_row list" where
  "renumbered_payouts = map (\<lambda>row. row\<lparr>row_number := row_number row + 10\<rparr>) sample_payouts"

definition swapped_payouts :: "transfer_row list" where
  "swapped_payouts = number_rows [(replicate 32 1, 6), (replicate 32 2, 5)]"

lemmas sample_payouts_defs = sample_payouts_def renumbered_payouts_def swapped_payouts_def number_rows_def

lemma sample_payouts_typed:
  "context_typed sample_context" "rows_typed sample_payouts" "rows_typed renumbered_payouts" "rows_typed swapped_payouts"
  by (simp_all add: sample_context_def context_typed_def rows_typed_def sample_payouts_defs)

theorem canonical_hash_binds_plan_witness:
  "sample_payouts \<noteq> renumbered_payouts
   \<and> canonical_hash id sample_context sample_payouts = canonical_hash id sample_context renumbered_payouts
   \<and> plan_of_rows sample_payouts = plan_of_rows renumbered_payouts
   \<and> canonical_hash checksum sample_context sample_payouts = canonical_hash checksum sample_context swapped_payouts
   \<and> plan_of_rows sample_payouts \<noteq> plan_of_rows swapped_payouts
   \<and> canonical_preimage sample_context sample_payouts \<noteq> canonical_preimage sample_context swapped_payouts"
proof (intro conjI)
  note typed = sample_payouts_typed
  show "sample_payouts \<noteq> renumbered_payouts"
    by (simp add: sample_payouts_defs)
  show same: "canonical_hash id sample_context sample_payouts = canonical_hash id sample_context renumbered_payouts"
    by (simp add: canonical_hash_def canonical_preimage_def sample_payouts_defs)
  show "plan_of_rows sample_payouts = plan_of_rows renumbered_payouts"
    using canonical_hash_binds_plan [OF typed(1,1,2,3) same] by simp
  show sum: "canonical_hash checksum sample_context sample_payouts = canonical_hash checksum sample_context swapped_payouts"
    by (simp add: canonical_hash_def canonical_preimage_def sample_payouts_defs hash_part_def checksum_def)
  show swapped: "plan_of_rows sample_payouts \<noteq> plan_of_rows swapped_payouts"
    by (simp add: sample_payouts_defs plan_of_rows_def)
  show "canonical_preimage sample_context sample_payouts \<noteq> canonical_preimage sample_context swapped_payouts"
    using canonical_hash_binds_plan [OF typed(1,1,2,4) sum] swapped by simp
qed

end
