(* ===== verification/Push_Planner.thy ===== *)
theory Push_Planner
  imports Push_Manifest
begin

text \<open>
  Fee-mode selection and packing of a manifest into transactions
  (\<^verbatim>\<open>src/rust/crates/core/src/client/push/planner.rs\<close>).

  PayKit, which builds and measures Solana transactions, is third-party: the functions and constants
  of it the planner uses are the fields of the argument \<open>kit\<close>; nothing is assumed of them.
  \<open>'i\<close> is PayKit's instruction type and \<open>'t\<close> its transaction type.

  The lemmas show that a plan is an in-order partition of the manifest into maximal chunks that were
  each built and measured, that the only packing errors are the documented ones, and the exact fee
  decision.
\<close>

section \<open>PayKit\<close>

record transfer_entry =
  te_recipient :: pubkey
  te_amount :: nat
  te_ata_creation_required :: bool
  te_memo :: "string option"

record ('i, 't) pay_kit =
  MAX_SPLITS :: nat
  SOLANA_MAX_COMPUTE_UNIT_LIMIT :: nat
  TOKEN_2022_PROGRAM :: pubkey
  validate_compute_budget :: "nat \<Rightarrow> nat \<Rightarrow> string + unit"
  unit_price_instruction :: "nat \<Rightarrow> 'i"
  unit_limit_instruction :: "nat \<Rightarrow> 'i"
  build_spl_transfer_batch_instructions ::
    "pubkey \<Rightarrow> pubkey \<Rightarrow> pubkey \<Rightarrow> nat \<Rightarrow> pubkey \<Rightarrow> transfer_entry list \<Rightarrow> string + 'i list"
  build_unsigned_unchecked :: "pubkey \<Rightarrow> 'i list \<Rightarrow> bytes \<Rightarrow> string + 't"
  build_unsigned :: "pubkey \<Rightarrow> 'i list \<Rightarrow> bytes \<Rightarrow> string + 't"
  static_account_keys :: "'t \<Rightarrow> pubkey list"
  check_transaction_size :: "'t \<Rightarrow> string + nat"

section \<open>Fee mode\<close>

definition MIN_FEE_RESERVE_LAMPORTS :: nat where
  "MIN_FEE_RESERVE_LAMPORTS = 10000"

definition MAX_STATIC_ACCOUNT_KEYS :: nat where
  "MAX_STATIC_ACCOUNT_KEYS = 64"

definition TOKEN_ACCOUNT_LEN :: nat where
  "TOKEN_ACCOUNT_LEN = 165"

definition TOKEN_2022_BASE_ATA_LEN :: nat where
  "TOKEN_2022_BASE_ATA_LEN = TOKEN_ACCOUNT_LEN + 1 + 4"

definition PACKING_COMPUTE_UNIT_CEILING :: nat where
  "PACKING_COMPUTE_UNIT_CEILING = 1200000"

datatype fee_payer_mode = SelfFunded | Gasless

datatype fee_mode_request = RequestAuto | RequestSelfFunded | RequestGasless

record self_funded_cost =
  estimated_fee_lamports :: nat
  missing_ata_rent_lamports :: nat
  reserve_lamports :: nat

datatype planner_error =
    CostOverflow
  | SelfFundedShort nat nat
  | GaslessUnavailable
  | AutoShort nat nat
  | ChunkIndexOverflow
  | SnapshotCount
  | SnapshotMismatch nat
  | RowDoesNotFit nat "planner_error option"
  | GaslessCap
  | KitError string
  | TooManyAccountKeys nat
  | EmptyChunk
  | ChunkTotalOverflow
  | PlanTotalOverflow

definition total_lamports :: "self_funded_cost \<Rightarrow> planner_error + nat" where
  "total_lamports cost =
     ok_or CostOverflow
       (Option.bind (checked_add 64 (estimated_fee_lamports cost) (missing_ata_rent_lamports cost))
          (\<lambda>s. checked_add 64 s (reserve_lamports cost)))"

definition compute_reserve_lamports :: "nat \<Rightarrow> nat" where
  "compute_reserve_lamports fee =
     (let five_percent = wrapping 64 (wrapping 128 (fee * 5) div 100) in
      max five_percent MIN_FEE_RESERVE_LAMPORTS)"

definition decide_fee_mode ::
  "fee_mode_request \<Rightarrow> nat \<Rightarrow> self_funded_cost \<Rightarrow> bool \<Rightarrow> planner_error + fee_payer_mode" where
  "decide_fee_mode requested sol_lamports cost gasless_available =
     and_then (total_lamports cost) (\<lambda>needed.
       let self_funded_covered = (needed \<le> sol_lamports) in
       case requested of
         RequestSelfFunded \<Rightarrow>
           (if self_funded_covered then Inr SelfFunded else Inl (SelfFundedShort needed sol_lamports))
       | RequestGasless \<Rightarrow>
           (if gasless_available then Inr Gasless else Inl GaslessUnavailable)
       | RequestAuto \<Rightarrow>
           (if self_funded_covered then Inr SelfFunded
            else if gasless_available then Inr Gasless
            else Inl (AutoShort needed sol_lamports)))"

section \<open>Rent\<close>

definition token_account_len :: "('i, 't) pay_kit \<Rightarrow> pubkey \<Rightarrow> nat" where
  "token_account_len kit prog =
     (if prog = TOKEN_2022_PROGRAM kit then TOKEN_2022_BASE_ATA_LEN else TOKEN_ACCOUNT_LEN)"

text \<open>
  \<open>n as f64\<close>: the nearest multiple of the unit in the last place of a 53-bit significand, ties to
  even. Doubling an f64 of this size is exact, and \<open>as u64\<close> saturates.
\<close>

fun bit_length :: "nat \<Rightarrow> nat" where
  "bit_length n = (if n = 0 then 0 else Suc (bit_length (n div 2)))"

declare bit_length.simps [simp del]

definition u64_as_f64 :: "nat \<Rightarrow> nat" where
  "u64_as_f64 n =
     (let ulp = 2 ^ (bit_length n - 53); q = n div ulp; r = n mod ulp in
      if 2 * r < ulp \<or> (2 * r = ulp \<and> even q) then q * ulp else (q + 1) * ulp)"

definition f64_as_u64 :: "nat \<Rightarrow> nat" where
  "f64_as_u64 x = min x (2 ^ 64 - 1)"

definition rent_exempt_minimum_lamports :: "nat \<Rightarrow> nat" where
  "rent_exempt_minimum_lamports data_len =
     (let overhead = 128; lamports_per_byte_year = 1000000000 div 100 * 365 div (1024 * 1024) in
      f64_as_u64 (u64_as_f64 (wrapping 64 (wrapping 64 (overhead + data_len) * lamports_per_byte_year)) * 2))"

section \<open>Chunks and plans\<close>

record destination_ata_status =
  dest_recipient :: pubkey
  dest_ata :: pubkey
  dest_exists :: bool

record ata_snapshot =
  sender_ata :: pubkey
  sender_ata_exists :: bool
  destinations :: "destination_ata_status list"

definition missing_count :: "ata_snapshot \<Rightarrow> nat" where
  "missing_count ata = length (filter (\<lambda>d. \<not> dest_exists d) (destinations ata))"

record planned_transfer_entry =
  entry_row_number :: nat
  entry_recipient :: pubkey
  entry_amount_raw :: nat
  ata_creation_required :: bool

record planned_chunk =
  chunk_index :: nat
  entries :: "planned_transfer_entry list"
  compute_unit_price_micro_lamports :: nat
  compute_unit_limit :: nat
  memo :: string
  serialized_len :: nat

definition row_numbers :: "planned_chunk \<Rightarrow> nat list" where
  "row_numbers chunk = map entry_row_number (entries chunk)"

definition token_total_raw :: "planned_chunk \<Rightarrow> planner_error + nat" where
  "token_total_raw chunk =
     ok_or ChunkTotalOverflow (checked_sum 64 0 (map entry_amount_raw (entries chunk)))"

record transaction_plan =
  plan_fee_payer_mode :: fee_payer_mode
  plan_fee_payer :: pubkey
  chunks :: "planned_chunk list"

definition total_transactions :: "transaction_plan \<Rightarrow> nat" where
  "total_transactions plan = length (chunks plan)"

definition total_token_raw :: "transaction_plan \<Rightarrow> planner_error + nat" where
  "total_token_raw plan =
     try_fold (\<lambda>acc chunk.
         and_then (token_total_raw chunk) (\<lambda>chunk_total.
         ok_or PlanTotalOverflow (checked_add 64 acc chunk_total)))
       0 (chunks plan)"

section \<open>Packing\<close>

definition estimate_compute_units :: "nat \<Rightarrow> nat \<Rightarrow> nat" where
  "estimate_compute_units transfer_count ata_create_count =
     (let units = wrapping 64 (500 + 500 + wrapping 64 (transfer_count * 10000)
            + wrapping 64 (ata_create_count * 25000)) in
      min units PACKING_COMPUTE_UNIT_CEILING)"

definition refine_compute_unit_limit :: "('i, 't) pay_kit \<Rightarrow> nat \<Rightarrow> nat" where
  "refine_compute_unit_limit kit units_consumed =
     (let scaled = div_ceil (saturating_mul 64 units_consumed 115) 100;
          with_margin = saturating_add 64 scaled 10000 in
      min with_margin (SOLANA_MAX_COMPUTE_UNIT_LIMIT kit))"

definition chunk_memo :: "string \<Rightarrow> nat \<Rightarrow> string" where
  "chunk_memo hash_prefix index = ''pay-push:v1:'' @ hash_prefix @ '':'' @ show_nat index"

definition with_last_memo :: "string \<Rightarrow> transfer_entry list \<Rightarrow> transfer_entry list" where
  "with_last_memo text kit_entries =
     map (\<lambda>(position, e).
         e\<lparr>te_memo := if position = length kit_entries - 1 then Some text else None\<rparr>)
       (enumerate 0 kit_entries)"

definition planned_entry :: "transfer_row \<Rightarrow> destination_ata_status \<Rightarrow> planned_transfer_entry" where
  "planned_entry row dest =
     \<lparr>entry_row_number = row_number row, entry_recipient = recipient row,
      entry_amount_raw = amount_raw row, ata_creation_required = \<not> dest_exists dest\<rparr>"

definition build_planned_chunk ::
  "('i, 't) pay_kit \<Rightarrow> transfer_manifest \<Rightarrow> ata_snapshot \<Rightarrow> fee_payer_mode \<Rightarrow> pubkey \<Rightarrow> pubkey
     \<Rightarrow> nat \<Rightarrow> string \<Rightarrow> nat list \<Rightarrow> nat \<Rightarrow> planner_error + planned_chunk" where
  "build_planned_chunk kit manifest ata mode sender payer price hash_prefix row_indices index =
     (if mode = Gasless \<and> MAX_SPLITS kit < length row_indices then Inl GaslessCap
      else
        let text = chunk_memo hash_prefix index;
            ata_create_count = length (filter (\<lambda>i. \<not> dest_exists (destinations ata ! i)) row_indices);
            kit_entries = with_last_memo text (map (\<lambda>i.
                \<lparr>te_recipient = recipient (manifest_rows manifest ! i),
                 te_amount = amount_raw (manifest_rows manifest ! i),
                 te_ata_creation_required = \<not> dest_exists (destinations ata ! i),
                 te_memo = None\<rparr>) row_indices);
            limit = estimate_compute_units (length kit_entries) ata_create_count in
        and_then (map_err KitError (validate_compute_budget kit price limit)) (\<lambda>_.
        let c = plan_context manifest in
        and_then (map_err KitError (build_spl_transfer_batch_instructions kit sender (mint c)
                    (token_program c) (decimals c) payer kit_entries)) (\<lambda>batch.
        let instructions = [unit_price_instruction kit price, unit_limit_instruction kit limit] @ batch
        in
        and_then (map_err KitError (build_unsigned_unchecked kit payer instructions (replicate 32 0)))
          (\<lambda>tx.
        let account_keys = length (static_account_keys kit tx) in
        if MAX_STATIC_ACCOUNT_KEYS < account_keys then Inl (TooManyAccountKeys account_keys)
        else
          and_then (map_err KitError (check_transaction_size kit tx)) (\<lambda>len.
          Inr \<lparr>chunk_index = index,
               entries = map (\<lambda>i. planned_entry (manifest_rows manifest ! i) (destinations ata ! i))
                 row_indices,
               compute_unit_price_micro_lamports = price,
               compute_unit_limit = limit, memo = text, serialized_len = len\<rparr>)))))"

definition next_index :: "nat \<Rightarrow> planned_chunk list \<Rightarrow> planner_error + nat" where
  "next_index first_chunk_index cs =
     ok_or ChunkIndexOverflow
       (Option.bind (try_from 32 (length cs)) (checked_add 32 first_chunk_index))"

text \<open>One turn of the packing loop: the closed chunks, the row indices of the open one, a row.\<close>

definition pack_step ::
  "('i, 't) pay_kit \<Rightarrow> (nat list \<Rightarrow> nat \<Rightarrow> planner_error + planned_chunk) \<Rightarrow> fee_payer_mode
     \<Rightarrow> (nat \<Rightarrow> nat) \<Rightarrow> nat \<Rightarrow> planned_chunk list \<times> nat list \<Rightarrow> nat
     \<Rightarrow> planner_error + (planned_chunk list \<times> nat list)" where
  "pack_step kit build mode csv_row first_chunk_index st row_index =
     (case st of (cs, pending) \<Rightarrow>
        let pending_rows = pending @ [row_index] in
        and_then (next_index first_chunk_index cs) (\<lambda>index.
        let gasless_cap_exceeded = (mode = Gasless \<and> MAX_SPLITS kit < length pending_rows);
            build_result = (if gasless_cap_exceeded then None else Some (build pending_rows index)) in
        case build_result of
          Some (Inr _) \<Rightarrow> Inr (cs, pending_rows)
        | _ \<Rightarrow>
            if length pending_rows = 1 then
              Inl (RowDoesNotFit (csv_row row_index)
                (case build_result of Some (Inl e) \<Rightarrow> Some e | _ \<Rightarrow> None))
            else
              and_then (build pending index) (\<lambda>finalized.
              and_then (next_index first_chunk_index (cs @ [finalized])) (\<lambda>next_chunk_index.
              case build [row_index] next_chunk_index of
                Inl e \<Rightarrow> Inl (RowDoesNotFit (csv_row row_index) (Some e))
              | Inr _ \<Rightarrow> Inr (cs @ [finalized], [row_index])))))"

definition pack_chunks_from ::
  "('i, 't) pay_kit \<Rightarrow> transfer_manifest \<Rightarrow> ata_snapshot \<Rightarrow> fee_payer_mode \<Rightarrow> pubkey \<Rightarrow> pubkey
     \<Rightarrow> nat \<Rightarrow> nat \<Rightarrow> planner_error + transaction_plan" where
  "pack_chunks_from kit manifest ata mode sender payer price first_chunk_index =
     (if length (manifest_rows manifest) \<noteq> length (destinations ata) then Inl SnapshotCount
      else
        and_then (try_fold (\<lambda>_ (row, dest).
              ensure (recipient row = dest_recipient dest) (SnapshotMismatch (row_number row)))
            () (zip (manifest_rows manifest) (destinations ata))) (\<lambda>_.
        let hash_prefix = manifest_hash_prefix (hash_hex manifest);
            build = build_planned_chunk kit manifest ata mode sender payer price hash_prefix;
            csv_row = (\<lambda>i. row_number (manifest_rows manifest ! i)) in
        and_then (try_fold (pack_step kit build mode csv_row first_chunk_index) ([], [])
                    [0..<length (manifest_rows manifest)])
          (\<lambda>(cs, pending_rows).
        if pending_rows \<noteq> [] then
          and_then (next_index first_chunk_index cs) (\<lambda>index.
          and_then (build pending_rows index) (\<lambda>chunk.
          Inr \<lparr>plan_fee_payer_mode = mode, plan_fee_payer = payer, chunks = cs @ [chunk]\<rparr>))
        else Inr \<lparr>plan_fee_payer_mode = mode, plan_fee_payer = payer, chunks = cs\<rparr>)))"

definition pack_chunks ::
  "('i, 't) pay_kit \<Rightarrow> transfer_manifest \<Rightarrow> ata_snapshot \<Rightarrow> fee_payer_mode \<Rightarrow> pubkey \<Rightarrow> pubkey
     \<Rightarrow> nat \<Rightarrow> planner_error + transaction_plan" where
  "pack_chunks kit manifest ata mode sender payer price =
     pack_chunks_from kit manifest ata mode sender payer price 0"

text \<open>The live transaction of a planned chunk.\<close>

definition build_chunk_transaction ::
  "('i, 't) pay_kit \<Rightarrow> planned_chunk \<Rightarrow> pubkey \<Rightarrow> pubkey \<Rightarrow> nat \<Rightarrow> pubkey \<Rightarrow> pubkey \<Rightarrow> bytes
     \<Rightarrow> planner_error + 't" where
  "build_chunk_transaction kit chunk mint_key program_key decs sender payer blockhash =
     and_then (ok_or EmptyChunk (checked_sub (length (entries chunk)) 1)) (\<lambda>last_index.
     let kit_entries = map (\<lambda>(position, entry).
           \<lparr>te_recipient = entry_recipient entry, te_amount = entry_amount_raw entry,
            te_ata_creation_required = ata_creation_required entry,
            te_memo = (if position = last_index then Some (memo chunk) else None)\<rparr>)
           (enumerate 0 (entries chunk)) in
     and_then (map_err KitError (build_spl_transfer_batch_instructions kit sender mint_key program_key
                 decs payer kit_entries)) (\<lambda>batch.
     let instructions =
           [unit_price_instruction kit (compute_unit_price_micro_lamports chunk),
            unit_limit_instruction kit (compute_unit_limit chunk)] @ batch in
     map_err KitError (build_unsigned kit payer instructions blockhash)))"

section \<open>The packing loop\<close>

text \<open>
  Whether rows can form one chunk, and what greedy packing is: consecutive groups of rows that each
  fit, where none could have taken the first row of the next.
\<close>

definition chunk_fits ::
  "('i, 't) pay_kit \<Rightarrow> fee_payer_mode \<Rightarrow> (nat list \<Rightarrow> nat \<Rightarrow> planner_error + planned_chunk)
     \<Rightarrow> nat list \<Rightarrow> nat \<Rightarrow> bool" where
  "chunk_fits kit mode build rows index \<longleftrightarrow>
     \<not> (mode = Gasless \<and> MAX_SPLITS kit < length rows) \<and> is_ok (build rows index)"

fun greedy_groups :: "(nat list \<Rightarrow> nat \<Rightarrow> bool) \<Rightarrow> nat \<Rightarrow> nat list list \<Rightarrow> bool" where
  "greedy_groups fits first [] = True"
| "greedy_groups fits first [g] = (g \<noteq> [] \<and> fits g first)"
| "greedy_groups fits first (g # h # gs) =
     (g \<noteq> [] \<and> fits g first \<and> \<not> fits (g @ [hd h]) first \<and> greedy_groups fits (Suc first) (h # gs))"

fun built_groups ::
  "(nat list \<Rightarrow> nat \<Rightarrow> planner_error + planned_chunk) \<Rightarrow> nat \<Rightarrow> nat list list \<Rightarrow> planned_chunk list \<Rightarrow> bool"
where
  "built_groups build first [] cs = (cs = [])"
| "built_groups build first (g # gs) cs =
     (case cs of [] \<Rightarrow> False
      | ch # cs' \<Rightarrow> build g first = Inr ch \<and> built_groups build (Suc first) gs cs')"

lemma greedy_groups_extend:
  "greedy_groups fits first (gs @ [p]) \<Longrightarrow> fits (p @ [r]) (first + length gs)
     \<Longrightarrow> greedy_groups fits first (gs @ [p @ [r]])"
proof (induction gs arbitrary: first)
  case Nil
  then show ?case by simp
next
  case (Cons g gs)
  then show ?case
    using Cons.IH [of "Suc first"] by (cases gs) (auto simp: hd_append)
qed

lemma greedy_groups_close:
  "greedy_groups fits first (gs @ [p]) \<Longrightarrow> \<not> fits (p @ [r]) (first + length gs)
     \<Longrightarrow> fits [r] (first + length gs + 1) \<Longrightarrow> greedy_groups fits first (gs @ [p, [r]])"
proof (induction gs arbitrary: first)
  case Nil
  then show ?case by simp
next
  case (Cons g gs)
  then show ?case
    using Cons.IH [of "Suc first"] by (cases gs) auto
qed

lemma greedy_groups_last:
  "greedy_groups fits first (gs @ [p]) \<Longrightarrow> p \<noteq> [] \<and> fits p (first + length gs)"
proof (induction gs arbitrary: first)
  case Nil
  then show ?case by simp
next
  case (Cons g gs)
  then show ?case
    using Cons.IH [of "Suc first"] by (cases gs) auto
qed

lemma greedy_groups_nonempty: "greedy_groups fits first gs \<Longrightarrow> g \<in> set gs \<Longrightarrow> g \<noteq> []"
  by (induction fits first gs rule: greedy_groups.induct) auto

lemma built_groups_length: "built_groups build first gs cs \<Longrightarrow> length cs = length gs"
  by (induction gs arbitrary: first cs) (auto split: list.splits)

lemma built_groups_snoc:
  "built_groups build first gs cs \<Longrightarrow> build g (first + length gs) = Inr ch
     \<Longrightarrow> built_groups build first (gs @ [g]) (cs @ [ch])"
  by (induction gs arbitrary: first cs) (auto split: list.splits)

lemma built_groups_nth:
  "built_groups build first gs cs \<Longrightarrow> i < length gs \<Longrightarrow> build (gs ! i) (first + i) = Inr (cs ! i)"
proof (induction gs arbitrary: first cs i)
  case Nil
  then show ?case by simp
next
  case (Cons g gs)
  then show ?case by (cases i; cases cs) (force+)
qed

lemma next_index_Inr:
  "next_index first cs = Inr i \<longleftrightarrow> length cs < 2 ^ 32 \<and> first + length cs < 2 ^ 32 \<and> i = first + length cs"
  by (auto simp: next_index_def res_simps bind_eq_Some_conv arith_checked)

lemma next_index_Inl:
  "next_index first cs = Inl e \<longleftrightarrow> 2 ^ 32 \<le> first + length cs \<and> e = ChunkIndexOverflow"
  by (auto simp: next_index_def res_simps bind_eq_None_conv arith_checked try_from_def)

text \<open>The state of the loop after the first \<open>n\<close> rows.\<close>

definition pack_inv ::
  "('i, 't) pay_kit \<Rightarrow> fee_payer_mode \<Rightarrow> (nat list \<Rightarrow> nat \<Rightarrow> planner_error + planned_chunk) \<Rightarrow> nat
     \<Rightarrow> nat \<Rightarrow> planned_chunk list \<times> nat list \<Rightarrow> bool" where
  "pack_inv kit mode build first n st \<longleftrightarrow>
     (case st of (cs, pending) \<Rightarrow>
        \<exists>gs. concat gs @ pending = [0..<n] \<and> built_groups build first gs cs
          \<and> (if n = 0 then gs = [] \<and> pending = []
             else first + length gs < 2 ^ 32
               \<and> greedy_groups (chunk_fits kit mode build) first (gs @ [pending])))"

lemma pack_step_fits:
  assumes "next_index first cs = Inr i" and "chunk_fits kit mode build (pending @ [r]) i"
  shows "pack_step kit build mode row first (cs, pending) r = Inr (cs, pending @ [r])"
  using assms by (auto simp: pack_step_def chunk_fits_def is_ok_iff Let_def)

lemma pack_step_closes:
  assumes "next_index first cs = Inr i" and "\<not> chunk_fits kit mode build (pending @ [r]) i"
    and "pending \<noteq> []"
  shows "pack_step kit build mode row first (cs, pending) r =
    and_then (build pending i) (\<lambda>finalized.
    and_then (next_index first (cs @ [finalized])) (\<lambda>j.
      case build [r] j of
        Inl e \<Rightarrow> Inl (RowDoesNotFit (row r) (Some e))
      | Inr _ \<Rightarrow> Inr (cs @ [finalized], [r])))"
  using assms
  by (cases "build (pending @ [r]) i") (auto simp: pack_step_def chunk_fits_def Let_def)

lemma pack_step_alone:
  assumes "next_index first cs = Inr i" and "\<not> chunk_fits kit mode build [r] i"
  shows "\<exists>x. pack_step kit build mode row first (cs, []) r = Inl (RowDoesNotFit (row r) x)"
  using assms
  by (cases "build [r] i") (auto simp: pack_step_def chunk_fits_def Let_def)

text \<open>
  What one turn does from a state of the loop: it reaches the next state, or it stops because the
  chunk index leaves u32, or because the row does not fit on its own.
\<close>

definition pack_outcome ::
  "('i, 't) pay_kit \<Rightarrow> fee_payer_mode \<Rightarrow> (nat list \<Rightarrow> nat \<Rightarrow> planner_error + planned_chunk)
     \<Rightarrow> (nat \<Rightarrow> nat) \<Rightarrow> nat \<Rightarrow> nat \<Rightarrow> planner_error + (planned_chunk list \<times> nat list) \<Rightarrow> bool" where
  "pack_outcome kit mode build row first n result \<longleftrightarrow>
     (\<exists>st. result = Inr st \<and> pack_inv kit mode build first (Suc n) st)
     \<or> (result = Inl ChunkIndexOverflow \<and> 2 ^ 32 \<le> first + n)
     \<or> (\<exists>x i. result = Inl (RowDoesNotFit (row n) x) \<and> i < 2 ^ 32
           \<and> \<not> chunk_fits kit mode build [n] i)"

lemma pack_step_first:
  "pack_outcome kit mode build row first 0 (pack_step kit build mode row first ([], []) 0)"
proof (cases "first < 2 ^ 32")
  case False
  then have "next_index first [] = Inl ChunkIndexOverflow"
    by (simp add: next_index_Inl)
  then show ?thesis
    using False by (simp add: pack_outcome_def pack_step_def Let_def)
next
  case True
  then have index: "next_index first [] = Inr first"
    by (simp add: next_index_Inr)
  show ?thesis
  proof (cases "chunk_fits kit mode build [0] first")
    case fits: True
    then have "pack_inv kit mode build first (Suc 0) ([], [0])"
      using True by (auto simp: pack_inv_def intro!: exI [of _ "[]"])
    then show ?thesis
      using pack_step_fits [OF index, of kit mode build "[]" 0 row] fits by (simp add: pack_outcome_def)
  next
    case fits: False
    then show ?thesis
      using pack_step_alone [OF index fits, of row] True by (auto simp: pack_outcome_def)
  qed
qed

lemma groups_shorter:
  assumes "\<And>g. g \<in> set gs \<Longrightarrow> g \<noteq> []"
  shows "length gs \<le> length (concat gs)"
  using assms
proof (induction gs)
  case (Cons g gs)
  then have "length gs \<le> length (concat gs)" and "g \<noteq> []"
    by simp_all
  then show ?case by (cases g) simp_all
qed simp

lemma pack_step_full:
  assumes rows: "concat gs @ pending = [0..<n]" and built: "built_groups build first gs cs"
    and range: "first + length gs < 2 ^ 32"
    and greedy: "greedy_groups (chunk_fits kit mode build) first (gs @ [pending])"
    and full: "\<not> chunk_fits kit mode build (pending @ [n]) (first + length gs)"
  shows "pack_outcome kit mode build row first n (pack_step kit build mode row first (cs, pending) n)"
proof -
  note len = built_groups_length [OF built]
  have pending: "pending \<noteq> []" "chunk_fits kit mode build pending (first + length gs)"
    using greedy_groups_last [OF greedy] by simp_all
  from pending(2) obtain ch where ch: "build pending (first + length gs) = Inr ch"
    by (auto simp: chunk_fits_def is_ok_iff)
  have index: "next_index first cs = Inr (first + length gs)"
    using range len by (simp add: next_index_Inr)
  note step = pack_step_closes [OF index full pending(1), of row, unfolded ch and_then_simps]
  have "length gs \<le> length (concat gs)"
    using greedy_groups_nonempty [OF greedy] by (intro groups_shorter) simp
  moreover have "length (concat gs) + length pending = n"
    using arg_cong [OF rows, of length] by simp
  ultimately have groups: "length gs + 1 \<le> n"
    using pending(1) by (cases pending) auto
  show ?thesis
  proof (cases "first + length gs + 1 < 2 ^ 32")
    case False
    then have "next_index first (cs @ [ch]) = Inl ChunkIndexOverflow"
      using len by (simp add: next_index_Inl)
    then show ?thesis
      using step groups False by (simp add: pack_outcome_def)
  next
    case True
    then have index': "next_index first (cs @ [ch]) = Inr (first + length gs + 1)"
      using len by (simp add: next_index_Inr)
    show ?thesis
    proof (cases "build [n] (first + length gs + 1)")
      case (Inl e)
      then have "\<not> chunk_fits kit mode build [n] (first + length gs + 1)"
        by (simp add: chunk_fits_def)
      then show ?thesis
        using step index' Inl True
        by (simp add: pack_outcome_def) (rule exI [of _ "Suc (first + length gs)"], simp)
    next
      case (Inr c')
      then have "chunk_fits kit mode build [n] (first + length gs + 1)"
        using pending by (cases pending) (auto simp: chunk_fits_def)
      then have "pack_inv kit mode build first (Suc n) (cs @ [ch], [n])"
        using rows True built_groups_snoc [OF built ch] greedy_groups_close [OF greedy full]
        by (auto simp: pack_inv_def intro!: exI [of _ "gs @ [pending]"])
      then show ?thesis
        using step index' Inr by (simp add: pack_outcome_def)
    qed
  qed
qed

lemma pack_step_outcome:
  assumes "pack_inv kit mode build first n st"
  shows "pack_outcome kit mode build row first n (pack_step kit build mode row first st n)"
proof -
  obtain cs pending where st: "st = (cs, pending)"
    by (cases st)
  from assms obtain gs where rows: "concat gs @ pending = [0..<n]"
    and built: "built_groups build first gs cs"
    and open_chunk: "if n = 0 then gs = [] \<and> pending = [] else first + length gs < 2 ^ 32
        \<and> greedy_groups (chunk_fits kit mode build) first (gs @ [pending])"
    by (auto simp: pack_inv_def st)
  show ?thesis
  proof (cases "n = 0")
    case True
    then show ?thesis
      using pack_step_first open_chunk built by (simp add: st)
  next
    case False
    then have range: "first + length gs < 2 ^ 32"
      and greedy: "greedy_groups (chunk_fits kit mode build) first (gs @ [pending])"
      using open_chunk by simp_all
    have index: "next_index first cs = Inr (first + length gs)"
      using range built_groups_length [OF built] by (simp add: next_index_Inr)
    show ?thesis
    proof (cases "chunk_fits kit mode build (pending @ [n]) (first + length gs)")
      case True
      then have "pack_inv kit mode build first (Suc n) (cs, pending @ [n])"
        using rows built range greedy_groups_extend [OF greedy True]
        by (auto simp: pack_inv_def intro!: exI [of _ gs])
      then show ?thesis
        using pack_step_fits [OF index True, of row] by (simp add: pack_outcome_def st)
    next
      case False
      then show ?thesis
        unfolding st by (rule pack_step_full [OF rows built range greedy])
    qed
  qed
qed

lemma pack_loop_outcome:
  "(\<exists>st. try_fold (pack_step kit build mode row first) ([], []) [0..<n] = Inr st
      \<and> pack_inv kit mode build first n st)
   \<or> (\<exists>k<n. \<exists>e. try_fold (pack_step kit build mode row first) ([], []) [0..<n] = Inl e
        \<and> pack_outcome kit mode build row first k (Inl e))"
proof (induction n)
  case 0
  then show ?case by (simp add: pack_inv_def)
next
  case (Suc n)
  then consider
    (ok) st where "try_fold (pack_step kit build mode row first) ([], []) [0..<n] = Inr st"
      "pack_inv kit mode build first n st"
    | (err) k e where "k < n" "try_fold (pack_step kit build mode row first) ([], []) [0..<n] = Inl e"
      "pack_outcome kit mode build row first k (Inl e)"
    by blast
  then show ?case
  proof cases
    case ok
    have fold: "try_fold (pack_step kit build mode row first) ([], []) [0..<Suc n]
      = pack_step kit build mode row first st n"
      using ok(1) by (cases "pack_step kit build mode row first st n") (simp_all add: try_fold_append)
    have "pack_outcome kit mode build row first n (pack_step kit build mode row first st n)"
      by (rule pack_step_outcome [OF ok(2)])
    then show ?thesis
      unfolding fold
      by (cases "pack_step kit build mode row first st n") (auto simp: pack_outcome_def)
  next
    case err
    then have "try_fold (pack_step kit build mode row first) ([], []) [0..<Suc n] = Inl e"
      by (simp add: try_fold_append)
    then show ?thesis
      using err less_SucI by blast
  qed
qed

section \<open>Plans\<close>

text \<open>
  What the packing loop needs of the function that builds a chunk: the chunk carries the index it
  was built for and one entry per row.
\<close>

locale chunk_builder =
  fixes build :: "nat list \<Rightarrow> nat \<Rightarrow> planner_error + planned_chunk"
    and entry_of :: "nat \<Rightarrow> planned_transfer_entry"
  assumes build_index: "build rows i = Inr ch \<Longrightarrow> chunk_index ch = i"
    and build_entries: "build rows i = Inr ch \<Longrightarrow> entries ch = map entry_of rows"
begin

lemma built_entries:
  "built_groups build first gs cs \<Longrightarrow> map entries cs = map (map entry_of) gs"
  by (induction gs arbitrary: first cs) (auto simp: build_entries split: list.splits)

lemma built_indices:
  "built_groups build first gs cs \<Longrightarrow> map chunk_index cs = [first..<first + length gs]"
proof (induction gs arbitrary: first cs)
  case (Cons g gs)
  then obtain ch cs' where cs: "cs = ch # cs'" "build g first = Inr ch"
      "built_groups build (Suc first) gs cs'"
    by (cases cs) auto
  then show ?case
    using Cons.IH [OF cs(3)] build_index [OF cs(2)] by (simp add: upt_conv_Cons del: upt_Suc)
qed simp

end

lemma build_planned_chunk_Inr:
  assumes "build_planned_chunk kit m ata mode sender payer price hp rows i = Inr ch"
  shows "chunk_index ch = i
    \<and> entries ch = map (\<lambda>i. planned_entry (manifest_rows m ! i) (destinations ata ! i)) rows
    \<and> memo ch = chunk_memo hp i \<and> compute_unit_price_micro_lamports ch = price
    \<and> compute_unit_limit ch \<le> PACKING_COMPUTE_UNIT_CEILING
    \<and> (mode = Gasless \<longrightarrow> length rows \<le> MAX_SPLITS kit)"
  using assms
  by (auto simp: build_planned_chunk_def res_simps Let_def estimate_compute_units_def
      split: if_splits)

interpretation planner: chunk_builder
  "build_planned_chunk kit m ata mode sender payer price hp"
  "\<lambda>i. planned_entry (manifest_rows m ! i) (destinations ata ! i)"
  for kit m ata mode sender payer price hp
  by unfold_locales (simp_all add: build_planned_chunk_Inr)

text \<open>The check that the snapshot describes the manifest's recipients.\<close>

definition snapshot_matches :: "transfer_manifest \<Rightarrow> ata_snapshot \<Rightarrow> bool" where
  "snapshot_matches m ata \<longleftrightarrow>
     map recipient (manifest_rows m) = map dest_recipient (destinations ata)"

lemma snapshot_loop:
  "length rs = length ds \<Longrightarrow>
   (case try_fold (\<lambda>_ (row, dest). ensure (recipient row = dest_recipient dest)
        (SnapshotMismatch (row_number row))) () (zip rs ds) of
      Inr _ \<Rightarrow> map recipient rs = map dest_recipient ds
    | Inl e \<Rightarrow> \<exists>i<length rs. e = SnapshotMismatch (row_number (rs ! i))
        \<and> recipient (rs ! i) \<noteq> dest_recipient (ds ! i))"
proof (induction rs ds rule: list_induct2)
  case (Cons r rs d ds)
  then show ?case
    by (cases "recipient r = dest_recipient d") (auto split: sum.splits)
qed simp

text \<open>The last chunk is closed after the loop; from a state of the loop this cannot fail.\<close>

definition finish_plan ::
  "(nat list \<Rightarrow> nat \<Rightarrow> planner_error + planned_chunk) \<Rightarrow> fee_payer_mode \<Rightarrow> pubkey \<Rightarrow> nat
     \<Rightarrow> planned_chunk list \<times> nat list \<Rightarrow> planner_error + transaction_plan" where
  "finish_plan build mode payer first = (\<lambda>(cs, pending_rows).
     if pending_rows \<noteq> [] then
       and_then (next_index first cs) (\<lambda>index.
       and_then (build pending_rows index) (\<lambda>chunk.
       Inr \<lparr>plan_fee_payer_mode = mode, plan_fee_payer = payer, chunks = cs @ [chunk]\<rparr>))
     else Inr \<lparr>plan_fee_payer_mode = mode, plan_fee_payer = payer, chunks = cs\<rparr>)"

text \<open>What a plan for \<open>n\<close> rows is, in terms of the groups of rows its chunks hold.\<close>

definition greedy_plan ::
  "('i, 't) pay_kit \<Rightarrow> (nat list \<Rightarrow> nat \<Rightarrow> planner_error + planned_chunk) \<Rightarrow> pubkey \<Rightarrow> fee_payer_mode
     \<Rightarrow> nat \<Rightarrow> nat \<Rightarrow> nat list list \<Rightarrow> transaction_plan \<Rightarrow> bool" where
  "greedy_plan kit build payer mode first n gs plan \<longleftrightarrow>
     concat gs = [0..<n] \<and> greedy_groups (chunk_fits kit mode build) first gs
     \<and> built_groups build first gs (chunks plan)
     \<and> (0 < n \<longrightarrow> first + length gs \<le> 2 ^ 32)
     \<and> plan_fee_payer_mode plan = mode \<and> plan_fee_payer plan = payer"

lemma finish_plan_ok:
  assumes "pack_inv kit mode build first n st"
  shows "\<exists>plan gs. finish_plan build mode payer first st = Inr plan
    \<and> greedy_plan kit build payer mode first n gs plan"
proof -
  obtain cs pending gs where st: "st = (cs, pending)" and rows: "concat gs @ pending = [0..<n]"
    and built: "built_groups build first gs cs"
    and open_chunk: "if n = 0 then gs = [] \<and> pending = [] else first + length gs < 2 ^ 32
        \<and> greedy_groups (chunk_fits kit mode build) first (gs @ [pending])"
    using assms by (cases st) (auto simp: pack_inv_def)
  show ?thesis
  proof (cases "n = 0")
    case True
    then show ?thesis
      using st built open_chunk
      by (auto simp: finish_plan_def greedy_plan_def intro!: exI [of _ "[]"])
  next
    case False
    then have range: "first + length gs < 2 ^ 32"
      and greedy: "greedy_groups (chunk_fits kit mode build) first (gs @ [pending])"
      using open_chunk by simp_all
    from greedy_groups_last [OF greedy] obtain ch where "pending \<noteq> []"
      and ch: "build pending (first + length gs) = Inr ch"
      by (auto simp: chunk_fits_def is_ok_iff)
    moreover have "next_index first cs = Inr (first + length gs)"
      using range built_groups_length [OF built] by (simp add: next_index_Inr)
    ultimately have "finish_plan build mode payer first st
      = Inr \<lparr>plan_fee_payer_mode = mode, plan_fee_payer = payer, chunks = cs @ [ch]\<rparr>"
      by (simp add: finish_plan_def st)
    moreover have "greedy_plan kit build payer mode first n (gs @ [pending])
        \<lparr>plan_fee_payer_mode = mode, plan_fee_payer = payer, chunks = cs @ [ch]\<rparr>"
      using rows greedy built_groups_snoc [OF built ch] range by (simp add: greedy_plan_def)
    ultimately show ?thesis by blast
  qed
qed

definition planner_build ::
  "('i, 't) pay_kit \<Rightarrow> transfer_manifest \<Rightarrow> ata_snapshot \<Rightarrow> fee_payer_mode \<Rightarrow> pubkey \<Rightarrow> pubkey \<Rightarrow> nat
     \<Rightarrow> nat list \<Rightarrow> nat \<Rightarrow> planner_error + planned_chunk" where
  "planner_build kit m ata mode sender payer price =
     build_planned_chunk kit m ata mode sender payer price (manifest_hash_prefix (hash_hex m))"

text \<open>The documented reasons for which packing may fail, each with the fact that justifies it.\<close>

definition pack_error_justified ::
  "('i, 't) pay_kit \<Rightarrow> (nat list \<Rightarrow> nat \<Rightarrow> planner_error + planned_chunk) \<Rightarrow> transfer_manifest
     \<Rightarrow> ata_snapshot \<Rightarrow> fee_payer_mode \<Rightarrow> nat \<Rightarrow> planner_error \<Rightarrow> bool" where
  "pack_error_justified kit build m ata mode first e \<longleftrightarrow>
     ((e = SnapshotCount \<or> (\<exists>i<length (manifest_rows m). e = SnapshotMismatch (row_number (manifest_rows m ! i))))
        \<and> \<not> snapshot_matches m ata)
     \<or> (e = ChunkIndexOverflow \<and> 2 ^ 32 < first + length (manifest_rows m))
     \<or> (\<exists>k<length (manifest_rows m). \<exists>x i. i < 2 ^ 32
          \<and> e = RowDoesNotFit (row_number (manifest_rows m ! k)) x
          \<and> \<not> chunk_fits kit mode build [k] i)"

lemma snapshot_mismatch:
  assumes "map recipient rs = map dest_recipient ds" and "i < length rs"
  shows "recipient (rs ! i) = dest_recipient (ds ! i)"
  using assms by (metis length_map nth_map)

lemma pack_chunks_from_outcome:
  "case pack_chunks_from kit m ata mode sender payer price first of
     Inr plan \<Rightarrow> snapshot_matches m ata
       \<and> (\<exists>gs. greedy_plan kit (planner_build kit m ata mode sender payer price) payer mode first
             (length (manifest_rows m)) gs plan)
   | Inl e \<Rightarrow> pack_error_justified kit (planner_build kit m ata mode sender payer price) m ata mode first e"
proof (cases "length (manifest_rows m) = length (destinations ata)")
  case False
  then have "\<not> snapshot_matches m ata"
    by (metis length_map snapshot_matches_def)
  then show ?thesis
    using False by (simp add: pack_chunks_from_def pack_error_justified_def)
next
  case len: True
  let ?build = "planner_build kit m ata mode sender payer price"
  let ?row = "\<lambda>i. row_number (manifest_rows m ! i)"
  let ?check = "try_fold (\<lambda>_ (row, dest). ensure (recipient row = dest_recipient dest)
     (SnapshotMismatch (row_number row))) () (zip (manifest_rows m) (destinations ata))"
  let ?loop = "try_fold (pack_step kit ?build mode ?row first) ([], []) [0..<length (manifest_rows m)]"
  have unfolded: "pack_chunks_from kit m ata mode sender payer price first
    = and_then ?check (\<lambda>_. and_then ?loop (finish_plan ?build mode payer first))"
    using len by (simp only: pack_chunks_from_def finish_plan_def planner_build_def Let_def simp_thms if_False)
  note check = snapshot_loop [OF len]
  show ?thesis
  proof (cases ?check)
    case (Inl e)
    then show ?thesis
      using check snapshot_mismatch [of "manifest_rows m" "destinations ata"]
      by (auto simp: unfolded pack_error_justified_def snapshot_matches_def)
  next
    case checked: (Inr u)
    then have matches: "snapshot_matches m ata"
      using check by (simp add: snapshot_matches_def)
    consider (ok) st where "?loop = Inr st"
        "pack_inv kit mode ?build first (length (manifest_rows m)) st"
      | (err) k e where "k < length (manifest_rows m)" "?loop = Inl e"
        "pack_outcome kit mode ?build ?row first k (Inl e)"
      using pack_loop_outcome [of kit ?build mode ?row first "length (manifest_rows m)"] by blast
    then show ?thesis
    proof cases
      case ok
      then show ?thesis
        using finish_plan_ok [OF ok(2), of payer] checked matches by (auto simp: unfolded)
    next
      case err
      have "pack_error_justified kit ?build m ata mode first e"
        using err(1,3) by (auto simp: pack_outcome_def pack_error_justified_def)
      then show ?thesis
        using checked err(2) by (simp add: unfolded)
    qed
  qed
qed

lemma map2_nth: "length xs = length ys \<Longrightarrow> map (\<lambda>i. f (xs ! i) (ys ! i)) [0..<length xs] = map2 f xs ys"
  by (rule nth_equalityI) simp_all

lemma pack_chunks_from_Inr:
  assumes "pack_chunks_from kit m ata mode sender payer price first = Inr plan"
  obtains gs where "snapshot_matches m ata"
    "greedy_plan kit (planner_build kit m ata mode sender payer price) payer mode first
       (length (manifest_rows m)) gs plan"
  using pack_chunks_from_outcome [of kit m ata mode sender payer price first] assms by auto

lemma plan_entries:
  assumes "pack_chunks_from kit m ata mode sender payer price first = Inr plan"
  shows "concat (map entries (chunks plan)) = map2 planned_entry (manifest_rows m) (destinations ata)"
proof -
  from assms obtain gs where matches: "snapshot_matches m ata"
    and plan: "greedy_plan kit (planner_build kit m ata mode sender payer price) payer mode first
       (length (manifest_rows m)) gs plan"
    by (rule pack_chunks_from_Inr)
  have "map entries (chunks plan)
    = map (map (\<lambda>i. planned_entry (manifest_rows m ! i) (destinations ata ! i))) gs"
    using plan planner.built_entries unfolding greedy_plan_def planner_build_def by blast
  then have "concat (map entries (chunks plan))
    = map (\<lambda>i. planned_entry (manifest_rows m ! i) (destinations ata ! i)) (concat gs)"
    by (simp add: map_concat)
  also have "\<dots> = map2 planned_entry (manifest_rows m) (destinations ata)"
    using plan matches map2_nth [of "manifest_rows m" "destinations ata" planned_entry]
    by (simp add: greedy_plan_def snapshot_matches_def) (metis length_map)
  finally show ?thesis .
qed

lemma plan_indices:
  assumes "pack_chunks_from kit m ata mode sender payer price first = Inr plan"
  shows "map chunk_index (chunks plan) = [first..<first + length (chunks plan)]"
proof -
  from assms obtain gs where
    "greedy_plan kit (planner_build kit m ata mode sender payer price) payer mode first
       (length (manifest_rows m)) gs plan"
    by (rule pack_chunks_from_Inr)
  then show ?thesis
    using planner.built_indices built_groups_length
    unfolding greedy_plan_def planner_build_def by metis
qed

lemma plan_chunk_built:
  assumes "pack_chunks_from kit m ata mode sender payer price first = Inr plan"
    and "ch \<in> set (chunks plan)"
  obtains g where "g \<noteq> []"
    "planner_build kit m ata mode sender payer price g (chunk_index ch) = Inr ch"
proof -
  from assms(1) obtain gs where
    plan: "greedy_plan kit (planner_build kit m ata mode sender payer price) payer mode first
       (length (manifest_rows m)) gs plan"
    by (rule pack_chunks_from_Inr)
  then have built: "built_groups (planner_build kit m ata mode sender payer price) first gs (chunks plan)"
    and len: "length (chunks plan) = length gs"
    by (auto simp: greedy_plan_def dest: built_groups_length)
  from assms(2) obtain i where i: "i < length gs" "ch = chunks plan ! i"
    by (metis in_set_conv_nth len)
  have b: "planner_build kit m ata mode sender payer price (gs ! i) (first + i) = Inr ch"
    using built_groups_nth [OF built i(1)] i(2) by simp
  moreover have "chunk_index ch = first + i"
    using b build_planned_chunk_Inr unfolding planner_build_def by blast
  moreover have "gs ! i \<noteq> []"
    using plan i(1) greedy_groups_nonempty unfolding greedy_plan_def by (metis nth_mem)
  ultimately show thesis
    using that by metis
qed

lemma token_total_raw_Inr:
  "token_total_raw ch = Inr t \<longleftrightarrow>
     t = sum_list (map entry_amount_raw (entries ch)) \<and> sum_list (map entry_amount_raw (entries ch)) < 2 ^ 64"
  by (simp add: token_total_raw_def res_simps checked_sum_zero_Some)

lemma total_token_loop:
  assumes "acc + sum_list (map entry_amount_raw (concat (map entries cs))) < 2 ^ 64"
  shows "try_fold (\<lambda>acc chunk. and_then (token_total_raw chunk) (\<lambda>chunk_total.
         ok_or PlanTotalOverflow (checked_add 64 acc chunk_total))) acc cs
    = Inr (acc + sum_list (map entry_amount_raw (concat (map entries cs))))"
  using assms
proof (induction cs arbitrary: acc)
  case (Cons ch cs)
  then have "token_total_raw ch = Inr (sum_list (map entry_amount_raw (entries ch)))"
    by (simp add: token_total_raw_Inr)
  moreover have "checked_add 64 acc (sum_list (map entry_amount_raw (entries ch)))
    = Some (acc + sum_list (map entry_amount_raw (entries ch)))"
    using Cons.prems by (simp add: checked_add_Some)
  ultimately show ?case
    using Cons.IH [of "acc + sum_list (map entry_amount_raw (entries ch))"] Cons.prems
    by (simp add: add.assoc)
qed simp

lemma map2_amounts:
  "length rs = length ds \<Longrightarrow> map entry_amount_raw (map2 planned_entry rs ds) = map amount_raw rs"
  by (induction rs ds rule: list_induct2) (simp_all add: planned_entry_def)

text \<open>A manifest whose rows can be told apart and whose total is theirs: parsed, or left by a resume.\<close>

definition payable :: "transfer_manifest \<Rightarrow> bool" where
  "payable m \<longleftrightarrow> distinct (map row_number (manifest_rows m))
     \<and> total_amount_raw m = sum_list (map amount_raw (manifest_rows m)) \<and> total_amount_raw m < 2 ^ 64"

lemma manifest_wf_payable: "manifest_wf m \<Longrightarrow> payable m"
  by (simp add: manifest_wf_def payable_def)

lemma plan_total:
  assumes "pack_chunks_from kit m ata mode sender payer price first = Inr plan" and "payable m"
  shows "total_token_raw plan = Inr (total_amount_raw m)"
proof -
  from assms(1) have "snapshot_matches m ata"
    by (rule pack_chunks_from_Inr)
  then have "length (manifest_rows m) = length (destinations ata)"
    by (metis length_map snapshot_matches_def)
  then have "sum_list (map entry_amount_raw (concat (map entries (chunks plan)))) = total_amount_raw m"
    using assms(2) by (simp add: plan_entries [OF assms(1)] map2_amounts payable_def del: map_map)
  then show ?thesis
    using total_token_loop [of 0 "chunks plan"] assms(2)
    by (simp add: total_token_raw_def payable_def)
qed

section \<open>Rent and compute units\<close>

lemma bit_length_le: "n < 2 ^ k \<Longrightarrow> bit_length n \<le> k"
proof (induction k arbitrary: n)
  case 0
  then show ?case by (simp add: bit_length.simps)
next
  case (Suc k)
  then have "n div 2 < 2 ^ k"
    by (simp add: less_mult_imp_div_less mult.commute)
  then show ?case
    using Suc.IH [of "n div 2"] by (simp add: bit_length.simps [of n])
qed

lemma u64_as_f64_exact: "n < 2 ^ 53 \<Longrightarrow> u64_as_f64 n = n"
  using bit_length_le [of n 53] by (simp add: u64_as_f64_def)

lemma refine_exact:
  assumes "SOLANA_MAX_COMPUTE_UNIT_LIMIT kit < 2 ^ 32"
  shows "refine_compute_unit_limit kit units
    = min (div_ceil (units * 115) 100 + 10000) (SOLANA_MAX_COMPUTE_UNIT_LIMIT kit)"
proof (cases "units * 115 < 2 ^ 64")
  case True
  have "div_ceil (units * 115) 100 < 2 ^ 62"
    using True by (simp add: div_ceil_eq)
  then show ?thesis
    using True by (simp add: refine_compute_unit_limit_def saturating_mul_def saturating_add_def)
next
  case False
  have big: "2 ^ 57 \<le> div_ceil n 100" if "2 ^ 64 - 1 \<le> n" for n :: nat
    using that by (simp add: div_ceil_eq)
  have "saturating_mul 64 units 115 = 2 ^ 64 - 1"
    using False by (simp add: saturating_mul_def)
  then show ?thesis
    using big [of "2 ^ 64 - 1"] big [of "units * 115"] False assms
    by (simp add: refine_compute_unit_limit_def saturating_add_def min_def Let_def)
qed

section \<open>A concrete kit\<close>

text \<open>
  A small stand-in for PayKit on which plans can be computed: instructions are numbers, a
  transaction is its instruction list, and at most four instructions fit.
\<close>

definition sample_kit :: "(nat, nat list) pay_kit" where
  "sample_kit = \<lparr>MAX_SPLITS = 8, SOLANA_MAX_COMPUTE_UNIT_LIMIT = 1400000,
     TOKEN_2022_PROGRAM = replicate 32 2,
     validate_compute_budget = (\<lambda>_ _. Inr ()),
     unit_price_instruction = (\<lambda>price. price), unit_limit_instruction = (\<lambda>limit. limit),
     build_spl_transfer_batch_instructions = (\<lambda>_ _ _ _ _ es. Inr (map te_amount es)),
     build_unsigned_unchecked = (\<lambda>_ is _. Inr is), build_unsigned = (\<lambda>_ is _. Inr is),
     static_account_keys = (\<lambda>_. []),
     check_transaction_size = (\<lambda>tx. if 4 < length tx then Inl ''too large'' else Inr (length tx))\<rparr>"

definition sample_manifest :: transfer_manifest where
  "sample_manifest = \<lparr>plan_context = sample_context,
     manifest_rows = number_rows [([1], 5), ([2], 6), ([3], 7)],
     total_amount_raw = 18, manifest_hash = [171, 205, 1, 2, 3]\<rparr>"

definition sample_ata :: ata_snapshot where
  "sample_ata = \<lparr>sender_ata = [9], sender_ata_exists = True,
     destinations = [\<lparr>dest_recipient = [1], dest_ata = [11], dest_exists = True\<rparr>,
       \<lparr>dest_recipient = [2], dest_ata = [12], dest_exists = False\<rparr>,
       \<lparr>dest_recipient = [3], dest_ata = [13], dest_exists = True\<rparr>]\<rparr>"

definition sample_plan :: transaction_plan where
  "sample_plan = \<lparr>plan_fee_payer_mode = SelfFunded, plan_fee_payer = [8],
     chunks =
       [\<lparr>chunk_index = 3,
         entries =
           [\<lparr>entry_row_number = 2, entry_recipient = [1], entry_amount_raw = 5,
             ata_creation_required = False\<rparr>,
            \<lparr>entry_row_number = 3, entry_recipient = [2], entry_amount_raw = 6,
             ata_creation_required = True\<rparr>],
         compute_unit_price_micro_lamports = 100, compute_unit_limit = 46000,
         memo = ''pay-push:v1:abcd0102:3'', serialized_len = 4\<rparr>,
        \<lparr>chunk_index = 4,
         entries =
           [\<lparr>entry_row_number = 4, entry_recipient = [3], entry_amount_raw = 7,
             ata_creation_required = False\<rparr>],
         compute_unit_price_micro_lamports = 100, compute_unit_limit = 11000,
         memo = ''pay-push:v1:abcd0102:4'', serialized_len = 3\<rparr>]\<rparr>"

lemma sample_prefix: "manifest_hash_prefix (hash_hex sample_manifest) = ''abcd0102''"
  by (simp add: manifest_hash_prefix_def hash_hex_def sample_manifest_def byte_hex_def hex_digit_def
      MANIFEST_HASH_PREFIX_LEN_def) code_simp

lemma sample_manifest_wf: "manifest_wf sample_manifest"
  by (simp add: manifest_wf_def sample_manifest_def number_rows_def MAX_TRANSFER_ROWS_def upt_rec)

lemma sample_pack:
  "pack_chunks_from sample_kit sample_manifest sample_ata SelfFunded [9] [8] 100 3 = Inr sample_plan"
proof -
  have rows: "manifest_rows sample_manifest
    = [\<lparr>row_number = 2, recipient = [1], amount_raw = 5\<rparr>,
       \<lparr>row_number = 3, recipient = [2], amount_raw = 6\<rparr>,
       \<lparr>row_number = 4, recipient = [3], amount_raw = 7\<rparr>]"
    by (simp add: sample_manifest_def number_rows_def)
  have dests: "destinations sample_ata =
      [\<lparr>dest_recipient = [1], dest_ata = [11], dest_exists = True\<rparr>,
       \<lparr>dest_recipient = [2], dest_ata = [12], dest_exists = False\<rparr>,
       \<lparr>dest_recipient = [3], dest_ata = [13], dest_exists = True\<rparr>]"
    by (simp add: sample_ata_def)
  have memo: "chunk_memo ''abcd0102'' 3 = ''pay-push:v1:abcd0102:3''"
    "chunk_memo ''abcd0102'' 4 = ''pay-push:v1:abcd0102:4''"
    by (simp_all add: chunk_memo_def show_nat.simps digit_char_def) code_simp+
  let ?build = "build_planned_chunk sample_kit sample_manifest sample_ata SelfFunded [9] [8] 100 ''abcd0102''"
  note evaluate = build_planned_chunk_def rows dests memo sample_kit_def with_last_memo_def
    estimate_compute_units_def PACKING_COMPUTE_UNIT_CEILING_def MAX_STATIC_ACCOUNT_KEYS_def
    wrapping_def planned_entry_def Let_def
  have one: "is_ok (?build [0] 3)"
    by (simp add: evaluate)
  have two: "?build [0, Suc 0] 3 = Inr (chunks sample_plan ! 0)"
    by (simp add: evaluate sample_plan_def)
  have three: "?build [0, Suc 0, Suc (Suc 0)] 3 = Inl (KitError ''too large'')"
    by (simp add: evaluate)
  have rest: "?build [Suc (Suc 0)] 4 = Inr (chunks sample_plan ! 1)"
    by (simp add: evaluate sample_plan_def)
  have index: "next_index 3 [] = Inr 3" "next_index 3 [c] = Inr 4" for c
    by (simp_all add: next_index_Inr)
  have cap: "MAX_SPLITS sample_kit = 8"
    by (simp add: sample_kit_def)
  have plan: "sample_plan = \<lparr>plan_fee_payer_mode = SelfFunded, plan_fee_payer = [8],
      chunks = [chunks sample_plan ! 0, chunks sample_plan ! 1]\<rparr>"
    by (simp add: sample_plan_def)
  from one obtain c where one': "?build [0] 3 = Inr c"
    by (auto simp: is_ok_iff)
  show ?thesis
    by (subst plan) (simp add: pack_chunks_from_def sample_prefix rows dests Let_def pack_step_def
        index one' two three rest cap del: nth_Cons_0 nth_Cons_numeral
        cong: and_then_weak_cong)
qed

section \<open>Properties\<close>

text \<open>
  C24: a plan is a faithful partition. When packing succeeds, the entries of the chunks, read in
  order, are exactly the manifest rows with their recipients and amounts, each marked for account
  creation exactly when the snapshot lacks the account; chunk indices are consecutive from the first
  one; every chunk is non-empty, carries the memo of its index and the requested price, and a
  gasless chunk respects the split cap.
\<close>
theorem pack_chunks_partition:
  assumes "pack_chunks_from kit m ata mode sender payer price first = Inr plan"
  shows "concat (map entries (chunks plan)) = map2 planned_entry (manifest_rows m) (destinations ata)
    \<and> map chunk_index (chunks plan) = [first..<first + length (chunks plan)]
    \<and> list_all (\<lambda>ch. entries ch \<noteq> []
         \<and> memo ch = chunk_memo (manifest_hash_prefix (hash_hex m)) (chunk_index ch)
         \<and> compute_unit_price_micro_lamports ch = price
         \<and> compute_unit_limit ch \<le> PACKING_COMPUTE_UNIT_CEILING
         \<and> (mode = Gasless \<longrightarrow> length (entries ch) \<le> MAX_SPLITS kit)) (chunks plan)"
  unfolding list_all_iff
proof (intro conjI plan_entries [OF assms] plan_indices [OF assms] ballI)
  fix ch
  assume "ch \<in> set (chunks plan)"
  with assms obtain g where "g \<noteq> []"
      "planner_build kit m ata mode sender payer price g (chunk_index ch) = Inr ch"
    by (rule plan_chunk_built)
  then show "entries ch \<noteq> []" "memo ch = chunk_memo (manifest_hash_prefix (hash_hex m)) (chunk_index ch)"
    "compute_unit_price_micro_lamports ch = price"
    "compute_unit_limit ch \<le> PACKING_COMPUTE_UNIT_CEILING"
    "mode = Gasless \<longrightarrow> length (entries ch) \<le> MAX_SPLITS kit"
    using build_planned_chunk_Inr unfolding planner_build_def by fastforce+
qed

theorem pack_chunks_partition_witness:
  "pack_chunks_from sample_kit sample_manifest sample_ata SelfFunded [9] [8] 100 3 = Inr sample_plan
    \<and> concat (map entries (chunks sample_plan))
      = map2 planned_entry (manifest_rows sample_manifest) (destinations sample_ata)"
  using pack_chunks_partition [OF sample_pack] sample_pack by blast

text \<open>
  packing is greedy and fails only for a documented reason. A successful plan cuts the rows into
  consecutive groups that each fit, none of which could have taken the next row as well; a failure
  means that the account snapshot does not match the manifest, that the chunk index would leave u32,
  or that some row does not fit in a transaction on its own. In particular rebuilding a group that
  fitted, when its chunk is closed, never fails.
\<close>
theorem pack_chunks_greedy_or_justified:
  "case pack_chunks_from kit m ata mode sender payer price first of
     Inr plan \<Rightarrow> snapshot_matches m ata
       \<and> (\<exists>gs. greedy_plan kit (planner_build kit m ata mode sender payer price) payer mode first
             (length (manifest_rows m)) gs plan)
   | Inl e \<Rightarrow> pack_error_justified kit (planner_build kit m ata mode sender payer price) m ata mode first e"
  by (rule pack_chunks_from_outcome)

text \<open>
  the plan moves exactly the manifest's total, and summing it up chunk by chunk never overflows.
\<close>
theorem plan_total_is_manifest_total:
  assumes "manifest_wf m" and "pack_chunks_from kit m ata mode sender payer price first = Inr plan"
  shows "total_token_raw plan = Inr (total_amount_raw m)"
  using plan_total [OF assms(2) manifest_wf_payable [OF assms(1)]] .

theorem plan_total_is_manifest_total_witness:
  "total_token_raw sample_plan = Inr (total_amount_raw sample_manifest)"
  by (rule plan_total_is_manifest_total [OF sample_manifest_wf sample_pack])

text \<open>
  The fee decision. Self-funded is chosen exactly when the exact cost (fee, rent and reserve)
  fits u64, is covered by the SOL balance, and gasless was not forced; gasless exactly when it is
  available and was forced, or was left to \<open>auto\<close> and the balance falls short.
\<close>
lemma decide_fee_mode_exact:
  "(decide_fee_mode requested sol cost available = Inr SelfFunded \<longleftrightarrow>
      estimated_fee_lamports cost + missing_ata_rent_lamports cost + reserve_lamports cost < 2 ^ 64
      \<and> estimated_fee_lamports cost + missing_ata_rent_lamports cost + reserve_lamports cost \<le> sol
      \<and> requested \<noteq> RequestGasless)
   \<and> (decide_fee_mode requested sol cost available = Inr Gasless \<longleftrightarrow>
      estimated_fee_lamports cost + missing_ata_rent_lamports cost + reserve_lamports cost < 2 ^ 64
      \<and> available
      \<and> (requested = RequestGasless \<or> requested = RequestAuto
         \<and> sol < estimated_fee_lamports cost + missing_ata_rent_lamports cost + reserve_lamports cost))"
proof -
  define needed where
    "needed = estimated_fee_lamports cost + missing_ata_rent_lamports cost + reserve_lamports cost"
  have "total_lamports cost = (if needed < 2 ^ 64 then Inr needed else Inl CostOverflow)"
    by (auto simp: total_lamports_def checked_add_def needed_def)
  then show ?thesis
    unfolding needed_def [symmetric]
    by (cases requested) (auto simp: decide_fee_mode_def Let_def)
qed

text \<open>
  The refined compute-unit limit is exactly 115 percent of the measured units, rounded up, plus
  10000, capped at the protocol's limit: the saturating u64 steps in between never show, whatever
  the simulation reports.
\<close>
lemma refine_compute_unit_limit_exact:
  assumes "SOLANA_MAX_COMPUTE_UNIT_LIMIT kit < 2 ^ 32"
  shows "refine_compute_unit_limit kit units
    = min (div_ceil (units * 115) 100 + 10000) (SOLANA_MAX_COMPUTE_UNIT_LIMIT kit)"
  using assms by (rule refine_exact)

lemma refine_compute_unit_limit_exact_witness:
  "refine_compute_unit_limit sample_kit 100001 = min (div_ceil (100001 * 115) 100 + 10000) 1400000"
  using refine_compute_unit_limit_exact [of sample_kit 100001] by (simp add: sample_kit_def)

text \<open>
  The rent formula, although computed through f64, is the exact integer \<open>6960 * (128 + n)\<close>
  for every account size below 2 to the 40.
\<close>
lemma rent_exempt_exact:
  assumes "n < 2 ^ 40"
  shows "rent_exempt_minimum_lamports n = 6960 * (128 + n)"
proof -
  have "u64_as_f64 (3480 * (128 + n)) = 3480 * (128 + n)"
    using assms by (intro u64_as_f64_exact) simp
  then show ?thesis
    using assms by (simp add: rent_exempt_minimum_lamports_def wrapping_def f64_as_u64_def Let_def
        mult.commute)
qed

lemma rent_exempt_exact_witness: "rent_exempt_minimum_lamports 165 = 2039280"
  using rent_exempt_exact [of 165] by simp

end
