(* ===== verification/Push_Permit.thy ===== *)
theory Push_Permit
  imports Push_Planner "HOL-Library.Multiset"
begin

text \<open>
  The one-approval signing permit of \<open>pay push\<close>
  (\<^verbatim>\<open>src/rust/crates/core/src/client/push/permit.rs\<close>).

  A \<open>chain_env\<close> carries the third-party constants and functions the permit relies on: the program
  ids of PayKit and Solana's program-address derivation. The signer is an argument of every signing
  call, since each call to it may succeed or fail; so is the wall clock. Operations return the
  permit they leave behind together with their result, because a failing call may have reserved
  its amount already.

  The lemmas show exactly which transactions the permit signs (the planned instruction list and
  nothing else), that a plan is accepted exactly when it is the approved manifest, and that no
  sequence of calls, failing or not, lets the permit sign beyond the approved amount, transaction
  count or number of attempts.
\<close>

section \<open>Transactions\<close>

record compiled_instruction =
  program_id_index :: byte
  accounts :: bytes
  data :: bytes

record versioned_transaction =
  signatures :: "bytes list"
  account_keys :: "pubkey list"
  recent_blockhash :: bytes
  instructions :: "compiled_instruction list"

record chain_env =
  compute_budget_program_id :: pubkey
  associated_token_program_id :: pubkey
  token_program_id :: pubkey
  token_2022_program_id :: pubkey
  memo_program_id :: pubkey
  system_program_id :: pubkey
  find_program_address :: "bytes list \<Rightarrow> pubkey \<Rightarrow> pubkey"

definition derive_associated_token_address :: "chain_env \<Rightarrow> pubkey \<Rightarrow> pubkey \<Rightarrow> pubkey \<Rightarrow> pubkey" where
  "derive_associated_token_address env owner mint_key program_key =
     find_program_address env [owner, program_key, mint_key] (associated_token_program_id env)"

definition ATA_CREATE_IDEMPOTENT_DISCRIMINATOR :: byte where
  "ATA_CREATE_IDEMPOTENT_DISCRIMINATOR = 1"

definition COMPUTE_UNIT_LIMIT_DISCRIMINATOR :: byte where
  "COMPUTE_UNIT_LIMIT_DISCRIMINATOR = 2"

definition COMPUTE_UNIT_PRICE_DISCRIMINATOR :: byte where
  "COMPUTE_UNIT_PRICE_DISCRIMINATOR = 3"

definition TRANSFER_CHECKED_DISCRIMINATOR :: byte where
  "TRANSFER_CHECKED_DISCRIMINATOR = 12"

section \<open>State\<close>

definition MAX_RESIGN_ATTEMPTS_PER_CHUNK :: nat where
  "MAX_RESIGN_ATTEMPTS_PER_CHUNK = 5"

datatype permit_detail =
    NoAccounts
  | WrongFeePayer pubkey
  | ProgramIndexOutOfRange
  | DisallowedProgram pubkey
  | PriceTooHigh nat
  | LimitTooHigh nat
  | TrailingInstructions nat
  | MissingInstruction
  | AccountIndexOutOfRange
  | ExpectedPrice
  | MalformedPrice
  | ExpectedLimit
  | MalformedLimit
  | ExpectedAtaCreate
  | AtaCreateNotIdempotent
  | MalformedAtaCreate
  | AtaCreatePayer
  | AtaCreateAddress
  | AtaCreateOwner
  | AtaCreateMint
  | AtaCreateSystemProgram
  | AtaCreateTokenProgram
  | ExpectedTransfer
  | MalformedTransfer
  | ExpectedTransferChecked
  | TransferSource
  | TransferMint
  | TransferDestination
  | TransferAuthority
  | TransferAmount nat nat
  | TransferDecimals
  | ExpectedMemo
  | MemoMismatch
  | MemoNotUtf8

text \<open>\<open>Panic\<close> stands for the one index expression on the signing path that could be out of range.\<close>

datatype permit_error =
    Rejected nat permit_detail
  | PlanRowMismatch nat
  | PlanRowUnknown nat
  | PlanRowsMissing nat
  | SignerUnavailable string
  | NoSuchChunk nat
  | PermitExpired
  | AlreadySigned nat
  | ChunkTotal planner_error
  | SignedAmountOverflow
  | AmountCeiling nat
  | CountCeiling nat
  | NoPriorSignature nat
  | ProofMismatch nat
  | NotProvenExpired nat
  | AttemptLimit nat
  | StaleBlockhash nat
  | SignFailed string
  | SignerNotInTransaction
  | SerializeFailed string
  | Panic

definition config_error :: "nat \<Rightarrow> permit_detail \<Rightarrow> permit_error" where
  "config_error index detail = Rejected index detail"

record signed_chunk_record =
  rec_blockhash :: bytes
  rec_last_valid_block_height :: nat
  attempts :: nat

record blockhash_expiry_proof =
  previous_blockhash :: bytes
  previous_last_valid_block_height :: nat
  confirmed_current_block_height :: nat

record signed_chunk =
  sc_chunk_index :: nat
  sc_row_numbers :: "nat list"
  sc_signature :: bytes
  signed_transaction_base64 :: string
  sc_blockhash :: bytes
  sc_last_valid_block_height :: nat

record batch_signing_permit =
  pm_manifest_hash :: bytes
  account_pubkey :: pubkey
  pm_network_genesis_hash :: bytes
  pm_mint :: pubkey
  pm_token_program :: pubkey
  pm_decimals :: nat
  source_ata :: pubkey
  pm_fee_payer_mode :: fee_payer_mode
  pm_fee_payer :: pubkey
  pm_chunks :: "planned_chunk list"
  max_token_raw :: nat
  max_transactions :: nat
  expires_at :: int
  signed_amount_raw :: nat
  signed_tx_count :: nat
  signed_chunks :: "nat \<rightharpoonup> signed_chunk_record"

text \<open>
  What PayKit does with the loaded signer: fill the signer's signature slot of a transaction, and
  encode a transaction.
\<close>

record signer =
  sign_slot :: "versioned_transaction \<Rightarrow> string + versioned_transaction"
  encode_tx :: "versioned_transaction \<Rightarrow> string + string"

section \<open>Authorization\<close>

definition expected_rows :: "transfer_row list \<Rightarrow> (nat \<times> pubkey \<times> nat) list" where
  "expected_rows rs =
     foldl (\<lambda>m row. AList.update (row_number row) (recipient row, amount_raw row) m) [] rs"

definition match_entry ::
  "(nat \<times> pubkey \<times> nat) list \<Rightarrow> planned_transfer_entry
     \<Rightarrow> permit_error + (nat \<times> pubkey \<times> nat) list" where
  "match_entry expected entry =
     (case map_of expected (entry_row_number entry) of
        Some (pk, amount) \<Rightarrow>
          if pk = entry_recipient entry \<and> amount = entry_amount_raw entry
          then Inr (AList.delete (entry_row_number entry) expected)
          else Inl (PlanRowMismatch (entry_row_number entry))
      | None \<Rightarrow> Inl (PlanRowUnknown (entry_row_number entry)))"

definition validate_plan_matches_manifest ::
  "transfer_manifest \<Rightarrow> transaction_plan \<Rightarrow> permit_error + unit" where
  "validate_plan_matches_manifest manifest plan =
     and_then (try_fold (\<lambda>expected chunk. try_fold match_entry expected (entries chunk))
                 (expected_rows (manifest_rows manifest)) (chunks plan))
       (\<lambda>expected. ensure (expected = []) (PlanRowsMissing (length expected)))"

record batch_authorization_summary =
  sum_account :: string
  sum_currency :: string
  sum_currency_decimals :: nat
  sum_network :: string
  recipient_total_raw :: nat
  max_total_raw :: nat

text \<open>The arguments of \<open>AuthIntent::authorize_batch\<close>: what the approval prompt shows.\<close>

record batch_prompt =
  prompt_account :: string
  prompt_recipient_count :: nat
  prompt_recipient_total :: string
  prompt_max_total :: string
  prompt_max_total_usd :: string
  prompt_currency :: string
  prompt_network :: string
  prompt_hash_prefix :: string

definition authorization_intent ::
  "batch_authorization_summary \<Rightarrow> nat \<Rightarrow> string \<Rightarrow> batch_prompt option" where
  "authorization_intent summary recipient_count hash_prefix =
     Option.bind (format_token_amount (recipient_total_raw summary) (sum_currency_decimals summary))
       (\<lambda>recipient_total_display.
     Option.bind (format_token_amount (max_total_raw summary) (sum_currency_decimals summary))
       (\<lambda>max_total_display.
     let max_total_usd = ''$'' @ max_total_display in
     Some \<lparr>prompt_account = sum_account summary, prompt_recipient_count = recipient_count,
           prompt_recipient_total = recipient_total_display, prompt_max_total = max_total_display,
           prompt_max_total_usd = max_total_usd, prompt_currency = sum_currency summary,
           prompt_network = sum_network summary, prompt_hash_prefix = hash_prefix\<rparr>))"

definition authorize ::
  "chain_env \<Rightarrow> (batch_prompt \<Rightarrow> permit_error + pubkey) \<Rightarrow> bytes \<Rightarrow> transfer_manifest \<Rightarrow> transaction_plan
     \<Rightarrow> batch_authorization_summary \<Rightarrow> int \<Rightarrow> int \<Rightarrow> permit_error + batch_signing_permit" where
  "authorize env load_signer genesis_hash manifest plan summary now ttl =
     and_then (validate_plan_matches_manifest manifest plan) (\<lambda>_.
     let hash_prefix = manifest_hash_prefix (hash_hex manifest);
         recipient_count = length (manifest_rows manifest) in
     and_then (ok_or Panic (authorization_intent summary recipient_count hash_prefix)) (\<lambda>intent.
     and_then (load_signer intent) (\<lambda>pk.
     let c = plan_context manifest in
     Inr \<lparr>pm_manifest_hash = manifest_hash manifest, account_pubkey = pk,
          pm_network_genesis_hash = genesis_hash, pm_mint = mint c, pm_token_program = token_program c,
          pm_decimals = decimals c,
          source_ata = derive_associated_token_address env pk (mint c) (token_program c),
          pm_fee_payer_mode = plan_fee_payer_mode plan, pm_fee_payer = plan_fee_payer plan,
          pm_chunks = chunks plan, max_token_raw = max_total_raw summary,
          max_transactions = length (chunks plan), expires_at = now + ttl,
          signed_amount_raw = 0, signed_tx_count = 0, signed_chunks = Map.empty\<rparr>)))"

section \<open>Validation of a prepared transaction\<close>

definition nth_opt :: "'a list \<Rightarrow> nat \<Rightarrow> 'a option" where
  "nth_opt xs i = (if i < length xs then Some (xs ! i) else None)"

definition instruction_at ::
  "versioned_transaction \<Rightarrow> nat \<Rightarrow> nat \<Rightarrow> permit_error + compiled_instruction" where
  "instruction_at message cursor index =
     ok_or (config_error index MissingInstruction) (nth_opt (instructions message) cursor)"

definition account_at :: "versioned_transaction \<Rightarrow> byte \<Rightarrow> nat \<Rightarrow> permit_error + pubkey" where
  "account_at message i index =
     ok_or (config_error index AccountIndexOutOfRange) (nth_opt (account_keys message) (unat i))"

definition decode_compute_unit_price ::
  "chain_env \<Rightarrow> versioned_transaction \<Rightarrow> compiled_instruction \<Rightarrow> nat \<Rightarrow> permit_error + nat" where
  "decode_compute_unit_price env message ix index =
     and_then (account_at message (program_id_index ix) index) (\<lambda>program_id.
     if program_id \<noteq> compute_budget_program_id env then Inl (config_error index ExpectedPrice)
     else if nth_opt (data ix) 0 \<noteq> Some COMPUTE_UNIT_PRICE_DISCRIMINATOR \<or> length (data ix) \<noteq> 9
     then Inl (config_error index MalformedPrice)
     else Inr (from_le_bytes (take 8 (drop 1 (data ix)))))"

definition decode_compute_unit_limit ::
  "chain_env \<Rightarrow> versioned_transaction \<Rightarrow> compiled_instruction \<Rightarrow> nat \<Rightarrow> permit_error + nat" where
  "decode_compute_unit_limit env message ix index =
     and_then (account_at message (program_id_index ix) index) (\<lambda>program_id.
     if program_id \<noteq> compute_budget_program_id env then Inl (config_error index ExpectedLimit)
     else if nth_opt (data ix) 0 \<noteq> Some COMPUTE_UNIT_LIMIT_DISCRIMINATOR \<or> length (data ix) \<noteq> 5
     then Inl (config_error index MalformedLimit)
     else Inr (from_le_bytes (take 4 (drop 1 (data ix)))))"

definition validate_ata_create ::
  "chain_env \<Rightarrow> versioned_transaction \<Rightarrow> compiled_instruction \<Rightarrow> pubkey \<Rightarrow> pubkey \<Rightarrow> pubkey \<Rightarrow> pubkey
     \<Rightarrow> pubkey \<Rightarrow> nat \<Rightarrow> permit_error + unit" where
  "validate_ata_create env message ix payer_key owner expected_ata mint_key program_key index =
     and_then (account_at message (program_id_index ix) index) (\<lambda>program_id.
     if program_id \<noteq> associated_token_program_id env then Inl (config_error index ExpectedAtaCreate)
     else if data ix \<noteq> [ATA_CREATE_IDEMPOTENT_DISCRIMINATOR]
     then Inl (config_error index AtaCreateNotIdempotent)
     else if length (accounts ix) \<noteq> 6 then Inl (config_error index MalformedAtaCreate)
     else
       and_then (account_at message (accounts ix ! 0) index) (\<lambda>payer.
       and_then (account_at message (accounts ix ! 1) index) (\<lambda>ata.
       and_then (account_at message (accounts ix ! 2) index) (\<lambda>owner_account.
       and_then (account_at message (accounts ix ! 3) index) (\<lambda>mint_account.
       and_then (account_at message (accounts ix ! 4) index) (\<lambda>system_program.
       and_then (account_at message (accounts ix ! 5) index) (\<lambda>token_program_account.
       if payer \<noteq> payer_key then Inl (config_error index AtaCreatePayer)
       else if ata \<noteq> expected_ata then Inl (config_error index AtaCreateAddress)
       else if owner_account \<noteq> owner then Inl (config_error index AtaCreateOwner)
       else if mint_account \<noteq> mint_key then Inl (config_error index AtaCreateMint)
       else if system_program \<noteq> system_program_id env
       then Inl (config_error index AtaCreateSystemProgram)
       else if token_program_account \<noteq> program_key
       then Inl (config_error index AtaCreateTokenProgram)
       else Inr ())))))))"

definition validate_transfer_checked ::
  "chain_env \<Rightarrow> versioned_transaction \<Rightarrow> compiled_instruction \<Rightarrow> pubkey \<Rightarrow> pubkey \<Rightarrow> pubkey \<Rightarrow> pubkey
     \<Rightarrow> nat \<Rightarrow> nat \<Rightarrow> nat \<Rightarrow> permit_error + unit" where
  "validate_transfer_checked env message ix source mint_key destination authority amount decs index =
     and_then (account_at message (program_id_index ix) index) (\<lambda>program_id.
     let is_token = (program_id = token_program_id env);
         is_token_2022 = (program_id = token_2022_program_id env) in
     if \<not> is_token \<and> \<not> is_token_2022 then Inl (config_error index ExpectedTransfer)
     else if length (accounts ix) \<noteq> 4 then Inl (config_error index MalformedTransfer)
     else if length (data ix) \<noteq> 10 \<or> data ix ! 0 \<noteq> TRANSFER_CHECKED_DISCRIMINATOR
     then Inl (config_error index ExpectedTransferChecked)
     else
       let ix_amount = from_le_bytes (take 8 (drop 1 (data ix)));
           ix_decimals = data ix ! 9 in
       and_then (account_at message (accounts ix ! 0) index) (\<lambda>source_account.
       and_then (account_at message (accounts ix ! 1) index) (\<lambda>mint_account.
       and_then (account_at message (accounts ix ! 2) index) (\<lambda>destination_account.
       and_then (account_at message (accounts ix ! 3) index) (\<lambda>authority_account.
       if source_account \<noteq> source then Inl (config_error index TransferSource)
       else if mint_account \<noteq> mint_key then Inl (config_error index TransferMint)
       else if destination_account \<noteq> destination then Inl (config_error index TransferDestination)
       else if authority_account \<noteq> authority then Inl (config_error index TransferAuthority)
       else if ix_amount \<noteq> amount then Inl (config_error index (TransferAmount ix_amount amount))
       else if unat ix_decimals \<noteq> decs then Inl (config_error index TransferDecimals)
       else Inr ())))))"

text \<open>\<open>str::from_utf8\<close>: the well-formed UTF-8 byte sequences.\<close>

definition in_range :: "nat \<Rightarrow> nat \<Rightarrow> byte \<Rightarrow> bool" where
  "in_range lo hi b \<longleftrightarrow> lo \<le> unat b \<and> unat b \<le> hi"

fun utf8_valid :: "bytes \<Rightarrow> bool" where
  "utf8_valid [] = True"
| "utf8_valid (b # bs) =
     (if unat b < 128 then utf8_valid bs
      else if in_range 194 223 b then
        (case bs of c # r \<Rightarrow> in_range 128 191 c \<and> utf8_valid r | _ \<Rightarrow> False)
      else if in_range 224 239 b then
        (case bs of
           c # d # r \<Rightarrow>
             in_range (if unat b = 224 then 160 else 128) (if unat b = 237 then 159 else 191) c
             \<and> in_range 128 191 d \<and> utf8_valid r
         | _ \<Rightarrow> False)
      else if in_range 240 244 b then
        (case bs of
           c # d # e # r \<Rightarrow>
             in_range (if unat b = 240 then 144 else 128) (if unat b = 244 then 143 else 191) c
             \<and> in_range 128 191 d \<and> in_range 128 191 e \<and> utf8_valid r
         | _ \<Rightarrow> False)
      else False)"

declare utf8_valid.simps(2) [simp del]

definition validate_memo ::
  "chain_env \<Rightarrow> versioned_transaction \<Rightarrow> compiled_instruction \<Rightarrow> string \<Rightarrow> nat \<Rightarrow> permit_error + unit" where
  "validate_memo env message ix expected_memo index =
     and_then (account_at message (program_id_index ix) index) (\<lambda>program_id.
     if program_id \<noteq> memo_program_id env then Inl (config_error index ExpectedMemo)
     else if \<not> utf8_valid (data ix) then Inl (config_error index MemoNotUtf8)
     else if data ix = bytes_of_string expected_memo then Inr ()
     else Inl (config_error index MemoMismatch))"

definition allowed_programs :: "chain_env \<Rightarrow> pubkey list" where
  "allowed_programs env =
     [compute_budget_program_id env, associated_token_program_id env, token_program_id env,
      token_2022_program_id env, memo_program_id env]"

definition check_program ::
  "chain_env \<Rightarrow> versioned_transaction \<Rightarrow> nat \<Rightarrow> unit \<Rightarrow> compiled_instruction \<Rightarrow> permit_error + unit" where
  "check_program env message index u ix =
     and_then (ok_or (config_error index ProgramIndexOutOfRange)
                 (nth_opt (account_keys message) (unat (program_id_index ix)))) (\<lambda>program_id.
     ensure (program_id \<in> set (allowed_programs env))
       (config_error index (DisallowedProgram program_id)))"

definition check_entry ::
  "chain_env \<Rightarrow> batch_signing_permit \<Rightarrow> versioned_transaction \<Rightarrow> nat \<Rightarrow> nat \<Rightarrow> planned_transfer_entry
     \<Rightarrow> permit_error + nat" where
  "check_entry env p message index cursor entry =
     (let expected_dest_ata =
            derive_associated_token_address env (entry_recipient entry) (pm_mint p) (pm_token_program p)
      in
      and_then
        (if ata_creation_required entry then
           and_then (instruction_at message cursor index) (\<lambda>ix.
           and_then (validate_ata_create env message ix (pm_fee_payer p) (entry_recipient entry)
                       expected_dest_ata (pm_mint p) (pm_token_program p) index) (\<lambda>_.
           Inr (cursor + 1)))
         else Inr cursor) (\<lambda>cursor.
      and_then (instruction_at message cursor index) (\<lambda>ix.
      and_then (validate_transfer_checked env message ix (source_ata p) (pm_mint p) expected_dest_ata
                  (account_pubkey p) (entry_amount_raw entry) (pm_decimals p) index) (\<lambda>_.
      Inr (cursor + 1)))))"

definition validate_prepared_transaction ::
  "chain_env \<Rightarrow> batch_signing_permit \<Rightarrow> planned_chunk \<Rightarrow> versioned_transaction \<Rightarrow> permit_error + unit" where
  "validate_prepared_transaction env p plan tx =
     (let index = chunk_index plan in
      and_then (ok_or (config_error index NoAccounts) (nth_opt (account_keys tx) 0))
        (\<lambda>actual_fee_payer.
      if actual_fee_payer \<noteq> pm_fee_payer p
      then Inl (config_error index (WrongFeePayer actual_fee_payer))
      else
        and_then (try_fold (check_program env tx index) () (instructions tx)) (\<lambda>_.
        and_then (instruction_at tx 0 index) (\<lambda>price_ix.
        and_then (decode_compute_unit_price env tx price_ix index) (\<lambda>price.
        if compute_unit_price_micro_lamports plan < price
        then Inl (config_error index (PriceTooHigh price))
        else
          and_then (instruction_at tx 1 index) (\<lambda>limit_ix.
          and_then (decode_compute_unit_limit env tx limit_ix index) (\<lambda>limit.
          if compute_unit_limit plan < limit
          then Inl (config_error index (LimitTooHigh limit))
          else
            and_then (try_fold (check_entry env p tx index) 2 (entries plan)) (\<lambda>cursor.
            and_then (instruction_at tx cursor index) (\<lambda>memo_ix.
            and_then (validate_memo env tx memo_ix (memo plan) index) (\<lambda>_.
            ensure (cursor + 1 = length (instructions tx))
              (config_error index
                (TrailingInstructions (length (instructions tx) - (cursor + 1))))))))))))))"

section \<open>Signing\<close>

definition plan_for :: "batch_signing_permit \<Rightarrow> nat \<Rightarrow> permit_error + planned_chunk" where
  "plan_for p index =
     ok_or (NoSuchChunk index) (find (\<lambda>chunk. chunk_index chunk = index) (pm_chunks p))"

definition ensure_not_expired :: "int \<Rightarrow> batch_signing_permit \<Rightarrow> permit_error + unit" where
  "ensure_not_expired now p = ensure (\<not> expires_at p < now) PermitExpired"

fun position :: "('a \<Rightarrow> bool) \<Rightarrow> 'a list \<Rightarrow> nat option" where
  "position P [] = None"
| "position P (x # xs) = (if P x then Some 0 else map_option Suc (position P xs))"

definition sign_transaction_bytes ::
  "signer \<Rightarrow> batch_signing_permit \<Rightarrow> versioned_transaction \<Rightarrow> permit_error + (bytes \<times> bytes \<times> string)" where
  "sign_transaction_bytes sg p prepared =
     and_then (map_err SignFailed (sign_slot sg prepared)) (\<lambda>tx.
     and_then (ok_or SignerNotInTransaction (position (\<lambda>key. key = account_pubkey p) (account_keys tx)))
       (\<lambda>signer_index.
     and_then (ok_or Panic (nth_opt (signatures tx) signer_index)) (\<lambda>signature.
     let blockhash = recent_blockhash tx in
     and_then (map_err SerializeFailed (encode_tx sg tx)) (\<lambda>encoded.
     Inr (signature, blockhash, encoded)))))"

text \<open>
  The checks of \<open>sign_chunk\<close> before the reservation: they leave the permit alone. They return the
  planned chunk and the amount to reserve.
\<close>

definition sign_chunk_checks ::
  "chain_env \<Rightarrow> int \<Rightarrow> batch_signing_permit \<Rightarrow> nat \<Rightarrow> versioned_transaction
     \<Rightarrow> permit_error + (planned_chunk \<times> nat)" where
  "sign_chunk_checks env now p index tx =
     and_then (ensure_not_expired now p) (\<lambda>_.
     if signed_chunks p index \<noteq> None then Inl (AlreadySigned index)
     else
       and_then (plan_for p index) (\<lambda>plan.
       and_then (validate_prepared_transaction env p plan tx) (\<lambda>_.
       and_then (map_err ChunkTotal (token_total_raw plan)) (\<lambda>chunk_total.
       and_then (ok_or SignedAmountOverflow (checked_add 64 (signed_amount_raw p) chunk_total))
         (\<lambda>projected_amount.
       if max_token_raw p < projected_amount then Inl (AmountCeiling index)
       else if max_transactions p < signed_tx_count p + 1 then Inl (CountCeiling index)
       else Inr (plan, projected_amount))))))"

definition sign_chunk ::
  "chain_env \<Rightarrow> signer \<Rightarrow> int \<Rightarrow> batch_signing_permit \<Rightarrow> nat \<Rightarrow> versioned_transaction \<Rightarrow> nat
     \<Rightarrow> batch_signing_permit \<times> (permit_error + signed_chunk)" where
  "sign_chunk env sg now p index tx last_valid =
     (case sign_chunk_checks env now p index tx of
        Inl e \<Rightarrow> (p, Inl e)
      | Inr (plan, projected_amount) \<Rightarrow>
          let p = p\<lparr>signed_amount_raw := projected_amount, signed_tx_count := signed_tx_count p + 1\<rparr> in
          case sign_transaction_bytes sg p tx of
            Inl e \<Rightarrow> (p, Inl e)
          | Inr (signature, blockhash, encoded) \<Rightarrow>
              (p\<lparr>signed_chunks := (signed_chunks p)(index \<mapsto>
                   \<lparr>rec_blockhash = blockhash, rec_last_valid_block_height = last_valid, attempts = 1\<rparr>)\<rparr>,
               Inr \<lparr>sc_chunk_index = index, sc_row_numbers = row_numbers plan, sc_signature = signature,
                    signed_transaction_base64 = encoded, sc_blockhash = blockhash,
                    sc_last_valid_block_height = last_valid\<rparr>))"

definition resign_chunk_checks ::
  "chain_env \<Rightarrow> int \<Rightarrow> batch_signing_permit \<Rightarrow> nat \<Rightarrow> versioned_transaction \<Rightarrow> blockhash_expiry_proof
     \<Rightarrow> permit_error + (planned_chunk \<times> signed_chunk_record)" where
  "resign_chunk_checks env now p index tx expiry =
     and_then (ensure_not_expired now p) (\<lambda>_.
     and_then (ok_or (NoPriorSignature index) (signed_chunks p index)) (\<lambda>prior.
     if previous_blockhash expiry \<noteq> rec_blockhash prior
        \<or> previous_last_valid_block_height expiry \<noteq> rec_last_valid_block_height prior
     then Inl (ProofMismatch index)
     else if confirmed_current_block_height expiry \<le> previous_last_valid_block_height expiry
     then Inl (NotProvenExpired index)
     else if MAX_RESIGN_ATTEMPTS_PER_CHUNK \<le> attempts prior then Inl (AttemptLimit index)
     else if recent_blockhash tx = rec_blockhash prior then Inl (StaleBlockhash index)
     else
       and_then (plan_for p index) (\<lambda>plan.
       and_then (validate_prepared_transaction env p plan tx) (\<lambda>_.
       Inr (plan, prior)))))"

definition resign_chunk ::
  "chain_env \<Rightarrow> signer \<Rightarrow> int \<Rightarrow> batch_signing_permit \<Rightarrow> nat \<Rightarrow> versioned_transaction \<Rightarrow> nat
     \<Rightarrow> blockhash_expiry_proof \<Rightarrow> batch_signing_permit \<times> (permit_error + signed_chunk)" where
  "resign_chunk env sg now p index tx last_valid expiry =
     (case resign_chunk_checks env now p index tx expiry of
        Inl e \<Rightarrow> (p, Inl e)
      | Inr (plan, prior) \<Rightarrow>
          case sign_transaction_bytes sg p tx of
            Inl e \<Rightarrow> (p, Inl e)
          | Inr (signature, blockhash, encoded) \<Rightarrow>
              (p\<lparr>signed_chunks := (signed_chunks p)(index \<mapsto>
                   \<lparr>rec_blockhash = blockhash, rec_last_valid_block_height = last_valid,
                    attempts = attempts prior + 1\<rparr>)\<rparr>,
               Inr \<lparr>sc_chunk_index = index, sc_row_numbers = row_numbers plan, sc_signature = signature,
                    signed_transaction_base64 = encoded, sc_blockhash = blockhash,
                    sc_last_valid_block_height = last_valid\<rparr>))"

section \<open>What a valid transaction is\<close>

text \<open>
  A specification independent of the validator: the list of instructions a chunk stands for, and
  when a compiled instruction is one of them.
\<close>

datatype ix_spec =
    SetPriceUpTo nat
  | SetLimitUpTo nat
  | CreateAta pubkey pubkey
  | Transfer pubkey nat
  | PostMemo string

definition key_at :: "versioned_transaction \<Rightarrow> byte \<Rightarrow> pubkey option" where
  "key_at tx i = nth_opt (account_keys tx) (unat i)"

fun ix_matches ::
  "chain_env \<Rightarrow> batch_signing_permit \<Rightarrow> versioned_transaction \<Rightarrow> ix_spec \<Rightarrow> compiled_instruction \<Rightarrow> bool" where
  "ix_matches env p tx (SetPriceUpTo n) ix \<longleftrightarrow>
     key_at tx (program_id_index ix) = Some (compute_budget_program_id env)
     \<and> (\<exists>price. price \<le> n \<and> price < 2 ^ 64 \<and> data ix = 3 # to_le_bytes 8 price)"
| "ix_matches env p tx (SetLimitUpTo n) ix \<longleftrightarrow>
     key_at tx (program_id_index ix) = Some (compute_budget_program_id env)
     \<and> (\<exists>limit. limit \<le> n \<and> limit < 2 ^ 32 \<and> data ix = 2 # to_le_bytes 4 limit)"
| "ix_matches env p tx (CreateAta owner ata) ix \<longleftrightarrow>
     key_at tx (program_id_index ix) = Some (associated_token_program_id env)
     \<and> data ix = [1]
     \<and> map (key_at tx) (accounts ix) =
         map Some [pm_fee_payer p, ata, owner, pm_mint p, system_program_id env, pm_token_program p]"
| "ix_matches env p tx (Transfer dest amount) ix \<longleftrightarrow>
     (key_at tx (program_id_index ix) = Some (token_program_id env)
      \<or> key_at tx (program_id_index ix) = Some (token_2022_program_id env))
     \<and> amount < 2 ^ 64 \<and> pm_decimals p < 256
     \<and> data ix = 12 # to_le_bytes 8 amount @ [word_of_nat (pm_decimals p)]
     \<and> map (key_at tx) (accounts ix) = map Some [source_ata p, pm_mint p, dest, account_pubkey p]"
| "ix_matches env p tx (PostMemo text) ix \<longleftrightarrow>
     key_at tx (program_id_index ix) = Some (memo_program_id env)
     \<and> data ix = bytes_of_string text \<and> utf8_valid (data ix)"

definition entry_specs ::
  "chain_env \<Rightarrow> batch_signing_permit \<Rightarrow> planned_transfer_entry \<Rightarrow> ix_spec list" where
  "entry_specs env p e =
     (let dest = derive_associated_token_address env (entry_recipient e) (pm_mint p) (pm_token_program p)
      in (if ata_creation_required e then [CreateAta (entry_recipient e) dest] else [])
         @ [Transfer dest (entry_amount_raw e)])"

definition chunk_specs :: "chain_env \<Rightarrow> batch_signing_permit \<Rightarrow> planned_chunk \<Rightarrow> ix_spec list" where
  "chunk_specs env p plan =
     [SetPriceUpTo (compute_unit_price_micro_lamports plan), SetLimitUpTo (compute_unit_limit plan)]
     @ concat (map (entry_specs env p) (entries plan)) @ [PostMemo (memo plan)]"

definition transaction_matches ::
  "chain_env \<Rightarrow> batch_signing_permit \<Rightarrow> planned_chunk \<Rightarrow> versioned_transaction \<Rightarrow> bool" where
  "transaction_matches env p plan tx \<longleftrightarrow>
     nth_opt (account_keys tx) 0 = Some (pm_fee_payer p)
     \<and> list_all2 (ix_matches env p tx) (chunk_specs env p plan) (instructions tx)"

subsection \<open>The decoders\<close>

lemma nth_opt_Some: "nth_opt xs i = Some x \<longleftrightarrow> i < length xs \<and> xs ! i = x"
  by (auto simp: nth_opt_def)

lemma account_at_Inr [res_simps]: "account_at tx i index = Inr k \<longleftrightarrow> key_at tx i = Some k"
  by (simp add: account_at_def key_at_def ok_or_eq_Inr)

lemma instruction_at_Inr [res_simps]:
  "instruction_at tx c index = Inr ix \<longleftrightarrow> nth_opt (instructions tx) c = Some ix"
  by (simp add: instruction_at_def ok_or_eq_Inr)

lemma from_le_bytes_eq: "from_le_bytes bs = v \<longleftrightarrow> v < 256 ^ length bs \<and> bs = to_le_bytes (length bs) v"
proof
  assume "from_le_bytes bs = v"
  then show "v < 256 ^ length bs \<and> bs = to_le_bytes (length bs) v"
    using from_le_bytes_bound [of bs] to_from_le_bytes [of bs] by simp
next
  assume v: "v < 256 ^ length bs \<and> bs = to_le_bytes (length bs) v"
  then show "from_le_bytes bs = v"
    using from_to_le_bytes [of "length bs" v] by simp
qed

lemma tagged_data:
  "nth_opt d 0 = Some t \<and> length d = Suc n \<and> from_le_bytes (take n (drop 1 d)) = v
   \<longleftrightarrow> v < 256 ^ n \<and> d = t # to_le_bytes n v"
  by (cases d) (auto simp: nth_opt_def from_le_bytes_eq)

lemma transfer_data:
  "length d = 10 \<and> d ! 0 = t \<and> from_le_bytes (take 8 (drop 1 d)) = v \<and> unat (d ! 9) = w
   \<longleftrightarrow> v < 2 ^ 64 \<and> w < 256 \<and> d = t # to_le_bytes 8 v @ [word_of_nat w]" (is "?lhs \<longleftrightarrow> ?rhs")
proof
  assume lhs: ?lhs
  then obtain body lst where d: "d = t # body @ [lst]" and len: "length body = 8"
    by (cases d; cases "tl d" rule: rev_cases) auto
  have "d ! 9 = lst"
    using len by (simp add: d nth_append)
  then have "w < 256" and "lst = word_of_nat w"
    using lhs unat_byte_lt [of lst] by auto
  moreover have "v < 2 ^ 64" and "body = to_le_bytes 8 v"
    using lhs len by (simp_all add: d from_le_bytes_eq)
  ultimately show ?rhs by (simp add: d)
next
  assume rhs: ?rhs
  then have "from_le_bytes (to_le_bytes 8 v) = v"
    by (simp add: from_to_le_bytes)
  moreover have "unat (word_of_nat w :: byte) = w"
    using rhs by (simp add: unat_of_nat)
  ultimately show ?lhs
    using rhs by (simp add: nth_append)
qed

lemma decode_compute_unit_price_Inr [res_simps]:
  "decode_compute_unit_price env tx ix index = Inr v \<longleftrightarrow>
     key_at tx (program_id_index ix) = Some (compute_budget_program_id env)
     \<and> v < 2 ^ 64 \<and> data ix = 3 # to_le_bytes 8 v"
proof -
  have "decode_compute_unit_price env tx ix index = Inr v \<longleftrightarrow>
     key_at tx (program_id_index ix) = Some (compute_budget_program_id env)
     \<and> (nth_opt (data ix) 0 = Some 3 \<and> length (data ix) = Suc 8
        \<and> from_le_bytes (take 8 (drop 1 (data ix))) = v)"
    by (auto simp: decode_compute_unit_price_def and_then_eq_Inr account_at_Inr
        COMPUTE_UNIT_PRICE_DISCRIMINATOR_def)
  then show ?thesis
    unfolding tagged_data by simp
qed

lemma decode_compute_unit_limit_Inr [res_simps]:
  "decode_compute_unit_limit env tx ix index = Inr v \<longleftrightarrow>
     key_at tx (program_id_index ix) = Some (compute_budget_program_id env)
     \<and> v < 2 ^ 32 \<and> data ix = 2 # to_le_bytes 4 v"
proof -
  have "decode_compute_unit_limit env tx ix index = Inr v \<longleftrightarrow>
     key_at tx (program_id_index ix) = Some (compute_budget_program_id env)
     \<and> (nth_opt (data ix) 0 = Some 2 \<and> length (data ix) = Suc 4
        \<and> from_le_bytes (take 4 (drop 1 (data ix))) = v)"
    by (auto simp: decode_compute_unit_limit_def and_then_eq_Inr account_at_Inr
        COMPUTE_UNIT_LIMIT_DISCRIMINATOR_def)
  then show ?thesis
    unfolding tagged_data by simp
qed

lemma validate_memo_Inr:
  "validate_memo env tx ix text index = Inr u \<longleftrightarrow> ix_matches env p tx (PostMemo text) ix"
  by (auto simp: validate_memo_def res_simps split: if_splits)

lemma list_of_4: "length xs = 4 \<Longrightarrow> \<exists>a b c d. xs = [a, b, c, d]"
  by (auto simp: numeral_eq_Suc length_Suc_conv)

lemma list_of_6: "length xs = 6 \<Longrightarrow> \<exists>a b c d e f. xs = [a, b, c, d, e, f]"
  by (auto simp: numeral_eq_Suc length_Suc_conv)

lemma validate_ata_create_Inr:
  "validate_ata_create env tx ix (pm_fee_payer p) owner ata (pm_mint p) (pm_token_program p) index = Inr u
   \<longleftrightarrow> ix_matches env p tx (CreateAta owner ata) ix"
proof (cases "length (accounts ix) = 6")
  case False
  then have "map (key_at tx) (accounts ix) \<noteq>
      map Some [pm_fee_payer p, ata, owner, pm_mint p, system_program_id env, pm_token_program p]"
    by (auto dest: map_eq_imp_length_eq)
  then show ?thesis
    using False by (auto simp: validate_ata_create_def and_then_eq_Inr)
next
  case True
  then obtain a b c d e f where "accounts ix = [a, b, c, d, e, f]"
    using list_of_6 by blast
  then show ?thesis
    by (auto simp: validate_ata_create_def and_then_eq_Inr account_at_Inr
        ATA_CREATE_IDEMPOTENT_DISCRIMINATOR_def)
qed

lemma validate_transfer_checked_Inr:
  "validate_transfer_checked env tx ix (source_ata p) (pm_mint p) dest (account_pubkey p) amount
     (pm_decimals p) index = Inr u
   \<longleftrightarrow> ix_matches env p tx (Transfer dest amount) ix"
proof (cases "length (accounts ix) = 4")
  case False
  then have "map (key_at tx) (accounts ix) \<noteq> map Some [source_ata p, pm_mint p, dest, account_pubkey p]"
    by (auto dest: map_eq_imp_length_eq)
  then show ?thesis
    using False by (auto simp: validate_transfer_checked_def and_then_eq_Inr Let_def)
next
  case True
  then obtain a b c d where accounts: "accounts ix = [a, b, c, d]"
    using list_of_4 by blast
  have "validate_transfer_checked env tx ix (source_ata p) (pm_mint p) dest (account_pubkey p) amount
     (pm_decimals p) index = Inr u \<longleftrightarrow>
     (\<exists>prog. key_at tx (program_id_index ix) = Some prog
        \<and> (prog = token_program_id env \<or> prog = token_2022_program_id env))
     \<and> (length (data ix) = 10 \<and> data ix ! 0 = 12 \<and> from_le_bytes (take 8 (drop 1 (data ix))) = amount
        \<and> unat (data ix ! 9) = pm_decimals p)
     \<and> key_at tx a = Some (source_ata p) \<and> key_at tx b = Some (pm_mint p)
     \<and> key_at tx c = Some dest \<and> key_at tx d = Some (account_pubkey p)"
    unfolding validate_transfer_checked_def Let_def and_then_eq_Inr account_at_Inr if_Inl_eq_Inr
      TRANSFER_CHECKED_DISCRIMINATOR_def
    by (simp add: accounts) blast
  then show ?thesis
    unfolding transfer_data by (auto simp: accounts)
qed

subsection \<open>The whole transaction\<close>

fun specs_at ::
  "chain_env \<Rightarrow> batch_signing_permit \<Rightarrow> versioned_transaction \<Rightarrow> nat \<Rightarrow> ix_spec list \<Rightarrow> bool" where
  "specs_at env p tx c [] = True"
| "specs_at env p tx c (sp # sps) =
     ((\<exists>ix. nth_opt (instructions tx) c = Some ix \<and> ix_matches env p tx sp ix)
      \<and> specs_at env p tx (Suc c) sps)"

lemma specs_at_append:
  "specs_at env p tx c (xs @ ys) \<longleftrightarrow> specs_at env p tx c xs \<and> specs_at env p tx (c + length xs) ys"
  by (induction xs arbitrary: c) auto

lemma specs_at_whole:
  "c \<le> length (instructions tx) \<Longrightarrow>
   specs_at env p tx c sps \<and> c + length sps = length (instructions tx)
   \<longleftrightarrow> list_all2 (ix_matches env p tx) sps (drop c (instructions tx))"
proof (induction sps arbitrary: c)
  case Nil
  then show ?case by auto
next
  case (Cons sp sps)
  show ?case
  proof (cases "c < length (instructions tx)")
    case True
    then show ?thesis
      using Cons.IH [of "Suc c"] Cons_nth_drop_Suc [OF True, symmetric] by (auto simp: nth_opt_def)
  next
    case False
    then show ?thesis by (simp add: nth_opt_def)
  qed
qed

lemma check_entry_Inr:
  "check_entry env p tx index c e = Inr c' \<longleftrightarrow>
     specs_at env p tx c (entry_specs env p e) \<and> c' = c + length (entry_specs env p e)"
  by (auto simp: check_entry_def entry_specs_def Let_def and_then_eq_Inr instruction_at_Inr
      validate_ata_create_Inr [of env tx _ p] validate_transfer_checked_Inr [of env tx _ p]
      simp del: ix_matches.simps)

lemma check_entries_Inr:
  "try_fold (check_entry env p tx index) c es = Inr c' \<longleftrightarrow>
     specs_at env p tx c (concat (map (entry_specs env p) es))
     \<and> c' = c + length (concat (map (entry_specs env p) es))"
  by (induction es arbitrary: c)
    (auto simp: and_then_eq_Inr check_entry_Inr specs_at_append add.assoc)

lemma ix_matches_allowed:
  "ix_matches env p tx sp ix \<Longrightarrow>
     \<exists>prog. key_at tx (program_id_index ix) = Some prog \<and> prog \<in> set (allowed_programs env)"
  by (cases sp) (auto simp: allowed_programs_def)

lemma check_programs_Inr:
  "try_fold (check_program env tx index) () ixs = Inr u \<longleftrightarrow>
     (\<forall>ix\<in>set ixs. \<exists>prog. key_at tx (program_id_index ix) = Some prog
        \<and> prog \<in> set (allowed_programs env))"
  by (induction ixs) (auto simp: check_program_def and_then_eq_Inr ok_or_eq_Inr ensure_eq_Inr key_at_def)

lemma validate_prepared_transaction_iff:
  "validate_prepared_transaction env p plan tx = Inr () \<longleftrightarrow> transaction_matches env p plan tx"
proof -
  let ?es = "concat (map (entry_specs env p) (entries plan))"
  have "validate_prepared_transaction env p plan tx = Inr () \<longleftrightarrow>
    nth_opt (account_keys tx) 0 = Some (pm_fee_payer p)
    \<and> (\<forall>ix\<in>set (instructions tx). \<exists>prog. key_at tx (program_id_index ix) = Some prog
        \<and> prog \<in> set (allowed_programs env))
    \<and> specs_at env p tx 0 (chunk_specs env p plan)
    \<and> length (chunk_specs env p plan) = length (instructions tx)"
  proof -
    have "validate_prepared_transaction env p plan tx = Inr () \<longleftrightarrow>
      nth_opt (account_keys tx) 0 = Some (pm_fee_payer p)
      \<and> (\<forall>ix\<in>set (instructions tx). \<exists>prog. key_at tx (program_id_index ix) = Some prog
          \<and> prog \<in> set (allowed_programs env))
      \<and> (\<exists>ix. nth_opt (instructions tx) 0 = Some ix
           \<and> (\<exists>v. decode_compute_unit_price env tx ix (chunk_index plan) = Inr v
                \<and> v \<le> compute_unit_price_micro_lamports plan))
      \<and> (\<exists>ix. nth_opt (instructions tx) 1 = Some ix
           \<and> (\<exists>v. decode_compute_unit_limit env tx ix (chunk_index plan) = Inr v
                \<and> v \<le> compute_unit_limit plan))
      \<and> specs_at env p tx 2 ?es
      \<and> (\<exists>ix. nth_opt (instructions tx) (2 + length ?es) = Some ix
           \<and> ix_matches env p tx (PostMemo (memo plan)) ix)
      \<and> 2 + length ?es + 1 = length (instructions tx)"
      unfolding validate_prepared_transaction_def Let_def and_then_eq_Inr if_Inl_eq_Inr
        check_programs_Inr check_entries_Inr validate_memo_Inr [of env tx _ _ _ _ p]
        instruction_at_Inr ok_or_eq_Inr ensure_eq_Inr not_less not_not
      by blast
    then show ?thesis
      unfolding decode_compute_unit_price_Inr decode_compute_unit_limit_Inr chunk_specs_def
        specs_at_append
      by (simp add: numeral_2_eq_2) blast
  qed
  also have "\<dots> \<longleftrightarrow> transaction_matches env p plan tx"
    using specs_at_whole [of 0 tx env p "chunk_specs env p plan"] ix_matches_allowed
    by (auto simp: transaction_matches_def list_all2_conv_all_nth in_set_conv_nth) metis
  finally show ?thesis .
qed

section \<open>What an approved plan is\<close>

definition row_triple :: "transfer_row \<Rightarrow> nat \<times> pubkey \<times> nat" where
  "row_triple row = (row_number row, recipient row, amount_raw row)"

definition entry_triple :: "planned_transfer_entry \<Rightarrow> nat \<times> pubkey \<times> nat" where
  "entry_triple e = (entry_row_number e, entry_recipient e, entry_amount_raw e)"

lemma update_fresh: "k \<notin> fst ` set al \<Longrightarrow> AList.update k v al = al @ [(k, v)]"
  by (induction al) auto

lemma expected_rows_distinct:
  assumes "distinct (map row_number rs)"
  shows "expected_rows rs = map row_triple rs"
proof -
  have "foldl (\<lambda>m row. AList.update (row_number row) (recipient row, amount_raw row) m) al rs
    = al @ map row_triple rs"
    if "distinct (map row_number rs)" and "fst ` set al \<inter> row_number ` set rs = {}" for al
    using that
  proof (induction rs arbitrary: al)
    case (Cons row rs)
    then have "AList.update (row_number row) (recipient row, amount_raw row) al = al @ [row_triple row]"
      by (auto simp: update_fresh row_triple_def)
    moreover have "fst ` set (al @ [row_triple row]) \<inter> row_number ` set rs = {}"
      using Cons.prems by (auto simp: row_triple_def)
    ultimately show ?case
      using Cons.IH [of "al @ [row_triple row]"] Cons.prems by simp
  qed simp
  from this [OF assms, of "[]"] show ?thesis
    by (simp add: expected_rows_def)
qed

lemma mset_delete:
  "distinct (map fst al) \<Longrightarrow> map_of al k = Some v \<Longrightarrow> mset al = add_mset (k, v) (mset (AList.delete k al))"
proof (induction al)
  case (Cons x al)
  show ?case
  proof (cases "fst x = k")
    case True
    then have "AList.delete k al = al"
      using Cons.prems(1) by (intro delete_id) auto
    then show ?thesis
      using True Cons.prems(2) by (cases x) simp
  next
    case False
    then show ?thesis
      using Cons by (cases x) simp
  qed
qed simp

lemma match_entry_Inr:
  assumes "distinct (map fst al)"
  shows "match_entry al e = Inr al' \<longleftrightarrow>
     entry_triple e \<in> set al \<and> al' = AList.delete (entry_row_number e) al"
proof -
  have "entry_triple e \<in> set al
    \<longleftrightarrow> map_of al (entry_row_number e) = Some (entry_recipient e, entry_amount_raw e)"
    using assms by (simp add: entry_triple_def map_of_eq_Some_iff)
  then show ?thesis
    by (cases "map_of al (entry_row_number e)") (auto simp: match_entry_def)
qed

lemma match_entries_all:
  "distinct (map fst al) \<Longrightarrow>
   try_fold match_entry al es = Inr [] \<longleftrightarrow> mset (map entry_triple es) = mset al"
proof (induction es arbitrary: al)
  case (Cons e es)
  show ?case
  proof (cases "entry_triple e \<in> set al")
    case True
    let ?al = "AList.delete (entry_row_number e) al"
    have "map_of al (entry_row_number e) = Some (entry_recipient e, entry_amount_raw e)"
      using True Cons.prems by (simp add: entry_triple_def)
    then have al: "mset al = add_mset (entry_triple e) (mset ?al)"
      using mset_delete [OF Cons.prems] by (simp add: entry_triple_def)
    have "match_entry al e = Inr ?al"
      using True Cons.prems by (simp add: match_entry_Inr)
    moreover have "distinct (map fst ?al)"
      using Cons.prems by (rule distinct_delete)
    ultimately show ?thesis
      using Cons.IH [of ?al] by (simp add: al)
  next
    case False
    then have "\<not> (\<exists>al'. match_entry al e = Inr al')"
      using Cons.prems by (simp add: match_entry_Inr)
    moreover have "mset (map entry_triple (e # es)) \<noteq> mset al"
      using False by (metis list.set_intros(1) list.simps(9) set_mset_mset)
    ultimately show ?thesis
      by (auto simp: and_then_eq_Inr)
  qed
qed simp

lemma validate_plan_iff:
  assumes "distinct (map row_number (manifest_rows m))"
  shows "validate_plan_matches_manifest m plan = Inr () \<longleftrightarrow>
    mset (map entry_triple (concat (map entries (chunks plan)))) = mset (map row_triple (manifest_rows m))"
proof -
  have "distinct (map fst (map row_triple (manifest_rows m)))"
    using assms by (simp add: row_triple_def o_def)
  from match_entries_all [OF this, of "concat (map entries (chunks plan))"]
  have "try_fold match_entry (map row_triple (manifest_rows m)) (concat (map entries (chunks plan))) = Inr []
    \<longleftrightarrow> mset (map entry_triple (concat (map entries (chunks plan)))) = mset (map row_triple (manifest_rows m))" .
  then show ?thesis
    by (simp add: validate_plan_matches_manifest_def expected_rows_distinct [OF assms]
        try_fold_concat and_then_eq_Inr ensure_eq_Inr)
qed

section \<open>What the permit may sign\<close>

text \<open>A call of one of the two signing methods, with what it is given.\<close>

datatype permit_op =
    SignOp (op_signer: signer) (op_now: int) (op_index: nat) (op_tx: versioned_transaction)
      (op_last_valid: nat)
  | ResignOp (op_signer: signer) (op_now: int) (op_index: nat) (op_tx: versioned_transaction)
      (op_last_valid: nat) (op_expiry: blockhash_expiry_proof)

fun permit_call ::
  "chain_env \<Rightarrow> batch_signing_permit \<Rightarrow> permit_op \<Rightarrow> batch_signing_permit \<times> (permit_error + signed_chunk)"
where
  "permit_call env p (SignOp sg now index tx lv) = sign_chunk env sg now p index tx lv"
| "permit_call env p (ResignOp sg now index tx lv pr) = resign_chunk env sg now p index tx lv pr"

text \<open>The permit together with the log of what it signed, newest first.\<close>

type_synonym signing_log = "(permit_op \<times> signed_chunk) list"

definition permit_step ::
  "chain_env \<Rightarrow> batch_signing_permit \<times> signing_log \<Rightarrow> permit_op \<Rightarrow> batch_signing_permit \<times> signing_log" where
  "permit_step env st c =
     (case permit_call env (fst st) c of
        (p, Inl _) \<Rightarrow> (p, snd st)
      | (p, Inr sc) \<Rightarrow> (p, (c, sc) # snd st))"

definition last_signed :: "nat \<Rightarrow> signing_log \<Rightarrow> signed_chunk option" where
  "last_signed i log = map_option snd (find (\<lambda>(c, sc). sc_chunk_index sc = i) log)"

definition times_signed :: "nat \<Rightarrow> signing_log \<Rightarrow> nat" where
  "times_signed i log = length (filter (\<lambda>(c, sc). sc_chunk_index sc = i) log)"

definition signed_indices :: "signing_log \<Rightarrow> nat set" where
  "signed_indices log = (\<lambda>(c, sc). sc_chunk_index sc) ` set log"

definition chunk_amount :: "batch_signing_permit \<Rightarrow> nat \<Rightarrow> nat" where
  "chunk_amount p i =
     (case plan_for p i of
        Inr plan \<Rightarrow> sum_list (map entry_amount_raw (entries plan))
      | Inl _ \<Rightarrow> 0)"

text \<open>
  A signature for a chunk signed before is only produced by a re-sign whose proof names exactly the
  previous signature's blockhash and expiry height and shows a later block height, on a transaction
  with a different blockhash.
\<close>

fun resign_justified :: "signed_chunk option \<Rightarrow> permit_op \<Rightarrow> bool" where
  "resign_justified None (SignOp _ _ _ _ _) = True"
| "resign_justified (Some prev) (ResignOp _ _ _ tx _ pr) =
     (previous_blockhash pr = sc_blockhash prev
      \<and> previous_last_valid_block_height pr = sc_last_valid_block_height prev
      \<and> sc_last_valid_block_height prev < confirmed_current_block_height pr
      \<and> recent_blockhash tx \<noteq> sc_blockhash prev)"
| "resign_justified _ _ = False"

fun log_justified :: "signing_log \<Rightarrow> bool" where
  "log_justified [] = True"
| "log_justified ((c, sc) # log) =
     (resign_justified (last_signed (sc_chunk_index sc) log) c \<and> log_justified log)"

definition log_planned :: "chain_env \<Rightarrow> batch_signing_permit \<Rightarrow> signing_log \<Rightarrow> bool" where
  "log_planned env p log \<longleftrightarrow>
     (\<forall>(c, sc)\<in>set log. \<exists>plan. plan_for p (sc_chunk_index sc) = Inr plan
        \<and> transaction_matches env p plan (op_tx c) \<and> sc_row_numbers sc = row_numbers plan)"

definition same_authority :: "batch_signing_permit \<Rightarrow> batch_signing_permit \<Rightarrow> bool" where
  "same_authority p0 p \<longleftrightarrow>
     pm_manifest_hash p = pm_manifest_hash p0 \<and> account_pubkey p = account_pubkey p0
     \<and> pm_network_genesis_hash p = pm_network_genesis_hash p0 \<and> pm_mint p = pm_mint p0
     \<and> pm_token_program p = pm_token_program p0 \<and> pm_decimals p = pm_decimals p0
     \<and> source_ata p = source_ata p0 \<and> pm_fee_payer_mode p = pm_fee_payer_mode p0
     \<and> pm_fee_payer p = pm_fee_payer p0 \<and> pm_chunks p = pm_chunks p0
     \<and> max_token_raw p = max_token_raw p0 \<and> max_transactions p = max_transactions p0
     \<and> expires_at p = expires_at p0"

definition record_agrees :: "signed_chunk_record option \<Rightarrow> nat \<Rightarrow> signing_log \<Rightarrow> bool" where
  "record_agrees ro i log \<longleftrightarrow>
     (case ro of
        None \<Rightarrow> last_signed i log = None
      | Some r \<Rightarrow> (\<exists>sc. last_signed i log = Some sc \<and> rec_blockhash r = sc_blockhash sc
              \<and> rec_last_valid_block_height r = sc_last_valid_block_height sc)
              \<and> attempts r = times_signed i log \<and> attempts r \<le> MAX_RESIGN_ATTEMPTS_PER_CHUNK)"

definition records_log :: "batch_signing_permit \<Rightarrow> signing_log \<Rightarrow> bool" where
  "records_log p log \<longleftrightarrow> (\<forall>i. record_agrees (signed_chunks p i) i log)"

definition permit_inv ::
  "chain_env \<Rightarrow> batch_signing_permit \<Rightarrow> batch_signing_permit \<times> signing_log \<Rightarrow> bool" where
  "permit_inv env p0 st \<longleftrightarrow>
     (case st of (p, log) \<Rightarrow>
        same_authority p0 p \<and> records_log p log
        \<and> (\<Sum>i\<in>signed_indices log. chunk_amount p0 i) \<le> signed_amount_raw p
        \<and> card (signed_indices log) \<le> signed_tx_count p
        \<and> signed_amount_raw p \<le> max_token_raw p0 \<and> signed_tx_count p \<le> max_transactions p0
        \<and> log_justified log \<and> log_planned env p0 log)"

subsection \<open>The checks\<close>

lemma sign_chunk_checks_Inr:
  "sign_chunk_checks env now p index tx = Inr (plan, projected) \<longleftrightarrow>
     now \<le> expires_at p \<and> signed_chunks p index = None \<and> plan_for p index = Inr plan
     \<and> transaction_matches env p plan tx
     \<and> projected = signed_amount_raw p + sum_list (map entry_amount_raw (entries plan))
     \<and> projected < 2 ^ 64 \<and> projected \<le> max_token_raw p \<and> signed_tx_count p + 1 \<le> max_transactions p"
  unfolding sign_chunk_checks_def and_then_eq_Inr if_Inl_eq_Inr ensure_not_expired_def ensure_eq_Inr
    ok_or_eq_Inr map_err_eq_Inr token_total_raw_Inr checked_add_Some sum.inject prod.inject
  by (auto simp: validate_prepared_transaction_iff)

lemma resign_chunk_checks_Inr:
  "resign_chunk_checks env now p index tx pr = Inr (plan, prior) \<longleftrightarrow>
     now \<le> expires_at p \<and> signed_chunks p index = Some prior
     \<and> previous_blockhash pr = rec_blockhash prior
     \<and> previous_last_valid_block_height pr = rec_last_valid_block_height prior
     \<and> rec_last_valid_block_height prior < confirmed_current_block_height pr
     \<and> attempts prior < MAX_RESIGN_ATTEMPTS_PER_CHUNK
     \<and> recent_blockhash tx \<noteq> rec_blockhash prior
     \<and> plan_for p index = Inr plan \<and> transaction_matches env p plan tx"
  unfolding resign_chunk_checks_def and_then_eq_Inr if_Inl_eq_Inr ensure_not_expired_def ensure_eq_Inr
    ok_or_eq_Inr sum.inject prod.inject
  by (auto simp: validate_prepared_transaction_iff)

lemma key_at_blockhash [simp]: "key_at (tx\<lparr>recent_blockhash := h\<rparr>) = key_at tx"
  by (simp add: fun_eq_iff key_at_def)

lemma ix_matches_blockhash: "ix_matches env p (tx\<lparr>recent_blockhash := h\<rparr>) = ix_matches env p tx"
proof (intro ext)
  show "ix_matches env p (tx\<lparr>recent_blockhash := h\<rparr>) sp ix = ix_matches env p tx sp ix" for sp ix
    by (cases sp) simp_all
qed

lemma transaction_matches_blockhash:
  "transaction_matches env p plan (tx\<lparr>recent_blockhash := h\<rparr>) = transaction_matches env p plan tx"
  by (simp add: transaction_matches_def ix_matches_blockhash)

lemma ix_matches_authority:
  "same_authority p0 p \<Longrightarrow> ix_matches env p tx sp ix = ix_matches env p0 tx sp ix"
  by (cases sp) (simp_all add: same_authority_def)

lemma transaction_matches_authority:
  assumes "same_authority p0 p"
  shows "transaction_matches env p plan tx = transaction_matches env p0 plan tx"
proof -
  have "entry_specs env p = entry_specs env p0"
    using assms by (simp add: fun_eq_iff entry_specs_def same_authority_def)
  moreover have "ix_matches env p tx = ix_matches env p0 tx"
    using assms by (simp add: fun_eq_iff ix_matches_authority)
  ultimately show ?thesis
    using assms by (simp add: transaction_matches_def chunk_specs_def same_authority_def)
qed

lemma plan_for_authority: "same_authority p0 p \<Longrightarrow> plan_for p i = plan_for p0 i"
  by (simp add: plan_for_def same_authority_def)

subsection \<open>The log\<close>

lemma last_signed_Cons:
  "last_signed i ((c, sc) # log) = (if sc_chunk_index sc = i then Some sc else last_signed i log)"
  by (simp add: last_signed_def)

lemma times_signed_Cons:
  "times_signed i ((c, sc) # log) = (if sc_chunk_index sc = i then Suc (times_signed i log) else times_signed i log)"
  by (simp add: times_signed_def)

lemma signed_indices_Cons:
  "signed_indices ((c, sc) # log) = insert (sc_chunk_index sc) (signed_indices log)"
  by (simp add: signed_indices_def)

lemma finite_signed_indices [simp]: "finite (signed_indices log)"
  by (simp add: signed_indices_def)

lemma last_signed_None: "last_signed i log = None \<longleftrightarrow> i \<notin> signed_indices log"
  by (auto simp: last_signed_def signed_indices_def find_None_iff)

lemma times_signed_0: "last_signed i log = None \<Longrightarrow> times_signed i log = 0"
  by (auto simp: last_signed_def times_signed_def find_None_iff filter_empty_conv)

lemmas log_simps = last_signed_Cons times_signed_Cons signed_indices_Cons

text \<open>What recording one more signature does to the agreement of permit and log.\<close>

lemma record_agrees_simps:
  "record_agrees None i log \<longleftrightarrow> last_signed i log = None"
  "record_agrees (Some r) i log \<longleftrightarrow>
     (\<exists>sc. last_signed i log = Some sc \<and> rec_blockhash r = sc_blockhash sc
        \<and> rec_last_valid_block_height r = sc_last_valid_block_height sc)
     \<and> attempts r = times_signed i log \<and> attempts r \<le> MAX_RESIGN_ATTEMPTS_PER_CHUNK"
  by (simp_all add: record_agrees_def)

lemma record_agrees_other:
  "sc_chunk_index sc \<noteq> i \<Longrightarrow> record_agrees ro i ((c, sc) # log) = record_agrees ro i log"
  by (cases ro) (simp_all add: record_agrees_def log_simps)

lemma records_logD: "records_log p log \<Longrightarrow> record_agrees (signed_chunks p i) i log"
  by (simp add: records_log_def)

lemma records_log_sign:
  assumes "records_log p log" and "signed_chunks p i = None"
    and "sc_chunk_index sc = i" and "attempts r = 1"
    and "rec_blockhash r = sc_blockhash sc"
    and "rec_last_valid_block_height r = sc_last_valid_block_height sc"
  shows "records_log (p\<lparr>signed_amount_raw := a, signed_tx_count := n,
      signed_chunks := (signed_chunks p)(i \<mapsto> r)\<rparr>) ((c, sc) # log)"
proof -
  have fresh: "last_signed i log = None"
    using records_logD [OF assms(1), of i] assms(2) by (simp add: record_agrees_simps)
  show ?thesis
    using assms times_signed_0 [OF fresh]
    by (auto simp: records_log_def record_agrees_other record_agrees_simps log_simps
        MAX_RESIGN_ATTEMPTS_PER_CHUNK_def)
qed

lemma records_log_resign:
  assumes "records_log p log" and "signed_chunks p i = Some prior"
    and "attempts prior < MAX_RESIGN_ATTEMPTS_PER_CHUNK"
    and "sc_chunk_index sc = i" and "attempts r = attempts prior + 1"
    and "rec_blockhash r = sc_blockhash sc"
    and "rec_last_valid_block_height r = sc_last_valid_block_height sc"
  shows "records_log (p\<lparr>signed_chunks := (signed_chunks p)(i \<mapsto> r)\<rparr>) ((c, sc) # log)"
proof -
  have "attempts prior = times_signed i log"
    using records_logD [OF assms(1), of i] assms(2) by (simp add: record_agrees_simps)
  then show ?thesis
    using assms by (auto simp: records_log_def record_agrees_other record_agrees_simps log_simps)
qed

subsection \<open>Every call keeps the invariant\<close>

lemma sign_chunk_inv:
  assumes inv: "permit_inv env p0 (p, log)"
    and call: "sign_chunk env sg now p index tx lv = (p', r)"
  shows "permit_inv env p0 (p', case r of Inl _ \<Rightarrow> log | Inr sc \<Rightarrow> (SignOp sg now index tx lv, sc) # log)"
proof (cases "sign_chunk_checks env now p index tx")
  case (Inl e)
  then show ?thesis
    using inv call by (auto simp: sign_chunk_def)
next
  case (Inr res)
  obtain plan projected where res: "res = (plan, projected)"
    by (cases res)
  define p1 where "p1 = p\<lparr>signed_amount_raw := projected, signed_tx_count := signed_tx_count p + 1\<rparr>"
  note checks = Inr [unfolded res sign_chunk_checks_Inr]
  have auth: "same_authority p0 p"
    using inv by (simp add: permit_inv_def)
  have amount: "chunk_amount p0 index = sum_list (map entry_amount_raw (entries plan))"
    using checks plan_for_authority [OF auth] by (simp add: chunk_amount_def)
  have fresh: "last_signed index log = None"
    using inv checks records_logD [of p log index] by (simp add: permit_inv_def record_agrees_simps)
  then have "index \<notin> signed_indices log"
    by (simp add: last_signed_None)
  then have sums: "(\<Sum>i\<in>insert index (signed_indices log). chunk_amount p0 i) \<le> projected"
    "card (insert index (signed_indices log)) \<le> signed_tx_count p + 1"
    using inv checks amount by (simp_all add: permit_inv_def)
  have bounds: "projected \<le> max_token_raw p0" "signed_tx_count p + 1 \<le> max_transactions p0"
    using checks auth by (simp_all add: same_authority_def)
  show ?thesis
  proof (cases "sign_transaction_bytes sg p1 tx")
    case (Inl e)
    then have "p' = p1" "r = Inl e"
      using call \<open>sign_chunk_checks env now p index tx = Inr res\<close>
      by (simp_all add: sign_chunk_def res p1_def Let_def)
    then show ?thesis
      using inv checks bounds
      by (simp add: permit_inv_def p1_def same_authority_def records_log_def)
  next
    case (Inr out)
    obtain signature blockhash encoded where out: "out = (signature, blockhash, encoded)"
      by (cases out)
    define sc where "sc = \<lparr>sc_chunk_index = index, sc_row_numbers = row_numbers plan,
      sc_signature = signature, signed_transaction_base64 = encoded, sc_blockhash = blockhash,
      sc_last_valid_block_height = lv\<rparr>"
    have p': "p' = p\<lparr>signed_amount_raw := projected, signed_tx_count := signed_tx_count p + 1,
        signed_chunks := (signed_chunks p)(index \<mapsto>
          \<lparr>rec_blockhash = blockhash, rec_last_valid_block_height = lv, attempts = 1\<rparr>)\<rparr>"
      and r: "r = Inr sc"
      using call Inr \<open>sign_chunk_checks env now p index tx = Inr res\<close>
      by (simp_all add: sign_chunk_def res out p1_def sc_def Let_def)
    have "records_log p' ((SignOp sg now index tx lv, sc) # log)"
      unfolding p' using inv checks by (intro records_log_sign) (simp_all add: permit_inv_def sc_def)
    moreover have "same_authority p0 p'"
      using auth by (simp add: p' same_authority_def)
    moreover have "log_planned env p0 ((SignOp sg now index tx lv, sc) # log)"
      using inv checks transaction_matches_authority [OF auth] plan_for_authority [OF auth]
      by (simp add: permit_inv_def log_planned_def sc_def)
    moreover have "log_justified ((SignOp sg now index tx lv, sc) # log)"
      using inv fresh by (simp add: permit_inv_def sc_def)
    ultimately show ?thesis
      using sums bounds by (simp add: permit_inv_def r signed_indices_Cons) (simp add: p' sc_def)
  qed
qed

lemma resign_chunk_inv:
  assumes inv: "permit_inv env p0 (p, log)"
    and call: "resign_chunk env sg now p index tx lv pr = (p', r)"
  shows "permit_inv env p0 (p', case r of Inl _ \<Rightarrow> log | Inr sc \<Rightarrow> (ResignOp sg now index tx lv pr, sc) # log)"
proof (cases "resign_chunk_checks env now p index tx pr")
  case (Inl e)
  then show ?thesis
    using inv call by (auto simp: resign_chunk_def)
next
  case (Inr res)
  obtain plan prior where res: "res = (plan, prior)"
    by (cases res)
  note checks = Inr [unfolded res resign_chunk_checks_Inr]
  have auth: "same_authority p0 p"
    using inv by (simp add: permit_inv_def)
  from inv checks obtain prev where prev: "last_signed index log = Some prev"
      "rec_blockhash prior = sc_blockhash prev"
      "rec_last_valid_block_height prior = sc_last_valid_block_height prev"
    using records_logD [of p log index] by (auto simp: permit_inv_def record_agrees_simps)
  then have old: "insert index (signed_indices log) = signed_indices log"
    using last_signed_None [of index log] by auto
  show ?thesis
  proof (cases "sign_transaction_bytes sg p tx")
    case (Inl e)
    then show ?thesis
      using inv call \<open>resign_chunk_checks env now p index tx pr = Inr res\<close>
      by (auto simp: resign_chunk_def res)
  next
    case (Inr out)
    obtain signature blockhash encoded where out: "out = (signature, blockhash, encoded)"
      by (cases out)
    define sc where "sc = \<lparr>sc_chunk_index = index, sc_row_numbers = row_numbers plan,
      sc_signature = signature, signed_transaction_base64 = encoded, sc_blockhash = blockhash,
      sc_last_valid_block_height = lv\<rparr>"
    have p': "p' = p\<lparr>signed_chunks := (signed_chunks p)(index \<mapsto>
          \<lparr>rec_blockhash = blockhash, rec_last_valid_block_height = lv, attempts = attempts prior + 1\<rparr>)\<rparr>"
      and r: "r = Inr sc"
      using call Inr \<open>resign_chunk_checks env now p index tx pr = Inr res\<close>
      by (simp_all add: resign_chunk_def res out sc_def)
    have "records_log p' ((ResignOp sg now index tx lv pr, sc) # log)"
      unfolding p' using inv checks
      by (intro records_log_resign [of _ _ _ prior]) (simp_all add: permit_inv_def sc_def)
    moreover have "same_authority p0 p'"
      using auth by (simp add: p' same_authority_def)
    moreover have "log_planned env p0 ((ResignOp sg now index tx lv pr, sc) # log)"
      using inv checks transaction_matches_authority [OF auth] plan_for_authority [OF auth]
      by (simp add: permit_inv_def log_planned_def sc_def)
    moreover have "log_justified ((ResignOp sg now index tx lv pr, sc) # log)"
      using inv checks prev by (simp add: permit_inv_def sc_def)
    ultimately show ?thesis
      using inv old by (simp add: permit_inv_def r signed_indices_Cons) (simp add: p' sc_def)
  qed
qed

interpretation permit: state_machine "permit_step env" "permit_inv env p0"
  for env p0
proof
  fix st c
  assume inv: "permit_inv env p0 st"
  obtain p log where st: "st = (p, log)"
    by (cases st)
  obtain p' r where call: "permit_call env p c = (p', r)"
    by (cases "permit_call env p c")
  have "permit_step env st c = (p', case r of Inl _ \<Rightarrow> log | Inr sc \<Rightarrow> (c, sc) # log)"
    by (simp add: permit_step_def st call split: sum.split)
  moreover have "permit_inv env p0 (p', case r of Inl _ \<Rightarrow> log | Inr sc \<Rightarrow> (c, sc) # log)"
  proof (cases c)
    case SignOp
    then show ?thesis
      unfolding SignOp using call
      by (intro sign_chunk_inv [OF inv [unfolded st]]) (simp add: SignOp)
  next
    case ResignOp
    then show ?thesis
      unfolding ResignOp using call
      by (intro resign_chunk_inv [OF inv [unfolded st]]) (simp add: ResignOp)
  qed
  ultimately show "permit_inv env p0 (permit_step env st c)"
    by simp
qed

lemma authorize_inv:
  assumes "authorize env load_signer g m plan summary now ttl = Inr p0"
  shows "permit_inv env p0 (p0, [])" and "max_token_raw p0 = max_total_raw summary"
    and "max_transactions p0 = length (chunks plan)" and "pm_chunks p0 = chunks plan"
    and "validate_plan_matches_manifest m plan = Inr ()"
  using assms
  by (auto simp: authorize_def Let_def and_then_eq_Inr permit_inv_def same_authority_def
      records_log_def record_agrees_def last_signed_def signed_indices_def log_planned_def)

text \<open>The state after any sequence of calls on a freshly authorized permit.\<close>

lemma permit_run_inv:
  assumes "authorize env load_signer g m plan summary now ttl = Inr p0"
    and "run_ops (permit_step env) (p0, []) ops = (p, log)"
  shows "permit_inv env p0 (p, log)"
  using permit.run_inv [OF authorize_inv(1) [OF assms(1)], of ops] assms(2) by simp

lemma times_signed_bound:
  assumes "permit_inv env p0 (p, log)"
  shows "times_signed i log \<le> MAX_RESIGN_ATTEMPTS_PER_CHUNK"
proof (cases "signed_chunks p i")
  case None
  then have "last_signed i log = None"
    using assms records_logD [of p log i] by (simp add: permit_inv_def record_agrees_simps)
  then show ?thesis by (simp add: times_signed_0)
next
  case (Some r)
  then show ?thesis
    using assms records_logD [of p log i] by (simp add: permit_inv_def record_agrees_simps)
qed

section \<open>A concrete permit\<close>

definition sample_env :: chain_env where
  "sample_env = \<lparr>compute_budget_program_id = [101], associated_token_program_id = [102],
     token_program_id = [103], token_2022_program_id = [104], memo_program_id = [105],
     system_program_id = [106], find_program_address = (\<lambda>seeds prog. concat seeds @ prog)\<rparr>"

definition sample_summary :: batch_authorization_summary where
  "sample_summary = \<lparr>sum_account = ''default'', sum_currency = ''USDC'', sum_currency_decimals = 6,
     sum_network = ''localnet'', recipient_total_raw = 18, max_total_raw = 18\<rparr>"

text \<open>The transaction of the second chunk of \<open>sample_plan\<close>: 7 units to the recipient \<open>[3]\<close>.\<close>

definition sample_tx :: versioned_transaction where
  "sample_tx =
     (let dest = [3] @ replicate 32 9 @ replicate 32 8 @ [102];
          source = [9] @ replicate 32 9 @ replicate 32 8 @ [102] in
      \<lparr>signatures = [[], []],
       account_keys = [[8], [9], [101], [103], [105], source, replicate 32 8, dest],
       recent_blockhash = [77],
       instructions =
         [\<lparr>program_id_index = 2, accounts = [], data = 3 # to_le_bytes 8 100\<rparr>,
          \<lparr>program_id_index = 2, accounts = [], data = 2 # to_le_bytes 4 11000\<rparr>,
          \<lparr>program_id_index = 3, accounts = [5, 6, 7, 1], data = 12 # to_le_bytes 8 7 @ [6]\<rparr>,
          \<lparr>program_id_index = 4, accounts = [], data = bytes_of_string ''pay-push:v1:abcd0102:4''\<rparr>]\<rparr>)"

definition sample_signer :: signer where
  "sample_signer = \<lparr>sign_slot = (\<lambda>tx. Inr (tx\<lparr>signatures := [[], [42]]\<rparr>)), encode_tx = (\<lambda>_. Inr ''tx'')\<rparr>"

definition sample_permit :: batch_signing_permit where
  "sample_permit = \<lparr>pm_manifest_hash = [171, 205, 1, 2, 3], account_pubkey = [9],
     pm_network_genesis_hash = replicate 32 7, pm_mint = replicate 32 8,
     pm_token_program = replicate 32 9, pm_decimals = 6,
     source_ata = [9] @ replicate 32 9 @ replicate 32 8 @ [102],
     pm_fee_payer_mode = SelfFunded, pm_fee_payer = [8], pm_chunks = chunks sample_plan,
     max_token_raw = 18, max_transactions = 2, expires_at = 1060,
     signed_amount_raw = 0, signed_tx_count = 0, signed_chunks = Map.empty\<rparr>"

definition sample_signed :: signed_chunk where
  "sample_signed = \<lparr>sc_chunk_index = 4, sc_row_numbers = [4], sc_signature = [42],
     signed_transaction_base64 = ''tx'', sc_blockhash = [77], sc_last_valid_block_height = 500\<rparr>"

lemma sample_rows_distinct: "distinct (map row_number (manifest_rows sample_manifest))"
  by (simp add: sample_manifest_def number_rows_def)

lemma sample_approved: "validate_plan_matches_manifest sample_manifest sample_plan = Inr ()"
  by (subst validate_plan_iff [OF sample_rows_distinct])
    (simp add: sample_manifest_def sample_plan_def number_rows_def entry_triple_def row_triple_def)

lemma sample_authorize:
  "authorize sample_env (\<lambda>_. Inr [9]) (replicate 32 7) sample_manifest sample_plan sample_summary 1000 60
   = Inr sample_permit"
proof -
  obtain shown where "format_token_amount 18 6 = Some shown"
    using format_parse [of 18 6] by auto
  then obtain prompt where "authorization_intent sample_summary (length (manifest_rows sample_manifest))
      (manifest_hash_prefix (hash_hex sample_manifest)) = Some prompt"
    by (simp add: authorization_intent_def sample_summary_def)
  then have "authorize sample_env (\<lambda>_. Inr [9]) (replicate 32 7) sample_manifest sample_plan
      sample_summary 1000 60 = Inr \<lparr>pm_manifest_hash = manifest_hash sample_manifest, account_pubkey = [9],
        pm_network_genesis_hash = replicate 32 7, pm_mint = mint sample_context,
        pm_token_program = token_program sample_context, pm_decimals = decimals sample_context,
        source_ata = derive_associated_token_address sample_env [9] (mint sample_context)
          (token_program sample_context),
        pm_fee_payer_mode = plan_fee_payer_mode sample_plan, pm_fee_payer = plan_fee_payer sample_plan,
        pm_chunks = chunks sample_plan, max_token_raw = max_total_raw sample_summary,
        max_transactions = length (chunks sample_plan), expires_at = 1060,
        signed_amount_raw = 0, signed_tx_count = 0, signed_chunks = Map.empty\<rparr>"
    by (simp add: authorize_def sample_approved Let_def) (simp add: sample_manifest_def)
  then show ?thesis
    by (simp add: sample_permit_def sample_plan_def sample_manifest_def sample_context_def
        sample_env_def sample_summary_def derive_associated_token_address_def)
qed

lemma sample_tx_matches: "transaction_matches sample_env sample_permit (chunks sample_plan ! 1) sample_tx"
proof -
  have "utf8_valid (bytes_of_string ''pay-push:v1:abcd0102:4'')"
    by code_simp
  then show ?thesis
    by (simp add: transaction_matches_def chunk_specs_def entry_specs_def sample_plan_def sample_tx_def
        sample_permit_def sample_env_def derive_associated_token_address_def key_at_def nth_opt_def Let_def
        del: to_le_bytes.simps) (intro conjI exI [of _ 100] exI [of _ 11000]; simp)
qed

lemma sample_sign:
  "run_ops (permit_step sample_env) (sample_permit, []) [SignOp sample_signer 1001 4 sample_tx 500]
   = (sample_permit\<lparr>signed_amount_raw := 7, signed_tx_count := 1, signed_chunks :=
        [4 \<mapsto> \<lparr>rec_blockhash = [77], rec_last_valid_block_height = 500, attempts = 1\<rparr>]\<rparr>,
      [(SignOp sample_signer 1001 4 sample_tx 500, sample_signed)])"
proof -
  have "sign_chunk_checks sample_env 1001 sample_permit 4 sample_tx = Inr (chunks sample_plan ! 1, 7)"
    unfolding sign_chunk_checks_Inr
    using sample_tx_matches by (simp add: sample_permit_def plan_for_def sample_plan_def)
  moreover have "sign_transaction_bytes sample_signer
      (sample_permit\<lparr>signed_amount_raw := 7, signed_tx_count := 1\<rparr>) sample_tx = Inr ([42], [77], ''tx'')"
    by (simp add: sign_transaction_bytes_def sample_signer_def sample_tx_def sample_permit_def nth_opt_def
        Let_def)
  ultimately show ?thesis
    by (simp add: run_ops_def permit_step_def sign_chunk_def sample_signed_def row_numbers_def
        sample_plan_def) (simp add: sample_permit_def row_numbers_def)
qed

text \<open>The chunk is prepared again on another blockhash after the first one expired at height 500.\<close>

definition sample_retry :: versioned_transaction where
  "sample_retry = sample_tx\<lparr>recent_blockhash := [78]\<rparr>"

definition sample_expiry :: blockhash_expiry_proof where
  "sample_expiry = \<lparr>previous_blockhash = [77], previous_last_valid_block_height = 500,
     confirmed_current_block_height = 501\<rparr>"

definition sample_resigned :: signed_chunk where
  "sample_resigned = \<lparr>sc_chunk_index = 4, sc_row_numbers = [4], sc_signature = [42],
     signed_transaction_base64 = ''tx'', sc_blockhash = [78], sc_last_valid_block_height = 900\<rparr>"

lemma sample_resign:
  "run_ops (permit_step sample_env) (sample_permit, [])
     [SignOp sample_signer 1001 4 sample_tx 500, ResignOp sample_signer 1002 4 sample_retry 900 sample_expiry]
   = (sample_permit\<lparr>signed_amount_raw := 7, signed_tx_count := 1, signed_chunks :=
        [4 \<mapsto> \<lparr>rec_blockhash = [78], rec_last_valid_block_height = 900, attempts = 2\<rparr>]\<rparr>,
      [(ResignOp sample_signer 1002 4 sample_retry 900 sample_expiry, sample_resigned),
       (SignOp sample_signer 1001 4 sample_tx 500, sample_signed)])"
proof -
  let ?prior = "\<lparr>rec_blockhash = [77], rec_last_valid_block_height = 500, attempts = 1\<rparr>"
  let ?p = "sample_permit\<lparr>signed_amount_raw := 7, signed_tx_count := 1, signed_chunks := [4 \<mapsto> ?prior]\<rparr>"
  have "same_authority sample_permit ?p"
    by (simp add: same_authority_def)
  then have "transaction_matches sample_env ?p (chunks sample_plan ! 1) sample_retry"
    using sample_tx_matches
    by (simp add: transaction_matches_authority sample_retry_def transaction_matches_blockhash)
  then have "resign_chunk_checks sample_env 1002 ?p 4 sample_retry sample_expiry = Inr (chunks sample_plan ! 1, ?prior)"
    unfolding resign_chunk_checks_Inr
    by (simp add: sample_permit_def plan_for_def sample_plan_def sample_expiry_def sample_retry_def
        MAX_RESIGN_ATTEMPTS_PER_CHUNK_def)
  moreover have "sign_transaction_bytes sample_signer ?p sample_retry = Inr ([42], [78], ''tx'')"
    by (simp add: sign_transaction_bytes_def sample_signer_def sample_retry_def sample_tx_def sample_permit_def
        nth_opt_def Let_def)
  ultimately have "permit_step sample_env (?p, [(SignOp sample_signer 1001 4 sample_tx 500, sample_signed)])
      (ResignOp sample_signer 1002 4 sample_retry 900 sample_expiry)
    = (?p\<lparr>signed_chunks := [4 \<mapsto> \<lparr>rec_blockhash = [78], rec_last_valid_block_height = 900, attempts = 2\<rparr>]\<rparr>,
       [(ResignOp sample_signer 1002 4 sample_retry 900 sample_expiry, sample_resigned),
        (SignOp sample_signer 1001 4 sample_tx 500, sample_signed)])"
    by (simp add: permit_step_def resign_chunk_def sample_resigned_def row_numbers_def sample_plan_def
        numeral_2_eq_2)
  then show ?thesis
    using sample_sign by (simp add: run_ops_def)
qed

section \<open>Properties\<close>

text \<open>
  C25: what the permit signs. A prepared transaction passes validation exactly when its fee payer is
  the approved one and its instructions are, one by one and with nothing after them, the planned
  list: the compute-unit price and limit within their ceilings, then per payout the creation of the
  recipient's token account where planned and the transfer of exactly the planned amount from the
  permit's source account to that token account under the permit's authority, then the chunk's memo.
  The transfer may run under either of the two token programs.
\<close>
theorem permit_accepts_exactly_the_plan:
  "validate_prepared_transaction env p plan tx = Inr () \<longleftrightarrow>
     nth_opt (account_keys tx) 0 = Some (pm_fee_payer p)
     \<and> list_all2 (ix_matches env p tx) (chunk_specs env p plan) (instructions tx)"
  unfolding validate_prepared_transaction_iff transaction_matches_def ..

text \<open>
  a plan is approved exactly when it is the manifest. For a manifest whose row numbers are
  distinct, \<open>validate_plan_matches_manifest\<close> accepts exactly the plans whose entries, over all
  chunks, are the manifest's rows with the same recipients and amounts: none missing, added,
  changed or repeated.
\<close>
theorem plan_approved_iff_manifest:
  assumes "distinct (map row_number (manifest_rows m))"
  shows "validate_plan_matches_manifest m plan = Inr () \<longleftrightarrow>
    mset (map (\<lambda>e. (entry_row_number e, entry_recipient e, entry_amount_raw e))
      (concat (map entries (chunks plan))))
    = mset (map (\<lambda>row. (row_number row, recipient row, amount_raw row)) (manifest_rows m))"
  using validate_plan_iff [OF assms, of plan]
  unfolding entry_triple_def [abs_def] row_triple_def [abs_def] .

theorem plan_approved_iff_manifest_witness:
  "validate_plan_matches_manifest sample_manifest sample_plan = Inr () \<longleftrightarrow>
    mset (map (\<lambda>e. (entry_row_number e, entry_recipient e, entry_amount_raw e))
      (concat (map entries (chunks sample_plan))))
    = mset (map (\<lambda>row. (row_number row, recipient row, amount_raw row)) (manifest_rows sample_manifest))"
  by (rule plan_approved_iff_manifest [OF sample_rows_distinct])

text \<open>
  C4: the approval bounds every sequence of signing calls. Whatever calls are made on an authorized
  permit, in whatever order, with whatever transactions and signer behaviour, the planned amounts of
  the chunks it has signed add up to at most the approved ceiling, it has signed at most as many
  chunks as the plan has, and no chunk more than five times.
\<close>
theorem permit_never_exceeds_approval:
  assumes "authorize env load_signer g m plan summary now ttl = Inr p0"
    and "run_ops (permit_step env) (p0, []) ops = (p, log)"
  shows "(\<Sum>i\<in>signed_indices log. chunk_amount p0 i) \<le> max_total_raw summary
    \<and> card (signed_indices log) \<le> length (chunks plan)
    \<and> times_signed i log \<le> 5"
proof -
  note inv = permit_run_inv [OF assms]
  show ?thesis
    using inv times_signed_bound [OF inv, of i] authorize_inv(2,3) [OF assms(1)]
    by (simp add: permit_inv_def MAX_RESIGN_ATTEMPTS_PER_CHUNK_def)
qed

theorem permit_never_exceeds_approval_witness:
  "(\<Sum>i\<in>signed_indices [(SignOp sample_signer 1001 4 sample_tx 500, sample_signed)].
        chunk_amount sample_permit i) \<le> max_total_raw sample_summary
    \<and> card (signed_indices [(SignOp sample_signer 1001 4 sample_tx 500, sample_signed)])
        \<le> length (chunks sample_plan)
    \<and> times_signed 4 [(SignOp sample_signer 1001 4 sample_tx 500, sample_signed)] \<le> 5"
  by (rule permit_never_exceeds_approval [OF sample_authorize sample_sign])

text \<open>
  C5: only planned transactions are signed. Every signature in the log of an authorized permit was
  produced for a transaction that matches the planned chunk of that index, and reports the rows of
  that chunk.
\<close>
theorem permit_signs_only_planned:
  assumes "authorize env load_signer g m plan summary now ttl = Inr p0"
    and "run_ops (permit_step env) (p0, []) ops = (p, log)"
    and "(c, sc) \<in> set log"
  shows "\<exists>ch\<in>set (chunks plan). chunk_index ch = sc_chunk_index sc
    \<and> transaction_matches env p0 ch (op_tx c) \<and> sc_row_numbers sc = row_numbers ch"
proof -
  have "log_planned env p0 log"
    using permit_run_inv [OF assms(1,2)] by (simp add: permit_inv_def)
  then obtain ch where "plan_for p0 (sc_chunk_index sc) = Inr ch"
      "transaction_matches env p0 ch (op_tx c)" "sc_row_numbers sc = row_numbers ch"
    using assms(3) by (auto simp: log_planned_def)
  moreover from this(1) have "ch \<in> set (chunks plan)" "chunk_index ch = sc_chunk_index sc"
    using authorize_inv(4) [OF assms(1)] by (auto simp: plan_for_def ok_or_eq_Inr find_Some_iff)
  ultimately show ?thesis by blast
qed

theorem permit_signs_only_planned_witness:
  "\<exists>ch\<in>set (chunks sample_plan). chunk_index ch = sc_chunk_index sample_signed
    \<and> transaction_matches sample_env sample_permit ch (op_tx (SignOp sample_signer 1001 4 sample_tx 500))
    \<and> sc_row_numbers sample_signed = row_numbers ch"
  by (rule permit_signs_only_planned [OF sample_authorize sample_sign]) simp

text \<open>
  C26: a chunk is signed again only after its last signature provably expired. In the log of an
  authorized permit, newest first, every signature is either the first one of its chunk and came from
  \<open>sign_chunk\<close>, or came from \<open>resign_chunk\<close> with a proof that names the blockhash and expiry height
  of the previous signature of that chunk and shows a later block height, on a transaction with
  another blockhash.
\<close>
theorem permit_resigns_only_after_expiry:
  assumes "authorize env load_signer g m plan summary now ttl = Inr p0"
    and "run_ops (permit_step env) (p0, []) ops = (p, newer @ (c, sc) # older)"
  shows "resign_justified (last_signed (sc_chunk_index sc) older) c"
proof -
  have justified: "log_justified (newer @ (c, sc) # older)"
    using permit_run_inv [OF assms] by (simp add: permit_inv_def)
  have "log_justified (xs @ ys) \<Longrightarrow> log_justified ys" for xs ys
    by (induction xs) auto
  from this [OF justified] show ?thesis by simp
qed

theorem permit_resigns_only_after_expiry_witness:
  "snd (run_ops (permit_step sample_env) (sample_permit, [])
      [SignOp sample_signer 1001 4 sample_tx 500, ResignOp sample_signer 1002 4 sample_retry 900 sample_expiry])
     = [(ResignOp sample_signer 1002 4 sample_retry 900 sample_expiry, sample_resigned),
        (SignOp sample_signer 1001 4 sample_tx 500, sample_signed)]
   \<and> previous_blockhash sample_expiry = sc_blockhash sample_signed
   \<and> sc_last_valid_block_height sample_signed < confirmed_current_block_height sample_expiry
   \<and> recent_blockhash sample_retry \<noteq> sc_blockhash sample_signed"
proof -
  have "last_signed (sc_chunk_index sample_resigned) [(SignOp sample_signer 1001 4 sample_tx 500, sample_signed)]
      = Some sample_signed"
    by (simp add: last_signed_def sample_resigned_def sample_signed_def)
  then have "resign_justified (Some sample_signed) (ResignOp sample_signer 1002 4 sample_retry 900 sample_expiry)"
    using permit_resigns_only_after_expiry [OF sample_authorize, where newer = "[]"
        and c = "ResignOp sample_signer 1002 4 sample_retry 900 sample_expiry" and sc = sample_resigned
        and older = "[(SignOp sample_signer 1001 4 sample_tx 500, sample_signed)]"] sample_resign
    by simp
  then show ?thesis
    using sample_resign by simp
qed

end
