(* ===== verification/Tx_Landing.thy ===== *)
theory Tx_Landing
  imports Json_Value
begin

text \<open>
  Whether a signed transaction can still land (\<^verbatim>\<open>src/rust/crates/types/src/landing.rs\<close>).

  The cluster is the argument \<open>chain\<close>, a pair of reads that thread a world of type \<open>'w\<close>, so the order
  of the two reads is part of the model. The lemmas describe the answers case by case and relate them
  to the ledger: under the documented behaviour of the cluster, a transaction declared replaceable
  never succeeds.
\<close>

section \<open>Data\<close>

record chain_tip =
  tip_slot :: nat
  tip_block_height :: nat

datatype signature_status = StatusAbsent | StatusFailed (finalized: bool) | StatusProcessed | StatusConfirmed

record signature_statuses =
  context_slot :: nat
  statuses :: "signature_status list"

record ('w, 'e) chain_state =
  finalized_tip :: "'w \<Rightarrow> ('e + chain_tip) \<times> 'w"
  signature_statuses_of :: "'w \<Rightarrow> string list \<Rightarrow> ('e + signature_statuses) \<times> 'w"

record recorded_payout =
  payout_signature :: string
  last_valid_block_height :: "nat option"

datatype replace_reason = ReasonFailed | ReasonExpired

record replaceable =
  replace_reason_of :: replace_reason

datatype landing = LandingConfirmed | MayLand | LandingUnknown | LandingReplaceable replaceable

section \<open>Classification\<close>

definition classify :: "chain_tip \<Rightarrow> recorded_payout \<Rightarrow> signature_status \<Rightarrow> landing" where
  "classify tip payout status =
     (let expired = (case last_valid_block_height payout of
            None \<Rightarrow> False | Some last_valid \<Rightarrow> last_valid < tip_block_height tip);
          replaceable_for = (\<lambda>reason. LandingReplaceable \<lparr>replace_reason_of = reason\<rparr>) in
      case status of
        StatusConfirmed \<Rightarrow> LandingConfirmed
      | StatusFailed fin \<Rightarrow> if fin \<or> expired then replaceable_for ReasonFailed else MayLand
      | StatusAbsent \<Rightarrow> if expired then replaceable_for ReasonExpired else MayLand
      | StatusProcessed \<Rightarrow> MayLand)"

definition confirm_not_landed ::
  "('w, 'e) chain_state \<Rightarrow> recorded_payout list \<Rightarrow> 'w \<Rightarrow> ('e + landing list) \<times> 'w" where
  "confirm_not_landed chain payouts w =
     (if payouts = [] then (Inr [], w)
      else
        case finalized_tip chain w of
          (Inl e, w1) \<Rightarrow> (Inl e, w1)
        | (Inr tip, w1) \<Rightarrow>
            case signature_statuses_of chain w1 (map payout_signature payouts) of
              (Inl e, w2) \<Rightarrow> (Inl e, w2)
            | (Inr observed, w2) \<Rightarrow>
                if context_slot observed < tip_slot tip \<or> length (statuses observed) \<noteq> length payouts
                then (Inr (replicate (length payouts) LandingUnknown), w2)
                else (Inr (map2 (classify tip) payouts (statuses observed)), w2))"

section \<open>RPC entries\<close>

definition signature_status_from_rpc :: "json \<Rightarrow> signature_status" where
  "signature_status_from_rpc entry =
     (if entry = JNull then StatusAbsent
      else
        let commitment = Option.bind (json_get entry ''confirmationStatus'') json_as_str in
        if (case json_get entry ''err'' of None \<Rightarrow> False | Some err \<Rightarrow> err \<noteq> JNull)
        then StatusFailed (commitment = Some ''finalized'')
        else if commitment = Some ''confirmed'' \<or> commitment = Some ''finalized'' then StatusConfirmed
        else StatusProcessed)"

section \<open>The ledger behind the answers\<close>

text \<open>
  A block of the ledger and the transactions it executed, with whether each succeeded. \<open>ledger\<close> is
  the chain the cluster eventually finalizes; \<open>fork\<close> is the chain the node that answers is on.
  \<open>sound_cluster\<close> is what Solana documents: a finalized tip is a block of the ledger and of every
  fork at least as long; a signature executes at most once per chain, and only in blocks up to its
  last valid height; a status describes the answering node's fork up to the context slot, and a
  finalized status describes the ledger.
\<close>

record block =
  block_slot :: nat
  block_height :: nat
  executed :: "(string \<times> bool) list"

definition ordered_chain :: "block set \<Rightarrow> bool" where
  "ordered_chain bs \<longleftrightarrow>
     (\<forall>a\<in>bs. \<forall>b\<in>bs. (block_height a < block_height b \<longleftrightarrow> block_slot a < block_slot b)
        \<and> (block_height a = block_height b \<longrightarrow> a = b))"

definition executes_once :: "block set \<Rightarrow> string \<Rightarrow> bool" where
  "executes_once bs sig \<longleftrightarrow>
     (\<forall>a\<in>bs. \<forall>b\<in>bs. \<forall>r r'. (sig, r) \<in> set (executed a) \<longrightarrow> (sig, r') \<in> set (executed b)
        \<longrightarrow> a = b \<and> r = r')"

definition within_validity :: "block set \<Rightarrow> recorded_payout \<Rightarrow> bool" where
  "within_validity bs payout \<longleftrightarrow>
     (case last_valid_block_height payout of
        None \<Rightarrow> True
      | Some lv \<Rightarrow> \<forall>b\<in>bs. \<forall>r. (payout_signature payout, r) \<in> set (executed b) \<longrightarrow> block_height b \<le> lv)"

definition status_of_fork :: "block set \<Rightarrow> block set \<Rightarrow> nat \<Rightarrow> string \<Rightarrow> signature_status \<Rightarrow> bool" where
  "status_of_fork ledger fork ctx sig status \<longleftrightarrow>
     (case status of
        StatusAbsent \<Rightarrow> \<forall>b\<in>fork. block_slot b \<le> ctx \<longrightarrow> (\<forall>r. (sig, r) \<notin> set (executed b))
      | StatusFailed fin \<Rightarrow>
          \<exists>b\<in>(if fin then ledger else fork). (sig, False) \<in> set (executed b)
      | _ \<Rightarrow> \<exists>b\<in>fork. (sig, True) \<in> set (executed b))"

definition sound_cluster ::
  "block set \<Rightarrow> block set \<Rightarrow> chain_tip \<Rightarrow> signature_statuses \<Rightarrow> recorded_payout list \<Rightarrow> bool" where
  "sound_cluster ledger fork tip observed payouts \<longleftrightarrow>
     ordered_chain ledger
     \<and> (\<exists>b\<in>ledger. block_slot b = tip_slot tip \<and> block_height b = tip_block_height tip)
     \<and> {b \<in> ledger. block_slot b \<le> tip_slot tip} \<subseteq> fork
     \<and> (\<forall>payout\<in>set payouts. executes_once ledger (payout_signature payout)
          \<and> executes_once fork (payout_signature payout) \<and> within_validity ledger payout)
     \<and> list_all2 (\<lambda>payout status. status_of_fork ledger fork (context_slot observed)
          (payout_signature payout) status) payouts (statuses observed)"

definition never_succeeds :: "block set \<Rightarrow> recorded_payout \<Rightarrow> bool" where
  "never_succeeds ledger payout \<longleftrightarrow> (\<forall>b\<in>ledger. (payout_signature payout, True) \<notin> set (executed b))"

section \<open>Soundness\<close>

lemma classify_replaceable:
  "classify tip payout status = LandingReplaceable rep \<longleftrightarrow>
     (status = StatusFailed True \<and> replace_reason_of rep = ReasonFailed)
     \<or> (\<exists>lv. last_valid_block_height payout = Some lv \<and> lv < tip_block_height tip
          \<and> ((\<exists>fin. status = StatusFailed fin) \<and> replace_reason_of rep = ReasonFailed
             \<or> status = StatusAbsent \<and> replace_reason_of rep = ReasonExpired))"
proof -
  have "\<lparr>replace_reason_of = r\<rparr> = rep \<longleftrightarrow> replace_reason_of rep = r" for r
    by auto
  then show ?thesis
    by (auto simp: classify_def Let_def split: signature_status.splits option.splits)
qed

text \<open>
  A transaction that expired before the finalized tip can only be in a ledger block that the fork
  already contains at the context slot.
\<close>

lemma expired_in_fork:
  assumes "ordered_chain ledger" and "tb \<in> ledger" and "block_slot tb = tip_slot tip"
    and "block_height tb = tip_block_height tip"
    and "{b \<in> ledger. block_slot b \<le> tip_slot tip} \<subseteq> fork" and "tip_slot tip \<le> ctx"
    and "b \<in> ledger" and "block_height b < tip_block_height tip"
  shows "b \<in> fork \<and> block_slot b \<le> ctx"
proof -
  have "block_slot b < block_slot tb"
    using assms(1,2,4,7,8) unfolding ordered_chain_def by metis
  then show ?thesis
    using assms(3,5,6,7) by auto
qed

lemma replaceable_never_succeeds:
  assumes sound: "sound_cluster ledger fork tip observed payouts"
    and recent: "tip_slot tip \<le> context_slot observed"
    and i: "i < length payouts"
    and answer: "classify tip (payouts ! i) (statuses observed ! i) = LandingReplaceable rep"
  shows "never_succeeds ledger (payouts ! i)"
  unfolding never_succeeds_def
proof (intro ballI notI)
  fix b
  let ?p = "payouts ! i" and ?st = "statuses observed ! i"
  let ?sig = "payout_signature ?p"
  assume b: "b \<in> ledger" and success: "(?sig, True) \<in> set (executed b)"
  have status: "status_of_fork ledger fork (context_slot observed) ?sig ?st"
    using sound i by (auto simp: sound_cluster_def list_all2_conv_all_nth)
  have p: "?p \<in> set payouts"
    using i by simp
  consider (final) "?st = StatusFailed True"
    | (expired) lv where "last_valid_block_height ?p = Some lv" "lv < tip_block_height tip"
        "(\<exists>fin. ?st = StatusFailed fin) \<or> ?st = StatusAbsent"
    using answer unfolding classify_replaceable by blast
  then show False
  proof cases
    case final
    then obtain c where "c \<in> ledger" "(?sig, False) \<in> set (executed c)"
      using status by (auto simp: status_of_fork_def)
    moreover have "executes_once ledger ?sig"
      using sound p by (auto simp: sound_cluster_def)
    ultimately show False
      using b success unfolding executes_once_def by blast
  next
    case expired
    have "block_height b \<le> lv"
      using sound p b success expired(1) by (force simp: sound_cluster_def within_validity_def)
    then have height: "block_height b < tip_block_height tip"
      using expired(2) by simp
    have in_fork: "b \<in> fork \<and> block_slot b \<le> context_slot observed"
    proof -
      obtain tb where "tb \<in> ledger" "block_slot tb = tip_slot tip" "block_height tb = tip_block_height tip"
        using sound by (auto simp: sound_cluster_def)
      then show ?thesis
        using expired_in_fork [OF _ _ _ _ _ recent b height, of tb fork] sound
        by (auto simp: sound_cluster_def)
    qed
    have once: "executes_once fork ?sig" "executes_once ledger ?sig"
      using sound p by (auto simp: sound_cluster_def)
    from expired(3) show False
    proof
      assume "\<exists>fin. ?st = StatusFailed fin"
      then obtain c where "c \<in> fork \<or> c \<in> ledger" "(?sig, False) \<in> set (executed c)"
        using status by (auto simp: status_of_fork_def split: if_splits)
      then show False
        using once in_fork b success unfolding executes_once_def by blast
    next
      assume "?st = StatusAbsent"
      then show False
        using status in_fork success by (auto simp: status_of_fork_def)
    qed
  qed
qed

lemma confirmed_never_succeeds:
  assumes "finalized_tip chain w = (Inr tip, w1)"
    and "signature_statuses_of chain w1 (map payout_signature payouts) = (Inr observed, w2)"
    and "sound_cluster ledger fork tip observed payouts"
    and "confirm_not_landed chain payouts w = (Inr landings, w')"
    and "i < length payouts" and "landings ! i = LandingReplaceable rep"
  shows "never_succeeds ledger (payouts ! i)"
proof -
  have nonempty: "payouts \<noteq> []"
    using assms(5) by auto
  have recent: "tip_slot tip \<le> context_slot observed \<and> length (statuses observed) = length payouts"
  proof (rule ccontr)
    assume "\<not> ?thesis"
    then have "landings = replicate (length payouts) LandingUnknown"
      using assms(1,2,4) nonempty by (auto simp: confirm_not_landed_def split: if_splits)
    then show False
      using assms(5,6) by simp
  qed
  then have "landings = map2 (classify tip) payouts (statuses observed)"
    using assms(1,2,4) nonempty by (auto simp: confirm_not_landed_def split: if_splits)
  then have "classify tip (payouts ! i) (statuses observed ! i) = LandingReplaceable rep"
    using assms(5,6) recent by simp
  then show ?thesis
    using replaceable_never_succeeds [OF assms(3)] recent assms(5) by blast
qed

section \<open>Properties\<close>

text \<open>
  C6: a payout declared replaceable never succeeds. Whenever \<open>confirm_not_landed\<close> answers
  replaceable for a payout, and the cluster behaves as documented (the finalized tip is on the ledger
  and on the answering fork, a signature executes at most once and not past its last valid height,
  statuses describe the fork at the reported slot), no block of the ledger, past or future, ever
  executes that signature successfully. The slot check of the code is what makes this hold.
\<close>
theorem replaceable_payout_never_lands:
  assumes "finalized_tip chain w = (Inr tip, w1)"
    and "signature_statuses_of chain w1 (map payout_signature payouts) = (Inr observed, w2)"
    and "sound_cluster ledger fork tip observed payouts"
    and "confirm_not_landed chain payouts w = (Inr landings, w')"
    and "i < length payouts" and "landings ! i = LandingReplaceable rep"
  shows "never_succeeds ledger (payouts ! i)"
  using assms by (rule confirmed_never_succeeds)

definition sample_chain :: "(nat, string) chain_state" where
  "sample_chain = \<lparr>finalized_tip = (\<lambda>w. (Inr \<lparr>tip_slot = 20, tip_block_height = 11\<rparr>, w + 1)),
     signature_statuses_of = (\<lambda>w sigs. (Inr \<lparr>context_slot = 21, statuses = [StatusAbsent]\<rparr>, w + 1))\<rparr>"

definition sample_ledger :: "block set" where
  "sample_ledger = {\<lparr>block_slot = 18, block_height = 10, executed = [(''other'', True)]\<rparr>,
     \<lparr>block_slot = 20, block_height = 11, executed = []\<rparr>}"

theorem replaceable_payout_never_lands_witness:
  "never_succeeds sample_ledger
     ([\<lparr>payout_signature = ''sig'', last_valid_block_height = Some 10\<rparr>] ! 0)"
  by (rule replaceable_payout_never_lands [of sample_chain 0 "\<lparr>tip_slot = 20, tip_block_height = 11\<rparr>" 1 _
        "\<lparr>context_slot = 21, statuses = [StatusAbsent]\<rparr>" 2 _ sample_ledger
        "[LandingReplaceable \<lparr>replace_reason_of = ReasonExpired\<rparr>]" 2 0 "\<lparr>replace_reason_of = ReasonExpired\<rparr>"])
    (simp_all add: sample_chain_def sample_ledger_def sound_cluster_def ordered_chain_def
      executes_once_def within_validity_def status_of_fork_def confirm_not_landed_def classify_def
      subset_iff)

text \<open>
  One answer per payout, and stale answers prove nothing. \<open>confirm_not_landed\<close> answers with one
  landing per payout; if the statuses reflect an older slot than the tip read before them, or do not
  match the request in number, every answer is unknown; a missing payout expiry height never yields a
  replacement for an absent or unfinalized transaction.
\<close>
lemma confirm_not_landed_answers:
  assumes "finalized_tip chain w = (Inr tip, w1)"
    and "signature_statuses_of chain w1 (map payout_signature payouts) = (Inr observed, w2)"
    and "payouts \<noteq> []"
  shows "confirm_not_landed chain payouts w =
    (Inr (if context_slot observed < tip_slot tip \<or> length (statuses observed) \<noteq> length payouts
          then replicate (length payouts) LandingUnknown
          else map2 (classify tip) payouts (statuses observed)), w2)
   \<and> (last_valid_block_height payout = None \<and> classify tip payout status = LandingReplaceable rep
        \<longrightarrow> status = StatusFailed True)"
  using assms classify_replaceable [of tip payout status rep] by (auto simp: confirm_not_landed_def)

theorem confirm_not_landed_answers_witness:
  "confirm_not_landed sample_chain [\<lparr>payout_signature = ''sig'', last_valid_block_height = Some 10\<rparr>] 0 =
    (Inr [LandingReplaceable \<lparr>replace_reason_of = ReasonExpired\<rparr>], 2)"
  using confirm_not_landed_answers [of sample_chain 0 "\<lparr>tip_slot = 20, tip_block_height = 11\<rparr>" 1
      "[\<lparr>payout_signature = ''sig'', last_valid_block_height = Some 10\<rparr>]"
      "\<lparr>context_slot = 21, statuses = [StatusAbsent]\<rparr>" 2]
  by (simp add: sample_chain_def classify_def)

text \<open>
  Reading an RPC entry. A null entry is absent; otherwise a non-null error field makes it failed,
  finalized exactly when its commitment says so; otherwise it is confirmed exactly for the commitments
  confirmed and finalized. So a failed transaction is never read as confirmed.
\<close>
lemma signature_status_from_rpc_exact:
  "(signature_status_from_rpc v = StatusAbsent \<longleftrightarrow> v = JNull)
   \<and> (signature_status_from_rpc v = StatusFailed fin \<longleftrightarrow>
        v \<noteq> JNull \<and> (\<exists>err. json_get v ''err'' = Some err \<and> err \<noteq> JNull)
        \<and> (fin \<longleftrightarrow> json_get v ''confirmationStatus'' = Some (JString ''finalized'')))
   \<and> (signature_status_from_rpc v = StatusConfirmed \<longleftrightarrow>
        v \<noteq> JNull \<and> (json_get v ''err'' = None \<or> json_get v ''err'' = Some JNull)
        \<and> (json_get v ''confirmationStatus'' = Some (JString ''confirmed'')
           \<or> json_get v ''confirmationStatus'' = Some (JString ''finalized'')))"
proof -
  have str: "Option.bind (json_get v k) json_as_str = Some s \<longleftrightarrow> json_get v k = Some (JString s)" for k s
  proof (cases "json_get v k")
    case (Some x)
    then show ?thesis by (cases x) (simp_all add: json_as_str_def)
  qed simp
  show ?thesis
    unfolding signature_status_from_rpc_def Let_def str
    by (cases "json_get v ''err''"; cases "v = JNull") (auto split: if_splits)
qed

end
