(* ===== verification/Push_Journal.thy ===== *)
theory Push_Journal
  imports Push_Permit Tx_Landing
begin

text \<open>
  The append-only journal of a \<open>pay push\<close> run and its resume reducer
  (\<^verbatim>\<open>src/rust/crates/core/src/client/push/journal.rs\<close>).

  The file system is a map from paths to contents (UTF-8 text). What the operating system answers to a
  call (whether a write fails, and after how many bytes; the outcome of every lock attempt) is an
  argument of the operation. The JSON encoding of an event is third-party: a \<open>codec\<close> argument.

  The lemmas show that a journal reads back exactly what was appended, that a torn last record is
  dropped and cut off, in which case an event that was durably appended is nevertheless lost, and that
  resuming only signs anew when the recorded signature can no longer land.
\<close>

section \<open>Events\<close>

datatype journal_event_kind =
    RunCreated (rc_manifest_hash_hex: string) (rc_network: string) (rc_currency: string) (rc_mint: string)
      (rc_token_program: string) (rc_decimals: nat) (rc_row_count: nat) (rc_total_amount_raw: nat)
      (rc_requested_fee_mode: string)
  | PreflightCompleted (pc_fee_payer_mode: string) (pc_estimated_fee_lamports: nat)
      (pc_missing_ata_rent_lamports: nat) (pc_reserve_lamports: nat) (pc_chunk_count: nat)
      (pc_max_token_raw: nat)
  | AuthorizationGranted (ag_account_pubkey: string) (ag_max_token_raw: nat) (ag_max_transactions: nat)
      (ag_expires_at: int)
  | ChunkPrepared (ev_chunk_index: nat) (ev_row_numbers: "nat list") (ev_memo: string)
  | ChunkSigned (ev_chunk_index: nat) (ev_row_numbers: "nat list") (ev_signature: string)
      (ev_signed_transaction_base64: string) (ev_blockhash: string) (ev_last_valid_block_height: nat)
  | ChunkBroadcast (ev_chunk_index: nat) (ev_signature: string)
  | ChunkConfirmed (ev_chunk_index: nat) (ev_signature: string)
  | ChunkFailed (ev_chunk_index: nat) (ev_reason: string) (ev_retryable: bool)
  | RunInterrupted (ev_reason: string) (ri_confirmed: nat) (ri_failed: nat) (ri_remaining: nat)
  | RunCompleted (rd_confirmed: nat) (rd_failed: nat) (rd_unknown: nat)

definition kind_chunk_index :: "journal_event_kind \<Rightarrow> nat option" where
  "kind_chunk_index k =
     (case k of
        ChunkPrepared i _ _ \<Rightarrow> Some i
      | ChunkSigned i _ _ _ _ _ \<Rightarrow> Some i
      | ChunkBroadcast i _ \<Rightarrow> Some i
      | ChunkConfirmed i _ \<Rightarrow> Some i
      | ChunkFailed i _ _ \<Rightarrow> Some i
      | _ \<Rightarrow> None)"

record journal_event =
  sequence :: nat
  timestamp :: int
  kind :: journal_event_kind

datatype chunk_broadcast_permit = ChunkBroadcastPermit (permit_chunk_index: nat)

record journal =
  journal_path :: string
  next_sequence :: nat

type_synonym files = "string \<rightharpoonup> string"

record codec =
  to_json :: "journal_event \<Rightarrow> string option"
  from_json :: "string \<Rightarrow> journal_event option"

datatype journal_error =
    CreateDirFailed
  | CreateFailed
  | OpenFailed
  | LockInUse
  | LockFailed
  | SerializeEventFailed
  | WriteFailed
  | FlushFailed
  | SyncFailed
  | ReadFailedJournal
  | TruncateFailed
  | Corrupted nat
  | NonMonotonic nat nat

section \<open>Locking and opening\<close>

datatype try_lock_outcome = LockOk | WouldBlock | LockError

definition LOCK_RETRIES :: nat where
  "LOCK_RETRIES = 40"

text \<open>\<open>tries n\<close> is what the \<open>n\<close>-th call of \<open>try_lock\<close> answers.\<close>

function lock_loop :: "(nat \<Rightarrow> try_lock_outcome) \<Rightarrow> nat \<Rightarrow> journal_error + unit" where
  "lock_loop tries attempt =
     (case tries attempt of
        LockOk \<Rightarrow> Inr ()
      | WouldBlock \<Rightarrow> if attempt < LOCK_RETRIES then lock_loop tries (attempt + 1) else Inl LockInUse
      | LockError \<Rightarrow> Inl LockFailed)"
  by pat_completeness auto
termination by (relation "measure (\<lambda>(tries, attempt). LOCK_RETRIES - attempt)") auto

declare lock_loop.simps [simp del]

definition lock_exclusive :: "(nat \<Rightarrow> try_lock_outcome) \<Rightarrow> journal_error + unit" where
  "lock_exclusive tries = lock_loop tries 0"

definition create_new ::
  "bool \<Rightarrow> bool \<Rightarrow> (nat \<Rightarrow> try_lock_outcome) \<Rightarrow> files \<Rightarrow> string \<Rightarrow> files \<times> (journal_error + journal)" where
  "create_new dir_ok open_ok tries fs path =
     (if \<not> dir_ok then (fs, Inl CreateDirFailed)
      else if \<not> open_ok \<or> fs path \<noteq> None then (fs, Inl CreateFailed)
      else
        let fs = fs(path \<mapsto> []) in
        (fs, and_then (lock_exclusive tries) (\<lambda>_. Inr \<lparr>journal_path = path, next_sequence = 1\<rparr>)))"

section \<open>Appending\<close>

text \<open>
  \<open>WriteStops n\<close>: \<open>write_all\<close> failed after \<open>n\<close> bytes reached the file; the other failures come after
  the whole line was written.
\<close>

datatype write_outcome = WriteDone | WriteStops nat | FlushStops | SyncStops

definition append_event ::
  "codec \<Rightarrow> write_outcome \<Rightarrow> int \<Rightarrow> files \<times> journal \<Rightarrow> journal_event_kind
     \<Rightarrow> (files \<times> journal) \<times> (journal_error + journal_event)" where
  "append_event cd io now st k =
     (case st of (fs, j) \<Rightarrow>
        let event = \<lparr>sequence = next_sequence j, timestamp = now, kind = k\<rparr> in
        case to_json cd event of
          None \<Rightarrow> ((fs, j), Inl SerializeEventFailed)
        | Some rendered \<Rightarrow>
            let line = rendered @ [LF];
                old = (case fs (journal_path j) of None \<Rightarrow> [] | Some content \<Rightarrow> content);
                written = (\<lambda>n. fs(journal_path j \<mapsto> old @ take n line)) in
            case io of
              WriteStops n \<Rightarrow> ((written n, j), Inl WriteFailed)
            | FlushStops \<Rightarrow> ((written (length line), j), Inl FlushFailed)
            | SyncStops \<Rightarrow> ((written (length line), j), Inl SyncFailed)
            | WriteDone \<Rightarrow>
                ((written (length line), j\<lparr>next_sequence := wrapping 64 (next_sequence j + 1)\<rparr>),
                 Inr event))"

definition append_run_created where
  "append_run_created cd io now st hash_hex_text net cur mint_text program_text decs row_count total_raw mode =
     append_event cd io now st
       (RunCreated hash_hex_text net cur mint_text program_text decs row_count total_raw mode)"

definition fee_payer_mode_label :: "fee_payer_mode \<Rightarrow> string" where
  "fee_payer_mode_label mode = (case mode of SelfFunded \<Rightarrow> ''self_funded'' | Gasless \<Rightarrow> ''gasless'')"

definition append_preflight_completed where
  "append_preflight_completed cd io now st mode fee rent reserve chunk_count max_raw =
     append_event cd io now st
       (PreflightCompleted (fee_payer_mode_label mode) fee rent reserve chunk_count max_raw)"

definition append_authorization_granted where
  "append_authorization_granted cd io now st account max_raw max_txs expires =
     append_event cd io now st (AuthorizationGranted account max_raw max_txs expires)"

definition append_chunk_prepared where
  "append_chunk_prepared cd io now st index rows memo_text =
     append_event cd io now st (ChunkPrepared index rows memo_text)"

text \<open>The texts of a signature and a blockhash are their Display forms, computed by third-party code.\<close>

definition append_chunk_signed ::
  "codec \<Rightarrow> write_outcome \<Rightarrow> int \<Rightarrow> files \<times> journal \<Rightarrow> nat \<Rightarrow> nat list \<Rightarrow> string \<Rightarrow> string \<Rightarrow> string \<Rightarrow> nat
     \<Rightarrow> (files \<times> journal) \<times> (journal_error + journal_event \<times> chunk_broadcast_permit)" where
  "append_chunk_signed cd io now st index rows signature_text encoded blockhash_text last_valid =
     (case append_event cd io now st
             (ChunkSigned index rows signature_text encoded blockhash_text last_valid) of
        (st', Inl e) \<Rightarrow> (st', Inl e)
      | (st', Inr event) \<Rightarrow> (st', Inr (event, ChunkBroadcastPermit index)))"

definition append_chunk_broadcast where
  "append_chunk_broadcast cd io now st permit signature_text =
     append_event cd io now st (ChunkBroadcast (permit_chunk_index permit) signature_text)"

definition append_chunk_confirmed where
  "append_chunk_confirmed cd io now st index signature_text =
     append_event cd io now st (ChunkConfirmed index signature_text)"

definition append_chunk_failed where
  "append_chunk_failed cd io now st index reason retryable =
     append_event cd io now st (ChunkFailed index reason retryable)"

definition append_run_interrupted where
  "append_run_interrupted cd io now st reason confirmed failed remaining =
     append_event cd io now st (RunInterrupted reason confirmed failed remaining)"

definition append_run_completed where
  "append_run_completed cd io now st confirmed failed unknown =
     append_event cd io now st (RunCompleted confirmed failed unknown)"

section \<open>Loading\<close>

fun split_inclusive :: "string \<Rightarrow> string list" where
  "split_inclusive [] = []"
| "split_inclusive (ch # s) =
     (if ch = LF then [ch] # split_inclusive s
      else (case split_inclusive s of [] \<Rightarrow> [[ch]] | p # ps \<Rightarrow> (ch # p) # ps))"

definition trim_line_end :: "string \<Rightarrow> string" where
  "trim_line_end s = rev (dropWhile (\<lambda>ch. ch = CR \<or> ch = LF) (rev s))"

text \<open>
  The loop over the lines: the events so far, the offset, and the remaining lines. It returns the
  events and, for a torn last line, the offset at which the file is cut.
\<close>

fun load_lines ::
  "codec \<Rightarrow> nat \<Rightarrow> nat \<Rightarrow> journal_event list \<Rightarrow> string list
     \<Rightarrow> journal_error + (journal_event list \<times> nat option)" where
  "load_lines cd index offset events [] = Inr (events, None)"
| "load_lines cd index offset events (raw_line # rest) =
     (let line = trim_line_end raw_line in
      if trim line = [] then load_lines cd (index + 1) (offset + length raw_line) events rest
      else
        case from_json cd line of
          Some event \<Rightarrow> load_lines cd (index + 1) (offset + length raw_line) (events @ [event]) rest
        | None \<Rightarrow> if rest = [] then Inr (events, Some offset) else Inl (Corrupted (index + 1)))"

fun first_non_monotonic :: "journal_event list \<Rightarrow> (nat \<times> nat) option" where
  "first_non_monotonic (a # b # es) =
     (if sequence b \<le> sequence a then Some (sequence a, sequence b) else first_non_monotonic (b # es))"
| "first_non_monotonic _ = None"

definition load_events ::
  "codec \<Rightarrow> bool \<Rightarrow> files \<Rightarrow> string \<Rightarrow> files \<times> (journal_error + journal_event list)" where
  "load_events cd truncate_ok fs path =
     (case fs path of
        None \<Rightarrow> (fs, Inr [])
      | Some raw \<Rightarrow>
          if \<not> utf8_valid (bytes_of_string raw) then (fs, Inl ReadFailedJournal)
          else
            case load_lines cd 0 0 [] (split_inclusive raw) of
              Inl e \<Rightarrow> (fs, Inl e)
            | Inr (events, torn) \<Rightarrow>
                if torn \<noteq> None \<and> \<not> truncate_ok then (fs, Inl TruncateFailed)
                else
                  let fs = (case torn of None \<Rightarrow> fs | Some offset \<Rightarrow> fs(path \<mapsto> take offset raw)) in
                  (fs, case first_non_monotonic events of
                         None \<Rightarrow> Inr events
                       | Some (a, b) \<Rightarrow> Inl (NonMonotonic a b)))"

definition open_existing ::
  "codec \<Rightarrow> bool \<Rightarrow> bool \<Rightarrow> (nat \<Rightarrow> try_lock_outcome) \<Rightarrow> files \<Rightarrow> string
     \<Rightarrow> files \<times> (journal_error + journal \<times> journal_event list)" where
  "open_existing cd open_ok truncate_ok tries fs path =
     (if \<not> open_ok \<or> fs path = None then (fs, Inl OpenFailed)
      else
        case lock_exclusive tries of
          Inl e \<Rightarrow> (fs, Inl e)
        | Inr _ \<Rightarrow>
            case load_events cd truncate_ok fs path of
              (fs', Inl e) \<Rightarrow> (fs', Inl e)
            | (fs', Inr events) \<Rightarrow>
                let next_seq = (if events = [] then 1 else wrapping 64 (sequence (last events) + 1)) in
                (fs', Inr (\<lparr>journal_path = path, next_sequence = next_seq\<rparr>, events)))"

section \<open>Resuming\<close>

datatype chunk_resume_action =
    Skip
  | RebroadcastIdenticalBytes string
  | RepresentGaslessCredential string
  | RecordConfirmedThenSkip string
  | RetryAfterFailure replaceable
  | RebuildWithFreshBlockhash replaceable
  | NeedsSigning
  | StopUnknown string

definition resume_scan ::
  "nat \<Rightarrow> (string \<times> string \<times> nat) option \<times> bool \<Rightarrow> journal_event
     \<Rightarrow> (string \<times> string \<times> nat) option \<times> bool" where
  "resume_scan index st event =
     (if kind_chunk_index (kind event) \<noteq> Some index then st
      else
        case kind event of
          ChunkSigned _ _ signature encoded _ last_valid \<Rightarrow> (Some (signature, encoded, last_valid), False)
        | ChunkConfirmed _ _ \<Rightarrow> (fst st, True)
        | _ \<Rightarrow> st)"

definition reduce_chunk_resume_action ::
  "nat \<Rightarrow> journal_event list \<Rightarrow> fee_payer_mode \<Rightarrow> (recorded_payout \<Rightarrow> landing) \<Rightarrow> chunk_resume_action" where
  "reduce_chunk_resume_action index events mode rpc_landing =
     (case foldl (resume_scan index) (None, False) events of (latest, confirmed) \<Rightarrow>
        if confirmed then Skip
        else
          case latest of
            None \<Rightarrow> NeedsSigning
          | Some (signature, encoded, last_valid) \<Rightarrow>
              (case mode of
                 Gasless \<Rightarrow> RepresentGaslessCredential encoded
               | SelfFunded \<Rightarrow>
                   (case rpc_landing \<lparr>payout_signature = signature,
                            last_valid_block_height = Some last_valid\<rparr> of
                      LandingConfirmed \<Rightarrow> RecordConfirmedThenSkip signature
                    | LandingReplaceable proof_of \<Rightarrow>
                        (case replace_reason_of proof_of of
                           ReasonFailed \<Rightarrow> RetryAfterFailure proof_of
                         | ReasonExpired \<Rightarrow> RebuildWithFreshBlockhash proof_of)
                    | MayLand \<Rightarrow> RebroadcastIdenticalBytes encoded
                    | LandingUnknown \<Rightarrow> StopUnknown signature)))"

section \<open>Reading back what was written\<close>

text \<open>
  What the journal relies on of the JSON encoding, for the events at hand: an event is rendered as one
  non-blank line of UTF-8 text and parses back to itself.
\<close>

definition event_ok :: "codec \<Rightarrow> journal_event \<Rightarrow> bool" where
  "event_ok cd e \<longleftrightarrow>
     (\<exists>s. to_json cd e = Some s \<and> from_json cd s = Some e \<and> LF \<notin> set s \<and> CR \<notin> set s
        \<and> trim s \<noteq> [] \<and> utf8_valid (bytes_of_string s))"

definition codec_ok :: "codec \<Rightarrow> journal_event list \<Rightarrow> bool" where
  "codec_ok cd es \<longleftrightarrow> list_all (event_ok cd) es"

definition render :: "codec \<Rightarrow> journal_event \<Rightarrow> string" where
  "render cd e = the (to_json cd e)"

definition journal_text :: "codec \<Rightarrow> journal_event list \<Rightarrow> string" where
  "journal_text cd es = concat (map (\<lambda>e. render cd e @ [LF]) es)"

lemma utf8_valid_append: "utf8_valid a \<Longrightarrow> utf8_valid b \<Longrightarrow> utf8_valid (a @ b)"
proof (induction a rule: utf8_valid.induct)
  case (2 x bs)
  note unfolded = utf8_valid.simps(2) [of x]
  consider (ascii) "unat x < 128" | (two) "\<not> unat x < 128" "in_range 194 223 x"
    | (three) "\<not> unat x < 128" "\<not> in_range 194 223 x" "in_range 224 239 x"
    | (four) "\<not> unat x < 128" "\<not> in_range 194 223 x" "\<not> in_range 224 239 x" "in_range 240 244 x"
    using "2.prems"(1) unfolded [of bs] by (auto split: if_splits)
  then show ?case
  proof cases
    case ascii
    then show ?thesis
      using "2.IH"(1) "2.prems" unfolded by simp
  next
    case two
    then obtain c r where bs: "bs = c # r"
      using "2.prems"(1) unfolded [of bs] by (cases bs) auto
    show ?thesis
      using "2.IH"(2) [OF two bs] "2.prems" two unfolded [of bs] unfolded [of "bs @ b"] by (simp add: bs)
  next
    case three
    then obtain c d r where bs: "bs = c # d # r"
      using "2.prems"(1) unfolded [of bs] by (cases bs; cases "tl bs") auto
    show ?thesis
      using "2.IH"(3) [OF three bs refl] "2.prems" three unfolded [of bs] unfolded [of "bs @ b"]
      by (simp add: bs)
  next
    case four
    then obtain c d e r where bs: "bs = c # d # e # r"
      using "2.prems"(1) unfolded [of bs] by (cases bs; cases "tl bs"; cases "tl (tl bs)") auto
    show ?thesis
      using "2.IH"(4) [OF four bs refl refl] "2.prems" four unfolded [of bs] unfolded [of "bs @ b"]
      by (simp add: bs)
  qed
qed simp

lemma bytes_of_string_append [simp]: "bytes_of_string (s @ t) = bytes_of_string s @ bytes_of_string t"
  by (simp add: bytes_of_string_def)

lemma utf8_valid_LF: "utf8_valid (bytes_of_string [LF])"
  by (simp add: bytes_of_string_def LF_def utf8_valid.simps(2))

lemma codec_ok_simps [simp]:
  "codec_ok cd []"
  "codec_ok cd (es @ es') \<longleftrightarrow> codec_ok cd es \<and> codec_ok cd es'"
  "codec_ok cd (e # es) \<longleftrightarrow> event_ok cd e \<and> codec_ok cd es"
  by (simp_all add: codec_ok_def)

lemma codec_ok_single:
  assumes "event_ok cd e"
  shows "to_json cd e = Some (render cd e)" "from_json cd (render cd e) = Some e"
    "LF \<notin> set (render cd e)" "CR \<notin> set (render cd e)" "trim (render cd e) \<noteq> []"
    "utf8_valid (bytes_of_string (render cd e))"
  using assms by (auto simp: event_ok_def render_def)

lemma journal_text_simps [simp]:
  "journal_text cd [] = []"
  "journal_text cd (e # es) = render cd e @ LF # journal_text cd es"
  "journal_text cd (es @ es') = journal_text cd es @ journal_text cd es'"
  by (simp_all add: journal_text_def)

lemma journal_text_utf8: "codec_ok cd es \<Longrightarrow> utf8_valid (bytes_of_string (journal_text cd es))"
proof (induction es)
  case (Cons e es)
  then have "utf8_valid (bytes_of_string (render cd e @ [LF] @ journal_text cd es))"
    using codec_ok_single(6) [of cd e] utf8_valid_LF
    by (simp only: bytes_of_string_append codec_ok_simps(3)) (auto intro!: utf8_valid_append)
  then show ?case by simp
qed (simp add: bytes_of_string_def)

lemma split_inclusive_line:
  "LF \<notin> set s \<Longrightarrow> split_inclusive (s @ LF # rest) = (s @ [LF]) # split_inclusive rest"
  by (induction s) auto

lemma split_inclusive_torn: "LF \<notin> set s \<Longrightarrow> split_inclusive s = (if s = [] then [] else [s])"
  by (induction s) auto

lemma trim_line_end_line: "LF \<notin> set s \<Longrightarrow> CR \<notin> set s \<Longrightarrow> trim_line_end (s @ [LF]) = s"
  by (cases s rule: rev_cases) (auto simp: trim_line_end_def)

lemma trim_line_end_id: "LF \<notin> set s \<Longrightarrow> CR \<notin> set s \<Longrightarrow> trim_line_end s = s"
  by (cases s rule: rev_cases) (auto simp: trim_line_end_def)

lemma strip_leading_Nil: "strip_leading ws [] = []"
  by (subst strip_leading.simps) (auto simp: find_Some_iff split: option.split)

lemma trim_Nil [simp]: "trim [] = []"
  by (simp add: trim_def strip_leading_Nil)

lemma trim_line_end_Nil [simp]: "trim_line_end [] = []"
  by (simp add: trim_line_end_def)

lemma split_inclusive_journal:
  "codec_ok cd es \<Longrightarrow>
   split_inclusive (journal_text cd es @ rest) = map (\<lambda>e. render cd e @ [LF]) es @ split_inclusive rest"
proof (induction es)
  case (Cons e es)
  then show ?case
    using split_inclusive_line [of "render cd e"] codec_ok_single(3) [of cd e] by simp
qed simp

lemma load_lines_journal:
  "codec_ok cd es \<Longrightarrow>
   load_lines cd i offset evs (map (\<lambda>e. render cd e @ [LF]) es @ rest)
   = load_lines cd (i + length es) (offset + length (journal_text cd es)) (evs @ es) rest"
proof (induction es arbitrary: i offset evs)
  case (Cons e es)
  then have "load_lines cd i offset evs (map (\<lambda>e. render cd e @ [LF]) (e # es) @ rest)
    = load_lines cd (i + 1) (offset + length (render cd e @ [LF])) (evs @ [e])
        (map (\<lambda>e. render cd e @ [LF]) es @ rest)"
    using codec_ok_single [of cd e] trim_line_end_line [of "render cd e"] by simp
  then show ?case
    using Cons by (simp add: algebra_simps)
qed simp

lemma first_non_monotonic_None:
  "sorted_wrt (<) (map sequence es) \<Longrightarrow> first_non_monotonic es = None"
  by (induction es rule: first_non_monotonic.induct) auto

lemma load_events_complete:
  assumes "fs path = Some (journal_text cd es)" and "codec_ok cd es"
    and "sorted_wrt (<) (map sequence es)"
  shows "load_events cd ok fs path = (fs, Inr es)"
  using assms journal_text_utf8 [OF assms(2)] split_inclusive_journal [OF assms(2), of "[]"]
    load_lines_journal [OF assms(2), of 0 0 "[]" "[]"]
  by (simp add: load_events_def first_non_monotonic_None)

lemma load_events_tail:
  assumes "fs path = Some (journal_text cd es @ tail)" and "codec_ok cd es"
    and "tail \<noteq> []" and "LF \<notin> set tail" and "utf8_valid (bytes_of_string tail)"
    and "trim (trim_line_end tail) \<noteq> []"
  shows "load_events cd ok fs path =
    (case from_json cd (trim_line_end tail) of
       Some e \<Rightarrow> (fs, case first_non_monotonic (es @ [e]) of
          None \<Rightarrow> Inr (es @ [e]) | Some (a, b) \<Rightarrow> Inl (NonMonotonic a b))
     | None \<Rightarrow>
         if \<not> ok then (fs, Inl TruncateFailed)
         else (fs(path \<mapsto> journal_text cd es), case first_non_monotonic es of
            None \<Rightarrow> Inr es | Some (a, b) \<Rightarrow> Inl (NonMonotonic a b)))"
proof -
  have "utf8_valid (bytes_of_string (journal_text cd es @ tail))"
    using journal_text_utf8 [OF assms(2)] assms(5) by (simp add: utf8_valid_append)
  moreover have "load_lines cd 0 0 [] (split_inclusive (journal_text cd es @ tail))
    = (case from_json cd (trim_line_end tail) of
         Some e \<Rightarrow> Inr (es @ [e], None)
       | None \<Rightarrow> Inr (es, Some (length (journal_text cd es))))"
    using split_inclusive_journal [OF assms(2), of tail] split_inclusive_torn [OF assms(4)]
      load_lines_journal [OF assms(2), of 0 0 "[]" "[tail]"] assms(3,6)
    by (simp split: option.split)
  ultimately show ?thesis
    using assms(1) by (simp add: load_events_def split: option.split)
qed

section \<open>Sequences of appends\<close>

definition append_all ::
  "codec \<Rightarrow> files \<times> journal \<Rightarrow> (int \<times> journal_event_kind) list \<Rightarrow> files \<times> journal" where
  "append_all cd st items = foldl (\<lambda>st (now, k). fst (append_event cd WriteDone now st k)) st items"

definition numbered :: "nat \<Rightarrow> (int \<times> journal_event_kind) list \<Rightarrow> journal_event list" where
  "numbered n items =
     map (\<lambda>(i, now, k). \<lparr>sequence = i, timestamp = now, kind = k\<rparr>) (enumerate n items)"

lemma numbered_simps [simp]:
  "numbered n [] = []"
  "numbered n ((now, k) # items) = \<lparr>sequence = n, timestamp = now, kind = k\<rparr> # numbered (Suc n) items"
  "length (numbered n items) = length items"
  by (simp_all add: numbered_def)

lemma numbered_sequences: "map sequence (numbered n items) = [n..<n + length items]"
  by (induction items arbitrary: n) (auto simp: upt_conv_Cons simp del: upt_Suc)

lemma numbered_increasing: "sorted_wrt (<) (map sequence (numbered n items))"
  by (simp add: numbered_sequences)

lemma append_event_done:
  assumes "fs (journal_path j) = Some old" and "event_ok cd \<lparr>sequence = next_sequence j, timestamp = now, kind = k\<rparr>"
    and "next_sequence j + 1 < 2 ^ 64"
  shows "append_event cd WriteDone now (fs, j) k =
    ((fs(journal_path j \<mapsto> old @ journal_text cd [\<lparr>sequence = next_sequence j, timestamp = now, kind = k\<rparr>]),
      j\<lparr>next_sequence := next_sequence j + 1\<rparr>),
     Inr \<lparr>sequence = next_sequence j, timestamp = now, kind = k\<rparr>)"
  using assms codec_ok_single(1) [OF assms(2)]
  by (simp add: append_event_def Let_def wrapping_def)

lemma append_all_text:
  assumes "fs (journal_path j) = Some old" and "codec_ok cd (numbered (next_sequence j) items)"
    and "next_sequence j + length items < 2 ^ 64"
  shows "append_all cd (fs, j) items =
    (fs(journal_path j \<mapsto> old @ journal_text cd (numbered (next_sequence j) items)),
     j\<lparr>next_sequence := next_sequence j + length items\<rparr>)"
  using assms
proof (induction items arbitrary: fs j old)
  case Nil
  then show ?case by (simp add: append_all_def fun_upd_idem)
next
  case (Cons item items)
  obtain now k where item: "item = (now, k)"
    by (cases item)
  let ?e = "\<lparr>sequence = next_sequence j, timestamp = now, kind = k\<rparr>"
  have "append_event cd WriteDone now (fs, j) k =
    ((fs(journal_path j \<mapsto> old @ journal_text cd [?e]), j\<lparr>next_sequence := next_sequence j + 1\<rparr>), Inr ?e)"
    using Cons.prems by (intro append_event_done) (simp_all add: item)
  then have "append_all cd (fs, j) (item # items)
    = append_all cd (fs(journal_path j \<mapsto> old @ journal_text cd [?e]), j\<lparr>next_sequence := next_sequence j + 1\<rparr>) items"
    by (simp add: append_all_def item)
  also have "\<dots> = (fs(journal_path j \<mapsto> (old @ journal_text cd [?e]) @ journal_text cd (numbered (Suc (next_sequence j)) items)),
      j\<lparr>next_sequence := next_sequence j + 1 + length items\<rparr>)"
    using Cons.IH [of "fs(journal_path j \<mapsto> old @ journal_text cd [?e])"
        "j\<lparr>next_sequence := next_sequence j + 1\<rparr>" "old @ journal_text cd [?e]"] Cons.prems
    by (simp add: item fun_upd_same del: fun_upd_apply)
  finally show ?case by (simp add: item del: fun_upd_apply)
qed

section \<open>The resume reducer\<close>

definition signs_chunk :: "nat \<Rightarrow> journal_event \<Rightarrow> bool" where
  "signs_chunk i e \<longleftrightarrow> (\<exists>rows sig enc bh lv. kind e = ChunkSigned i rows sig enc bh lv)"

definition confirms_chunk :: "nat \<Rightarrow> journal_event \<Rightarrow> bool" where
  "confirms_chunk i e \<longleftrightarrow> (\<exists>sig. kind e = ChunkConfirmed i sig)"

lemma resume_scan_other:
  "\<not> signs_chunk i e \<Longrightarrow> resume_scan i st e = (fst st, snd st \<or> confirms_chunk i e)"
  by (cases st; cases "kind e")
    (auto simp: resume_scan_def kind_chunk_index_def signs_chunk_def confirms_chunk_def)

lemma resume_scan_tail:
  "list_all (\<lambda>e. \<not> signs_chunk i e) es \<Longrightarrow>
   foldl (resume_scan i) st es = (fst st, snd st \<or> list_ex (confirms_chunk i) es)"
  by (induction es arbitrary: st) (auto simp: resume_scan_other)

text \<open>What is done about the latest signature of a chunk, once it is not known to be confirmed.\<close>

definition unconfirmed_action ::
  "fee_payer_mode \<Rightarrow> (recorded_payout \<Rightarrow> landing) \<Rightarrow> string \<Rightarrow> string \<Rightarrow> nat \<Rightarrow> chunk_resume_action" where
  "unconfirmed_action mode rpc_landing sig enc lv =
     (case mode of
        Gasless \<Rightarrow> RepresentGaslessCredential enc
      | SelfFunded \<Rightarrow>
          (case rpc_landing \<lparr>payout_signature = sig, last_valid_block_height = Some lv\<rparr> of
             LandingConfirmed \<Rightarrow> RecordConfirmedThenSkip sig
           | LandingReplaceable rep \<Rightarrow>
               (case replace_reason_of rep of
                  ReasonFailed \<Rightarrow> RetryAfterFailure rep
                | ReasonExpired \<Rightarrow> RebuildWithFreshBlockhash rep)
           | MayLand \<Rightarrow> RebroadcastIdenticalBytes enc
           | LandingUnknown \<Rightarrow> StopUnknown sig))"

lemma reduce_unsigned:
  "list_all (\<lambda>e. \<not> signs_chunk i e) events \<Longrightarrow>
   reduce_chunk_resume_action i events mode rpc =
     (if list_ex (confirms_chunk i) events then Skip else NeedsSigning)"
  by (simp add: reduce_chunk_resume_action_def resume_scan_tail)

lemma reduce_signed:
  assumes "events = before @ e # after" and "kind e = ChunkSigned i rows sig enc bh lv"
    and "list_all (\<lambda>e. \<not> signs_chunk i e) after"
  shows "reduce_chunk_resume_action i events mode rpc =
     (if list_ex (confirms_chunk i) after then Skip else unconfirmed_action mode rpc sig enc lv)"
proof -
  have "foldl (resume_scan i) (None, False) events
    = (Some (sig, enc, lv), list_ex (confirms_chunk i) after)"
    using assms(2) resume_scan_tail [OF assms(3), of "(Some (sig, enc, lv), False)"]
    by (simp add: assms(1) resume_scan_def kind_chunk_index_def)
  then show ?thesis
    by (simp add: reduce_chunk_resume_action_def unconfirmed_action_def)
qed

lemma last_signing_event:
  assumes "\<not> list_all (\<lambda>e. \<not> signs_chunk i e) events"
  obtains before e after where "events = before @ e # after" "signs_chunk i e"
    "list_all (\<lambda>e. \<not> signs_chunk i e) after"
  using assms split_list_last_prop [of events "signs_chunk i"] by (auto simp: list_all_iff)

text \<open>The actions that allow a new transaction to be signed for the chunk.\<close>

fun allows_new_signature :: "chunk_resume_action \<Rightarrow> bool" where
  "allows_new_signature (RetryAfterFailure _) = True"
| "allows_new_signature (RebuildWithFreshBlockhash _) = True"
| "allows_new_signature NeedsSigning = True"
| "allows_new_signature _ = False"

lemma unconfirmed_allows:
  "allows_new_signature (unconfirmed_action mode rpc sig enc lv) \<longleftrightarrow>
     mode = SelfFunded \<and> (\<exists>rep. rpc \<lparr>payout_signature = sig, last_valid_block_height = Some lv\<rparr> = LandingReplaceable rep)"
  by (auto simp: unconfirmed_action_def split: fee_payer_mode.splits landing.splits replace_reason.splits)

section \<open>Locks\<close>

lemma lock_loop_iff:
  "attempt \<le> LOCK_RETRIES \<Longrightarrow> lock_loop tries attempt = Inr () \<longleftrightarrow>
     (\<exists>k. attempt \<le> k \<and> k \<le> LOCK_RETRIES \<and> tries k = LockOk \<and> (\<forall>m. attempt \<le> m \<and> m < k \<longrightarrow> tries m = WouldBlock))"
proof (induction tries attempt rule: lock_loop.induct)
  case (1 tries attempt)
  show ?case
  proof (cases "tries attempt")
    case LockOk
    then show ?thesis
      using "1.prems" by (auto simp: lock_loop.simps [of tries attempt])
  next
    case LockError
    then show ?thesis
      by (subst lock_loop.simps) (auto simp: nat_less_le dest: spec [of _ attempt])
  next
    case WouldBlock
    have at: "(\<forall>m. attempt \<le> m \<and> m < k \<longrightarrow> tries m = WouldBlock)
      \<longleftrightarrow> (\<forall>m. attempt + 1 \<le> m \<and> m < k \<longrightarrow> tries m = WouldBlock)" for k
      using WouldBlock by (metis Suc_eq_plus1 Suc_leI le_less_Suc_eq le_simps(3) nat_less_le)
    show ?thesis
    proof (cases "attempt < LOCK_RETRIES")
      case True
      then have "lock_loop tries attempt = lock_loop tries (attempt + 1)"
        using WouldBlock by (subst lock_loop.simps) simp
      moreover have later: "attempt \<le> k \<and> tries k = LockOk \<longleftrightarrow> attempt + 1 \<le> k \<and> tries k = LockOk" for k
        using WouldBlock by (cases "k = attempt") auto
      have "(\<exists>k. attempt \<le> k \<and> k \<le> LOCK_RETRIES \<and> tries k = LockOk
            \<and> (\<forall>m. attempt + 1 \<le> m \<and> m < k \<longrightarrow> tries m = WouldBlock))
        \<longleftrightarrow> (\<exists>k. attempt + 1 \<le> k \<and> k \<le> LOCK_RETRIES \<and> tries k = LockOk
            \<and> (\<forall>m. attempt + 1 \<le> m \<and> m < k \<longrightarrow> tries m = WouldBlock))"
        using later by blast
      ultimately show ?thesis
        using "1.IH" [OF WouldBlock True] True unfolding at by simp
    next
      case False
      then show ?thesis
        using WouldBlock "1.prems" by (subst lock_loop.simps) auto
    qed
  qed
qed

section \<open>A last line that does not parse\<close>

lemma load_events_bad_line:
  assumes "fs path = Some (journal_text cd es @ body @ [LF])" and "codec_ok cd es"
    and "LF \<notin> set body" and "CR \<notin> set body" and "utf8_valid (bytes_of_string body)"
    and "trim body \<noteq> []" and "from_json cd body = None" and "sorted_wrt (<) (map sequence es)"
  shows "load_events cd True fs path = (fs(path \<mapsto> journal_text cd es), Inr es)"
proof -
  have "utf8_valid (bytes_of_string (journal_text cd es @ body @ [LF]))"
    using journal_text_utf8 [OF assms(2)] assms(5) utf8_valid_LF
    by (simp only: bytes_of_string_append) (simp add: utf8_valid_append)
  moreover have "load_lines cd 0 0 [] (split_inclusive (journal_text cd es @ body @ [LF]))
    = Inr (es, Some (length (journal_text cd es)))"
    using split_inclusive_journal [OF assms(2), of "body @ [LF]"] split_inclusive_line [OF assms(3), of "[]"]
      load_lines_journal [OF assms(2), of 0 0 "[]" "[body @ [LF]]"] assms(6,7)
      trim_line_end_line [OF assms(3,4)]
    by simp
  ultimately show ?thesis
    using assms(1) first_non_monotonic_None [OF assms(8)] by (simp add: load_events_def)
qed

section \<open>Concrete journals\<close>

definition sample_event :: "nat \<Rightarrow> journal_event" where
  "sample_event n = \<lparr>sequence = n, timestamp = 0, kind = ChunkSigned 0 [2] ''sig'' ''tx'' ''hash'' 100\<rparr>"

definition sample_codec :: codec where
  "sample_codec =
     \<lparr>to_json = (\<lambda>e. if e = sample_event 1 then Some ''11''
                    else if e = sample_event 2 then Some ''22'' else None),
      from_json = (\<lambda>s. if s = ''11'' then Some (sample_event 1)
                    else if s = ''22'' then Some (sample_event 2) else None)\<rparr>"

lemma sample_texts:
  "trim ''11'' \<noteq> []" "trim ''22'' \<noteq> []" "trim ''1122'' \<noteq> []" "trim ''2'' \<noteq> []"
  using trim_amount(1) [of "''11''" "''0''"] trim_amount(1) [of "''22''" "''0''"] trim_amount(1) [of "''1122''" "''0''"]
    trim_amount(1) [of "''2''" "''0''"]
  by (simp_all add: is_ascii_digit_def)

lemma sample_utf8:
  "utf8_valid (bytes_of_string ''11'')" "utf8_valid (bytes_of_string ''22'')"
  "utf8_valid (bytes_of_string ''2'')"
  by code_simp+

lemma sample_render: "render sample_codec (sample_event 1) = ''11''"
  "render sample_codec (sample_event 2) = ''22''"
  by (simp_all add: render_def sample_codec_def sample_event_def)

lemma sample_merged: "from_json sample_codec ''1122'' = None" "sequence (sample_event n) = n"
  by (simp_all add: sample_codec_def sample_event_def)

lemma sample_codec_ok: "codec_ok sample_codec [sample_event 1, sample_event 2]"
  by (simp add: event_ok_def sample_codec_def sample_texts sample_utf8 LF_def CR_def)

section \<open>Properties\<close>

text \<open>
  C27: a journal reads back exactly what was appended. After creating a journal and appending any
  sequence of events, loading the file returns those events in order, numbered from 1, and leaves the
  file as it is.
\<close>
theorem journal_roundtrip:
  assumes "create_new dir_ok open_ok tries fs path = (fs1, Inr j)"
    and "codec_ok cd (numbered 1 items)" and "length items + 1 < 2 ^ 64"
  shows "load_events cd ok (fst (append_all cd (fs1, j) items)) path =
    (fst (append_all cd (fs1, j) items), Inr (numbered 1 items))"
proof -
  have j: "fs1 (journal_path j) = Some []" "next_sequence j = 1" "journal_path j = path"
    using assms(1) by (auto simp: create_new_def Let_def and_then_eq_Inr split: if_splits)
  have "append_all cd (fs1, j) items
    = (fs1(path \<mapsto> journal_text cd (numbered 1 items)), j\<lparr>next_sequence := 1 + length items\<rparr>)"
    using append_all_text [of fs1 j "[]" cd items, OF j(1), unfolded j(2,3)] assms(2,3) by simp
  then show ?thesis
    using load_events_complete [of _ path cd "numbered 1 items" ok] assms(2) numbered_increasing by simp
qed

theorem journal_roundtrip_witness:
  "load_events sample_codec True
     (fst (append_all sample_codec ([''j'' \<mapsto> []], \<lparr>journal_path = ''j'', next_sequence = 1\<rparr>)
        [(0, ChunkSigned 0 [2] ''sig'' ''tx'' ''hash'' 100), (0, ChunkSigned 0 [2] ''sig'' ''tx'' ''hash'' 100)]))
     ''j'' =
   (fst (append_all sample_codec ([''j'' \<mapsto> []], \<lparr>journal_path = ''j'', next_sequence = 1\<rparr>)
        [(0, ChunkSigned 0 [2] ''sig'' ''tx'' ''hash'' 100), (0, ChunkSigned 0 [2] ''sig'' ''tx'' ''hash'' 100)]),
    Inr (numbered 1
      [(0, ChunkSigned 0 [2] ''sig'' ''tx'' ''hash'' 100), (0, ChunkSigned 0 [2] ''sig'' ''tx'' ''hash'' 100)]))"
proof (rule journal_roundtrip [of True True "\<lambda>_. LockOk" Map.empty])
  show "create_new True True (\<lambda>_. LockOk) Map.empty ''j''
    = ([''j'' \<mapsto> []], Inr \<lparr>journal_path = ''j'', next_sequence = 1\<rparr>)"
    by (simp add: create_new_def lock_exclusive_def lock_loop.simps)
  show "codec_ok sample_codec (numbered 1
      [(0, ChunkSigned 0 [2] ''sig'' ''tx'' ''hash'' 100), (0, ChunkSigned 0 [2] ''sig'' ''tx'' ''hash'' 100)])"
    using sample_codec_ok by (simp add: sample_event_def numeral_2_eq_2)
qed simp

text \<open>
  a torn last record is dropped and cut off. If the file holds complete records followed by an
  unfinished one that does not parse, loading returns exactly the complete records and truncates the
  file to them; loading again then gives the same answer and changes nothing.
\<close>
theorem torn_record_is_dropped:
  assumes "fs path = Some (journal_text cd es @ torn)" and "codec_ok cd es"
    and "sorted_wrt (<) (map sequence es)"
    and "LF \<notin> set torn" and "utf8_valid (bytes_of_string torn)" and "trim (trim_line_end torn) \<noteq> []"
    and "from_json cd (trim_line_end torn) = None"
  shows "load_events cd True fs path = (fs(path \<mapsto> journal_text cd es), Inr es)
    \<and> load_events cd ok (fs(path \<mapsto> journal_text cd es)) path = (fs(path \<mapsto> journal_text cd es), Inr es)"
proof (intro conjI)
  have "torn \<noteq> []"
    using assms(6) by auto
  then show "load_events cd True fs path = (fs(path \<mapsto> journal_text cd es), Inr es)"
    using load_events_tail [of fs path cd es torn True] assms by (simp add: first_non_monotonic_None)
qed (rule load_events_complete; use assms in simp)

theorem torn_record_is_dropped_witness:
  "load_events sample_codec True [''j'' \<mapsto> ''11'' @ LF # ''2''] ''j''
     = ([''j'' \<mapsto> ''11'' @ [LF]], Inr [sample_event 1])"
proof -
  have "codec_ok sample_codec [sample_event 1]"
    using sample_codec_ok by simp
  then have "load_events sample_codec True [''j'' \<mapsto> journal_text sample_codec [sample_event 1] @ ''2''] ''j''
    = ([''j'' \<mapsto> journal_text sample_codec [sample_event 1] @ ''2''](''j'' \<mapsto> journal_text sample_codec [sample_event 1]),
       Inr [sample_event 1])"
    using torn_record_is_dropped [of "[''j'' \<mapsto> journal_text sample_codec [sample_event 1] @ ''2'']" "''j''"
        sample_codec "[sample_event 1]" "''2''" True] sample_utf8(3) sample_texts(4)
    by (simp add: LF_def trim_line_end_def CR_def sample_codec_def)
  then show ?thesis by (simp add: sample_render [simplified])
qed

text \<open>
  C28: an acknowledged event can be lost. If a crash leaves the file ending in a complete record that
  only lacks its newline, reopening accepts that record and does not repair the file; the next event is
  then durably appended (written and synced, and the call succeeds) onto the same line. The merged line
  does not parse, so the next load takes it for a torn record and drops both, the acknowledged one
  included. For a signed chunk this defeats the record that a resume relies on.
\<close>
theorem acknowledged_event_lost_after_missing_newline:
  assumes "fs path = Some (journal_text cd es @ render cd a)" and "codec_ok cd (es @ [a, b])"
    and "sorted_wrt (<) (map sequence (es @ [a, b]))"
    and "sequence b = sequence a + 1" and "sequence b + 1 < 2 ^ 64"
    and "from_json cd (render cd a @ render cd b) = None" and "trim (render cd a @ render cd b) \<noteq> []"
    and "tries 0 = LockOk"
    and "j = \<lparr>journal_path = path, next_sequence = sequence b\<rparr>"
    and "fs2 = fs(path \<mapsto> journal_text cd es @ render cd a @ render cd b @ [LF])"
  shows "open_existing cd True True tries fs path = (fs, Inr (j, es @ [a]))
    \<and> append_event cd WriteDone (timestamp b) (fs, j) (kind b)
        = ((fs2, j\<lparr>next_sequence := sequence b + 1\<rparr>), Inr b)
    \<and> load_events cd True fs2 path = (fs2(path \<mapsto> journal_text cd es), Inr es)"
proof -
  have ok: "codec_ok cd es" "event_ok cd a" "event_ok cd b"
    using assms(2) by simp_all
  have whole: "\<lparr>sequence = sequence b, timestamp = timestamp b, kind = kind b\<rparr> = b"
    by simp
  note a = codec_ok_single [OF ok(2)] and b = codec_ok_single [OF ok(3)]
  have sorted: "sorted_wrt (<) (map sequence (es @ [a]))" "sorted_wrt (<) (map sequence es)"
    using assms(3) by (simp_all add: sorted_wrt_append)
  have "load_events cd True fs path = (fs, Inr (es @ [a]))"
    using load_events_tail [of fs path cd es "render cd a" True] assms(1) ok(1) a
      trim_line_end_id [OF a(3,4)] first_non_monotonic_None [OF sorted(1)]
    by (cases "render cd a = []") simp_all
  then have "open_existing cd True True tries fs path = (fs, Inr (j, es @ [a]))"
    using assms(1,4,5,8,9) by (simp add: open_existing_def lock_exclusive_def lock_loop.simps wrapping_def)
  moreover have "append_event cd WriteDone (timestamp b) (fs, j) (kind b)
      = ((fs2, j\<lparr>next_sequence := sequence b + 1\<rparr>), Inr b)"
    using append_event_done [of fs j "journal_text cd es @ render cd a" cd "timestamp b" "kind b"]
      assms(1,5,9,10) ok(3) by (simp add: whole)
  moreover have "load_events cd True fs2 path = (fs2(path \<mapsto> journal_text cd es), Inr es)"
    using assms(6,7,10) a b ok(1) sorted(2)
    by (intro load_events_bad_line [where body = "render cd a @ render cd b"])
      (simp_all add: utf8_valid_append)
  ultimately show ?thesis by blast
qed

theorem acknowledged_event_lost_after_missing_newline_witness:
  "open_existing sample_codec True True (\<lambda>_. LockOk) [''j'' \<mapsto> ''11''] ''j''
     = ([''j'' \<mapsto> ''11''], Inr (\<lparr>journal_path = ''j'', next_sequence = 2\<rparr>, [sample_event 1]))
   \<and> load_events sample_codec True [''j'' \<mapsto> ''11'' @ ''22'' @ [LF]] ''j'' = ([''j'' \<mapsto> []], Inr [])"
  using acknowledged_event_lost_after_missing_newline [of "[''j'' \<mapsto> ''11'']" "''j''" sample_codec "[]"
      "sample_event 1" "sample_event 2" "\<lambda>_. LockOk" "\<lparr>journal_path = ''j'', next_sequence = 2\<rparr>"
      "[''j'' \<mapsto> ''11'' @ ''22'' @ [LF]]"] sample_codec_ok sample_texts(3)
  by (simp add: sample_render sample_render [simplified] sample_merged)

text \<open>
  C8: resuming only allows a new signature when the recorded one cannot land. If the reducer answers
  with an action that signs a chunk anew, then either the journal holds no signature for that chunk and
  no confirmation, or the run pays its own fees and the chain lookup of the chunk's latest recorded
  signature, with its recorded expiry height, is replaceable, with no confirmation after that
  signature.
\<close>
theorem resume_signs_only_when_safe:
  assumes "allows_new_signature (reduce_chunk_resume_action i events mode rpc)"
  shows "list_all (\<lambda>e. \<not> signs_chunk i e \<and> \<not> confirms_chunk i e) events
    \<or> (\<exists>before e after rows sig enc bh lv rep. events = before @ e # after
         \<and> kind e = ChunkSigned i rows sig enc bh lv
         \<and> list_all (\<lambda>e. \<not> signs_chunk i e \<and> \<not> confirms_chunk i e) after
         \<and> mode = SelfFunded
         \<and> rpc \<lparr>payout_signature = sig, last_valid_block_height = Some lv\<rparr> = LandingReplaceable rep)"
proof (cases "list_all (\<lambda>e. \<not> signs_chunk i e) events")
  case True
  then show ?thesis
    using assms reduce_unsigned [OF True, of mode rpc]
    by (auto simp: list_all_iff list_ex_iff split: if_splits)
next
  case False
  then obtain before e after where ev: "events = before @ e # after" "signs_chunk i e"
    "list_all (\<lambda>e. \<not> signs_chunk i e) after"
    by (rule last_signing_event)
  then obtain rows sig enc bh lv where k: "kind e = ChunkSigned i rows sig enc bh lv"
    by (auto simp: signs_chunk_def)
  have "\<not> list_ex (confirms_chunk i) after" and "allows_new_signature (unconfirmed_action mode rpc sig enc lv)"
    using assms reduce_signed [OF ev(1) k ev(3), of mode rpc] by (auto split: if_splits)
  then obtain rep where "mode = SelfFunded"
      "rpc \<lparr>payout_signature = sig, last_valid_block_height = Some lv\<rparr> = LandingReplaceable rep"
    unfolding unconfirmed_allows by blast
  moreover have "list_all (\<lambda>e. \<not> signs_chunk i e \<and> \<not> confirms_chunk i e) after"
    using ev(3) \<open>\<not> list_ex (confirms_chunk i) after\<close> by (simp add: list_all_iff list_ex_iff)
  ultimately show ?thesis
    using ev(1) k by blast
qed

theorem resume_signs_only_when_safe_witness:
  "list_all (\<lambda>e. \<not> signs_chunk 0 e \<and> \<not> confirms_chunk 0 e) [sample_event 1]
    \<or> (\<exists>before e after rows sig enc bh lv rep. [sample_event 1] = before @ e # after
         \<and> kind e = ChunkSigned 0 rows sig enc bh lv
         \<and> list_all (\<lambda>e. \<not> signs_chunk 0 e \<and> \<not> confirms_chunk 0 e) after
         \<and> SelfFunded = SelfFunded
         \<and> (\<lambda>_. LandingReplaceable \<lparr>replace_reason_of = ReasonExpired\<rparr>)
             \<lparr>payout_signature = sig, last_valid_block_height = Some lv\<rparr> = LandingReplaceable rep)"
  by (rule resume_signs_only_when_safe)
    (simp add: reduce_chunk_resume_action_def resume_scan_def kind_chunk_index_def sample_event_def)

text \<open>
  What resuming does about a chunk's latest signature. Whatever precedes it, the latest recorded
  signature of a chunk decides: a confirmation recorded after it skips the chunk; otherwise a gasless
  run presents the recorded credential again, and a self-funded run follows the chain lookup of that
  very signature.
\<close>
lemma resume_follows_latest_signature:
  assumes "events = before @ e # after" and "kind e = ChunkSigned i rows sig enc bh lv"
    and "list_all (\<lambda>e. \<not> signs_chunk i e) after"
  shows "reduce_chunk_resume_action i events mode rpc =
    (if list_ex (confirms_chunk i) after then Skip
     else case mode of
       Gasless \<Rightarrow> RepresentGaslessCredential enc
     | SelfFunded \<Rightarrow>
         (case rpc \<lparr>payout_signature = sig, last_valid_block_height = Some lv\<rparr> of
            LandingConfirmed \<Rightarrow> RecordConfirmedThenSkip sig
          | LandingReplaceable rep \<Rightarrow>
              (case replace_reason_of rep of
                 ReasonFailed \<Rightarrow> RetryAfterFailure rep
               | ReasonExpired \<Rightarrow> RebuildWithFreshBlockhash rep)
          | MayLand \<Rightarrow> RebroadcastIdenticalBytes enc
          | LandingUnknown \<Rightarrow> StopUnknown sig))"
  using reduce_signed [OF assms, of mode rpc] unfolding unconfirmed_action_def .

theorem resume_follows_latest_signature_witness:
  "reduce_chunk_resume_action 0 [sample_event 1, sample_event 2] Gasless (\<lambda>_. LandingUnknown)
     = RepresentGaslessCredential ''tx''"
  using resume_follows_latest_signature [of "[sample_event 1, sample_event 2]" "[sample_event 1]"
      "sample_event 2" "[]" 0 "[2]" "''sig''" "''tx''" "''hash''" 100 Gasless "\<lambda>_. LandingUnknown"]
  by (simp add: sample_event_def)

text \<open>
  The lock is taken exactly when one of the first 41 attempts succeeds and every attempt before it
  merely found the lock held; the retry loop always ends.
\<close>
lemma lock_exclusive_exact:
  "lock_exclusive tries = Inr () \<longleftrightarrow>
     (\<exists>k\<le>40. tries k = LockOk \<and> list_all (\<lambda>m. tries m = WouldBlock) [0..<k])"
  using lock_loop_iff [of 0 tries] by (auto simp: lock_exclusive_def LOCK_RETRIES_def list_all_iff)

end
