(* ===== verification/Push_Executor.thy ===== *)
theory Push_Executor
  imports Push_Journal "HOL-Library.Sublist"
begin

text \<open>
  The pipeline of \<open>pay push\<close> (\<^verbatim>\<open>src/rust/crates/core/src/client/push/executor.rs\<close>): for every planned
  chunk, build, sign, journal, broadcast, with at most \<open>max_in_flight\<close> signatures outstanding.

  Everything outside the executor is a world of type \<open>'w\<close>: the transport (\<open>chunk_broadcaster\<close>), the
  clock, the signer and the outcome of file writes read it and leave a new one. The effects that matter
  for recovery (a record durably journaled, a transaction broadcast) are logged in the order the code
  performs them. The two waiting loops poll until a condition holds and need not end; they take fuel, and
  running out of it is the outcome \<open>OutOfFuel\<close>. The lemmas show that the write-ahead order, the
  in-flight bound and the tally hold along every run, and how much fuel a run needs.
\<close>

section \<open>Data\<close>

definition DEFAULT_MAX_IN_FLIGHT :: nat where
  "DEFAULT_MAX_IN_FLIGHT = 32"

record chunk_tx_context =
  ctx_sender :: pubkey
  ctx_mint :: pubkey
  ctx_token_program :: pubkey
  ctx_decimals :: nat

record prepared_chunk_context =
  prep_fee_payer :: pubkey
  prep_blockhash :: bytes
  prep_last_valid_block_height :: nat

datatype broadcast_outcome = Pending bytes | Settled bytes

datatype pending_status = StillPending | PollConfirmed | PollFailed string

record pending_signature =
  pend_signature :: bytes
  pend_last_valid_block_height :: nat

record 'w chunk_broadcaster =
  prepare :: "'w \<Rightarrow> planned_chunk \<Rightarrow> (string + prepared_chunk_context) \<times> 'w"
  broadcast :: "'w \<Rightarrow> signed_chunk \<Rightarrow> (string + broadcast_outcome) \<times> 'w"
  poll_pending :: "'w \<Rightarrow> pending_signature list \<Rightarrow> (string + pending_status list) \<times> 'w"

record push_executor_config =
  max_in_flight :: nat
  poll_interval_millis :: nat

definition default_config :: push_executor_config where
  "default_config = \<lparr>max_in_flight = DEFAULT_MAX_IN_FLIGHT, poll_interval_millis = 800\<rparr>"

record run_summary =
  confirmed :: nat
  failed :: nat

record in_flight_chunk =
  fl_chunk_index :: nat
  fl_signature :: bytes
  fl_last_valid_block_height :: nat

text \<open>What the executor is given: kit, chain, texts of keys, codec, and the reads of the world.\<close>

record ('w, 'i) executor_env =
  ex_kit :: "('i, versioned_transaction) pay_kit"
  ex_chain :: chain_env
  ex_codec :: codec
  ex_text :: "bytes \<Rightarrow> string"
  ex_ctx :: chunk_tx_context
  ex_config :: push_executor_config
  ex_broadcaster :: "'w chunk_broadcaster"
  draw_now :: "'w \<Rightarrow> int \<times> 'w"
  draw_signer :: "'w \<Rightarrow> signer \<times> 'w"
  draw_io :: "'w \<Rightarrow> write_outcome \<times> 'w"

datatype effect = Journaled journal_event | Broadcasted signed_chunk

record 'w executor =
  permit :: batch_signing_permit
  journal_state :: "files \<times> journal"
  world :: 'w
  in_flight :: "in_flight_chunk list"
  summary :: run_summary
  effects :: "effect list"

datatype executor_error =
    TransportError string
  | BuildError planner_error
  | PermitError permit_error
  | JournalError journal_error
  | StatusCountMismatch
  | OutOfFuel

type_synonym ('w, 'a) exec = "'w executor \<Rightarrow> 'w executor \<times> (executor_error + 'a)"

definition ret :: "'a \<Rightarrow> ('w, 'a) exec" where
  "ret a st = (st, Inr a)"

definition fail_with :: "executor_error \<Rightarrow> ('w, 'a) exec" where
  "fail_with e st = (st, Inl e)"

definition ex_bind :: "('w, 'a) exec \<Rightarrow> ('a \<Rightarrow> ('w, 'b) exec) \<Rightarrow> ('w, 'b) exec" where
  "ex_bind m f st = (case m st of (st', Inl e) \<Rightarrow> (st', Inl e) | (st', Inr a) \<Rightarrow> f a st')"

section \<open>Journaling and signing\<close>

text \<open>An append draws the write outcome and the clock; a successful one is an effect.\<close>

definition journal_append :: "('w, 'i) executor_env \<Rightarrow> journal_event_kind \<Rightarrow> ('w, journal_event) exec" where
  "journal_append env k st =
     (case draw_io env (world st) of (io, w1) \<Rightarrow>
      case draw_now env w1 of (now, w2) \<Rightarrow>
      case append_event (ex_codec env) io now (journal_state st) k of
        (js, Inl e) \<Rightarrow> (st\<lparr>journal_state := js, world := w2\<rparr>, Inl (JournalError e))
      | (js, Inr event) \<Rightarrow>
          (st\<lparr>journal_state := js, world := w2, effects := effects st @ [Journaled event]\<rparr>, Inr event))"

definition journal_chunk_signed ::
  "('w, 'i) executor_env \<Rightarrow> signed_chunk \<Rightarrow> ('w, chunk_broadcast_permit) exec" where
  "journal_chunk_signed env sc =
     ex_bind (journal_append env
         (ChunkSigned (sc_chunk_index sc) (sc_row_numbers sc) (ex_text env (sc_signature sc))
            (signed_transaction_base64 sc) (ex_text env (sc_blockhash sc)) (sc_last_valid_block_height sc)))
       (\<lambda>event. ret (ChunkBroadcastPermit (sc_chunk_index sc)))"

definition journal_chunk_broadcast ::
  "('w, 'i) executor_env \<Rightarrow> chunk_broadcast_permit \<Rightarrow> bytes \<Rightarrow> ('w, journal_event) exec" where
  "journal_chunk_broadcast env credential signature =
     journal_append env (ChunkBroadcast (permit_chunk_index credential) (ex_text env signature))"

definition sign_off_runtime_thread ::
  "('w, 'i) executor_env \<Rightarrow> nat \<Rightarrow> versioned_transaction \<Rightarrow> nat \<Rightarrow> ('w, signed_chunk) exec" where
  "sign_off_runtime_thread env index tx last_valid st =
     (case draw_now env (world st) of (now, w1) \<Rightarrow>
      case draw_signer env w1 of (sg, w2) \<Rightarrow>
      case sign_chunk (ex_chain env) sg now (permit st) index tx last_valid of
        (p, Inl e) \<Rightarrow> (st\<lparr>permit := p, world := w2\<rparr>, Inl (PermitError e))
      | (p, Inr sc) \<Rightarrow> (st\<lparr>permit := p, world := w2\<rparr>, Inr sc))"

section \<open>Draining\<close>

definition add_confirmed :: "'w executor \<Rightarrow> 'w executor" where
  "add_confirmed st = st\<lparr>summary := (summary st)\<lparr>confirmed := confirmed (summary st) + 1\<rparr>\<rparr>"

definition add_failed :: "'w executor \<Rightarrow> 'w executor" where
  "add_failed st = st\<lparr>summary := (summary st)\<lparr>failed := failed (summary st) + 1\<rparr>\<rparr>"

fun settle_polled ::
  "('w, 'i) executor_env \<Rightarrow> in_flight_chunk list \<Rightarrow> (in_flight_chunk \<times> pending_status) list
     \<Rightarrow> ('w, in_flight_chunk list) exec" where
  "settle_polled env still [] st = ret still st"
| "settle_polled env still ((chunk, status) # rest) st =
     (case status of
        StillPending \<Rightarrow> settle_polled env (still @ [chunk]) rest st
      | PollConfirmed \<Rightarrow>
          ex_bind (journal_append env (ChunkConfirmed (fl_chunk_index chunk) (ex_text env (fl_signature chunk))))
            (\<lambda>_ st. settle_polled env still rest (add_confirmed st)) st
      | PollFailed reason \<Rightarrow>
          ex_bind (journal_append env (ChunkFailed (fl_chunk_index chunk) reason True))
            (\<lambda>_ st. settle_polled env still rest (add_failed st)) st)"

definition drain_in_flight :: "('w, 'i) executor_env \<Rightarrow> ('w, unit) exec" where
  "drain_in_flight env st =
     (if in_flight st = [] then (st, Inr ())
      else
        let pending = map (\<lambda>c. \<lparr>pend_signature = fl_signature c,
                        pend_last_valid_block_height = fl_last_valid_block_height c\<rparr>) (in_flight st) in
        case poll_pending (ex_broadcaster env) (world st) pending of
          (Inl e, w) \<Rightarrow> (st\<lparr>world := w\<rparr>, Inl (TransportError e))
        | (Inr polled, w) \<Rightarrow>
            if length polled \<noteq> length (in_flight st) then (st\<lparr>world := w\<rparr>, Inl StatusCountMismatch)
            else
              ex_bind (settle_polled env [] (zip (in_flight st) polled))
                (\<lambda>still st. (st\<lparr>in_flight := still\<rparr>, Inr ()))
                (st\<lparr>world := w, in_flight := []\<rparr>))"

text \<open>\<open>while in_flight.len() >= limit\<close>: the waiting loops of \<open>run\<close>, with limit \<open>max_in_flight\<close> and 1.\<close>

fun drain_below :: "('w, 'i) executor_env \<Rightarrow> nat \<Rightarrow> nat \<Rightarrow> ('w, unit) exec" where
  "drain_below env limit 0 st =
     (if limit \<le> length (in_flight st) then fail_with OutOfFuel st else ret () st)"
| "drain_below env limit (Suc fuel) st =
     (if limit \<le> length (in_flight st)
      then ex_bind (drain_in_flight env) (\<lambda>_. drain_below env limit fuel) st
      else ret () st)"

section \<open>The run\<close>

text \<open>The \<open>match\<close> on what the broadcast answered, and the broadcast itself.\<close>

definition record_outcome ::
  "('w, 'i) executor_env \<Rightarrow> signed_chunk \<Rightarrow> chunk_broadcast_permit \<Rightarrow> string + broadcast_outcome \<Rightarrow> ('w, unit) exec" where
  "record_outcome env sc credential outcome =
     (case outcome of
        Inr (Pending signature) \<Rightarrow>
          ex_bind (journal_chunk_broadcast env credential signature)
            (\<lambda>_ st. (st\<lparr>in_flight := in_flight st @
                  [\<lparr>fl_chunk_index = sc_chunk_index sc, fl_signature = signature,
                    fl_last_valid_block_height = sc_last_valid_block_height sc\<rparr>]\<rparr>, Inr ()))
      | Inr (Settled signature) \<Rightarrow>
          ex_bind (journal_chunk_broadcast env credential signature) (\<lambda>_.
          ex_bind (journal_append env (ChunkConfirmed (sc_chunk_index sc) (ex_text env signature)))
            (\<lambda>_ st. (add_confirmed st, Inr ())))
      | Inl error \<Rightarrow>
          ex_bind (journal_append env (ChunkFailed (sc_chunk_index sc) error True))
            (\<lambda>_ st. (add_failed st, Inr ())))"

definition send_signed ::
  "('w, 'i) executor_env \<Rightarrow> signed_chunk \<Rightarrow> chunk_broadcast_permit \<Rightarrow> ('w, unit) exec" where
  "send_signed env sc credential st =
     (case broadcast (ex_broadcaster env) (world st) sc of (outcome, w) \<Rightarrow>
        record_outcome env sc credential outcome
          (st\<lparr>world := w, effects := effects st @ [Broadcasted sc]\<rparr>))"

definition run_chunk :: "('w, 'i) executor_env \<Rightarrow> nat \<Rightarrow> planned_chunk \<Rightarrow> ('w, unit) exec" where
  "run_chunk env fuel chunk =
     ex_bind (drain_below env (max_in_flight (ex_config env)) fuel) (\<lambda>_.
     ex_bind (\<lambda>st. case prepare (ex_broadcaster env) (world st) chunk of
                 (Inl e, w) \<Rightarrow> (st\<lparr>world := w\<rparr>, Inl (TransportError e))
               | (Inr prepared, w) \<Rightarrow> (st\<lparr>world := w\<rparr>, Inr prepared)) (\<lambda>prepared.
     ex_bind (\<lambda>st. (st, map_err BuildError
                 (build_chunk_transaction (ex_kit env) chunk (ctx_mint (ex_ctx env))
                    (ctx_token_program (ex_ctx env)) (ctx_decimals (ex_ctx env)) (ctx_sender (ex_ctx env))
                    (prep_fee_payer prepared) (prep_blockhash prepared)))) (\<lambda>tx.
     ex_bind (sign_off_runtime_thread env (chunk_index chunk) tx (prep_last_valid_block_height prepared)) (\<lambda>sc.
     ex_bind (journal_chunk_signed env sc) (\<lambda>credential.
     send_signed env sc credential)))))"

fun run_chunks :: "('w, 'i) executor_env \<Rightarrow> nat \<Rightarrow> planned_chunk list \<Rightarrow> ('w, unit) exec" where
  "run_chunks env fuel [] st = ret () st"
| "run_chunks env fuel (chunk # cs) st =
     ex_bind (run_chunk env fuel chunk) (\<lambda>_. run_chunks env fuel cs) st"

definition run :: "('w, 'i) executor_env \<Rightarrow> nat \<Rightarrow> planned_chunk list \<Rightarrow> ('w, run_summary) exec" where
  "run env fuel cs st =
     ex_bind (run_chunks env fuel cs) (\<lambda>_.
     ex_bind (drain_below env 1 fuel) (\<lambda>_ st. (st, Inr (summary st))))
       (st\<lparr>in_flight := [], summary := \<lparr>confirmed = 0, failed = 0\<rparr>\<rparr>)"

section \<open>What holds along a run\<close>

text \<open>
  Write-ahead: every broadcast is preceded by the durable record of exactly the transaction it sends.
\<close>

definition signed_kind :: "('w, 'i) executor_env \<Rightarrow> signed_chunk \<Rightarrow> journal_event_kind" where
  "signed_kind env sc =
     ChunkSigned (sc_chunk_index sc) (sc_row_numbers sc) (ex_text env (sc_signature sc))
       (signed_transaction_base64 sc) (ex_text env (sc_blockhash sc)) (sc_last_valid_block_height sc)"

definition write_ahead :: "('w, 'i) executor_env \<Rightarrow> effect list \<Rightarrow> bool" where
  "write_ahead env tr \<longleftrightarrow>
     (\<forall>i sc. i < length tr \<and> tr ! i = Broadcasted sc \<longrightarrow>
        (\<exists>j<i. \<exists>ev. tr ! j = Journaled ev \<and> kind ev = signed_kind env sc))"

definition is_confirmed_record :: "effect \<Rightarrow> bool" where
  "is_confirmed_record e = (case e of Journaled ev \<Rightarrow> (case kind ev of ChunkConfirmed _ _ \<Rightarrow> True | _ \<Rightarrow> False) | _ \<Rightarrow> False)"

definition is_failed_record :: "effect \<Rightarrow> bool" where
  "is_failed_record e = (case e of Journaled ev \<Rightarrow> (case kind ev of ChunkFailed _ _ _ \<Rightarrow> True | _ \<Rightarrow> False) | _ \<Rightarrow> False)"

definition is_broadcast :: "effect \<Rightarrow> bool" where
  "is_broadcast e = (case e of Broadcasted _ \<Rightarrow> True | _ \<Rightarrow> False)"

definition count_of :: "('a \<Rightarrow> bool) \<Rightarrow> 'a list \<Rightarrow> nat" where
  "count_of P xs = length (filter P xs)"

lemma count_of_simps [simp]:
  "count_of P [] = 0"
  "count_of P (xs @ [x]) = count_of P xs + (if P x then 1 else 0)"
  by (simp_all add: count_of_def)

definition recorded_before :: "effect list \<Rightarrow> nat \<Rightarrow> journal_event_kind \<Rightarrow> bool" where
  "recorded_before tr i k \<longleftrightarrow> (\<exists>j<i. \<exists>ev. tr ! j = Journaled ev \<and> kind ev = k)"

lemma recorded_before_append: "i \<le> length tr \<Longrightarrow> recorded_before (tr @ xs) i k = recorded_before tr i k"
  unfolding recorded_before_def by (intro ex_cong1 conj_cong refl) (simp add: nth_append)

lemma recorded_before_all:
  "recorded_before tr (length tr) k \<longleftrightarrow> (\<exists>ev. Journaled ev \<in> set tr \<and> kind ev = k)"
proof -
  have "Journaled ev \<in> set tr \<longleftrightarrow> (\<exists>j<length tr. tr ! j = Journaled ev)" for ev
    by (simp add: in_set_conv_nth)
  then show ?thesis
    unfolding recorded_before_def by (simp only:) iprover
qed

lemma write_ahead_alt:
  "write_ahead env tr \<longleftrightarrow>
     (\<forall>i<length tr. \<forall>sc. tr ! i = Broadcasted sc \<longrightarrow> recorded_before tr i (signed_kind env sc))"
  by (auto simp: write_ahead_def recorded_before_def)

lemma write_ahead_snoc:
  "write_ahead env (tr @ [x]) \<longleftrightarrow>
     write_ahead env tr
     \<and> (\<forall>sc. x = Broadcasted sc \<longrightarrow> (\<exists>ev. Journaled ev \<in> set tr \<and> kind ev = signed_kind env sc))"
proof -
  have "(\<forall>i<length tr. \<forall>sc. (tr @ [x]) ! i = Broadcasted sc \<longrightarrow> recorded_before (tr @ [x]) i (signed_kind env sc))
    \<longleftrightarrow> write_ahead env tr"
    unfolding write_ahead_alt by (simp add: nth_append recorded_before_append)
  then show ?thesis
    unfolding write_ahead_alt [of env "tr @ [x]"]
    by (simp add: All_less_Suc recorded_before_append recorded_before_all) (rule conj_commute)
qed

lemma write_ahead_simps [simp]:
  "write_ahead env []"
  "write_ahead env (tr @ [Journaled ev]) \<longleftrightarrow> write_ahead env tr"
  "write_ahead env (tr @ [Broadcasted sc]) \<longleftrightarrow>
     write_ahead env tr \<and> (\<exists>ev. Journaled ev \<in> set tr \<and> kind ev = signed_kind env sc)"
  by (simp_all add: write_ahead_snoc) (simp add: write_ahead_def)

text \<open>Backpressure: at no moment more than \<open>m\<close> broadcasts await their final record.\<close>

definition windowed :: "nat \<Rightarrow> effect list \<Rightarrow> bool" where
  "windowed m tr \<longleftrightarrow>
     (\<forall>n\<le>length tr. count_of is_broadcast (take n tr)
        \<le> count_of is_confirmed_record (take n tr) + count_of is_failed_record (take n tr) + m)"

lemma windowed_Nil [simp]: "windowed m []"
  by (simp add: windowed_def)

lemma windowed_snoc:
  "windowed m (tr @ [x]) \<longleftrightarrow> windowed m tr
     \<and> count_of is_broadcast (tr @ [x])
        \<le> count_of is_confirmed_record (tr @ [x]) + count_of is_failed_record (tr @ [x]) + m"
  unfolding windowed_def by (simp add: le_Suc_eq all_conj_distrib imp_conjR del: count_of_simps)

lemma windowed_journaled: "windowed m tr \<Longrightarrow> windowed m (tr @ [Journaled ev])"
  using windowed_def [of m tr] unfolding windowed_snoc by (auto simp: is_broadcast_def)

definition broadcast_indices :: "effect list \<Rightarrow> nat list" where
  "broadcast_indices tr = concat (map (\<lambda>e. case e of Broadcasted sc \<Rightarrow> [sc_chunk_index sc] | _ \<Rightarrow> []) tr)"

lemma broadcast_indices_simps [simp]:
  "broadcast_indices [] = []"
  "broadcast_indices (tr @ [Journaled ev]) = broadcast_indices tr"
  "broadcast_indices (tr @ [Broadcasted sc]) = broadcast_indices tr @ [sc_chunk_index sc]"
  by (simp_all add: broadcast_indices_def)

definition signed_indices_of :: "effect list \<Rightarrow> nat list" where
  "signed_indices_of tr =
     concat (map (\<lambda>e. case e of Journaled ev \<Rightarrow> (case kind ev of ChunkSigned i _ _ _ _ _ \<Rightarrow> [i] | _ \<Rightarrow> []) | _ \<Rightarrow> []) tr)"

lemma signed_indices_of_simps [simp]:
  "signed_indices_of [] = []"
  "signed_indices_of (tr @ [Journaled ev]) =
     signed_indices_of tr @ (case kind ev of ChunkSigned i _ _ _ _ _ \<Rightarrow> [i] | _ \<Rightarrow> [])"
  "signed_indices_of (tr @ [Broadcasted sc]) = signed_indices_of tr"
  by (simp_all add: signed_indices_of_def)

text \<open>
  The chunks with a final record, confirmed or failed, in the order of the records. At no moment has a
  chunk more final records than broadcasts: none is settled before it is sent, or twice.
\<close>

definition final_index :: "effect \<Rightarrow> nat list" where
  "final_index e =
     (case e of
        Journaled ev \<Rightarrow> (case kind ev of ChunkConfirmed i _ \<Rightarrow> [i] | ChunkFailed i _ _ \<Rightarrow> [i] | _ \<Rightarrow> [])
      | _ \<Rightarrow> [])"

definition final_indices :: "effect list \<Rightarrow> nat list" where
  "final_indices tr = concat (map final_index tr)"

lemma final_indices_simps [simp]:
  "final_indices [] = []"
  "final_indices (tr @ [e]) = final_indices tr @ final_index e"
  by (simp_all add: final_indices_def)

definition settled_after_send :: "effect list \<Rightarrow> bool" where
  "settled_after_send tr \<longleftrightarrow>
     (\<forall>n\<le>length tr. mset (final_indices (take n tr)) \<subseteq># mset (broadcast_indices (take n tr)))"

lemma settled_after_send_Nil [simp]: "settled_after_send []"
  by (simp add: settled_after_send_def)

lemma settled_after_send_snoc:
  "settled_after_send (tr @ [x]) \<longleftrightarrow> settled_after_send tr
     \<and> mset (final_indices (tr @ [x])) \<subseteq># mset (broadcast_indices (tr @ [x]))"
  unfolding settled_after_send_def by (simp add: le_Suc_eq all_conj_distrib imp_conjR del: final_indices_simps)

abbreviation open_indices :: "in_flight_chunk list \<Rightarrow> nat multiset" where
  "open_indices fl \<equiv> image_mset fl_chunk_index (mset fl)"

text \<open>
  \<open>tallied_at planned j k m\<close>: the effects are write-ahead and within the window, the summary counts the
  records of its kind, the signed records and the broadcasts are the first \<open>j\<close> and \<open>k\<close> planned chunks
  in order, and the latter are the chunks with a final record and those of \<open>m\<close>, still open. Between two
  chunks \<open>j = k\<close>.
\<close>

definition tallied_at ::
  "('w, 'i) executor_env \<Rightarrow> nat list \<Rightarrow> nat \<Rightarrow> nat \<Rightarrow> nat multiset \<Rightarrow> 'w executor \<Rightarrow> bool" where
  "tallied_at env planned j k m st \<longleftrightarrow>
     write_ahead env (effects st)
     \<and> windowed (max_in_flight (ex_config env)) (effects st)
     \<and> confirmed (summary st) = count_of is_confirmed_record (effects st)
     \<and> failed (summary st) = count_of is_failed_record (effects st)
     \<and> count_of is_broadcast (effects st) = k
     \<and> broadcast_indices (effects st) = take k planned
     \<and> signed_indices_of (effects st) = take j planned
     \<and> k = confirmed (summary st) + failed (summary st) + size m
     \<and> settled_after_send (effects st)
     \<and> mset (take k planned) = mset (final_indices (effects st)) + m"

abbreviation tallied :: "('w, 'i) executor_env \<Rightarrow> nat list \<Rightarrow> nat \<Rightarrow> nat multiset \<Rightarrow> 'w executor \<Rightarrow> bool" where
  "tallied env planned k \<equiv> tallied_at env planned k k"

text \<open>The weaker statement that also holds where a run stops with an error.\<close>

definition sound_effects :: "('w, 'i) executor_env \<Rightarrow> nat list \<Rightarrow> 'w executor \<Rightarrow> bool" where
  "sound_effects env planned st \<longleftrightarrow>
     write_ahead env (effects st)
     \<and> windowed (max_in_flight (ex_config env)) (effects st)
     \<and> confirmed (summary st) = count_of is_confirmed_record (effects st)
     \<and> failed (summary st) = count_of is_failed_record (effects st)
     \<and> (\<exists>k. broadcast_indices (effects st) = take k planned)
     \<and> (\<exists>j. signed_indices_of (effects st) = take j planned)
     \<and> settled_after_send (effects st)
     \<and> length (in_flight st) \<le> max_in_flight (ex_config env)"

text \<open>Partial correctness of an executor step: postconditions for its result and for its errors.\<close>

definition triple ::
  "('w executor \<Rightarrow> bool) \<Rightarrow> ('w, 'a) exec \<Rightarrow> ('a \<Rightarrow> 'w executor \<Rightarrow> bool) 
     \<Rightarrow> (executor_error \<Rightarrow> 'w executor \<Rightarrow> bool) \<Rightarrow> bool" where
  "triple P m Q E \<longleftrightarrow>
     (\<forall>st. P st \<longrightarrow> (case m st of (st', Inr a) \<Rightarrow> Q a st' | (st', Inl e) \<Rightarrow> E e st'))"

lemma triple_bind:
  "triple P m R E \<Longrightarrow> (\<And>a. triple (R a) (f a) Q E) \<Longrightarrow> triple P (ex_bind m f) Q E"
  unfolding triple_def
proof (intro allI impI)
  fix st
  assume m: "\<forall>st. P st \<longrightarrow> (case m st of (st', Inr a) \<Rightarrow> R a st' | (st', Inl e) \<Rightarrow> E e st')"
    and f: "\<And>a. \<forall>st. R a st \<longrightarrow> (case f a st of (st', Inr b) \<Rightarrow> Q b st' | (st', Inl e) \<Rightarrow> E e st')"
    and st: "P st"
  obtain st' r where mst: "m st = (st', r)"
    by (cases "m st")
  show "case ex_bind m f st of (st', Inr b) \<Rightarrow> Q b st' | (st', Inl e) \<Rightarrow> E e st'"
    using m [rule_format, OF st] f by (cases r) (simp_all add: ex_bind_def mst)
qed

lemma triple_ret: "(\<And>st. P st \<Longrightarrow> Q a st) \<Longrightarrow> triple P (ret a) Q E"
  by (simp add: triple_def ret_def)

lemma triple_weaken:
  "triple P m Q E \<Longrightarrow> (\<And>st. P' st \<Longrightarrow> P st) \<Longrightarrow> (\<And>a st. Q a st \<Longrightarrow> Q' a st) \<Longrightarrow> triple P' m Q' E"
  unfolding triple_def by (fastforce split: prod.splits sum.splits)

lemma triple_update:
  "(\<And>st. P st \<Longrightarrow> Q a (f st)) \<Longrightarrow> triple P (\<lambda>st. (f st, Inr a)) Q E"
  by (simp add: triple_def)

lemma triple_after: "triple P m Q E \<Longrightarrow> triple (\<lambda>st. P (f st)) (\<lambda>st. m (f st)) Q E"
  by (simp add: triple_def)

lemmas exec_rules = triple_bind triple_ret triple_update

lemma triple_apply:
  assumes "triple P m Q E" and "P st" and "m st = (st', r)"
  shows "case r of Inr a \<Rightarrow> Q a st' | Inl e \<Rightarrow> E e st'"
  using assms unfolding triple_def by (auto split: sum.splits dest!: spec [of _ st])

subsection \<open>Single steps\<close>

lemma append_event_kind: "append_event cd io now st k = (js, Inr ev) \<Longrightarrow> kind ev = k"
  by (auto simp: append_event_def Let_def split: prod.splits option.splits write_outcome.splits)

text \<open>An append only moves journal and world, and on success adds its record to the effects.\<close>

lemma journal_append_triple:
  assumes "\<And>st js w ev. P st \<Longrightarrow> kind ev = k \<Longrightarrow>
      Q ev (st\<lparr>journal_state := js, world := w, effects := effects st @ [Journaled ev]\<rparr>)"
    and "\<And>st js w e. P st \<Longrightarrow> E (JournalError e) (st\<lparr>journal_state := js, world := w\<rparr>)"
  shows "triple P (journal_append env k) Q E"
  unfolding triple_def journal_append_def
  by (auto split: prod.splits sum.splits intro!: assms dest: append_event_kind)

lemma sign_chunk_index:
  "sign_chunk chain sg now p i tx lv = (p', Inr sc) \<Longrightarrow> sc_chunk_index sc = i"
  by (auto simp: sign_chunk_def Let_def split: sum.splits prod.splits)

lemma sign_triple:
  assumes "\<And>st p w a. P st \<Longrightarrow> sc_chunk_index a = i \<Longrightarrow> Q a (st\<lparr>permit := p, world := w\<rparr>)"
    and "\<And>st p w e. P st \<Longrightarrow> E (PermitError e) (st\<lparr>permit := p, world := w\<rparr>)"
  shows "triple P (sign_off_runtime_thread env i tx lv) Q E"
  unfolding triple_def sign_off_runtime_thread_def
  by (auto split: prod.splits sum.splits intro!: assms dest: sign_chunk_index)

lemma tallied_frame [simp]:
  "tallied_at env planned j k m (st\<lparr>journal_state := js\<rparr>) = tallied_at env planned j k m st"
  "tallied_at env planned j k m (st\<lparr>permit := p\<rparr>) = tallied_at env planned j k m st"
  "tallied_at env planned j k m (st\<lparr>world := w\<rparr>) = tallied_at env planned j k m st"
  "tallied_at env planned j k m (st\<lparr>in_flight := fl\<rparr>) = tallied_at env planned j k m st"
  by (simp_all add: tallied_at_def)

lemmas settle_simps = settled_after_send_snoc final_index_def subset_mset.le_iff_add

lemma tallied_confirmed:
  "tallied env planned k (add_mset i m) st \<Longrightarrow> kind ev = ChunkConfirmed i sig \<Longrightarrow>
   tallied env planned k m (add_confirmed (st\<lparr>journal_state := js, world := w, effects := effects st @ [Journaled ev]\<rparr>))"
  by (auto simp: tallied_at_def settle_simps windowed_journaled add_confirmed_def is_confirmed_record_def is_failed_record_def is_broadcast_def)

lemma tallied_failed:
  "tallied env planned k (add_mset i m) st \<Longrightarrow> kind ev = ChunkFailed i reason retry \<Longrightarrow>
   tallied env planned k m (add_failed (st\<lparr>journal_state := js, world := w, effects := effects st @ [Journaled ev]\<rparr>))"
  by (auto simp: tallied_at_def settle_simps windowed_journaled add_failed_def is_confirmed_record_def is_failed_record_def is_broadcast_def)

lemma tallied_signed:
  "tallied env planned k m st \<Longrightarrow> kind ev = ChunkSigned i rows sig enc bh lv
   \<Longrightarrow> k < length planned \<Longrightarrow> i = planned ! k \<Longrightarrow>
   tallied_at env planned (Suc k) k m (st\<lparr>journal_state := js, world := w, effects := effects st @ [Journaled ev]\<rparr>)"
  by (auto simp: tallied_at_def settle_simps windowed_journaled take_Suc_conv_app_nth is_confirmed_record_def is_failed_record_def
      is_broadcast_def)

lemma tallied_other:
  "tallied env planned k m st \<Longrightarrow> kind ev = ChunkBroadcast i sig \<Longrightarrow>
   tallied env planned k m (st\<lparr>journal_state := js, world := w, effects := effects st @ [Journaled ev]\<rparr>)"
  by (auto simp: tallied_at_def settle_simps windowed_journaled is_confirmed_record_def is_failed_record_def is_broadcast_def)

lemma tallied_broadcast:
  "tallied_at env planned (Suc k) k m st \<Longrightarrow> Journaled ev \<in> set (effects st) \<Longrightarrow> kind ev = signed_kind env sc
   \<Longrightarrow> size m < max_in_flight (ex_config env) \<Longrightarrow> k < length planned \<Longrightarrow> sc_chunk_index sc = planned ! k \<Longrightarrow>
   tallied env planned (Suc k) (add_mset (planned ! k) m) (st\<lparr>world := w, effects := effects st @ [Broadcasted sc]\<rparr>)"
  by (auto simp: tallied_at_def settle_simps windowed_snoc take_Suc_conv_app_nth is_confirmed_record_def is_failed_record_def is_broadcast_def)

lemma tallied_sound:
  "tallied_at env planned j k m st \<Longrightarrow> length (in_flight st) \<le> max_in_flight (ex_config env) \<Longrightarrow> sound_effects env planned st"
  by (auto simp: tallied_at_def sound_effects_def)

lemma in_flight_add [simp]:
  "in_flight (add_confirmed st) = in_flight st" "in_flight (add_failed st) = in_flight st"
  by (simp_all add: add_confirmed_def add_failed_def)

subsection \<open>Draining\<close>

lemma settle_polled_triple:
  "triple (\<lambda>st. tallied env planned k (open_indices (still @ map fst polled)) st \<and> in_flight st = [])
     (settle_polled env still polled)
     (\<lambda>still' st. tallied env planned k (open_indices still') st \<and> in_flight st = []
        \<and> length still' \<le> length still + length polled)
     (\<lambda>_. sound_effects env planned)"
proof (induction polled arbitrary: still)
  case Nil
  have "settle_polled env still [] = ret still"
    by (rule ext) simp
  then show ?case
    by (auto intro: triple_ret)
next
  case (Cons item polled)
  obtain chunk status where item: "item = (chunk, status)"
    by (cases item)
  have error: "sound_effects env planned (st\<lparr>journal_state := js, world := w\<rparr>)"
    if "tallied env planned k m st" "in_flight st = []" for m st js w
    using that by (intro tallied_sound [of env planned k k m]) simp_all
  show ?case
  proof (cases status)
    case StillPending
    have "settle_polled env still (item # polled) = settle_polled env (still @ [chunk]) polled"
      by (rule ext) (simp add: item StillPending)
    then show ?thesis
      using Cons.IH [of "still @ [chunk]"] by (simp add: item)
  next
    case PollConfirmed
    have "settle_polled env still (item # polled) = ex_bind
        (journal_append env (ChunkConfirmed (fl_chunk_index chunk) (ex_text env (fl_signature chunk))))
        (\<lambda>_ st. settle_polled env still polled (add_confirmed st))"
      by (rule ext) (simp add: item PollConfirmed)
    moreover have "triple
        (\<lambda>st. tallied env planned k (open_indices (still @ map fst (item # polled))) st \<and> in_flight st = [])
        (journal_append env (ChunkConfirmed (fl_chunk_index chunk) (ex_text env (fl_signature chunk))))
        (\<lambda>_ st. tallied env planned k (open_indices (still @ map fst polled)) (add_confirmed st) \<and> in_flight st = [])
        (\<lambda>_. sound_effects env planned)"
      by (intro journal_append_triple) (auto simp: item intro: tallied_confirmed error)
    moreover have "triple (\<lambda>st. tallied env planned k (open_indices (still @ map fst polled)) (add_confirmed st) \<and> in_flight st = [])
        (\<lambda>st. settle_polled env still polled (add_confirmed st))
        (\<lambda>still' st. tallied env planned k (open_indices still') st \<and> in_flight st = []
          \<and> length still' \<le> length still + length (item # polled)) (\<lambda>_. sound_effects env planned)"
      by (rule triple_weaken [OF triple_after [OF Cons.IH [of still]]]) simp_all
    ultimately show ?thesis
      by (auto intro: triple_bind)
  next
    case (PollFailed reason)
    have "settle_polled env still (item # polled) = ex_bind
        (journal_append env (ChunkFailed (fl_chunk_index chunk) reason True))
        (\<lambda>_ st. settle_polled env still polled (add_failed st))"
      by (rule ext) (simp add: item PollFailed)
    moreover have "triple
        (\<lambda>st. tallied env planned k (open_indices (still @ map fst (item # polled))) st \<and> in_flight st = [])
        (journal_append env (ChunkFailed (fl_chunk_index chunk) reason True))
        (\<lambda>_ st. tallied env planned k (open_indices (still @ map fst polled)) (add_failed st) \<and> in_flight st = [])
        (\<lambda>_. sound_effects env planned)"
      by (intro journal_append_triple) (auto simp: item intro: tallied_failed error)
    moreover have "triple (\<lambda>st. tallied env planned k (open_indices (still @ map fst polled)) (add_failed st) \<and> in_flight st = [])
        (\<lambda>st. settle_polled env still polled (add_failed st))
        (\<lambda>still' st. tallied env planned k (open_indices still') st \<and> in_flight st = []
          \<and> length still' \<le> length still + length (item # polled)) (\<lambda>_. sound_effects env planned)"
      by (rule triple_weaken [OF triple_after [OF Cons.IH [of still]]]) simp_all
    ultimately show ?thesis
      by (auto intro: triple_bind)
  qed
qed

text \<open>The state between two steps of the loop: \<open>k\<close> chunks broadcast so far.\<close>

definition running :: "('w, 'i) executor_env \<Rightarrow> nat list \<Rightarrow> nat \<Rightarrow> 'w executor \<Rightarrow> bool" where
  "running env planned k st \<longleftrightarrow>
     tallied env planned k (open_indices (in_flight st)) st \<and> length (in_flight st) \<le> max_in_flight (ex_config env)"

lemma running_sound: "running env planned k st \<Longrightarrow> sound_effects env planned st"
  by (auto simp: running_def intro: tallied_sound)

lemma sound_world [simp]: "sound_effects env planned (st\<lparr>world := w\<rparr>) = sound_effects env planned st"
  "sound_effects env planned (st\<lparr>journal_state := js\<rparr>) = sound_effects env planned st"
  "sound_effects env planned (st\<lparr>permit := p\<rparr>) = sound_effects env planned st"
  by (simp_all add: sound_effects_def)

lemma running_frame [simp]:
  "running env planned k (st\<lparr>world := w\<rparr>) = running env planned k st"
  "running env planned k (st\<lparr>journal_state := js\<rparr>) = running env planned k st"
  "running env planned k (st\<lparr>permit := p\<rparr>) = running env planned k st"
  by (simp_all add: running_def)

lemma drain_in_flight_triple:
  "triple (running env planned k) (drain_in_flight env) (\<lambda>_. running env planned k) (\<lambda>_. sound_effects env planned)"
  unfolding triple_def
proof (intro allI impI)
  fix st
  assume run: "running env planned k st"
  show "case drain_in_flight env st of (st', Inr a) \<Rightarrow> running env planned k st' | (st', Inl e) \<Rightarrow> sound_effects env planned st'"
  proof (cases "in_flight st = []")
    case True
    then show ?thesis
      using run by (simp add: drain_in_flight_def)
  next
    case False
    let ?pending = "map (\<lambda>c. \<lparr>pend_signature = fl_signature c,
      pend_last_valid_block_height = fl_last_valid_block_height c\<rparr>) (in_flight st)"
    obtain r w where poll: "poll_pending (ex_broadcaster env) (world st) ?pending = (r, w)"
      by fastforce
    show ?thesis
    proof (cases "\<exists>polled. r = Inr polled \<and> length polled = length (in_flight st)")
      case bad: False
      then show ?thesis
        using False run running_sound [OF run] poll
        by (auto simp: drain_in_flight_def Let_def split: sum.splits)
    next
      case True
      then obtain polled where polled: "r = Inr polled" "length polled = length (in_flight st)"
        by blast
      let ?st = "st\<lparr>world := w, in_flight := []\<rparr>"
      have pre: "tallied env planned k (open_indices ([] @ map fst (zip (in_flight st) polled))) ?st \<and> in_flight ?st = []"
        using run polled by (simp add: running_def)
      obtain st' r' where step: "settle_polled env [] (zip (in_flight st) polled) ?st = (st', r')"
        by fastforce
      have post: "case r' of Inr still \<Rightarrow> tallied env planned k (open_indices still) st' \<and> in_flight st' = []
          \<and> length still \<le> length (in_flight st)
        | Inl e \<Rightarrow> sound_effects env planned st'"
        using triple_apply [OF settle_polled_triple pre step] polled by (simp split: sum.splits)
      have "drain_in_flight env st =
        (case r' of Inl e \<Rightarrow> (st', Inl e) | Inr still \<Rightarrow> (st'\<lparr>in_flight := still\<rparr>, Inr ()))"
        using False poll polled step by (simp add: drain_in_flight_def ex_bind_def split: sum.split)
      then show ?thesis
        using post run by (auto simp: running_def split: sum.splits)
    qed
  qed
qed

lemma drain_below_triple:
  "triple (running env planned k) (drain_below env limit fuel)
     (\<lambda>_ st. running env planned k st \<and> length (in_flight st) < limit) (\<lambda>_. sound_effects env planned)"
proof (induction fuel)
  case 0
  then show ?case
    by (auto simp: triple_def fail_with_def ret_def intro: running_sound)
next
  case (Suc fuel)
  have loop: "triple (running env planned k) (ex_bind (drain_in_flight env) (\<lambda>_. drain_below env limit fuel))
     (\<lambda>_ st. running env planned k st \<and> length (in_flight st) < limit) (\<lambda>_. sound_effects env planned)"
    by (rule triple_bind [OF drain_in_flight_triple Suc.IH])
  show ?case
    unfolding triple_def
  proof (intro allI impI)
    fix st
    assume run: "running env planned k st"
    show "case drain_below env limit (Suc fuel) st of
        (st', Inr a) \<Rightarrow> running env planned k st' \<and> length (in_flight st') < limit | (st', Inl e) \<Rightarrow> sound_effects env planned st'"
      using loop run unfolding triple_def by (simp add: ret_def)
  qed
qed

subsection \<open>One chunk\<close>

definition has_record :: "('w, 'i) executor_env \<Rightarrow> signed_chunk \<Rightarrow> 'w executor \<Rightarrow> bool" where
  "has_record env sc st \<longleftrightarrow> (\<exists>ev. Journaled ev \<in> set (effects st) \<and> kind ev = signed_kind env sc)"

text \<open>Room for one more signature in flight.\<close>

definition has_room :: "('w, 'i) executor_env \<Rightarrow> nat list \<Rightarrow> nat \<Rightarrow> 'w executor \<Rightarrow> bool" where
  "has_room env planned k st \<longleftrightarrow> running env planned k st \<and> length (in_flight st) < max_in_flight (ex_config env)"

lemma has_room_sound: "has_room env planned k st \<Longrightarrow> sound_effects env planned st"
  by (auto simp: has_room_def intro: running_sound)

lemma has_room_frame [simp]:
  "has_room env planned k (st\<lparr>world := w\<rparr>) = has_room env planned k st"
  "has_room env planned k (st\<lparr>journal_state := js\<rparr>) = has_room env planned k st"
  "has_room env planned k (st\<lparr>permit := p\<rparr>) = has_room env planned k st"
  by (simp_all add: has_room_def)

definition sending :: "('w, 'i) executor_env \<Rightarrow> nat list \<Rightarrow> nat \<Rightarrow> nat \<Rightarrow> 'w executor \<Rightarrow> bool" where
  "sending env planned k i st \<longleftrightarrow>
     tallied env planned k (add_mset i (open_indices (in_flight st))) st \<and> length (in_flight st) < max_in_flight (ex_config env)"

lemma sending_sound: "sending env planned k i st \<Longrightarrow> sound_effects env planned st"
  by (auto simp: sending_def intro: tallied_sound)

lemma sending_frame [simp]:
  "sending env planned k i (st\<lparr>world := w\<rparr>) = sending env planned k i st"
  "sending env planned k i (st\<lparr>journal_state := js\<rparr>) = sending env planned k i st"
  by (simp_all add: sending_def)

text \<open>The record is written, the broadcast is next.\<close>

definition announced :: "('w, 'i) executor_env \<Rightarrow> nat list \<Rightarrow> nat \<Rightarrow> signed_chunk \<Rightarrow> 'w executor \<Rightarrow> bool" where
  "announced env planned k sc st \<longleftrightarrow>
     tallied_at env planned (Suc k) k (open_indices (in_flight st)) st
     \<and> length (in_flight st) < max_in_flight (ex_config env) \<and> has_record env sc st"

lemma announced_broadcast:
  "announced env planned k sc st \<Longrightarrow> k < length planned \<Longrightarrow> sc_chunk_index sc = planned ! k \<Longrightarrow>
   sending env planned (Suc k) (sc_chunk_index sc) (st\<lparr>world := w, effects := effects st @ [Broadcasted sc]\<rparr>)"
  by (auto simp: announced_def sending_def has_record_def intro: tallied_broadcast)

lemma journal_broadcast_triple:
  "triple (sending env planned k i) (journal_chunk_broadcast env credential sig) (\<lambda>_. sending env planned k i) (\<lambda>_. sound_effects env planned)"
  unfolding journal_chunk_broadcast_def
proof (rule journal_append_triple)
  fix st :: "'a executor" and js w and ev :: journal_event
  assume "sending env planned k i st" "kind ev = ChunkBroadcast (permit_chunk_index credential) (ex_text env sig)"
  then show "sending env planned k i (st\<lparr>journal_state := js, world := w, effects := effects st @ [Journaled ev]\<rparr>)"
    by (simp add: sending_def tallied_other)
qed (auto intro: sending_sound)

lemma journal_confirm_triple:
  "triple (sending env planned k i)
     (ex_bind (journal_append env (ChunkConfirmed i sig)) (\<lambda>_ st. (add_confirmed st, Inr ())))
     (\<lambda>_. running env planned k) (\<lambda>_. sound_effects env planned)"
proof (rule triple_bind)
  show "triple (sending env planned k i) (journal_append env (ChunkConfirmed i sig))
    (\<lambda>_ st. running env planned k (add_confirmed st)) (\<lambda>_. sound_effects env planned)"
    by (rule journal_append_triple)
      (auto simp: sending_def running_def intro: tallied_confirmed tallied_sound)
qed (rule triple_update)

lemma journal_failure_triple:
  "triple (sending env planned k i)
     (ex_bind (journal_append env (ChunkFailed i reason retry)) (\<lambda>_ st. (add_failed st, Inr ())))
     (\<lambda>_. running env planned k) (\<lambda>_. sound_effects env planned)"
proof (rule triple_bind)
  show "triple (sending env planned k i) (journal_append env (ChunkFailed i reason retry))
    (\<lambda>_ st. running env planned k (add_failed st)) (\<lambda>_. sound_effects env planned)"
    by (rule journal_append_triple)
      (auto simp: sending_def running_def intro: tallied_failed tallied_sound)
qed (rule triple_update)

lemma record_outcome_triple:
  "triple (sending env planned k (sc_chunk_index sc)) (record_outcome env sc credential outcome) (\<lambda>_. running env planned k) (\<lambda>_. sound_effects env planned)"
  unfolding record_outcome_def
  by (auto split: sum.split broadcast_outcome.split simp: sending_def running_def
      intro!: triple_bind [OF journal_broadcast_triple] triple_update
        journal_confirm_triple journal_failure_triple)

text \<open>A broadcast takes the state to one with its effect logged, whatever it answers.\<close>

lemma send_signed_rule:
  assumes "\<And>outcome. triple R (record_outcome env sc credential outcome) Q E"
    and "\<And>st. P st \<Longrightarrow> R (st\<lparr>world := snd (broadcast (ex_broadcaster env) (world st) sc),
      effects := effects st @ [Broadcasted sc]\<rparr>)"
  shows "triple P (send_signed env sc credential) Q E"
  unfolding triple_def
proof (intro allI impI)
  fix st
  assume "P st"
  then show "case send_signed env sc credential st of (st', Inr a) \<Rightarrow> Q a st' | (st', Inl e) \<Rightarrow> E e st'"
    using assms(1) [of "fst (broadcast (ex_broadcaster env) (world st) sc)"] assms(2)
    unfolding triple_def send_signed_def by (simp add: case_prod_beta)
qed

lemma send_signed_triple:
  assumes "k < length planned" and "sc_chunk_index sc = planned ! k"
  shows "triple (announced env planned k sc) (send_signed env sc credential)
     (\<lambda>_. running env planned (Suc k)) (\<lambda>_. sound_effects env planned)"
  by (rule send_signed_rule [OF record_outcome_triple]) (auto intro: announced_broadcast assms)

lemma journal_signed_triple:
  assumes "k < length planned" and "sc_chunk_index sc = planned ! k"
  shows "triple (has_room env planned k) (journal_chunk_signed env sc)
     (\<lambda>_. announced env planned k sc) (\<lambda>_. sound_effects env planned)"
  unfolding journal_chunk_signed_def
proof (rule triple_bind)
  let ?k = "ChunkSigned (sc_chunk_index sc) (sc_row_numbers sc) (ex_text env (sc_signature sc))
            (signed_transaction_base64 sc) (ex_text env (sc_blockhash sc)) (sc_last_valid_block_height sc)"
  show "triple (has_room env planned k) (journal_append env ?k)
     (\<lambda>_. announced env planned k sc) (\<lambda>_. sound_effects env planned)"
  proof (rule journal_append_triple)
    fix st :: "'a executor" and js w and ev :: journal_event
    assume st: "has_room env planned k st" and ev: "kind ev = ?k"
    then show "announced env planned k sc (st\<lparr>journal_state := js, world := w, effects := effects st @ [Journaled ev]\<rparr>)"
      using tallied_signed [OF _ ev assms, where env = env and m = "open_indices (in_flight st)" and st = st]
      by (auto simp: has_room_def running_def announced_def has_record_def signed_kind_def)
  qed (auto intro: has_room_sound)
qed (rule triple_ret)

lemma record_and_send_triple:
  assumes "k < length planned" and "i = planned ! k"
  shows "triple (\<lambda>st. has_room env planned k st \<and> sc_chunk_index sc = i)
     (ex_bind (journal_chunk_signed env sc) (send_signed env sc))
     (\<lambda>_. running env planned (Suc k)) (\<lambda>_. sound_effects env planned)"
proof (cases "sc_chunk_index sc = i")
  case True
  have "triple (has_room env planned k) (ex_bind (journal_chunk_signed env sc) (send_signed env sc))
     (\<lambda>_. running env planned (Suc k)) (\<lambda>_. sound_effects env planned)"
    using True assms by (intro triple_bind [OF journal_signed_triple send_signed_triple]) simp_all
  then show ?thesis
    by (rule triple_weaken) simp_all
qed (simp add: triple_def)

lemma prepare_triple:
  "triple (has_room env planned k) (\<lambda>st. case prepare (ex_broadcaster env) (world st) chunk of
                 (Inl e, w) \<Rightarrow> (st\<lparr>world := w\<rparr>, Inl (TransportError e))
               | (Inr prepared, w) \<Rightarrow> (st\<lparr>world := w\<rparr>, Inr prepared)) (\<lambda>_. has_room env planned k) (\<lambda>_. sound_effects env planned)"
  unfolding triple_def by (auto split: prod.split sum.split intro: has_room_sound)

lemma build_triple:
  "triple (has_room env planned k) (\<lambda>st. (st, map_err BuildError built)) (\<lambda>_. has_room env planned k) (\<lambda>_. sound_effects env planned)"
  unfolding triple_def by (auto split: sum.split intro: has_room_sound)

lemma sign_room_triple:
  "triple (has_room env planned k) (sign_off_runtime_thread env i tx lv)
     (\<lambda>sc st. has_room env planned k st \<and> sc_chunk_index sc = i) (\<lambda>_. sound_effects env planned)"
  by (rule sign_triple) (auto intro: has_room_sound)

lemma run_chunk_triple:
  assumes "k < length planned" and "chunk_index chunk = planned ! k"
  shows "triple (running env planned k) (run_chunk env fuel chunk) (\<lambda>_. running env planned (Suc k)) (\<lambda>_. sound_effects env planned)"
  unfolding run_chunk_def
proof (rule triple_bind)
  show "triple (running env planned k) (drain_below env (max_in_flight (ex_config env)) fuel)
    (\<lambda>_. has_room env planned k) (\<lambda>_. sound_effects env planned)"
    by (rule triple_weaken [OF drain_below_triple]) (simp_all add: has_room_def)
qed (rule triple_bind [OF prepare_triple] triple_bind [OF build_triple] triple_bind [OF sign_room_triple]
    record_and_send_triple [OF assms])+

lemma run_chunks_triple:
  "k + length cs \<le> length planned \<Longrightarrow> map chunk_index cs = take (length cs) (drop k planned) \<Longrightarrow>
   triple (running env planned k) (run_chunks env fuel cs) (\<lambda>_. running env planned (k + length cs))
     (\<lambda>_. sound_effects env planned)"
proof (induction cs arbitrary: k)
  case Nil
  have "run_chunks env fuel [] = ret ()"
    by (rule ext) simp
  then show ?case
    by (auto intro: triple_ret)
next
  case (Cons chunk cs)
  have "run_chunks env fuel (chunk # cs) = ex_bind (run_chunk env fuel chunk) (\<lambda>_. run_chunks env fuel cs)"
    by (rule ext) simp
  moreover have "drop k planned = planned ! k # drop (Suc k) planned"
    using Cons.prems(1) by (simp add: Cons_nth_drop_Suc)
  ultimately show ?case
    using Cons.prems triple_bind [OF run_chunk_triple [of k planned chunk env fuel] Cons.IH [of "Suc k"]] by simp
qed

text \<open>The whole run, from a fresh log of effects.\<close>

definition started :: "'w executor \<Rightarrow> bool" where
  "started st \<longleftrightarrow> effects st = []"

lemma run_triple:
  "triple started (run env fuel cs)
     (\<lambda>result st. running env (map chunk_index cs) (length cs) st \<and> in_flight st = [] \<and> result = summary st) (\<lambda>_. sound_effects env (map chunk_index cs))"
proof -
  have body: "triple (running env (map chunk_index cs) 0)
      (ex_bind (run_chunks env fuel cs) (\<lambda>_. ex_bind (drain_below env 1 fuel) (\<lambda>_ st. (st, Inr (summary st)))))
      (\<lambda>result st. running env (map chunk_index cs) (length cs) st \<and> in_flight st = [] \<and> result = summary st) (\<lambda>_. sound_effects env (map chunk_index cs))"
  proof (rule triple_bind [OF run_chunks_triple triple_bind [OF drain_below_triple]])
    show "triple (\<lambda>st. running env (map chunk_index cs) (0 + length cs) st \<and> length (in_flight st) < 1) (\<lambda>st. (st, Inr (summary st)))
       (\<lambda>result st. running env (map chunk_index cs) (length cs) st \<and> in_flight st = [] \<and> result = summary st) (\<lambda>_. sound_effects env (map chunk_index cs))"
      by (simp add: triple_def)
  qed simp_all
  have eq: "run env fuel cs = (\<lambda>st.
      ex_bind (run_chunks env fuel cs) (\<lambda>_. ex_bind (drain_below env 1 fuel) (\<lambda>_ st. (st, Inr (summary st))))
        (st\<lparr>in_flight := [], summary := \<lparr>confirmed = 0, failed = 0\<rparr>\<rparr>))"
    by (rule ext) (simp add: run_def)
  show ?thesis
    unfolding eq
  proof (rule triple_weaken [OF triple_after [OF body]])
    show "started st \<Longrightarrow> running env (map chunk_index cs) 0 (st\<lparr>in_flight := [], summary := \<lparr>confirmed = 0, failed = 0\<rparr>\<rparr>)" for st
      by (simp add: started_def running_def tallied_at_def)
  qed simp_all
qed

section \<open>Fuel\<close>

text \<open>
  When waiting ends: a rank of the world that no step increases and that every poll lowers which leaves
  all of its signatures pending. For a transport that reports expired signatures as failed, the number of
  polls until the expiry height is such a rank.
\<close>

definition polls_progress :: "('w, 'i) executor_env \<Rightarrow> ('w \<Rightarrow> nat) \<Rightarrow> bool" where
  "polls_progress env rank \<longleftrightarrow>
     (\<forall>w. rank (snd (draw_io env w)) \<le> rank w \<and> rank (snd (draw_now env w)) \<le> rank w
        \<and> rank (snd (draw_signer env w)) \<le> rank w)
     \<and> (\<forall>w c. rank (snd (prepare (ex_broadcaster env) w c)) \<le> rank w)
     \<and> (\<forall>w sc. rank (snd (broadcast (ex_broadcaster env) w sc)) \<le> rank w)
     \<and> (\<forall>w ps. rank (snd (poll_pending (ex_broadcaster env) w ps)) \<le> rank w)
     \<and> (\<forall>w ps ss w'. poll_pending (ex_broadcaster env) w ps = (Inr ss, w') \<longrightarrow> ps \<noteq> []
          \<longrightarrow> set ss \<subseteq> {StillPending} \<longrightarrow> rank w' < rank w)"

abbreviation in_fuel :: "executor_error \<Rightarrow> 'w executor \<Rightarrow> bool" where
  "in_fuel e st \<equiv> e \<noteq> OutOfFuel"

text \<open>The rank and a bound on the number in flight, which the steps between polls keep.\<close>

definition ranked :: "('w \<Rightarrow> nat) \<Rightarrow> nat \<Rightarrow> (nat \<Rightarrow> bool) \<Rightarrow> 'w executor \<Rightarrow> bool" where
  "ranked rank r F st \<longleftrightarrow> rank (world st) \<le> r \<and> F (length (in_flight st))"

lemma journal_append_ranked:
  assumes "polls_progress env rank"
  shows "triple (ranked rank r F) (journal_append env k) (\<lambda>_. ranked rank r F) in_fuel"
  unfolding triple_def
proof (intro allI impI)
  fix st
  assume st: "ranked rank r F st"
  obtain io w1 where io: "draw_io env (world st) = (io, w1)"
    by fastforce
  obtain now w2 where now: "draw_now env w1 = (now, w2)"
    by fastforce
  have "rank w1 \<le> rank (world st)" "rank w2 \<le> rank w1"
    using assms io now unfolding polls_progress_def by (metis snd_conv)+
  then show "case journal_append env k st of
      (st', Inr a) \<Rightarrow> ranked rank r F st' | (st', Inl e) \<Rightarrow> in_fuel e st'"
    using st by (auto simp: journal_append_def io now ranked_def split: prod.splits sum.splits)
qed

lemma sign_ranked:
  assumes "polls_progress env rank"
  shows "triple (ranked rank r F) (sign_off_runtime_thread env i tx lv) (\<lambda>_. ranked rank r F) in_fuel"
  unfolding triple_def
proof (intro allI impI)
  fix st
  assume st: "ranked rank r F st"
  obtain now w1 where now: "draw_now env (world st) = (now, w1)"
    by fastforce
  obtain sg w2 where sg: "draw_signer env w1 = (sg, w2)"
    by fastforce
  have "rank w1 \<le> rank (world st)" "rank w2 \<le> rank w1"
    using assms now sg unfolding polls_progress_def by (metis snd_conv)+
  then show "case sign_off_runtime_thread env i tx lv st of
      (st', Inr a) \<Rightarrow> ranked rank r F st' | (st', Inl e) \<Rightarrow> in_fuel e st'"
    using st by (auto simp: sign_off_runtime_thread_def now sg ranked_def split: prod.splits sum.splits)
qed

lemma ranked_add [simp]:
  "ranked rank r F (add_confirmed st) = ranked rank r F st"
  "ranked rank r F (add_failed st) = ranked rank r F st"
  by (simp_all add: ranked_def add_confirmed_def add_failed_def)

lemma settle_polled_ranked:
  assumes "polls_progress env rank"
  shows "triple (ranked rank r F) (settle_polled env still polled)
     (\<lambda>still' st. ranked rank r F st
        \<and> length still' = length still + count_of (\<lambda>(c, status). status = StillPending) polled) in_fuel"
proof (induction polled arbitrary: still)
  case Nil
  have "settle_polled env still [] = ret still"
    by (rule ext) simp
  then show ?case
    by (auto intro: triple_ret simp: count_of_def)
next
  case (Cons item polled)
  obtain chunk status where item: "item = (chunk, status)"
    by (cases item)
  note append = journal_append_ranked [OF assms, of r F]
  show ?case
  proof (cases status)
    case StillPending
    have "settle_polled env still (item # polled) = settle_polled env (still @ [chunk]) polled"
      by (rule ext) (simp add: item StillPending)
    then show ?thesis
      using Cons.IH [of "still @ [chunk]"] by (simp add: item StillPending count_of_def)
  next
    case PollConfirmed
    have eq: "settle_polled env still (item # polled) = ex_bind
        (journal_append env (ChunkConfirmed (fl_chunk_index chunk) (ex_text env (fl_signature chunk))))
        (\<lambda>_ st. settle_polled env still polled (add_confirmed st))"
      by (rule ext) (simp add: item PollConfirmed)
    show ?thesis
      unfolding eq
      by (rule triple_bind [OF append], rule triple_weaken [OF triple_after [OF Cons.IH]])
        (simp_all add: item PollConfirmed count_of_def)
  next
    case (PollFailed reason)
    have eq: "settle_polled env still (item # polled) = ex_bind
        (journal_append env (ChunkFailed (fl_chunk_index chunk) reason True))
        (\<lambda>_ st. settle_polled env still polled (add_failed st))"
      by (rule ext) (simp add: item PollFailed)
    show ?thesis
      unfolding eq
      by (rule triple_bind [OF append], rule triple_weaken [OF triple_after [OF Cons.IH]])
        (simp_all add: item PollFailed count_of_def)
  qed
qed

lemma polls_progress_poll:
  "polls_progress env rank \<Longrightarrow> poll_pending (ex_broadcaster env) w ps = (Inr ss, w') \<Longrightarrow> ps \<noteq> []
   \<Longrightarrow> set ss \<subseteq> {StillPending} \<Longrightarrow> rank w' < rank w"
  unfolding polls_progress_def by blast

text \<open>A window of at most \<open>b\<close> signatures that \<open>n\<close> more polls are sure to empty.\<close>

definition fuel_left :: "('w \<Rightarrow> nat) \<Rightarrow> nat \<Rightarrow> nat \<Rightarrow> nat \<Rightarrow> 'w executor \<Rightarrow> bool" where
  "fuel_left rank r b n st \<longleftrightarrow>
     ranked rank r (\<lambda>l. l \<le> b) st \<and> rank (world st) + length (in_flight st) \<le> n"

lemma count_still_pending:
  assumes "length cs = length polled"
  shows "count_of (\<lambda>(c, status). status = StillPending) (zip cs polled) \<le> length cs"
    and "count_of (\<lambda>(c, status). status = StillPending) (zip cs polled) = length cs \<Longrightarrow> set polled \<subseteq> {StillPending}"
  using assms
  by (induction cs polled rule: list_induct2) (auto simp: count_of_def split: if_splits dest: le_antisym)

lemma drain_in_flight_ranked:
  assumes "polls_progress env rank"
  shows "triple (\<lambda>st. fuel_left rank r b (Suc n) st \<and> in_flight st \<noteq> []) (drain_in_flight env)
     (\<lambda>_. fuel_left rank r b n) in_fuel"
  unfolding triple_def
proof (intro allI impI)
  fix st
  assume st: "fuel_left rank r b (Suc n) st \<and> in_flight st \<noteq> []"
  let ?pending = "map (\<lambda>c. \<lparr>pend_signature = fl_signature c,
    pend_last_valid_block_height = fl_last_valid_block_height c\<rparr>) (in_flight st)"
  obtain res w where poll: "poll_pending (ex_broadcaster env) (world st) ?pending = (res, w)"
    by fastforce
  have w: "rank w \<le> rank (world st)"
    using assms poll unfolding polls_progress_def by (metis snd_conv)
  show "case drain_in_flight env st of (st', Inr a) \<Rightarrow> fuel_left rank r b n st' | (st', Inl e) \<Rightarrow> in_fuel e st'"
  proof (cases "\<exists>polled. res = Inr polled \<and> length polled = length (in_flight st)")
    case False
    then show ?thesis
      using st poll by (auto simp: drain_in_flight_def Let_def split: sum.splits)
  next
    case True
    then obtain polled where polled: "res = Inr polled" "length (in_flight st) = length polled"
      by (metis (no_types))
    let ?count = "count_of (\<lambda>(c, status). status = StillPending) (zip (in_flight st) polled)"
    let ?st = "st\<lparr>world := w, in_flight := []\<rparr>"
    obtain st' r' where step: "settle_polled env [] (zip (in_flight st) polled) ?st = (st', r')"
      by fastforce
    have post: "case r' of Inr still \<Rightarrow> rank (world st') \<le> rank w \<and> length still = ?count | Inl e \<Rightarrow> e \<noteq> OutOfFuel"
      using triple_apply [OF settle_polled_ranked [OF assms, of "rank w" "\<lambda>_. True"] _ step]
      by (simp add: ranked_def split: sum.splits)
    have drain: "drain_in_flight env st =
      (case r' of Inl e \<Rightarrow> (st', Inl e) | Inr still \<Rightarrow> (st'\<lparr>in_flight := still\<rparr>, Inr ()))"
      using st poll polled step by (simp add: drain_in_flight_def ex_bind_def split: sum.split)
    have less: "rank w + ?count < rank (world st) + length (in_flight st)" "?count \<le> length (in_flight st)"
    proof -
      show le: "?count \<le> length (in_flight st)"
        by (rule count_still_pending(1) [OF polled(2)])
      show "rank w + ?count < rank (world st) + length (in_flight st)"
      proof (cases "?count = length (in_flight st)")
        case True
        then have "set polled \<subseteq> {StillPending}"
          by (rule count_still_pending(2) [OF polled(2)])
        then have "rank w < rank (world st)"
          using polls_progress_poll [OF assms, of "world st" ?pending polled w] poll polled(1) st by simp
        then show ?thesis
          using le by simp
      qed (use le w in simp)
    qed
    show ?thesis
      using post st w less by (auto simp: drain fuel_left_def ranked_def split: sum.splits)
  qed
qed

lemma drain_below_ranked:
  assumes "polls_progress env rank" and "1 \<le> limit"
  shows "triple (fuel_left rank r b fuel) (drain_below env limit fuel)
     (\<lambda>_. ranked rank r (\<lambda>l. l \<le> b \<and> l < limit)) in_fuel"
proof (induction fuel)
  case 0
  then show ?case
    using assms(2) by (auto simp: triple_def fuel_left_def ranked_def ret_def fail_with_def)
next
  case (Suc fuel)
  have loop: "triple (\<lambda>st. fuel_left rank r b (Suc fuel) st \<and> in_flight st \<noteq> [])
     (ex_bind (drain_in_flight env) (\<lambda>_. drain_below env limit fuel))
     (\<lambda>_. ranked rank r (\<lambda>l. l \<le> b \<and> l < limit)) in_fuel"
    by (rule triple_bind [OF drain_in_flight_ranked [OF assms(1)] Suc.IH])
  show ?case
    unfolding triple_def
  proof (intro allI impI)
    fix st
    assume st: "fuel_left rank r b (Suc fuel) st"
    show "case drain_below env limit (Suc fuel) st of
        (st', Inr a) \<Rightarrow> ranked rank r (\<lambda>l. l \<le> b \<and> l < limit) st' | (st', Inl e) \<Rightarrow> in_fuel e st'"
    proof (cases "limit \<le> length (in_flight st)")
      case True
      then have "in_flight st \<noteq> []"
        using assms(2) by auto
      then show ?thesis
        using loop st True unfolding triple_def by simp
    next
      case False
      then show ?thesis
        using st by (simp add: ret_def fuel_left_def ranked_def)
    qed
  qed
qed

lemma record_outcome_ranked:
  assumes "polls_progress env rank"
  shows "triple (ranked rank r (\<lambda>l. l < b)) (record_outcome env sc credential outcome)
     (\<lambda>_. ranked rank r (\<lambda>l. l \<le> b)) in_fuel"
  unfolding record_outcome_def journal_chunk_broadcast_def
  by (auto split: sum.split broadcast_outcome.split simp: ranked_def add_confirmed_def add_failed_def
      intro!: triple_bind [OF journal_append_ranked [OF assms, of r "\<lambda>l. l < b"]] triple_update)

lemma send_signed_ranked:
  assumes "polls_progress env rank"
  shows "triple (ranked rank r (\<lambda>l. l < b)) (send_signed env sc credential)
     (\<lambda>_. ranked rank r (\<lambda>l. l \<le> b)) in_fuel"
proof (rule send_signed_rule [OF record_outcome_ranked [OF assms]])
  fix st
  assume "ranked rank r (\<lambda>l. l < b) st"
  moreover have "rank (snd (broadcast (ex_broadcaster env) (world st) sc)) \<le> rank (world st)"
    using assms unfolding polls_progress_def by blast
  ultimately show "ranked rank r (\<lambda>l. l < b) (st\<lparr>world := snd (broadcast (ex_broadcaster env) (world st) sc),
      effects := effects st @ [Broadcasted sc]\<rparr>)"
    by (simp add: ranked_def)
qed

lemma prepare_ranked:
  assumes "polls_progress env rank"
  shows "triple (ranked rank r F) (\<lambda>st. case prepare (ex_broadcaster env) (world st) chunk of
                 (Inl e, w) \<Rightarrow> (st\<lparr>world := w\<rparr>, Inl (TransportError e))
               | (Inr prepared, w) \<Rightarrow> (st\<lparr>world := w\<rparr>, Inr prepared)) (\<lambda>_. ranked rank r F) in_fuel"
  unfolding triple_def
proof (intro allI impI)
  fix st
  assume st: "ranked rank r F st"
  obtain res w where p: "prepare (ex_broadcaster env) (world st) chunk = (res, w)"
    by fastforce
  have "rank w \<le> rank (world st)"
    using assms p unfolding polls_progress_def by (metis snd_conv)
  then show "case case prepare (ex_broadcaster env) (world st) chunk of
                 (Inl e, w) \<Rightarrow> (st\<lparr>world := w\<rparr>, Inl (TransportError e))
               | (Inr prepared, w) \<Rightarrow> (st\<lparr>world := w\<rparr>, Inr prepared)
      of (st', Inr a) \<Rightarrow> ranked rank r F st' | (st', Inl e) \<Rightarrow> in_fuel e st'"
    using st by (simp add: p ranked_def split: sum.split)
qed

lemma run_chunk_ranked:
  assumes "polls_progress env rank" and "1 \<le> max_in_flight (ex_config env)"
    and "r + max_in_flight (ex_config env) \<le> fuel"
  shows "triple (ranked rank r (\<lambda>l. l \<le> max_in_flight (ex_config env))) (run_chunk env fuel chunk)
     (\<lambda>_. ranked rank r (\<lambda>l. l \<le> max_in_flight (ex_config env))) in_fuel"
  unfolding run_chunk_def
proof (rule triple_bind)
  let ?M = "max_in_flight (ex_config env)"
  show "triple (ranked rank r (\<lambda>l. l \<le> ?M)) (drain_below env ?M fuel) (\<lambda>_. ranked rank r (\<lambda>l. l < ?M)) in_fuel"
    by (rule triple_weaken [OF drain_below_ranked [OF assms(1,2), where r = r and b = ?M]])
      (use assms(3) in \<open>auto simp: fuel_left_def ranked_def\<close>)
  have build: "triple (ranked rank r F) (\<lambda>st. (st, map_err BuildError built)) (\<lambda>_. ranked rank r F) in_fuel" for F
    and built :: "planner_error + versioned_transaction"
    by (cases built) (simp_all add: triple_def)
  have signed: "triple (ranked rank r F) (journal_chunk_signed env sc) (\<lambda>_. ranked rank r F) in_fuel" for F sc
    unfolding journal_chunk_signed_def by (intro triple_bind [OF journal_append_ranked [OF assms(1)]] triple_ret)
  show "triple (ranked rank r (\<lambda>l. l < ?M))
      (ex_bind (\<lambda>st. case prepare (ex_broadcaster env) (world st) chunk of
                 (Inl e, w) \<Rightarrow> (st\<lparr>world := w\<rparr>, Inl (TransportError e))
               | (Inr prepared, w) \<Rightarrow> (st\<lparr>world := w\<rparr>, Inr prepared)) (\<lambda>prepared.
       ex_bind (\<lambda>st. (st, map_err BuildError
                 (build_chunk_transaction (ex_kit env) chunk (ctx_mint (ex_ctx env))
                    (ctx_token_program (ex_ctx env)) (ctx_decimals (ex_ctx env)) (ctx_sender (ex_ctx env))
                    (prep_fee_payer prepared) (prep_blockhash prepared)))) (\<lambda>tx.
       ex_bind (sign_off_runtime_thread env (chunk_index chunk) tx (prep_last_valid_block_height prepared)) (\<lambda>sc.
       ex_bind (journal_chunk_signed env sc) (\<lambda>credential. send_signed env sc credential)))))
      (\<lambda>_. ranked rank r (\<lambda>l. l \<le> ?M)) in_fuel"
    by (rule triple_bind [OF prepare_ranked [OF assms(1)]] triple_bind [OF build]
        triple_bind [OF sign_ranked [OF assms(1)]] triple_bind [OF signed] send_signed_ranked [OF assms(1)])+
qed

lemma run_ranked:
  assumes "polls_progress env rank" and "1 \<le> max_in_flight (ex_config env)"
    and "r + max_in_flight (ex_config env) \<le> fuel"
  shows "triple (\<lambda>st. rank (world st) \<le> r) (run env fuel cs) (\<lambda>_ _. True) in_fuel"
proof -
  let ?I = "ranked rank r (\<lambda>l. l \<le> max_in_flight (ex_config env))"
  have chunks: "triple ?I (run_chunks env fuel cs) (\<lambda>_. ?I) in_fuel"
  proof (induction cs)
    case Nil
    have "run_chunks env fuel [] = ret ()"
      by (rule ext) simp
    then show ?case
      by (auto intro: triple_ret)
  next
    case (Cons chunk cs)
    have "run_chunks env fuel (chunk # cs) = ex_bind (run_chunk env fuel chunk) (\<lambda>_. run_chunks env fuel cs)"
      by (rule ext) simp
    then show ?case
      using triple_bind [OF run_chunk_ranked [OF assms] Cons.IH] by simp
  qed
  have drain: "triple ?I (drain_below env 1 fuel) (\<lambda>_ _. True) in_fuel"
    by (rule triple_weaken [OF drain_below_ranked [OF assms(1) order_refl, where r = r and b = "max_in_flight (ex_config env)"]])
      (use assms(3) in \<open>auto simp: fuel_left_def ranked_def\<close>)
  have "triple ?I (ex_bind (run_chunks env fuel cs) (\<lambda>_. ex_bind (drain_below env 1 fuel) (\<lambda>_ st. (st, Inr (summary st)))))
      (\<lambda>_ _. True) in_fuel"
    by (rule triple_bind [OF chunks triple_bind [OF drain]]) (simp add: triple_def)
  then show ?thesis
    unfolding triple_def run_def by (simp add: ranked_def)
qed

lemma run_outcome:
  assumes "effects st = []" and "run env fuel cs st = (st', result)"
  shows "sound_effects env (map chunk_index cs) st'"
    and "result = Inr s \<Longrightarrow> running env (map chunk_index cs) (length cs) st' \<and> in_flight st' = [] \<and> s = summary st'"
proof -
  have "case result of Inr s \<Rightarrow> running env (map chunk_index cs) (length cs) st' \<and> in_flight st' = [] \<and> s = summary st'
      | Inl e \<Rightarrow> sound_effects env (map chunk_index cs) st'"
    using triple_apply [OF run_triple _ assms(2)] assms(1) by (simp add: started_def)
  then show "sound_effects env (map chunk_index cs) st'"
    and "result = Inr s \<Longrightarrow> running env (map chunk_index cs) (length cs) st' \<and> in_flight st' = [] \<and> s = summary st'"
    by (auto intro: running_sound split: sum.splits)
qed

text \<open>With no window at all the first chunk waits for room that never comes.\<close>

lemma drain_empty_window: "in_flight st = [] \<Longrightarrow> drain_below env 0 fuel st = (st, Inl OutOfFuel)"
  by (induction fuel) (simp_all add: fail_with_def ex_bind_def drain_in_flight_def)

section \<open>What a transport promises\<close>

text \<open>
  The contract of \<open>ChunkBroadcaster::poll_pending\<close>, one status per signature, and what the executor
  makes of it: its own check of the count never fires.
\<close>

locale chunk_transport =
  fixes b :: "'w chunk_broadcaster"
  assumes poll_one_each: "poll_pending b w ps = (Inr ss, w') \<Longrightarrow> length ss = length ps"
begin

abbreviation counted :: "executor_error \<Rightarrow> 'w executor \<Rightarrow> bool" where
  "counted e st \<equiv> e \<noteq> StatusCountMismatch"

lemma append_counted: "triple (\<lambda>_. True) (journal_append env k) (\<lambda>_ _. True) counted"
  by (rule journal_append_triple) simp_all

lemma settle_polled_counted: "triple (\<lambda>_. True) (settle_polled env still polled) (\<lambda>_ _. True) counted"
proof (induction polled arbitrary: still)
  case Nil
  show ?case
    by (simp add: triple_def ret_def)
next
  case (Cons item polled)
  obtain chunk status where item: "item = (chunk, status)"
    by (cases item)
  have "settle_polled env still (item # polled) = (case status of
        StillPending \<Rightarrow> settle_polled env (still @ [chunk]) polled
      | PollConfirmed \<Rightarrow>
          ex_bind (journal_append env (ChunkConfirmed (fl_chunk_index chunk) (ex_text env (fl_signature chunk))))
            (\<lambda>_ st. settle_polled env still polled (add_confirmed st))
      | PollFailed reason \<Rightarrow>
          ex_bind (journal_append env (ChunkFailed (fl_chunk_index chunk) reason True))
            (\<lambda>_ st. settle_polled env still polled (add_failed st)))"
    by (rule ext) (simp add: item split: pending_status.split)
  moreover have "triple (\<lambda>_. True) (ex_bind (journal_append env k) (\<lambda>_ st. settle_polled env still polled (f st)))
      (\<lambda>_ _. True) counted" for k f
    by (rule triple_bind [OF append_counted triple_after [OF Cons.IH]])
  ultimately show ?case
    using Cons.IH by (simp split: pending_status.split)
qed

lemma drain_in_flight_counted:
  assumes "ex_broadcaster env = b"
  shows "triple (\<lambda>_. True) (drain_in_flight env) (\<lambda>_ _. True) counted"
  unfolding triple_def
proof (intro allI impI)
  fix st :: "'w executor"
  let ?pending = "map (\<lambda>c. \<lparr>pend_signature = fl_signature c,
    pend_last_valid_block_height = fl_last_valid_block_height c\<rparr>) (in_flight st)"
  obtain r w where poll: "poll_pending b (world st) ?pending = (r, w)"
    by fastforce
  have settled: "triple (\<lambda>_. True) (ex_bind (settle_polled env [] polled)
      (\<lambda>still st. (st\<lparr>in_flight := still\<rparr>, Inr ()))) (\<lambda>_ _. True) counted" for polled
    by (rule triple_bind [OF settle_polled_counted]) (simp add: triple_def)
  show "case drain_in_flight env st of (st', Inr a) \<Rightarrow> True | (st', Inl e) \<Rightarrow> counted e st'"
    using settled poll_one_each [of "world st" ?pending _ w] poll
    by (cases r) (auto simp: drain_in_flight_def assms triple_def)
qed

lemma drain_below_counted:
  assumes "ex_broadcaster env = b"
  shows "triple (\<lambda>_. True) (drain_below env limit fuel) (\<lambda>_ _. True) counted"
proof (induction fuel)
  case 0
  then show ?case
    by (simp add: triple_def ret_def fail_with_def)
next
  case (Suc fuel)
  show ?case
    using triple_bind [OF drain_in_flight_counted [OF assms] Suc.IH] by (simp add: triple_def ret_def)
qed

lemma run_chunk_counted:
  assumes "ex_broadcaster env = b"
  shows "triple (\<lambda>_. True) (run_chunk env fuel chunk) (\<lambda>_ _. True) counted"
proof -
  have steps: "triple (\<lambda>_. True) (\<lambda>st. case prepare (ex_broadcaster env) (world st) chunk of
                 (Inl e, w) \<Rightarrow> (st\<lparr>world := w\<rparr>, Inl (TransportError e))
               | (Inr prepared, w) \<Rightarrow> (st\<lparr>world := w\<rparr>, Inr prepared)) (\<lambda>_ _. True) counted"
      "triple (\<lambda>_. True) (\<lambda>st. (st, map_err BuildError built)) (\<lambda>_ _. True) counted"
      "triple (\<lambda>_. True) (sign_off_runtime_thread env i tx lv) (\<lambda>_ _. True) counted"
      "triple (\<lambda>_. True) (journal_chunk_signed env sc) (\<lambda>_ _. True) counted"
    for built :: "planner_error + versioned_transaction" and i tx lv sc
    by (auto simp: triple_def map_err_def split: prod.split sum.split)
      (auto simp: sign_off_runtime_thread_def journal_chunk_signed_def journal_append_def ex_bind_def ret_def
        split: prod.splits sum.splits)
  have send: "triple (\<lambda>_. True) (send_signed env sc credential) (\<lambda>_ _. True) counted" for sc credential
    by (rule send_signed_rule [where R = "\<lambda>_. True"])
      (auto simp: record_outcome_def journal_chunk_broadcast_def split: sum.split broadcast_outcome.split
        intro!: triple_bind [OF append_counted] triple_update)
  show ?thesis
    unfolding run_chunk_def
    by (rule triple_bind [OF drain_below_counted [OF assms]] triple_bind [OF steps(1)] triple_bind [OF steps(2)]
        triple_bind [OF steps(3)] triple_bind [OF steps(4)] send)+
qed

lemma run_counted:
  assumes "ex_broadcaster env = b"
  shows "snd (run env fuel cs st) \<noteq> Inl StatusCountMismatch"
proof -
  have chunks: "triple (\<lambda>_. True) (run_chunks env fuel cs) (\<lambda>_ _. True) counted"
  proof (induction cs)
    case Nil
    then show ?case
      by (simp add: triple_def ret_def)
  next
    case (Cons c cs)
    show ?case
      using triple_bind [OF run_chunk_counted [OF assms] Cons.IH] by (simp add: triple_def)
  qed
  have "triple (\<lambda>_. True) (ex_bind (run_chunks env fuel cs) (\<lambda>_. ex_bind (drain_below env 1 fuel) (\<lambda>_ st. (st, Inr (summary st)))))
      (\<lambda>_ _. True) counted"
    by (rule triple_bind [OF chunks triple_bind [OF drain_below_counted [OF assms]]]) (simp add: triple_def)
  then have "triple (\<lambda>_. True) (run env fuel cs) (\<lambda>_ _. True) counted"
    by (simp add: triple_def run_def)
  then show ?thesis
    unfolding triple_def by (cases "run env fuel cs st") (auto split: sum.splits dest: spec [of _ st])
qed

end

text \<open>
  An invariant of the executor's state follows a run when plain bookkeeping and new records keep it, a
  signature keeps it and makes its chunk \<open>G\<close>ood, and broadcasting a good chunk keeps it.
\<close>

definition executor_kind :: "journal_event_kind \<Rightarrow> bool" where
  "executor_kind k = (case k of
      ChunkSigned _ _ _ _ _ _ \<Rightarrow> True | ChunkBroadcast _ _ \<Rightarrow> True | ChunkConfirmed _ _ \<Rightarrow> True
    | ChunkFailed _ _ _ \<Rightarrow> True | _ \<Rightarrow> False)"

lemma executor_kind_simps [simp]:
  "executor_kind (ChunkSigned i rows sig enc bh lv)" "executor_kind (ChunkBroadcast i sig)"
  "executor_kind (ChunkConfirmed i sig)" "executor_kind (ChunkFailed i reason retry)"
  by (simp_all add: executor_kind_def)

locale executor_invariant =
  fixes env :: "('w, 'i) executor_env" and J :: "'w executor \<Rightarrow> bool" and G :: "signed_chunk \<Rightarrow> bool"
  assumes J_frame: "J st \<Longrightarrow> J (st\<lparr>world := w\<rparr>)" "J st \<Longrightarrow> J (st\<lparr>journal_state := js\<rparr>)"
      "J st \<Longrightarrow> J (st\<lparr>in_flight := fl\<rparr>)" "J st \<Longrightarrow> J (st\<lparr>summary := s\<rparr>)"
    and J_record: "J st \<Longrightarrow> executor_kind (kind ev) \<Longrightarrow> J (st\<lparr>effects := effects st @ [Journaled ev]\<rparr>)"
    and J_sign: "J st \<Longrightarrow> sign_chunk (ex_chain env) sg now (permit st) i tx lv = (p, r) \<Longrightarrow> J (st\<lparr>permit := p\<rparr>)"
    and G_sign: "J st \<Longrightarrow> sign_chunk (ex_chain env) sg now (permit st) i tx lv = (p, Inr sc) \<Longrightarrow> G sc"
    and J_send: "J st \<Longrightarrow> G sc \<Longrightarrow> J (st\<lparr>effects := effects st @ [Broadcasted sc]\<rparr>)"
begin

abbreviation kept :: "('w, 'a) exec \<Rightarrow> bool" where
  "kept m \<equiv> triple J m (\<lambda>_. J) (\<lambda>_. J)"

lemma kept_apply: "kept m \<Longrightarrow> m st = (st', r) \<Longrightarrow> J st \<Longrightarrow> J st'"
  using triple_apply [of J m "\<lambda>_. J" "\<lambda>_. J" st st' r] by (cases r) simp_all

lemma J_counts: "J st \<Longrightarrow> J (add_confirmed st)" "J st \<Longrightarrow> J (add_failed st)"
  by (simp_all add: add_confirmed_def add_failed_def J_frame)

lemma append_kept: "executor_kind k \<Longrightarrow> kept (journal_append env k)"
proof (rule journal_append_triple)
  fix st :: "'w executor" and js w and ev :: journal_event
  assume "executor_kind k" "kind ev = k" "J st"
  then have "J (st\<lparr>journal_state := js, world := w\<rparr>)"
    by (simp add: J_frame)
  from J_record [OF this, of ev] show "J (st\<lparr>journal_state := js, world := w, effects := effects st @ [Journaled ev]\<rparr>)"
    using \<open>executor_kind k\<close> \<open>kind ev = k\<close> by simp
qed (simp add: J_frame)

lemma settle_polled_kept: "kept (settle_polled env still polled)"
proof (induction polled arbitrary: still)
  case Nil
  show ?case
    by (simp add: triple_def ret_def)
next
  case (Cons item polled)
  obtain chunk status where item: "item = (chunk, status)"
    by (cases item)
  have step: "kept (ex_bind (journal_append env k) (\<lambda>_ st. settle_polled env still polled (f st)))"
    if "executor_kind k" "\<And>st. J st \<Longrightarrow> J (f st)" for k f
    by (rule triple_bind [OF append_kept [OF that(1)] triple_weaken [OF triple_after [OF Cons.IH]]]) (auto intro: that)
  show ?case
    using Cons.IH step [OF executor_kind_simps(3) J_counts(1)] step [OF executor_kind_simps(4) J_counts(2)]
    unfolding triple_def item by (cases status) simp_all
qed

lemma drain_in_flight_kept: "kept (drain_in_flight env)"
proof -
  have settled: "kept (ex_bind (settle_polled env [] polled) (\<lambda>still st. (st\<lparr>in_flight := still\<rparr>, Inr ())))" for polled
    by (rule triple_bind [OF settle_polled_kept]) (simp add: triple_def J_frame)
  show ?thesis
    unfolding triple_def [of _ "drain_in_flight env"] drain_in_flight_def
    by (auto simp: Let_def J_frame split: prod.split sum.split intro: kept_apply [OF settled])
qed

lemma drain_below_kept: "kept (drain_below env limit fuel)"
proof (induction fuel)
  case 0
  then show ?case
    by (simp add: triple_def ret_def fail_with_def)
next
  case (Suc fuel)
  show ?case
    using triple_bind [OF drain_in_flight_kept Suc.IH] by (simp add: triple_def ret_def)
qed

lemma sign_kept: "triple J (sign_off_runtime_thread env i tx lv) (\<lambda>sc st. J st \<and> G sc) (\<lambda>_. J)"
  unfolding triple_def sign_off_runtime_thread_def
  by (auto split: prod.split sum.split intro: J_frame dest: G_sign J_sign)

lemma send_signed_kept:
  assumes "G sc"
  shows "kept (send_signed env sc credential)"
proof (rule send_signed_rule [where R = J])
  show "kept (record_outcome env sc credential outcome)" for outcome
    by (auto simp: record_outcome_def journal_chunk_broadcast_def J_frame J_counts split: sum.split broadcast_outcome.split
        intro!: triple_bind [OF append_kept [OF executor_kind_simps(2)]] triple_bind [OF append_kept [OF executor_kind_simps(3)]]
          triple_bind [OF append_kept [OF executor_kind_simps(4)]] triple_update)
  fix st :: "'w executor"
  let ?w = "snd (broadcast (ex_broadcaster env) (world st) sc)"
  assume "J st"
  then show "J (st\<lparr>world := ?w, effects := effects st @ [Broadcasted sc]\<rparr>)"
    using J_send [of "st\<lparr>world := ?w\<rparr>" sc] assms by (simp add: J_frame)
qed

lemma record_and_send_kept:
  "triple (\<lambda>st. J st \<and> G sc) (ex_bind (journal_chunk_signed env sc) (send_signed env sc)) (\<lambda>_. J) (\<lambda>_. J)"
proof (cases "G sc")
  case True
  have "kept (journal_chunk_signed env sc)"
    unfolding journal_chunk_signed_def by (rule triple_bind [OF append_kept triple_ret]) simp_all
  from triple_bind [OF this send_signed_kept [OF True]] show ?thesis
    by (rule triple_weaken) simp_all
qed (simp add: triple_def)

lemma run_chunk_kept: "kept (run_chunk env fuel chunk)"
proof -
  have steps: "kept (\<lambda>st. case prepare (ex_broadcaster env) (world st) chunk of
                 (Inl e, w) \<Rightarrow> (st\<lparr>world := w\<rparr>, Inl (TransportError e))
               | (Inr prepared, w) \<Rightarrow> (st\<lparr>world := w\<rparr>, Inr prepared))"
      "kept (\<lambda>st. (st, map_err BuildError built))" for built :: "planner_error + versioned_transaction"
    by (auto simp: triple_def map_err_def J_frame split: prod.split sum.split)
  show ?thesis
    unfolding run_chunk_def
    by (rule triple_bind [OF drain_below_kept] triple_bind [OF steps(1)] triple_bind [OF steps(2)]
        triple_bind [OF sign_kept] record_and_send_kept)+
qed

lemma run_kept:
  assumes "J st" and "run env fuel cs st = (st', result)"
  shows "J st'"
proof -
  have chunks: "kept (run_chunks env fuel cs)"
  proof (induction cs)
    case Nil
    then show ?case
      by (simp add: triple_def ret_def)
  next
    case (Cons c cs)
    show ?case
      using triple_bind [OF run_chunk_kept Cons.IH] by (simp add: triple_def)
  qed
  have "kept (ex_bind (run_chunks env fuel cs) (\<lambda>_. ex_bind (drain_below env 1 fuel) (\<lambda>_ st. (st, Inr (summary st)))))"
    by (rule triple_bind [OF chunks triple_bind [OF drain_below_kept]]) (simp add: triple_def)
  then show ?thesis
    by (rule kept_apply [where st = "st\<lparr>in_flight := [], summary := \<lparr>confirmed = 0, failed = 0\<rparr>\<rparr>"])
      (use assms in \<open>simp_all add: run_def J_frame\<close>)
qed

end

text \<open>What a run broadcasts are chunks of the plan its permit approved, with that plan's rows.\<close>

definition approved_chunk :: "planned_chunk list \<Rightarrow> signed_chunk \<Rightarrow> bool" where
  "approved_chunk cs sc \<longleftrightarrow> (\<exists>ch\<in>set cs. chunk_index ch = sc_chunk_index sc \<and> sc_row_numbers sc = row_numbers ch)"

definition sends_approved :: "planned_chunk list \<Rightarrow> 'w executor \<Rightarrow> bool" where
  "sends_approved cs st \<longleftrightarrow> pm_chunks (permit st) = cs
     \<and> (\<forall>sc. Broadcasted sc \<in> set (effects st) \<longrightarrow> approved_chunk cs sc)
     \<and> (\<forall>ev. Journaled ev \<in> set (effects st) \<longrightarrow> executor_kind (kind ev))"

lemma sign_chunk_approved:
  assumes "sign_chunk chain sg now p i tx lv = (p', r)"
  shows "pm_chunks p' = pm_chunks p" and "r = Inr sc \<Longrightarrow> approved_chunk (pm_chunks p) sc"
proof -
  show "pm_chunks p' = pm_chunks p"
    using assms by (auto simp: sign_chunk_def Let_def split: sum.splits prod.splits)
  assume "r = Inr sc"
  then obtain plan amount where "sign_chunk_checks chain now p i tx = Inr (plan, amount)"
      "sc_chunk_index sc = i" "sc_row_numbers sc = row_numbers plan"
    using assms by (auto simp: sign_chunk_def Let_def split: sum.splits prod.splits)
  moreover have "plan \<in> set (pm_chunks p) \<and> chunk_index plan = i"
    using calculation(1) by (auto simp: sign_chunk_checks_def plan_for_def res_simps find_Some_iff split: if_splits)
  ultimately show "approved_chunk (pm_chunks p) sc"
    unfolding approved_chunk_def by blast
qed

interpretation approved: executor_invariant env "sends_approved cs" "approved_chunk cs" for env cs
  by unfold_locales (auto simp: sends_approved_def sign_chunk_approved(1) dest: sign_chunk_approved(2))

text \<open>
  A transport whose broadcasts are final. A run over it has nothing in flight at any wait, so it needs
  no fuel and its result does not depend on what polling would answer.
\<close>

locale settling_transport = chunk_transport b for b :: "'w chunk_broadcaster" +
  assumes settles: "fst (broadcast b w sc) \<noteq> Inr (Pending sig)"
begin

definition polling :: "('w, 'i) executor_env \<Rightarrow> ('w \<Rightarrow> pending_signature list \<Rightarrow> (string + pending_status list) \<times> 'w)
    \<Rightarrow> ('w, 'i) executor_env" where
  "polling env f = env\<lparr>ex_broadcaster := b\<lparr>poll_pending := f\<rparr>\<rparr>"

lemma polling_frame [simp]:
  "prepare (ex_broadcaster (polling env f)) = prepare b" "broadcast (ex_broadcaster (polling env f)) = broadcast b"
  "ex_kit (polling env f) = ex_kit env" "ex_ctx (polling env f) = ex_ctx env" "ex_config (polling env f) = ex_config env"
  "ex_text (polling env f) = ex_text env" "ex_codec (polling env f) = ex_codec env" "ex_chain (polling env f) = ex_chain env"
  "draw_now (polling env f) = draw_now env" "draw_signer (polling env f) = draw_signer env"
  "draw_io (polling env f) = draw_io env"
  by (simp_all add: polling_def)

lemma polling_same:
  "journal_append (polling env f) = journal_append (polling env g)"
  "journal_chunk_signed (polling env f) = journal_chunk_signed (polling env g)"
  "journal_chunk_broadcast (polling env f) = journal_chunk_broadcast (polling env g)"
  "sign_off_runtime_thread (polling env f) = sign_off_runtime_thread (polling env g)"
proof -
  show append: "journal_append (polling env f) = journal_append (polling env g)"
    by (intro ext) (simp add: journal_append_def)
  show "journal_chunk_signed (polling env f) = journal_chunk_signed (polling env g)"
    "journal_chunk_broadcast (polling env f) = journal_chunk_broadcast (polling env g)"
    by (intro ext, simp add: journal_chunk_signed_def journal_chunk_broadcast_def append)+
  show "sign_off_runtime_thread (polling env f) = sign_off_runtime_thread (polling env g)"
    by (intro ext) (simp add: sign_off_runtime_thread_def)
qed

abbreviation idle :: "'w executor \<Rightarrow> bool" where
  "idle st \<equiv> in_flight st = []"

lemma drain_idle: "1 \<le> limit \<Longrightarrow> idle st \<Longrightarrow> drain_below env limit fuel st = (st, Inr ())"
  by (cases fuel) (simp_all add: ret_def)

lemma drain_idle_bind: "1 \<le> limit \<Longrightarrow> idle st \<Longrightarrow> ex_bind (drain_below env limit fuel) rest st = rest () st"
  by (simp add: ex_bind_def drain_idle)

lemma append_idle: "triple idle (journal_append env k) (\<lambda>_. idle) in_fuel"
  by (rule journal_append_triple) simp_all

lemma send_signed_idle:
  "triple idle (send_signed (polling env f) sc credential) (\<lambda>_. idle) in_fuel"
  unfolding triple_def
proof (intro allI impI)
  fix st :: "'w executor"
  assume st: "idle st"
  obtain outcome w where sent: "broadcast b (world st) sc = (outcome, w)"
    by fastforce
  then have "outcome \<noteq> Inr (Pending sig)" for sig
    using settles [of "world st" sc sig] by simp
  then have "triple idle (record_outcome (polling env f) sc credential outcome) (\<lambda>_. idle) in_fuel"
    by (auto simp: record_outcome_def journal_chunk_broadcast_def split: sum.split broadcast_outcome.split
        intro!: triple_bind [OF append_idle] triple_update)
  then show "case send_signed (polling env f) sc credential st of (st', Inr a) \<Rightarrow> idle st' | (st', Inl e) \<Rightarrow> in_fuel e st'"
    using st sent unfolding triple_def send_signed_def by simp
qed

lemma run_chunk_idle:
  assumes "1 \<le> max_in_flight (ex_config env)"
  shows "triple idle (run_chunk (polling env f) fuel chunk) (\<lambda>_. idle) in_fuel"
proof -
  have steps: "triple idle (drain_below (polling env f) (max_in_flight (ex_config env)) fuel) (\<lambda>_. idle) in_fuel"
      "triple idle (\<lambda>st. case prepare b (world st) chunk of
                 (Inl e, w) \<Rightarrow> (st\<lparr>world := w\<rparr>, Inl (TransportError e))
               | (Inr prepared, w) \<Rightarrow> (st\<lparr>world := w\<rparr>, Inr prepared)) (\<lambda>_. idle) in_fuel"
      "triple idle (\<lambda>st. (st, map_err BuildError built)) (\<lambda>_. idle) in_fuel"
      "triple idle (sign_off_runtime_thread (polling env f) i tx lv) (\<lambda>_. idle) in_fuel"
      "triple idle (journal_chunk_signed (polling env f) sc) (\<lambda>_. idle) in_fuel"
    for built :: "planner_error + versioned_transaction" and i tx lv sc
    using assms
    by (auto simp: triple_def map_err_def drain_idle split: prod.split sum.split)
      (auto simp: sign_off_runtime_thread_def journal_chunk_signed_def journal_append_def ex_bind_def ret_def
        split: prod.splits sum.splits)
  show ?thesis
    unfolding run_chunk_def polling_frame
    by (rule triple_bind [OF steps(1)] triple_bind [OF steps(2)] triple_bind [OF steps(3)]
        triple_bind [OF steps(4)] triple_bind [OF steps(5)] send_signed_idle)+
qed

lemma send_signed_polling: "send_signed (polling env f) sc credential = send_signed (polling env g) sc credential"
  by (intro ext) (unfold send_signed_def record_outcome_def polling_same [of env f g] polling_frame, rule refl)

lemma run_chunk_polling:
  assumes "1 \<le> max_in_flight (ex_config env)" and "idle st"
  shows "run_chunk (polling env f) fuel chunk st = run_chunk (polling env g) fuel' chunk st"
  unfolding run_chunk_def polling_frame polling_same [of env f g] send_signed_polling [of env f _ _ g]
  by (simp add: drain_idle_bind [OF assms])

lemma run_chunks_polling:
  assumes "1 \<le> max_in_flight (ex_config env)" and "idle st"
  shows "run_chunks (polling env f) fuel cs st = run_chunks (polling env g) fuel' cs st
    \<and> (case run_chunks (polling env g) fuel' cs st of (st', Inr a) \<Rightarrow> idle st' | (st', Inl e) \<Rightarrow> in_fuel e st')"
  using assms(2)
proof (induction cs arbitrary: st)
  case Nil
  then show ?case
    by (simp add: ret_def)
next
  case (Cons chunk cs)
  obtain st1 r where step: "run_chunk (polling env g) fuel' chunk st = (st1, r)"
    by fastforce
  have "run_chunk (polling env f) fuel chunk st = (st1, r)"
    using run_chunk_polling [OF assms(1) Cons.prems, of f fuel chunk g fuel'] step by simp
  moreover have "case r of Inr a \<Rightarrow> idle st1 | Inl e \<Rightarrow> in_fuel e st1"
    using triple_apply [OF run_chunk_idle [OF assms(1)] Cons.prems step] .
  ultimately show ?case
    using Cons.IH [of st1] step by (cases r) (simp_all add: ex_bind_def)
qed

lemma run_polling:
  assumes "1 \<le> max_in_flight (ex_config env)"
  shows "run (polling env f) fuel cs st = run (polling env g) fuel' cs st"
    and "snd (run (polling env f) fuel cs st) \<noteq> Inl OutOfFuel"
proof -
  let ?st = "st\<lparr>in_flight := [], summary := \<lparr>confirmed = 0, failed = 0\<rparr>\<rparr>"
  obtain st' r where chunks: "run_chunks (polling env g) fuel' cs ?st = (st', r)"
    "run_chunks (polling env f) fuel cs ?st = (st', r)"
    "case r of Inr a \<Rightarrow> idle st' | Inl e \<Rightarrow> in_fuel e st'"
    using run_chunks_polling [OF assms, of ?st f fuel cs g fuel'] by (cases "run_chunks (polling env g) fuel' cs ?st") simp
  have "run (polling env f) fuel cs st = run (polling env g) fuel' cs st
    \<and> snd (run (polling env f) fuel cs st) \<noteq> Inl OutOfFuel"
    using chunks by (cases r) (simp_all add: run_def ex_bind_def drain_idle)
  then show "run (polling env f) fuel cs st = run (polling env g) fuel' cs st"
    and "snd (run (polling env f) fuel cs st) \<noteq> Inl OutOfFuel"
    by blast+
qed

end

section \<open>A concrete run\<close>

text \<open>
  A transport on which a signature stays pending for as many polls as the world counts, then confirms.
\<close>

definition sample_broadcaster :: "nat chunk_broadcaster" where
  "sample_broadcaster = \<lparr>
     prepare = (\<lambda>w chunk. (Inr \<lparr>prep_fee_payer = [8], prep_blockhash = [77], prep_last_valid_block_height = 500\<rparr>, w)),
     broadcast = (\<lambda>w sc. (Inr (Pending (sc_signature sc)), w)),
     poll_pending = (\<lambda>w ps. (Inr (map (\<lambda>_. if w = 0 then PollConfirmed else StillPending) ps), w - 1))\<rparr>"

definition sample_env_over :: "'w chunk_broadcaster \<Rightarrow> nat \<Rightarrow> ('w, unit) executor_env" where
  "sample_env_over transport window = \<lparr>
     ex_kit = \<lparr>MAX_SPLITS = 8, SOLANA_MAX_COMPUTE_UNIT_LIMIT = 1400000, TOKEN_2022_PROGRAM = [104],
       validate_compute_budget = (\<lambda>_ _. Inr ()), unit_price_instruction = (\<lambda>_. ()), unit_limit_instruction = (\<lambda>_. ()),
       build_spl_transfer_batch_instructions = (\<lambda>_ _ _ _ _ _. Inr []),
       build_unsigned_unchecked = (\<lambda>_ _ _. Inr sample_tx), build_unsigned = (\<lambda>_ _ _. Inr sample_tx),
       static_account_keys = (\<lambda>_. []), check_transaction_size = (\<lambda>_. Inr 100)\<rparr>,
     ex_chain = sample_env, ex_codec = \<lparr>to_json = (\<lambda>_. Some ''e''), from_json = (\<lambda>_. None)\<rparr>,
     ex_text = (\<lambda>_. ''text''),
     ex_ctx = \<lparr>ctx_sender = [9], ctx_mint = replicate 32 8, ctx_token_program = replicate 32 9, ctx_decimals = 6\<rparr>,
     ex_config = \<lparr>max_in_flight = window, poll_interval_millis = 800\<rparr>,
     ex_broadcaster = transport,
     draw_now = (\<lambda>w. (1001, w)), draw_signer = (\<lambda>w. (sample_signer, w)), draw_io = (\<lambda>w. (WriteDone, w))\<rparr>"

abbreviation sample_executor_env :: "nat \<Rightarrow> (nat, unit) executor_env" where
  "sample_executor_env \<equiv> sample_env_over sample_broadcaster"

definition sample_executor_at :: "'w \<Rightarrow> 'w executor" where
  "sample_executor_at w = \<lparr>permit = sample_permit, journal_state = (Map.empty, \<lparr>journal_path = ''run'', next_sequence = 1\<rparr>),
     world = w, in_flight = [], summary = \<lparr>confirmed = 0, failed = 0\<rparr>, effects = []\<rparr>"

abbreviation sample_executor :: "nat executor" where
  "sample_executor \<equiv> sample_executor_at 1"

lemma sample_executor_fresh: "effects (sample_executor_at w) = []"
  by (simp add: sample_executor_at_def)

lemma sample_run_signs:
  "sign_chunk sample_env sample_signer 1001 sample_permit 4 sample_tx 500 =
     (sample_permit\<lparr>signed_amount_raw := 7, signed_tx_count := 1, signed_chunks :=
        [4 \<mapsto> \<lparr>rec_blockhash = [77], rec_last_valid_block_height = 500, attempts = 1\<rparr>]\<rparr>, Inr sample_signed)"
  using sample_sign by (simp add: run_ops_def permit_step_def split: prod.splits sum.splits)

lemma sample_progress: "polls_progress (sample_executor_env window) id"
  by (auto simp: polls_progress_def sample_env_over_def sample_broadcaster_def subset_singleton_iff
      split: if_splits)

definition sample_signed_event :: journal_event where
  "sample_signed_event = \<lparr>sequence = 1, timestamp = 1001, kind = ChunkSigned 4 [4] ''text'' ''tx'' ''text'' 500\<rparr>"

lemma sample_env_fields:
  "ex_broadcaster (sample_env_over t n) = t" "ex_chain (sample_env_over t n) = sample_env"
  "ex_config (sample_env_over t n) = \<lparr>max_in_flight = n, poll_interval_millis = 800\<rparr>"
  "ex_text (sample_env_over t n) = (\<lambda>_. ''text'')" "to_json (ex_codec (sample_env_over t n)) e = Some ''e''"
  "draw_now (sample_env_over t n) w = (1001, w)" "draw_signer (sample_env_over t n) w = (sample_signer, w)"
  "draw_io (sample_env_over t n) w = (WriteDone, w)"
  by (simp_all add: sample_env_over_def)

lemma sample_builds:
  "length (entries c) = 1 \<Longrightarrow>
   build_chunk_transaction (ex_kit (sample_env_over t n)) c m tp d sender payer bh = Inr sample_tx"
  by (simp add: build_chunk_transaction_def sample_env_over_def checked_sub_def Let_def)

lemmas sample_steps = sample_env_fields sample_builds sample_run_signs sample_broadcaster_def ret_def ex_bind_def
  sign_off_runtime_thread_def journal_chunk_signed_def journal_append_def append_event_def send_signed_def
  record_outcome_def journal_chunk_broadcast_def drain_in_flight_def add_confirmed_def Let_def

lemma sample_run:
  "\<exists>st'. run (sample_executor_env 1) 2 [chunks sample_plan ! 1] sample_executor
       = (st', Inr \<lparr>confirmed = 1, failed = 0\<rparr>)
     \<and> effects st' = [Journaled sample_signed_event, Broadcasted sample_signed,
        Journaled \<lparr>sequence = 2, timestamp = 1001, kind = ChunkBroadcast 4 ''text''\<rparr>,
        Journaled \<lparr>sequence = 3, timestamp = 1001, kind = ChunkConfirmed 4 ''text''\<rparr>]"
proof -
  define c where "c = chunks sample_plan ! 1"
  have c: "chunk_index c = 4" "length (entries c) = 1"
    by (simp_all add: c_def sample_plan_def)
  obtain st1 where st1: "run_chunk (sample_executor_env 1) 2 c sample_executor = (st1, Inr ())"
    "effects st1 = [Journaled sample_signed_event, Broadcasted sample_signed,
        Journaled \<lparr>sequence = 2, timestamp = 1001, kind = ChunkBroadcast 4 ''text''\<rparr>]"
    "length (in_flight st1) = 1" "fl_chunk_index (hd (in_flight st1)) = 4" "world st1 = 1"
    "summary st1 = \<lparr>confirmed = 0, failed = 0\<rparr>" "next_sequence (snd (journal_state st1)) = 3"
    by (simp add: run_chunk_def c sample_steps sample_executor_at_def numeral_2_eq_2 sample_signed_event_def)
      (simp add: sample_signed_def wrapping_def)
  then obtain fl where fl: "in_flight st1 = [fl]" "fl_chunk_index fl = 4"
    by (cases "in_flight st1") auto
  have "run (sample_executor_env 1) 2 [c] sample_executor
    = ex_bind (drain_below (sample_executor_env 1) 1 2) (\<lambda>_ st. (st, Inr (summary st))) st1"
    using st1(1) by (simp add: run_def ex_bind_def ret_def sample_executor_at_def)
  moreover have "\<exists>st'. ex_bind (drain_below (sample_executor_env 1) 1 2) (\<lambda>_ st. (st, Inr (summary st))) st1
       = (st', Inr \<lparr>confirmed = 1, failed = 0\<rparr>)
     \<and> effects st' = effects st1 @ [Journaled \<lparr>sequence = 3, timestamp = 1001, kind = ChunkConfirmed 4 ''text''\<rparr>]"
    using st1(5-7) by (simp add: sample_steps numeral_2_eq_2 fl case_prod_beta)
  ultimately show ?thesis
    using st1(2) by (auto simp: c_def)
qed

section \<open>Properties\<close>

text \<open>
  C3: nothing is broadcast before its record is durable. In every run, also one that stops with an
  error, each broadcast of a signed chunk comes after the successful journaling of a \<open>ChunkSigned\<close>
  record with that chunk's index, rows, signature, encoded transaction, blockhash and expiry height.
\<close>
theorem broadcast_only_after_signed_record:
  assumes "effects st = []" and "run env fuel cs st = (st', result)"
    and "i < length (effects st')" and "effects st' ! i = Broadcasted sc"
  shows "\<exists>j<i. \<exists>ev. effects st' ! j = Journaled ev
    \<and> kind ev = ChunkSigned (sc_chunk_index sc) (sc_row_numbers sc) (ex_text env (sc_signature sc))
        (signed_transaction_base64 sc) (ex_text env (sc_blockhash sc)) (sc_last_valid_block_height sc)"
proof -
  have "write_ahead env (effects st')"
    using run_outcome [OF assms(1,2)] by (simp add: sound_effects_def)
  then show ?thesis
    using assms(3,4) unfolding write_ahead_def signed_kind_def by blast
qed

theorem broadcast_only_after_signed_record_witness:
  "\<exists>st'. run (sample_executor_env 1) 2 [chunks sample_plan ! 1] sample_executor
       = (st', Inr \<lparr>confirmed = 1, failed = 0\<rparr>)
     \<and> effects st' ! 1 = Broadcasted sample_signed
     \<and> (\<exists>j<1. \<exists>ev. effects st' ! j = Journaled ev \<and> kind ev = ChunkSigned 4 [4] ''text'' ''tx'' ''text'' 500)"
proof -
  obtain st' where st': "run (sample_executor_env 1) 2 [chunks sample_plan ! 1] sample_executor
       = (st', Inr \<lparr>confirmed = 1, failed = 0\<rparr>)" "1 < length (effects st')" "effects st' ! 1 = Broadcasted sample_signed"
    using sample_run by force
  have "\<exists>j<1. \<exists>ev. effects st' ! j = Journaled ev \<and> kind ev = ChunkSigned 4 [4] ''text'' ''tx'' ''text'' 500"
    using broadcast_only_after_signed_record [OF sample_executor_fresh st']
    by (simp add: sample_signed_def sample_env_over_def)
  then show ?thesis
    using st' by blast
qed

text \<open>
  backpressure. At every moment of a run, so for every prefix of what it did, at most
  \<open>max_in_flight\<close> of the chunks broadcast so far have no final (confirmed or failed) record; and the
  chunks broadcast are a prefix of the planned ones, in order, so none is sent twice in a run.
\<close>
theorem run_keeps_window:
  assumes "effects st = []"
  shows "count_of is_broadcast (take n (effects (fst (run env fuel cs st))))
      \<le> count_of is_confirmed_record (take n (effects (fst (run env fuel cs st))))
        + count_of is_failed_record (take n (effects (fst (run env fuel cs st))))
        + max_in_flight (ex_config env)
    \<and> prefix (broadcast_indices (effects (fst (run env fuel cs st)))) (map chunk_index cs)"
proof -
  obtain st' result where run: "run env fuel cs st = (st', result)"
    by fastforce
  have s: "sound_effects env (map chunk_index cs) st'"
    using run_outcome [OF assms run] by simp
  then obtain k where "broadcast_indices (effects st') = take k (map chunk_index cs)"
    unfolding sound_effects_def by blast
  moreover have "windowed (max_in_flight (ex_config env)) (effects st')"
    using s by (simp add: sound_effects_def)
  then have "count_of is_broadcast (take (min n (length (effects st'))) (effects st'))
      \<le> count_of is_confirmed_record (take (min n (length (effects st'))) (effects st'))
        + count_of is_failed_record (take (min n (length (effects st'))) (effects st'))
        + max_in_flight (ex_config env)"
    unfolding windowed_def by simp
  moreover have "take (min n (length (effects st'))) (effects st') = take n (effects st')"
    by (simp add: min_def)
  ultimately show ?thesis
    by (simp add: run take_is_prefix)
qed

theorem run_keeps_window_witness:
  "prefix (broadcast_indices (effects (fst (run (sample_executor_env 1) 2 [chunks sample_plan ! 1] sample_executor))))
     [4]"
  using run_keeps_window [OF sample_executor_fresh, of 0 "sample_executor_env 1" 2 "[chunks sample_plan ! 1]"]
  by (simp add: sample_plan_def)

text \<open>
  C29: the tally of a run that returns. Every planned chunk was broadcast exactly once and in order;
  the final records, confirmed or failed, name exactly the planned chunks, one record each; at no
  moment of the run had a chunk more final records than broadcasts, so none was settled before it was
  sent; nothing is left in flight, and the two counts of the summary are the numbers of journaled
  confirmations and failures.
\<close>
theorem run_tally_exact:
  assumes "effects st = []" and "run env fuel cs st = (st', Inr result)"
  shows "broadcast_indices (effects st') = map chunk_index cs
    \<and> confirmed result = count_of is_confirmed_record (effects st')
    \<and> failed result = count_of is_failed_record (effects st')
    \<and> confirmed result + failed result = length cs
    \<and> mset (final_indices (effects st')) = mset (map chunk_index cs)
    \<and> (\<forall>n. mset (final_indices (take n (effects st'))) \<subseteq># mset (broadcast_indices (take n (effects st'))))
    \<and> in_flight st' = []"
proof -
  have out: "running env (map chunk_index cs) (length cs) st'" "in_flight st' = []" "result = summary st'"
    using run_outcome(2) [OF assms refl] by auto
  then have "settled_after_send (effects st')"
    by (simp add: running_def tallied_at_def)
  then have "mset (final_indices (take n (effects st'))) \<subseteq># mset (broadcast_indices (take n (effects st')))" for n
    unfolding settled_after_send_def by (metis nle_le take_all_iff order_refl)
  then show ?thesis
    using out by (simp add: running_def tallied_at_def)
qed

theorem run_tally_exact_witness:
  "\<exists>st'. run (sample_executor_env 1) 2 [chunks sample_plan ! 1] sample_executor
       = (st', Inr \<lparr>confirmed = 1, failed = 0\<rparr>)
     \<and> broadcast_indices (effects st') = [4] \<and> final_indices (effects st') = [4]
     \<and> count_of is_confirmed_record (effects st') = 1"
proof -
  obtain st' where st': "run (sample_executor_env 1) 2 [chunks sample_plan ! 1] sample_executor
       = (st', Inr \<lparr>confirmed = 1, failed = 0\<rparr>)"
    using sample_run by blast
  have "mset (final_indices (effects st')) = mset [4]" "broadcast_indices (effects st') = [4]"
    "count_of is_confirmed_record (effects st') = 1"
    using run_tally_exact [OF sample_executor_fresh st'] by (simp_all add: sample_plan_def)
  then show ?thesis
    using st' by (intro exI [of _ st']) simp
qed

text \<open>
  C30: a run ends. If no step raises a rank of the world and every poll that leaves all its signatures
  pending lowers it, a run with a window of at least one never runs out of the fuel
  \<open>rank + max_in_flight\<close>: each of its waiting loops polls at most that often, and it returns with a
  summary or an error.
\<close>
theorem run_ends:
  assumes "polls_progress env rank" and "1 \<le> max_in_flight (ex_config env)"
    and "rank (world st) + max_in_flight (ex_config env) \<le> fuel"
  shows "snd (run env fuel cs st) \<noteq> Inl OutOfFuel"
proof -
  obtain st' result where run: "run env fuel cs st = (st', result)"
    by fastforce
  show ?thesis
    using triple_apply [OF run_ranked [OF assms, of cs] order_refl run] by (auto simp: run split: sum.splits)
qed

theorem run_ends_witness:
  "snd (run (sample_executor_env 1) 2 [chunks sample_plan ! 1] sample_executor) \<noteq> Inl OutOfFuel"
  by (rule run_ends [OF sample_progress]) (simp_all add: sample_env_over_def sample_executor_at_def)

text \<open>
  a window of zero is a run that never returns. With \<open>max_in_flight = 0\<close> and at least one chunk,
  no amount of polling ends the first wait: nothing is in flight to wait for, and the loop goes on
  without signing, journaling or broadcasting anything.
\<close>
theorem zero_window_never_returns:
  assumes "max_in_flight (ex_config env) = 0" and "cs \<noteq> []"
  shows "snd (run env fuel cs st) = Inl OutOfFuel \<and> effects (fst (run env fuel cs st)) = effects st
    \<and> permit (fst (run env fuel cs st)) = permit st \<and> world (fst (run env fuel cs st)) = world st"
proof -
  obtain c rest where "cs = c # rest"
    using assms(2) by (cases cs) simp_all
  then show ?thesis
    using assms(1) by (simp add: run_def run_chunk_def ex_bind_def drain_empty_window)
qed

theorem zero_window_never_returns_witness:
  "snd (run (sample_executor_env 0) 5 [chunks sample_plan ! 1] sample_executor) = Inl OutOfFuel"
  using zero_window_never_returns [of "sample_executor_env 0" "[chunks sample_plan ! 1]" 5 sample_executor]
  by (simp add: sample_env_over_def)

end
