(* ===== verification/Push_Transport.thy ===== *)
theory Push_Transport
  imports Push_Executor
begin

text \<open>
  The two production transports of \<open>pay push\<close> (\<^verbatim>\<open>src/rust/crates/core/src/client/push/executor.rs\<close>):
  \<open>DirectSolanaBroadcaster\<close> speaks JSON-RPC to a node, \<open>GaslessApiBroadcaster\<close> the two-step quote and
  submit flow of pay-api. HTTP, the clock and the text forms of keys are the argument \<open>http\<close>; the state
  a transport keeps (blockhash cache, prepared requests) is threaded beside the world.

  The lemmas give the exact statuses a poll returns, show that a gasless submission repeats the quoted
  request, and instantiate the executor on both transports: the contract of \<open>poll_pending\<close> holds, and a
  gasless run never polls.
\<close>

section \<open>HTTP and JSON\<close>

text \<open>
  A POST of a JSON body, with an optional \<open>Authorization\<close> header: a transport error, or a status code
  and a body that parsed or did not.
\<close>

record 'w http_client =
  post :: "'w \<Rightarrow> string \<Rightarrow> string option \<Rightarrow> json \<Rightarrow> (string + nat \<times> (string + json)) \<times> 'w"
  instant_now :: "'w \<Rightarrow> nat \<times> 'w"
  hash_from_str :: "string \<Rightarrow> bytes option"
  pubkey_from_str :: "string \<Rightarrow> pubkey option"
  signature_from_str :: "string \<Rightarrow> bytes option"
  base58_text :: "bytes \<Rightarrow> string"
  json_text :: "json \<Rightarrow> string"
  status_code_text :: "nat \<Rightarrow> string"

definition config_text :: "string \<Rightarrow> string" where
  "config_text detail = ''Configuration error: '' @ detail"

definition rpc_request :: "string \<Rightarrow> json list \<Rightarrow> json" where
  "rpc_request method params = JObject [(''jsonrpc'', JString ''2.0''), (''id'', JNumber 1),
     (''method'', JString method), (''params'', JArray params)]"

section \<open>The direct transport\<close>

record direct_config =
  rpc_url :: string
  direct_fee_payer :: pubkey

text \<open>The cached context and when it was fetched, in milliseconds.\<close>

type_synonym blockhash_cache = "(prepared_chunk_context \<times> nat) option"

definition rpc_result :: "'w http_client \<Rightarrow> string + nat \<times> (string + json) \<Rightarrow> string + json" where
  "rpc_result http response =
     (case response of
        Inl e \<Rightarrow> Inl (config_text (''RPC transport error: '' @ e))
      | Inr (_, Inl e) \<Rightarrow> Inl (config_text (''RPC response was not valid JSON: '' @ e))
      | Inr (_, Inr parsed) \<Rightarrow>
          case json_get parsed ''error'' of
            Some error \<Rightarrow> Inl (config_text (''RPC returned an error: '' @ json_text http error))
          | None \<Rightarrow> ok_or (config_text ''RPC response is missing `result`'') (json_get parsed ''result''))"

definition rpc_call :: "'w http_client \<Rightarrow> direct_config \<Rightarrow> 'w \<Rightarrow> json \<Rightarrow> (string + json) \<times> 'w" where
  "rpc_call http dc w body =
     (case post http w (rpc_url dc) None body of (response, w') \<Rightarrow> (rpc_result http response, w'))"

definition fetch_block_height :: "'w http_client \<Rightarrow> direct_config \<Rightarrow> 'w \<Rightarrow> (string + nat) \<times> 'w" where
  "fetch_block_height http dc w =
     (case rpc_call http dc w
             (rpc_request ''getBlockHeight'' [JObject [(''commitment'', JString ''confirmed'')]]) of
        (r, w') \<Rightarrow>
          (and_then r (\<lambda>v. ok_or (config_text ''malformed getBlockHeight response'') (json_as_u64 v)), w'))"

definition classify_missing_signature :: "nat \<Rightarrow> nat \<Rightarrow> pending_status" where
  "classify_missing_signature current_block_height last_valid =
     (if last_valid < current_block_height
      then PollFailed (''signature not found and its blockhash expired (current height '' @
             show_nat current_block_height @ '' > last valid height '' @ show_nat last_valid @ '')'')
      else StillPending)"

definition BLOCKHASH_CACHE_MILLIS :: nat where
  "BLOCKHASH_CACHE_MILLIS = 5000"

definition parse_latest_blockhash ::
  "'w http_client \<Rightarrow> direct_config \<Rightarrow> json \<Rightarrow> string + prepared_chunk_context" where
  "parse_latest_blockhash http dc v =
     and_then (ok_or (config_text ''malformed getLatestBlockhash response'')
       (Option.bind (json_get v ''value'') (\<lambda>inner. json_str_at inner ''blockhash''))) (\<lambda>blockhash_str.
     and_then (ok_or (config_text ''malformed getLatestBlockhash response'')
       (Option.bind (json_get v ''value'') (\<lambda>inner. json_u64_at inner ''lastValidBlockHeight''))) (\<lambda>last_valid.
     and_then (ok_or (config_text ''getLatestBlockhash returned a malformed blockhash'')
       (hash_from_str http blockhash_str)) (\<lambda>blockhash.
     Inr \<lparr>prep_fee_payer = direct_fee_payer dc, prep_blockhash = blockhash,
          prep_last_valid_block_height = last_valid\<rparr>)))"

definition fetch_latest_blockhash ::
  "'w http_client \<Rightarrow> direct_config \<Rightarrow> 'w \<times> blockhash_cache
     \<Rightarrow> (string + prepared_chunk_context) \<times> ('w \<times> blockhash_cache)" where
  "fetch_latest_blockhash http dc wc =
     (case wc of (w, cache) \<Rightarrow>
      case rpc_call http dc w
             (rpc_request ''getLatestBlockhash'' [JObject [(''commitment'', JString ''confirmed'')]]) of
        (r, w1) \<Rightarrow>
          case and_then r (parse_latest_blockhash http dc) of
            Inl e \<Rightarrow> (Inl e, (w1, cache))
          | Inr prepared \<Rightarrow>
              case instant_now http w1 of (now, w2) \<Rightarrow> (Inr prepared, (w2, Some (prepared, now))))"

definition direct_prepare ::
  "'w http_client \<Rightarrow> direct_config \<Rightarrow> 'w \<times> blockhash_cache \<Rightarrow> planned_chunk
     \<Rightarrow> (string + prepared_chunk_context) \<times> ('w \<times> blockhash_cache)" where
  "direct_prepare http dc wc chunk =
     (case wc of (w, cache) \<Rightarrow>
      case cache of
        Some (prepared, fetched_at) \<Rightarrow>
          (case instant_now http w of (now, w1) \<Rightarrow>
             if now - fetched_at < BLOCKHASH_CACHE_MILLIS then (Inr prepared, (w1, cache))
             else fetch_latest_blockhash http dc (w1, cache))
      | None \<Rightarrow> fetch_latest_blockhash http dc (w, cache))"

definition send_transaction_request :: "signed_chunk \<Rightarrow> json" where
  "send_transaction_request sc = rpc_request ''sendTransaction''
     [JString (signed_transaction_base64 sc),
      JObject [(''encoding'', JString ''base64''), (''skipPreflight'', JBool False),
        (''preflightCommitment'', JString ''confirmed''), (''maxRetries'', JNumber 0)]]"

definition direct_broadcast ::
  "'w http_client \<Rightarrow> direct_config \<Rightarrow> 'w \<times> blockhash_cache \<Rightarrow> signed_chunk
     \<Rightarrow> (string + broadcast_outcome) \<times> ('w \<times> blockhash_cache)" where
  "direct_broadcast http dc wc sc =
     (case wc of (w, cache) \<Rightarrow>
      case rpc_call http dc w (send_transaction_request sc) of
        (r, w') \<Rightarrow>
          (and_then r (\<lambda>v.
           and_then (ok_or (config_text ''malformed sendTransaction response'') (json_as_str v)) (\<lambda>signature_str.
           and_then (ok_or (config_text ''sendTransaction returned a malformed signature'')
             (signature_from_str http signature_str)) (\<lambda>signature. Inr (Pending signature)))), (w', cache)))"

text \<open>One entry that is not null: it failed on chain, or its commitment decides.\<close>

definition classify_entry :: "'w http_client \<Rightarrow> json \<Rightarrow> pending_status" where
  "classify_entry http entry =
     (case json_get entry ''err'' of
        Some err \<Rightarrow>
          if err \<noteq> JNull then PollFailed (''transaction failed on-chain: '' @ json_text http err)
          else if json_str_at entry ''confirmationStatus'' \<in> {Some ''confirmed'', Some ''finalized''}
          then PollConfirmed else StillPending
      | None \<Rightarrow>
          if json_str_at entry ''confirmationStatus'' \<in> {Some ''confirmed'', Some ''finalized''}
          then PollConfirmed else StillPending)"

text \<open>The loop over the entries: the height is fetched at the first null entry and kept.\<close>

fun poll_entries ::
  "'w http_client \<Rightarrow> direct_config \<Rightarrow> nat option \<Rightarrow> pending_status list
     \<Rightarrow> (json \<times> pending_signature) list \<Rightarrow> 'w \<Rightarrow> (string + pending_status list) \<times> 'w" where
  "poll_entries http dc height acc [] w = (Inr acc, w)"
| "poll_entries http dc height acc ((entry, pending) # rest) w =
     (if entry = JNull then
        (case height of
           Some h \<Rightarrow>
             poll_entries http dc height
               (acc @ [classify_missing_signature h (pend_last_valid_block_height pending)]) rest w
         | None \<Rightarrow>
             (case fetch_block_height http dc w of
                (Inl e, w') \<Rightarrow> (Inl e, w')
              | (Inr h, w') \<Rightarrow>
                  poll_entries http dc (Some h)
                    (acc @ [classify_missing_signature h (pend_last_valid_block_height pending)]) rest w'))
      else poll_entries http dc height (acc @ [classify_entry http entry]) rest w)"

definition signature_statuses_request :: "'w http_client \<Rightarrow> pending_signature list \<Rightarrow> json" where
  "signature_statuses_request http pending = rpc_request ''getSignatureStatuses''
     [JArray (map (\<lambda>p. JString (base58_text http (pend_signature p))) pending),
      JObject [(''searchTransactionHistory'', JBool True)]]"

definition parse_statuses :: "pending_signature list \<Rightarrow> json \<Rightarrow> string + json list" where
  "parse_statuses pending v =
     and_then (ok_or (config_text ''malformed getSignatureStatuses response'')
       (Option.bind (json_get v ''value'') json_as_array)) (\<lambda>found.
     if length found \<noteq> length pending then
       Inl (config_text
         ''getSignatureStatuses returned a different number of entries than signatures queried'')
     else Inr found)"

definition direct_poll ::
  "'w http_client \<Rightarrow> direct_config \<Rightarrow> 'w \<Rightarrow> pending_signature list
     \<Rightarrow> (string + pending_status list) \<times> 'w" where
  "direct_poll http dc w pending =
     (if pending = [] then (Inr [], w)
      else
        case rpc_call http dc w (signature_statuses_request http pending) of
          (r, w1) \<Rightarrow>
            case and_then r (parse_statuses pending) of
              Inl e \<Rightarrow> (Inl e, w1)
            | Inr found \<Rightarrow> poll_entries http dc None [] (zip found pending) w1)"

definition direct_broadcaster ::
  "'w http_client \<Rightarrow> direct_config \<Rightarrow> ('w \<times> blockhash_cache) chunk_broadcaster" where
  "direct_broadcaster http dc =
     \<lparr>prepare = direct_prepare http dc, broadcast = direct_broadcast http dc,
      poll_pending = (\<lambda>(w, cache) pending. case direct_poll http dc w pending of (r, w') \<Rightarrow> (r, (w', cache)))\<rparr>"

section \<open>The gasless transport\<close>

record gasless_config =
  endpoint :: string
  batch_id :: string
  gasless_sender :: pubkey
  currency :: string
  network :: string
  gasless_decimals :: nat

type_synonym prepared_requests = "nat \<rightharpoonup> json"

text \<open>
  The request of a chunk; \<open>None\<close> stands for the panic of \<open>format_token_amount\<close> on absurd decimals.
\<close>

definition transfer_json :: "'w http_client \<Rightarrow> gasless_config \<Rightarrow> planned_transfer_entry \<Rightarrow> json option" where
  "transfer_json http gc entry =
     map_option (\<lambda>amount. JObject [(''rowId'', JNumber (int (entry_row_number entry))),
         (''recipient'', JString (base58_text http (entry_recipient entry))), (''amount'', JString amount)])
       (format_token_amount (entry_amount_raw entry) (gasless_decimals gc))"

definition request_body :: "'w http_client \<Rightarrow> gasless_config \<Rightarrow> planned_chunk \<Rightarrow> json option" where
  "request_body http gc chunk =
     map_option (\<lambda>transfers. JObject [(''batchId'', JString (batch_id gc)),
         (''chunkIndex'', JNumber (int (chunk_index chunk))),
         (''sender'', JString (base58_text http (gasless_sender gc))),
         (''currency'', JString (currency gc)), (''network'', JString (network gc)),
         (''transfers'', JArray transfers)])
       (those (map (transfer_json http gc) (entries chunk)))"

definition quote_fields :: "json \<Rightarrow> string + string \<times> string \<times> nat" where
  "quote_fields body =
     and_then (ok_or (config_text ''pay-api quote is missing feePayer'') (json_str_at body ''feePayer'')) (\<lambda>payer.
     and_then (ok_or (config_text ''pay-api quote is missing recentBlockhash'')
       (json_str_at body ''recentBlockhash'')) (\<lambda>blockhash.
     and_then (ok_or (config_text ''pay-api quote is missing challengeLastValidBlockHeight'')
       (json_u64_at body ''challengeLastValidBlockHeight'')) (\<lambda>last_valid.
     Inr (payer, blockhash, last_valid))))"

definition quote_body :: "'w http_client \<Rightarrow> string + nat \<times> (string + json) \<Rightarrow> string + json" where
  "quote_body http response =
     (case response of
        Inl e \<Rightarrow> Inl (config_text (''pay-api transport error: '' @ e))
      | Inr (status, body) \<Rightarrow>
          if status \<noteq> 402 then
            Inl (config_text (''pay-api quote returned unexpected status '' @ status_code_text http status))
          else map_err (\<lambda>e. config_text (''pay-api quote response was not valid JSON: '' @ e)) body)"

definition gasless_prepare ::
  "'w http_client \<Rightarrow> gasless_config \<Rightarrow> 'w \<times> prepared_requests \<Rightarrow> planned_chunk
     \<Rightarrow> (string + prepared_chunk_context) \<times> ('w \<times> prepared_requests)" where
  "gasless_prepare http gc wr chunk =
     (case wr of (w, requests) \<Rightarrow>
      case request_body http gc chunk of
        None \<Rightarrow> (Inl ''panic'', wr)
      | Some request \<Rightarrow>
          case post http w (endpoint gc) None request of (response, w1) \<Rightarrow>
            case and_then (quote_body http response) quote_fields of
              Inl e \<Rightarrow> (Inl e, (w1, requests))
            | Inr (payer, blockhash, last_valid) \<Rightarrow>
                (and_then (ok_or (config_text ''pay-api quote returned a malformed feePayer'')
                   (pubkey_from_str http payer)) (\<lambda>fee_payer.
                 and_then (ok_or (config_text ''pay-api quote returned a malformed recentBlockhash'')
                   (hash_from_str http blockhash)) (\<lambda>hash.
                 Inr \<lparr>prep_fee_payer = fee_payer, prep_blockhash = hash,
                      prep_last_valid_block_height = last_valid\<rparr>)),
                 (w1, requests(chunk_index chunk \<mapsto> request))))"

definition submit_signature :: "'w http_client \<Rightarrow> string + nat \<times> (string + json) \<Rightarrow> string + bytes" where
  "submit_signature http response =
     (case response of
        Inl e \<Rightarrow> Inl (config_text (''pay-api transport error: '' @ e))
      | Inr (status, body) \<Rightarrow>
          if \<not> (200 \<le> status \<and> status < 300) then
            Inl (config_text (''pay-api submit returned unexpected status '' @ status_code_text http status))
          else
            and_then (map_err (\<lambda>e. config_text (''pay-api submit response was not valid JSON: '' @ e)) body) (\<lambda>v.
            and_then (ok_or (config_text ''pay-api submit response is missing signature'')
              (json_str_at v ''signature'')) (\<lambda>signature_str.
            ok_or (config_text ''pay-api submit returned a malformed signature'')
              (signature_from_str http signature_str))))"

definition gasless_broadcast ::
  "'w http_client \<Rightarrow> gasless_config \<Rightarrow> 'w \<times> prepared_requests \<Rightarrow> signed_chunk
     \<Rightarrow> (string + broadcast_outcome) \<times> ('w \<times> prepared_requests)" where
  "gasless_broadcast http gc wr sc =
     (case wr of (w, requests) \<Rightarrow>
      case requests (sc_chunk_index sc) of
        None \<Rightarrow> (Inl (config_text (''missing prepared gasless request for chunk '' @ show_nat (sc_chunk_index sc))), wr)
      | Some request \<Rightarrow>
          case post http w (endpoint gc) (Some (''Bearer '' @ signed_transaction_base64 sc)) request of
            (response, w1) \<Rightarrow>
              case submit_signature http response of
                Inl e \<Rightarrow> (Inl e, (w1, requests))
              | Inr signature \<Rightarrow> (Inr (Settled signature), (w1, requests(sc_chunk_index sc := None))))"

definition gasless_poll ::
  "'w \<Rightarrow> pending_signature list \<Rightarrow> (string + pending_status list) \<times> 'w" where
  "gasless_poll w pending = (Inl (config_text
     ''GaslessApiBroadcaster::poll_pending should never be called: broadcast() never returns Pending''), w)"

definition gasless_broadcaster ::
  "'w http_client \<Rightarrow> gasless_config \<Rightarrow> ('w \<times> prepared_requests) chunk_broadcaster" where
  "gasless_broadcaster http gc =
     \<lparr>prepare = gasless_prepare http gc, broadcast = gasless_broadcast http gc, poll_pending = gasless_poll\<rparr>"

section \<open>Polling\<close>

text \<open>
  What a poll should answer, without the lazy height: the height is read once, and only if some entry
  is null.
\<close>

definition status_of :: "'w http_client \<Rightarrow> nat \<Rightarrow> json \<Rightarrow> pending_signature \<Rightarrow> pending_status" where
  "status_of http h entry p =
     (if entry = JNull then classify_missing_signature h (pend_last_valid_block_height p)
      else classify_entry http entry)"

definition poll_reference ::
  "'w http_client \<Rightarrow> direct_config \<Rightarrow> pending_signature list \<Rightarrow> json list \<Rightarrow> 'w
     \<Rightarrow> (string + pending_status list) \<times> 'w" where
  "poll_reference http dc pending found w =
     (if JNull \<in> set found then
        (case fetch_block_height http dc w of
           (Inl e, w') \<Rightarrow> (Inl e, w')
         | (Inr h, w') \<Rightarrow> (Inr (map2 (status_of http h) found pending), w'))
      else (Inr (map2 (status_of http 0) found pending), w))"

lemma poll_entries_known:
  "poll_entries http dc (Some h) acc items w = (Inr (acc @ map (\<lambda>(entry, p). status_of http h entry p) items), w)"
  by (induction items arbitrary: acc) (auto simp: status_of_def)

lemma poll_entries_lazy:
  "poll_entries http dc None acc items w =
     (if JNull \<in> fst ` set items then
        (case fetch_block_height http dc w of
           (Inl e, w') \<Rightarrow> (Inl e, w')
         | (Inr h, w') \<Rightarrow> (Inr (acc @ map (\<lambda>(entry, p). status_of http h entry p) items), w'))
      else (Inr (acc @ map (\<lambda>(entry, p). status_of http 0 entry p) items), w))"
proof (induction items arbitrary: acc)
  case Nil
  then show ?case
    by simp
next
  case (Cons item items)
  obtain entry p where item: "item = (entry, p)"
    by (cases item)
  show ?case
  proof (cases "entry = JNull")
    case True
    then show ?thesis
      by (simp add: item poll_entries_known status_of_def split: prod.split sum.split)
  next
    case False
    then have "status_of http h entry p = classify_entry http entry" for h
      by (simp add: status_of_def)
    then show ?thesis
      using Cons.IH [of "acc @ [classify_entry http entry]"] False
      by (simp add: item split: prod.split sum.split)
  qed
qed

lemma poll_entries_reference:
  assumes "length found = length pending"
  shows "poll_entries http dc None [] (zip found pending) w = poll_reference http dc pending found w"
proof -
  have "fst ` set (zip found pending) = set found"
    using assms by (metis map_fst_zip set_map)
  then show ?thesis
    by (simp add: poll_entries_lazy poll_reference_def split: prod.split sum.split)
qed

lemma parse_statuses_length: "and_then r (parse_statuses pending) = Inr found \<Longrightarrow> length found = length pending"
  by (auto simp: parse_statuses_def and_then_eq_Inr if_Inl_eq_Inr)

lemma poll_reference_length:
  "length found = length pending \<Longrightarrow> poll_reference http dc pending found w = (Inr ss, w') \<Longrightarrow> length ss = length pending"
  by (auto simp: poll_reference_def split: if_splits prod.splits sum.splits)

lemma direct_poll_length: "direct_poll http dc w pending = (Inr ss, w') \<Longrightarrow> length ss = length pending"
  by (auto simp: direct_poll_def poll_entries_reference parse_statuses_length
      split: if_splits prod.splits sum.splits dest: poll_reference_length [rotated])

interpretation direct: chunk_transport "direct_broadcaster http dc"
  by unfold_locales (auto simp: direct_broadcaster_def split: prod.splits dest: direct_poll_length)

interpretation gasless: settling_transport "gasless_broadcaster http gc"
proof unfold_locales
  show "fst (broadcast (gasless_broadcaster http gc) w sc) \<noteq> Inr (Pending sig)" for w sc sig
    by (auto simp: gasless_broadcaster_def gasless_broadcast_def split: prod.splits option.splits sum.splits)
qed (auto simp: gasless_broadcaster_def gasless_poll_def)

section \<open>Gasless requests\<close>

text \<open>A transfer of a request states the payout of an entry, its amount in units of the token.\<close>

definition states_payout :: "'w http_client \<Rightarrow> gasless_config \<Rightarrow> planned_transfer_entry \<Rightarrow> json \<Rightarrow> bool" where
  "states_payout http gc e t \<longleftrightarrow>
     json_u64_at t ''rowId'' = Some (entry_row_number e)
     \<and> json_str_at t ''recipient'' = Some (base58_text http (entry_recipient e))
     \<and> (\<exists>amount. json_str_at t ''amount'' = Some amount
          \<and> parse_token_amount amount (gasless_decimals gc) = Inr (entry_amount_raw e))"

lemma transfer_json_states:
  assumes "transfer_json http gc e = Some t" and "gasless_decimals gc \<le> 18"
    and "entry_amount_raw e < 2 ^ 64" and "entry_row_number e < 2 ^ 64"
  shows "states_payout http gc e t"
proof -
  have "int (entry_row_number e) < 2 ^ 64"
    using assms(4) by (metis of_nat_less_iff of_nat_numeral of_nat_power)
  then show ?thesis
    using assms(1) format_parse [OF assms(3,2)]
    by (auto simp: transfer_json_def states_payout_def json_u64_at_def json_str_at_def json_get_def json_as_str_def
        json_as_u64_def)
qed

lemma those_list_all2: "those (map f xs) = Some ys \<longleftrightarrow> list_all2 (\<lambda>x y. f x = Some y) xs ys"
proof (induction xs arbitrary: ys)
  case Nil
  then show ?case by auto
next
  case (Cons x xs)
  then show ?case
    by (cases ys) (auto split: option.splits)
qed

lemma request_body_states:
  assumes "request_body http gc chunk = Some request" and "gasless_decimals gc \<le> 18"
    and "\<forall>e\<in>set (entries chunk). entry_amount_raw e < 2 ^ 64 \<and> entry_row_number e < 2 ^ 64"
  shows "\<exists>ts. json_get request ''transfers'' = Some (JArray ts) \<and> list_all2 (states_payout http gc) (entries chunk) ts"
proof -
  obtain ts where ts: "those (map (transfer_json http gc) (entries chunk)) = Some ts"
    "json_get request ''transfers'' = Some (JArray ts)"
    using assms(1) by (auto simp: request_body_def json_get_def)
  have "list_all2 (states_payout http gc) (entries chunk) ts"
    using ts(1) assms(2,3) unfolding those_list_all2
    by (auto simp: list_all2_conv_all_nth intro: transfer_json_states)
  then show ?thesis
    using ts(2) by blast
qed

lemma gasless_prepare_Inr:
  assumes "gasless_prepare http gc (w, rs) chunk = (Inr ctx, (w1, rs1))"
  obtains request where "request_body http gc chunk = Some request"
    and "w1 = snd (post http w (endpoint gc) None request)" and "rs1 = rs(chunk_index chunk \<mapsto> request)"
  using assms by (auto simp: gasless_prepare_def split: option.splits prod.splits sum.splits)

section \<open>Concrete exchanges\<close>

definition sample_http :: "(nat \<Rightarrow> json \<Rightarrow> json) \<Rightarrow> nat \<Rightarrow> nat http_client" where
  "sample_http answer status =
     \<lparr>post = (\<lambda>w url hdr body. (Inr (status, Inr (answer w body)), w + 1)), instant_now = (\<lambda>w. (1000 * w, w)),
      hash_from_str = (\<lambda>_. Some [77]), pubkey_from_str = (\<lambda>_. Some [8]), signature_from_str = (\<lambda>_. Some [42]),
      base58_text = (\<lambda>_. ''key''), json_text = (\<lambda>_. ''json''), status_code_text = show_nat\<rparr>"

definition sample_direct :: direct_config where
  "sample_direct = \<lparr>rpc_url = ''http://node'', direct_fee_payer = [9]\<rparr>"

definition sample_gasless :: gasless_config where
  "sample_gasless = \<lparr>endpoint = ''https://pay/api/v1/transfer-batches'', batch_id = ''b'', gasless_sender = [9],
     currency = ''USDC'', network = ''localnet'', gasless_decimals = 6\<rparr>"

text \<open>
  A node on which a signature valid up to height 100 is unknown at the first call, lands in the block
  of height 100, and is known ever after; the second call asks for the height, by then 101.
\<close>

definition racing_node :: "nat http_client" where
  "racing_node = sample_http (\<lambda>w body. JObject [(''result'',
     if w = 0 then JObject [(''value'', JArray [JNull])]
     else if w = 1 then JNumber 101
     else JObject [(''value'', JArray [JObject [(''err'', JNull), (''confirmationStatus'', JString ''confirmed'')]])])])
     200"

text \<open>A pay-api that quotes with 402 and settles every submission that carries a header.\<close>

definition paying_api :: "nat http_client" where
  "paying_api = (sample_http (\<lambda>_ body. body) 200)
     \<lparr>post := (\<lambda>w url hdr body. (Inr (case hdr of
          None \<Rightarrow> (402, Inr (JObject [(''feePayer'', JString ''p''), (''recentBlockhash'', JString ''h''),
            (''challengeLastValidBlockHeight'', JNumber 500)]))
        | Some _ \<Rightarrow> (200, Inr (JObject [(''signature'', JString ''s'')]))), w + 1))\<rparr>"

lemma sample_format: "format_token_amount 7 6 = Some ''0.000007''"
  by (simp add: format_token_amount_def wrapping_def) code_simp

lemmas sample_json = paying_api_def sample_http_def sample_gasless_def json_get_def json_str_at_def json_u64_at_def
  json_as_str_def json_as_u64_def and_then_def ok_or_def map_err_def

lemma sample_chunk: "chunk_index (chunks sample_plan ! 1) = 4"
  "entries (chunks sample_plan ! 1) = [\<lparr>entry_row_number = 4, entry_recipient = [3], entry_amount_raw = 7,
     ata_creation_required = False\<rparr>]"
  by (simp_all add: sample_plan_def)

lemma sample_quote:
  "\<exists>request. gasless_prepare paying_api sample_gasless (0, Map.empty) (chunks sample_plan ! 1) =
     (Inr \<lparr>prep_fee_payer = [8], prep_blockhash = [77], prep_last_valid_block_height = 500\<rparr>, (1, [4 \<mapsto> request]))"
  by (simp add: gasless_prepare_def request_body_def transfer_json_def sample_chunk [simplified] sample_format
      quote_body_def quote_fields_def sample_json) blast

lemma sample_gasless_run:
  "snd (run (sample_env_over (gasless_broadcaster paying_api sample_gasless) 1) 0
     [chunks sample_plan ! 1] (sample_executor_at (0, Map.empty))) = Inr \<lparr>confirmed = 1, failed = 0\<rparr>"
proof -
  define c where "c = chunks sample_plan ! 1"
  have c: "chunk_index c = 4" "length (entries c) = 1"
    by (simp_all add: c_def sample_plan_def)
  obtain request where quote: "gasless_prepare paying_api sample_gasless (0, Map.empty) c =
     (Inr \<lparr>prep_fee_payer = [8], prep_blockhash = [77], prep_last_valid_block_height = 500\<rparr>, (1, [4 \<mapsto> request]))"
    using sample_quote unfolding c_def by blast
  have submit: "gasless_broadcast paying_api sample_gasless (Suc 0, [4 \<mapsto> request]) sample_signed = (Inr (Settled [42]), (2, Map.empty))"
    by (simp add: gasless_broadcast_def sample_signed_def submit_signature_def sample_json)
  have "snd (run (sample_env_over (gasless_broadcaster paying_api sample_gasless) 1) 0 [c] (sample_executor_at (0, Map.empty)))
    = Inr \<lparr>confirmed = 1, failed = 0\<rparr>"
    by (simp add: run_def run_chunk_def c quote submit gasless_broadcaster_def sample_steps sample_executor_at_def
        del: fun_upd_apply)
  then show ?thesis
    by (simp add: c_def)
qed

section \<open>Properties\<close>

text \<open>
  what a poll of the direct transport answers. For a non-empty request it asks for the statuses of
  all signatures in one call; an answer that is not an array of that length is an error; otherwise it
  gives one status per signature, in order: from the entry itself where there is one, and from the
  expiry height where the entry is null, for which the current height is read once, and only if some
  entry is null.
\<close>
theorem direct_poll_exact:
  "direct_poll http dc w pending =
     (if pending = [] then (Inr [], w)
      else case rpc_call http dc w (signature_statuses_request http pending) of (r, w1) \<Rightarrow>
        case and_then r (parse_statuses pending) of
          Inl e \<Rightarrow> (Inl e, w1)
        | Inr found \<Rightarrow>
            if JNull \<in> set found then
              (case fetch_block_height http dc w1 of
                 (Inl e, w2) \<Rightarrow> (Inl e, w2)
               | (Inr h, w2) \<Rightarrow>
                   (Inr (map2 (\<lambda>entry p.
                        if entry \<noteq> JNull then classify_entry http entry
                        else if pend_last_valid_block_height p < h
                        then PollFailed (''signature not found and its blockhash expired (current height '' @
                          show_nat h @ '' > last valid height '' @ show_nat (pend_last_valid_block_height p) @ '')'')
                        else StillPending) found pending), w2))
            else (Inr (map2 (\<lambda>entry p. classify_entry http entry) found pending), w1))"
proof -
  have null: "status_of http h = (\<lambda>entry p.
      if entry \<noteq> JNull then classify_entry http entry
      else if pend_last_valid_block_height p < h
      then PollFailed (''signature not found and its blockhash expired (current height '' @
        show_nat h @ '' > last valid height '' @ show_nat (pend_last_valid_block_height p) @ '')'')
      else StillPending)" for h
    by (intro ext) (simp add: status_of_def classify_missing_signature_def)
  have some: "map2 (status_of http 0) found pending = map2 (\<lambda>entry p. classify_entry http entry) found pending"
    if "JNull \<notin> set found" for found
    using that by (auto simp: status_of_def dest: set_zip_leftD)
  have "poll_entries http dc None [] (zip found pending) w1 =
     (if JNull \<in> set found then
        (case fetch_block_height http dc w1 of
           (Inl e, w2) \<Rightarrow> (Inl e, w2)
         | (Inr h, w2) \<Rightarrow> (Inr (map2 (status_of http h) found pending), w2))
      else (Inr (map2 (\<lambda>entry p. classify_entry http entry) found pending), w1))"
    if "length found = length pending" for found w1
    using some by (simp add: poll_entries_reference [OF that] poll_reference_def)
  then show ?thesis
    unfolding direct_poll_def null
    by (auto split: prod.split sum.split dest!: parse_statuses_length)
qed

text \<open>
  a gasless submission pays what was quoted. After a successful quote for a chunk, the submission
  of its signed transaction posts the very request that was quoted, whose transfers state every entry
  of the chunk in order with row, recipient and an amount that parses back to the raw amount; on
  success the chunk is settled and its request forgotten, on failure the request is kept for a retry.
\<close>
theorem gasless_submits_the_quoted_payouts:
  assumes "gasless_prepare http gc (w, rs) chunk = (Inr ctx, (w1, rs1))"
    and "sc_chunk_index sc = chunk_index chunk" and "gasless_decimals gc \<le> 18"
    and "\<forall>e\<in>set (entries chunk). entry_amount_raw e < 2 ^ 64 \<and> entry_row_number e < 2 ^ 64"
  shows "\<exists>request ts. w1 = snd (post http w (endpoint gc) None request)
    \<and> json_get request ''transfers'' = Some (JArray ts) \<and> list_all2 (states_payout http gc) (entries chunk) ts
    \<and> gasless_broadcast http gc (w1, rs1) sc =
        (case post http w1 (endpoint gc) (Some (''Bearer '' @ signed_transaction_base64 sc)) request of
           (response, w2) \<Rightarrow>
             case submit_signature http response of
               Inl e \<Rightarrow> (Inl e, (w2, rs1))
             | Inr signature \<Rightarrow> (Inr (Settled signature), (w2, rs1(chunk_index chunk := None))))"
proof -
  obtain request where req: "request_body http gc chunk = Some request"
    "w1 = snd (post http w (endpoint gc) None request)" "rs1 = rs(chunk_index chunk \<mapsto> request)"
    using gasless_prepare_Inr [OF assms(1)] .
  show ?thesis
    using request_body_states [OF req(1) assms(3,4)] req(2,3) assms(2)
    by (auto simp: gasless_broadcast_def intro!: exI [of _ request] split: prod.split sum.split)
qed

theorem gasless_submits_the_quoted_payouts_witness:
  "\<exists>request w1 rs1 ts. gasless_prepare paying_api sample_gasless (0, Map.empty) (chunks sample_plan ! 1) =
     (Inr \<lparr>prep_fee_payer = [8], prep_blockhash = [77], prep_last_valid_block_height = 500\<rparr>, (w1, rs1))
   \<and> json_get request ''transfers'' = Some (JArray ts)
   \<and> list_all2 (states_payout paying_api sample_gasless) (entries (chunks sample_plan ! 1)) ts
   \<and> gasless_broadcast paying_api sample_gasless (w1, rs1) sample_signed =
       (Inr (Settled [42]), (w1 + 1, rs1(4 := None)))"
proof -
  obtain rs1 where q: "gasless_prepare paying_api sample_gasless (0, Map.empty) (chunks sample_plan ! 1) =
     (Inr \<lparr>prep_fee_payer = [8], prep_blockhash = [77], prep_last_valid_block_height = 500\<rparr>, (1, rs1))"
    using sample_quote by blast
  have sc: "sc_chunk_index sample_signed = chunk_index (chunks sample_plan ! 1)" "gasless_decimals sample_gasless \<le> 18"
    "\<forall>e\<in>set (entries (chunks sample_plan ! 1)). entry_amount_raw e < 2 ^ 64 \<and> entry_row_number e < 2 ^ 64"
    by (simp_all add: sample_signed_def sample_chunk [simplified] sample_gasless_def)
  show ?thesis
    using gasless_submits_the_quoted_payouts [OF q sc] q
    by (auto simp: submit_signature_def sample_json sample_chunk [simplified] intro!: exI)
qed

text \<open>
  a gasless run never polls. Over the gasless transport with a window of at least one, a run gives
  the same result and state whatever \<open>poll_pending\<close> would answer and whatever the fuel, so its error
  branch is dead code, and the run always ends.
\<close>
theorem gasless_run_never_polls:
  assumes "1 \<le> max_in_flight (ex_config env)"
  shows "run (env\<lparr>ex_broadcaster := (gasless_broadcaster http gc)\<lparr>poll_pending := f\<rparr>\<rparr>) fuel cs st
      = run (env\<lparr>ex_broadcaster := gasless_broadcaster http gc\<rparr>) fuel' cs st
    \<and> snd (run (env\<lparr>ex_broadcaster := gasless_broadcaster http gc\<rparr>) fuel' cs st) \<noteq> Inl OutOfFuel"
proof -
  have "gasless.polling http gc env gasless_poll = env\<lparr>ex_broadcaster := gasless_broadcaster http gc\<rparr>"
    unfolding gasless.polling_def by (simp add: gasless_broadcaster_def)
  then show ?thesis
    using gasless.run_polling(1) [OF assms, where http = http and gc = gc and f = f and fuel = fuel and cs = cs
        and st = st and g = gasless_poll and fuel' = fuel']
      gasless.run_polling(2) [OF assms, where http = http and gc = gc and f = gasless_poll and fuel = fuel'
        and cs = cs and st = st]
    by (simp add: gasless.polling_def)
qed

theorem gasless_run_never_polls_witness:
  "snd (run (sample_env_over ((gasless_broadcaster paying_api sample_gasless)\<lparr>poll_pending := \<lambda>w _. (Inr [], w)\<rparr>) 1) 0
     [chunks sample_plan ! 1] (sample_executor_at (0, Map.empty))) = Inr \<lparr>confirmed = 1, failed = 0\<rparr>"
  using gasless_run_never_polls [where env = "sample_env_over (gasless_broadcaster paying_api sample_gasless) 1"
      and http = paying_api and gc = sample_gasless and f = "\<lambda>w _. (Inr [], w)" and fuel = 0 and fuel' = 0
      and cs = "[chunks sample_plan ! 1]" and st = "sample_executor_at (0, Map.empty)"]
    sample_gasless_run
  by (simp add: sample_env_over_def)

text \<open>
  An expired signature may have landed, on a concrete node. A poll reads the statuses before the height, so a
  transaction that lands between the two reads, in a block still within its validity, is reported as
  failed because its blockhash expired, although it succeeded: the next poll confirms it.
\<close>
lemma expired_report_can_be_wrong:
  "direct_poll racing_node dc 0 [\<lparr>pend_signature = sig, pend_last_valid_block_height = 100\<rparr>]
     = (Inr [PollFailed ''signature not found and its blockhash expired (current height 101 > last valid height 100)''], 2)
   \<and> direct_poll racing_node dc 2 [\<lparr>pend_signature = sig, pend_last_valid_block_height = 100\<rparr>]
     = (Inr [PollConfirmed], 3)"
proof -
  have "show_nat 101 = ''101''" "show_nat 100 = ''100''"
    by code_simp+
  then show ?thesis
    by (simp add: direct_poll_def rpc_call_def rpc_result_def racing_node_def sample_http_def json_get_def
        parse_statuses_def json_as_array_def fetch_block_height_def json_as_u64_def and_then_def ok_or_def
        classify_missing_signature_def classify_entry_def json_str_at_def json_as_str_def)
qed

end
