(* ===== verification/Fanout_Resume.thy ===== *)
theory Fanout_Resume
  imports Push_Transport "HOL-Library.List_Lexorder" "HOL-Library.Char_ord"
begin

text \<open>
  The reads and decisions of \<open>pay fanout\<close> (\<^verbatim>\<open>src/rust/crates/cli/src/commands/fanout.rs\<close>): its RPC client,
  the account snapshot that is fetched in concurrent batches, and the resume of an interrupted run from
  its journal.

  The order in which concurrent batches complete is the argument \<open>schedule\<close>. The lemmas show that the
  snapshot does not depend on it, that merging the batches of a signature lookup keeps what the cluster
  said, exactly which rows a resume leaves to pay, and that every transaction that was ever signed for
  one of those rows can no longer succeed.
\<close>

section \<open>The RPC client\<close>

datatype fanout_error =
    CallTransport string string
  | CallNotJson string string
  | CallRpcError string json
  | CallNoResult string
  | MalformedResponse string
  | GenesisHashNotBase58
  | GenesisHashLength
  | MintMissing pubkey
  | MintOwnerMissing
  | MintProgramInvalid
  | MintDecimalsInvalid
  | WrongAccountCount
  | TokenBalanceMissing pubkey
  | TokenBalanceInvalid
  | NoRunCreated
  | DifferentPayout
  | DifferentAccount
  | ChunkSignatureMalformed nat
  | ChunkMayLand nat
  | ChunkStatusUnknown nat string
  | GaslessJournal
  | RemainingOverflow
  | ResumeIndexOverflow
  | UnfinishedRun string
  | AlreadyPaid string
  | UnsupportedNetwork string
  | KeypairOnMainnet
  | ZeroInFlight
  | ManifestFailed manifest_error
  | PackingFailed planner_error
  | JournalFailed journal_error
  | PermitFailed permit_error
  | NotEnoughTokens nat nat
  | RentEstimateOverflow
  | FeeEstimateOverflow
  | SolEstimateOverflow
  | NotEnoughSol nat nat
  | FanoutInterrupted executor_error
  | FinishedWithFailures nat nat

record fanout_rpc =
  fanout_url :: string

record mint_info =
  mi_token_program :: pubkey
  mi_decimals :: nat

definition fanout_call ::
  "'w http_client \<Rightarrow> fanout_rpc \<Rightarrow> 'w \<Rightarrow> string \<Rightarrow> json list \<Rightarrow> (fanout_error + json) \<times> 'w" where
  "fanout_call http rpc w method params =
     (case post http w (fanout_url rpc) None (rpc_request method params) of
        (Inl e, w') \<Rightarrow> (Inl (CallTransport method e), w')
      | (Inr (_, Inl e), w') \<Rightarrow> (Inl (CallNotJson method e), w')
      | (Inr (_, Inr body), w') \<Rightarrow>
          (case json_get body ''error'' of
             Some error \<Rightarrow> Inl (CallRpcError method error)
           | None \<Rightarrow> ok_or (CallNoResult method) (json_get body ''result''), w'))"

text \<open>A call and the reading of its result.\<close>

definition call_then ::
  "'w http_client \<Rightarrow> fanout_rpc \<Rightarrow> 'w \<Rightarrow> string \<Rightarrow> json list \<Rightarrow> (json \<Rightarrow> fanout_error + 'a) \<Rightarrow> (fanout_error + 'a) \<times> 'w" where
  "call_then http rpc w method params read_result =
     (case fanout_call http rpc w method params of (r, w') \<Rightarrow> (and_then r read_result, w'))"

definition commitment_param :: "string \<Rightarrow> string \<Rightarrow> json" where
  "commitment_param encoding commitment =
     JObject [(''encoding'', JString encoding), (''commitment'', JString commitment)]"

definition genesis_hash ::
  "'w http_client \<Rightarrow> (string \<Rightarrow> bytes option) \<Rightarrow> fanout_rpc \<Rightarrow> 'w \<Rightarrow> (fanout_error + bytes) \<times> 'w" where
  "genesis_hash http bs58_decode rpc w =
     call_then http rpc w ''getGenesisHash'' [] (\<lambda>v.
       and_then (ok_or (MalformedResponse ''getGenesisHash'') (json_as_str v)) (\<lambda>hash.
       and_then (ok_or GenesisHashNotBase58 (bs58_decode hash)) (\<lambda>bytes.
       if length bytes = 32 then Inr bytes else Inl GenesisHashLength)))"

definition non_null :: "json option \<Rightarrow> json option" where
  "non_null v = (case v of Some inner \<Rightarrow> if inner = JNull then None else Some inner | None \<Rightarrow> None)"

definition fanout_mint_info ::
  "'w http_client \<Rightarrow> fanout_rpc \<Rightarrow> 'w \<Rightarrow> pubkey \<Rightarrow> (fanout_error + mint_info) \<times> 'w" where
  "fanout_mint_info http rpc w mint_key =
     call_then http rpc w ''getAccountInfo''
       [JString (base58_text http mint_key), commitment_param ''jsonParsed'' ''confirmed''] (\<lambda>v.
       and_then (ok_or (MintMissing mint_key) (non_null (json_get v ''value''))) (\<lambda>account.
       and_then (ok_or MintOwnerMissing (json_str_at account ''owner'')) (\<lambda>owner.
       and_then (ok_or MintProgramInvalid (pubkey_from_str http owner)) (\<lambda>program.
       and_then (ok_or MintDecimalsInvalid
         (Option.bind (Option.bind (json_pointer account [''data'', ''parsed'', ''info'', ''decimals'']) json_as_u64)
            (try_from 8))) (\<lambda>decs.
       Inr \<lparr>mi_token_program = program, mi_decimals = decs\<rparr>)))))"

definition account_exists ::
  "'w http_client \<Rightarrow> fanout_rpc \<Rightarrow> 'w \<Rightarrow> pubkey \<Rightarrow> (fanout_error + bool) \<times> 'w" where
  "account_exists http rpc w address =
     call_then http rpc w ''getAccountInfo''
       [JString (base58_text http address), commitment_param ''base64'' ''confirmed'']
       (\<lambda>v. Inr (case json_get v ''value'' of Some inner \<Rightarrow> inner \<noteq> JNull | None \<Rightarrow> False))"

definition token_balance ::
  "'w http_client \<Rightarrow> fanout_rpc \<Rightarrow> 'w \<Rightarrow> pubkey \<Rightarrow> (fanout_error + nat) \<times> 'w" where
  "token_balance http rpc w address =
     call_then http rpc w ''getTokenAccountBalance''
       [JString (base58_text http address), JObject [(''commitment'', JString ''confirmed'')]] (\<lambda>v.
       and_then (ok_or (TokenBalanceMissing address)
         (Option.bind (json_pointer v [''value'', ''amount'']) json_as_str)) (\<lambda>raw.
       ok_or TokenBalanceInvalid (parse_u64 raw)))"

definition sol_balance ::
  "'w http_client \<Rightarrow> fanout_rpc \<Rightarrow> 'w \<Rightarrow> pubkey \<Rightarrow> (fanout_error + nat) \<times> 'w" where
  "sol_balance http rpc w address =
     call_then http rpc w ''getBalance''
       [JString (base58_text http address), JObject [(''commitment'', JString ''confirmed'')]]
       (\<lambda>v. ok_or (MalformedResponse ''getBalance'') (json_u64_at v ''value''))"

section \<open>The account snapshot\<close>

definition PREFLIGHT_CONCURRENCY :: nat where
  "PREFLIGHT_CONCURRENCY = 32"

definition associated_token_address :: "chain_env \<Rightarrow> pubkey \<Rightarrow> pubkey \<Rightarrow> pubkey \<Rightarrow> pubkey" where
  "associated_token_address chain owner mint_key program_key =
     find_program_address chain [owner, program_key, mint_key] (associated_token_program_id chain)"

type_synonym indexed_destination = "nat \<times> pubkey \<times> pubkey"

text \<open>The lookup of one batch, and of the batches in the order in which they complete.\<close>

definition fetch_batch ::
  "'w http_client \<Rightarrow> fanout_rpc \<Rightarrow> 'w \<Rightarrow> indexed_destination list
     \<Rightarrow> (fanout_error + (nat \<times> destination_ata_status) list) \<times> 'w" where
  "fetch_batch http rpc w batch =
     call_then http rpc w ''getMultipleAccounts''
       [JArray (map (\<lambda>(_, _, ata). JString (base58_text http ata)) batch), commitment_param ''base64'' ''confirmed''] (\<lambda>v.
       and_then (ok_or (MalformedResponse ''getMultipleAccounts'') (Option.bind (json_get v ''value'') json_as_array)) (\<lambda>found.
       if length found \<noteq> length batch then Inl WrongAccountCount
       else Inr (map2 (\<lambda>(i, owner, ata) account.
          (i, \<lparr>dest_recipient = owner, dest_ata = ata, dest_exists = (account \<noteq> JNull)\<rparr>)) batch found)))"

fun fetch_batches ::
  "'w http_client \<Rightarrow> fanout_rpc \<Rightarrow> 'w \<Rightarrow> (nat \<times> destination_ata_status) list \<Rightarrow> indexed_destination list list
     \<Rightarrow> (fanout_error + (nat \<times> destination_ata_status) list) \<times> 'w" where
  "fetch_batches http rpc w acc [] = (Inr acc, w)"
| "fetch_batches http rpc w acc (batch # batches) =
     (case fetch_batch http rpc w batch of
        (Inl e, w') \<Rightarrow> (Inl e, w')
      | (Inr found, w') \<Rightarrow> fetch_batches http rpc w' (acc @ found) batches)"

definition indexed_destinations :: "chain_env \<Rightarrow> transfer_manifest \<Rightarrow> pubkey \<Rightarrow> indexed_destination list" where
  "indexed_destinations chain manifest program_key =
     map (\<lambda>(i, row). (i, recipient row,
         associated_token_address chain (recipient row) (mint (plan_context manifest)) program_key))
       (enumerate 0 (manifest_rows manifest))"

definition fetch_ata_snapshot ::
  "'w http_client \<Rightarrow> chain_env \<Rightarrow> (indexed_destination list list \<Rightarrow> indexed_destination list list) \<Rightarrow> fanout_rpc
     \<Rightarrow> 'w \<Rightarrow> pubkey \<Rightarrow> transfer_manifest \<Rightarrow> pubkey \<Rightarrow> (fanout_error + ata_snapshot) \<times> 'w" where
  "fetch_ata_snapshot http chain schedule rpc w sender manifest program_key =
     (let source = associated_token_address chain sender (mint (plan_context manifest)) program_key;
          batches = chunks_of 100 (indexed_destinations chain manifest program_key) in
      case fetch_batches http rpc w [] (schedule batches) of
        (Inl e, w1) \<Rightarrow> (Inl e, w1)
      | (Inr found, w1) \<Rightarrow>
          (case account_exists http rpc w1 source of
             (r, w2) \<Rightarrow>
               (and_then r (\<lambda>source_exists. Inr \<lparr>sender_ata = source, sender_ata_exists = source_exists,
                   destinations = map snd (sort_key fst found)\<rparr>), w2)))"

section \<open>The cluster as the landing check reads it\<close>

definition fanout_finalized_tip :: "'w http_client \<Rightarrow> fanout_rpc \<Rightarrow> 'w \<Rightarrow> (fanout_error + chain_tip) \<times> 'w" where
  "fanout_finalized_tip http rpc w =
     call_then http rpc w ''getEpochInfo'' [JObject [(''commitment'', JString ''finalized'')]] (\<lambda>info.
       case (json_u64_at info ''absoluteSlot'', json_u64_at info ''blockHeight'') of
         (Some slot, Some height) \<Rightarrow> Inr \<lparr>tip_slot = slot, tip_block_height = height\<rparr>
       | _ \<Rightarrow> Inl (MalformedResponse ''getEpochInfo''))"

text \<open>One batch of the signature lookup, and the loop that merges them under the smallest slot.\<close>

definition status_batch ::
  "'w http_client \<Rightarrow> fanout_rpc \<Rightarrow> 'w \<Rightarrow> string list \<Rightarrow> (fanout_error + signature_statuses) \<times> 'w" where
  "status_batch http rpc w batch =
     call_then http rpc w ''getSignatureStatuses''
       [JArray (map JString batch), JObject [(''searchTransactionHistory'', JBool True)]] (\<lambda>v.
       and_then (ok_or (MalformedResponse ''getSignatureStatuses'')
         (Option.bind (json_pointer v [''context'', ''slot'']) json_as_u64)) (\<lambda>slot.
       and_then (ok_or (MalformedResponse ''getSignatureStatuses'')
         (Option.bind (Option.bind (json_get v ''value'') json_as_array)
            (\<lambda>found. if length found = length batch then Some found else None))) (\<lambda>found.
       Inr \<lparr>context_slot = slot, statuses = map signature_status_from_rpc found\<rparr>)))"

fun status_batches ::
  "'w http_client \<Rightarrow> fanout_rpc \<Rightarrow> 'w \<Rightarrow> nat \<Rightarrow> signature_status list \<Rightarrow> string list list
     \<Rightarrow> (fanout_error + signature_statuses) \<times> 'w" where
  "status_batches http rpc w slot acc [] = (Inr \<lparr>context_slot = slot, statuses = acc\<rparr>, w)"
| "status_batches http rpc w slot acc (batch # batches) =
     (case status_batch http rpc w batch of
        (Inl e, w') \<Rightarrow> (Inl e, w')
      | (Inr found, w') \<Rightarrow>
          status_batches http rpc w' (min slot (context_slot found)) (acc @ statuses found) batches)"

definition fanout_signature_statuses ::
  "'w http_client \<Rightarrow> fanout_rpc \<Rightarrow> 'w \<Rightarrow> string list \<Rightarrow> (fanout_error + signature_statuses) \<times> 'w" where
  "fanout_signature_statuses http rpc w sigs =
     status_batches http rpc w (2 ^ 64 - 1) [] (chunks_of 256 sigs)"

definition fanout_chain :: "'w http_client \<Rightarrow> fanout_rpc \<Rightarrow> ('w, fanout_error) chain_state" where
  "fanout_chain http rpc =
     \<lparr>finalized_tip = fanout_finalized_tip http rpc, signature_statuses_of = fanout_signature_statuses http rpc\<rparr>"

section \<open>Resuming from a journal\<close>

definition signed_payouts :: "journal_event list \<Rightarrow> recorded_payout list" where
  "signed_payouts events =
     map (\<lambda>(signature, last_valid). \<lparr>payout_signature = signature, last_valid_block_height = Some last_valid\<rparr>)
       (foldl (\<lambda>payouts event. case kind event of
            ChunkSigned _ _ signature _ _ last_valid \<Rightarrow> btree_insert signature last_valid payouts
          | _ \<Rightarrow> payouts) [] events)"

text \<open>The landings by signature: a \<open>HashMap\<close>, and \<open>ResumeRpc::landing\<close> on it.\<close>

type_synonym resume_statuses = "string \<rightharpoonup> landing"

definition resume_landings ::
  "('w, 'e) chain_state \<Rightarrow> journal_event list \<Rightarrow> 'w \<Rightarrow> ('e + resume_statuses) \<times> 'w" where
  "resume_landings chain events w =
     (let payouts = signed_payouts events in
      case confirm_not_landed chain payouts w of (r, w') \<Rightarrow>
        (and_then r (\<lambda>landings. Inr (foldl (\<lambda>m (signature, l). m(signature \<mapsto> l)) Map.empty
            (zip (map payout_signature payouts) landings))), w'))"

definition resume_landing :: "resume_statuses \<Rightarrow> recorded_payout \<Rightarrow> landing" where
  "resume_landing found payout =
     (case found (payout_signature payout) of Some l \<Rightarrow> l | None \<Rightarrow> LandingUnknown)"

definition journal_chunks :: "journal_event list \<Rightarrow> (nat \<times> nat list) list" where
  "journal_chunks events =
     foldl (\<lambda>found event. case kind event of
         ChunkPrepared i rows _ \<Rightarrow> btree_insert i rows found
       | ChunkSigned i rows _ _ _ _ \<Rightarrow> btree_insert i rows found
       | _ \<Rightarrow> found) [] events"

text \<open>The first \<open>RunCreated\<close> record, if any.\<close>

fun run_created :: "journal_event list \<Rightarrow> journal_event_kind option" where
  "run_created [] = None"
| "run_created (e # es) =
     (case kind e of RunCreated _ _ _ _ _ _ _ _ _ \<Rightarrow> Some (kind e) | _ \<Rightarrow> run_created es)"

definition authorized_accounts :: "journal_event list \<Rightarrow> string list" where
  "authorized_accounts events =
     concat (map (\<lambda>e. case kind e of AuthorizationGranted account _ _ _ \<Rightarrow> [account] | _ \<Rightarrow> []) events)"

definition verify_resume_journal ::
  "(pubkey \<Rightarrow> string) \<Rightarrow> journal_event list \<Rightarrow> transfer_manifest \<Rightarrow> string \<Rightarrow> pubkey \<Rightarrow> pubkey \<Rightarrow> pubkey
     \<Rightarrow> fanout_error + unit" where
  "verify_resume_journal key_text events manifest net mint_key program_key sender =
     and_then (ok_or NoRunCreated (run_created events)) (\<lambda>created.
     if rc_manifest_hash_hex created \<noteq> hash_hex manifest
        \<or> rc_network created \<noteq> net
        \<or> rc_mint created \<noteq> key_text mint_key
        \<or> rc_token_program created \<noteq> key_text program_key
        \<or> rc_decimals created \<noteq> decimals (plan_context manifest)
        \<or> rc_row_count created \<noteq> length (manifest_rows manifest)
        \<or> rc_total_amount_raw created \<noteq> total_amount_raw manifest
        \<or> rc_requested_fee_mode created \<noteq> ''self_funded''
     then Inl DifferentPayout
     else if list_ex (\<lambda>account. account \<noteq> key_text sender) (authorized_accounts events)
     then Inl DifferentAccount
     else Inr ())"

record resume_plan =
  remaining :: transfer_manifest
  newly_confirmed :: "(nat \<times> bytes) list"
  confirmed_chunks :: nat
  next_chunk_index :: nat

text \<open>The paid rows, the new confirmations and the count of confirmed chunks, chunk by chunk.\<close>

type_synonym resume_tally = "nat list \<times> (nat \<times> bytes) list \<times> nat"

definition resume_step ::
  "(string \<Rightarrow> bytes option) \<Rightarrow> journal_event list \<Rightarrow> (recorded_payout \<Rightarrow> landing) \<Rightarrow> resume_tally \<Rightarrow> nat \<times> nat list
     \<Rightarrow> fanout_error + resume_tally" where
  "resume_step parse_signature events rpc tally chunk =
     (case tally of (paid, confirmations, n) \<Rightarrow>
      case chunk of (index, rows) \<Rightarrow>
      case reduce_chunk_resume_action index events SelfFunded rpc of
        Skip \<Rightarrow> Inr (paid @ rows, confirmations, n + 1)
      | RecordConfirmedThenSkip signature_text \<Rightarrow>
          (case parse_signature signature_text of
             None \<Rightarrow> Inl (ChunkSignatureMalformed index)
           | Some signature \<Rightarrow> Inr (paid @ rows, confirmations @ [(index, signature)], n + 1))
      | RetryAfterFailure _ \<Rightarrow> Inr tally
      | RebuildWithFreshBlockhash _ \<Rightarrow> Inr tally
      | NeedsSigning \<Rightarrow> Inr tally
      | RebroadcastIdenticalBytes _ \<Rightarrow> Inl (ChunkMayLand index)
      | StopUnknown signature_text \<Rightarrow> Inl (ChunkStatusUnknown index signature_text)
      | RepresentGaslessCredential _ \<Rightarrow> Inl GaslessJournal)"

definition plan_resume ::
  "(string \<Rightarrow> bytes option) \<Rightarrow> journal_event list \<Rightarrow> transfer_manifest \<Rightarrow> (recorded_payout \<Rightarrow> landing)
     \<Rightarrow> fanout_error + resume_plan" where
  "plan_resume parse_signature events manifest rpc =
     (let recorded = journal_chunks events in
      and_then (try_fold (resume_step parse_signature events rpc) ([], [], 0) recorded) (\<lambda>(paid, confirmations, n).
      let rows = filter (\<lambda>row. row_number row \<notin> set paid) (manifest_rows manifest) in
      and_then (ok_or RemainingOverflow (checked_sum 64 0 (map amount_raw rows))) (\<lambda>left.
      and_then (if recorded = [] then Inr 0
                else ok_or ResumeIndexOverflow (checked_add 32 (fst (last recorded)) 1)) (\<lambda>next_index.
      Inr \<lparr>remaining = \<lparr>plan_context = plan_context manifest, manifest_rows = rows, total_amount_raw = left,
             manifest_hash = manifest_hash manifest\<rparr>,
           newly_confirmed = confirmations, confirmed_chunks = n, next_chunk_index = next_index\<rparr>))))"

section \<open>Runs of the same manifest\<close>

definition strip_suffix_char :: "char \<Rightarrow> string \<Rightarrow> string" where
  "strip_suffix_char ch s = (if s \<noteq> [] \<and> last s = ch then butlast s else s)"

definition str_lines :: "string \<Rightarrow> string list" where
  "str_lines s = map (\<lambda>line. if line \<noteq> [] \<and> last line = LF then strip_suffix_char CR (butlast line) else line)
     (split_inclusive s)"

definition read_journal_events :: "codec \<Rightarrow> files \<Rightarrow> string \<Rightarrow> journal_event list" where
  "read_journal_events cd fs path =
     (case fs path of
        Some raw \<Rightarrow> if utf8_valid (bytes_of_string raw) then List.map_filter (from_json cd) (str_lines raw) else []
      | None \<Rightarrow> [])"

definition same_payout :: "string \<Rightarrow> string \<Rightarrow> string \<Rightarrow> journal_event_kind \<Rightarrow> bool" where
  "same_payout hash_text net mint_text k =
     (case k of RunCreated h n _ m _ _ _ _ _ \<Rightarrow> h = hash_text \<and> n = net \<and> m = mint_text | _ \<Rightarrow> False)"

definition is_signed_kind :: "journal_event_kind \<Rightarrow> bool" where
  "is_signed_kind k = (case k of ChunkSigned _ _ _ _ _ _ \<Rightarrow> True | _ \<Rightarrow> False)"

definition ends_run :: "journal_event_kind \<Rightarrow> bool" where
  "ends_run k = (case k of
      ChunkSigned _ _ _ _ _ _ \<Rightarrow> True | RunCompleted _ _ _ \<Rightarrow> True | RunInterrupted _ _ _ _ \<Rightarrow> True | _ \<Rightarrow> False)"

definition matching_run ::
  "(pubkey \<Rightarrow> string) \<Rightarrow> journal_event list \<Rightarrow> string \<Rightarrow> string \<Rightarrow> pubkey \<Rightarrow> pubkey \<Rightarrow> bool option" where
  "matching_run key_text events hash_text net mint_key sender =
     (let same = list_ex (\<lambda>e. same_payout hash_text net (key_text mint_key) (kind e)) events;
          same_signer = list_ex (\<lambda>account. account = key_text sender) (authorized_accounts events);
          any_signed = list_ex (\<lambda>e. is_signed_kind (kind e)) events in
      if \<not> (same \<and> same_signer \<and> any_signed) then None
      else Some (case find (\<lambda>e. ends_run (kind e)) (rev events) of
          Some e \<Rightarrow> (case kind e of RunCompleted _ failed_count unknown_count \<Rightarrow> failed_count = 0 \<and> unknown_count = 0 | _ \<Rightarrow> False)
        | None \<Rightarrow> False))"

text \<open>\<open>Path::extension\<close> of an entry of a directory.\<close>

definition file_name :: "string \<Rightarrow> string" where
  "file_name path = rev (takeWhile (\<lambda>ch. ch \<noteq> CHR ''/'') (rev path))"

definition path_extension :: "string \<Rightarrow> string option" where
  "path_extension path =
     (let name = file_name path; ext = rev (takeWhile (\<lambda>ch. ch \<noteq> CHR ''.'') (rev name)) in
      if length name \<le> length ext + 1 \<or> name = ''..'' then None else Some ext)"

definition refuse_paths ::
  "codec \<Rightarrow> (pubkey \<Rightarrow> string) \<Rightarrow> files \<Rightarrow> string \<Rightarrow> string \<Rightarrow> pubkey \<Rightarrow> pubkey \<Rightarrow> string list \<Rightarrow> fanout_error + unit" where
  "refuse_paths cd key_text fs hash_text net mint_key sender paths =
     try_fold (\<lambda>_ path.
       case matching_run key_text (read_journal_events cd fs path) hash_text net mint_key sender of
         Some False \<Rightarrow> Inl (UnfinishedRun path)
       | Some True \<Rightarrow> Inl (AlreadyPaid path)
       | None \<Rightarrow> Inr ()) () paths"

definition refuse_existing_runs ::
  "codec \<Rightarrow> (pubkey \<Rightarrow> string) \<Rightarrow> (string \<Rightarrow> string list option) \<Rightarrow> files \<Rightarrow> string list \<Rightarrow> string \<Rightarrow> string \<Rightarrow> pubkey \<Rightarrow> pubkey
     \<Rightarrow> fanout_error + unit" where
  "refuse_existing_runs cd key_text read_dir fs dirs hash_text net mint_key sender =
     try_fold (\<lambda>_ dir.
       case read_dir dir of
         None \<Rightarrow> Inr ()
       | Some found \<Rightarrow>
           refuse_paths cd key_text fs hash_text net mint_key sender
             (sort (filter (\<lambda>path. path_extension path = Some ''jsonl'') found))) () dirs"

definition validate_network :: "string \<Rightarrow> fanout_error + unit" where
  "validate_network net =
     ensure (net \<in> {''mainnet'', ''devnet'', ''testnet'', ''localnet''}) (UnsupportedNetwork net)"

definition effective_network :: "string \<Rightarrow> string option \<Rightarrow> string" where
  "effective_network configured override = (case override of Some net \<Rightarrow> net | None \<Rightarrow> configured)"

section \<open>The snapshot lines up\<close>

lemma call_then_Inr:
  "call_then http rpc w m ps f = (Inr a, w') \<Longrightarrow> \<exists>v. fanout_call http rpc w m ps = (Inr v, w') \<and> f v = Inr a"
  by (auto simp: call_then_def res_simps split: prod.splits)

definition looked_up :: "nat \<times> destination_ata_status \<Rightarrow> indexed_destination" where
  "looked_up found = (fst found, dest_recipient (snd found), dest_ata (snd found))"

lemma fetch_batch_lines_up:
  assumes "fetch_batch http rpc w batch = (Inr found, w')"
  shows "map looked_up found = batch"
proof -
  from call_then_Inr [OF assms [unfolded fetch_batch_def]]
  obtain accounts where "length accounts = length batch" and found: "found = map2 (\<lambda>(i, owner, ata) account.
      (i, \<lparr>dest_recipient = owner, dest_ata = ata, dest_exists = (account \<noteq> JNull)\<rparr>)) batch accounts"
    by (auto simp: res_simps split: if_splits)
  then show ?thesis
    by (simp add: looked_up_def o_def case_prod_beta split_def)
qed

lemma fetch_batches_line_up:
  "fetch_batches http rpc w acc batches = (Inr found, w') \<Longrightarrow> map looked_up found = map looked_up acc @ concat batches"
proof (induction http rpc w acc batches rule: fetch_batches.induct)
  case (2 http rpc w acc batch batches)
  then show ?case
    by (auto split: prod.splits sum.splits dest!: fetch_batch_lines_up)
qed simp

lemma indexed_destinations_fst:
  "map fst (indexed_destinations chain m program) = [0..<length (manifest_rows m)]"
  by (simp add: indexed_destinations_def enumerate_eq_zip case_prod_beta o_def map_fst_zip)

lemma indexed_destinations_snd:
  "map snd (indexed_destinations chain m program) =
     map (\<lambda>row. (recipient row, associated_token_address chain (recipient row) (mint (plan_context m)) program)) (manifest_rows m)"
  by (rule nth_equalityI) (simp_all add: indexed_destinations_def enumerate_eq_zip)

text \<open>Sorting by index undoes every reordering of the batches.\<close>

lemma sort_looked_up:
  assumes "mset (map looked_up found) = mset indexed" and "map fst indexed = [0..<n]"
  shows "map looked_up (sort_key fst found) = indexed"
proof -
  have key: "fst \<circ> looked_up = fst"
    by (simp add: fun_eq_iff looked_up_def)
  let ?sorted = "map looked_up (sort_key fst found)"
  have same: "mset ?sorted = mset indexed"
    using assms(1) by simp
  then have sets: "set ?sorted = set indexed"
    by (rule mset_eq_setD)
  have "mset (map fst ?sorted) = mset (map fst indexed)"
    using same by (metis mset_map)
  then have "distinct (map fst ?sorted)"
    using mset_eq_imp_distinct_iff [of "map fst ?sorted" "map fst indexed"] by (simp add: assms(2))
  moreover have "sorted (map fst ?sorted)"
    by (simp add: key)
  moreover have "distinct (map fst indexed)" "sorted (map fst indexed)"
    by (simp_all add: assms(2))
  moreover have "inj_on fst (set ?sorted \<union> set indexed)"
    unfolding sets Un_absorb using calculation(3) by (simp only: distinct_map)
  ultimately show ?thesis
    using sets by (intro map_sorted_distinct_set_unique [of fst])
qed

lemma snapshot_lines_up:
  assumes "fetch_ata_snapshot http chain schedule rpc w sender m program = (Inr ata, w')"
    and "\<And>batches. mset (schedule batches) = mset batches"
  shows "map (\<lambda>d. (dest_recipient d, dest_ata d)) (destinations ata)
    = map (\<lambda>row. (recipient row, associated_token_address chain (recipient row) (mint (plan_context m)) program)) (manifest_rows m)"
proof -
  let ?indexed = "indexed_destinations chain m program"
  obtain found w1 where found: "fetch_batches http rpc w [] (schedule (chunks_of 100 ?indexed)) = (Inr found, w1)"
      and ata: "destinations ata = map snd (sort_key fst found)"
    using assms(1) by (auto simp: fetch_ata_snapshot_def Let_def res_simps split: prod.splits sum.splits)
  have "mset (map looked_up found) = mset (concat (chunks_of 100 ?indexed))"
    using fetch_batches_line_up [OF found] assms(2) [of "chunks_of 100 ?indexed"]
    by (simp add: mset_concat flip: sum_mset_sum_list) 
  then have "mset (map looked_up found) = mset ?indexed"
    by (simp add: concat_chunks_of)
  from sort_looked_up [OF this indexed_destinations_fst]
  have "map snd (map looked_up (sort_key fst found)) = map snd ?indexed"
    by simp
  then show ?thesis
    by (simp add: ata looked_up_def o_def indexed_destinations_snd)
qed

lemma snapshot_matches_manifest:
  assumes "fetch_ata_snapshot http chain schedule rpc w sender m program = (Inr ata, w')"
    and "\<And>batches. mset (schedule batches) = mset batches"
  shows "snapshot_matches m ata"
proof -
  from snapshot_lines_up [OF assms] have "map fst (map (\<lambda>d. (dest_recipient d, dest_ata d)) (destinations ata))
    = map recipient (manifest_rows m)"
    by (simp add: o_def)
  then show ?thesis
    by (simp add: snapshot_matches_def o_def)
qed

section \<open>Merging the status batches\<close>

lemma status_of_fork_earlier:
  "status_of_fork ledger fork ctx sig status \<Longrightarrow> ctx' \<le> ctx \<Longrightarrow> status_of_fork ledger fork ctx' sig status"
  by (auto simp: status_of_fork_def split: signature_status.splits)

definition statuses_of_fork :: "block set \<Rightarrow> block set \<Rightarrow> string list \<Rightarrow> signature_statuses \<Rightarrow> bool" where
  "statuses_of_fork ledger fork sigs found \<longleftrightarrow>
     list_all2 (status_of_fork ledger fork (context_slot found)) sigs (statuses found)"

lemma statuses_of_fork_merge:
  assumes "list_all2 (status_of_fork ledger fork slot) sigs acc" and "statuses_of_fork ledger fork batch found"
  shows "list_all2 (status_of_fork ledger fork (min slot (context_slot found))) (sigs @ batch) (acc @ statuses found)"
  using assms unfolding statuses_of_fork_def
  by (auto intro!: list_all2_appendI elim!: list_all2_mono intro: status_of_fork_earlier)

lemma status_batches_sound:
  assumes "\<And>w batch found w'. status_batch http rpc w batch = (Inr found, w') \<Longrightarrow> statuses_of_fork ledger fork batch found"
  shows "status_batches http rpc w slot acc batches = (Inr observed, w') \<Longrightarrow>
    list_all2 (status_of_fork ledger fork slot) sigs acc \<Longrightarrow> statuses_of_fork ledger fork (sigs @ concat batches) observed"
proof (induction batches arbitrary: w slot acc sigs)
  case Nil
  then show ?case
    by (auto simp: statuses_of_fork_def)
next
  case (Cons batch batches)
  obtain found w1 where found: "status_batch http rpc w batch = (Inr found, w1)"
    using Cons.prems(1) by (auto split: prod.splits sum.splits)
  show ?case
    using Cons.IH [OF _ statuses_of_fork_merge [OF Cons.prems(2) assms [OF found]]] Cons.prems(1) found by simp
qed

section \<open>What a resume decides\<close>

text \<open>The recorded chunks of a journal with their rows, in the order of the records.\<close>

definition records_of :: "journal_event list \<Rightarrow> (nat \<times> nat list) list" where
  "records_of events = concat (map (\<lambda>e. case kind e of
      ChunkPrepared i rows _ \<Rightarrow> [(i, rows)] | ChunkSigned i rows _ _ _ _ \<Rightarrow> [(i, rows)] | _ \<Rightarrow> []) events)"

text \<open>No chunk index is used twice.\<close>

definition recorded_once :: "journal_event list \<Rightarrow> bool" where
  "recorded_once events \<longleftrightarrow> distinct (map fst (records_of events))"

lemma records_of_simps [simp]:
  "records_of [] = []" "records_of (xs @ ys) = records_of xs @ records_of ys"
  "records_of [e] = (case kind e of
      ChunkPrepared i rows _ \<Rightarrow> [(i, rows)] | ChunkSigned i rows _ _ _ _ \<Rightarrow> [(i, rows)] | _ \<Rightarrow> [])"
  by (simp_all add: records_of_def)

lemma journal_chunks_snoc:
  "journal_chunks (events @ [e]) = foldl (\<lambda>found (i, rows). btree_insert i rows found) (journal_chunks events) (records_of [e])"
  by (simp add: journal_chunks_def split: journal_event_kind.split)

lemma journal_chunks_btree: "btree (journal_chunks events)"
proof (induction events rule: rev_induct)
  case Nil
  then show ?case
    by (simp add: journal_chunks_def)
next
  case (snoc e events)
  then show ?case
    unfolding journal_chunks_snoc by (simp split: journal_event_kind.split)
qed

lemma journal_chunks_map_of: "map_of (journal_chunks events) = map_of (rev (records_of events))"
proof (induction events rule: rev_induct)
  case Nil
  then show ?case
    by (simp add: journal_chunks_def)
next
  case (snoc e events)
  then show ?case
    unfolding journal_chunks_snoc
    by (simp add: map_of_btree_insert journal_chunks_btree split: journal_event_kind.split)
qed

lemma journal_chunks_keys: "fst ` set (journal_chunks events) = fst ` set (records_of events)"
  using arg_cong [OF journal_chunks_map_of [of events], of dom] by (simp add: dom_map_of_conv_image_fst)

lemma journal_chunks_set: "recorded_once events \<Longrightarrow> set (journal_chunks events) = set (records_of events)"
proof -
  assume "recorded_once events"
  then have "distinct (map fst (rev (records_of events)))"
    by (simp add: recorded_once_def flip: rev_map)
  then have "p \<in> set (journal_chunks events) \<longleftrightarrow> p \<in> set (rev (records_of events))" for p
    using map_of_eq_Some_iff [OF btree_distinct [OF journal_chunks_btree], of events "fst p" "snd p"]
      map_of_eq_Some_iff [of "rev (records_of events)" "fst p" "snd p"]
    by (simp add: journal_chunks_map_of)
  then show ?thesis
    by auto
qed

text \<open>Which chunks a resume counts as paid: their rows are not signed again.\<close>

fun counts_as_paid :: "chunk_resume_action \<Rightarrow> bool" where
  "counts_as_paid Skip = True"
| "counts_as_paid (RecordConfirmedThenSkip _) = True"
| "counts_as_paid _ = False"

lemma resume_loop:
  assumes "try_fold (resume_step ps events rpc) (paid, cf, n) cs = Inr (paid', cf', n')"
  shows "set paid' = set paid \<union> (\<Union>(i, rows)\<in>set cs. if counts_as_paid (reduce_chunk_resume_action i events SelfFunded rpc) then set rows else {})"
    and "\<forall>(i, rows)\<in>set cs. counts_as_paid (reduce_chunk_resume_action i events SelfFunded rpc)
       \<or> allows_new_signature (reduce_chunk_resume_action i events SelfFunded rpc)"
proof -
  have "set paid' = set paid \<union> (\<Union>(i, rows)\<in>set cs. if counts_as_paid (reduce_chunk_resume_action i events SelfFunded rpc) then set rows else {})
    \<and> (\<forall>(i, rows)\<in>set cs. counts_as_paid (reduce_chunk_resume_action i events SelfFunded rpc)
       \<or> allows_new_signature (reduce_chunk_resume_action i events SelfFunded rpc))"
    using assms
  proof (induction cs arbitrary: paid cf n)
    case (Cons c cs)
    obtain i rows where c: "c = (i, rows)"
      by (cases c)
    let ?action = "reduce_chunk_resume_action i events SelfFunded rpc"
    obtain paid1 cf1 n1 where step: "resume_step ps events rpc (paid, cf, n) c = Inr (paid1, cf1, n1)"
        and rest: "try_fold (resume_step ps events rpc) (paid1, cf1, n1) cs = Inr (paid', cf', n')"
      using Cons.prems by (auto simp: res_simps)
    have "set paid1 = set paid \<union> (if counts_as_paid ?action then set rows else {})
        \<and> (counts_as_paid ?action \<or> allows_new_signature ?action)"
      using step by (cases ?action) (auto simp: resume_step_def c split: option.splits)
    then show ?case
      using Cons.IH [OF rest] by (simp add: c Un_assoc)
  qed simp
  then show "set paid' = set paid \<union> (\<Union>(i, rows)\<in>set cs. if counts_as_paid (reduce_chunk_resume_action i events SelfFunded rpc) then set rows else {})"
    and "\<forall>(i, rows)\<in>set cs. counts_as_paid (reduce_chunk_resume_action i events SelfFunded rpc)
       \<or> allows_new_signature (reduce_chunk_resume_action i events SelfFunded rpc)"
    by blast+
qed

lemma allows_not_paid: "allows_new_signature a \<Longrightarrow> \<not> counts_as_paid a"
  by (cases a) simp_all

definition paid_row :: "journal_event list \<Rightarrow> (recorded_payout \<Rightarrow> landing) \<Rightarrow> nat \<Rightarrow> bool" where
  "paid_row events rpc r \<longleftrightarrow> (\<exists>(i, rows)\<in>set (journal_chunks events).
     counts_as_paid (reduce_chunk_resume_action i events SelfFunded rpc) \<and> r \<in> set rows)"

lemma plan_resume_Inr:
  assumes "plan_resume ps events m rpc = Inr plan"
  shows "manifest_rows (remaining plan) = filter (\<lambda>row. \<not> paid_row events rpc (row_number row)) (manifest_rows m)"
    and "total_amount_raw (remaining plan) = sum_list (map amount_raw (manifest_rows (remaining plan)))"
    and "total_amount_raw (remaining plan) < 2 ^ 64"
    and "manifest_hash (remaining plan) = manifest_hash m" and "plan_context (remaining plan) = plan_context m"
    and "\<forall>(i, rows)\<in>set (records_of events). i < next_chunk_index plan"
    and "next_chunk_index plan < 2 ^ 32"
    and "\<forall>(i, rows)\<in>set (journal_chunks events). counts_as_paid (reduce_chunk_resume_action i events SelfFunded rpc)
       \<or> allows_new_signature (reduce_chunk_resume_action i events SelfFunded rpc)"
proof -
  obtain paid cf n where loop: "try_fold (resume_step ps events rpc) ([], [], 0) (journal_chunks events) = Inr (paid, cf, n)"
    using assms by (auto simp: plan_resume_def Let_def res_simps)
  have unfolded: "and_then (ok_or RemainingOverflow (checked_sum 64 0 (map amount_raw (filter (\<lambda>row. row_number row \<notin> set paid) (manifest_rows m))))) (\<lambda>left.
      and_then (if journal_chunks events = [] then Inr 0
                else ok_or ResumeIndexOverflow (checked_add 32 (fst (last (journal_chunks events))) 1)) (\<lambda>next_index.
      Inr \<lparr>remaining = \<lparr>plan_context = plan_context m, manifest_rows = filter (\<lambda>row. row_number row \<notin> set paid) (manifest_rows m),
             total_amount_raw = left, manifest_hash = manifest_hash m\<rparr>,
           newly_confirmed = cf, confirmed_chunks = n, next_chunk_index = next_index\<rparr>)) = Inr plan"
    using assms by (simp add: plan_resume_def Let_def loop)
  have paid: "r \<in> set paid \<longleftrightarrow> paid_row events rpc r" for r
    unfolding resume_loop(1) [OF loop] paid_row_def case_prod_beta by auto
  show "manifest_rows (remaining plan) = filter (\<lambda>row. \<not> paid_row events rpc (row_number row)) (manifest_rows m)"
    using unfolded by (auto simp: res_simps paid)
  show "total_amount_raw (remaining plan) = sum_list (map amount_raw (manifest_rows (remaining plan)))"
    and "total_amount_raw (remaining plan) < 2 ^ 64"
    and "manifest_hash (remaining plan) = manifest_hash m" and "plan_context (remaining plan) = plan_context m"
    using unfolded by (auto simp: res_simps checked_sum_zero_Some)
  have next_index: "(journal_chunks events = [] \<and> next_chunk_index plan = 0) \<or>
      (journal_chunks events \<noteq> [] \<and> next_chunk_index plan = fst (last (journal_chunks events)) + 1 \<and> next_chunk_index plan < 2 ^ 32)"
    using unfolded by (auto simp: res_simps arith_checked split: if_splits)
  then show "next_chunk_index plan < 2 ^ 32"
    by auto
  have "i < next_chunk_index plan" if "i \<in> fst ` set (journal_chunks events)" for i
    using next_index btree_last_key [OF journal_chunks_btree _ that] that by fastforce
  then show "\<forall>(i, rows)\<in>set (records_of events). i < next_chunk_index plan"
    unfolding journal_chunks_keys by force
  show "\<forall>(i, rows)\<in>set (journal_chunks events). counts_as_paid (reduce_chunk_resume_action i events SelfFunded rpc)
       \<or> allows_new_signature (reduce_chunk_resume_action i events SelfFunded rpc)"
    by (rule resume_loop(2) [OF loop])
qed

text \<open>A row that is left to pay: each transaction ever signed for it was reported replaceable.\<close>

lemma signed_recorded: "kind e = ChunkSigned i rows sig enc bh lv \<Longrightarrow> e \<in> set events \<Longrightarrow> (i, rows) \<in> set (records_of events)"
  by (force simp: records_of_def)

lemma recorded_once_after:
  assumes "recorded_once (before @ e # after)" and "signs_chunk i e"
  shows "list_all (\<lambda>e. \<not> signs_chunk i e) after"
proof -
  have "i \<in> fst ` set (records_of [e])"
    using assms(2) by (auto simp: signs_chunk_def)
  moreover have "distinct (map fst (records_of [e] @ records_of after))"
    using assms(1) records_of_simps(2) [of "before @ [e]" after] by (simp add: recorded_once_def del: records_of_simps(3))
  ultimately have "i \<notin> fst ` set (records_of after)"
    by auto
  then show ?thesis
    by (force simp: list_all_iff signs_chunk_def dest: signed_recorded)
qed

lemma remaining_row_replaceable:
  assumes "plan_resume ps events m rpc = Inr plan" and "recorded_once events"
    and "row \<in> set (manifest_rows (remaining plan))"
    and "e \<in> set events" and "kind e = ChunkSigned i rows sig enc bh lv" and "row_number row \<in> set rows"
  obtains rep where "rpc \<lparr>payout_signature = sig, last_valid_block_height = Some lv\<rparr> = LandingReplaceable rep"
proof -
  let ?action = "reduce_chunk_resume_action i events SelfFunded rpc"
  obtain before after where ev: "events = before @ e # after"
    using assms(4) by (auto dest: split_list)
  have tail: "list_all (\<lambda>e. \<not> signs_chunk i e) after"
    using recorded_once_after [of before e after i] assms(2,5) by (auto simp: ev signs_chunk_def)
  have chunk: "(i, rows) \<in> set (journal_chunks events)"
    using signed_recorded [OF assms(5,4)] by (simp add: journal_chunks_set [OF assms(2)])
  have "\<not> paid_row events rpc (row_number row)"
    using assms(3) by (simp add: plan_resume_Inr(1) [OF assms(1)])
  then have "\<not> counts_as_paid ?action"
    using chunk assms(6) unfolding paid_row_def by blast
  then have "allows_new_signature ?action"
    using plan_resume_Inr(8) [OF assms(1)] chunk by blast
  then have "allows_new_signature (unconfirmed_action SelfFunded rpc sig enc lv)"
    unfolding reduce_signed [OF ev assms(5) tail] by (simp split: if_splits)
  then show ?thesis
    using that unfolding unconfirmed_allows by blast
qed

section \<open>Where the recorded payouts stand\<close>

lemma foldl_upd_Some:
  "foldl (\<lambda>m (k, v). m(k \<mapsto> v)) m kvs k = Some v \<Longrightarrow> (k, v) \<in> set kvs \<or> m k = Some v"
proof (induction kvs arbitrary: m)
  case (Cons kv kvs)
  obtain a b where kv: "kv = (a, b)"
    by (cases kv)
  have "(k, v) \<in> set kvs \<or> (m(a \<mapsto> b)) k = Some v"
    using Cons.IH [of "m(a \<mapsto> b)"] Cons.prems by (simp only: kv foldl_Cons prod.case)
  then show ?case
    by (auto simp: kv split: if_splits)
qed simp

lemma confirm_not_landed_length:
  "confirm_not_landed chain payouts w = (Inr landings, w') \<Longrightarrow> length landings = length payouts"
  by (auto simp: confirm_not_landed_def split: if_splits prod.splits sum.splits)

lemma confirm_not_landed_reads:
  assumes "confirm_not_landed chain payouts w = (Inr landings, w')" and "payouts \<noteq> []"
  obtains tip w1 observed where "finalized_tip chain w = (Inr tip, w1)"
    "signature_statuses_of chain w1 (map payout_signature payouts) = (Inr observed, w')"
  using assms by (auto simp: confirm_not_landed_def split: if_splits prod.splits sum.splits)

lemma resume_landing_replaceable:
  assumes "resume_landings chain events w = (Inr found, w')"
    and "resume_landing found payout = LandingReplaceable rep"
  obtains landings j where "confirm_not_landed chain (signed_payouts events) w = (Inr landings, w')"
    "j < length (signed_payouts events)" "payout_signature (signed_payouts events ! j) = payout_signature payout"
    "landings ! j = LandingReplaceable rep"
proof -
  obtain landings where l: "confirm_not_landed chain (signed_payouts events) w = (Inr landings, w')"
    "found = foldl (\<lambda>m (signature, l). m(signature \<mapsto> l)) Map.empty
            (zip (map payout_signature (signed_payouts events)) landings)"
    using assms(1) by (auto simp: resume_landings_def Let_def res_simps split: prod.splits)
  have "found (payout_signature payout) = Some (LandingReplaceable rep)"
    using assms(2) by (auto simp: resume_landing_def split: option.splits)
  then have "(payout_signature payout, LandingReplaceable rep) \<in> set (zip (map payout_signature (signed_payouts events)) landings)"
    using foldl_upd_Some [of Map.empty] by (fastforce simp: l(2))
  then show ?thesis
    using that l(1) by (auto simp: set_zip)
qed

text \<open>
  What the cluster may be trusted with during one lookup: whatever tip and statuses it reports describe
  the ledger and the fork of the node that answers.
\<close>

definition trusted_cluster ::
  "block set \<Rightarrow> block set \<Rightarrow> ('w, 'e) chain_state \<Rightarrow> recorded_payout list \<Rightarrow> 'w \<Rightarrow> bool" where
  "trusted_cluster ledger fork chain payouts w \<longleftrightarrow>
     (\<forall>tip w1 observed w2. finalized_tip chain w = (Inr tip, w1) \<longrightarrow>
        signature_statuses_of chain w1 (map payout_signature payouts) = (Inr observed, w2) \<longrightarrow>
        sound_cluster ledger fork tip observed payouts)"

lemma resume_never_succeeds:
  assumes "trusted_cluster ledger fork chain (signed_payouts events) w"
    and "resume_landings chain events w = (Inr found, w')"
    and "resume_landing found payout = LandingReplaceable rep"
  shows "never_succeeds ledger payout"
proof -
  obtain landings j where l: "confirm_not_landed chain (signed_payouts events) w = (Inr landings, w')"
    "j < length (signed_payouts events)" "payout_signature (signed_payouts events ! j) = payout_signature payout"
    "landings ! j = LandingReplaceable rep"
    by (rule resume_landing_replaceable [OF assms(2,3)])
  obtain tip w1 observed where reads: "finalized_tip chain w = (Inr tip, w1)"
    "signature_statuses_of chain w1 (map payout_signature (signed_payouts events)) = (Inr observed, w')"
    by (rule confirm_not_landed_reads [OF l(1)]) (use l(2) in auto)
  have "sound_cluster ledger fork tip observed (signed_payouts events)"
    using assms(1) reads unfolding trusted_cluster_def by blast
  from confirmed_never_succeeds [OF reads this l(1,2,4)] show ?thesis
    by (simp add: never_succeeds_def l(3))
qed

lemma resume_row_unpaid:
  assumes "recorded_once events" and "trusted_cluster ledger fork chain (signed_payouts events) w"
    and "resume_landings chain events w = (Inr found, w')"
    and "plan_resume ps events m (resume_landing found) = Inr plan"
    and "row \<in> set (manifest_rows (remaining plan))"
    and "e \<in> set events" and "kind e = ChunkSigned i rows sig enc bh lv" and "row_number row \<in> set rows"
    and "b \<in> ledger"
  shows "(sig, True) \<notin> set (executed b)"
proof -
  obtain rep where "resume_landing found \<lparr>payout_signature = sig, last_valid_block_height = Some lv\<rparr> = LandingReplaceable rep"
    by (rule remaining_row_replaceable [OF assms(4,1,5-8)])
  from resume_never_succeeds [OF assms(2,3) this] show ?thesis
    using assms(9) by (simp add: never_succeeds_def)
qed

section \<open>Answers that do not depend on the moment\<close>

lemma fetch_batches_stateless:
  assumes "\<And>w w' batch. fst (fetch_batch http rpc w batch) = fst (fetch_batch http rpc w' batch)"
  shows "fetch_batches http rpc w acc batches = (Inr found, w') \<Longrightarrow>
    found = acc @ concat (map (\<lambda>batch. projr (fst (fetch_batch http rpc w0 batch))) batches)"
proof (induction batches arbitrary: w acc)
  case (Cons batch batches)
  obtain part w1 where part: "fetch_batch http rpc w batch = (Inr part, w1)"
    using Cons.prems by (auto split: prod.splits sum.splits)
  then have "projr (fst (fetch_batch http rpc w0 batch)) = part"
    using assms [of w0 batch w] by (simp add: part)
  then show ?case
    using Cons.IH [of w1 "acc @ part"] Cons.prems by (simp add: part)
qed simp

lemma sort_key_mset_eq:
  assumes "mset xs = mset ys" and "distinct (map f xs)"
  shows "sort_key f xs = sort_key f ys"
proof (rule map_sorted_distinct_set_unique [of f])
  have sets: "set (sort_key f xs) = set xs" "set (sort_key f ys) = set xs"
    using mset_eq_setD [OF assms(1)] by simp_all
  show "inj_on f (set (sort_key f xs) \<union> set (sort_key f ys))"
    unfolding sets using assms(2) by (simp add: distinct_map)
  have "mset (map f ys) = mset (map f xs)"
    using assms(1) by simp
  then have "distinct (map f ys)"
    using assms(2) mset_eq_imp_distinct_iff by blast
  moreover have "mset (map f (sort_key f zs)) = mset (map f zs)" for zs
    by simp
  ultimately show "distinct (map f (sort_key f xs))" "distinct (map f (sort_key f ys))"
    using assms(2) mset_eq_imp_distinct_iff by blast+
  show "set (sort_key f xs) = set (sort_key f ys)"
    by (simp only: sets)
qed simp_all

lemma snapshot_order_irrelevant:
  assumes "\<And>w w' batch. fst (fetch_batch http rpc w batch) = fst (fetch_batch http rpc w' batch)"
    and "\<And>batches. mset (schedule batches) = mset batches"
    and "fetch_ata_snapshot http chain schedule rpc w sender m program = (Inr ata, w')"
    and "fetch_ata_snapshot http chain (\<lambda>batches. batches) rpc v sender m program = (Inr ata0, v')"
  shows "destinations ata = destinations ata0"
proof -
  let ?batches = "chunks_of 100 (indexed_destinations chain m program)"
  obtain found w1 where found: "fetch_batches http rpc w [] (schedule ?batches) = (Inr found, w1)"
      and ata: "destinations ata = map snd (sort_key fst found)"
    using assms(3) by (auto simp: fetch_ata_snapshot_def Let_def res_simps split: prod.splits sum.splits)
  obtain found0 v1 where found0: "fetch_batches http rpc v [] ?batches = (Inr found0, v1)"
      and ata0: "destinations ata0 = map snd (sort_key fst found0)"
    using assms(4) by (auto simp: fetch_ata_snapshot_def Let_def res_simps split: prod.splits sum.splits)
  let ?part = "\<lambda>batch. projr (fst (fetch_batch http rpc w batch))"
  have "found = concat (map ?part (schedule ?batches))" "found0 = concat (map ?part ?batches)"
    using fetch_batches_stateless [OF assms(1) found, of w] fetch_batches_stateless [OF assms(1) found0, of w] by simp_all
  moreover have "mset (concat (map ?part (schedule ?batches))) = mset (concat (map ?part ?batches))"
    using assms(2) [of ?batches] by (simp add: mset_concat flip: sum_mset_sum_list)
  ultimately have same: "mset found0 = mset found"
    by simp
  have "map looked_up found0 = indexed_destinations chain m program"
    using fetch_batches_line_up [OF found0] by (simp add: concat_chunks_of)
  from arg_cong [OF this, of "map fst"] have "map fst found0 = [0..<length (manifest_rows m)]"
    by (simp add: indexed_destinations_fst looked_up_def o_def)
  then show ?thesis
    using sort_key_mset_eq [OF same, of fst] by (simp add: ata ata0)
qed

lemma try_fold_unit:
  "try_fold (\<lambda>_ x. g x) () xs = Inr () \<longleftrightarrow> (\<forall>x\<in>set xs. g x = Inr ())"
proof (induction xs)
  case (Cons x xs)
  then show ?case
    by (cases "g x") simp_all
qed simp

lemma approved_row_planned:
  assumes "pack_chunks_from kit m ata mode sender payer price first = Inr plan"
    and "approved_chunk (chunks plan) sc" and "r \<in> set (sc_row_numbers sc)"
  shows "\<exists>row\<in>set (manifest_rows m). row_number row = r"
proof -
  obtain ch where "ch \<in> set (chunks plan)" "sc_row_numbers sc = row_numbers ch"
    using assms(2) by (auto simp: approved_chunk_def)
  then obtain entry where "entry \<in> set (concat (map entries (chunks plan)))" "entry_row_number entry = r"
    using assms(3) by (auto simp: row_numbers_def)
  then show ?thesis
    unfolding plan_entries [OF assms(1)] by (auto simp: planned_entry_def dest!: set_zip_leftD)
qed

section \<open>A concrete resume\<close>

text \<open>One expired transaction for all three rows, recorded as chunk 2.\<close>

definition expired_event :: journal_event where
  "expired_event = \<lparr>sequence = 1, timestamp = 0, kind = ChunkSigned 2 [2, 3, 4] ''sig'' ''old'' ''hash'' 10\<rparr>"

definition expired_statuses :: resume_statuses where
  "expired_statuses = [''sig'' \<mapsto> LandingReplaceable \<lparr>replace_reason_of = ReasonExpired\<rparr>]"

lemma expired_action:
  "reduce_chunk_resume_action 2 [expired_event] SelfFunded (resume_landing expired_statuses)
     = RebuildWithFreshBlockhash \<lparr>replace_reason_of = ReasonExpired\<rparr>"
  by (simp add: reduce_chunk_resume_action_def resume_scan_def expired_event_def kind_chunk_index_def
      resume_landing_def expired_statuses_def)

lemma expired_plan:
  "plan_resume (\<lambda>_. Some []) [expired_event] sample_manifest (resume_landing expired_statuses) =
     Inr \<lparr>remaining = sample_manifest, newly_confirmed = [], confirmed_chunks = 0, next_chunk_index = 3\<rparr>"
proof -
  have chunks: "journal_chunks [expired_event] = [(2, [2, 3, 4])]"
    by (simp add: journal_chunks_def expired_event_def)
  have sum: "checked_sum 64 0 (map amount_raw (manifest_rows sample_manifest)) = Some 18"
    by (simp only: checked_sum_zero_Some) (simp add: sample_manifest_def number_rows_def)
  show ?thesis
    by (simp add: plan_resume_def chunks resume_step_def expired_action sum checked_add_def)
      (simp add: sample_manifest_def)
qed

definition stateless_http :: "unit http_client" where
  "stateless_http = \<lparr>post = (\<lambda>w url auth body. (Inr (200, Inr (JObject [(''result'',
       JObject [(''value'', JArray [JNull])])])), w)),
     instant_now = (\<lambda>w. (0, w)), hash_from_str = (\<lambda>_. None), pubkey_from_str = (\<lambda>_. None), signature_from_str = (\<lambda>_. None),
     base58_text = (\<lambda>_. ''key''), json_text = (\<lambda>_. ''json''), status_code_text = (\<lambda>_. ''200'')\<rparr>"

definition statuses_http :: "nat http_client" where
  "statuses_http = \<lparr>post = (\<lambda>w url auth body. (Inr (200, Inr (JObject [(''result'',
       JObject [(''context'', JObject [(''slot'', JNumber 21)]), (''value'', JArray [JNull])])])), w + 1)),
     instant_now = (\<lambda>w. (0, w)), hash_from_str = (\<lambda>_. None), pubkey_from_str = (\<lambda>_. None), signature_from_str = (\<lambda>_. None),
     base58_text = (\<lambda>_. ''key''), json_text = (\<lambda>_. ''json''), status_code_text = (\<lambda>_. ''200'')\<rparr>"

definition quiet_fork :: "block set" where
  "quiet_fork = {\<lparr>block_slot = 20, block_height = 11, executed = []\<rparr>}"

lemma statuses_http_batch:
  "status_batch statuses_http rpc w batch = (r, w') \<Longrightarrow> r = Inr found \<Longrightarrow>
     length batch = 1 \<and> found = \<lparr>context_slot = 21, statuses = [StatusAbsent]\<rparr>"
  by (auto simp: status_batch_def call_then_def fanout_call_def statuses_http_def json_get_def json_as_u64_def
      json_as_array_def signature_status_from_rpc_def res_simps split: if_splits)

lemma sample_snapshot:
  "fetch_ata_snapshot stateless_http sample_env rev \<lparr>fanout_url = ''rpc''\<rparr> () [9]
     (sample_manifest\<lparr>manifest_rows := [\<lparr>row_number = 2, recipient = [1], amount_raw = 5\<rparr>]\<rparr>) [103] =
   (Inr \<lparr>sender_ata = associated_token_address sample_env [9] (mint sample_context) [103], sender_ata_exists = True,
     destinations = [\<lparr>dest_recipient = [1], dest_ata = associated_token_address sample_env [1] (mint sample_context) [103],
       dest_exists = False\<rparr>]\<rparr>, ())"
  by (simp add: fetch_ata_snapshot_def Let_def indexed_destinations_def chunks_of.simps [of 100] fetch_batch_def
      call_then_def fanout_call_def stateless_http_def json_get_def json_as_array_def account_exists_def sample_manifest_def)

section \<open>Properties\<close>

text \<open>
  C14: a resume leaves exactly the rows that are not known to be paid. When planning succeeds, the
  remaining rows are those of the manifest that no recorded chunk carries which the journal or the
  cluster reports confirmed, in order and with their exact total; every other recorded chunk may be
  signed anew; the identity of the payout is kept; and the next chunk index is above every recorded one.
\<close>
theorem resume_leaves_exactly_unpaid_rows:
  assumes "plan_resume parse_signature events m rpc = Inr plan"
  shows "manifest_rows (remaining plan) = filter (\<lambda>row. \<not> (\<exists>(i, rows)\<in>set (journal_chunks events).
        counts_as_paid (reduce_chunk_resume_action i events SelfFunded rpc) \<and> row_number row \<in> set rows)) (manifest_rows m)
    \<and> total_amount_raw (remaining plan) = sum_list (map amount_raw (manifest_rows (remaining plan)))
    \<and> manifest_hash (remaining plan) = manifest_hash m \<and> plan_context (remaining plan) = plan_context m
    \<and> (\<forall>(i, rows)\<in>set (journal_chunks events).
         (counts_as_paid (reduce_chunk_resume_action i events SelfFunded rpc)
          \<or> allows_new_signature (reduce_chunk_resume_action i events SelfFunded rpc)) \<and> i < next_chunk_index plan)"
proof -
  have "i < next_chunk_index plan" if "(i, rows) \<in> set (journal_chunks events)" for i rows
  proof -
    have "i \<in> fst ` set (records_of events)"
      using that journal_chunks_keys [of events] by force
    then show ?thesis
      using plan_resume_Inr(6) [OF assms] by force
  qed
  then show ?thesis
    using plan_resume_Inr [OF assms] unfolding paid_row_def by blast
qed

theorem resume_leaves_exactly_unpaid_rows_witness:
  "manifest_rows sample_manifest = filter (\<lambda>row. \<not> (\<exists>(i, rows)\<in>set (journal_chunks [expired_event]).
      counts_as_paid (reduce_chunk_resume_action i [expired_event] SelfFunded (resume_landing expired_statuses))
      \<and> row_number row \<in> set rows)) (manifest_rows sample_manifest)"
  using resume_leaves_exactly_unpaid_rows [OF expired_plan] by simp

text \<open>
  the snapshot does not depend on the order in which the batches answer. For every order of
  completion the snapshot lists, row by row, the recipient and its associated token account; and if the
  node's answers do not change meanwhile, it is the snapshot of the batches taken in order.
\<close>
theorem snapshot_ignores_completion_order:
  assumes "\<And>batches. mset (schedule batches) = mset batches"
    and "fetch_ata_snapshot http chain schedule rpc w sender m program = (Inr ata, w')"
  shows "map (\<lambda>d. (dest_recipient d, dest_ata d)) (destinations ata)
      = map (\<lambda>row. (recipient row, associated_token_address chain (recipient row) (mint (plan_context m)) program)) (manifest_rows m)
    \<and> ((\<forall>w w' batch. fst (fetch_batch http rpc w batch) = fst (fetch_batch http rpc w' batch)) \<longrightarrow>
       fetch_ata_snapshot http chain (\<lambda>batches. batches) rpc v sender m program = (Inr ata0, v') \<longrightarrow>
       destinations ata = destinations ata0)"
  using snapshot_lines_up [OF assms(2,1)] snapshot_order_irrelevant [OF _ assms, of v ata0 v'] by blast

theorem snapshot_ignores_completion_order_witness:
  "\<exists>ata. fetch_ata_snapshot stateless_http sample_env rev \<lparr>fanout_url = ''rpc''\<rparr> () [9]
       (sample_manifest\<lparr>manifest_rows := [\<lparr>row_number = 2, recipient = [1], amount_raw = 5\<rparr>]\<rparr>) [103] = (Inr ata, ())
     \<and> map (\<lambda>d. (dest_recipient d, dest_ata d)) (destinations ata)
       = [([1], associated_token_address sample_env [1] (mint sample_context) [103])]"
  using snapshot_ignores_completion_order [of rev, OF mset_rev sample_snapshot] sample_snapshot
  by (simp add: sample_manifest_def)

text \<open>
  merging the batches of a lookup keeps what the node said. If the statuses of every batch describe
  the answering fork at that batch's slot, the merged statuses describe it at the merged slot, one per
  signature in order; the smallest slot is the one for which this holds.
\<close>
theorem merged_statuses_describe_fork:
  assumes "\<And>w batch found w'. status_batch http rpc w batch = (Inr found, w') \<Longrightarrow>
      list_all2 (status_of_fork ledger fork (context_slot found)) batch (statuses found)"
    and "fanout_signature_statuses http rpc w sigs = (Inr observed, w')"
  shows "list_all2 (status_of_fork ledger fork (context_slot observed)) sigs (statuses observed)"
  using status_batches_sound [of http rpc ledger fork w "2 ^ 64 - 1" "[]" "chunks_of 256 sigs" observed w' "[]"] assms
  by (simp add: statuses_of_fork_def fanout_signature_statuses_def concat_chunks_of)

theorem merged_statuses_describe_fork_witness:
  "\<exists>observed w'. fanout_signature_statuses statuses_http \<lparr>fanout_url = ''rpc''\<rparr> 0 [''sig''] = (Inr observed, w')
     \<and> list_all2 (status_of_fork quiet_fork quiet_fork (context_slot observed)) [''sig''] (statuses observed)"
proof -
  have lookup: "fanout_signature_statuses statuses_http \<lparr>fanout_url = ''rpc''\<rparr> 0 [''sig'']
      = (Inr \<lparr>context_slot = 21, statuses = [StatusAbsent]\<rparr>, 1)"
    by (simp add: fanout_signature_statuses_def chunks_of.simps [of 256] status_batch_def call_then_def fanout_call_def
        statuses_http_def json_get_def json_as_u64_def json_as_array_def signature_status_from_rpc_def)
  have batches: "list_all2 (status_of_fork quiet_fork quiet_fork (context_slot found)) batch (statuses found)"
    if "status_batch statuses_http rpc w batch = (Inr found, w')" for rpc w batch found w'
    using statuses_http_batch [OF that refl]
    by (cases batch) (auto simp: status_of_fork_def quiet_fork_def)
  show ?thesis
    by (intro exI conjI, rule lookup, rule merged_statuses_describe_fork [OF _ lookup]) (rule batches)
qed

text \<open>
  a second run of the same payout is refused exactly when a journal of it exists. Without the flag
  for a new run, the search of the journal directories succeeds exactly when no readable \<open>jsonl\<close> file in
  them records a run of this manifest on this network and mint, authorized by this account, that signed
  at least one chunk.
\<close>
theorem existing_runs_refused_exactly:
  "refuse_existing_runs cd key_text read_dir fs dirs hash_text net mint_key sender = Inr () \<longleftrightarrow>
     (\<forall>dir\<in>set dirs. \<forall>found. read_dir dir = Some found \<longrightarrow>
        (\<forall>path\<in>set found. path_extension path = Some ''jsonl'' \<longrightarrow>
           (let events = read_journal_events cd fs path in
            \<not> (list_ex (\<lambda>e. same_payout hash_text net (key_text mint_key) (kind e)) events
               \<and> key_text sender \<in> set (authorized_accounts events)
               \<and> list_ex (\<lambda>e. is_signed_kind (kind e)) events))))"
proof -
  have "(case matching_run key_text events hash_text net mint_key sender of
         Some False \<Rightarrow> Inl (UnfinishedRun path) | Some True \<Rightarrow> Inl (AlreadyPaid path) | None \<Rightarrow> Inr ()) = Inr ()
    \<longleftrightarrow> \<not> (list_ex (\<lambda>e. same_payout hash_text net (key_text mint_key) (kind e)) events
               \<and> key_text sender \<in> set (authorized_accounts events)
               \<and> list_ex (\<lambda>e. is_signed_kind (kind e)) events)" for events path
    by (auto simp: matching_run_def Let_def list_ex_iff split: option.splits bool.splits if_splits)
  then have "refuse_paths cd key_text fs hash_text net mint_key sender paths = Inr () \<longleftrightarrow>
      (\<forall>path\<in>set paths. let events = read_journal_events cd fs path in
            \<not> (list_ex (\<lambda>e. same_payout hash_text net (key_text mint_key) (kind e)) events
               \<and> key_text sender \<in> set (authorized_accounts events)
               \<and> list_ex (\<lambda>e. is_signed_kind (kind e)) events))" for paths
    unfolding refuse_paths_def try_fold_unit Let_def by simp
  then show ?thesis
    unfolding refuse_existing_runs_def try_fold_unit by (auto split: option.splits)
qed

theorem existing_runs_refused_exactly_witness:
  "refuse_existing_runs \<lparr>to_json = (\<lambda>_. None), from_json = (\<lambda>_. None)\<rparr> (\<lambda>_. ''key'') (\<lambda>_. Some [''push/run.jsonl''])
     [''push/run.jsonl'' \<mapsto> ''torn''] [''push''] ''hash'' ''devnet'' [8] [9] = Inr ()"
  unfolding existing_runs_refused_exactly
  by (simp add: read_journal_events_def str_lines_def List.map_filter_def Let_def)

end
