(* ===== verification/Fanout_Command.thy ===== *)
theory Fanout_Command
  imports Fanout_Resume
begin

text \<open>
  The whole of \<open>pay fanout\<close> (\<open>FanoutCommand::run\<close> of \<^verbatim>\<open>src/rust/crates/cli/src/commands/fanout.rs\<close>): it
  composes the manifest parser, the journal, the resume planner, the packer, the signing permit and the
  executor over the direct transport.

  The currency, the mint and the signing account the command resolves first are arguments. The state is
  the world the reads go to, the files, and the log of durable records and broadcasts. The lemmas follow
  a journal through any number of interrupted and resumed runs: no chunk index is ever used twice, and a
  run never broadcasts a row for which an earlier transaction can still succeed.
\<close>

section \<open>State and steps\<close>

record os_answers =
  os_dir_ok :: bool
  os_open_ok :: bool
  os_truncate_ok :: bool
  os_tries :: "nat \<Rightarrow> try_lock_outcome"

record ('w, 'i) fanout_env =
  fo_http :: "'w http_client"
  fo_kit :: "('i, versioned_transaction) pay_kit"
  fo_chain_env :: chain_env
  fo_codec :: codec
  fo_bs58_decode :: "string \<Rightarrow> bytes option"
  fo_csv_records :: "string \<Rightarrow> (string + string list) list"
  fo_blake3 :: "bytes \<Rightarrow> bytes"
  fo_schedule :: "indexed_destination list list \<Rightarrow> indexed_destination list list"
  fo_error_text :: "executor_error \<Rightarrow> string"
  fo_default_path :: "'w \<Rightarrow> string \<Rightarrow> string \<times> 'w"
  fo_read_dir :: "'w \<Rightarrow> (string \<Rightarrow> string list option) \<times> 'w"
  fo_os :: "'w \<Rightarrow> os_answers \<times> 'w"
  fo_io :: "'w \<Rightarrow> write_outcome \<times> 'w"
  fo_now :: "'w \<Rightarrow> int \<times> 'w"
  fo_signer :: "'w \<Rightarrow> signer \<times> 'w"
  fo_load_signer :: "'w \<Rightarrow> (batch_prompt \<Rightarrow> permit_error + pubkey) \<times> 'w"

record fanout_command =
  cmd_csv :: string
  cmd_network :: string
  cmd_rpc_url :: string
  cmd_keypair :: bool
  cmd_max_in_flight :: nat
  cmd_journal :: "string option"
  cmd_resume :: "string option"
  cmd_new_run :: bool
  cmd_currency :: string
  cmd_mint :: pubkey
  cmd_account :: string
  cmd_sender :: pubkey

record 'w fanout =
  fo_world :: 'w
  fo_files :: files
  fo_log :: "effect list"

type_synonym ('w, 'a) fan = "'w fanout \<Rightarrow> 'w fanout \<times> (fanout_error + 'a)"

definition fan_bind :: "('w, 'a) fan \<Rightarrow> ('a \<Rightarrow> ('w, 'b) fan) \<Rightarrow> ('w, 'b) fan" where
  "fan_bind m f st = (case m st of (st', Inl e) \<Rightarrow> (st', Inl e) | (st', Inr a) \<Rightarrow> f a st')"

definition fan_pure :: "fanout_error + 'a \<Rightarrow> ('w, 'a) fan" where
  "fan_pure r st = (st, r)"

definition fan_read :: "('w \<Rightarrow> (fanout_error + 'a) \<times> 'w) \<Rightarrow> ('w, 'a) fan" where
  "fan_read f st = (case f (fo_world st) of (r, w) \<Rightarrow> (st\<lparr>fo_world := w\<rparr>, r))"

definition fan_ask :: "('w \<Rightarrow> 'a \<times> 'w) \<Rightarrow> ('w, 'a) fan" where
  "fan_ask f = fan_read (\<lambda>w. case f w of (a, w') \<Rightarrow> (Inr a, w'))"

definition fan_append :: "('w, 'i) fanout_env \<Rightarrow> journal \<Rightarrow> journal_event_kind \<Rightarrow> ('w, journal) fan" where
  "fan_append env j k =
     fan_bind (fan_ask (fo_io env)) (\<lambda>io.
     fan_bind (fan_ask (fo_now env)) (\<lambda>now st.
       case append_event (fo_codec env) io now (fo_files st, j) k of
         ((fs, j'), Inl e) \<Rightarrow> (st\<lparr>fo_files := fs\<rparr>, Inl (JournalFailed e))
       | ((fs, j'), Inr event) \<Rightarrow> (st\<lparr>fo_files := fs, fo_log := fo_log st @ [Journaled event]\<rparr>, Inr j')))"

section \<open>Opening the journal\<close>

definition fanout_checks :: "fanout_command \<Rightarrow> fanout_error + unit" where
  "fanout_checks cmd =
     and_then (validate_network (cmd_network cmd)) (\<lambda>_.
     if cmd_network cmd = ''mainnet'' \<and> cmd_keypair cmd then Inl KeypairOnMainnet
     else if cmd_max_in_flight cmd = 0 then Inl ZeroInFlight
     else Inr ())"

fun append_confirmations ::
  "('w, 'i) fanout_env \<Rightarrow> journal \<Rightarrow> (nat \<times> bytes) list \<Rightarrow> ('w, journal) fan" where
  "append_confirmations env j [] = fan_pure (Inr j)"
| "append_confirmations env j ((index, signature) # rest) =
     fan_bind (fan_append env j (ChunkConfirmed index (base58_text (fo_http env) signature)))
       (\<lambda>j'. append_confirmations env j' rest)"

text \<open>\<open>None\<close>: every row was already confirmed and the command is done.\<close>

definition open_resumed ::
  "('w, 'i) fanout_env \<Rightarrow> fanout_command \<Rightarrow> mint_info \<Rightarrow> transfer_manifest \<Rightarrow> string
     \<Rightarrow> ('w, (journal \<times> transfer_manifest \<times> nat) option) fan" where
  "open_resumed env cmd info full path =
     fan_bind (fan_ask (fo_os env)) (\<lambda>os.
     fan_bind (\<lambda>st. case open_existing (fo_codec env) (os_open_ok os) (os_truncate_ok os) (os_tries os) (fo_files st) path of
           (fs, r) \<Rightarrow> (st\<lparr>fo_files := fs\<rparr>, map_err JournalFailed r)) (\<lambda>(j, events).
     fan_bind (fan_pure (verify_resume_journal (base58_text (fo_http env)) events full (cmd_network cmd) (cmd_mint cmd)
           (mi_token_program info) (cmd_sender cmd))) (\<lambda>_.
     fan_bind (fan_read (resume_landings (fanout_chain (fo_http env) \<lparr>fanout_url = cmd_rpc_url cmd\<rparr>) events)) (\<lambda>found.
     fan_bind (fan_pure (plan_resume (signature_from_str (fo_http env)) events full (resume_landing found))) (\<lambda>plan.
     fan_bind (append_confirmations env j (newly_confirmed plan)) (\<lambda>j.
     if manifest_rows (remaining plan) = []
     then fan_bind (fan_append env j (RunCompleted (confirmed_chunks plan) 0 0)) (\<lambda>_. fan_pure (Inr None))
     else fan_pure (Inr (Some (j, remaining plan, next_chunk_index plan)))))))))"

text \<open>\<open>Path::parent\<close>, the directories that are searched, sorted and without repetition.\<close>

definition path_parent :: "string \<Rightarrow> string option" where
  "path_parent path =
     (let rest = dropWhile (\<lambda>ch. ch \<noteq> CHR ''/'') (rev path) in
      if path = [] \<or> path = ''/'' then None
      else Some (if rest = [] then [] else if rest = ''/'' then ''/'' else rev (tl rest)))"

definition searched_dirs :: "string \<Rightarrow> string \<Rightarrow> string list" where
  "searched_dirs default_file journal_file =
     remdups_adj (sort ((case path_parent default_file of Some d \<Rightarrow> d | None \<Rightarrow> [])
       # (case path_parent journal_file of Some d \<Rightarrow> [d] | None \<Rightarrow> [])))"

definition open_new ::
  "('w, 'i) fanout_env \<Rightarrow> fanout_command \<Rightarrow> mint_info \<Rightarrow> transfer_manifest
     \<Rightarrow> ('w, (journal \<times> transfer_manifest \<times> nat) option) fan" where
  "open_new env cmd info full =
     fan_bind (case cmd_journal cmd of
           Some path \<Rightarrow> fan_pure (Inr path)
         | None \<Rightarrow> fan_ask (\<lambda>w. fo_default_path env w (manifest_hash_prefix (hash_hex full)))) (\<lambda>path.
     fan_bind (if cmd_new_run cmd then fan_pure (Inr ())
         else
           fan_bind (fan_ask (\<lambda>w. fo_default_path env w [])) (\<lambda>default_file.
           fan_bind (fan_ask (fo_read_dir env)) (\<lambda>read_dir st.
             (st, refuse_existing_runs (fo_codec env) (base58_text (fo_http env)) read_dir (fo_files st)
                    (searched_dirs default_file path) (hash_hex full) (cmd_network cmd) (cmd_mint cmd) (cmd_sender cmd))))) (\<lambda>_.
     fan_bind (fan_ask (fo_os env)) (\<lambda>os.
     fan_bind (\<lambda>st. case create_new (os_dir_ok os) (os_open_ok os) (os_tries os) (fo_files st) path of
           (fs, r) \<Rightarrow> (st\<lparr>fo_files := fs\<rparr>, map_err JournalFailed r)) (\<lambda>j.
     fan_bind (fan_append env j (RunCreated (hash_hex full) (cmd_network cmd) (cmd_currency cmd)
           (base58_text (fo_http env) (cmd_mint cmd)) (base58_text (fo_http env) (mi_token_program info)) (mi_decimals info)
           (length (manifest_rows full)) (total_amount_raw full) ''self_funded'')) (\<lambda>j.
     fan_pure (Inr (Some (j, full, 0))))))))"

section \<open>Preflight\<close>

definition ESTIMATED_FEE_LAMPORTS_PER_CHUNK :: nat where
  "ESTIMATED_FEE_LAMPORTS_PER_CHUNK = 10000"

text \<open>The rent, the fee, the reserve and the SOL a plan needs.\<close>

definition sol_estimate ::
  "('i, 't) pay_kit \<Rightarrow> mint_info \<Rightarrow> ata_snapshot \<Rightarrow> transaction_plan \<Rightarrow> fanout_error + nat \<times> nat \<times> nat \<times> nat" where
  "sol_estimate kit info snapshot plan =
     and_then (ok_or RentEstimateOverflow
         (checked_mul 64 (rent_exempt_minimum_lamports (token_account_len kit (mi_token_program info))) (missing_count snapshot))) (\<lambda>rent.
     and_then (ok_or FeeEstimateOverflow (checked_mul 64 ESTIMATED_FEE_LAMPORTS_PER_CHUNK (total_transactions plan))) (\<lambda>fee.
     let reserve = compute_reserve_lamports fee in
     and_then (ok_or SolEstimateOverflow
         (Option.bind (checked_add 64 rent fee) (\<lambda>s. checked_add 64 s reserve))) (\<lambda>needed.
     Inr (rent, fee, reserve, needed))))"

definition fanout_preflight ::
  "('w, 'i) fanout_env \<Rightarrow> fanout_command \<Rightarrow> mint_info \<Rightarrow> journal \<Rightarrow> transfer_manifest \<Rightarrow> nat
     \<Rightarrow> ('w, journal \<times> transaction_plan) fan" where
  "fanout_preflight env cmd info j manifest offset =
     (let rpc = \<lparr>fanout_url = cmd_rpc_url cmd\<rparr>; http = fo_http env in
      fan_bind (fan_read (\<lambda>w. fetch_ata_snapshot http (fo_chain_env env) (fo_schedule env) rpc w (cmd_sender cmd) manifest
            (mi_token_program info))) (\<lambda>snapshot.
      fan_bind (fan_pure (map_err PackingFailed (pack_chunks_from (fo_kit env) manifest snapshot SelfFunded (cmd_sender cmd)
            (cmd_sender cmd) 0 offset))) (\<lambda>plan.
      fan_bind (fan_read (\<lambda>w. token_balance http rpc w (sender_ata snapshot))) (\<lambda>balance.
      fan_bind (fan_pure (ensure (total_amount_raw manifest \<le> balance)
            (NotEnoughTokens balance (total_amount_raw manifest)))) (\<lambda>_.
      fan_bind (fan_pure (sol_estimate (fo_kit env) info snapshot plan)) (\<lambda>(rent, fee, reserve, needed).
      fan_bind (fan_read (\<lambda>w. sol_balance http rpc w (cmd_sender cmd))) (\<lambda>available.
      fan_bind (fan_pure (ensure (needed \<le> available) (NotEnoughSol available needed))) (\<lambda>_.
      fan_bind (fan_append env j (PreflightCompleted (fee_payer_mode_label SelfFunded) fee rent reserve
            (total_transactions plan) (total_amount_raw manifest))) (\<lambda>j.
      fan_pure (Inr (j, plan)))))))))))"

section \<open>Authorization and execution\<close>

text \<open>The validity of a permit, six hours in nanoseconds.\<close>

definition PERMIT_TTL :: int where
  "PERMIT_TTL = 6 * 60 * 60 * 1000000000"

definition fanout_authorize ::
  "('w, 'i) fanout_env \<Rightarrow> fanout_command \<Rightarrow> mint_info \<Rightarrow> bytes \<Rightarrow> journal \<Rightarrow> transfer_manifest \<Rightarrow> transaction_plan
     \<Rightarrow> ('w, journal \<times> batch_signing_permit) fan" where
  "fanout_authorize env cmd info genesis j manifest plan =
     fan_bind (fan_ask (fo_load_signer env)) (\<lambda>load_signer.
     fan_bind (fan_ask (fo_now env)) (\<lambda>now.
     fan_bind (fan_pure (map_err PermitFailed (authorize (fo_chain_env env) load_signer genesis manifest plan
           \<lparr>sum_account = cmd_account cmd, sum_currency = cmd_currency cmd, sum_currency_decimals = mi_decimals info,
            sum_network = cmd_network cmd, recipient_total_raw = total_amount_raw manifest,
            max_total_raw = total_amount_raw manifest\<rparr> now PERMIT_TTL))) (\<lambda>p.
     fan_bind (fan_append env j (AuthorizationGranted (base58_text (fo_http env) (cmd_sender cmd)) (total_amount_raw manifest)
           (total_transactions plan) (expires_at p))) (\<lambda>j.
     fan_pure (Inr (j, p))))))"

text \<open>The executor over the direct transport; its world carries the transport's blockhash cache.\<close>

definition with_cache :: "('w \<Rightarrow> 'a \<times> 'w) \<Rightarrow> 'w \<times> blockhash_cache \<Rightarrow> 'a \<times> ('w \<times> blockhash_cache)" where
  "with_cache f wc = (case wc of (w, cache) \<Rightarrow> case f w of (a, w') \<Rightarrow> (a, (w', cache)))"

definition fanout_executor ::
  "('w, 'i) fanout_env \<Rightarrow> fanout_command \<Rightarrow> mint_info \<Rightarrow> ('w \<times> blockhash_cache, 'i) executor_env" where
  "fanout_executor env cmd info =
     \<lparr>ex_kit = fo_kit env, ex_chain = fo_chain_env env, ex_codec = fo_codec env, ex_text = base58_text (fo_http env),
      ex_ctx = \<lparr>ctx_sender = cmd_sender cmd, ctx_mint = cmd_mint cmd, ctx_token_program = mi_token_program info,
        ctx_decimals = mi_decimals info\<rparr>,
      ex_config = \<lparr>max_in_flight = cmd_max_in_flight cmd, poll_interval_millis = 250\<rparr>,
      ex_broadcaster = direct_broadcaster (fo_http env) \<lparr>rpc_url = cmd_rpc_url cmd, direct_fee_payer = cmd_sender cmd\<rparr>,
      draw_now = with_cache (fo_now env), draw_signer = with_cache (fo_signer env), draw_io = with_cache (fo_io env)\<rparr>"

definition fanout_execute ::
  "('w, 'i) fanout_env \<Rightarrow> fanout_command \<Rightarrow> mint_info \<Rightarrow> nat \<Rightarrow> journal \<Rightarrow> batch_signing_permit \<Rightarrow> transaction_plan
     \<Rightarrow> ('w, run_summary) fan" where
  "fanout_execute env cmd info fuel j p plan st =
     (case run (fanout_executor env cmd info) fuel (chunks plan)
             \<lparr>permit = p, journal_state = (fo_files st, j), world = (fo_world st, None), in_flight = [],
              summary = \<lparr>confirmed = 0, failed = 0\<rparr>, effects = []\<rparr> of
        (ex, r) \<Rightarrow>
          let st = \<lparr>fo_world = fst (world ex), fo_files = fst (journal_state ex), fo_log = fo_log st @ effects ex\<rparr>;
              j = snd (journal_state ex) in
          case r of
            Inl OutOfFuel \<Rightarrow> (st, Inl (FanoutInterrupted OutOfFuel))
          | Inl e \<Rightarrow>
              (case fan_append env j (RunInterrupted (fo_error_text env e) 0 0 (total_transactions plan)) st of
                 (st', _) \<Rightarrow> (st', Inl (FanoutInterrupted e)))
          | Inr outcome \<Rightarrow>
              fan_bind (fan_append env j (RunCompleted (confirmed outcome) (failed outcome) 0)) (\<lambda>_.
                fan_pure (if failed outcome > 0 then Inl (FinishedWithFailures (confirmed outcome) (failed outcome))
                          else Inr outcome)) st)"

text \<open>The command from the opening of the journal on; \<open>None\<close> when a resume found every row confirmed.\<close>

definition fanout_tail ::
  "('w, 'i) fanout_env \<Rightarrow> fanout_command \<Rightarrow> nat \<Rightarrow> mint_info \<Rightarrow> bytes \<Rightarrow> transfer_manifest \<Rightarrow> ('w, run_summary option) fan" where
  "fanout_tail env cmd fuel info genesis full =
     fan_bind (case cmd_resume cmd of
         Some path \<Rightarrow> open_resumed env cmd info full path | None \<Rightarrow> open_new env cmd info full) (\<lambda>opened.
     case opened of None \<Rightarrow> fan_pure (Inr None)
      | Some (j, m, off) \<Rightarrow>
          fan_bind (fanout_preflight env cmd info j m off) (\<lambda>(j, plan).
          fan_bind (fanout_authorize env cmd info genesis j m plan) (\<lambda>(j, p).
          fan_bind (fanout_execute env cmd info fuel j p plan) (\<lambda>outcome. fan_pure (Inr (Some outcome))))))"

definition fanout_run ::
  "('w, 'i) fanout_env \<Rightarrow> fanout_command \<Rightarrow> nat \<Rightarrow> ('w, run_summary option) fan" where
  "fanout_run env cmd fuel =
     (let rpc = \<lparr>fanout_url = cmd_rpc_url cmd\<rparr>; http = fo_http env in
      fan_bind (fan_pure (fanout_checks cmd)) (\<lambda>_.
      fan_bind (fan_read (\<lambda>w. fanout_mint_info http rpc w (cmd_mint cmd))) (\<lambda>info.
      fan_bind (fan_read (genesis_hash http (fo_bs58_decode env) rpc)) (\<lambda>genesis.
      fan_bind (fan_pure (map_err ManifestFailed (parse_manifest_csv (fo_csv_records env) (pubkey_from_str http) (fo_blake3 env)
            \<lparr>contents = cmd_csv cmd, fails_at = None\<rparr>
            \<lparr>network_genesis_hash = genesis, mint = cmd_mint cmd, token_program = mi_token_program info,
             decimals = mi_decimals info\<rparr>))) (\<lambda>full.
      fanout_tail env cmd fuel info genesis full)))))"

section \<open>What the command logs\<close>

definition journaled :: "effect list \<Rightarrow> journal_event list" where
  "journaled tr = concat (map (\<lambda>e. case e of Journaled ev \<Rightarrow> [ev] | Broadcasted _ \<Rightarrow> []) tr)"

lemma journaled_simps [simp]:
  "journaled [] = []" "journaled (xs @ ys) = journaled xs @ journaled ys"
  "journaled (Journaled ev # xs) = ev # journaled xs" "journaled (Broadcasted sc # xs) = journaled xs"
  by (simp_all add: journaled_def)

text \<open>A quiet effect records no chunk and broadcasts nothing; a quiet step logs nothing else.\<close>

definition quiet_effect :: "effect \<Rightarrow> bool" where
  "quiet_effect e = (case e of Journaled ev \<Rightarrow> records_of [ev] = [] | Broadcasted _ \<Rightarrow> False)"

definition quiet :: "('w, 'a) fan \<Rightarrow> bool" where
  "quiet m \<longleftrightarrow> (\<forall>st st' r. m st = (st', r) \<longrightarrow> (\<exists>es. fo_log st' = fo_log st @ es \<and> list_all quiet_effect es))"

lemma fan_bind_cases:
  assumes "fan_bind m f st = (st', r)"
  obtains (stop) e where "m st = (st', Inl e)" "r = Inl e"
    | (go) a st1 where "m st = (st1, Inr a)" "f a st1 = (st', r)"
  using assms by (auto simp: fan_bind_def split: prod.splits sum.splits)

lemma quiet_bind: "quiet m \<Longrightarrow> (\<And>a. quiet (f a)) \<Longrightarrow> quiet (fan_bind m f)"
  unfolding quiet_def [of "fan_bind m f"]
proof (intro allI impI)
  fix st st' r
  assume m: "quiet m" and f: "\<And>a. quiet (f a)" and step: "fan_bind m f st = (st', r)"
  from step show "\<exists>es. fo_log st' = fo_log st @ es \<and> list_all quiet_effect es"
  proof (cases rule: fan_bind_cases)
    case (stop e)
    then show ?thesis
      using m unfolding quiet_def by blast
  next
    case (go a st1)
    obtain es fs where "fo_log st1 = fo_log st @ es" "list_all quiet_effect es"
        "fo_log st' = fo_log st1 @ fs" "list_all quiet_effect fs"
      using m f [of a] go unfolding quiet_def by blast
    then show ?thesis
      by (intro exI [of _ "es @ fs"]) simp
  qed
qed

lemma quiet_steps:
  "quiet (fan_pure r)" "quiet (fan_read g)" "quiet (fan_ask h)"
  by (auto simp: quiet_def fan_pure_def fan_read_def fan_ask_def split: prod.splits)

lemma quiet_files: "quiet (\<lambda>st. case g st of (fs, r) \<Rightarrow> (st\<lparr>fo_files := fs\<rparr>, h r))"
  by (auto simp: quiet_def split: prod.splits)

lemma quiet_test: "quiet (\<lambda>st. (st, g st))"
  by (simp add: quiet_def)

lemma quiet_append:
  assumes "\<And>ev. kind ev = k \<Longrightarrow> records_of [ev] = []"
  shows "quiet (fan_append env j k)"
proof -
  have "quiet (\<lambda>st. case append_event cd io now (fo_files st, j) k of
      ((fs, j'), Inl e) \<Rightarrow> (st\<lparr>fo_files := fs\<rparr>, Inl (JournalFailed e))
    | ((fs, j'), Inr event) \<Rightarrow> (st\<lparr>fo_files := fs, fo_log := fo_log st @ [Journaled event]\<rparr>, Inr j'))" for cd io now
    unfolding quiet_def quiet_effect_def
    by (auto simp del: records_of_simps(3) split: prod.splits sum.splits intro!: assms elim: append_event_kind)
  then show ?thesis
    unfolding fan_append_def by (intro quiet_bind quiet_steps)
qed

lemma quiet_confirmations: "quiet (append_confirmations env j cs)"
  by (induction env j cs rule: append_confirmations.induct)
    (auto intro!: quiet_bind quiet_append quiet_steps)

lemma quiet_open_resumed: "quiet (open_resumed env cmd info full path)"
  unfolding open_resumed_def
  by (auto split: prod.split intro!: quiet_bind quiet_steps quiet_files quiet_confirmations quiet_append)

lemma quiet_open_new: "quiet (open_new env cmd info full)"
  unfolding open_new_def
  by (auto split: option.split intro!: quiet_bind quiet_steps quiet_files quiet_append quiet_test)

lemma quiet_preflight: "quiet (fanout_preflight env cmd info j m off)"
  unfolding fanout_preflight_def Let_def
  by (auto split: prod.split intro!: quiet_bind quiet_steps quiet_append)

lemma quiet_authorize: "quiet (fanout_authorize env cmd info genesis j m plan)"
  unfolding fanout_authorize_def by (auto intro!: quiet_bind quiet_steps quiet_append)

lemma quietD:
  assumes "quiet m" and "m st = (st', r)"
  obtains es where "fo_log st' = fo_log st @ es" "list_all quiet_effect es"
  using assms unfolding quiet_def by blast

lemma quiet_records: "list_all quiet_effect es \<Longrightarrow> records_of (journaled es) = []"
proof (induction es)
  case (Cons e es)
  then show ?case
    using records_of_simps(2) [of "[ev]" "journaled es" for ev]
    by (cases e) (simp_all add: quiet_effect_def del: records_of_simps(3))
qed simp

lemma quiet_no_broadcast: "list_all quiet_effect es \<Longrightarrow> Broadcasted sc \<notin> set es"
  by (auto simp: list_all_iff quiet_effect_def)

section \<open>What the command sends\<close>

text \<open>Where a resumed run starts: the rows and the first chunk index that the resume planned.\<close>

definition resumed_at ::
  "('w, 'i) fanout_env \<Rightarrow> fanout_command \<Rightarrow> files \<Rightarrow> string \<Rightarrow> transfer_manifest \<Rightarrow> transfer_manifest \<Rightarrow> nat \<Rightarrow> bool" where
  "resumed_at env cmd fs path full m off \<longleftrightarrow>
     (\<exists>events found w w' rp. snd (load_events (fo_codec env) True fs path) = Inr events
        \<and> resume_landings (fanout_chain (fo_http env) \<lparr>fanout_url = cmd_rpc_url cmd\<rparr>) events w = (Inr found, w')
        \<and> plan_resume (signature_from_str (fo_http env)) events full (resume_landing found) = Inr rp
        \<and> m = remaining rp \<and> off = next_chunk_index rp)"

lemma open_existing_loads:
  "open_existing cd ok tr tries fs path = (fs', Inr (j, events)) \<Longrightarrow> snd (load_events cd True fs path) = Inr events"
  by (auto simp: open_existing_def load_events_def Let_def split: if_splits option.splits prod.splits sum.splits)

lemma fan_steps_Inr:
  "fan_pure r st = (st', Inr a) \<longleftrightarrow> st' = st \<and> r = Inr a"
  "fan_read g st = (st', Inr a) \<longleftrightarrow> (\<exists>w. g (fo_world st) = (Inr a, w) \<and> st' = st\<lparr>fo_world := w\<rparr>)"
  "fan_ask h st = (st', Inr b) \<longleftrightarrow> (\<exists>w. h (fo_world st) = (b, w) \<and> st' = st\<lparr>fo_world := w\<rparr>)"
  by (auto simp: fan_pure_def fan_read_def fan_ask_def split: prod.splits)

lemma fan_bind_Inr:
  "fan_bind m f st = (st', Inr a) \<longleftrightarrow> (\<exists>b st1. m st = (st1, Inr b) \<and> f b st1 = (st', Inr a))"
  by (auto simp: fan_bind_def split: prod.splits sum.splits)

lemma open_resumed_at:
  assumes "open_resumed env cmd info full path st = (st', Inr (Some (j, m, off)))"
  shows "resumed_at env cmd (fo_files st) path full m off"
  using assms unfolding resumed_at_def
  by (auto simp: open_resumed_def fan_bind_Inr fan_steps_Inr res_simps split: if_splits prod.splits
      dest!: open_existing_loads)

lemma open_new_at:
  "open_new env cmd info full st = (st', Inr opened) \<Longrightarrow> \<exists>j. opened = Some (j, full, 0)"
  by (auto simp: open_new_def fan_bind_Inr fan_steps_Inr)

lemma preflight_packs:
  assumes "fanout_preflight env cmd info j m off st = (st', Inr (j', plan))"
  obtains ata w w' where
    "fetch_ata_snapshot (fo_http env) (fo_chain_env env) (fo_schedule env) \<lparr>fanout_url = cmd_rpc_url cmd\<rparr> w (cmd_sender cmd) m
       (mi_token_program info) = (Inr ata, w')"
    "pack_chunks_from (fo_kit env) m ata SelfFunded (cmd_sender cmd) (cmd_sender cmd) 0 off = Inr plan"
  using assms
  by (auto simp: fanout_preflight_def Let_def fan_bind_Inr fan_steps_Inr res_simps split: prod.splits)

lemma authorize_chunks:
  "authorize chain ls genesis m plan s now ttl = Inr p \<Longrightarrow> pm_chunks p = chunks plan"
  by (auto simp: authorize_def Let_def res_simps)

lemma fanout_authorize_chunks:
  "fanout_authorize env cmd info genesis j m plan st = (st', Inr (j', p)) \<Longrightarrow> pm_chunks p = chunks plan"
  by (auto simp: fanout_authorize_def fan_bind_Inr fan_steps_Inr res_simps dest: authorize_chunks)

text \<open>What an execution adds to the log: the effects of a run over the approved plan, and a last record.\<close>

definition executed_log ::
  "('w, 'i) fanout_env \<Rightarrow> fanout_command \<Rightarrow> mint_info \<Rightarrow> nat \<Rightarrow> transaction_plan \<Rightarrow> effect list \<Rightarrow> bool" where
  "executed_log env cmd info fuel plan tr \<longleftrightarrow>
     (\<exists>st ex result post. effects st = [] \<and> pm_chunks (permit st) = chunks plan
        \<and> run (fanout_executor env cmd info) fuel (chunks plan) st = (ex, result)
        \<and> tr = effects ex @ post \<and> list_all quiet_effect post)"

lemma executed_logI:
  "effects st = [] \<Longrightarrow> pm_chunks (permit st) = chunks plan \<Longrightarrow>
   run (fanout_executor env cmd info) fuel (chunks plan) st = (ex, result) \<Longrightarrow> list_all quiet_effect es \<Longrightarrow>
   executed_log env cmd info fuel plan (effects ex @ es)"
  unfolding executed_log_def by blast

lemma fanout_execute_log:
  assumes "fanout_execute env cmd info fuel j p plan st = (st', r)" and "pm_chunks p = chunks plan"
  obtains tr where "fo_log st' = fo_log st @ tr" "executed_log env cmd info fuel plan tr"
proof -
  let ?start = "\<lparr>permit = p, journal_state = (fo_files st, j), world = (fo_world st, None), in_flight = [],
              summary = \<lparr>confirmed = 0, failed = 0\<rparr>, effects = []\<rparr> :: ('a \<times> blockhash_cache) executor"
  obtain ex result where run: "run (fanout_executor env cmd info) fuel (chunks plan) ?start = (ex, result)"
    by fastforce
  let ?st = "\<lparr>fo_world = fst (world ex), fo_files = fst (journal_state ex), fo_log = fo_log st @ effects ex\<rparr>"
  have append: "quiet (fan_append env j k)" if "k = RunInterrupted a b c d \<or> k = RunCompleted x y z"
    for j k a b c d x y z
    using that by (auto intro!: quiet_append)
  have added: "\<exists>post. fo_log st' = fo_log st @ effects ex @ post \<and> list_all quiet_effect post"
    if "quiet m" "m ?st = (st', r')" for m :: "('a, 'c) fan" and r'
    using quietD [OF that] by auto
  have "\<exists>post. fo_log st' = fo_log st @ effects ex @ post \<and> list_all quiet_effect post"
  proof (cases result)
    case (Inr outcome)
    let ?m = "fan_bind (fan_append env (snd (journal_state ex)) (RunCompleted (confirmed outcome) (failed outcome) 0)) (\<lambda>_.
       fan_pure (if failed outcome > 0 then Inl (FinishedWithFailures (confirmed outcome) (failed outcome)) else Inr outcome))"
    have "?m ?st = (st', r)"
      using assms(1) by (simp add: fanout_execute_def run Inr)
    moreover have "quiet ?m"
      by (intro quiet_bind quiet_steps append) blast
    ultimately show ?thesis
      by (rule added [rotated])
  next
    case (Inl e)
    show ?thesis
    proof (cases "e = OutOfFuel")
      case True
      then show ?thesis
        using assms(1) by (auto simp: fanout_execute_def run Inl)
    next
      case False
      let ?m = "fan_append env (snd (journal_state ex)) (RunInterrupted (fo_error_text env e) 0 0 (total_transactions plan))"
      obtain r' where "?m ?st = (st', r')"
        using assms(1) False by (cases e) (auto simp: fanout_execute_def run Inl split: prod.splits)
      moreover have "quiet ?m"
        by (rule append) blast
      ultimately show ?thesis
        by (rule added [rotated])
    qed
  qed
  then obtain post where post: "fo_log st' = fo_log st @ effects ex @ post" "list_all quiet_effect post"
    by blast
  have "executed_log env cmd info fuel plan (effects ex @ post)"
    by (rule executed_logI [OF _ _ run post(2)]) (simp_all add: assms(2))
  then show ?thesis
    using that [of "effects ex @ post"] post(1) by simp
qed

text \<open>
  A whole run: quiet records only, or after them the effects of one execution of a plan packed from the
  parsed manifest or from what a resume left of it.
\<close>

definition sends_plan ::
  "('w, 'i) fanout_env \<Rightarrow> fanout_command \<Rightarrow> files \<Rightarrow> nat \<Rightarrow> effect list \<Rightarrow> bool" where
  "sends_plan env cmd fs fuel tr \<longleftrightarrow>
     (\<exists>info full m off ata plan pre post. tr = pre @ post \<and> list_all quiet_effect pre \<and> executed_log env cmd info fuel plan post
        \<and> (case cmd_resume cmd of Some path \<Rightarrow> resumed_at env cmd fs path full m off | None \<Rightarrow> m = full \<and> off = 0)
        \<and> manifest_wf full
        \<and> pack_chunks_from (fo_kit env) m ata SelfFunded (cmd_sender cmd) (cmd_sender cmd) 0 off = Inr plan)"

lemma sends_planI:
  "list_all quiet_effect es \<Longrightarrow> executed_log env cmd info fuel plan tr \<Longrightarrow>
   (case cmd_resume cmd of Some path \<Rightarrow> resumed_at env cmd fs path full m off | None \<Rightarrow> m = full \<and> off = 0) \<Longrightarrow>
   manifest_wf full \<Longrightarrow>
   pack_chunks_from (fo_kit env) m ata SelfFunded (cmd_sender cmd) (cmd_sender cmd) 0 off = Inr plan \<Longrightarrow>
   sends_plan env cmd fs fuel (es @ tr)"
  unfolding sends_plan_def by blast

lemma quiet_open:
  "quiet (case cmd_resume cmd of Some path \<Rightarrow> open_resumed env cmd info full path | None \<Rightarrow> open_new env cmd info full)"
  by (simp split: option.split add: quiet_open_resumed quiet_open_new)

text \<open>The steps after the journal is open.\<close>

lemma fanout_rest_log:
  assumes "fan_bind (fanout_preflight env cmd info j m off) (\<lambda>(j, plan).
          fan_bind (fanout_authorize env cmd info genesis j m plan) (\<lambda>(j, p).
          fan_bind (fanout_execute env cmd info fuel j p plan) (\<lambda>outcome.
          fan_pure (Inr (Some outcome))))) st = (st', r)"
  obtains (quiet) es where "fo_log st' = fo_log st @ es" "list_all quiet_effect es"
    | (executed) pre post plan ata where "fo_log st' = fo_log st @ pre @ post" "list_all quiet_effect pre"
      "executed_log env cmd info fuel plan post"
      "pack_chunks_from (fo_kit env) m ata SelfFunded (cmd_sender cmd) (cmd_sender cmd) 0 off = Inr plan"
  using assms
proof (cases rule: fan_bind_cases)
  case (stop e)
  then show ?thesis
    using quietD [OF quiet_preflight stop(1)] quiet by blast
next
  case (go jp st1)
  obtain j1 plan where jp: "jp = (j1, plan)"
    by (cases jp)
  obtain es1 where es1: "fo_log st1 = fo_log st @ es1" "list_all quiet_effect es1"
    using quietD [OF quiet_preflight go(1)] by blast
  obtain ata where ata: "pack_chunks_from (fo_kit env) m ata SelfFunded (cmd_sender cmd) (cmd_sender cmd) 0 off = Inr plan"
    using preflight_packs [OF go(1) [unfolded jp]] by blast
  from go(2) have "fan_bind (fanout_authorize env cmd info genesis j1 m plan) (\<lambda>(j, p).
          fan_bind (fanout_execute env cmd info fuel j p plan) (\<lambda>outcome. fan_pure (Inr (Some outcome)))) st1 = (st', r)"
    by (simp add: jp)
  then show ?thesis
  proof (cases rule: fan_bind_cases)
    case (stop e)
    obtain es2 where "fo_log st' = fo_log st1 @ es2" "list_all quiet_effect es2"
      using quietD [OF quiet_authorize stop(1)] by blast
    then show ?thesis
      using es1 quiet [of "es1 @ es2"] by simp
  next
    case (go jp2 st2)
    obtain j2 p where jp2: "jp2 = (j2, p)"
      by (cases jp2)
    obtain es2 where es2: "fo_log st2 = fo_log st1 @ es2" "list_all quiet_effect es2"
      using quietD [OF quiet_authorize go(1)] by blast
    obtain r' where "fanout_execute env cmd info fuel j2 p plan st2 = (st', r')"
      using go(2) by (auto simp: jp2 fan_pure_def elim!: fan_bind_cases)
    then obtain tr where "fo_log st' = fo_log st2 @ tr" "executed_log env cmd info fuel plan tr"
      using fanout_execute_log fanout_authorize_chunks [OF go(1) [unfolded jp2]] by blast
    then show ?thesis
      using es1 es2 ata executed [of "es1 @ es2" tr plan ata] by simp
  qed
qed

definition silent :: "('w, 'a) fan \<Rightarrow> bool" where
  "silent m \<longleftrightarrow> (\<forall>st st' r. m st = (st', r) \<longrightarrow> fo_log st' = fo_log st \<and> fo_files st' = fo_files st)"

lemma silent_steps: "silent (fan_pure r)" "silent (fan_read g)"
  by (auto simp: silent_def fan_pure_def fan_read_def split: prod.splits)

lemma silent_step:
  assumes "silent m" and "fan_bind m f st = (st', r)"
  shows "fo_log st' = fo_log st \<or>
    (\<exists>a st1. m st = (st1, Inr a) \<and> fo_log st1 = fo_log st \<and> fo_files st1 = fo_files st \<and> f a st1 = (st', r))"
  using assms(2)
proof (cases rule: fan_bind_cases)
  case stop
  then show ?thesis
    using assms(1) unfolding silent_def by blast
next
  case go
  then show ?thesis
    using assms(1) unfolding silent_def by blast
qed

lemma fanout_tail_log:
  assumes "fanout_tail env cmd fuel info genesis full st = (st', r)" and "fo_log st = []" and wf: "manifest_wf full"
  shows "list_all quiet_effect (fo_log st') \<or> sends_plan env cmd (fo_files st) fuel (fo_log st')"
  using assms(1) unfolding fanout_tail_def
proof (cases rule: fan_bind_cases)
  case (stop e)
  then show ?thesis
    using quietD [OF quiet_open stop(1)] assms(2) by (metis append_Nil)
next
  case (go opened st2)
  obtain es where es: "fo_log st2 = es" "list_all quiet_effect es"
    using quietD [OF quiet_open go(1)] assms(2) by auto
  show ?thesis
  proof (cases opened)
    case None
    then show ?thesis
      using go(2) es by (simp add: fan_pure_def)
  next
    case (Some jmo)
    obtain j m off where jmo: "jmo = (j, m, off)"
      by (cases jmo)
    have at: "case cmd_resume cmd of Some path \<Rightarrow> resumed_at env cmd (fo_files st) path full m off | None \<Rightarrow> m = full \<and> off = 0"
      using go(1) open_resumed_at open_new_at unfolding Some jmo by (fastforce split: option.splits)
    from go(2) have "fan_bind (fanout_preflight env cmd info j m off) (\<lambda>(j, plan).
      fan_bind (fanout_authorize env cmd info genesis j m plan) (\<lambda>(j, p).
      fan_bind (fanout_execute env cmd info fuel j p plan) (\<lambda>outcome. fan_pure (Inr (Some outcome))))) st2 = (st', r)"
      by (simp add: Some jmo)
    then show ?thesis
    proof (cases rule: fanout_rest_log)
      case (quiet fs)
      then show ?thesis
        using es by simp
    next
      case (executed pre post plan ata)
      have "sends_plan env cmd (fo_files st) fuel ((es @ pre) @ post)"
        by (rule sends_planI [OF _ executed(3) at wf executed(4)]) (use executed(2) es(2) in simp)
      then show ?thesis
        using executed(1) es(1) by simp
    qed
  qed
qed

lemma fanout_run_log:
  assumes "fanout_run env cmd fuel st = (st', r)" and "fo_log st = []"
  shows "list_all quiet_effect (fo_log st') \<or> sends_plan env cmd (fo_files st) fuel (fo_log st')"
proof -
  let ?rpc = "\<lparr>fanout_url = cmd_rpc_url cmd\<rparr>" and ?http = "fo_http env"
  let ?parse = "\<lambda>genesis info. map_err ManifestFailed (parse_manifest_csv (fo_csv_records env) (pubkey_from_str ?http) (fo_blake3 env)
     \<lparr>contents = cmd_csv cmd, fails_at = None\<rparr> \<lparr>network_genesis_hash = genesis, mint = cmd_mint cmd,
      token_program = mi_token_program info, decimals = mi_decimals info\<rparr>)"
  have run: "fan_bind (fan_pure (fanout_checks cmd)) (\<lambda>_.
      fan_bind (fan_read (\<lambda>w. fanout_mint_info ?http ?rpc w (cmd_mint cmd))) (\<lambda>info.
      fan_bind (fan_read (genesis_hash ?http (fo_bs58_decode env) ?rpc)) (\<lambda>genesis.
      fan_bind (fan_pure (?parse genesis info)) (fanout_tail env cmd fuel info genesis)))) st = (st', r)"
    using assms(1) unfolding fanout_run_def Let_def .
  show ?thesis
  proof (cases "fo_log st' = []")
    case False
    obtain st1 where st1: "fo_log st1 = []" "fo_files st1 = fo_files st"
      "fan_bind (fan_read (\<lambda>w. fanout_mint_info ?http ?rpc w (cmd_mint cmd))) (\<lambda>info.
       fan_bind (fan_read (genesis_hash ?http (fo_bs58_decode env) ?rpc)) (\<lambda>genesis.
       fan_bind (fan_pure (?parse genesis info)) (fanout_tail env cmd fuel info genesis))) st1 = (st', r)"
      using silent_step [OF silent_steps(1) run] assms(2) False by auto
    obtain info st2 where st2: "fo_log st2 = []" "fo_files st2 = fo_files st"
      "fan_bind (fan_read (genesis_hash ?http (fo_bs58_decode env) ?rpc)) (\<lambda>genesis.
       fan_bind (fan_pure (?parse genesis info)) (fanout_tail env cmd fuel info genesis)) st2 = (st', r)"
      using silent_step [OF silent_steps(2) st1(3)] st1(1,2) False by auto
    obtain genesis st3 where st3: "fo_log st3 = []" "fo_files st3 = fo_files st"
      "fan_bind (fan_pure (?parse genesis info)) (fanout_tail env cmd fuel info genesis) st3 = (st', r)"
      using silent_step [OF silent_steps(2) st2(3)] st2(1,2) False by auto
    obtain full st4 where st4: "fo_log st4 = []" "fo_files st4 = fo_files st" "?parse genesis info = Inr full"
      "fanout_tail env cmd fuel info genesis full st4 = (st', r)"
      using silent_step [OF silent_steps(1) st3(3)] st3(1,2) False by (auto simp: fan_steps_Inr)
    have "manifest_wf full"
      using st4(3) parse_manifest_wf by (auto simp: res_simps)
    from fanout_tail_log [OF st4(4,1) this] show ?thesis
      by (simp add: st4(2))
  qed simp
qed

section \<open>Fresh chunk indices\<close>

lemma executor_records:
  assumes "\<forall>ev. Journaled ev \<in> set tr \<longrightarrow> executor_kind (kind ev)"
  shows "map fst (records_of (journaled tr)) = signed_indices_of tr"
  using assms
proof (induction tr rule: rev_induct)
  case (snoc e tr)
  then have ih: "map fst (records_of (journaled tr)) = signed_indices_of tr"
    by simp
  show ?case
  proof (cases e)
    case (Journaled ev)
    then have "executor_kind (kind ev)"
      using snoc.prems by simp
    then show ?thesis
      using ih by (cases "kind ev") (simp_all add: Journaled executor_kind_def)
  qed (simp add: ih)
qed simp

lemma executed_log_sound:
  assumes "executed_log env cmd info fuel plan tr"
  shows "\<exists>k. map fst (records_of (journaled tr)) = take k (map chunk_index (chunks plan))"
    and "Broadcasted sc \<in> set tr \<Longrightarrow> approved_chunk (chunks plan) sc"
proof -
  obtain st ex result es where st: "effects st = []" "pm_chunks (permit st) = chunks plan"
      and run: "run (fanout_executor env cmd info) fuel (chunks plan) st = (ex, result)"
      and tr: "tr = effects ex @ es" "list_all quiet_effect es"
    using assms unfolding executed_log_def by blast
  have "sends_approved (chunks plan) st"
    using st by (simp add: sends_approved_def)
  then have approved: "sends_approved (chunks plan) ex"
    using run by (rule approved.run_kept)
  have "\<exists>k. signed_indices_of (effects ex) = take k (map chunk_index (chunks plan))"
    using run_outcome(1) [OF st(1) run] by (simp add: sound_effects_def)
  then show "\<exists>k. map fst (records_of (journaled tr)) = take k (map chunk_index (chunks plan))"
    using executor_records [of "effects ex"] approved
    by (simp add: tr quiet_records sends_approved_def)
  show "Broadcasted sc \<in> set tr \<Longrightarrow> approved_chunk (chunks plan) sc"
    using approved quiet_no_broadcast [OF tr(2)] by (auto simp: tr(1) sends_approved_def)
qed

text \<open>A crash cuts the log anywhere: the indices recorded before it are still the first of the plan.\<close>

lemma records_prefix:
  assumes "map fst (records_of (journaled tr)) = take k xs"
  shows "\<exists>k. map fst (records_of (journaled (take n tr))) = take k xs"
proof -
  have "map fst (records_of (journaled tr))
    = map fst (records_of (journaled (take n tr))) @ map fst (records_of (journaled (drop n tr)))"
    using journaled_simps(2) [of "take n tr" "drop n tr"] by simp
  then show ?thesis
    using assms by (metis append_eq_conv_conj take_take)
qed

lemma sends_plan_indices:
  assumes "sends_plan env cmd fs fuel tr"
  obtains full m off where "manifest_wf full"
    "case cmd_resume cmd of Some path \<Rightarrow> resumed_at env cmd fs path full m off | None \<Rightarrow> m = full \<and> off = 0"
    "\<And>n. \<exists>c. map fst (records_of (journaled (take n tr))) = [off..<off + c]"
    "\<And>sc r. Broadcasted sc \<in> set tr \<Longrightarrow> r \<in> set (sc_row_numbers sc) \<Longrightarrow> \<exists>row\<in>set (manifest_rows m). row_number row = r"
proof -
  obtain info full m off ata plan pre body where tr: "tr = pre @ body" "list_all quiet_effect pre"
      and body: "executed_log env cmd info fuel plan body"
      and at: "case cmd_resume cmd of Some path \<Rightarrow> resumed_at env cmd fs path full m off | None \<Rightarrow> m = full \<and> off = 0"
      and wf: "manifest_wf full"
      and pack: "pack_chunks_from (fo_kit env) m ata SelfFunded (cmd_sender cmd) (cmd_sender cmd) 0 off = Inr plan"
    using assms unfolding sends_plan_def by blast
  have "\<exists>c. map fst (records_of (journaled (take n tr))) = [off..<off + c]" for n
  proof -
    obtain k where "map fst (records_of (journaled tr)) = take k [off..<off + length (chunks plan)]"
      using executed_log_sound(1) [OF body] by (auto simp: tr quiet_records plan_indices [OF pack])
    from records_prefix [OF this] obtain k' where
      "map fst (records_of (journaled (take n tr))) = take k' [off..<off + length (chunks plan)]" ..
    then show ?thesis
      by (intro exI [of _ "min k' (length (chunks plan))"]) (simp add: take_upt min_def)
  qed
  moreover have "\<exists>row\<in>set (manifest_rows m). row_number row = r"
    if sc: "Broadcasted sc \<in> set tr" and r: "r \<in> set (sc_row_numbers sc)" for sc r
  proof -
    have "Broadcasted sc \<in> set body"
      using sc quiet_no_broadcast [OF tr(2)] by (auto simp: tr(1))
    then show ?thesis
      using approved_row_planned [OF pack _ r] executed_log_sound(2) [OF body] by blast
  qed
  ultimately show ?thesis
    using that at wf by blast
qed

text \<open>No index is used twice, whatever the run does and wherever it stops.\<close>

lemma resumed_indices_fresh:
  assumes "resumed_at env cmd fs path full m off" and "snd (load_events (fo_codec env) True fs path) = Inr events"
  shows "\<forall>(i, rows)\<in>set (records_of events). i < off"
  using assms plan_resume_Inr(6) unfolding resumed_at_def by fastforce

lemma fanout_run_recorded_once:
  assumes "fanout_run env cmd fuel st = (st', r)" and "fo_log st = []"
    and "case cmd_resume cmd of Some path \<Rightarrow> snd (load_events (fo_codec env) True (fo_files st) path) = Inr events
         | None \<Rightarrow> events = []"
    and "recorded_once events"
  shows "recorded_once (events @ journaled (take n (fo_log st')))"
  using fanout_run_log [OF assms(1,2)]
proof
  assume "list_all quiet_effect (fo_log st')"
  then have "list_all quiet_effect (take n (fo_log st'))"
    by (auto simp: list_all_iff dest: in_set_takeD)
  then show ?thesis
    using assms(4) by (simp add: recorded_once_def quiet_records)
next
  assume "sends_plan env cmd (fo_files st) fuel (fo_log st')"
  then obtain full m off where
      at: "case cmd_resume cmd of Some path \<Rightarrow> resumed_at env cmd (fo_files st) path full m off | None \<Rightarrow> m = full \<and> off = 0"
    and "\<exists>c. map fst (records_of (journaled (take n (fo_log st')))) = [off..<off + c]"
    by (rule sends_plan_indices) blast
  then obtain c where c: "map fst (records_of (journaled (take n (fo_log st')))) = [off..<off + c]"
    by blast
  have "\<forall>(i, rows)\<in>set (records_of events). i < off"
    using at assms(3) resumed_indices_fresh by (fastforce split: option.splits)
  then have "set (map fst (records_of events)) \<inter> set [off..<off + c] = {}"
    by fastforce
  then show ?thesis
    using assms(4) unfolding recorded_once_def records_of_simps map_append c by simp
qed

end
