(* ===== verification/Fanout_History.thy ===== *)
theory Fanout_History
  imports Fanout_Command
begin

text \<open>
  A payout over any number of runs of \<open>pay fanout\<close>: the first one, and every resume after it, each of
  which may stop with an error or be cut short anywhere. The theory follows the journal through such a
  history, and plays one in full: a first run signs and broadcasts the only chunk and is cut short, the
  transaction expires, and a second run resumes from the journal and pays the row again.
\<close>

section \<open>Histories\<close>

text \<open>
  The events a journal holds. A run is cut at any point of its log: what was acknowledged before the
  cut is in the journal.
\<close>

inductive fanout_history :: "('w, 'i) fanout_env \<Rightarrow> journal_event list \<Rightarrow> bool" for env where
  first_run:
    "fanout_run env cmd fuel st = (st', r) \<Longrightarrow> fo_log st = [] \<Longrightarrow> cmd_resume cmd = None \<Longrightarrow>
     fanout_history env (journaled (take n (fo_log st')))"
| resumed_run:
    "fanout_history env events \<Longrightarrow> fanout_run env cmd fuel st = (st', r) \<Longrightarrow> fo_log st = [] \<Longrightarrow>
     cmd_resume cmd = Some path \<Longrightarrow> snd (load_events (fo_codec env) True (fo_files st) path) = Inr events \<Longrightarrow>
     fanout_history env (events @ journaled (take n (fo_log st')))"

lemma fanout_history_recorded_once: "fanout_history env events \<Longrightarrow> recorded_once events"
proof (induction rule: fanout_history.induct)
  case (first_run cmd fuel st st' r n)
  then show ?case
    using fanout_run_recorded_once [OF first_run(1,2), of "[]" n] by (simp add: recorded_once_def)
next
  case (resumed_run events cmd fuel st st' r path n)
  then show ?case
    using fanout_run_recorded_once [OF resumed_run(2,3), of events n] by simp
qed

text \<open>What a resumed run broadcasts was left by the plan it made of the journal.\<close>

lemma fanout_run_unpaid:
  assumes "fanout_run env cmd fuel st = (st', r)" and "fo_log st = []" and "cmd_resume cmd = Some path"
    and "snd (load_events (fo_codec env) True (fo_files st) path) = Inr events" and "recorded_once events"
    and "\<And>w. \<exists>fork. trusted_cluster ledger fork (fanout_chain (fo_http env) \<lparr>fanout_url = cmd_rpc_url cmd\<rparr>)
       (signed_payouts events) w"
    and "Broadcasted sc \<in> set (fo_log st')" and "i \<in> set (sc_row_numbers sc)"
    and "e \<in> set events" and "kind e = ChunkSigned k rows sig enc bh lv" and "i \<in> set rows" and "b \<in> ledger"
  shows "(sig, True) \<notin> set (executed b)"
proof -
  have "sends_plan env cmd (fo_files st) fuel (fo_log st')"
    using fanout_run_log [OF assms(1,2)] assms(7) quiet_no_broadcast by blast
  then obtain full m off where at: "resumed_at env cmd (fo_files st) path full m off"
      and rows: "\<And>sc r. Broadcasted sc \<in> set (fo_log st') \<Longrightarrow> r \<in> set (sc_row_numbers sc) \<Longrightarrow>
        \<exists>row\<in>set (manifest_rows m). row_number row = r"
    by (rule sends_plan_indices) (use assms(3) in simp)
  obtain found w w' rp where
      found: "resume_landings (fanout_chain (fo_http env) \<lparr>fanout_url = cmd_rpc_url cmd\<rparr>) events w = (Inr found, w')"
    and rp: "plan_resume (signature_from_str (fo_http env)) events full (resume_landing found) = Inr rp" "m = remaining rp"
    using at assms(4) unfolding resumed_at_def by auto
  obtain row where row: "row \<in> set (manifest_rows (remaining rp))" "row_number row = i"
    using rows [OF assms(7,8)] rp(2) by blast
  obtain fork where "trusted_cluster ledger fork (fanout_chain (fo_http env) \<lparr>fanout_url = cmd_rpc_url cmd\<rparr>)
       (signed_payouts events) w"
    using assms(6) by blast
  from resume_row_unpaid [OF assms(5) this found rp(1) row(1) assms(9,10) _ assms(12)] show ?thesis
    using assms(11) row(2) by simp
qed

section \<open>A payout in two runs\<close>

text \<open>
  The node answers by the number of the call: the first run makes calls 0 to 7, the second one 20 to 29.
\<close>

definition node_reply :: "nat \<Rightarrow> json" where
  "node_reply w =
     (if w \<in> {0, 20} then JObject [(''value'', JObject [(''owner'', JString ''prog''), (''data'', JObject [(''parsed'',
          JObject [(''info'', JObject [(''decimals'', JNumber 0)])])])])]
      else if w \<in> {1, 21} then JString ''genesis''
      else if w = 22 then JObject [(''absoluteSlot'', JNumber 20), (''blockHeight'', JNumber 11)]
      else if w = 23 then JObject [(''context'', JObject [(''slot'', JNumber 21)]), (''value'', JArray [JNull])]
      else if w \<in> {2, 24} then JObject [(''value'', JArray [JBool True])]
      else if w \<in> {3, 25} then JObject [(''value'', JBool True)]
      else if w \<in> {4, 26} then JObject [(''value'', JObject [(''amount'', JString ''9'')])]
      else if w \<in> {5, 27} then JObject [(''value'', JNumber 100000000)]
      else if w = 6 then JObject [(''value'', JObject [(''blockhash'', JString ''one''), (''lastValidBlockHeight'', JNumber 10)])]
      else if w = 28 then JObject [(''value'', JObject [(''blockhash'', JString ''two''), (''lastValidBlockHeight'', JNumber 50)])]
      else JString (if w < 20 then ''sent'' else ''resent''))"

definition node_http :: "nat http_client" where
  "node_http = \<lparr>post = (\<lambda>w url auth body. (Inr (200, Inr (JObject [(''result'', node_reply w)])), w + 1)),
     instant_now = (\<lambda>w. (0, w)), hash_from_str = (\<lambda>s. Some (if s = ''one'' then [77] else [78])),
     pubkey_from_str = (\<lambda>s. Some (if s = ''prog'' then [103] else [1])), signature_from_str = (\<lambda>s. Some (if s = ''sent'' then [42] else [43])),
     base58_text = (\<lambda>bs. if bs = [42] then ''old'' else if bs = [43] then ''new'' else ''key''),
     json_text = (\<lambda>_. ''json''), status_code_text = (\<lambda>_. ''200'')\<rparr>"

definition payout_manifest :: transfer_manifest where
  "payout_manifest = \<lparr>plan_context = \<lparr>network_genesis_hash = replicate 32 7, mint = [8], token_program = [103], decimals = 0\<rparr>,
     manifest_rows = [\<lparr>row_number = 2, recipient = [1], amount_raw = 5\<rparr>], total_amount_raw = 5,
     manifest_hash = [171, 205, 1, 2]\<rparr>"

definition payout_tx :: "string \<Rightarrow> bytes \<Rightarrow> versioned_transaction" where
  "payout_tx memo_text blockhash =
     \<lparr>signatures = [[]],
      account_keys = [[9], [101], [103], [105], [9, 103, 8, 102], [8], [1, 103, 8, 102]],
      recent_blockhash = blockhash,
      instructions =
        [\<lparr>program_id_index = 1, accounts = [], data = 3 # to_le_bytes 8 0\<rparr>,
         \<lparr>program_id_index = 1, accounts = [], data = 2 # to_le_bytes 4 11000\<rparr>,
         \<lparr>program_id_index = 2, accounts = [4, 5, 6, 0], data = 12 # to_le_bytes 8 5 @ [0]\<rparr>,
         \<lparr>program_id_index = 3, accounts = [], data = bytes_of_string memo_text\<rparr>]\<rparr>"

definition payout_memo :: "nat \<Rightarrow> string" where
  "payout_memo i = (if i = 0 then ''pay-push:v1:abcd0102:0'' else ''pay-push:v1:abcd0102:1'')"

definition payout_kit :: "(unit, versioned_transaction) pay_kit" where
  "payout_kit = \<lparr>MAX_SPLITS = 8, SOLANA_MAX_COMPUTE_UNIT_LIMIT = 1400000, TOKEN_2022_PROGRAM = [104],
     validate_compute_budget = (\<lambda>_ _. Inr ()), unit_price_instruction = (\<lambda>_. ()), unit_limit_instruction = (\<lambda>_. ()),
     build_spl_transfer_batch_instructions = (\<lambda>_ _ _ _ _ _. Inr []),
     build_unsigned_unchecked = (\<lambda>_ _ blockhash. Inr (payout_tx [] blockhash)),
     build_unsigned = (\<lambda>_ _ blockhash. Inr (payout_tx (payout_memo (if blockhash = [77] then 0 else 1)) blockhash)),
     static_account_keys = (\<lambda>_. []), check_transaction_size = (\<lambda>_. Inr 100)\<rparr>"

definition payout_signer :: "bytes \<Rightarrow> signer" where
  "payout_signer sig = \<lparr>sign_slot = (\<lambda>tx. Inr (tx\<lparr>signatures := [sig]\<rparr>)), encode_tx = (\<lambda>_. Inr ''tx'')\<rparr>"

text \<open>The journal of the first run.\<close>

definition signed_old :: journal_event where
  "signed_old = \<lparr>sequence = 4, timestamp = 1000, kind = ChunkSigned 0 [2] ''old'' ''tx'' ''key'' 10\<rparr>"

definition first_journal :: "journal_event list" where
  "first_journal =
     [\<lparr>sequence = 1, timestamp = 1000,
       kind = RunCreated ''abcd0102'' ''devnet'' ''USDC'' ''key'' ''key'' 0 1 5 ''self_funded''\<rparr>,
      \<lparr>sequence = 2, timestamp = 1000, kind = PreflightCompleted ''self_funded'' 10000 0 (compute_reserve_lamports 10000) 1 5\<rparr>,
      \<lparr>sequence = 3, timestamp = 1000, kind = AuthorizationGranted ''key'' 5 1 (1000 + PERMIT_TTL)\<rparr>,
      signed_old,
      \<lparr>sequence = 5, timestamp = 1000, kind = ChunkBroadcast 0 ''old''\<rparr>]"

definition payout_env :: "(nat, unit) fanout_env" where
  "payout_env = \<lparr>fo_http = node_http, fo_kit = payout_kit, fo_chain_env = sample_env,
     fo_codec = \<lparr>to_json = (\<lambda>e. Some (show_nat (sequence e))),
       from_json = (\<lambda>line. find (\<lambda>e. show_nat (sequence e) = line) first_journal)\<rparr>,
     fo_bs58_decode = (\<lambda>_. Some (replicate 32 7)),
     fo_csv_records = (\<lambda>_. [Inr [''recipient'', ''amount''], Inr [''1'', ''5'']]),
     fo_blake3 = (\<lambda>_. [171, 205, 1, 2]), fo_schedule = rev, fo_error_text = (\<lambda>_. ''stopped''),
     fo_default_path = (\<lambda>w prefix_text. (''default.jsonl'', w)), fo_read_dir = (\<lambda>w. (\<lambda>_. None, w)),
     fo_os = (\<lambda>w. (\<lparr>os_dir_ok = True, os_open_ok = True, os_truncate_ok = True, os_tries = (\<lambda>_. LockOk)\<rparr>, w)),
     fo_io = (\<lambda>w. (WriteDone, w)), fo_now = (\<lambda>w. (1000, w)),
     fo_signer = (\<lambda>w. (payout_signer (if w < 20 then [42] else [43]), w)),
     fo_load_signer = (\<lambda>w. (\<lambda>_. Inr [9], w))\<rparr>"

definition payout_command :: "string option \<Rightarrow> fanout_command" where
  "payout_command resume = \<lparr>cmd_csv = ''csv'', cmd_network = ''devnet'', cmd_rpc_url = ''rpc'', cmd_keypair = False,
     cmd_max_in_flight = 1, cmd_journal = Some ''run.jsonl'', cmd_resume = resume, cmd_new_run = True, cmd_currency = ''USDC'',
     cmd_mint = [8], cmd_account = ''default'', cmd_sender = [9]\<rparr>"

subsection \<open>Reads\<close>

abbreviation payout_rpc :: fanout_rpc where
  "payout_rpc \<equiv> \<lparr>fanout_url = ''rpc''\<rparr>"

abbreviation payout_info :: mint_info where
  "payout_info \<equiv> \<lparr>mi_token_program = [103], mi_decimals = 0\<rparr>"

lemmas node_steps = call_then_def fanout_call_def node_http_def node_reply_def json_get_def json_as_str_def
  json_as_u64_def json_as_array_def json_str_at_def json_u64_at_def

lemma payout_mint:
  "w \<in> {0, 20} \<Longrightarrow> fanout_mint_info node_http payout_rpc w [8] = (Inr payout_info, w + 1)"
  by (auto simp: fanout_mint_info_def node_steps non_null_def try_from_def)

lemma payout_genesis:
  "w \<in> {1, 21} \<Longrightarrow> genesis_hash node_http (\<lambda>_. Some (replicate 32 7)) payout_rpc w = (Inr (replicate 32 7), w + 1)"
  by (auto simp: genesis_hash_def node_steps)

definition payout_ata :: ata_snapshot where
  "payout_ata = \<lparr>sender_ata = [9, 103, 8, 102], sender_ata_exists = True,
     destinations = [\<lparr>dest_recipient = [1], dest_ata = [1, 103, 8, 102], dest_exists = True\<rparr>]\<rparr>"

lemma payout_snapshot:
  "w \<in> {2, 24} \<Longrightarrow> fetch_ata_snapshot node_http sample_env rev payout_rpc w [9] payout_manifest [103] = (Inr payout_ata, w + 2)"
  by (auto simp: fetch_ata_snapshot_def Let_def indexed_destinations_def chunks_of.simps [of 100] fetch_batch_def
      account_exists_def node_steps payout_manifest_def payout_ata_def associated_token_address_def sample_env_def)

lemma payout_balances:
  "w \<in> {4, 26} \<Longrightarrow> token_balance node_http payout_rpc w [9, 103, 8, 102] = (Inr 9, w + 1)"
  "w \<in> {5, 27} \<Longrightarrow> sol_balance node_http payout_rpc w [9] = (Inr 100000000, w + 1)"
proof -
  have "list_all is_ascii_digit ''9''" "digits_value ''9'' = 9"
    by code_simp+
  then have "parse_u64 ''9'' = Some 9"
    by (simp add: parse_u64_digits try_from_def)
  then show "w \<in> {4, 26} \<Longrightarrow> token_balance node_http payout_rpc w [9, 103, 8, 102] = (Inr 9, w + 1)"
    by (auto simp: token_balance_def node_steps)
  show "w \<in> {5, 27} \<Longrightarrow> sol_balance node_http payout_rpc w [9] = (Inr 100000000, w + 1)"
    by (auto simp: sol_balance_def node_steps)
qed

lemma payout_parse:
  "parse_manifest_csv (fo_csv_records payout_env) (pubkey_from_str node_http) (fo_blake3 payout_env)
     \<lparr>contents = ''csv'', fails_at = None\<rparr> (plan_context payout_manifest) = Inr payout_manifest"
proof -
  have digits: "is_ascii_digit (CHR ''1'')" "is_ascii_digit (CHR ''5'')" "digits_value ''5'' = 5"
    by code_simp+
  then have trims: "trim ''1'' = ''1''" "trim ''5'' = ''5''"
    by (simp_all add: trim_id)
  have amount: "parse_token_amount ''5'' 0 = Inr 5"
    unfolding parse_token_amount_iff
    by (intro conjI exI [of _ "''5''"] exI [of _ "[]"]) (simp_all add: digits trims)
  have bom: "strip_bom ''recipient'' = ''recipient''"
    by code_simp
  have header: "parse_header [''recipient'', ''amount''] = Inr (0, 1)"
    using bom by (simp add: parse_header_def parse_header_step_def)
  have "csv_payouts (fo_csv_records payout_env) (pubkey_from_str node_http) 0 ''csv'' [([1], 5)]"
    unfolding csv_payouts_def
    by (intro exI [of _ "[''recipient'', ''amount'']"] exI [of _ "[[''1'', ''5'']]"] exI [of _ "(0, 1)"])
      (simp add: payout_env_def header payout_of_def field_at_def trims amount node_http_def)
  moreover have "reject_empty_records ''csv'' = Inr ()"
    by code_simp
  ultimately show ?thesis
    unfolding parse_manifest_csv_iff
    by (intro exI [of _ "''csv''"] exI [of _ "[([1], 5)]"])
      (simp add: read_up_to_def MAX_CSV_BYTES_def payout_manifest_def number_rows_def canonical_hash_def
        MAX_TRANSFER_ROWS_def payout_env_def)
qed

subsection \<open>Planning\<close>

definition payout_chunk :: "nat \<Rightarrow> planned_chunk" where
  "payout_chunk i = \<lparr>chunk_index = i,
     entries = [\<lparr>entry_row_number = 2, entry_recipient = [1], entry_amount_raw = 5, ata_creation_required = False\<rparr>],
     compute_unit_price_micro_lamports = 0, compute_unit_limit = 11000, memo = payout_memo i, serialized_len = 100\<rparr>"

definition payout_plan :: "nat \<Rightarrow> transaction_plan" where
  "payout_plan i = \<lparr>plan_fee_payer_mode = SelfFunded, plan_fee_payer = [9], chunks = [payout_chunk i]\<rparr>"

lemma payout_hash: "hash_hex payout_manifest = ''abcd0102''" "manifest_hash_prefix ''abcd0102'' = ''abcd0102''"
  by (simp add: hash_hex_def payout_manifest_def byte_hex_def hex_digit_def) code_simp+

lemma payout_memos: "i \<in> {0, 1} \<Longrightarrow> chunk_memo ''abcd0102'' i = payout_memo i"
proof -
  have "chunk_memo ''abcd0102'' 0 = payout_memo 0" "chunk_memo ''abcd0102'' 1 = payout_memo 1"
    by code_simp+
  then show "i \<in> {0, 1} \<Longrightarrow> chunk_memo ''abcd0102'' i = payout_memo i"
    by auto
qed

lemma payout_pack:
  assumes "i \<in> {0, 1}"
  shows "pack_chunks_from payout_kit payout_manifest payout_ata SelfFunded [9] [9] 0 i = Inr (payout_plan i)"
proof -
  let ?build = "build_planned_chunk payout_kit payout_manifest payout_ata SelfFunded [9] [9] 0 ''abcd0102''"
  have "?build [0] i = Inr (payout_chunk i)"
    by (simp add: build_planned_chunk_def payout_kit_def payout_manifest_def payout_ata_def payout_chunk_def
        payout_memos [OF assms] with_last_memo_def estimate_compute_units_def PACKING_COMPUTE_UNIT_CEILING_def
        MAX_STATIC_ACCOUNT_KEYS_def wrapping_def planned_entry_def Let_def)
  moreover have "next_index i [] = Inr i"
    using assms by (auto simp: next_index_Inr)
  moreover have "length (manifest_rows payout_manifest) = 1" "length (destinations payout_ata) = 1"
      "recipient (manifest_rows payout_manifest ! 0) = dest_recipient (destinations payout_ata ! 0)"
    by (simp_all add: payout_manifest_def payout_ata_def)
  moreover have "zip (manifest_rows payout_manifest) (destinations payout_ata)
      = [(manifest_rows payout_manifest ! 0, destinations payout_ata ! 0)]"
    by (simp add: payout_manifest_def payout_ata_def)
  ultimately show ?thesis
    by (simp add: pack_chunks_from_def payout_hash Let_def pack_step_def payout_plan_def cong: and_then_weak_cong)
qed

lemma payout_estimate:
  "sol_estimate payout_kit payout_info payout_ata (payout_plan i)
     = Inr (0, 10000, compute_reserve_lamports 10000, 10000 + compute_reserve_lamports 10000)"
  "10000 + compute_reserve_lamports 10000 \<le> 100000000"
  by (simp_all add: sol_estimate_def missing_count_def payout_ata_def payout_plan_def total_transactions_def
      ESTIMATED_FEE_LAMPORTS_PER_CHUNK_def checked_mul_def checked_add_def compute_reserve_lamports_def wrapping_def
      MIN_FEE_RESERVE_LAMPORTS_def Let_def)

definition payout_permit :: "nat \<Rightarrow> batch_signing_permit" where
  "payout_permit i = \<lparr>pm_manifest_hash = [171, 205, 1, 2], account_pubkey = [9], pm_network_genesis_hash = replicate 32 7,
     pm_mint = [8], pm_token_program = [103], pm_decimals = 0, source_ata = [9, 103, 8, 102],
     pm_fee_payer_mode = SelfFunded, pm_fee_payer = [9], pm_chunks = [payout_chunk i], max_token_raw = 5,
     max_transactions = 1, expires_at = 1000 + PERMIT_TTL, signed_amount_raw = 0, signed_tx_count = 0,
     signed_chunks = Map.empty\<rparr>"

lemma payout_approved: "validate_plan_matches_manifest payout_manifest (payout_plan i) = Inr ()"
proof -
  have "distinct (map row_number (manifest_rows payout_manifest))"
    by (simp add: payout_manifest_def)
  from validate_plan_iff [OF this] show ?thesis
    by (simp add: payout_manifest_def payout_plan_def payout_chunk_def entry_triple_def row_triple_def)
qed

lemma payout_authorize:
  "authorize sample_env (\<lambda>_. Inr [9]) (replicate 32 7) payout_manifest (payout_plan i)
     \<lparr>sum_account = ''default'', sum_currency = ''USDC'', sum_currency_decimals = 0, sum_network = ''devnet'',
      recipient_total_raw = 5, max_total_raw = 5\<rparr> 1000 PERMIT_TTL = Inr (payout_permit i)"
proof -
  obtain shown where "format_token_amount 5 0 = Some shown"
    using format_parse [of 5 0] by auto
  then show ?thesis
    by (simp add: authorize_def payout_approved authorization_intent_def Let_def)
      (simp add: payout_permit_def payout_manifest_def payout_plan_def sample_env_def derive_associated_token_address_def)
qed

subsection \<open>Signing\<close>

lemma payout_tx_matches:
  assumes "i \<in> {0, 1}"
  shows "transaction_matches sample_env (payout_permit i) (payout_chunk i) (payout_tx (payout_memo i) bh)"
proof -
  have "utf8_valid (bytes_of_string ''pay-push:v1:abcd0102:0'')" "utf8_valid (bytes_of_string ''pay-push:v1:abcd0102:1'')"
    by code_simp+
  then have "utf8_valid (bytes_of_string (payout_memo i))"
    by (simp add: payout_memo_def)
  then show ?thesis
    by (simp add: transaction_matches_def chunk_specs_def entry_specs_def payout_chunk_def payout_tx_def
        payout_permit_def sample_env_def derive_associated_token_address_def key_at_def nth_opt_def Let_def
        del: to_le_bytes.simps) (intro conjI exI [of _ 0] exI [of _ 11000]; simp)
qed

definition payout_signed :: "nat \<Rightarrow> bytes \<Rightarrow> bytes \<Rightarrow> nat \<Rightarrow> signed_chunk" where
  "payout_signed i sig bh lv = \<lparr>sc_chunk_index = i, sc_row_numbers = [2], sc_signature = sig,
     signed_transaction_base64 = ''tx'', sc_blockhash = bh, sc_last_valid_block_height = lv\<rparr>"

lemma payout_signs:
  assumes "i \<in> {0, 1}"
  shows "\<exists>p. sign_chunk sample_env (payout_signer sig) 1000 (payout_permit i) i (payout_tx (payout_memo i) bh) lv
    = (p, Inr (payout_signed i sig bh lv))"
proof -
  have "sign_chunk_checks sample_env 1000 (payout_permit i) i (payout_tx (payout_memo i) bh) = Inr (payout_chunk i, 5)"
    unfolding sign_chunk_checks_Inr
    using payout_tx_matches [OF assms] by (simp add: payout_permit_def plan_for_def payout_chunk_def PERMIT_TTL_def)
  moreover have "sign_transaction_bytes (payout_signer sig)
      ((payout_permit i)\<lparr>signed_amount_raw := 5, signed_tx_count := 1\<rparr>) (payout_tx (payout_memo i) bh) = Inr (sig, bh, ''tx'')"
    by (simp add: sign_transaction_bytes_def payout_signer_def payout_tx_def payout_permit_def nth_opt_def Let_def)
  ultimately show ?thesis
    by (simp add: sign_chunk_def payout_signed_def row_numbers_def) (simp add: payout_permit_def payout_chunk_def row_numbers_def)
qed

subsection \<open>The first run\<close>

definition line_added :: "files \<Rightarrow> journal \<Rightarrow> files" where
  "line_added fs j = fs(journal_path j \<mapsto> (case fs (journal_path j) of None \<Rightarrow> [] | Some content \<Rightarrow> content)
     @ show_nat (next_sequence j) @ [LF])"

abbreviation advanced :: "journal \<Rightarrow> journal" where
  "advanced j \<equiv> j\<lparr>next_sequence := wrapping 64 (next_sequence j + 1)\<rparr>"

abbreviation payout_event :: "journal \<Rightarrow> journal_event_kind \<Rightarrow> journal_event" where
  "payout_event j k \<equiv> \<lparr>sequence = next_sequence j, timestamp = 1000, kind = k\<rparr>"

lemma payout_append_event:
  "append_event (fo_codec payout_env) WriteDone 1000 (fs, j) k
     = ((line_added fs j, advanced j), Inr (payout_event j k))"
  by (simp add: append_event_def payout_env_def line_added_def)

lemma payout_draws:
  "fo_http payout_env = node_http" "fo_kit payout_env = payout_kit" "fo_chain_env payout_env = sample_env"
  "fo_schedule payout_env = rev" "fo_io payout_env w = (WriteDone, w)" "fo_now payout_env w = (1000, w)"
  "fo_load_signer payout_env w = (\<lambda>_. Inr [9], w)"
  "fo_signer payout_env w = (payout_signer (if w < 20 then [42] else [43]), w)"
  "fo_os payout_env w = (\<lparr>os_dir_ok = True, os_open_ok = True, os_truncate_ok = True, os_tries = (\<lambda>_. LockOk)\<rparr>, w)"
  "fo_bs58_decode payout_env = (\<lambda>_. Some (replicate 32 7))"
  by (simp_all add: payout_env_def)

lemma payout_fan_append:
  "fan_append payout_env j k \<lparr>fo_world = w, fo_files = fs, fo_log = tr\<rparr>
     = (\<lparr>fo_world = w, fo_files = line_added fs j, fo_log = tr @ [Journaled (payout_event j k)]\<rparr>, Inr (advanced j))"
  by (simp add: fan_append_def fan_bind_def fan_ask_def fan_read_def payout_draws payout_append_event)

lemmas payout_steps = fan_bind_def fan_read_def fan_pure_def Let_def payout_fan_append

lemma payout_sizes:
  "sender_ata payout_ata = [9, 103, 8, 102]" "total_amount_raw payout_manifest = 5"
  "total_transactions (payout_plan i) = 1" "fee_payer_mode_label SelfFunded = ''self_funded''"
  by (simp_all add: payout_ata_def payout_manifest_def payout_plan_def total_transactions_def fee_payer_mode_label_def)

lemma payout_preflight:
  assumes "w = 2 \<and> i = 0 \<or> w = 24 \<and> i = 1"
  shows "fanout_preflight payout_env (payout_command resume) payout_info j payout_manifest i
      \<lparr>fo_world = w, fo_files = fs, fo_log = tr\<rparr>
    = (\<lparr>fo_world = w + 4, fo_files = line_added fs j, fo_log = tr @ [Journaled (payout_event j
         (PreflightCompleted ''self_funded'' 10000 0 (compute_reserve_lamports 10000) 1 5))]\<rparr>,
       Inr (advanced j, payout_plan i))"
proof -
  have "fetch_ata_snapshot node_http sample_env rev payout_rpc w [9] payout_manifest [103] = (Inr payout_ata, w + 2)"
    using assms by (intro payout_snapshot) auto
  moreover have "token_balance node_http payout_rpc (w + 2) [9, 103, 8, 102] = (Inr 9, w + 3)"
      "sol_balance node_http payout_rpc (w + 3) [9] = (Inr 100000000, w + 4)"
    using assms payout_balances(1) [of "w + 2"] payout_balances(2) [of "w + 3"] by auto
  moreover have "pack_chunks_from payout_kit payout_manifest payout_ata SelfFunded [9] [9] 0 i = Inr (payout_plan i)"
    using assms by (intro payout_pack) auto
  ultimately show ?thesis
    using payout_estimate(1) [of i] payout_estimate(2)
    by (simp add: fanout_preflight_def payout_command_def payout_draws payout_steps payout_sizes)
qed

lemma payout_authorized:
  "fanout_authorize payout_env (payout_command resume) payout_info (replicate 32 7) j payout_manifest (payout_plan i)
      \<lparr>fo_world = w, fo_files = fs, fo_log = tr\<rparr>
    = (\<lparr>fo_world = w, fo_files = line_added fs j, fo_log = tr @ [Journaled (payout_event j
         (AuthorizationGranted ''key'' 5 1 (1000 + PERMIT_TTL)))]\<rparr>, Inr (advanced j, payout_permit i))"
  using payout_authorize [of i]
  by (simp add: fanout_authorize_def payout_command_def payout_draws payout_steps payout_sizes fan_ask_def)
    (simp add: payout_permit_def node_http_def)

lemma payout_executed:
  assumes "w = 6 \<and> i = 0 \<and> sig = [42] \<and> bh = [77] \<and> lv = 10 \<and> text = ''old''
     \<or> w = 28 \<and> i = 1 \<and> sig = [43] \<and> bh = [78] \<and> lv = 50 \<and> text = ''new''"
  shows "\<exists>fs'. fanout_execute payout_env (payout_command resume) payout_info 0 j (payout_permit i) (payout_plan i)
      \<lparr>fo_world = w, fo_files = fs, fo_log = tr\<rparr>
    = (\<lparr>fo_world = w + 2, fo_files = fs',
        fo_log = tr @ [Journaled (payout_event j (ChunkSigned i [2] text ''tx'' ''key'' lv)),
          Broadcasted (payout_signed i sig bh lv), Journaled (payout_event (advanced j) (ChunkBroadcast i text))]\<rparr>,
       Inl (FanoutInterrupted OutOfFuel))"
proof -
  have i: "i \<in> {0, 1}"
    using assms by auto
  let ?env = "fanout_executor payout_env (payout_command resume) payout_info"
  let ?st = "\<lparr>permit = payout_permit i, journal_state = (fs, j), world = (w, None), in_flight = [],
     summary = \<lparr>confirmed = 0, failed = 0\<rparr>, effects = []\<rparr>"
  let ?dc = "\<lparr>rpc_url = ''rpc'', direct_fee_payer = [9]\<rparr>"
  let ?prep = "\<lparr>prep_fee_payer = [9], prep_blockhash = bh, prep_last_valid_block_height = lv\<rparr>"
  have prep: "direct_prepare node_http ?dc (w, None) c = (Inr ?prep, (Suc w, Some (?prep, 0)))" for c
    using assms by (auto simp: direct_prepare_def fetch_latest_blockhash_def rpc_call_def rpc_result_def
        parse_latest_blockhash_def node_steps)
  have build: "build_chunk_transaction payout_kit (payout_chunk i) [8] [103] 0 [9] [9] bh = Inr (payout_tx (payout_memo i) bh)"
    using assms by (auto simp: build_chunk_transaction_def payout_kit_def payout_chunk_def checked_sub_def Let_def)
  obtain p where sign: "sign_chunk sample_env (payout_signer sig) 1000 (payout_permit i) i (payout_tx (payout_memo i) bh) lv
    = (p, Inr (payout_signed i sig bh lv))"
    using payout_signs [OF i] by blast
  have send: "direct_broadcast node_http ?dc (Suc w, c) sc = (Inr (Pending sig), (Suc (Suc w), c))" for c sc
    using assms by (auto simp: direct_broadcast_def rpc_call_def rpc_result_def node_steps)
  have signer: "fo_signer payout_env (Suc w) = (payout_signer sig, Suc w)"
      and texts: "base58_text node_http sig = text" "base58_text node_http bh = ''key''"
    using assms by (auto simp: payout_draws node_http_def)
  have chunk: "chunk_index (payout_chunk i) = i" "chunks (payout_plan i) = [payout_chunk i]"
    by (simp_all add: payout_chunk_def payout_plan_def)
  let ?sent = "\<lambda>fs' p. ?st\<lparr>permit := p, journal_state := (fs', advanced (advanced j)), world := (Suc (Suc w), Some (?prep, 0)),
     in_flight := [\<lparr>fl_chunk_index = i, fl_signature = sig, fl_last_valid_block_height = lv\<rparr>],
     effects := [Journaled (payout_event j (ChunkSigned i [2] text ''tx'' ''key'' lv)),
          Broadcasted (payout_signed i sig bh lv), Journaled (payout_event (advanced j) (ChunkBroadcast i text))]\<rparr>"
  have "\<exists>fs' p. run_chunk ?env 0 (payout_chunk i) ?st = (?sent fs' p, Inr ())"
    by (simp add: run_chunk_def ex_bind_def ret_def fanout_executor_def payout_command_def payout_draws(1-7) direct_broadcaster_def
        prep build sign_off_runtime_thread_def with_cache_def signer sign chunk journal_chunk_signed_def journal_append_def
        payout_append_event send_signed_def send record_outcome_def journal_chunk_broadcast_def)
      (simp add: payout_signed_def texts)
  then obtain fs' p where "run_chunk ?env 0 (payout_chunk i) ?st = (?sent fs' p, Inr ())"
    by blast
  then have "run ?env 0 [payout_chunk i] ?st = (?sent fs' p, Inl OutOfFuel)"
    by (simp add: run_def ex_bind_def ret_def fail_with_def)
  then show ?thesis
    by (simp add: fanout_execute_def chunk)
qed

lemma payout_opened:
  "open_new payout_env (payout_command None) payout_info payout_manifest \<lparr>fo_world = 2, fo_files = Map.empty, fo_log = []\<rparr>
     = (\<lparr>fo_world = 2, fo_files = line_added [''run.jsonl'' \<mapsto> []] \<lparr>journal_path = ''run.jsonl'', next_sequence = 1\<rparr>,
         fo_log = [Journaled (hd first_journal)]\<rparr>, Inr (Some (\<lparr>journal_path = ''run.jsonl'', next_sequence = 2\<rparr>, payout_manifest, 0)))"
proof -
  have "lock_exclusive (\<lambda>_. LockOk) = Inr ()"
    by (simp add: lock_exclusive_def lock_loop.simps)
  then show ?thesis
    by (simp add: open_new_def payout_command_def payout_draws payout_steps fan_ask_def create_new_def payout_hash(1) payout_sizes)
      (simp add: first_journal_def node_http_def payout_manifest_def wrapping_def)
qed

lemma payout_start:
  assumes "w \<in> {0, 20}"
  shows "fanout_run payout_env (payout_command resume) fuel \<lparr>fo_world = w, fo_files = fs, fo_log = []\<rparr>
    = fanout_tail payout_env (payout_command resume) fuel payout_info (replicate 32 7) payout_manifest
        \<lparr>fo_world = w + 2, fo_files = fs, fo_log = []\<rparr>"
proof -
  have "fanout_mint_info node_http payout_rpc w [8] = (Inr payout_info, Suc w)"
      "genesis_hash node_http (\<lambda>_. Some (replicate 32 7)) payout_rpc (Suc w) = (Inr (replicate 32 7), Suc (Suc w))"
    using payout_mint [OF assms] payout_genesis [of "Suc w"] assms by auto
  moreover have "plan_context payout_manifest = \<lparr>network_genesis_hash = replicate 32 7, mint = [8], token_program = [103], decimals = 0\<rparr>"
    by (simp add: payout_manifest_def)
  ultimately show ?thesis
    using payout_parse
    by (simp add: fanout_run_def fanout_checks_def validate_network_def payout_command_def payout_draws payout_steps)
qed

lemma first_journal_parts:
  "[Journaled (hd first_journal)] = map Journaled (take 1 first_journal)"
  "map Journaled (take 1 first_journal) @ [Journaled \<lparr>sequence = 2, timestamp = 1000,
     kind = PreflightCompleted ''self_funded'' 10000 0 (compute_reserve_lamports 10000) 1 5\<rparr>] = map Journaled (take 2 first_journal)"
  "map Journaled (take 2 first_journal) @ [Journaled \<lparr>sequence = 3, timestamp = 1000,
     kind = AuthorizationGranted ''key'' 5 1 (1000 + PERMIT_TTL)\<rparr>] = map Journaled (take 3 first_journal)"
  "map Journaled (take 3 first_journal) @ [Journaled \<lparr>sequence = 4, timestamp = 1000,
     kind = ChunkSigned 0 [2] ''old'' ''tx'' ''key'' 10\<rparr>] = map Journaled (take 4 first_journal)"
  "last first_journal = \<lparr>sequence = 5, timestamp = 1000, kind = ChunkBroadcast 0 ''old''\<rparr>"
  by (simp_all add: first_journal_def signed_old_def)

lemma payout_resume_flag: "cmd_resume (payout_command resume) = resume"
  by (simp add: payout_command_def)

lemma wrapping_small: "n < 100 \<Longrightarrow> wrapping 64 n = n"
  by (simp add: wrapping_def)

lemma payout_first_run:
  obtains st' where "fanout_run payout_env (payout_command None) 0 \<lparr>fo_world = 0, fo_files = Map.empty, fo_log = []\<rparr>
      = (st', Inl (FanoutInterrupted OutOfFuel))"
    "fo_log st' = map Journaled (take 4 first_journal) @ [Broadcasted (payout_signed 0 [42] [77] 10), Journaled (last first_journal)]"
proof -
  let ?fs = "line_added [''run.jsonl'' \<mapsto> []] \<lparr>journal_path = ''run.jsonl'', next_sequence = 1\<rparr>"
    and ?j = "\<lambda>n. \<lparr>journal_path = ''run.jsonl'', next_sequence = n\<rparr>" and ?cmd = "payout_command None"
  let ?fs2 = "line_added ?fs (?j 2)" let ?fs3 = "line_added ?fs2 (?j 3)"
  have start: "fanout_run payout_env ?cmd 0 \<lparr>fo_world = 0, fo_files = Map.empty, fo_log = []\<rparr>
      = fanout_tail payout_env ?cmd 0 payout_info (replicate 32 7) payout_manifest \<lparr>fo_world = 2, fo_files = Map.empty, fo_log = []\<rparr>"
    using payout_start [of 0] by (simp add: numeral_2_eq_2)
  have opened: "open_new payout_env ?cmd payout_info payout_manifest \<lparr>fo_world = 2, fo_files = Map.empty, fo_log = []\<rparr>
     = (\<lparr>fo_world = 2, fo_files = ?fs, fo_log = map Journaled (take 1 first_journal)\<rparr>, Inr (Some (?j 2, payout_manifest, 0)))"
    using payout_opened by (simp only: first_journal_parts)
  have pre: "fanout_preflight payout_env ?cmd payout_info (?j 2) payout_manifest 0
      \<lparr>fo_world = 2, fo_files = ?fs, fo_log = map Journaled (take 1 first_journal)\<rparr>
    = (\<lparr>fo_world = 6, fo_files = ?fs2, fo_log = map Journaled (take 2 first_journal)\<rparr>, Inr (?j 3, payout_plan 0))"
    using payout_preflight [of 2 0 None "?j 2" ?fs "map Journaled (take 1 first_journal)"]
    by (simp add: wrapping_small first_journal_parts(2) [simplified] del: take_Suc_Cons)
  have auth: "fanout_authorize payout_env ?cmd payout_info (replicate 32 7) (?j 3) payout_manifest (payout_plan 0)
      \<lparr>fo_world = 6, fo_files = ?fs2, fo_log = map Journaled (take 2 first_journal)\<rparr>
    = (\<lparr>fo_world = 6, fo_files = ?fs3, fo_log = map Journaled (take 3 first_journal)\<rparr>, Inr (?j 4, payout_permit 0))"
    using payout_authorized [of None "?j 3" 0 6 ?fs2 "map Journaled (take 2 first_journal)"]
    by (simp add: wrapping_small first_journal_parts(3) [simplified])
  obtain fs' where "fanout_execute payout_env ?cmd payout_info 0 (?j 4) (payout_permit 0) (payout_plan 0)
      \<lparr>fo_world = 6, fo_files = ?fs3, fo_log = map Journaled (take 3 first_journal)\<rparr>
    = (\<lparr>fo_world = 8, fo_files = fs', fo_log = map Journaled (take 3 first_journal)
         @ [Journaled (payout_event (?j 4) (ChunkSigned 0 [2] ''old'' ''tx'' ''key'' 10)),
            Broadcasted (payout_signed 0 [42] [77] 10), Journaled (payout_event (advanced (?j 4)) (ChunkBroadcast 0 ''old''))]\<rparr>,
       Inl (FanoutInterrupted OutOfFuel))"
    using payout_executed [of 6 0 "[42]" "[77]" 10 "''old''" None "?j 4" ?fs3 "map Journaled (take 3 first_journal)"] by fastforce
  then have run: "fanout_run payout_env ?cmd 0 \<lparr>fo_world = 0, fo_files = Map.empty, fo_log = []\<rparr>
      = (\<lparr>fo_world = 8, fo_files = fs', fo_log = map Journaled (take 3 first_journal)
         @ [Journaled (payout_event (?j 4) (ChunkSigned 0 [2] ''old'' ''tx'' ''key'' 10)),
            Broadcasted (payout_signed 0 [42] [77] 10), Journaled (payout_event (advanced (?j 4)) (ChunkBroadcast 0 ''old''))]\<rparr>,
       Inl (FanoutInterrupted OutOfFuel))"
    using pre auth opened unfolding start by (simp add: fanout_tail_def fan_bind_def payout_resume_flag)
  show ?thesis
    by (rule that [OF run]) (simp add: wrapping_small first_journal_parts(4,5) [simplified, symmetric])
qed

subsection \<open>The resumed run\<close>

abbreviation payout_files :: files where
  "payout_files \<equiv> [''run.jsonl'' \<mapsto> journal_text (fo_codec payout_env) first_journal]"

abbreviation payout_chain :: "(nat, fanout_error) chain_state" where
  "payout_chain \<equiv> fanout_chain node_http payout_rpc"

lemma first_journal_loads: "load_events (fo_codec payout_env) ok payout_files ''run.jsonl'' = (payout_files, Inr first_journal)"
proof (rule load_events_complete)
  have texts: "show_nat 1 = ''1''" "show_nat (Suc 0) = ''1''" "show_nat 2 = ''2''" "show_nat 3 = ''3''" "show_nat 4 = ''4''" "show_nat 5 = ''5''"
    by (simp_all add: show_nat.simps digit_char_def) code_simp+
  have digits: "list_all is_ascii_digit ''12345''"
    by code_simp
  have lines: "trim [d] = [d]" "utf8_valid (bytes_of_string [d])" if "d \<in> set ''12345''" for d
    using digits that by (auto simp: trim_id list_all_iff bytes_of_string_def utf8_valid.simps)
  show "codec_ok (fo_codec payout_env) first_journal"
    by (simp add: event_ok_def payout_env_def first_journal_def signed_old_def LF_def CR_def texts lines)
  show "sorted_wrt (<) (map sequence first_journal)"
    by (simp add: first_journal_def signed_old_def)
qed simp

lemma first_journal_verified:
  "verify_resume_journal (base58_text node_http) first_journal payout_manifest ''devnet'' [8] [103] [9] = Inr ()"
  using payout_hash(1)
  by (simp add: verify_resume_journal_def first_journal_def signed_old_def authorized_accounts_def node_http_def)
    (simp add: payout_manifest_def)

lemma first_journal_payouts:
  "signed_payouts first_journal = [\<lparr>payout_signature = ''old'', last_valid_block_height = Some 10\<rparr>]"
  "journal_chunks first_journal = [(0, [2])]"
  by (simp_all add: signed_payouts_def journal_chunks_def first_journal_def signed_old_def)

definition old_expired :: resume_statuses where
  "old_expired = [''old'' \<mapsto> LandingReplaceable \<lparr>replace_reason_of = ReasonExpired\<rparr>]"

lemma payout_tip:
  "finalized_tip payout_chain w = (Inr tip, w') \<Longrightarrow> w = 22 \<and> tip = \<lparr>tip_slot = 20, tip_block_height = 11\<rparr> \<and> w' = 23"
  "finalized_tip payout_chain 22 = (Inr \<lparr>tip_slot = 20, tip_block_height = 11\<rparr>, 23)"
  by (auto simp: fanout_chain_def fanout_finalized_tip_def node_steps split: if_splits)

lemma payout_statuses:
  "signature_statuses_of payout_chain 23 [''old''] = (Inr \<lparr>context_slot = 21, statuses = [StatusAbsent]\<rparr>, 24)"
  by (simp add: fanout_chain_def fanout_signature_statuses_def chunks_of.simps [of 256] status_batch_def node_steps
      signature_status_from_rpc_def)

lemma payout_landings: "resume_landings payout_chain first_journal 22 = (Inr old_expired, 24)"
  by (simp add: resume_landings_def first_journal_payouts confirm_not_landed_def payout_tip payout_statuses
      classify_def old_expired_def)

lemma payout_resume_plan:
  "plan_resume (signature_from_str node_http) first_journal payout_manifest (resume_landing old_expired)
     = Inr \<lparr>remaining = payout_manifest, newly_confirmed = [], confirmed_chunks = 0, next_chunk_index = 1\<rparr>"
proof -
  have "reduce_chunk_resume_action 0 first_journal SelfFunded (resume_landing old_expired)
      = RebuildWithFreshBlockhash \<lparr>replace_reason_of = ReasonExpired\<rparr>"
    by (simp add: reduce_chunk_resume_action_def resume_scan_def first_journal_def signed_old_def kind_chunk_index_def
        resume_landing_def old_expired_def)
  then show ?thesis
    by (simp add: plan_resume_def first_journal_payouts resume_step_def checked_add_def)
      (simp add: payout_manifest_def checked_add_def)
qed

lemma payout_reopened:
  "open_resumed payout_env (payout_command (Some ''run.jsonl'')) payout_info payout_manifest ''run.jsonl''
      \<lparr>fo_world = 22, fo_files = payout_files, fo_log = []\<rparr>
     = (\<lparr>fo_world = 24, fo_files = payout_files, fo_log = []\<rparr>,
        Inr (Some (\<lparr>journal_path = ''run.jsonl'', next_sequence = 6\<rparr>, payout_manifest, 1)))"
proof -
  have lock: "lock_exclusive (\<lambda>_. LockOk) = Inr ()"
    by (simp add: lock_exclusive_def lock_loop.simps)
  have "open_existing (fo_codec payout_env) True True (\<lambda>_. LockOk) payout_files ''run.jsonl''
      = (payout_files, Inr (\<lparr>journal_path = ''run.jsonl'', next_sequence = 6\<rparr>, first_journal))"
    using first_journal_loads [of True]
    by (simp add: open_existing_def lock) (simp add: first_journal_def wrapping_def)
  moreover have "manifest_rows payout_manifest \<noteq> []"
    by (simp add: payout_manifest_def)
  ultimately show ?thesis
    using first_journal_verified payout_landings payout_resume_plan
    by (simp add: open_resumed_def payout_command_def payout_draws payout_steps fan_ask_def)
qed

lemma payout_second_run:
  obtains st' r where "fanout_run payout_env (payout_command (Some ''run.jsonl'')) 0 \<lparr>fo_world = 20, fo_files = payout_files, fo_log = []\<rparr>
      = (st', r)"
    "Broadcasted (payout_signed 1 [43] [78] 50) \<in> set (fo_log st')"
    "(1, [2]) \<in> set (records_of (journaled (fo_log st')))"
proof -
  let ?j = "\<lambda>n. \<lparr>journal_path = ''run.jsonl'', next_sequence = n\<rparr>" and ?cmd = "payout_command (Some ''run.jsonl'')"
  let ?fs2 = "line_added payout_files (?j 6)" let ?fs3 = "line_added ?fs2 (?j 7)"
  have start: "fanout_run payout_env ?cmd 0 \<lparr>fo_world = 20, fo_files = payout_files, fo_log = []\<rparr>
      = fanout_tail payout_env ?cmd 0 payout_info (replicate 32 7) payout_manifest \<lparr>fo_world = 22, fo_files = payout_files, fo_log = []\<rparr>"
    using payout_start [of 20] by simp
  obtain tr where pre: "fanout_preflight payout_env ?cmd payout_info (?j 6) payout_manifest 1
      \<lparr>fo_world = 24, fo_files = payout_files, fo_log = []\<rparr>
    = (\<lparr>fo_world = 28, fo_files = ?fs2, fo_log = tr\<rparr>, Inr (?j 7, payout_plan 1))"
    using payout_preflight [of 24 1 "Some ''run.jsonl''" "?j 6" payout_files "[]"] by (simp add: wrapping_small)
  obtain tr2 where auth: "fanout_authorize payout_env ?cmd payout_info (replicate 32 7) (?j 7) payout_manifest (payout_plan 1)
      \<lparr>fo_world = 28, fo_files = ?fs2, fo_log = tr\<rparr>
    = (\<lparr>fo_world = 28, fo_files = ?fs3, fo_log = tr2\<rparr>, Inr (?j 8, payout_permit 1))"
    using payout_authorized [of "Some ''run.jsonl''" "?j 7" 1 28 ?fs2 tr] by (simp add: wrapping_small)
  let ?signed = "Journaled (payout_event (?j 8) (ChunkSigned 1 [2] ''new'' ''tx'' ''key'' 50))"
  obtain fs' e2 where "fanout_execute payout_env ?cmd payout_info 0 (?j 8) (payout_permit 1) (payout_plan 1)
      \<lparr>fo_world = 28, fo_files = ?fs3, fo_log = tr2\<rparr>
    = (\<lparr>fo_world = 30, fo_files = fs', fo_log = tr2 @ [?signed, Broadcasted (payout_signed 1 [43] [78] 50), e2]\<rparr>,
       Inl (FanoutInterrupted OutOfFuel))"
    using payout_executed [of 28 1 "[43]" "[78]" 50 "''new''" "Some ''run.jsonl''" "?j 8" ?fs3 tr2] by fastforce
  then have run: "fanout_run payout_env ?cmd 0 \<lparr>fo_world = 20, fo_files = payout_files, fo_log = []\<rparr>
      = (\<lparr>fo_world = 30, fo_files = fs', fo_log = tr2 @ [?signed, Broadcasted (payout_signed 1 [43] [78] 50), e2]\<rparr>,
         Inl (FanoutInterrupted OutOfFuel))"
    using pre auth unfolding start by (simp add: fanout_tail_def fan_bind_def payout_resume_flag payout_reopened)
  show ?thesis
    by (rule that [OF run]) (simp_all add: records_of_def)
qed

lemma payout_history: "fanout_history payout_env first_journal"
proof -
  obtain st' where st': "fanout_run payout_env (payout_command None) 0 \<lparr>fo_world = 0, fo_files = Map.empty, fo_log = []\<rparr>
      = (st', Inl (FanoutInterrupted OutOfFuel))"
    "fo_log st' = map Journaled (take 4 first_journal) @ [Broadcasted (payout_signed 0 [42] [77] 10), Journaled (last first_journal)]"
    by (rule payout_first_run)
  have "journaled (take 6 (fo_log st')) = first_journal"
    unfolding st'(2) by (simp add: first_journal_def)
  then show ?thesis
    using fanout_history.first_run [OF st'(1), of 6] by (simp add: payout_resume_flag)
qed

lemma signed_in_first: "signed_old \<in> set first_journal" "kind signed_old = ChunkSigned 0 [2] ''old'' ''tx'' ''key'' 10"
  by (simp_all add: first_journal_def signed_old_def)

lemma payout_trusted:
  "\<exists>fork. trusted_cluster sample_ledger fork (fanout_chain (fo_http payout_env) \<lparr>fanout_url = cmd_rpc_url (payout_command resume)\<rparr>)
     (signed_payouts first_journal) w"
proof -
  have "sound_cluster sample_ledger sample_ledger \<lparr>tip_slot = 20, tip_block_height = 11\<rparr>
      \<lparr>context_slot = 21, statuses = [StatusAbsent]\<rparr> (signed_payouts first_journal)"
    by (auto simp: first_journal_payouts sample_ledger_def sound_cluster_def ordered_chain_def
        executes_once_def within_validity_def status_of_fork_def)
  then have "trusted_cluster sample_ledger sample_ledger payout_chain (signed_payouts first_journal) w"
    using payout_statuses by (auto simp: trusted_cluster_def first_journal_payouts dest!: payout_tip(1))
  then show ?thesis
    by (auto simp: payout_draws payout_command_def)
qed

section \<open>Properties\<close>

text \<open>
  C2: over any history of runs, resumes and interruptions, the journal uses every chunk index at most
  once: a resumed run continues above every index its journal holds, whatever the earlier runs did and
  wherever they were cut short. The rows of one index are therefore never replaced by others.
\<close>
theorem history_uses_indices_once:
  assumes "fanout_history env events"
  shows "distinct (map fst (records_of events))"
  using fanout_history_recorded_once [OF assms] by (simp add: recorded_once_def)

theorem history_uses_indices_once_witness:
  "\<exists>events. fanout_history payout_env (first_journal @ events) \<and> (1, [2]) \<in> set (records_of events)
     \<and> distinct (map fst (records_of (first_journal @ events)))"
proof -
  obtain st' r where st': "fanout_run payout_env (payout_command (Some ''run.jsonl'')) 0 \<lparr>fo_world = 20, fo_files = payout_files, fo_log = []\<rparr>
      = (st', r)" "(1, [2]) \<in> set (records_of (journaled (fo_log st')))"
    by (rule payout_second_run)
  have "fanout_history payout_env (first_journal @ journaled (take (length (fo_log st')) (fo_log st')))"
    by (rule fanout_history.resumed_run [OF payout_history st'(1), where path = "''run.jsonl''"]) (simp_all add: payout_resume_flag first_journal_loads)
  then show ?thesis
    using st'(2) history_uses_indices_once [of payout_env "first_journal @ journaled (fo_log st')"] by auto
qed

text \<open>
  C1: \<open>pay fanout --resume\<close> never pays a row twice. Take any journal that a history of runs, resumes
  and interruptions left, and a cluster that answers the landing check as documented. Whenever the
  resumed command broadcasts a transaction that carries a row, every transaction that the journal records
  as signed for that row fails in every block of the ledger, past or future.
\<close>
theorem fanout_resume_never_repays:
  assumes "fanout_history env events" and "fanout_run env cmd fuel st = (st', r)" and "fo_log st = []"
    and "cmd_resume cmd = Some path" and "snd (load_events (fo_codec env) True (fo_files st) path) = Inr events"
    and "\<And>w. \<exists>fork. trusted_cluster ledger fork (fanout_chain (fo_http env) \<lparr>fanout_url = cmd_rpc_url cmd\<rparr>)
       (signed_payouts events) w"
    and "Broadcasted sc \<in> set (fo_log st')" and "i \<in> set (sc_row_numbers sc)"
    and "e \<in> set events" and "kind e = ChunkSigned k rows sig enc bh lv" and "i \<in> set rows" and "b \<in> ledger"
  shows "(sig, True) \<notin> set (executed b)"
  by (rule fanout_run_unpaid [OF assms(2-5) fanout_history_recorded_once [OF assms(1)] assms(6-12)])

theorem fanout_resume_never_repays_witness:
  "\<exists>st' r. fanout_run payout_env (payout_command (Some ''run.jsonl'')) 0 \<lparr>fo_world = 20, fo_files = payout_files, fo_log = []\<rparr> = (st', r)
     \<and> Broadcasted (payout_signed 1 [43] [78] 50) \<in> set (fo_log st') \<and> (\<forall>b\<in>sample_ledger. (''old'', True) \<notin> set (executed b))"
proof -
  obtain st' r where st': "fanout_run payout_env (payout_command (Some ''run.jsonl'')) 0 \<lparr>fo_world = 20, fo_files = payout_files, fo_log = []\<rparr>
      = (st', r)" "Broadcasted (payout_signed 1 [43] [78] 50) \<in> set (fo_log st')"
    by (rule payout_second_run)
  have "(''old'', True) \<notin> set (executed b)" if "b \<in> sample_ledger" for b
    by (rule fanout_resume_never_repays [OF payout_history st'(1) _ _ _ payout_trusted st'(2), where e = signed_old and i = 2
          and rows = "[2]" and path = "''run.jsonl''"])
      (use that in \<open>simp_all add: payout_resume_flag first_journal_loads payout_signed_def signed_in_first\<close>)
  then show ?thesis
    using st' by blast
qed

end
