(* ===== verification/Spend_Policy.thy ===== *)
theory Spend_Policy
  imports Auth_Intent "HOL-Library.Multiset"
begin

text \<open>
  The spending policy of a hosted wallet (\<^verbatim>\<open>src/rust/crates/mcp/src/policy.rs\<close>, and \<open>with_approval\<close> of
  \<^verbatim>\<open>src/rust/crates/mcp/src/context.rs\<close>): a ceiling per call and a cap per day, checked before a signature
  is released and recorded when it is.

  The ledger is an interface, the trait \<open>SpendLedger\<close>: a record of operations over a state, with its
  laws in the locale \<open>spend_ledger\<close>, interpreted on the in-memory ledger. Every operation of the ledger
  runs under one lock, but the clock is read before the lock is taken; \<open>policy_step\<close> is the step relation
  of any number of signing operations over one ledger, in which reading the day and the locked call are
  two steps. The lemmas show that what is signed on a day never exceeds the cap while calls take the lock
  in the order of the days they read, that a call overtaken across midnight can renew the cap once and no
  more, that a failed operation costs nothing, and that the in-memory ledger refines a book of single
  charges.
\<close>

section \<open>The policy and the ledger\<close>

record spend_policy =
  per_call_ceiling :: "nat option"
  daily_cap :: "nat option"

definition FROZEN :: spend_policy where
  "FROZEN = \<lparr>per_call_ceiling = Some 0, daily_cap = Some 0\<rparr>"

definition dollars :: "nat \<Rightarrow> string" where
  "dollars minor =
     (let whole = minor div USD_MINOR_UNITS_PER_DOLLAR; frac = minor mod USD_MINOR_UNITS_PER_DOLLAR in
      if frac = 0 then ''$'' @ show_nat whole
      else
        let digits = show_nat frac; padded = replicate (4 - length digits) (CHR ''0'') @ digits in
        rev (dropWhile (\<lambda>ch. ch = CHR ''0'') (rev (''$'' @ show_nat whole @ ''.'' @ padded))))"

record recorded =
  rec_day :: nat
  rec_total :: nat

datatype refused = OverCap nat | Held

text \<open>The trait: operations on a ledger of type \<open>'l\<close>; those that read the clock are given today.\<close>

record 'l spend_ledger_ops =
  spent_today :: "'l \<Rightarrow> nat \<Rightarrow> string \<Rightarrow> nat"
  check_and_record :: "'l \<Rightarrow> nat \<Rightarrow> string \<Rightarrow> nat \<Rightarrow> nat option \<Rightarrow> 'l \<times> (refused + recorded)"
  release :: "'l \<Rightarrow> string \<Rightarrow> nat \<Rightarrow> nat \<Rightarrow> 'l"
  hold_subject :: "'l \<Rightarrow> string \<Rightarrow> 'l"
  count_spent :: "'l \<Rightarrow> nat \<Rightarrow> string \<Rightarrow> nat \<Rightarrow> 'l"

section \<open>The in-memory ledger\<close>

record book =
  totals :: "string \<rightharpoonup> nat \<times> nat"
  held :: "string set"

definition new_book :: book where
  "new_book = \<lparr>totals = Map.empty, held = {}\<rparr>"

definition memory_spent_today :: "book \<Rightarrow> nat \<Rightarrow> string \<Rightarrow> nat" where
  "memory_spent_today b today subject =
     (case totals b subject of Some (day, spent) \<Rightarrow> if day = today then spent else 0 | None \<Rightarrow> 0)"

text \<open>The entry of a subject, inserted or reset so that it is of today.\<close>

definition entry_today :: "book \<Rightarrow> nat \<Rightarrow> string \<Rightarrow> nat" where
  "entry_today b today subject =
     (case totals b subject of None \<Rightarrow> 0 | Some (day, spent) \<Rightarrow> if day \<noteq> today then 0 else spent)"

definition memory_check_and_record ::
  "book \<Rightarrow> nat \<Rightarrow> string \<Rightarrow> nat \<Rightarrow> nat option \<Rightarrow> book \<times> (refused + recorded)" where
  "memory_check_and_record b today subject amount cap =
     (if subject \<in> held b then (b, Inl Held)
      else
        let entry = entry_today b today subject;
            following = saturating_add 64 entry amount in
        if (case cap of None \<Rightarrow> False | Some c \<Rightarrow> c < following) then
          (b\<lparr>totals := (totals b)(subject \<mapsto> (today, entry))\<rparr>, Inl (OverCap following))
        else
          (b\<lparr>totals := (totals b)(subject \<mapsto> (today, following))\<rparr>,
           Inr \<lparr>rec_day = today, rec_total = following\<rparr>))"

definition memory_release :: "book \<Rightarrow> string \<Rightarrow> nat \<Rightarrow> nat \<Rightarrow> book" where
  "memory_release b subject day amount =
     (case totals b subject of
        Some (current, spent) \<Rightarrow>
          if current = day then b\<lparr>totals := (totals b)(subject \<mapsto> (current, saturating_sub spent amount))\<rparr> else b
      | None \<Rightarrow> b)"

definition memory_hold :: "book \<Rightarrow> string \<Rightarrow> book" where
  "memory_hold b subject = b\<lparr>held := insert subject (held b)\<rparr>"

definition memory_count :: "book \<Rightarrow> nat \<Rightarrow> string \<Rightarrow> nat \<Rightarrow> book" where
  "memory_count b today subject spent =
     b\<lparr>held := held b - {subject},
       totals := (totals b)(subject \<mapsto> (today, saturating_add 64 (entry_today b today subject) spent))\<rparr>"

definition memory_ledger :: "book spend_ledger_ops" where
  "memory_ledger = \<lparr>spent_today = memory_spent_today, check_and_record = memory_check_and_record,
     release = memory_release, hold_subject = memory_hold, count_spent = memory_count\<rparr>"

section \<open>The gate\<close>

record reserved =
  rsv_day :: nat
  rsv_amount :: nat

record policy_gate =
  gate_subject :: string
  gate_policy :: spend_policy

definition reserve ::
  "'l spend_ledger_ops \<Rightarrow> policy_gate \<Rightarrow> nat \<Rightarrow> auth_intent \<Rightarrow> 'l \<Rightarrow> 'l \<times> (string + reserved option)" where
  "reserve ops gate today intent l =
     (if \<not> moves_money intent then (l, Inr None)
      else if is_recurring intent then
        (l, Inl ''recurring subscriptions are not supported by the hosted spending policy because future merchant pulls cannot be recorded per request'')
      else
        case amount_minor_units intent of
          None \<Rightarrow> (l, Inl ''this payment does not state an amount, and the account is under a spending policy that needs one'')
        | Some amount \<Rightarrow>
            if (case per_call_ceiling (gate_policy gate) of None \<Rightarrow> False | Some ceiling \<Rightarrow> ceiling < amount) then
              (l, Inl (dollars amount @ '' exceeds the per-call ceiling of ''
                 @ dollars (the (per_call_ceiling (gate_policy gate)))))
            else
              case check_and_record ops l today (gate_subject gate) amount (daily_cap (gate_policy gate)) of
                (l', Inr r) \<Rightarrow> (l', Inr (Some \<lparr>rsv_day = rec_day r, rsv_amount = amount\<rparr>))
              | (l', Inl (OverCap would_be)) \<Rightarrow>
                  (l', Inl (dollars amount @ '' would take today's spend to '' @ dollars would_be
                     @ '' against a daily cap of '' @ dollars (the (daily_cap (gate_policy gate)))))
              | (l', Inl Held) \<Rightarrow>
                  (l', Inl ''this wallet's spending history could not be read, so nothing can be spent until it is; sign in again to retry''))"

text \<open>
  A gate acts on the ledger and on the reservations its operation holds. \<open>PolicyGate\<close> with its holds,
  the gate for clients without a prompt, the client's prompt (its answer is an argument), and the chain.
\<close>

type_synonym 'l gate = "auth_intent \<Rightarrow> 'l \<times> reserved list \<Rightarrow> ('l \<times> reserved list) \<times> (string + unit)"

definition policy_authenticate :: "'l spend_ledger_ops \<Rightarrow> policy_gate \<Rightarrow> nat \<Rightarrow> 'l gate" where
  "policy_authenticate ops gate today intent st =
     (case st of (l, holds) \<Rightarrow>
      case reserve ops gate today intent l of
        (l', Inl e) \<Rightarrow> ((l', holds), Inl e)
      | (l', Inr None) \<Rightarrow> ((l', holds), Inr ())
      | (l', Inr (Some r)) \<Rightarrow> ((l', holds @ [r]), Inr ()))"

definition require_interactive_proof :: "'l gate" where
  "require_interactive_proof intent st =
     (if signs_raw_proof intent
      then (st, Inl ''wallet sign-in needs approval from an MCP client that supports prompts; this client cannot show one'')
      else (st, Inr ()))"

definition elicitation :: "(auth_intent \<Rightarrow> string + unit) \<Rightarrow> 'l gate" where
  "elicitation prompt intent st = (st, prompt intent)"

fun chained_authenticate :: "'l gate list \<Rightarrow> 'l gate" where
  "chained_authenticate [] intent st = (st, Inr ())"
| "chained_authenticate (g # gs) intent st =
     (case g intent st of
        (st', Inl e) \<Rightarrow> (st', Inl e)
      | (st', Inr _) \<Rightarrow> chained_authenticate gs intent st')"

definition approval_chain ::
  "'l spend_ledger_ops \<Rightarrow> policy_gate \<Rightarrow> nat \<Rightarrow> (auth_intent \<Rightarrow> string + unit) option \<Rightarrow> 'l gate" where
  "approval_chain ops gate today peer =
     chained_authenticate [policy_authenticate ops gate today,
       (case peer of Some prompt \<Rightarrow> elicitation prompt | None \<Rightarrow> require_interactive_proof)]"

text \<open>\<open>ApprovalHold\<close>: dropped uncommitted, it releases every reservation of its operation.\<close>

definition release_holds :: "'l spend_ledger_ops \<Rightarrow> string \<Rightarrow> reserved list \<Rightarrow> 'l \<Rightarrow> 'l" where
  "release_holds ops subject holds l =
     foldl (\<lambda>l r. release ops l subject (rsv_day r) (rsv_amount r)) l holds"

text \<open>
  \<open>with_approval\<close> around a signing function that authenticates a list of intents and then signs or
  fails; the reservations are kept only when it returns its signed result.
\<close>

fun sign_under :: "'l gate \<Rightarrow> auth_intent list \<Rightarrow> string + 't \<Rightarrow> 'l \<times> reserved list \<Rightarrow> ('l \<times> reserved list) \<times> (string + 't)"
where
  "sign_under gate [] outcome st = (st, outcome)"
| "sign_under gate (i # is) outcome st =
     (case gate i st of (st', Inl e) \<Rightarrow> (st', Inl e) | (st', Inr _) \<Rightarrow> sign_under gate is outcome st')"

definition with_approval ::
  "'l spend_ledger_ops \<Rightarrow> policy_gate \<Rightarrow> nat \<Rightarrow> (auth_intent \<Rightarrow> string + unit) option \<Rightarrow> auth_intent list
     \<Rightarrow> string + 't \<Rightarrow> 'l \<Rightarrow> 'l \<times> (string + 't)" where
  "with_approval ops gate today peer intents outcome l =
     (case sign_under (approval_chain ops gate today peer) intents outcome (l, []) of
        ((l', holds), Inl e) \<Rightarrow> (release_holds ops (gate_subject gate) holds l', Inl e)
      | ((l', holds), Inr t) \<Rightarrow> (l', Inr t))"

section \<open>Operations in flight\<close>

text \<open>
  An intent that \<open>reserve\<close> takes as far as the ledger: it moves money, is not recurring, states an
  amount, and the amount is within the per-call ceiling.
\<close>

definition reaches_ledger :: "spend_policy \<Rightarrow> auth_intent \<Rightarrow> bool" where
  "reaches_ledger policy intent \<longleftrightarrow>
     moves_money intent \<and> \<not> is_recurring intent
     \<and> (case amount_minor_units intent of
          None \<Rightarrow> False
        | Some amount \<Rightarrow> (case per_call_ceiling policy of None \<Rightarrow> True | Some ceiling \<Rightarrow> amount \<le> ceiling))"

text \<open>
  Any number of signing operations over one ledger: each has a subject and the reservations it holds.
  \<open>check_and_record\<close> and \<open>count\<close> read the clock first and take the lock afterwards, so the two are steps
  of their own: \<open>read_days\<close> are the calls that have read the day and have not taken the lock yet, and
  other calls, and midnight, may come in between. \<open>entered\<close> logs the days in the order in which the calls
  took the lock, \<open>signed_log\<close> the reservations of operations that returned a signature. The clock never
  goes back.
\<close>

record 'l policy_system =
  ledger :: 'l
  clock :: nat
  read_days :: "(string \<times> nat) list"
  open_ops :: "(string \<times> reserved list) list"
  entered :: "(string \<times> nat) list"
  signed_log :: "(string \<times> reserved) list"

inductive policy_step ::
  "'l spend_ledger_ops \<Rightarrow> (string \<Rightarrow> spend_policy) \<Rightarrow> 'l policy_system \<Rightarrow> 'l policy_system \<Rightarrow> bool"
  for ops policies where
  Tick: "clock st \<le> d \<Longrightarrow> policy_step ops policies st (st\<lparr>clock := d\<rparr>)"
| Begin: "policy_step ops policies st (st\<lparr>open_ops := (s, []) # open_ops st\<rparr>)"
| ReadClock: "policy_step ops policies st (st\<lparr>read_days := (s, clock st) # read_days st\<rparr>)"
| Authenticate: "open_ops st = xs @ (s, holds) # ys \<Longrightarrow> read_days st = us @ (s, today) # vs \<Longrightarrow>
    reaches_ledger (policies s) intent \<Longrightarrow>
    approval_chain ops \<lparr>gate_subject = s, gate_policy = policies s\<rparr> today peer intent (ledger st, holds)
      = ((l', holds'), answer) \<Longrightarrow>
    policy_step ops policies st
      (st\<lparr>ledger := l', read_days := us @ vs, open_ops := xs @ (s, holds') # ys, entered := entered st @ [(s, today)]\<rparr>)"
| AuthenticateLocal: "open_ops st = xs @ (s, holds) # ys \<Longrightarrow> \<not> reaches_ledger (policies s) intent \<Longrightarrow>
    approval_chain ops \<lparr>gate_subject = s, gate_policy = policies s\<rparr> today peer intent (ledger st, holds)
      = ((l', holds'), answer) \<Longrightarrow>
    policy_step ops policies st (st\<lparr>ledger := l', open_ops := xs @ (s, holds') # ys\<rparr>)"
| Commit: "open_ops st = xs @ (s, holds) # ys \<Longrightarrow>
    policy_step ops policies st (st\<lparr>open_ops := xs @ ys, signed_log := signed_log st @ map (Pair s) holds\<rparr>)"
| Release: "open_ops st = xs @ (s, r # holds) # ys \<Longrightarrow>
    policy_step ops policies st
      (st\<lparr>ledger := release ops (ledger st) s (rsv_day r) (rsv_amount r), open_ops := xs @ (s, holds) # ys\<rparr>)"
| Hold: "policy_step ops policies st (st\<lparr>ledger := hold_subject ops (ledger st) s\<rparr>)"
| Count: "read_days st = us @ (s, today) # vs \<Longrightarrow>
    policy_step ops policies st
      (st\<lparr>ledger := count_spent ops (ledger st) today s spent, read_days := us @ vs, entered := entered st @ [(s, today)]\<rparr>)"

definition policy_start :: "'l \<Rightarrow> nat \<Rightarrow> 'l policy_system" where
  "policy_start l d = \<lparr>ledger = l, clock = d, read_days = [], open_ops = [], entered = [], signed_log = []\<rparr>"

text \<open>
  A call is overtaken when a call that read a later day took the lock before it. \<open>overtaken m ds\<close> counts
  them in the order \<open>ds\<close>, \<open>m\<close> being the latest day that has come through.
\<close>

fun overtaken :: "nat \<Rightarrow> nat list \<Rightarrow> nat" where
  "overtaken m [] = 0"
| "overtaken m (d # ds) = (if d < m then 1 else 0) + overtaken (max m d) ds"

definition days_of :: "string \<Rightarrow> (string \<times> nat) list \<Rightarrow> nat list" where
  "days_of s es = map snd (filter (\<lambda>(s', d). s' = s) es)"

definition latest_day :: "nat list \<Rightarrow> nat" where
  "latest_day ds = foldl max 0 ds"

lemma overtaken_append: "overtaken m (ds @ es) = overtaken m ds + overtaken (foldl max m ds) es"
  by (induction ds arbitrary: m) simp_all

lemma overtaken_after [simp]: "overtaken 0 (ds @ es) = overtaken 0 ds + overtaken (latest_day ds) es"
  by (simp add: overtaken_append latest_day_def)

lemma latest_day_append [simp]: "latest_day (ds @ es) = foldl max (latest_day ds) es"
  by (simp add: latest_day_def)

lemma days_of_simps [simp]:
  "days_of s [] = []"
  "days_of s ((s', d) # es) = (if s' = s then d # days_of s es else days_of s es)"
  "days_of s (es @ es') = days_of s es @ days_of s es'"
  by (simp_all add: days_of_def)

lemma overtaken_sorted: "sorted ds \<Longrightarrow> list_all (\<lambda>d. m \<le> d) ds \<Longrightarrow> overtaken m ds = 0"
  by (induction ds arbitrary: m) (auto simp: list_all_iff max_def)

definition open_charges :: "(string \<times> reserved list) list \<Rightarrow> (string \<times> reserved) list" where
  "open_charges os = concat (map (\<lambda>(s, holds). map (Pair s) holds) os)"

definition amount_on :: "string \<Rightarrow> nat \<Rightarrow> (string \<times> reserved) list \<Rightarrow> nat" where
  "amount_on s d rs = sum_list (map (\<lambda>(s', r). if s' = s \<and> rsv_day r = d then rsv_amount r else 0) rs)"

lemma open_charges_simps [simp]:
  "open_charges [] = []"
  "open_charges ((s, holds) # os) = map (Pair s) holds @ open_charges os"
  "open_charges (os @ os') = open_charges os @ open_charges os'"
  by (simp_all add: open_charges_def)

lemma amount_on_simps [simp]:
  "amount_on s d [] = 0"
  "amount_on s d ((s', r) # rs) = (if s' = s \<and> rsv_day r = d then rsv_amount r else 0) + amount_on s d rs"
  "amount_on s d (rs @ rs') = amount_on s d rs + amount_on s d rs'"
  by (simp_all add: amount_on_def)

definition charges :: "'l policy_system \<Rightarrow> (string \<times> reserved) list" where
  "charges st = signed_log st @ open_charges (open_ops st)"

definition capped :: "(string \<Rightarrow> spend_policy) \<Rightarrow> string \<Rightarrow> nat \<Rightarrow> bool" where
  "capped policies s c \<longleftrightarrow> daily_cap (policies s) = Some c \<and> c < 2 ^ 64 - 1"

definition within_ceiling :: "(string \<Rightarrow> spend_policy) \<Rightarrow> string \<times> reserved \<Rightarrow> bool" where
  "within_ceiling policies sr \<longleftrightarrow>
     (case sr of (s, r) \<Rightarrow> \<forall>c. per_call_ceiling (policies s) = Some c \<longrightarrow> rsv_amount r \<le> c)"

lemma reserve_effect:
  assumes "reserve ops gate d intent l = (l', res)"
  shows "case res of
      Inr (Some v) \<Rightarrow> \<exists>a r. v = \<lparr>rsv_day = rec_day r, rsv_amount = a\<rparr>
        \<and> (\<forall>c. per_call_ceiling (gate_policy gate) = Some c \<longrightarrow> a \<le> c)
        \<and> check_and_record ops l d (gate_subject gate) a (daily_cap (gate_policy gate)) = (l', Inr r)
    | _ \<Rightarrow> l' = l \<or> (\<exists>a e. check_and_record ops l d (gate_subject gate) a (daily_cap (gate_policy gate)) = (l', Inl e))"
  using assms
  by (auto simp: reserve_def split: if_splits option.splits prod.splits sum.splits refused.splits)

lemma reserve_local: "\<not> reaches_ledger (gate_policy gate) intent \<Longrightarrow>
    fst (reserve ops gate d intent l) = l \<and> (\<forall>v. snd (reserve ops gate d intent l) \<noteq> Inr (Some v))"
  by (auto simp: reserve_def reaches_ledger_def not_less split: option.splits)

text \<open>The prompt and the proof gate do not touch the ledger.\<close>

lemma approval_chain_effect:
  assumes "approval_chain ops gate d peer intent (l, holds) = ((l', holds'), answer)"
  shows "(holds' = holds \<and> (l' = l \<or> (\<exists>a e. check_and_record ops l d (gate_subject gate) a (daily_cap (gate_policy gate))
            = (l', Inl e))))
    \<or> (\<exists>a r. holds' = holds @ [\<lparr>rsv_day = rec_day r, rsv_amount = a\<rparr>]
        \<and> (\<forall>c. per_call_ceiling (gate_policy gate) = Some c \<longrightarrow> a \<le> c)
        \<and> check_and_record ops l d (gate_subject gate) a (daily_cap (gate_policy gate)) = (l', Inr r))"
proof -
  obtain l1 res where res: "reserve ops gate d intent l = (l1, res)"
    by fastforce
  have "(l', holds') = (l1, case res of Inr (Some v) \<Rightarrow> holds @ [v] | _ \<Rightarrow> holds)"
    using assms by (auto simp: approval_chain_def policy_authenticate_def res require_interactive_proof_def
        elicitation_def split: sum.splits option.splits if_splits)
  then show ?thesis
    using reserve_effect [OF res] by (auto split: sum.splits option.splits)
qed

lemma approval_chain_local:
  assumes "approval_chain ops gate d peer intent (l, holds) = ((l', holds'), answer)"
    and "\<not> reaches_ledger (gate_policy gate) intent"
  shows "l' = l \<and> holds' = holds"
proof -
  obtain l1 res where res: "reserve ops gate d intent l = (l1, res)"
    by fastforce
  then have "l1 = l" "\<And>v. res \<noteq> Inr (Some v)"
    using reserve_local [OF assms(2), of ops d l] by auto
  then show ?thesis
    using assms(1) by (auto simp: approval_chain_def policy_authenticate_def res require_interactive_proof_def
        elicitation_def split: sum.splits option.splits if_splits)
qed

section \<open>The contract of a ledger\<close>

text \<open>
  \<open>charged l s d\<close> is what the ledger counts for a subject on a day. The laws: recording adds the amount
  and answers only within the cap, a release takes back at most the amount, and on a day that is not
  over no operation on one subject touches another or lowers a count.
\<close>

locale spend_ledger =
  fixes ops :: "'l spend_ledger_ops"
    and ledger_inv :: "'l \<Rightarrow> bool"
    and charged :: "'l \<Rightarrow> string \<Rightarrow> nat \<Rightarrow> nat"
  assumes record_inv: "ledger_inv l \<Longrightarrow> ledger_inv (fst (check_and_record ops l d s a cap))"
    and release_inv: "ledger_inv l \<Longrightarrow> ledger_inv (release ops l s d a)"
    and hold_inv: "ledger_inv l \<Longrightarrow> ledger_inv (hold_subject ops l s)"
    and count_inv: "ledger_inv l \<Longrightarrow> ledger_inv (count_spent ops l d s a)"
    and charged_bound: "ledger_inv l \<Longrightarrow> charged l s d < 2 ^ 64"
    and recorded: "ledger_inv l \<Longrightarrow> check_and_record ops l d s a cap = (l', Inr r) \<Longrightarrow>
        rec_day r = d \<and> charged l' s d = min (2 ^ 64 - 1) (charged l s d + a)
        \<and> (\<forall>c. cap = Some c \<longrightarrow> charged l' s d \<le> c)"
    and refused: "ledger_inv l \<Longrightarrow> check_and_record ops l d s a cap = (l', Inl e) \<Longrightarrow> charged l' s d = charged l s d"
    and record_frame: "ledger_inv l \<Longrightarrow> s' \<noteq> s \<Longrightarrow> charged (fst (check_and_record ops l d s a cap)) s' d' = charged l s' d'"
    and released: "ledger_inv l \<Longrightarrow> charged l s d - a \<le> charged (release ops l s d a) s d"
    and release_exact: "ledger_inv l \<Longrightarrow> a \<le> charged l s d \<Longrightarrow> charged (release ops l s d a) s d = charged l s d - a"
    and release_frame: "ledger_inv l \<Longrightarrow> (s', d') \<noteq> (s, d) \<Longrightarrow> charged (release ops l s d a) s' d' = charged l s' d'"
    and hold_frame: "ledger_inv l \<Longrightarrow> charged (hold_subject ops l s) s' d' = charged l s' d'"
    and counted: "ledger_inv l \<Longrightarrow> charged l s d \<le> charged (count_spent ops l d s a) s d"
    and count_frame: "ledger_inv l \<Longrightarrow> s' \<noteq> s \<Longrightarrow> charged (count_spent ops l d s a) s' d' = charged l s' d'"
begin

text \<open>
  A capped subject's charges: nothing on a day after the latest one seen, at most one cap and one more
  for every overtaken call on any day, and on the latest day at most one cap per overtaken call more than
  the ledger still counts.
\<close>

definition subject_inv :: "nat \<Rightarrow> (nat \<Rightarrow> nat) \<Rightarrow> nat list \<Rightarrow> (nat \<Rightarrow> nat) \<Rightarrow> bool" where
  "subject_inv c amount ds ledger_total \<longleftrightarrow>
     (\<forall>d > latest_day ds. amount d = 0)
     \<and> (\<forall>d. amount d \<le> c * (1 + overtaken 0 ds))
     \<and> amount (latest_day ds) \<le> ledger_total (latest_day ds) + c * overtaken 0 ds"

definition policy_inv :: "(string \<Rightarrow> spend_policy) \<Rightarrow> 'l policy_system \<Rightarrow> bool" where
  "policy_inv policies st \<longleftrightarrow>
     ledger_inv (ledger st)
     \<and> (\<forall>s c. capped policies s c \<longrightarrow>
          subject_inv c (\<lambda>d. amount_on s d (charges st)) (days_of s (entered st)) (charged (ledger st) s))
     \<and> list_all (within_ceiling policies) (charges st)"

lemma policy_invD:
  assumes "policy_inv policies st"
  shows "ledger_inv (ledger st)"
    and "capped policies s c \<Longrightarrow>
      subject_inv c (\<lambda>d. amount_on s d (charges st)) (days_of s (entered st)) (charged (ledger st) s)"
    and "list_all (within_ceiling policies) (charges st)"
  using assms unfolding policy_inv_def by blast+

text \<open>Steps that charge nothing and enter no day.\<close>

lemma subject_inv_mono:
  assumes "subject_inv c amount ds tot" and "\<And>d. amount' d \<le> amount d"
    and "amount (latest_day ds) \<le> tot (latest_day ds) + c * overtaken 0 ds \<Longrightarrow>
      amount' (latest_day ds) \<le> tot' (latest_day ds) + c * overtaken 0 ds"
  shows "subject_inv c amount' ds tot'"
  using assms unfolding subject_inv_def by (metis le_zero_eq order_trans)

text \<open>A day enters, and with it \<open>a\<close>, which the ledger counts on that day, within the cap.\<close>

lemma subject_inv_enter:
  assumes inv: "subject_inv c amount ds tot" and amount': "\<And>x. amount' x = amount x + (if x = d then a else 0)"
    and total': "tot d + a \<le> tot' d" and cap: "0 < a \<Longrightarrow> tot d + a \<le> c"
  shows "subject_inv c amount' (ds @ [d]) tot'"
proof -
  let ?M = "latest_day ds" and ?n = "overtaken 0 ds"
  have zero: "amount x = 0" if "?M < x" for x
    using inv that by (simp add: subject_inv_def)
  have all: "amount x \<le> c + c * ?n" for x
    using inv by (simp add: subject_inv_def)
  have top: "amount ?M \<le> tot ?M + c * ?n"
    using inv by (simp add: subject_inv_def)
  have a: "a \<le> c" "0 < a \<Longrightarrow> tot d + a \<le> c"
    using cap by (cases a; simp)+
  consider "d < ?M" | "d = ?M" | "?M < d"
    by linarith
  then show ?thesis
  proof cases
    case 1
    have "amount x + (if x = d then a else 0) \<le> c + (c + c * ?n)" "amount x \<le> c + (c + c * ?n)"
      "amount x \<le> c + (tot' x + c * ?n)" for x
      using all [of x] a(1) by auto
    then show ?thesis
      using 1 zero by (auto simp: subject_inv_def amount' max_def algebra_simps)
  next
    case 2
    have "amount d + a \<le> c + c * ?n"
      using top all [of d] a 2 by (cases "0 < a") auto
    then show ?thesis
      using 2 zero all top total' by (auto simp: subject_inv_def amount')
  next
    case 3
    then show ?thesis
      using zero all a(1) total' by (auto simp: subject_inv_def amount' max_def trans_le_add1)
  qed
qed

lemma policy_inv_mono:
  assumes "policy_inv policies st" and "ledger_inv (ledger st')" and "entered st' = entered st"
    and "\<And>s d. amount_on s d (charges st') \<le> amount_on s d (charges st)"
    and "\<And>s d n. amount_on s d (charges st) \<le> charged (ledger st) s d + n \<Longrightarrow>
      amount_on s d (charges st') \<le> charged (ledger st') s d + n"
    and "set (charges st') \<subseteq> set (charges st)"
  shows "policy_inv policies st'"
  unfolding policy_inv_def
proof (intro conjI allI impI)
  fix s c assume "capped policies s c"
  from policy_invD(2) [OF assms(1) this]
  show "subject_inv c (\<lambda>d. amount_on s d (charges st')) (days_of s (entered st')) (charged (ledger st') s)"
    unfolding assms(3) by (rule subject_inv_mono) (use assms(4,5) in auto)
qed (use assms policy_invD(3) [OF assms(1)] in \<open>auto simp: list_all_iff\<close>)

text \<open>A reservation granted to a capped subject is charged in full, and within the cap.\<close>

lemma granted:
  assumes "ledger_inv l" and "check_and_record ops l d s a (Some c) = (l', Inr r)" and "c < 2 ^ 64 - 1"
  shows "charged l' s d = charged l s d + a" and "charged l s d + a \<le> c"
proof -
  have "charged l' s d = min (2 ^ 64 - 1) (charged l s d + a)" "charged l' s d \<le> c" "c < 2 ^ 64 - 1"
    using recorded [OF assms(1,2)] assms(3) by auto
  then show "charged l' s d = charged l s d + a" and "charged l s d + a \<le> c"
    by (simp_all add: min_def split: if_splits)
qed

text \<open>One locked call for a subject on the day it read, which adds \<open>a\<close> to what the subject was charged.\<close>

lemma enter_inv:
  assumes inv: "policy_inv policies st" and "ledger_inv l'" and "ledger st' = l'" and "entered st' = entered st @ [(s, d)]"
    and amount: "\<And>s' x. amount_on s' x (charges st') = amount_on s' x (charges st) + (if s' = s \<and> x = d then a else 0)"
    and frame: "\<And>s' x. s' \<noteq> s \<Longrightarrow> charged l' s' x = charged (ledger st) s' x"
    and total: "\<And>c. capped policies s c \<Longrightarrow> charged (ledger st) s d + a \<le> charged l' s d"
    and cap: "\<And>c. capped policies s c \<Longrightarrow> 0 < a \<Longrightarrow> charged (ledger st) s d + a \<le> c"
    and ceiling: "list_all (within_ceiling policies) (charges st')"
  shows "policy_inv policies st'"
  unfolding policy_inv_def
proof (intro conjI allI impI)
  fix s' c assume c: "capped policies s' c"
  note D = policy_invD(2) [OF inv c]
  show "subject_inv c (\<lambda>d. amount_on s' d (charges st')) (days_of s' (entered st')) (charged (ledger st') s')"
  proof (cases "s' = s")
    case True
    then show ?thesis
      using subject_inv_enter [OF D, of _ d a "charged l' s"] total cap c assms(3,4) amount by auto
  next
    case False
    then show ?thesis
      using subject_inv_mono [OF D] frame amount assms(3,4) by auto
  qed
qed (use assms in simp_all)

lemma authenticate_inv:
  assumes inv: "policy_inv policies st" and os: "open_ops st = xs @ (s, holds) # ys"
    and chain: "approval_chain ops \<lparr>gate_subject = s, gate_policy = policies s\<rparr> today peer intent (ledger st, holds)
      = ((l', holds'), answer)"
  shows "policy_inv policies
    (st\<lparr>ledger := l', read_days := rs, open_ops := xs @ (s, holds') # ys, entered := entered st @ [(s, today)]\<rparr>)"
    (is "policy_inv policies ?st")
proof -
  note D = policy_invD [OF inv]
  let ?cap = "daily_cap (policies s)"
  from approval_chain_effect [OF chain] consider
      (same) "holds' = holds" "l' = ledger st"
    | (no) a e where "holds' = holds" "check_and_record ops (ledger st) today s a ?cap = (l', Inl e)"
    | (yes) a r where "holds' = holds @ [\<lparr>rsv_day = rec_day r, rsv_amount = a\<rparr>]"
      "within_ceiling policies (s, \<lparr>rsv_day = rec_day r, rsv_amount = a\<rparr>)"
      "check_and_record ops (ledger st) today s a ?cap = (l', Inr r)"
    by (auto simp: within_ceiling_def)
  then show ?thesis
  proof cases
    case same
    then show ?thesis
      using D by (intro enter_inv [OF inv, of l' _ s today 0]) (auto simp: charges_def os)
  next
    case no
    then show ?thesis
      using D record_inv [OF D(1), of today s a ?cap] record_frame [OF D(1), of _ s today a ?cap] refused [OF D(1) no(2)]
      by (intro enter_inv [OF inv, of l' _ s today 0]) (auto simp: charges_def os)
  next
    case yes
    have day: "rec_day r = today"
      using recorded [OF D(1) yes(3)] by simp
    have "charged l' s today = charged (ledger st) s today + a \<and> charged (ledger st) s today + a \<le> c"
      if "capped policies s c" for c
      using granted [OF D(1), of today s a c l' r] yes(3) that by (simp add: capped_def)
    then show ?thesis
      using D yes record_inv [OF D(1), of today s a ?cap] record_frame [OF D(1), of _ s today a ?cap]
      by (intro enter_inv [OF inv, of l' _ s today a]) (auto simp: charges_def os day)
  qed
qed

lemma step_inv:
  assumes "policy_step ops policies st st'" and inv: "policy_inv policies st"
  shows "policy_inv policies st'"
  using assms(1)
proof cases
  note D = policy_invD [OF inv]
  {
    case (Tick d)
    then show ?thesis
      using D by (intro policy_inv_mono [OF inv]) (auto simp: charges_def)
  next
    case (Begin s)
    then show ?thesis
      using D by (intro policy_inv_mono [OF inv]) (auto simp: charges_def)
  next
    case (ReadClock s)
    then show ?thesis
      using D by (intro policy_inv_mono [OF inv]) (auto simp: charges_def)
  next
    case (Authenticate xs s holds ys us today vs intent peer l' holds' answer)
    then show ?thesis
      using authenticate_inv [OF inv Authenticate(2,5)] by simp
  next
    case (AuthenticateLocal xs s holds ys intent today peer l' holds' answer)
    then show ?thesis
      using D approval_chain_local [OF AuthenticateLocal(4)]
      by (intro policy_inv_mono [OF inv]) (auto simp: charges_def)
  next
    case (Commit xs s holds ys)
    then show ?thesis
      using D by (intro policy_inv_mono [OF inv]) (auto simp: charges_def)
  next
    case (Release xs s r holds ys)
    have "amount_on s' d (charges st') \<le> charged (ledger st') s' d + n"
      if "amount_on s' d (charges st) \<le> charged (ledger st) s' d + n" for s' d n
    proof (cases "s' = s \<and> rsv_day r = d")
      case True
      then show ?thesis
        using that released [OF D(1), of s d "rsv_amount r"] Release by (auto simp: charges_def)
    next
      case False
      then have "charged (ledger st') s' d = charged (ledger st) s' d"
        using release_frame [OF D(1), of s' d s "rsv_day r"] Release(1) by auto
      then show ?thesis
        using that False Release by (auto simp: charges_def)
    qed
    then show ?thesis
      using D(1) Release by (intro policy_inv_mono [OF inv]) (auto simp: charges_def intro: release_inv)
  next
    case (Hold s)
    then show ?thesis
      using D by (intro policy_inv_mono [OF inv]) (auto simp: charges_def hold_frame intro: hold_inv)
  next
    case (Count us s today vs spent)
    then show ?thesis
      using D counted [OF D(1), of s today spent] count_frame [OF D(1), of _ s today spent]
        count_inv [OF D(1), of today s spent]
      by (intro enter_inv [OF inv, of "ledger st'" _ s today 0]) (auto simp: charges_def)
  }
qed

lemma reachable_inv:
  "(policy_step ops policies)\<^sup>*\<^sup>* st st' \<Longrightarrow> policy_inv policies st \<Longrightarrow> policy_inv policies st'"
  by (induction rule: rtranclp_induct) (auto intro: step_inv)

lemma initial_inv: "ledger_inv l \<Longrightarrow> policy_inv policies (policy_start l d)"
  by (simp add: policy_inv_def charges_def policy_start_def subject_inv_def)

lemma reachable_within_policy:
  assumes "(policy_step ops policies)\<^sup>*\<^sup>* (policy_start l d0) st" and "ledger_inv l"
  shows "capped policies s c \<Longrightarrow> amount_on s d (signed_log st) \<le> c * (1 + overtaken 0 (days_of s (entered st)))"
    and "list_all (within_ceiling policies) (signed_log st)"
proof -
  note D = policy_invD [OF reachable_inv [OF assms(1) initial_inv [OF assms(2)]]]
  show "amount_on s d (signed_log st) \<le> c * (1 + overtaken 0 (days_of s (entered st)))" if "capped policies s c"
  proof -
    have "amount_on s d (charges st) \<le> c * (1 + overtaken 0 (days_of s (entered st)))"
      using D(2) [OF that] by (simp add: subject_inv_def)
    then show ?thesis
      by (simp add: charges_def)
  qed
  show "list_all (within_ceiling policies) (signed_log st)"
    using D(3) by (simp add: charges_def)
qed

text \<open>While an operation of a capped subject runs alone, the ledger counts what it holds on top of the rest.\<close>

definition holds_on :: "nat \<Rightarrow> reserved list \<Rightarrow> bool" where
  "holds_on d holds \<longleftrightarrow> (\<forall>r\<in>set holds. rsv_day r = d)"

definition operating :: "'l \<Rightarrow> string \<Rightarrow> nat \<Rightarrow> 'l \<times> reserved list \<Rightarrow> bool" where
  "operating l s d st \<longleftrightarrow>
     ledger_inv (fst st) \<and> holds_on d (snd st)
     \<and> charged (fst st) s d = charged l s d + sum_list (map rsv_amount (snd st))
     \<and> (\<forall>s' d'. s' \<noteq> s \<longrightarrow> charged (fst st) s' d' = charged l s' d')"

lemma approval_chain_operating:
  assumes "operating l s d (l1, holds)" and "daily_cap policy = Some c" and "c < 2 ^ 64 - 1"
    and "approval_chain ops \<lparr>gate_subject = s, gate_policy = policy\<rparr> d peer intent (l1, holds) = (st', answer)"
  shows "operating l s d st'"
proof -
  obtain l' holds' where st': "st' = (l', holds')"
    by (cases st')
  have inv: "ledger_inv l1"
    using assms(1) by (simp add: operating_def)
  from approval_chain_effect [OF assms(4) [unfolded st']] consider
      (no) "holds' = holds" "l' = l1 \<or> (\<exists>a e. check_and_record ops l1 d s a (Some c) = (l', Inl e))"
    | (yes) a r where "holds' = holds @ [\<lparr>rsv_day = rec_day r, rsv_amount = a\<rparr>]"
      "check_and_record ops l1 d s a (Some c) = (l', Inr r)"
    using assms(2) by auto
  then show ?thesis
  proof cases
    case no
    then have "ledger_inv l'" "charged l' s d = charged l1 s d" "\<forall>s' d'. s' \<noteq> s \<longrightarrow> charged l' s' d' = charged l1 s' d'"
      using inv record_inv [OF inv] refused [OF inv] record_frame [OF inv] by (metis fst_conv)+
    then show ?thesis
      using assms(1) no(1) by (simp add: operating_def st')
  next
    case yes
    have "ledger_inv l'" "\<forall>s' d'. s' \<noteq> s \<longrightarrow> charged l' s' d' = charged l1 s' d'"
      using record_inv [OF inv, of d s a "Some c"] record_frame [OF inv, of _ s d a "Some c"] yes(2) by simp_all
    then show ?thesis
      using assms(1) granted(1) [OF inv yes(2) assms(3)] recorded [OF inv yes(2)] yes(1)
      by (simp add: operating_def st' holds_on_def)
  qed
qed

lemma sign_under_operating:
  assumes "operating l s d st" and "daily_cap policy = Some c" and "c < 2 ^ 64 - 1"
    and "sign_under (approval_chain ops \<lparr>gate_subject = s, gate_policy = policy\<rparr> d peer) intents outcome st = (st', res)"
  shows "operating l s d st'"
  using assms(1,4)
proof (induction intents arbitrary: st)
  case (Cons i "is")
  obtain st1 answer where step: "approval_chain ops \<lparr>gate_subject = s, gate_policy = policy\<rparr> d peer i st = (st1, answer)"
    by fastforce
  have "operating l s d st1"
    using approval_chain_operating [of l s d "fst st" "snd st", OF _ assms(2,3)] Cons.prems(1) step by simp
  then show ?case
    using Cons.IH [of st1] Cons.prems(2) step by (cases answer) auto
qed simp

lemma release_holds_restores:
  assumes "operating l s d (l1, holds)"
  shows "charged (release_holds ops s holds l1) s' d = charged l s' d"
  using assms
proof (induction holds arbitrary: l1)
  case Nil
  then show ?case
    by (cases "s' = s") (simp_all add: release_holds_def operating_def)
next
  case (Cons r holds)
  let ?l = "release ops l1 s (rsv_day r) (rsv_amount r)"
  have inv: "ledger_inv l1" and day: "rsv_day r = d"
    and amount: "charged l1 s d = charged l s d + rsv_amount r + sum_list (map rsv_amount holds)"
    using Cons.prems by (simp_all add: operating_def holds_on_def)
  have "operating l s d (?l, holds)"
    using Cons.prems amount release_exact [OF inv, of "rsv_amount r" s d] release_frame [OF inv, of _ _ s d "rsv_amount r"]
      release_inv [OF inv]
    by (simp add: operating_def holds_on_def day)
  then show ?case
    using Cons.IH by (simp add: release_holds_def)
qed

lemma failed_operation_free:
  assumes "ledger_inv l" and "daily_cap policy = Some c" and "c < 2 ^ 64 - 1"
    and "with_approval ops \<lparr>gate_subject = s, gate_policy = policy\<rparr> d peer intents outcome l = (l', Inl e)"
  shows "charged l' s' d = charged l s' d"
proof -
  obtain l1 holds res where run: "sign_under (approval_chain ops \<lparr>gate_subject = s, gate_policy = policy\<rparr> d peer)
      intents outcome (l, []) = ((l1, holds), res)"
    by (metis surj_pair)
  have "operating l s d (l, [])"
    using assms(1) by (simp add: operating_def holds_on_def)
  from sign_under_operating [OF this assms(2,3) run] show ?thesis
    using assms(4) run release_holds_restores by (auto simp: with_approval_def split: sum.splits)
qed

end

section \<open>The in-memory ledger keeps the contract\<close>

definition book_inv :: "book \<Rightarrow> bool" where
  "book_inv b \<longleftrightarrow> (\<forall>s d t. totals b s = Some (d, t) \<longrightarrow> t < 2 ^ 64)"

definition book_charged :: "book \<Rightarrow> string \<Rightarrow> nat \<Rightarrow> nat" where
  "book_charged b s d = memory_spent_today b d s"

lemma entry_today_charged: "entry_today b d s = book_charged b s d"
  by (auto simp: entry_today_def book_charged_def memory_spent_today_def split: option.split)

lemma book_charged_bound: "book_inv b \<Longrightarrow> book_charged b s d < 2 ^ 64"
  by (auto simp: book_inv_def book_charged_def memory_spent_today_def split: option.splits)

lemma book_inv_upd: "book_inv b \<Longrightarrow> t < 2 ^ 64 \<Longrightarrow> book_inv (b\<lparr>totals := (totals b)(s \<mapsto> (d, t))\<rparr>)"
  by (auto simp: book_inv_def)

lemma book_charged_upd [simp]:
  "book_charged (b\<lparr>totals := (totals b)(s \<mapsto> (d, t))\<rparr>) s' d'
     = (if s' = s then if d' = d then t else 0 else book_charged b s' d')"
  by (simp add: book_charged_def memory_spent_today_def)

interpretation memory: spend_ledger memory_ledger book_inv book_charged
proof unfold_locales
  fix l :: book and s s' d d' a cap l' r e
  assume inv: "book_inv l"
  have small: "saturating_add 64 x y < 2 ^ 64" for x y
    by (simp add: saturating_add_def)
  note defs = memory_ledger_def memory_check_and_record_def memory_release_def memory_hold_def memory_count_def
    entry_today_charged
  show "book_inv (fst (check_and_record memory_ledger l d s a cap))"
    using inv small book_charged_bound [OF inv] by (auto simp: defs Let_def intro: book_inv_upd)
  show "book_inv (release memory_ledger l s d a)"
    using inv by (auto simp: defs saturating_sub_def book_inv_def less_imp_diff_less split: option.split prod.split)
  show "book_inv (hold_subject memory_ledger l s)"
    using inv by (simp add: defs book_inv_def)
  show "book_inv (count_spent memory_ledger l d s a)"
    using inv small by (auto simp: defs book_inv_def)
  show "book_charged l s d < 2 ^ 64"
    by (rule book_charged_bound [OF inv])
  show "rec_day r = d \<and> book_charged l' s d = min (2 ^ 64 - 1) (book_charged l s d + a)
      \<and> (\<forall>c. cap = Some c \<longrightarrow> book_charged l' s d \<le> c)"
    if "check_and_record memory_ledger l d s a cap = (l', Inr r)"
    using that by (auto simp: defs Let_def saturating_add_def min.commute split: if_splits option.splits)
  show "book_charged l' s d = book_charged l s d" if "check_and_record memory_ledger l d s a cap = (l', Inl e)"
    using that by (auto simp: defs Let_def split: if_splits)
  show "book_charged (fst (check_and_record memory_ledger l d s a cap)) s' d' = book_charged l s' d'" if "s' \<noteq> s"
    using that by (simp add: defs Let_def)
  show "book_charged l s d - a \<le> book_charged (release memory_ledger l s d a) s d"
    by (auto simp: defs saturating_sub_def book_charged_def memory_spent_today_def split: option.split)
  show "book_charged (release memory_ledger l s d a) s d = book_charged l s d - a" if "a \<le> book_charged l s d"
    using that by (auto simp: defs saturating_sub_def book_charged_def memory_spent_today_def split: option.splits)
  show "book_charged (release memory_ledger l s d a) s' d' = book_charged l s' d'" if "(s', d') \<noteq> (s, d)"
    using that by (auto simp: defs book_charged_def memory_spent_today_def split: option.split)
  show "book_charged (hold_subject memory_ledger l s) s' d' = book_charged l s' d'"
    by (simp add: defs book_charged_def memory_spent_today_def)
  show "book_charged l s d \<le> book_charged (count_spent memory_ledger l d s a) s d"
    using book_charged_bound [OF inv, of s d]
    by (simp add: defs saturating_add_def book_charged_def memory_spent_today_def)
  show "book_charged (count_spent memory_ledger l d s a) s' d' = book_charged l s' d'" if "s' \<noteq> s"
    using that by (simp add: defs book_charged_def memory_spent_today_def)
qed

section \<open>A book of single charges\<close>

text \<open>
  The specification the in-memory ledger implements: every charge is kept on its own, the spend of a
  day is their sum, and a release strikes out the charge it names. \<open>None\<close> is a use the specification
  does not cover: a clock that goes back, a release of something never charged, a sum above 64 bits.
\<close>

record charge_book =
  live :: "(string \<times> nat \<times> nat) multiset"
  frozen :: "string set"

definition spec_total :: "charge_book \<Rightarrow> string \<Rightarrow> nat \<Rightarrow> nat" where
  "spec_total cb s d = (\<Sum>(s', d', a)\<in>#live cb. if s' = s \<and> d' = d then a else 0)"

datatype ledger_op =
    RecordOp nat string nat "nat option"
  | ReleaseOp string nat nat
  | HoldOp string
  | CountOp nat string nat

fun memory_op :: "book \<Rightarrow> ledger_op \<Rightarrow> book \<times> (refused + recorded) option" where
  "memory_op b (RecordOp d s a cap) = (case memory_check_and_record b d s a cap of (b', r) \<Rightarrow> (b', Some r))"
| "memory_op b (ReleaseOp s d a) = (memory_release b s d a, None)"
| "memory_op b (HoldOp s) = (memory_hold b s, None)"
| "memory_op b (CountOp d s a) = (memory_count b d s a, None)"

fun spec_op :: "nat \<Rightarrow> charge_book \<Rightarrow> ledger_op \<Rightarrow> (nat \<times> charge_book \<times> (refused + recorded) option) option" where
  "spec_op now cb (RecordOp d s a cap) =
     (if d < now \<or> 2 ^ 64 \<le> spec_total cb s d + a then None
      else Some (d,
        if s \<in> frozen cb then (cb, Some (Inl Held))
        else if (case cap of None \<Rightarrow> False | Some c \<Rightarrow> c < spec_total cb s d + a)
        then (cb, Some (Inl (OverCap (spec_total cb s d + a))))
        else (cb\<lparr>live := add_mset (s, d, a) (live cb)\<rparr>,
              Some (Inr \<lparr>rec_day = d, rec_total = spec_total cb s d + a\<rparr>))))"
| "spec_op now cb (ReleaseOp s d a) =
     (if (s, d, a) \<notin># live cb then None else Some (now, cb\<lparr>live := live cb - {#(s, d, a)#}\<rparr>, None))"
| "spec_op now cb (HoldOp s) = Some (now, cb\<lparr>frozen := insert s (frozen cb)\<rparr>, None)"
| "spec_op now cb (CountOp d s a) =
     (if d < now \<or> 2 ^ 64 \<le> spec_total cb s d + a then None
      else Some (d, cb\<lparr>frozen := frozen cb - {s}, live := add_mset (s, d, a) (live cb)\<rparr>, None))"

fun memory_answers :: "book \<Rightarrow> ledger_op list \<Rightarrow> (refused + recorded) option list" where
  "memory_answers b [] = []"
| "memory_answers b (c # cs) = (case memory_op b c of (b', r) \<Rightarrow> r # memory_answers b' cs)"

fun spec_answers :: "nat \<Rightarrow> charge_book \<Rightarrow> ledger_op list \<Rightarrow> (refused + recorded) option list option" where
  "spec_answers now cb [] = Some []"
| "spec_answers now cb (c # cs) =
     (case spec_op now cb c of None \<Rightarrow> None | Some (now', cb', r) \<Rightarrow> map_option ((#) r) (spec_answers now' cb' cs))"

definition entry_agrees :: "charge_book \<Rightarrow> nat \<Rightarrow> string \<Rightarrow> (nat \<times> nat) option \<Rightarrow> bool" where
  "entry_agrees cb now s entry \<longleftrightarrow>
     (case entry of
        None \<Rightarrow> \<forall>d a. (s, d, a) \<notin># live cb
      | Some (d, t) \<Rightarrow> d \<le> now \<and> t = spec_total cb s d \<and> (\<forall>d' a. (s, d', a) \<in># live cb \<longrightarrow> d' \<le> d))"

definition book_refines :: "nat \<Rightarrow> book \<Rightarrow> charge_book \<Rightarrow> bool" where
  "book_refines now b cb \<longleftrightarrow> held b = frozen cb \<and> (\<forall>s. entry_agrees cb now s (totals b s))"

lemma spec_total_simps:
  "spec_total (cb\<lparr>live := add_mset (s, d, a) m\<rparr>) s' d' = (if s' = s \<and> d' = d then a else 0) + spec_total (cb\<lparr>live := m\<rparr>) s' d'"
  "spec_total (cb\<lparr>frozen := f\<rparr>) s' d' = spec_total cb s' d'"
  "spec_total (cb\<lparr>live := live cb\<rparr>) s' d' = spec_total cb s' d'"
  by (auto simp: spec_total_def)

lemma spec_total_zero: "(\<And>a. (s, d, a) \<notin># live cb) \<Longrightarrow> spec_total cb s d = 0"
  unfolding spec_total_def by (rule sum_mset.neutral) auto

lemma spec_total_remove:
  assumes "(s, d, a) \<in># live cb"
  shows "spec_total cb s' d' = (if s' = s \<and> d' = d then a else 0) + spec_total (cb\<lparr>live := live cb - {#(s, d, a)#}\<rparr>) s' d'"
proof -
  obtain m where m: "live cb = add_mset (s, d, a) m"
    using multi_member_split [OF assms] by blast
  then have "cb = cb\<lparr>live := add_mset (s, d, a) m\<rparr>"
    by simp
  then have "spec_total cb s' d' = spec_total (cb\<lparr>live := add_mset (s, d, a) m\<rparr>) s' d'"
    by simp
  then show ?thesis
    by (simp add: spec_total_simps m)
qed

text \<open>The entry of today is the sum of the charges of today.\<close>

lemma entry_today_total:
  assumes "book_refines now b cb" and "now \<le> d"
  shows "entry_today b d s = spec_total cb s d" and "(s, d', a) \<in># live cb \<Longrightarrow> d' \<le> d"
proof -
  have agrees: "entry_agrees cb now s (totals b s)"
    using assms(1) by (simp add: book_refines_def)
  show "entry_today b d s = spec_total cb s d"
    using agrees assms(2)
    by (auto simp: entry_today_def entry_agrees_def split: option.splits) (rule spec_total_zero, force)+
  show "(s, d', a) \<in># live cb \<Longrightarrow> d' \<le> d"
    using agrees assms(2) by (auto simp: entry_agrees_def split: option.splits)
qed

lemma entry_agrees_frozen [simp]: "entry_agrees (cb\<lparr>frozen := f\<rparr>) now s entry = entry_agrees cb now s entry"
  by (simp add: entry_agrees_def spec_total_simps split: option.split)

lemma entry_agrees_later: "entry_agrees cb now s entry \<Longrightarrow> now \<le> d \<Longrightarrow> entry_agrees cb d s entry"
  unfolding entry_agrees_def by (simp split: option.splits prod.splits)

lemma refines_upd:
  assumes "book_refines now b cb" and "now \<le> d" and "t = spec_total cb' s d" and "held b' = frozen cb'"
    and "totals b' = (totals b)(s \<mapsto> (d, t))"
    and "\<And>s' d'. s' \<noteq> s \<Longrightarrow> spec_total cb' s' d' = spec_total cb s' d'"
    and "\<And>s' d' a. (s', d', a) \<in># live cb' \<Longrightarrow> (s', d', a) \<in># live cb \<or> s' = s \<and> d' = d"
  shows "book_refines d b' cb'"
  unfolding book_refines_def
proof (intro conjI allI)
  show "entry_agrees cb' d s' (totals b' s')" for s'
  proof (cases "s' = s")
    case True
    then show ?thesis
      using assms(3,5,7) entry_today_total(2) [OF assms(1,2)] by (fastforce simp: entry_agrees_def)
  next
    case False
    have "entry_agrees cb now s' (totals b s')"
      using assms(1) by (simp add: book_refines_def)
    then show ?thesis
      using False assms(2,5,6,7) by (fastforce simp: entry_agrees_def split: option.splits)
  qed
qed (rule assms(4))

lemma memory_op_refines:
  assumes R: "book_refines now b cb" and "spec_op now cb c = Some (now', cb', r)"
  shows "snd (memory_op b c) = r \<and> book_refines now' (fst (memory_op b c)) cb'"
proof (cases c)
  case (RecordOp d s a cap)
  then have d: "now \<le> d" and fits: "spec_total cb s d + a < 2 ^ 64" and now': "now' = d"
    and spec: "(cb', r) = (if s \<in> frozen cb then (cb, Some (Inl Held))
        else if (case cap of None \<Rightarrow> False | Some c \<Rightarrow> c < spec_total cb s d + a)
        then (cb, Some (Inl (OverCap (spec_total cb s d + a))))
        else (cb\<lparr>live := add_mset (s, d, a) (live cb)\<rparr>,
              Some (Inr \<lparr>rec_day = d, rec_total = spec_total cb s d + a\<rparr>)))"
    using assms(2) by (auto split: if_splits)
  have following: "saturating_add 64 (entry_today b d s) a = spec_total cb s d + a"
    using fits by (simp add: entry_today_total(1) [OF R d] saturating_add_def)
  have held: "held b = frozen cb"
    using R by (simp add: book_refines_def)
  have later: "book_refines d b cb"
    using R d by (auto simp: book_refines_def intro: entry_agrees_later)
  have step: "memory_check_and_record b d s a cap =
     (if s \<in> frozen cb then (b, Inl Held)
      else if (case cap of None \<Rightarrow> False | Some c \<Rightarrow> c < spec_total cb s d + a) then
        (b\<lparr>totals := (totals b)(s \<mapsto> (d, entry_today b d s))\<rparr>, Inl (OverCap (spec_total cb s d + a)))
      else (b\<lparr>totals := (totals b)(s \<mapsto> (d, spec_total cb s d + a))\<rparr>,
        Inr \<lparr>rec_day = d, rec_total = spec_total cb s d + a\<rparr>))"
    unfolding memory_check_and_record_def Let_def following held by (rule refl)
  have refused: "book_refines d (b\<lparr>totals := (totals b)(s \<mapsto> (d, entry_today b d s))\<rparr>) cb"
    using held by (intro refines_upd [OF R d]) (simp_all add: entry_today_total(1) [OF R d])
  have granted: "book_refines d (b\<lparr>totals := (totals b)(s \<mapsto> (d, spec_total cb s d + a))\<rparr>)
      (cb\<lparr>live := add_mset (s, d, a) (live cb)\<rparr>)"
    using held by (intro refines_upd [OF R d]) (auto simp: spec_total_simps)
  show ?thesis
    using spec later refused granted unfolding RecordOp now' memory_op.simps step
    by (simp split: if_splits)
next
  case (ReleaseOp s d a)
  then have live: "(s, d, a) \<in># live cb" and cb': "cb' = cb\<lparr>live := live cb - {#(s, d, a)#}\<rparr>" "now' = now" "r = None"
    using assms(2) by (auto split: if_splits)
  note total = spec_total_remove [OF live]
  have "entry_agrees cb' now s' (totals (memory_release b s d a) s')" for s'
  proof -
    have agrees: "entry_agrees cb now s' (totals b s')"
      using R by (simp add: book_refines_def)
    have sub: "(s', d', a') \<in># live cb" if "(s', d', a') \<in># live cb'" for d' a'
      using that by (auto simp: cb' dest: in_diffD)
    show ?thesis
    proof (cases "totals b s'")
      case None
      then have "totals (memory_release b s d a) s' = None"
        by (auto simp: memory_release_def split: option.split)
      then show ?thesis
        using agrees sub None by (auto simp: entry_agrees_def)
    next
      case (Some entry)
      obtain e t where entry: "entry = (e, t)"
        by (cases entry)
      have old: "e \<le> now" "t = spec_total cb s' e" "\<And>d' a'. (s', d', a') \<in># live cb \<Longrightarrow> d' \<le> e"
        using agrees by (auto simp: Some entry entry_agrees_def)
      have "totals (memory_release b s d a) s' = Some (e, if s' = s \<and> e = d then saturating_sub t a else t)"
        using Some by (auto simp: entry memory_release_def split: option.split)
      moreover have "(if s' = s \<and> e = d then saturating_sub t a else t) = spec_total cb' s' e"
        using total [of s' e] by (auto simp: old(2) saturating_sub_def cb')
      ultimately show ?thesis
        using old(1,3) sub by (auto simp: entry_agrees_def)
    qed
  qed
  then show ?thesis
    using R by (auto simp: ReleaseOp cb' book_refines_def memory_release_def split: option.split)
next
  case (HoldOp s)
  then show ?thesis
    using assms by (auto simp: book_refines_def memory_hold_def)
next
  case (CountOp d s a)
  then have d: "now \<le> d" and fits: "spec_total cb s d + a < 2 ^ 64"
    and cb': "cb' = cb\<lparr>frozen := frozen cb - {s}, live := add_mset (s, d, a) (live cb)\<rparr>" "now' = d" "r = None"
    using assms(2) by (auto split: if_splits)
  have "saturating_add 64 (entry_today b d s) a = spec_total cb s d + a"
    using fits by (simp add: entry_today_total(1) [OF R d] saturating_add_def)
  moreover have "held b = frozen cb"
    using R by (simp add: book_refines_def)
  ultimately show ?thesis
    by (auto simp: CountOp cb' memory_count_def spec_total_simps intro!: refines_upd [OF R d])
qed

lemma memory_answers_refine:
  assumes "book_refines now b cb" and "spec_answers now cb cs = Some rs"
  shows "memory_answers b cs = rs"
  using assms
proof (induction cs arbitrary: now b cb rs)
  case (Cons c cs)
  obtain now' cb' r rs' where spec: "spec_op now cb c = Some (now', cb', r)" "spec_answers now' cb' cs = Some rs'" "rs = r # rs'"
    using Cons.prems(2) by (auto split: option.splits)
  show ?case
    using memory_op_refines [OF Cons.prems(1) spec(1)] Cons.IH [OF _ spec(2)] spec(3)
    by (cases "memory_op b c") auto
qed simp

lemma new_book_inv: "book_inv new_book"
  by (simp add: book_inv_def new_book_def)

lemma new_book_refines: "book_refines now new_book \<lparr>live = {#}, frozen = {}\<rparr>"
  by (simp add: book_refines_def new_book_def entry_agrees_def)

section \<open>Concrete policies\<close>

definition sample_policy :: spend_policy where
  "sample_policy = \<lparr>per_call_ceiling = Some 10000, daily_cap = Some 15000\<rparr>"

definition sample_payment :: auth_intent where
  "sample_payment = AuthorizePayment ''authorize a payment.'' None (Some 9000) False"

lemmas sample_policy_defs = sample_policy_def sample_payment_def approval_chain_def policy_authenticate_def reserve_def
  moves_money_def is_recurring_def amount_minor_units_def signs_raw_proof_def require_interactive_proof_def
  elicitation_def memory_ledger_def memory_check_and_record_def memory_release_def entry_today_def new_book_def
  saturating_add_def saturating_sub_def

definition payment_of :: "nat \<Rightarrow> auth_intent" where
  "payment_of amount = AuthorizePayment ''authorize a payment.'' None (Some amount) False"

abbreviation charge_entry :: "string \<Rightarrow> nat \<Rightarrow> nat \<Rightarrow> book \<Rightarrow> book" where
  "charge_entry s d a l \<equiv> l\<lparr>totals := (totals l)(s \<mapsto> (d, a))\<rparr>"

text \<open>A call that finds nothing counted for its day is granted the whole cap, signed, and over.\<close>

lemma whole_cap_reach:
  assumes "read_days st = us @ (s, d) # vs" and "s \<notin> held (ledger st)" and "entry_today (ledger st) d s = 0"
    and "policies s = \<lparr>per_call_ceiling = None, daily_cap = Some c\<rparr>" and "c < 2 ^ 64 - 1"
  shows "(policy_step memory_ledger policies)\<^sup>*\<^sup>* st
    (st\<lparr>ledger := charge_entry s d c (ledger st), read_days := us @ vs, entered := entered st @ [(s, d)],
        signed_log := signed_log st @ [(s, \<lparr>rsv_day = d, rsv_amount = c\<rparr>)]\<rparr>)"
    (is "?step\<^sup>*\<^sup>* st ?st")
proof -
  let ?r = "\<lparr>rsv_day = d, rsv_amount = c\<rparr>"
  let ?st1 = "st\<lparr>open_ops := (s, []) # open_ops st\<rparr>"
  let ?st2 = "?st1\<lparr>ledger := charge_entry s d c (ledger st), read_days := us @ vs,
      open_ops := [] @ (s, [?r]) # open_ops st, entered := entered st @ [(s, d)]\<rparr>"
  have chain: "approval_chain memory_ledger \<lparr>gate_subject = s, gate_policy = policies s\<rparr> d None (payment_of c) (ledger st, [])
      = ((charge_entry s d c (ledger st), [?r]), Inr ())"
    using assms(2-5) by (simp add: payment_of_def sample_policy_defs)
  have "?step st ?st1"
    by (rule policy_step.Begin)
  moreover have "?step ?st1 ?st2"
    using policy_step.Authenticate [of ?st1 "[]" s "[]" "open_ops st" us d vs policies "payment_of c" memory_ledger None] chain assms(1,4)
    by (simp add: reaches_ledger_def payment_of_def sample_policy_defs)
  moreover have "?step ?st2 ?st"
    using policy_step.Commit [of ?st2 "[]" s "[?r]" "open_ops st" memory_ledger policies] by simp
  ultimately show ?thesis
    by (meson converse_rtranclp_into_rtranclp rtranclp.rtrancl_refl)
qed

text \<open>
  Calls that read the day before midnight come through after midnight: each resets the entry of the new
  day, and the next call of the new day is granted the whole cap once more.
\<close>

definition waiting_since :: "string \<Rightarrow> nat \<Rightarrow> nat \<Rightarrow> nat \<Rightarrow> nat \<Rightarrow> book policy_system \<Rightarrow> bool" where
  "waiting_since s d c k n st \<longleftrightarrow>
     clock st = Suc d \<and> read_days st = replicate k (s, d) \<and> s \<notin> held (ledger st)
     \<and> entry_today (ledger st) (Suc d) s = 0
     \<and> amount_on s (Suc d) (signed_log st) = c * n \<and> overtaken 0 (days_of s (entered st)) = n
     \<and> (0 < n \<longrightarrow> latest_day (days_of s (entered st)) = Suc d) \<and> latest_day (days_of s (entered st)) \<le> Suc d"

lemma new_day_reach:
  assumes "waiting_since s d c k n st"
    and "policies s = \<lparr>per_call_ceiling = None, daily_cap = Some c\<rparr>" and "c < 2 ^ 64 - 1"
  obtains st' where "(policy_step memory_ledger policies)\<^sup>*\<^sup>* st st'"
    and "st' = st\<lparr>ledger := charge_entry s (Suc d) c (ledger st), entered := entered st @ [(s, Suc d)],
        signed_log := signed_log st @ [(s, \<lparr>rsv_day = Suc d, rsv_amount = c\<rparr>)]\<rparr>"
proof -
  let ?st1 = "st\<lparr>read_days := (s, clock st) # read_days st\<rparr>"
  let ?st' = "st\<lparr>ledger := charge_entry s (Suc d) c (ledger st), entered := entered st @ [(s, Suc d)],
        signed_log := signed_log st @ [(s, \<lparr>rsv_day = Suc d, rsv_amount = c\<rparr>)]\<rparr>"
  have "policy_step memory_ledger policies st ?st1"
    by (rule policy_step.ReadClock)
  moreover have "(policy_step memory_ledger policies)\<^sup>*\<^sup>* ?st1 ?st'"
    using whole_cap_reach [of ?st1 "[]" s "Suc d" "read_days st" policies c] assms by (simp add: waiting_since_def)
  ultimately have "(policy_step memory_ledger policies)\<^sup>*\<^sup>* st ?st'"
    by (rule converse_rtranclp_into_rtranclp)
  then show ?thesis
    by (rule that) (rule refl)
qed

lemma overtaken_reach:
  assumes "waiting_since s d c (Suc k) n st"
    and "policies s = \<lparr>per_call_ceiling = None, daily_cap = Some c\<rparr>" and "c < 2 ^ 64 - 1"
  shows "\<exists>st'. (policy_step memory_ledger policies)\<^sup>*\<^sup>* st st' \<and> waiting_since s d c k (Suc n) st'"
proof -
  obtain st' where st': "(policy_step memory_ledger policies)\<^sup>*\<^sup>* st st'"
    "st' = st\<lparr>ledger := charge_entry s (Suc d) c (ledger st), entered := entered st @ [(s, Suc d)],
        signed_log := signed_log st @ [(s, \<lparr>rsv_day = Suc d, rsv_amount = c\<rparr>)]\<rparr>"
    by (rule new_day_reach [where policies = policies, OF assms])
  let ?st'' = "st'\<lparr>ledger := charge_entry s d c (ledger st'), read_days := replicate k (s, d),
      entered := entered st' @ [(s, d)], signed_log := signed_log st' @ [(s, \<lparr>rsv_day = d, rsv_amount = c\<rparr>)]\<rparr>"
  have "(policy_step memory_ledger policies)\<^sup>*\<^sup>* st' ?st''"
    using whole_cap_reach [of st' "[]" s d "replicate k (s, d)" policies c] assms
    by (simp add: st'(2) waiting_since_def entry_today_def)
  moreover have "waiting_since s d c k (Suc n) ?st''"
    using assms(1) by (auto simp: st'(2) waiting_since_def entry_today_def max_def)
  ultimately show ?thesis
    using st'(1) by (meson rtranclp_trans)
qed

lemma overtaken_many_reach:
  assumes "policies s = \<lparr>per_call_ceiling = None, daily_cap = Some c\<rparr>" and "c < 2 ^ 64 - 1"
  shows "waiting_since s d c k n st \<Longrightarrow>
    \<exists>st'. (policy_step memory_ledger policies)\<^sup>*\<^sup>* st st' \<and> waiting_since s d c 0 (n + k) st'"
proof (induction k arbitrary: n st)
  case (Suc k)
  then show ?case
    using overtaken_reach [where policies = policies, OF Suc.prems assms] by (metis add_Suc_shift rtranclp_trans)
qed auto

lemma read_many_reach:
  "(policy_step memory_ledger policies)\<^sup>*\<^sup>* (policy_start new_book d)
     ((policy_start new_book d)\<lparr>read_days := replicate k (s, d)\<rparr>)"
proof (induction k)
  case 0
  then show ?case
    by (simp add: policy_start_def)
next
  case (Suc k)
  let ?st = "(policy_start new_book d)\<lparr>read_days := replicate k (s, d)\<rparr>"
  have "policy_step memory_ledger policies ?st (?st\<lparr>read_days := (s, clock ?st) # read_days ?st\<rparr>)"
    by (rule policy_step.ReadClock)
  then show ?case
    using Suc by (simp add: policy_start_def)
qed

lemma waiting_since_start:
  "\<exists>st. (policy_step memory_ledger policies)\<^sup>*\<^sup>* (policy_start new_book d) st \<and> waiting_since s d c k 0 st"
proof -
  let ?st = "(policy_start new_book d)\<lparr>read_days := replicate k (s, d)\<rparr>"
  have "policy_step memory_ledger policies ?st (?st\<lparr>clock := Suc d\<rparr>)"
    by (rule policy_step.Tick) (simp add: policy_start_def)
  moreover have "waiting_since s d c k 0 (?st\<lparr>clock := Suc d\<rparr>)"
    by (simp add: waiting_since_def policy_start_def new_book_def entry_today_def latest_day_def)
  ultimately show ?thesis
    using read_many_reach by (meson rtranclp.rtrancl_into_rtrancl)
qed

text \<open>One payment of 90 cents, approved and signed.\<close>

lemma sample_reach:
  "\<exists>st. (policy_step memory_ledger (\<lambda>_. sample_policy))\<^sup>*\<^sup>* (policy_start new_book 100) st
     \<and> entered st = [(''sub'', 100)] \<and> signed_log st = [(''sub'', \<lparr>rsv_day = 100, rsv_amount = 9000\<rparr>)]"
proof -
  let ?step = "policy_step memory_ledger (\<lambda>_. sample_policy)"
  let ?r = "\<lparr>rsv_day = 100, rsv_amount = 9000\<rparr>"
  let ?st0 = "policy_start new_book 100"
  let ?st1 = "?st0\<lparr>read_days := [(''sub'', 100)]\<rparr>"
  let ?st2 = "?st1\<lparr>open_ops := [(''sub'', [])]\<rparr>"
  let ?st3 = "?st0\<lparr>ledger := charge_entry ''sub'' 100 9000 new_book, open_ops := [(''sub'', [?r])], entered := [(''sub'', 100)]\<rparr>"
  have "approval_chain memory_ledger \<lparr>gate_subject = ''sub'', gate_policy = sample_policy\<rparr> 100 None
      sample_payment (new_book, []) = ((charge_entry ''sub'' 100 9000 new_book, [?r]), Inr ())"
    by (simp add: sample_policy_defs)
  then have "?step ?st2 ?st3"
    using policy_step.Authenticate [of ?st2 "[]" "''sub''" "[]" "[]" "[]" 100 "[]" "\<lambda>_. sample_policy" sample_payment
        memory_ledger None]
    by (simp add: policy_start_def reaches_ledger_def sample_policy_defs)
  moreover have "?step ?st0 ?st1"
    using policy_step.ReadClock [of memory_ledger "\<lambda>_. sample_policy" ?st0 "''sub''"] by (simp add: policy_start_def)
  moreover have "?step ?st1 ?st2"
    using policy_step.Begin [of memory_ledger "\<lambda>_. sample_policy" ?st1 "''sub''"] by (simp add: policy_start_def)
  moreover have "?step ?st3 (?st3\<lparr>open_ops := [], signed_log := [(''sub'', ?r)]\<rparr>)"
    using policy_step.Commit [of ?st3 "[]" "''sub''" "[?r]" "[]"] by (simp add: policy_start_def)
  ultimately have "?step\<^sup>*\<^sup>* ?st0 (?st3\<lparr>open_ops := [], signed_log := [(''sub'', ?r)]\<rparr>)"
    by (meson converse_rtranclp_into_rtranclp rtranclp.rtrancl_refl)
  then show ?thesis
    by (intro exI conjI) (assumption, simp_all)
qed

section \<open>Properties\<close>

text \<open>
  C7: hosted spending stays within the policy. Over any interleaving of any number of signing
  operations on one in-memory ledger (each reading the day, then taking the lock, authenticating any
  intents, then committed or released, with holds and counted spend in between), no signed amount exceeds
  the per-call ceiling, and the amounts signed for a subject on a day are at most its daily cap, plus one
  cap for every call of the subject that was overtaken: one that read the day before midnight and took
  the lock after a call that read the next day. With no overtaken call the cap holds as it is. The cap is
  below the largest 64-bit number and the clock does not go back.
\<close>
theorem policy_caps_hold:
  assumes "(policy_step memory_ledger policies)\<^sup>*\<^sup>* (policy_start new_book d0) st"
    and "daily_cap (policies s) = Some c" and "c < 2 ^ 64 - 1"
  shows "(\<Sum>(s', r)\<leftarrow>signed_log st. if s' = s \<and> rsv_day r = d then rsv_amount r else 0)
      \<le> c * (1 + overtaken 0 (days_of s (entered st)))
    \<and> (sorted (days_of s (entered st)) \<longrightarrow>
        (\<Sum>(s', r)\<leftarrow>signed_log st. if s' = s \<and> rsv_day r = d then rsv_amount r else 0) \<le> c)
    \<and> (\<forall>(s', r)\<in>set (signed_log st). \<forall>ceiling. per_call_ceiling (policies s') = Some ceiling \<longrightarrow> rsv_amount r \<le> ceiling)"
proof -
  have "amount_on s d (signed_log st) \<le> c * (1 + overtaken 0 (days_of s (entered st)))"
    using memory.reachable_within_policy(1) [OF assms(1) new_book_inv, of s c d] assms(2,3) by (simp add: capped_def)
  moreover have "list_all (within_ceiling policies) (signed_log st)"
    by (rule memory.reachable_within_policy(2) [OF assms(1) new_book_inv])
  ultimately show ?thesis
    using overtaken_sorted [of "days_of s (entered st)" 0]
    by (auto simp: amount_on_def within_ceiling_def list_all_iff)
qed

theorem policy_caps_hold_witness:
  "\<exists>st. (policy_step memory_ledger (\<lambda>_. sample_policy))\<^sup>*\<^sup>* (policy_start new_book 100) st
     \<and> signed_log st = [(''sub'', \<lparr>rsv_day = 100, rsv_amount = 9000\<rparr>)]
     \<and> (\<Sum>(s', r)\<leftarrow>signed_log st. if s' = ''sub'' \<and> rsv_day r = 100 then rsv_amount r else 0) \<le> 15000"
proof -
  obtain st where st: "(policy_step memory_ledger (\<lambda>_. sample_policy))\<^sup>*\<^sup>* (policy_start new_book 100) st"
    "entered st = [(''sub'', 100)]" "signed_log st = [(''sub'', \<lparr>rsv_day = 100, rsv_amount = 9000\<rparr>)]"
    using sample_reach by blast
  have "(\<Sum>(s', r)\<leftarrow>signed_log st. if s' = ''sub'' \<and> rsv_day r = 100 then rsv_amount r else 0) \<le> 15000"
    using policy_caps_hold [OF st(1), where s = "''sub''" and c = 15000 and d = 100]
    by (simp add: sample_policy_def st(2) days_of_def)
  then show ?thesis
    using st by blast
qed

text \<open>
  C31: across midnight the cap is granted again for every overtaken call. The clock is read before
  the lock is taken, so for any subject with a daily cap and no ceiling, any day and any number \<open>k\<close>
  there is a run, with a clock that never goes back, in which \<open>k\<close> calls are overtaken and the amounts
  signed for the subject on one day add up to \<open>k + 1\<close> times the cap, so the bound of one cap more per
  overtaken call is reached.
\<close>
theorem overtaken_calls_renew_cap:
  assumes "policies s = \<lparr>per_call_ceiling = None, daily_cap = Some c\<rparr>" and "c < 2 ^ 64 - 1"
  shows "\<exists>st. (policy_step memory_ledger policies)\<^sup>*\<^sup>* (policy_start new_book d) st
    \<and> overtaken 0 (days_of s (entered st)) = k
    \<and> (\<Sum>(s', r)\<leftarrow>signed_log st. if s' = s \<and> rsv_day r = Suc d then rsv_amount r else 0) = c * (1 + k)"
proof -
  obtain st where st: "(policy_step memory_ledger policies)\<^sup>*\<^sup>* (policy_start new_book d) st" "waiting_since s d c 0 k st"
    using waiting_since_start overtaken_many_reach [where policies = policies and s = s, OF assms, of d k 0] by (metis add_0 rtranclp_trans)
  obtain st' where st': "(policy_step memory_ledger policies)\<^sup>*\<^sup>* st st'"
    "st' = st\<lparr>ledger := charge_entry s (Suc d) c (ledger st), entered := entered st @ [(s, Suc d)],
        signed_log := signed_log st @ [(s, \<lparr>rsv_day = Suc d, rsv_amount = c\<rparr>)]\<rparr>"
    by (rule new_day_reach [where policies = policies, OF st(2) assms])
  have "overtaken 0 (days_of s (entered st')) = k" "amount_on s (Suc d) (signed_log st') = c * (1 + k)"
    using st(2) by (simp_all add: st'(2) waiting_since_def)
  moreover have "(policy_step memory_ledger policies)\<^sup>*\<^sup>* (policy_start new_book d) st'"
    using st(1) st'(1) by (rule rtranclp_trans)
  ultimately show ?thesis
    unfolding amount_on_def by blast
qed

theorem overtaken_calls_renew_cap_witness:
  "\<exists>st. (policy_step memory_ledger (\<lambda>_. \<lparr>per_call_ceiling = None, daily_cap = Some 15000\<rparr>))\<^sup>*\<^sup>* (policy_start new_book 100) st
    \<and> overtaken 0 (days_of ''sub'' (entered st)) = 1
    \<and> (\<Sum>(s', r)\<leftarrow>signed_log st. if s' = ''sub'' \<and> rsv_day r = 101 then rsv_amount r else 0) = 30000"
  using overtaken_calls_renew_cap [of "\<lambda>_. \<lparr>per_call_ceiling = None, daily_cap = Some 15000\<rparr>" "''sub''" 15000 100 1]
  by simp

text \<open>
  a refused or failed signing costs nothing. When \<open>with_approval\<close> fails, because the policy or the
  prompt refuses one of the intents or because signing itself fails, what the ledger counts for every
  subject on that day is what it counted before, also when earlier intents of the operation had been
  reserved.
\<close>
theorem failed_approval_costs_nothing:
  assumes "book_inv l" and "daily_cap policy = Some c" and "c < 2 ^ 64 - 1"
    and "with_approval memory_ledger \<lparr>gate_subject = s, gate_policy = policy\<rparr> today peer intents outcome l = (l', Inl e)"
  shows "memory_spent_today l' today s' = memory_spent_today l today s'"
  using memory.failed_operation_free [OF assms] by (simp add: book_charged_def)

theorem failed_approval_costs_nothing_witness:
  "\<exists>l' e. with_approval memory_ledger \<lparr>gate_subject = ''sub'', gate_policy = sample_policy\<rparr> 100 None
       [sample_payment, sample_payment] (Inr ''signature'') new_book = (l', Inl e)
     \<and> memory_spent_today l' 100 ''sub'' = 0"
proof -
  obtain l' e where run: "with_approval memory_ledger \<lparr>gate_subject = ''sub'', gate_policy = sample_policy\<rparr> 100 None
       [sample_payment, sample_payment] (Inr ''signature'') new_book = (l', Inl e)"
    by (simp add: with_approval_def sample_policy_defs)
  have "memory_spent_today l' 100 ''sub'' = memory_spent_today new_book 100 ''sub''"
    by (rule failed_approval_costs_nothing [OF new_book_inv _ _ run, where c = 15000]) (simp_all add: sample_policy_def)
  moreover have "memory_spent_today new_book 100 ''sub'' = 0"
    by (simp add: memory_spent_today_def new_book_def)
  ultimately show ?thesis
    using run by auto
qed

text \<open>
  C33: the in-memory ledger implements a book of single charges. Started empty, it gives the same
  answers as the book that keeps every charge on its own and strikes out released ones, for every
  sequence of operations the book covers: a clock that does not go back, releases only of charges that
  were made, and daily sums below 2 to the 64.
\<close>
theorem memory_ledger_refines_charge_book:
  assumes "spec_answers now \<lparr>live = {#}, frozen = {}\<rparr> cs = Some answers"
  shows "memory_answers new_book cs = answers"
  using memory_answers_refine [OF new_book_refines assms] .

theorem memory_ledger_refines_charge_book_witness:
  "memory_answers new_book [RecordOp 1 ''a'' 5 (Some 9), RecordOp 1 ''a'' 5 (Some 9), ReleaseOp ''a'' 1 5,
     RecordOp 2 ''a'' 9 (Some 9), HoldOp ''a'', RecordOp 2 ''a'' 0 None]
   = [Some (Inr \<lparr>rec_day = 1, rec_total = 5\<rparr>), Some (Inl (OverCap 10)), None,
      Some (Inr \<lparr>rec_day = 2, rec_total = 9\<rparr>), None, Some (Inl Held)]"
  by (rule memory_ledger_refines_charge_book [of 0]) (simp add: spec_total_def)

end
