(* ===== verification/Sell_Queue.thy ===== *)
theory Sell_Queue
  imports Tx_Landing "HOL-Library.Multiset" "HOL-Library.Sublist"
begin

text \<open>
  Requests parked for a seller's worker (\<^verbatim>\<open>src/rust/crates/connect/src/sell/queue.rs\<close>).

  The lock makes every method atomic; buyers read and drop their end of a channel on their own. The
  channels, with the two semaphores that bound what is pushed but not yet read, are part of the state:
  a frame holds its share of both budgets until it is read or dropped. What a request was admitted
  under is of type \<open>'a\<close>, which the queue only hands back. The lemmas show that the budgets balance at
  every moment and that every parked request is handed back exactly once, claims in the order of
  parking.
\<close>

section \<open>Data\<close>

definition MAX_WAITING :: nat where "MAX_WAITING = 64"

definition MAX_BUFFERED_PER_REQUEST :: nat where "MAX_BUFFERED_PER_REQUEST = 1024 * 1024"

definition MAX_BUFFERED_PER_ENDPOINT :: nat where "MAX_BUFFERED_PER_ENDPOINT = 4 * 1024 * 1024"

definition FRAME_OVERHEAD :: nat where "FRAME_OVERHEAD = 64"

record 'a parked_request =
  pr_id :: string
  pr_body :: string
  pr_stream :: bool
  parked_at :: nat
  admission :: 'a

record 'a completion =
  comp_admission :: 'a
  comp_stream :: bool
  delivered :: bool

record 'a next_result =
  next_request :: "'a parked_request option"
  abandoned :: "'a parked_request list"

datatype event =
    Claimed
  | Chunk string
  | Complete "json option"
  | Fail nat string

datatype queue_error = Full | Unknown | Gone | Backlogged | TooLarge

text \<open>A channel: whether the buyer still holds its end, what it has yet to read, and its semaphore.\<close>

record channel =
  receiver_alive :: bool
  unread :: "event list"
  request_free :: nat

record 'a endpoint_queue =
  waiting :: "'a parked_request list"
  claimed :: "string \<rightharpoonup> 'a parked_request"
  endpoint_free :: nat
  channels :: "string \<rightharpoonup> channel"

definition default_queue :: "'a endpoint_queue" where
  "default_queue = \<lparr>waiting = [], claimed = Map.empty, endpoint_free = MAX_BUFFERED_PER_ENDPOINT, channels = Map.empty\<rparr>"

definition sse :: "string list \<Rightarrow> string" where
  "sse chunks = concat (map (\<lambda>chunk. ''data: '' @
     map (\<lambda>b. if b = char_of (10::nat) \<or> b = char_of (13::nat) then CHR '' '' else b) chunk
     @ [char_of (10::nat), char_of (10::nat)]) chunks)"

definition frame_cost :: "string \<Rightarrow> nat" where
  "frame_cost frame = length frame + FRAME_OVERHEAD"

fun event_cost :: "event \<Rightarrow> nat" where
  "event_cost (Chunk frame) = frame_cost frame"
| "event_cost Claimed = 0"
| "event_cost (Complete v) = 0"
| "event_cost (Fail n m) = 0"

section \<open>Operations\<close>

definition is_alive :: "'a endpoint_queue \<Rightarrow> string \<Rightarrow> bool" where
  "is_alive q rid = (case channels q rid of Some ch \<Rightarrow> receiver_alive ch | None \<Rightarrow> False)"

text \<open>\<open>tx.send\<close>: appended while the buyer holds its end, dropped otherwise.\<close>

definition send :: "'a endpoint_queue \<Rightarrow> string \<Rightarrow> event \<Rightarrow> 'a endpoint_queue" where
  "send q rid e =
     (case channels q rid of
        Some ch \<Rightarrow> if receiver_alive ch then q\<lparr>channels := (channels q)(rid \<mapsto> ch\<lparr>unread := unread ch @ [e]\<rparr>)\<rparr> else q
      | None \<Rightarrow> q)"

definition park ::
  "'a endpoint_queue \<Rightarrow> string \<Rightarrow> nat \<Rightarrow> string \<Rightarrow> bool \<Rightarrow> 'a \<Rightarrow> 'a endpoint_queue \<times> (queue_error + string)" where
  "park q rid now body stream adm =
     (if MAX_WAITING \<le> length (waiting q) then (q, Inl Full)
      else
        (q\<lparr>waiting := waiting q @
              [\<lparr>pr_id = rid, pr_body = body, pr_stream = stream, parked_at = now, admission = adm\<rparr>],
           channels := (channels q)(rid \<mapsto>
              \<lparr>receiver_alive = True, unread = [], request_free = MAX_BUFFERED_PER_REQUEST\<rparr>)\<rparr>, Inr rid))"

fun remove_waiting :: "string \<Rightarrow> 'a parked_request list \<Rightarrow> ('a parked_request \<times> 'a parked_request list) option" where
  "remove_waiting rid [] = None"
| "remove_waiting rid (p # ps) =
     (if pr_id p = rid then Some (p, ps) else map_option (\<lambda>(x, rest). (x, p # rest)) (remove_waiting rid ps))"

definition abandon :: "'a endpoint_queue \<Rightarrow> string \<Rightarrow> 'a endpoint_queue \<times> 'a option" where
  "abandon q rid =
     (case remove_waiting rid (waiting q) of
        Some (p, rest) \<Rightarrow> (q\<lparr>waiting := rest\<rparr>, Some (admission p))
      | None \<Rightarrow>
          case claimed q rid of
            Some p \<Rightarrow> (q\<lparr>claimed := (claimed q)(rid := None)\<rparr>, Some (admission p))
          | None \<Rightarrow> (q, None))"

text \<open>The locked part of \<open>next\<close>: skip requests whose buyer left, claim the first one that did not.\<close>

fun claim_pass ::
  "'a endpoint_queue \<Rightarrow> 'a parked_request list \<Rightarrow> 'a parked_request list \<Rightarrow> 'a endpoint_queue \<times> 'a next_result" where
  "claim_pass q left [] = (q\<lparr>waiting := []\<rparr>, \<lparr>next_request = None, abandoned = left\<rparr>)"
| "claim_pass q left (p # rest) =
     (if \<not> is_alive q (pr_id p) then claim_pass q (left @ [p]) rest
      else
        (let q = send q (pr_id p) Claimed in
         (q\<lparr>waiting := rest, claimed := (claimed q)(pr_id p \<mapsto> p\<lparr>pr_body := []\<rparr>)\<rparr>,
          \<lparr>next_request = Some p, abandoned = left\<rparr>)))"

text \<open>
  \<open>next\<close> with its waits: \<open>wakes\<close> is what others did to the queue during each wait before the deadline.
\<close>

fun next_loop ::
  "('a endpoint_queue \<Rightarrow> 'a endpoint_queue) list \<Rightarrow> 'a endpoint_queue \<Rightarrow> 'a endpoint_queue \<times> 'a next_result" where
  "next_loop wakes q =
     (case claim_pass q [] (waiting q) of (q', result) \<Rightarrow>
        if next_request result \<noteq> None \<or> abandoned result \<noteq> [] then (q', result)
        else
          case wakes of
            [] \<Rightarrow> (q', \<lparr>next_request = None, abandoned = []\<rparr>)
          | wake # later \<Rightarrow> next_loop later (wake q'))"

definition push :: "'a endpoint_queue \<Rightarrow> string \<Rightarrow> string list \<Rightarrow> 'a endpoint_queue \<times> (queue_error + unit)" where
  "push q rid chunks =
     (let bytes = sse chunks; cost = frame_cost bytes in
      if MAX_BUFFERED_PER_REQUEST < cost then (q, Inl TooLarge)
      else
        case claimed q rid of
          None \<Rightarrow> (q, Inl Unknown)
        | Some p \<Rightarrow>
            case channels q rid of
              None \<Rightarrow> (q, Inl Gone)
            | Some ch \<Rightarrow>
                if \<not> receiver_alive ch then (q, Inl Gone)
                else if chunks = [] then (q, Inr ())
                else if request_free ch < cost then (q, Inl Backlogged)
                else if endpoint_free q < cost then (q, Inl Backlogged)
                else
                  (q\<lparr>endpoint_free := endpoint_free q - cost,
                     channels := (channels q)(rid \<mapsto>
                       ch\<lparr>unread := unread ch @ [Chunk bytes], request_free := request_free ch - cost\<rparr>)\<rparr>, Inr ()))"

definition finish :: "'a endpoint_queue \<Rightarrow> string \<Rightarrow> event \<Rightarrow> 'a endpoint_queue \<times> (queue_error + 'a completion)" where
  "finish q rid e =
     (case claimed q rid of
        None \<Rightarrow> (q, Inl Unknown)
      | Some p \<Rightarrow>
          ((send q rid e)\<lparr>claimed := (claimed q)(rid := None)\<rparr>,
           Inr \<lparr>comp_admission = admission p, comp_stream = pr_stream p, delivered = is_alive q rid\<rparr>))"

definition complete :: "'a endpoint_queue \<Rightarrow> string \<Rightarrow> json option \<Rightarrow> 'a endpoint_queue \<times> (queue_error + 'a completion)" where
  "complete q rid final_event = finish q rid (Complete final_event)"

definition fail :: "'a endpoint_queue \<Rightarrow> string \<Rightarrow> nat \<Rightarrow> string \<Rightarrow> 'a endpoint_queue \<times> (queue_error + 'a completion)" where
  "fail q rid status message = finish q rid (Fail status message)"

definition depth :: "'a endpoint_queue \<Rightarrow> nat \<times> nat" where
  "depth q = (length (waiting q), card (dom (claimed q)))"

text \<open>The buyer's side: reading an event gives back what its frame held, leaving drops all unread ones.\<close>

definition recv :: "'a endpoint_queue \<Rightarrow> string \<Rightarrow> 'a endpoint_queue \<times> event option" where
  "recv q rid =
     (case channels q rid of
        None \<Rightarrow> (q, None)
      | Some ch \<Rightarrow>
          (case unread ch of
             [] \<Rightarrow> (q, None)
           | e # rest \<Rightarrow>
               (q\<lparr>endpoint_free := endpoint_free q + event_cost e,
                  channels := (channels q)(rid \<mapsto>
                    ch\<lparr>unread := rest, request_free := request_free ch + event_cost e\<rparr>)\<rparr>, Some e)))"

definition unread_cost :: "channel \<Rightarrow> nat" where
  "unread_cost ch = sum_list (map event_cost (unread ch))"

definition leave :: "'a endpoint_queue \<Rightarrow> string \<Rightarrow> 'a endpoint_queue" where
  "leave q rid =
     (case channels q rid of
        None \<Rightarrow> q
      | Some ch \<Rightarrow>
          q\<lparr>endpoint_free := endpoint_free q + unread_cost ch,
            channels := (channels q)(rid \<mapsto>
              ch\<lparr>receiver_alive := False, unread := [], request_free := request_free ch + unread_cost ch\<rparr>)\<rparr>)"

section \<open>Calls and what they hand back\<close>

text \<open>
  The queue with logs of the requests parked, claimed and handed back to the endpoint (by \<open>abandon\<close>, in
  the result of \<open>next\<close>, or by finishing), in order. A new request gets an id never used before.
\<close>

record 'a queue_system =
  queue :: "'a endpoint_queue"
  parked_log :: "string list"
  claimed_log :: "string list"
  settled_log :: "string list"

datatype 'a queue_op =
    ParkOp string nat string bool 'a
  | AbandonOp string
  | NextOp
  | PushOp string "string list"
  | CompleteOp string "json option"
  | FailOp string nat string
  | RecvOp string
  | LeaveOp string

fun queue_step :: "'a queue_system \<Rightarrow> 'a queue_op \<Rightarrow> 'a queue_system" where
  "queue_step sys (ParkOp rid now body stream adm) =
     (if channels (queue sys) rid \<noteq> None then sys
      else
        case park (queue sys) rid now body stream adm of
          (q, Inl _) \<Rightarrow> sys\<lparr>queue := q\<rparr>
        | (q, Inr i) \<Rightarrow> sys\<lparr>queue := q, parked_log := parked_log sys @ [i]\<rparr>)"
| "queue_step sys (AbandonOp rid) =
     (case abandon (queue sys) rid of
        (q, None) \<Rightarrow> sys\<lparr>queue := q\<rparr>
      | (q, Some _) \<Rightarrow> sys\<lparr>queue := q, settled_log := settled_log sys @ [rid]\<rparr>)"
| "queue_step sys NextOp =
     (case claim_pass (queue sys) [] (waiting (queue sys)) of (q, result) \<Rightarrow>
        sys\<lparr>queue := q,
          claimed_log := claimed_log sys @ (case next_request result of None \<Rightarrow> [] | Some p \<Rightarrow> [pr_id p]),
          settled_log := settled_log sys @ map pr_id (abandoned result)\<rparr>)"
| "queue_step sys (PushOp rid chunks) = sys\<lparr>queue := fst (push (queue sys) rid chunks)\<rparr>"
| "queue_step sys (CompleteOp rid v) =
     (case complete (queue sys) rid v of
        (q, Inl _) \<Rightarrow> sys\<lparr>queue := q\<rparr>
      | (q, Inr _) \<Rightarrow> sys\<lparr>queue := q, settled_log := settled_log sys @ [rid]\<rparr>)"
| "queue_step sys (FailOp rid status message) =
     (case fail (queue sys) rid status message of
        (q, Inl _) \<Rightarrow> sys\<lparr>queue := q\<rparr>
      | (q, Inr _) \<Rightarrow> sys\<lparr>queue := q, settled_log := settled_log sys @ [rid]\<rparr>)"
| "queue_step sys (RecvOp rid) = sys\<lparr>queue := fst (recv (queue sys) rid)\<rparr>"
| "queue_step sys (LeaveOp rid) = sys\<lparr>queue := leave (queue sys) rid\<rparr>"

definition new_system :: "'a queue_system" where
  "new_system = \<lparr>queue = default_queue, parked_log = [], claimed_log = [], settled_log = []\<rparr>"

section \<open>Budgets\<close>

definition total_unread :: "(string \<rightharpoonup> channel) \<Rightarrow> nat" where
  "total_unread chs = (\<Sum>i\<in>dom chs. unread_cost (the (chs i)))"

text \<open>Every permit is free or held by an unread frame; a channel whose buyer left holds nothing.\<close>

definition channel_ok :: "channel \<Rightarrow> bool" where
  "channel_ok ch \<longleftrightarrow> request_free ch + unread_cost ch = MAX_BUFFERED_PER_REQUEST \<and> (receiver_alive ch \<or> unread ch = [])"

definition budget_inv :: "'a endpoint_queue \<Rightarrow> bool" where
  "budget_inv q \<longleftrightarrow>
     finite (dom (channels q)) \<and> (\<forall>i ch. channels q i = Some ch \<longrightarrow> channel_ok ch)
     \<and> endpoint_free q + total_unread (channels q) = MAX_BUFFERED_PER_ENDPOINT"

lemma unread_cost_simps [simp]:
  "unread_cost (ch\<lparr>unread := es @ [e]\<rparr>) = unread_cost (ch\<lparr>unread := es\<rparr>) + event_cost e"
  "unread_cost (ch\<lparr>unread := []\<rparr>) = 0"
  "unread_cost (ch\<lparr>request_free := n\<rparr>) = unread_cost ch"
  "unread_cost (ch\<lparr>receiver_alive := b\<rparr>) = unread_cost ch"
  by (simp_all add: unread_cost_def)

lemma total_unread_upd:
  assumes "finite (dom chs)" and "chs rid = Some ch"
  shows "total_unread (chs(rid \<mapsto> ch')) + unread_cost ch = total_unread chs + unread_cost ch'"
proof -
  have dom: "dom (chs(rid \<mapsto> ch')) = dom chs" "rid \<in> dom chs"
    using assms(2) by auto
  have "(\<Sum>i\<in>dom chs - {rid}. unread_cost (the ((chs(rid \<mapsto> ch')) i))) = (\<Sum>i\<in>dom chs - {rid}. unread_cost (the (chs i)))"
    by (rule sum.cong) auto
  then show ?thesis
    using assms sum.remove [OF assms(1) dom(2), of "\<lambda>i. unread_cost (the (chs i))"]
      sum.remove [OF assms(1) dom(2), of "\<lambda>i. unread_cost (the ((chs(rid \<mapsto> ch')) i))"]
    unfolding total_unread_def dom(1) by simp
qed

lemma total_unread_new:
  assumes "finite (dom chs)" and "chs rid = None"
  shows "total_unread (chs(rid \<mapsto> ch)) = unread_cost ch + total_unread chs"
proof -
  have "(\<Sum>i\<in>dom chs. unread_cost (the ((chs(rid \<mapsto> ch)) i))) = total_unread chs"
    unfolding total_unread_def using assms(2) by (intro sum.cong) auto
  then show ?thesis
    using assms by (simp add: total_unread_def domIff insert_absorb)
qed

text \<open>Exchanging a channel keeps the balance when the free permits move with what is unread.\<close>

lemma budget_upd:
  assumes "budget_inv q" and "channels q rid = Some ch" and "channel_ok ch'"
    and "free + unread_cost ch' = endpoint_free q + unread_cost ch"
  shows "budget_inv (q\<lparr>endpoint_free := free, channels := (channels q)(rid \<mapsto> ch')\<rparr>)"
  using assms total_unread_upd [of "channels q" rid ch ch']
  by (auto simp: budget_inv_def)

lemma budget_frame [simp]:
  "budget_inv (q\<lparr>waiting := w\<rparr>) = budget_inv q" "budget_inv (q\<lparr>claimed := c\<rparr>) = budget_inv q"
  by (simp_all add: budget_inv_def)

lemma budget_channel: "budget_inv q \<Longrightarrow> channels q rid = Some ch \<Longrightarrow> channel_ok ch"
  by (simp add: budget_inv_def)

lemma send_budget: "budget_inv q \<Longrightarrow> event_cost e = 0 \<Longrightarrow> budget_inv (send q rid e)"
  using budget_upd [of q rid _ _ "endpoint_free q"]
  by (auto simp: send_def channel_ok_def dest: budget_channel split: option.split)

lemma park_budget:
  assumes "budget_inv q" and "channels q rid = None"
  shows "budget_inv (fst (park q rid now body stream adm))"
  using assms total_unread_new [of "channels q" rid]
  by (auto simp: park_def budget_inv_def channel_ok_def unread_cost_def)

lemma push_budget: "budget_inv q \<Longrightarrow> budget_inv (fst (push q rid chunks))"
  using budget_upd [of q rid] budget_channel [of q rid]
  by (auto simp: push_def Let_def channel_ok_def split: option.split)

lemma recv_budget:
  assumes "budget_inv q"
  shows "budget_inv (fst (recv q rid))"
proof (cases "channels q rid")
  case (Some ch)
  have ok: "channel_ok ch"
    by (rule budget_channel [OF assms Some])
  show ?thesis
  proof (cases "unread ch")
    case (Cons e rest)
    have cost: "unread_cost ch = event_cost e + unread_cost (ch\<lparr>unread := rest\<rparr>)"
      by (simp add: unread_cost_def Cons)
    show ?thesis
      using budget_upd [OF assms Some, of "ch\<lparr>unread := rest, request_free := request_free ch + event_cost e\<rparr>"
          "endpoint_free q + event_cost e"] ok cost Cons
      by (simp add: recv_def Some channel_ok_def)
  qed (simp add: recv_def Some assms)
qed (simp add: recv_def assms)

lemma leave_budget:
  assumes "budget_inv q"
  shows "budget_inv (leave q rid)"
proof (cases "channels q rid")
  case (Some ch)
  then show ?thesis
    using budget_upd [OF assms Some, of "ch\<lparr>receiver_alive := False, unread := [], request_free := request_free ch + unread_cost ch\<rparr>"
        "endpoint_free q + unread_cost ch"] budget_channel [OF assms Some]
    by (simp add: leave_def channel_ok_def)
qed (simp add: leave_def assms)

lemma claim_pass_budget: "budget_inv q \<Longrightarrow> budget_inv (fst (claim_pass q left ps))"
  by (induction q left ps rule: claim_pass.induct) (simp_all add: send_budget Let_def)

lemma finish_budget: "budget_inv q \<Longrightarrow> event_cost e = 0 \<Longrightarrow> budget_inv (fst (finish q rid e))"
  by (auto simp: finish_def send_budget split: option.split)

lemma abandon_budget: "budget_inv q \<Longrightarrow> budget_inv (fst (abandon q rid))"
  by (auto simp: abandon_def split: option.split)

section \<open>Handing back\<close>

text \<open>Waiting and claimed requests, by id; and that each parked request is in one place.\<close>

definition ids_inv :: "'a endpoint_queue \<Rightarrow> bool" where
  "ids_inv q \<longleftrightarrow>
     finite (dom (claimed q)) \<and> distinct (map pr_id (waiting q)) \<and> pr_id ` set (waiting q) \<inter> dom (claimed q) = {}
     \<and> pr_id ` set (waiting q) \<union> dom (claimed q) \<subseteq> dom (channels q) \<and> length (waiting q) \<le> MAX_WAITING"

definition pending_ids :: "'a endpoint_queue \<Rightarrow> string multiset" where
  "pending_ids q = mset (map pr_id (waiting q)) + mset_set (dom (claimed q))"

definition handback_inv :: "'a queue_system \<Rightarrow> bool" where
  "handback_inv sys \<longleftrightarrow>
     mset (parked_log sys) = pending_ids (queue sys) + mset (settled_log sys)
     \<and> distinct (parked_log sys) \<and> set (parked_log sys) = dom (channels (queue sys))
     \<and> subseq (claimed_log sys @ map pr_id (waiting (queue sys))) (parked_log sys)"

definition sell_inv :: "'a queue_system \<Rightarrow> bool" where
  "sell_inv sys \<longleftrightarrow> budget_inv (queue sys) \<and> ids_inv (queue sys) \<and> handback_inv sys"

lemma send_frame [simp]:
  "waiting (send q rid e) = waiting q" "claimed (send q rid e) = claimed q"
  "dom (channels (send q rid e)) = dom (channels q)"
  by (auto simp: send_def split: option.split)

lemma push_frame [simp]:
  "waiting (fst (push q rid chunks)) = waiting q" "claimed (fst (push q rid chunks)) = claimed q"
  "dom (channels (fst (push q rid chunks))) = dom (channels q)"
  by (auto simp: push_def Let_def split: option.split)

lemma recv_frame [simp]:
  "waiting (fst (recv q rid)) = waiting q" "claimed (fst (recv q rid)) = claimed q"
  "dom (channels (fst (recv q rid))) = dom (channels q)"
  by (auto simp: recv_def split: option.split list.split)

lemma leave_frame [simp]:
  "waiting (leave q rid) = waiting q" "claimed (leave q rid) = claimed q"
  "dom (channels (leave q rid)) = dom (channels q)"
  by (auto simp: leave_def split: option.split)

text \<open>Steps that touch only channels keep both.\<close>

lemma frame_inv:
  assumes "waiting q = waiting (queue sys)" and "claimed q = claimed (queue sys)"
    and "dom (channels q) = dom (channels (queue sys))" and "ids_inv (queue sys)" and "handback_inv sys"
  shows "ids_inv q" and "handback_inv (sys\<lparr>queue := q\<rparr>)"
  using assms by (simp_all add: ids_inv_def handback_inv_def pending_ids_def)

lemma remove_waiting_Some:
  "remove_waiting rid ps = Some (p, rest) \<Longrightarrow>
   pr_id p = rid \<and> mset ps = add_mset p (mset rest) \<and> subseq (map pr_id rest) (map pr_id ps)"
  by (induction ps arbitrary: rest) (auto split: if_splits)

lemma remove_waiting_None: "remove_waiting rid ps = None \<longleftrightarrow> rid \<notin> pr_id ` set ps"
  by (induction ps) auto

lemma mset_set_dom_upd:
  "finite (dom m) \<Longrightarrow> m rid = Some x \<Longrightarrow> mset_set (dom m) = add_mset rid (mset_set (dom (m(rid := None))))"
  by (simp add: mset_set.remove domIff)

lemma mset_set_dom_new:
  "finite (dom m) \<Longrightarrow> m rid = None \<Longrightarrow> mset_set (dom (m(rid \<mapsto> x))) = add_mset rid (mset_set (dom m))"
  by (simp add: domIff)

lemma claim_pass_effect:
  "claim_pass q left ps = (q', result) \<Longrightarrow>
   \<exists>ab. abandoned result = left @ ab
     \<and> ps = ab @ (case next_request result of None \<Rightarrow> [] | Some p \<Rightarrow> [p]) @ waiting q'
     \<and> claimed q' = (case next_request result of None \<Rightarrow> claimed q | Some p \<Rightarrow> (claimed q)(pr_id p \<mapsto> p\<lparr>pr_body := []\<rparr>))
     \<and> dom (channels q') = dom (channels q)"
proof (induction q left ps rule: claim_pass.induct)
  case (1 q left)
  then show ?case by auto
next
  case (2 q left p rest)
  show ?case
  proof (cases "is_alive q (pr_id p)")
    case True
    then show ?thesis
      using 2(2) by (auto simp: Let_def)
  next
    case False
    then obtain ab where "abandoned result = (left @ [p]) @ ab"
      "rest = ab @ (case next_request result of None \<Rightarrow> [] | Some p \<Rightarrow> [p]) @ waiting q'"
      "claimed q' = (case next_request result of None \<Rightarrow> claimed q | Some p \<Rightarrow> (claimed q)(pr_id p \<mapsto> p\<lparr>pr_body := []\<rparr>))"
      "dom (channels q') = dom (channels q)"
      using 2 by auto
    then show ?thesis
      by (intro exI [of _ "p # ab"]) simp
  qed
qed

lemma next_inv:
  assumes "ids_inv (queue sys)" and "handback_inv sys"
    and "claim_pass (queue sys) [] (waiting (queue sys)) = (q, result)"
  shows "ids_inv q"
    and "handback_inv (sys\<lparr>queue := q,
          claimed_log := claimed_log sys @ (case next_request result of None \<Rightarrow> [] | Some p \<Rightarrow> [pr_id p]),
          settled_log := settled_log sys @ map pr_id (abandoned result)\<rparr>)"
proof -
  let ?claim = "case next_request result of None \<Rightarrow> [] | Some p \<Rightarrow> [p]"
  have eff: "waiting (queue sys) = abandoned result @ ?claim @ waiting q"
    "claimed q = (case next_request result of None \<Rightarrow> claimed (queue sys)
       | Some p \<Rightarrow> (claimed (queue sys))(pr_id p \<mapsto> p\<lparr>pr_body := []\<rparr>))"
    "dom (channels q) = dom (channels (queue sys))"
    using claim_pass_effect [OF assms(3)] by auto
  have fin: "finite (dom (claimed (queue sys)))"
    using assms(1) by (simp add: ids_inv_def)
  have new: "claimed (queue sys) (pr_id p) = None" if "next_request result = Some p" for p
    using assms(1) that by (auto simp: ids_inv_def eff(1))
  show "ids_inv q"
    using assms(1) eff new unfolding ids_inv_def by (cases "next_request result") auto
  have "pending_ids (queue sys) = pending_ids q + mset (map pr_id (abandoned result))"
    using new mset_set_dom_new [OF fin]
    by (cases "next_request result") (simp_all add: pending_ids_def eff(1,2))
  moreover have "subseq ((claimed_log sys @ map pr_id ?claim) @ map pr_id (waiting q))
      (claimed_log sys @ map pr_id (waiting (queue sys)))"
    unfolding eff(1) map_append append_assoc
    by (intro list_emb_append_mono subseq_order.order_refl list_emb_append2)
  moreover have "map pr_id ?claim = (case next_request result of None \<Rightarrow> [] | Some p \<Rightarrow> [pr_id p])"
    by (simp split: option.split)
  ultimately show "handback_inv (sys\<lparr>queue := q,
          claimed_log := claimed_log sys @ (case next_request result of None \<Rightarrow> [] | Some p \<Rightarrow> [pr_id p]),
          settled_log := settled_log sys @ map pr_id (abandoned result)\<rparr>)"
    using assms(2) eff(3) unfolding handback_inv_def by (auto intro: subseq_order.order_trans)
qed

lemma park_inv:
  assumes "ids_inv (queue sys)" and "handback_inv sys" and "channels (queue sys) rid = None"
    and "park (queue sys) rid now body stream adm = (q, Inr i)"
  shows "ids_inv q" and "handback_inv (sys\<lparr>queue := q, parked_log := parked_log sys @ [i]\<rparr>)"
proof -
  have q: "waiting q = waiting (queue sys) @ [\<lparr>pr_id = rid, pr_body = body, pr_stream = stream, parked_at = now, admission = adm\<rparr>]"
    "claimed q = claimed (queue sys)" "dom (channels q) = insert rid (dom (channels (queue sys)))" "i = rid"
    "length (waiting (queue sys)) < MAX_WAITING"
    using assms(4) by (auto simp: park_def split: if_splits)
  have fresh: "rid \<notin> pr_id ` set (waiting (queue sys))" "rid \<notin> dom (claimed (queue sys))"
    using assms(1,3) by (auto simp: ids_inv_def)
  then show "ids_inv q"
    using assms(1) q by (auto simp: ids_inv_def)
  have "rid \<notin> set (parked_log sys)"
    using assms(2,3) by (auto simp: handback_inv_def)
  then show "handback_inv (sys\<lparr>queue := q, parked_log := parked_log sys @ [i]\<rparr>)"
    using assms(2) q by (auto simp: handback_inv_def pending_ids_def subseq_append_iff simp flip: append_assoc)
qed

text \<open>Taking a request out of the claimed ones, as \<open>finish\<close> and a late \<open>abandon\<close> do, hands it back.\<close>

lemma unclaim_inv:
  assumes "ids_inv (queue sys)" and "handback_inv sys" and "claimed (queue sys) rid = Some p"
    and "waiting q = waiting (queue sys)" and "claimed q = (claimed (queue sys))(rid := None)"
    and "dom (channels q) = dom (channels (queue sys))"
  shows "ids_inv q" and "handback_inv (sys\<lparr>queue := q, settled_log := settled_log sys @ [rid]\<rparr>)"
proof -
  show "ids_inv q"
    using assms(1,4-6) by (auto simp: ids_inv_def)
  have "pending_ids (queue sys) = add_mset rid (pending_ids q)"
    using mset_set_dom_upd [of "claimed (queue sys)" rid p] assms(1,3,4,5) by (simp add: pending_ids_def ids_inv_def)
  then show "handback_inv (sys\<lparr>queue := q, settled_log := settled_log sys @ [rid]\<rparr>)"
    using assms(2,4,6) by (simp add: handback_inv_def)
qed

lemma abandon_inv:
  assumes "ids_inv (queue sys)" and "handback_inv sys" and "abandon (queue sys) rid = (q, r)"
  shows "ids_inv q" and "r = None \<Longrightarrow> handback_inv (sys\<lparr>queue := q\<rparr>)"
    and "r = Some a \<Longrightarrow> handback_inv (sys\<lparr>queue := q, settled_log := settled_log sys @ [rid]\<rparr>)"
proof -
  have "ids_inv q \<and> (r = None \<longrightarrow> handback_inv (sys\<lparr>queue := q\<rparr>))
    \<and> (\<forall>a. r = Some a \<longrightarrow> handback_inv (sys\<lparr>queue := q, settled_log := settled_log sys @ [rid]\<rparr>))"
  proof (cases "remove_waiting rid (waiting (queue sys))")
    case (Some pr)
    obtain p rest where pr: "pr = (p, rest)"
      by (cases pr)
    note rw = remove_waiting_Some [OF Some [unfolded pr]]
    have q: "q = queue sys\<lparr>waiting := rest\<rparr>" "r = Some (admission p)"
      using assms(3) by (simp_all add: abandon_def Some pr)
    have ids: "mset (map pr_id (waiting (queue sys))) = add_mset rid (mset (map pr_id rest))"
      using rw by (metis image_mset_add_mset mset_map)
    have mem: "pr_id ` set (waiting (queue sys)) = insert rid (pr_id ` set rest)"
      using rw by (metis image_insert set_mset_add_mset_insert set_mset_mset)
    have len: "length (waiting (queue sys)) = Suc (length rest)"
      using ids by (metis length_map size_add_mset size_mset)
    have "distinct (rid # map pr_id rest)"
      using assms(1) ids unfolding ids_inv_def by (metis mset.simps(2) mset_eq_imp_distinct_iff)
    then have "ids_inv q"
      using assms(1) mem len by (auto simp: ids_inv_def q)
    moreover have "subseq (claimed_log sys @ map pr_id rest) (claimed_log sys @ map pr_id (waiting (queue sys)))"
      using rw by (intro list_emb_append_mono) auto
    then have "handback_inv (sys\<lparr>queue := q, settled_log := settled_log sys @ [rid]\<rparr>)"
      using assms(2) ids by (auto simp: handback_inv_def pending_ids_def q intro: subseq_order.order_trans)
    ultimately show ?thesis
      by (simp add: q(2))
  next
    case None
    then show ?thesis
      using assms unclaim_inv [OF assms(1,2), of rid]
      by (auto simp: abandon_def split: option.splits)
  qed
  then show "ids_inv q" and "r = None \<Longrightarrow> handback_inv (sys\<lparr>queue := q\<rparr>)"
    and "r = Some a \<Longrightarrow> handback_inv (sys\<lparr>queue := q, settled_log := settled_log sys @ [rid]\<rparr>)"
    by blast+
qed

lemma finish_inv:
  assumes "ids_inv (queue sys)" and "handback_inv sys" and "finish (queue sys) rid e = (q, r)"
  shows "ids_inv q" and "r = Inl err \<Longrightarrow> handback_inv (sys\<lparr>queue := q\<rparr>)"
    and "r = Inr c \<Longrightarrow> handback_inv (sys\<lparr>queue := q, settled_log := settled_log sys @ [rid]\<rparr>)"
  using assms unclaim_inv [OF assms(1,2), of rid]
  by (auto simp: finish_def split: option.splits)

lemma queue_step_inv:
  assumes "sell_inv sys"
  shows "sell_inv (queue_step sys c)"
proof -
  have inv: "budget_inv (queue sys)" "ids_inv (queue sys)" "handback_inv sys"
    using assms by (simp_all add: sell_inv_def)
  show ?thesis
  proof (cases c)
    case (ParkOp rid now body stream adm)
    show ?thesis
    proof (cases "channels (queue sys) rid")
      case None
      obtain q r where p: "park (queue sys) rid now body stream adm = (q, r)"
        by fastforce
      have "budget_inv q"
        using park_budget [OF inv(1) None] p by (metis fst_conv)
      moreover have "q = queue sys" if "r = Inl e" for e
        using p that by (auto simp: park_def split: if_splits)
      ultimately show ?thesis
        using inv park_inv [OF inv(2,3) None] p None
        by (cases r) (simp_all add: ParkOp sell_inv_def)
    qed (use assms in \<open>simp add: ParkOp\<close>)
  next
    case (AbandonOp rid)
    obtain q r where a: "abandon (queue sys) rid = (q, r)"
      by fastforce
    have "budget_inv q"
      using abandon_budget [OF inv(1)] a by (metis fst_conv)
    then show ?thesis
      using abandon_inv [OF inv(2,3) a] a by (cases r) (simp_all add: AbandonOp sell_inv_def)
  next
    case NextOp
    obtain q result where n: "claim_pass (queue sys) [] (waiting (queue sys)) = (q, result)"
      by fastforce
    have "budget_inv q"
      using claim_pass_budget [OF inv(1)] n by (metis fst_conv)
    then show ?thesis
      using next_inv [OF inv(2,3) n] n by (simp add: NextOp sell_inv_def)
  next
    case (PushOp rid chunks)
    then show ?thesis
      using inv push_budget [OF inv(1)] frame_inv [of "fst (push (queue sys) rid chunks)" sys]
      by (simp add: sell_inv_def)
  next
    case (CompleteOp rid v)
    obtain q r where f: "finish (queue sys) rid (Complete v) = (q, r)"
      by fastforce
    have "budget_inv q"
      using finish_budget [OF inv(1), of "Complete v" rid] f by simp
    then show ?thesis
      using finish_inv [OF inv(2,3) f] f by (cases r) (simp_all add: CompleteOp complete_def sell_inv_def)
  next
    case (FailOp rid status message)
    obtain q r where f: "finish (queue sys) rid (Fail status message) = (q, r)"
      by fastforce
    have "budget_inv q"
      using finish_budget [OF inv(1), of "Fail status message" rid] f by simp
    then show ?thesis
      using finish_inv [OF inv(2,3) f] f by (cases r) (simp_all add: FailOp fail_def sell_inv_def)
  next
    case (RecvOp rid)
    then show ?thesis
      using inv recv_budget [OF inv(1)] frame_inv [of "fst (recv (queue sys) rid)" sys]
      by (simp add: sell_inv_def)
  next
    case (LeaveOp rid)
    then show ?thesis
      using inv leave_budget [OF inv(1)] frame_inv [of "leave (queue sys) rid" sys]
      by (simp add: sell_inv_def)
  qed
qed

interpretation sell: state_machine queue_step sell_inv
  by unfold_locales (rule queue_step_inv)

lemma new_system_inv: "sell_inv new_system"
  by (simp add: sell_inv_def new_system_def default_queue_def budget_inv_def ids_inv_def handback_inv_def
      pending_ids_def total_unread_def)

lemma run_sell_inv: "sell_inv (run_ops queue_step new_system cs)"
  by (rule sell.run_inv [OF new_system_inv])

section \<open>Concrete calls\<close>

definition sample_calls :: "unit queue_op list" where
  "sample_calls = [ParkOp ''a'' 0 ''body'' True (), ParkOp ''b'' 1 ''body'' True (), NextOp, PushOp ''a'' [''{}'']]"

lemma sample_frame: "sse [''{}''] = ''data: {}'' @ [char_of (10::nat), char_of (10::nat)]"
proof -
  have "CHR ''{'' \<noteq> char_of (10::nat)" "CHR ''{'' \<noteq> char_of (13::nat)" "CHR ''}'' \<noteq> char_of (10::nat)" "CHR ''}'' \<noteq> char_of (13::nat)"
    by code_simp+
  then show ?thesis
    by (simp add: sse_def)
qed

lemma sample_channel:
  "channels (queue (run_ops queue_step new_system sample_calls)) ''a'' =
     Some \<lparr>receiver_alive = True, unread = [Claimed, Chunk (sse [''{}''])], request_free = 1024 * 1024 - 74\<rparr>"
  by (simp add: run_ops_def sample_calls_def new_system_def default_queue_def park_def is_alive_def send_def push_def
      frame_cost_def sample_frame FRAME_OVERHEAD_def MAX_WAITING_def MAX_BUFFERED_PER_REQUEST_def
      MAX_BUFFERED_PER_ENDPOINT_def Let_def)

section \<open>Properties\<close>

text \<open>
  C34: buffers are bounded and no permit leaks. After any sequence of calls by the endpoint, workers and
  buyers, what a buyer has yet to read (each frame with its overhead) and the free permits of its
  request together are exactly 1 MiB, and over all requests exactly 4 MiB with the endpoint's free
  permits; a buyer that left holds nothing.
\<close>
theorem sell_budgets_balance:
  assumes "q = queue (run_ops queue_step new_system cs)"
  shows "(\<forall>rid ch. channels q rid = Some ch \<longrightarrow>
        request_free ch + sum_list (map event_cost (unread ch)) = 1024 * 1024 \<and> (receiver_alive ch \<or> unread ch = []))
    \<and> endpoint_free q + (\<Sum>rid\<in>dom (channels q). sum_list (map event_cost (unread (the (channels q rid))))) = 4 * 1024 * 1024"
  using run_sell_inv [of cs]
  by (simp add: assms sell_inv_def budget_inv_def channel_ok_def total_unread_def unread_cost_def
      MAX_BUFFERED_PER_REQUEST_def MAX_BUFFERED_PER_ENDPOINT_def)

theorem sell_budgets_balance_witness:
  "channels (queue (run_ops queue_step new_system sample_calls)) ''a'' =
     Some \<lparr>receiver_alive = True, unread = [Claimed, Chunk (sse [''{}''])], request_free = 1024 * 1024 - 74\<rparr>
   \<and> 1024 * 1024 - 74 + sum_list (map event_cost [Claimed, Chunk (sse [''{}''])]) = 1024 * 1024"
  using sell_budgets_balance [OF refl, of sample_calls] sample_channel by force

text \<open>
  C35: every request is handed back exactly once. After any sequence of calls, the parked requests are
  the waiting, the claimed and the handed-back ones, each in exactly one place and none twice, so a
  reservation against the earn cap is released once; and requests are claimed in the order in which
  they were parked.
\<close>
theorem sell_requests_handed_back_once:
  "mset (parked_log (run_ops queue_step new_system cs)) =
     mset (map pr_id (waiting (queue (run_ops queue_step new_system cs))))
     + mset_set (dom (claimed (queue (run_ops queue_step new_system cs))))
     + mset (settled_log (run_ops queue_step new_system cs))
   \<and> distinct (parked_log (run_ops queue_step new_system cs))
   \<and> subseq (claimed_log (run_ops queue_step new_system cs)) (parked_log (run_ops queue_step new_system cs))"
proof -
  have "handback_inv (run_ops queue_step new_system cs)"
    using run_sell_inv [of cs] by (simp add: sell_inv_def)
  moreover have "subseq xs (xs @ ys)" for xs ys :: "string list"
    by (rule subseq_rev_drop_many) simp
  ultimately show ?thesis
    unfolding handback_inv_def pending_ids_def by (blast intro: subseq_order.order_trans)
qed

text \<open>
  C36: the shape of the queue. After any sequence of calls the ids of waiting requests are distinct and
  none of them is claimed, every waiting or claimed request has its channel, and at most 64 requests
  wait.
\<close>
theorem sell_queue_well_formed:
  "distinct (map pr_id (waiting (queue (run_ops queue_step new_system cs))))
   \<and> pr_id ` set (waiting (queue (run_ops queue_step new_system cs)))
       \<inter> dom (claimed (queue (run_ops queue_step new_system cs))) = {}
   \<and> pr_id ` set (waiting (queue (run_ops queue_step new_system cs)))
       \<union> dom (claimed (queue (run_ops queue_step new_system cs)))
       \<subseteq> dom (channels (queue (run_ops queue_step new_system cs)))
   \<and> length (waiting (queue (run_ops queue_step new_system cs))) \<le> 64"
  using run_sell_inv [of cs] by (auto simp: sell_inv_def ids_inv_def MAX_WAITING_def)

end
