(* ===== verification/Compute_Policy.thy ===== *)
theory Compute_Policy
  imports Token_Amount
begin

text \<open>
  Selling prices of deployed functions (\<^verbatim>\<open>src/rust/crates/mcp-compute/src/payment_policy.rs\<close>): a policy
  names a price, a primary recipient and splits in basis points; \<open>revision\<close> computes the next version of
  it, \<open>policy_resolve\<close> turns it into allocations to the wallets that the wallet service vouches for.

  Base58 decoding is a parameter. The lemmas show that allocations conserve the price to the last unit
  and that none of the unchecked subtractions can panic.
\<close>

section \<open>Data\<close>

record wallet_reference =
  wr_driver :: string
  wr_name :: string

record payment_split =
  split_recipient :: wallet_reference
  split_basis_points :: nat

record payment_policy_spec =
  price_micro_usd :: nat
  schemes :: "string list"
  primary_recipient :: wallet_reference
  policy_splits :: "payment_split list"
  spec_expires_at :: nat

record deployment_identity =
  owner_key :: string
  resource_name :: string
  created_at :: string
  hostname :: string

record owned_wallet =
  ow_owner_key :: string
  ow_reference :: wallet_reference
  ow_chain :: string
  ow_address :: string

record payment_policy =
  pol_deployment :: deployment_identity
  version :: nat
  deleted :: bool
  policy_spec :: payment_policy_spec

record allocation =
  al_recipient :: string
  amount_micro_usd :: nat
  al_basis_points :: nat

text \<open>\<open>ComputePanic\<close> stands for an arithmetic panic or an index out of bounds.\<close>

datatype compute_error =
    InvalidRequest string
  | Configuration string
  | ProviderFailed string
  | TransportFailed
  | SerializationFailed
  | ComputePanic

section \<open>Validation\<close>

definition is_ascii_lowercase :: "char \<Rightarrow> bool" where
  "is_ascii_lowercase ch \<longleftrightarrow> 97 \<le> (of_char ch :: nat) \<and> (of_char ch :: nat) \<le> 122"

definition validate_wallet_reference :: "wallet_reference \<Rightarrow> compute_error + unit" where
  "validate_wallet_reference reference =
     (if wr_driver reference \<noteq> ''privy'' \<or> wr_name reference = [] \<or> 40 < length (wr_name reference)
         \<or> \<not> list_all (\<lambda>ch. is_ascii_lowercase ch \<or> is_ascii_digit ch \<or> ch = CHR ''-'' \<or> ch = CHR ''_'') (wr_name reference)
      then Inl (InvalidRequest ''invalid owner-scoped Privy wallet reference'')
      else Inr ())"

text \<open>One turn of the loop over the splits: the recipients seen so far and the total of basis points.\<close>

definition validate_split ::
  "wallet_reference list \<times> nat \<Rightarrow> payment_split \<Rightarrow> compute_error + wallet_reference list \<times> nat" where
  "validate_split st split =
     (case st of (recipients, tally) \<Rightarrow>
      and_then (validate_wallet_reference (split_recipient split)) (\<lambda>_.
      if split_basis_points split = 0 \<or> 10000 < split_basis_points split
      then Inl (InvalidRequest ''split must be between 1 and 10000 basis points'')
      else if split_recipient split \<in> set recipients
      then Inl (InvalidRequest ''payment recipients must be unique'')
      else
        and_then (ok_or (InvalidRequest ''split total overflow'') (checked_add 32 tally (split_basis_points split))) (\<lambda>tally.
        if 10000 \<le> tally then Inl (InvalidRequest ''splits must leave a positive primary remainder'')
        else Inr (split_recipient split # recipients, tally))))"

definition spec_validate :: "payment_policy_spec \<Rightarrow> nat \<Rightarrow> compute_error + unit" where
  "spec_validate spec now =
     (if price_micro_usd spec = 0 then Inl (InvalidRequest ''selling price must be positive'')
      else if schemes spec \<noteq> [''mpp-session''] then Inl (InvalidRequest ''only mpp-session is supported'')
      else if spec_expires_at spec \<le> now then Inl (InvalidRequest ''payment policy has expired'')
      else if 7 < length (policy_splits spec) then Inl (InvalidRequest ''at most eight total recipients are supported'')
      else
        and_then (validate_wallet_reference (primary_recipient spec)) (\<lambda>_.
        and_then (try_fold validate_split ([primary_recipient spec], 0) (policy_splits spec)) (\<lambda>_.
        Inr ())))"

section \<open>Resolution\<close>

definition resolve_wallet ::
  "(string \<Rightarrow> bytes option) \<Rightarrow> deployment_identity \<Rightarrow> owned_wallet list \<Rightarrow> string list \<Rightarrow> wallet_reference
     \<Rightarrow> compute_error + string list" where
  "resolve_wallet bs58_decode deployment wallets resolved reference =
     (case filter (\<lambda>w. ow_owner_key w = owner_key deployment \<and> ow_reference w = reference) wallets of
        [] \<Rightarrow> Inl (InvalidRequest ''recipient wallet is not owned by the deployment owner'')
      | [wallet] \<Rightarrow>
          if ow_chain wallet \<noteq> ''solana''
             \<or> (case bs58_decode (ow_address wallet) of None \<Rightarrow> True | Some address \<Rightarrow> length address \<noteq> 32)
          then Inl (InvalidRequest ''recipient must be a Solana wallet'')
          else if ow_address wallet \<in> set resolved
          then Inl (InvalidRequest ''recipient addresses must be unique'')
          else Inr (resolved @ [ow_address wallet])
      | _ \<Rightarrow> Inl (InvalidRequest ''ambiguous recipient wallet evidence''))"

text \<open>The product is taken at 128 bits, where it cannot overflow; the quotient is cut to 64.\<close>

definition split_amount :: "nat \<Rightarrow> nat \<Rightarrow> nat" where
  "split_amount price points = wrapping 64 (price * points div 10000)"

definition allocate_split ::
  "nat \<Rightarrow> nat \<times> allocation list \<Rightarrow> payment_split \<times> string \<Rightarrow> compute_error + nat \<times> allocation list" where
  "allocate_split price st item =
     (case st of (remainder, allocations) \<Rightarrow>
      case item of (split, address) \<Rightarrow>
      let amount = split_amount price (split_basis_points split) in
      if amount = 0 then Inl (InvalidRequest ''split rounds to zero at this selling price'')
      else
        and_then (ok_or ComputePanic (checked_sub remainder amount)) (\<lambda>remainder.
        Inr (remainder, allocations @
          [\<lparr>al_recipient = address, amount_micro_usd = amount, al_basis_points = split_basis_points split\<rparr>])))"

definition policy_resolve ::
  "(string \<Rightarrow> bytes option) \<Rightarrow> payment_policy \<Rightarrow> deployment_identity \<Rightarrow> owned_wallet list \<Rightarrow> nat
     \<Rightarrow> compute_error + allocation list" where
  "policy_resolve bs58_decode policy deployment wallets now =
     (let spec = policy_spec policy; price = price_micro_usd spec in
      if deleted policy \<or> version policy = 0 \<or> pol_deployment policy \<noteq> deployment
      then Inl (InvalidRequest ''payment policy does not match this deployment'')
      else
        and_then (spec_validate spec now) (\<lambda>_.
        and_then (try_fold (resolve_wallet bs58_decode deployment wallets) []
            (primary_recipient spec # map split_recipient (policy_splits spec))) (\<lambda>resolved.
        and_then (try_fold (allocate_split price) (price, []) (zip (policy_splits spec) (drop 1 resolved))) (\<lambda>(remainder, allocations).
        and_then (ok_or ComputePanic (checked_sum 16 0 (map split_basis_points (policy_splits spec)))) (\<lambda>points.
        and_then (ok_or ComputePanic (checked_sub 10000 points)) (\<lambda>own_points.
        case resolved of
          [] \<Rightarrow> Inl ComputePanic
        | primary # _ \<Rightarrow>
            Inr (\<lparr>al_recipient = primary, amount_micro_usd = remainder, al_basis_points = own_points\<rparr> # allocations)))))))"

section \<open>Revisions\<close>

definition revision ::
  "payment_policy option \<Rightarrow> deployment_identity \<Rightarrow> payment_policy_spec \<Rightarrow> nat \<Rightarrow> nat \<Rightarrow> compute_error + payment_policy" where
  "revision current deployment spec expected_version now =
     and_then (spec_validate spec now) (\<lambda>_.
     if owner_key deployment = [] \<or> resource_name deployment = [] \<or> created_at deployment = [] \<or> hostname deployment = []
     then Inl (InvalidRequest ''verified deployment identity is incomplete'')
     else
       let next_version = \<lambda>old.
             and_then (ok_or (InvalidRequest ''payment policy version exhausted'') (checked_add 64 old 1)) (\<lambda>v.
             Inr \<lparr>pol_deployment = deployment, version = v, deleted = False, policy_spec = spec\<rparr>) in
       case current of
         Some c \<Rightarrow>
           if pol_deployment c \<noteq> deployment then Inl (InvalidRequest ''payment policy belongs to a different deployment'')
           else if version c = 0 then Inl (InvalidRequest ''stored payment policy version is invalid'')
           else if \<not> deleted c \<and> policy_spec c = spec then Inr c
           else if expected_version \<noteq> version c then Inl (InvalidRequest ''payment policy version conflict'')
           else next_version (version c)
       | None \<Rightarrow>
           if expected_version \<noteq> 0 then Inl (InvalidRequest ''payment policy version conflict'')
           else next_version 0)"

section \<open>What validation establishes\<close>

lemma validate_splits:
  assumes "try_fold validate_split (seen, tally) splits = Inr (seen', tally')" and "tally < 10000"
  shows "tally' = tally + sum_list (map split_basis_points splits) \<and> tally' < 10000
    \<and> (\<forall>s\<in>set splits. 0 < split_basis_points s) \<and> distinct (map split_recipient splits)
    \<and> set seen \<inter> split_recipient ` set splits = {}"
  using assms
proof (induction splits arbitrary: seen tally)
  case (Cons s splits)
  obtain seen1 tally1 where step: "validate_split (seen, tally) s = Inr (seen1, tally1)"
      and rest: "try_fold validate_split (seen1, tally1) splits = Inr (seen', tally')"
    using Cons.prems(1) by (auto simp: res_simps)
  have s: "seen1 = split_recipient s # seen" "tally1 = tally + split_basis_points s" "tally1 < 10000"
      "0 < split_basis_points s" "split_recipient s \<notin> set seen"
    using step by (auto simp: validate_split_def res_simps arith_checked split: if_splits)
  show ?case
    using Cons.IH [OF rest s(3)] s by auto
qed simp

lemma spec_validate_Inr:
  assumes "spec_validate spec now = Inr ()"
  shows "0 < price_micro_usd spec" and "now < spec_expires_at spec" and "length (policy_splits spec) \<le> 7"
    and "sum_list (map split_basis_points (policy_splits spec)) < 10000"
    and "\<forall>s\<in>set (policy_splits spec). 0 < split_basis_points s"
    and "distinct (primary_recipient spec # map split_recipient (policy_splits spec))"
proof -
  obtain seen tally where fold: "try_fold validate_split ([primary_recipient spec], 0) (policy_splits spec) = Inr (seen, tally)"
    using assms by (auto simp: spec_validate_def res_simps split: if_splits)
  note splits = validate_splits [OF fold]
  show "0 < price_micro_usd spec" "now < spec_expires_at spec" "length (policy_splits spec) \<le> 7"
    using assms by (auto simp: spec_validate_def split: if_splits)
  show "sum_list (map split_basis_points (policy_splits spec)) < 10000"
    "\<forall>s\<in>set (policy_splits spec). 0 < split_basis_points s"
    "distinct (primary_recipient spec # map split_recipient (policy_splits spec))"
    using splits by auto
qed

lemma revision_Inr:
  assumes "revision current deployment spec expected now = Inr p"
  shows "pol_deployment p = deployment" and "0 < version p" and "\<not> deleted p" and "policy_spec p = spec"
    and "case current of None \<Rightarrow> version p = 1
         | Some c \<Rightarrow> p = c \<or> (version c = expected \<and> version p = version c + 1 \<and> version p < 2 ^ 64)"
  using assms by (auto simp: revision_def Let_def res_simps arith_checked split: option.splits if_splits)

section \<open>What resolution pays\<close>

lemma resolve_wallets:
  assumes "try_fold (resolve_wallet bs58 deployment wallets) resolved refs = Inr out" and "distinct resolved"
  shows "\<exists>added. out = resolved @ added \<and> distinct (resolved @ added) \<and>
    list_all2 (\<lambda>reference address. \<exists>w\<in>set wallets. ow_owner_key w = owner_key deployment \<and> ow_reference w = reference
       \<and> ow_chain w = ''solana'' \<and> ow_address w = address) refs added"
  using assms
proof (induction refs arbitrary: resolved)
  case (Cons reference refs)
  obtain mid where step: "resolve_wallet bs58 deployment wallets resolved reference = Inr mid"
      and rest: "try_fold (resolve_wallet bs58 deployment wallets) mid refs = Inr out"
    using Cons.prems(1) by (auto simp: res_simps)
  obtain w where w: "filter (\<lambda>w. ow_owner_key w = owner_key deployment \<and> ow_reference w = reference) wallets = [w]"
      "ow_chain w = ''solana''" "ow_address w \<notin> set resolved" "mid = resolved @ [ow_address w]"
    using step by (auto simp: resolve_wallet_def split: list.splits if_splits)
  have "w \<in> set (filter (\<lambda>w. ow_owner_key w = owner_key deployment \<and> ow_reference w = reference) wallets)"
    by (simp add: w(1))
  then have mem: "w \<in> set wallets" "ow_owner_key w = owner_key deployment" "ow_reference w = reference"
    by auto
  have "distinct mid"
    using Cons.prems(2) w by simp
  from Cons.IH [OF rest this] obtain added where "out = mid @ added" "distinct (mid @ added)"
      "list_all2 (\<lambda>reference address. \<exists>w\<in>set wallets. ow_owner_key w = owner_key deployment \<and> ow_reference w = reference
       \<and> ow_chain w = ''solana'' \<and> ow_address w = address) refs added"
    by blast
  then show ?case
    using w mem by (intro exI [of _ "ow_address w # added"]) auto
qed simp

text \<open>Each floor is at most its exact share, so the remainder never goes below the primary's own share.\<close>

lemma split_amount_le: "price < 2 ^ 64 \<Longrightarrow> points \<le> 10000 \<Longrightarrow> split_amount price points = price * points div 10000"
proof -
  assume "price < 2 ^ 64" "points \<le> 10000"
  then have "price * points div 10000 \<le> price"
    using div_le_mono [of "price * points" "price * 10000" 10000] by simp
  then show ?thesis
    using \<open>price < 2 ^ 64\<close> by (simp add: split_amount_def wrapping_def)
qed

lemma allocations_bounded:
  fixes price :: nat
  shows "(\<Sum>n\<leftarrow>points. price * n div 10000) * 10000 \<le> price * sum_list points"
proof (induction points)
  case (Cons n points)
  have "price * n div 10000 * 10000 \<le> price * n"
    by (rule div_times_less_eq_dividend)
  then show ?case
    using Cons.IH by (simp add: algebra_simps)
qed simp

lemma allocate_splits:
  assumes "price < 2 ^ 64" and "length addresses = length splits"
    and "\<forall>s\<in>set splits. split_basis_points s \<le> 10000"
    and "(\<Sum>s\<leftarrow>splits. price * split_basis_points s div 10000) \<le> remainder"
  shows "try_fold (allocate_split price) (remainder, acc) (zip splits addresses) =
    (if \<forall>s\<in>set splits. 0 < price * split_basis_points s div 10000
     then Inr (remainder - (\<Sum>s\<leftarrow>splits. price * split_basis_points s div 10000),
       acc @ map2 (\<lambda>s address. \<lparr>al_recipient = address, amount_micro_usd = price * split_basis_points s div 10000,
         al_basis_points = split_basis_points s\<rparr>) splits addresses)
     else Inl (InvalidRequest ''split rounds to zero at this selling price''))"
  using assms
proof (induction splits arbitrary: addresses remainder acc)
  case (Cons s splits)
  obtain address addresses' where addresses: "addresses = address # addresses'" "length addresses' = length splits"
    using Cons.prems(2) by (cases addresses) auto
  let ?amount = "price * split_basis_points s div 10000"
  have amount: "split_amount price (split_basis_points s) = ?amount"
    using Cons.prems(1,3) by (simp add: split_amount_le)
  have rest: "(\<Sum>s\<leftarrow>splits. price * split_basis_points s div 10000) \<le> remainder - ?amount" and sub: "checked_sub remainder ?amount = Some (remainder - ?amount)"
    using Cons.prems(4) by (auto simp: checked_sub_def)
  show ?case
  proof (cases "?amount = 0")
    case False
    then show ?thesis
      using Cons.IH [OF Cons.prems(1) addresses(2) _ rest] Cons.prems(3)
      by (simp add: addresses allocate_split_def amount sub Let_def)
  qed (simp add: addresses allocate_split_def amount Let_def)
qed simp

lemma policy_resolve_eq:
  assumes price: "price_micro_usd (policy_spec p) < 2 ^ 64"
  shows "policy_resolve bs58 p deployment wallets now =
    (let spec = policy_spec p; price = price_micro_usd spec;
         share = \<lambda>s. price * split_basis_points s div 10000 in
     if deleted p \<or> version p = 0 \<or> pol_deployment p \<noteq> deployment
     then Inl (InvalidRequest ''payment policy does not match this deployment'')
     else
       and_then (spec_validate spec now) (\<lambda>_.
       and_then (try_fold (resolve_wallet bs58 deployment wallets) []
          (primary_recipient spec # map split_recipient (policy_splits spec))) (\<lambda>resolved.
       if \<forall>s\<in>set (policy_splits spec). 0 < share s
       then Inr (map2 (\<lambda>address (amount, points). \<lparr>al_recipient = address, amount_micro_usd = amount, al_basis_points = points\<rparr>)
              resolved ((price - sum_list (map share (policy_splits spec)), 10000 - sum_list (map split_basis_points (policy_splits spec)))
                # map (\<lambda>s. (share s, split_basis_points s)) (policy_splits spec)))
       else Inl (InvalidRequest ''split rounds to zero at this selling price''))))"
proof -
  let ?spec = "policy_spec p" let ?price = "price_micro_usd ?spec" let ?splits = "policy_splits ?spec"
  have inner: "and_then (try_fold (allocate_split ?price) (?price, []) (zip ?splits (drop 1 resolved))) (\<lambda>(remainder, allocations).
        and_then (ok_or ComputePanic (checked_sum 16 0 (map split_basis_points ?splits))) (\<lambda>points.
        and_then (ok_or ComputePanic (checked_sub 10000 points)) (\<lambda>own_points.
        case resolved of [] \<Rightarrow> Inl ComputePanic
        | primary # _ \<Rightarrow> Inr (\<lparr>al_recipient = primary, amount_micro_usd = remainder, al_basis_points = own_points\<rparr> # allocations))))
      = (if \<forall>s\<in>set ?splits. 0 < ?price * split_basis_points s div 10000
         then Inr (map2 (\<lambda>address (amount, points). \<lparr>al_recipient = address, amount_micro_usd = amount, al_basis_points = points\<rparr>)
              resolved ((?price - (\<Sum>s\<leftarrow>?splits. ?price * split_basis_points s div 10000), 10000 - sum_list (map split_basis_points ?splits))
                # map (\<lambda>s. (?price * split_basis_points s div 10000, split_basis_points s)) ?splits))
         else Inl (InvalidRequest ''split rounds to zero at this selling price''))"
    if valid: "spec_validate ?spec now = Inr ()"
      and fold: "try_fold (resolve_wallet bs58 deployment wallets) [] (primary_recipient ?spec # map split_recipient ?splits) = Inr resolved"
    for resolved
  proof -
    have "length resolved = length (primary_recipient ?spec # map split_recipient ?splits)"
      using resolve_wallets [OF fold] by (auto dest: list_all2_lengthD)
    then obtain primary addresses where resolved: "resolved = primary # addresses" "length addresses = length ?splits"
      by (cases resolved) auto
    have tally: "sum_list (map split_basis_points ?splits) < 10000"
      by (rule spec_validate_Inr(4) [OF valid])
    have points: "split_basis_points s \<le> 10000" if "s \<in> set ?splits" for s
      using member_le_sum_list [of "split_basis_points s" "map split_basis_points ?splits"] that tally by simp
    have "(\<Sum>s\<leftarrow>?splits. ?price * split_basis_points s div 10000) * 10000 \<le> ?price * sum_list (map split_basis_points ?splits)"
      using allocations_bounded [of ?price "map split_basis_points ?splits"] by (simp add: o_def)
    also have "\<dots> \<le> ?price * 10000"
      using tally by simp
    finally have le: "(\<Sum>s\<leftarrow>?splits. ?price * split_basis_points s div 10000) \<le> ?price"
      by simp
    have sum: "checked_sum 16 0 (map split_basis_points ?splits) = Some (sum_list (map split_basis_points ?splits))"
      using tally by (simp add: checked_sum_zero_Some)
    have flip: "map2 (\<lambda>s address. f address s) ?splits addresses = map2 f addresses ?splits" for f :: "string \<Rightarrow> payment_split \<Rightarrow> allocation"
      by (subst zip_commute) (simp add: case_prod_beta o_def)
    have head: "zip resolved (x # map g ?splits) = (primary, x) # zip addresses (map g ?splits)" for x and g :: "payment_split \<Rightarrow> nat \<times> nat"
      by (simp add: resolved(1))
    show ?thesis
      using tally unfolding head zip_map2
      by (simp add: resolved(1) allocate_splits [OF price resolved(2) _ le] points sum checked_sub_def flip)
        (simp add: case_prod_beta o_def)
  qed
  show ?thesis
    unfolding policy_resolve_def Let_def
    by (intro if_cong refl and_then_cong) (rule inner, simp_all)
qed

lemma try_fold_not_Inl: "(\<And>s x. f s x \<noteq> Inl e) \<Longrightarrow> try_fold f s xs \<noteq> Inl e"
  by (induction xs arbitrary: s) (auto simp: res_simps)

lemma validation_never_panics: "spec_validate spec now \<noteq> Inl ComputePanic"
proof -
  have reference: "validate_wallet_reference r \<noteq> Inl ComputePanic" for r
    by (simp add: validate_wallet_reference_def)
  have "validate_split st x \<noteq> Inl ComputePanic" for st x
    using reference by (auto simp: validate_split_def res_simps split: prod.splits if_splits)
  then have "try_fold validate_split st xs \<noteq> Inl ComputePanic" for st xs
    by (rule try_fold_not_Inl)
  then show ?thesis
    using reference by (auto simp: spec_validate_def res_simps)
qed

lemma resolve_wallets_never_panic: "try_fold (resolve_wallet bs58 deployment wallets) resolved references \<noteq> Inl ComputePanic"
  by (rule try_fold_not_Inl) (auto simp: resolve_wallet_def split: list.split)

lemma shares_below_price:
  fixes price :: nat
  assumes "0 < price" and "sum_list points < 10000"
  shows "(\<Sum>n\<leftarrow>points. price * n div 10000) < price"
proof -
  have "(\<Sum>n\<leftarrow>points. price * n div 10000) * 10000 \<le> price * sum_list points"
    by (rule allocations_bounded)
  also have "\<dots> < price * 10000"
    using assms by simp
  finally show ?thesis
    by simp
qed

section \<open>A concrete policy\<close>

definition sample_reference :: "string \<Rightarrow> wallet_reference" where
  "sample_reference name = \<lparr>wr_driver = ''privy'', wr_name = name\<rparr>"

definition sample_deployment :: deployment_identity where
  "sample_deployment = \<lparr>owner_key = ''owner-a'', resource_name = ''gcf-a'', created_at = ''2026'', hostname = ''a.example''\<rparr>"

definition sample_spec :: "nat \<Rightarrow> payment_policy_spec" where
  "sample_spec price = \<lparr>price_micro_usd = price, schemes = [''mpp-session''], primary_recipient = sample_reference ''infra'',
     policy_splits = [\<lparr>split_recipient = sample_reference ''tax'', split_basis_points = 3000\<rparr>,
       \<lparr>split_recipient = sample_reference ''profit'', split_basis_points = 1000\<rparr>], spec_expires_at = 100\<rparr>"

definition price_policy :: "nat \<Rightarrow> payment_policy" where
  "price_policy price = \<lparr>pol_deployment = sample_deployment, version = 1, deleted = False, policy_spec = sample_spec price\<rparr>"

definition sample_wallets :: "owned_wallet list" where
  "sample_wallets = map (\<lambda>name. \<lparr>ow_owner_key = ''owner-a'', ow_reference = sample_reference name, ow_chain = ''solana'',
     ow_address = name\<rparr>) [''infra'', ''tax'', ''profit'']"

abbreviation sample_decode :: "string \<Rightarrow> bytes option" where
  "sample_decode \<equiv> \<lambda>_. Some (replicate 32 1)"

lemma sample_references:
  "validate_wallet_reference (sample_reference ''infra'') = Inr ()"
  "validate_wallet_reference (sample_reference ''tax'') = Inr ()"
  "validate_wallet_reference (sample_reference ''profit'') = Inr ()"
  by code_simp+

lemma sample_spec_valid: "0 < price \<Longrightarrow> now < 100 \<Longrightarrow> spec_validate (sample_spec price) now = Inr ()"
  using sample_references
  by (simp add: spec_validate_def sample_spec_def validate_split_def checked_add_def)
    (simp add: sample_reference_def)

lemma sample_resolved:
  "policy_resolve sample_decode (price_policy 50003) sample_deployment sample_wallets 1 =
     Inr [\<lparr>al_recipient = ''infra'', amount_micro_usd = 30003, al_basis_points = 6000\<rparr>,
          \<lparr>al_recipient = ''tax'', amount_micro_usd = 15000, al_basis_points = 3000\<rparr>,
          \<lparr>al_recipient = ''profit'', amount_micro_usd = 5000, al_basis_points = 1000\<rparr>]"
proof -
  have "try_fold (resolve_wallet sample_decode sample_deployment sample_wallets) []
      [sample_reference ''infra'', sample_reference ''tax'', sample_reference ''profit''] = Inr [''infra'', ''tax'', ''profit'']"
    by (simp add: resolve_wallet_def sample_wallets_def sample_deployment_def sample_reference_def)
  moreover have "price_micro_usd (policy_spec (price_policy 50003)) < 2 ^ 64" "spec_validate (sample_spec 50003) 1 = Inr ()"
    by (simp_all add: price_policy_def sample_spec_valid) (simp add: sample_spec_def)
  ultimately show ?thesis
    by (subst policy_resolve_eq) (simp_all add: price_policy_def Let_def, simp add: sample_spec_def)
qed

section \<open>Properties\<close>

text \<open>
  C37: a selling price is allocated to the last unit. For every 64-bit price, resolution never panics,
  and when it succeeds the amounts are positive and add up to the price, the basis points to 10000, each
  split gets the floor of its share and the primary recipient the rest, and every payment goes to a
  distinct Solana address that the wallet service attributes to the owner of the deployment under the
  reference of the policy.
\<close>
theorem selling_price_fully_allocated:
  assumes "price_micro_usd (policy_spec p) < 2 ^ 64"
  shows "policy_resolve bs58 p deployment wallets now \<noteq> Inl ComputePanic
    \<and> (\<forall>allocations. policy_resolve bs58 p deployment wallets now = Inr allocations \<longrightarrow>
        sum_list (map amount_micro_usd allocations) = price_micro_usd (policy_spec p)
        \<and> sum_list (map al_basis_points allocations) = 10000
        \<and> (\<forall>a\<in>set allocations. 0 < amount_micro_usd a)
        \<and> map amount_micro_usd (tl allocations)
            = map (\<lambda>s. price_micro_usd (policy_spec p) * split_basis_points s div 10000) (policy_splits (policy_spec p))
        \<and> distinct (map al_recipient allocations)
        \<and> list_all2 (\<lambda>reference a. \<exists>w\<in>set wallets. ow_owner_key w = owner_key deployment \<and> ow_reference w = reference
              \<and> ow_chain w = ''solana'' \<and> ow_address w = al_recipient a)
            (primary_recipient (policy_spec p) # map split_recipient (policy_splits (policy_spec p))) allocations)"
proof -
  let ?spec = "policy_spec p" let ?price = "price_micro_usd ?spec" let ?splits = "policy_splits ?spec"
  let ?share = "\<lambda>s. ?price * split_basis_points s div 10000"
  let ?out = "\<lambda>resolved. map2 (\<lambda>address (amount, points). \<lparr>al_recipient = address, amount_micro_usd = amount, al_basis_points = points\<rparr>)
     resolved ((?price - sum_list (map ?share ?splits), 10000 - sum_list (map split_basis_points ?splits))
       # map (\<lambda>s. (?share s, split_basis_points s)) ?splits)"
  note eq = policy_resolve_eq [OF assms, of bs58 deployment wallets now, unfolded Let_def]
  have "policy_resolve bs58 p deployment wallets now \<noteq> Inl ComputePanic"
    unfolding eq using validation_never_panics resolve_wallets_never_panic
    by (simp del: try_fold.simps add: and_then_eq_Inl)
  moreover have "sum_list (map amount_micro_usd allocations) = ?price \<and> sum_list (map al_basis_points allocations) = 10000
        \<and> (\<forall>a\<in>set allocations. 0 < amount_micro_usd a) \<and> map amount_micro_usd (tl allocations) = map ?share ?splits
        \<and> distinct (map al_recipient allocations)
        \<and> list_all2 (\<lambda>reference a. \<exists>w\<in>set wallets. ow_owner_key w = owner_key deployment \<and> ow_reference w = reference
              \<and> ow_chain w = ''solana'' \<and> ow_address w = al_recipient a) (primary_recipient ?spec # map split_recipient ?splits) allocations"
    if ok: "policy_resolve bs58 p deployment wallets now = Inr allocations" for allocations
  proof -
    obtain resolved where valid: "spec_validate ?spec now = Inr ()"
        and fold: "try_fold (resolve_wallet bs58 deployment wallets) [] (primary_recipient ?spec # map split_recipient ?splits) = Inr resolved"
        and pos: "\<forall>s\<in>set ?splits. 0 < ?share s" and allocations: "allocations = ?out resolved"
      using ok unfolding eq by (auto simp: and_then_eq_Inr simp del: try_fold.simps split: if_splits)
    obtain owned: "distinct resolved" "list_all2 (\<lambda>reference address. \<exists>w\<in>set wallets. ow_owner_key w = owner_key deployment
        \<and> ow_reference w = reference \<and> ow_chain w = ''solana'' \<and> ow_address w = address)
        (primary_recipient ?spec # map split_recipient ?splits) resolved"
      using resolve_wallets [OF fold] by auto
    then have "length resolved = Suc (length ?splits)"
      by (auto dest: list_all2_lengthD)
    then obtain primary addresses where resolved: "resolved = primary # addresses" "length addresses = length ?splits"
      by (cases resolved) auto
    have snds: "map (\<lambda>x. g (snd x)) (zip addresses ?splits) = map g ?splits" for g :: "payment_split \<Rightarrow> nat"
      using resolved(2) map_map [of g snd "zip addresses ?splits"] by (simp add: o_def)
    have parts: "map amount_micro_usd allocations = (?price - sum_list (map ?share ?splits)) # map ?share ?splits"
      "map al_basis_points allocations = (10000 - sum_list (map split_basis_points ?splits)) # map split_basis_points ?splits"
      "map al_recipient allocations = resolved"
      using resolved(2) by (simp_all add: allocations resolved(1) zip_map2 case_prod_beta o_def snds snds [of ?share])
    have points: "sum_list (map split_basis_points ?splits) < 10000"
      by (rule spec_validate_Inr(4) [OF valid])
    have below: "sum_list (map ?share ?splits) < ?price"
      using shares_below_price [OF spec_validate_Inr(1) [OF valid], of "map split_basis_points ?splits"] points by (simp add: o_def)
    show ?thesis
    proof (intro conjI ballI)
      show "sum_list (map amount_micro_usd allocations) = ?price" "sum_list (map al_basis_points allocations) = 10000"
        "map amount_micro_usd (tl allocations) = map ?share ?splits" "distinct (map al_recipient allocations)"
        using below points owned(1) by (simp_all add: parts map_tl)
      show "0 < amount_micro_usd a" if "a \<in> set allocations" for a
        using imageI [OF that, of amount_micro_usd] below pos unfolding set_map [symmetric] parts by auto
      show "list_all2 (\<lambda>reference a. \<exists>w\<in>set wallets. ow_owner_key w = owner_key deployment \<and> ow_reference w = reference
              \<and> ow_chain w = ''solana'' \<and> ow_address w = al_recipient a) (primary_recipient ?spec # map split_recipient ?splits) allocations"
        using owned(2) unfolding parts(3) [symmetric] by (simp only: list_all2_map2)
    qed
  qed
  ultimately show ?thesis
    by blast
qed

theorem selling_price_fully_allocated_witness:
  "\<exists>allocations. policy_resolve sample_decode (price_policy 50003) sample_deployment sample_wallets 1 = Inr allocations
     \<and> sum_list (map amount_micro_usd allocations) = 50003 \<and> length allocations = 3"
  using selling_price_fully_allocated [of "price_policy 50003" sample_decode sample_deployment sample_wallets 1] sample_resolved
  by (simp add: price_policy_def sample_spec_def)

end
