(* ===== verification/Compute_Store.thy ===== *)
theory Compute_Store
  imports Compute_Policy Json_Value
begin

text \<open>
  The store of selling policies (\<^verbatim>\<open>src/rust/crates/mcp-compute/src/payment_repository.rs\<close>): one Firestore
  document per deployment incarnation, written only under the precondition that it still is the
  document that was read, or that there is none.

  Firestore, the serde codecs and SHA-256 are parameters. A handler works on the world and on a log of
  the documents it read and of the writes it sent; an answer that never arrives leaves the write in the
  log, since the server may have applied it. The lemmas show that decoding undoes encoding, and what
  each operation may send.
\<close>

section \<open>Documents\<close>

record stored_policy =
  st_deployment :: deployment_identity
  st_policy :: "payment_policy option"
  retired :: bool
  absent_since :: "nat option"
  update_time :: string

definition RETENTION_SECONDS :: nat where
  "RETENTION_SECONDS = 7 * 24 * 60 * 60"

definition PAGE_SIZE :: nat where
  "PAGE_SIZE = 10"

record policy_codec =
  policy_to_json :: "payment_policy \<Rightarrow> string option"
  policy_from_json :: "string \<Rightarrow> payment_policy option"
  identity_to_json :: "deployment_identity \<Rightarrow> string option"
  identity_from_json :: "string \<Rightarrow> deployment_identity option"
  sha256_hex :: "string \<Rightarrow> string"

definition stored_retire :: "stored_policy \<Rightarrow> compute_error + stored_policy" where
  "stored_retire s =
     (if retired s then Inr s
      else
        case st_policy s of
          None \<Rightarrow> Inr (s\<lparr>retired := True\<rparr>)
        | Some p \<Rightarrow>
            and_then (ok_or (Configuration ''payment policy version exhausted'') (checked_add 64 (version p) 1)) (\<lambda>v.
            Inr (s\<lparr>st_policy := Some (p\<lparr>version := v, deleted := True\<rparr>), retired := True\<rparr>)))"

definition invalid_document :: compute_error where
  "invalid_document = Configuration ''stored payment policy is invalid''"

definition policy_key :: "policy_codec \<Rightarrow> deployment_identity \<Rightarrow> string" where
  "policy_key cd d = sha256_hex cd (owner_key d @ [CHR 0x00] @ resource_name d @ [CHR 0x00] @ created_at d)"

definition document_url :: "policy_codec \<Rightarrow> string \<Rightarrow> deployment_identity \<Rightarrow> string" where
  "document_url cd documents_url d = documents_url @ ''/'' @ policy_key cd d"

text \<open>The members of a document, one at a time.\<close>

definition decode_policy :: "policy_codec \<Rightarrow> json \<Rightarrow> compute_error + payment_policy option" where
  "decode_policy cd value =
     (case json_pointer value [''fields'', ''policy''] of
        None \<Rightarrow> Inr None
      | Some v \<Rightarrow>
          and_then (ok_or invalid_document (json_str_at v ''stringValue'')) (\<lambda>text.
          and_then (ok_or SerializationFailed (policy_from_json cd text)) (\<lambda>p. Inr (Some p))))"

definition decode_identity ::
  "policy_codec \<Rightarrow> json \<Rightarrow> payment_policy option \<Rightarrow> compute_error + deployment_identity" where
  "decode_identity cd value policy =
     (case json_pointer value [''fields'', ''identity'', ''stringValue''] of
        Some (JString identity) \<Rightarrow> ok_or SerializationFailed (identity_from_json cd identity)
      | None \<Rightarrow> ok_or invalid_document (map_option pol_deployment policy)
      | _ \<Rightarrow> Inl invalid_document)"

definition decode_retired :: "json \<Rightarrow> compute_error + bool" where
  "decode_retired value =
     (case json_pointer value [''fields'', ''retired''] of
        None \<Rightarrow> Inr False
      | Some v \<Rightarrow> ok_or invalid_document (Option.bind (json_get v ''booleanValue'') json_as_bool))"

definition decode_absent :: "json \<Rightarrow> compute_error + nat option" where
  "decode_absent value =
     (case json_pointer value [''fields'', ''absent_since''] of
        None \<Rightarrow> Inr None
      | Some v \<Rightarrow>
          and_then (ok_or invalid_document (Option.bind (json_str_at v ''integerValue'') parse_u64)) (\<lambda>n. Inr (Some n)))"

definition non_empty :: "string option \<Rightarrow> string option" where
  "non_empty s = Option.bind s (\<lambda>t. if t = [] then None else Some t)"

definition decode :: "policy_codec \<Rightarrow> json \<Rightarrow> compute_error + stored_policy" where
  "decode cd value =
     and_then (decode_policy cd value) (\<lambda>policy.
     and_then (decode_identity cd value policy) (\<lambda>deployment.
     if (case policy of Some p \<Rightarrow> pol_deployment p \<noteq> deployment \<or> version p = 0 | None \<Rightarrow> False)
     then Inl invalid_document
     else
       and_then (decode_retired value) (\<lambda>is_retired.
       and_then (decode_absent value) (\<lambda>absent.
       if (is_retired \<and> (case policy of Some p \<Rightarrow> \<not> deleted p | None \<Rightarrow> False))
          \<or> (\<not> is_retired \<and> (policy = None \<or> absent \<noteq> None))
       then Inl invalid_document
       else
         and_then (ok_or invalid_document (non_empty (json_str_at value ''updateTime''))) (\<lambda>time.
         Inr \<lparr>st_deployment = deployment, st_policy = policy, retired = is_retired, absent_since = absent,
              update_time = time\<rparr>)))))"

text \<open>What \<open>write\<close> sends, its members in the order of a \<open>serde_json\<close> object.\<close>

definition encode_fields :: "policy_codec \<Rightarrow> stored_policy \<Rightarrow> compute_error + json" where
  "encode_fields cd next =
     and_then (ok_or SerializationFailed (identity_to_json cd (st_deployment next))) (\<lambda>identity.
     and_then (case st_policy next of
         None \<Rightarrow> Inr []
       | Some p \<Rightarrow> and_then (ok_or SerializationFailed (policy_to_json cd p)) (\<lambda>text.
           Inr [(''policy'', JObject [(''stringValue'', JString text)])])) (\<lambda>policy_member.
     Inr (JObject (
       (case absent_since next of None \<Rightarrow> [] | Some n \<Rightarrow> [(''absent_since'', JObject [(''integerValue'', JString (show_nat n))])])
       @ [(''identity'', JObject [(''stringValue'', JString identity)])]
       @ policy_member @ [(''retired'', JObject [(''booleanValue'', JBool (retired next))])]))))"

section \<open>Handlers\<close>

datatype precondition = MustNotExist | UpdateTimeIs string

datatype store_event =
    GotDocument string json
  | PatchDocument string precondition json
  | DeleteDocument string string

text \<open>A transport error, or a status and a body that parsed as JSON or did not.\<close>

type_synonym http_reply = "(nat \<times> json option) option"

record 'w store_env =
  codec_of :: policy_codec
  documents_url :: string
  get_document :: "'w \<Rightarrow> string \<Rightarrow> string \<Rightarrow> http_reply \<times> 'w"
  patch_document :: "'w \<Rightarrow> string \<Rightarrow> string \<Rightarrow> precondition \<Rightarrow> json \<Rightarrow> http_reply \<times> 'w"
  delete_document :: "'w \<Rightarrow> string \<Rightarrow> string \<Rightarrow> string \<Rightarrow> http_reply \<times> 'w"
  list_documents :: "'w \<Rightarrow> string \<Rightarrow> string option \<Rightarrow> http_reply \<times> 'w"
  get_checkpoint :: "'w \<Rightarrow> string \<Rightarrow> string \<Rightarrow> http_reply \<times> 'w"
  patch_checkpoint :: "'w \<Rightarrow> string \<Rightarrow> string \<Rightarrow> precondition \<Rightarrow> json \<Rightarrow> http_reply \<times> 'w"

record 'w compute_state =
  cs_world :: 'w
  cs_log :: "store_event list"

type_synonym ('w, 'a) compute = "('w compute_state, compute_error, 'a) handler"

definition ask :: "('w \<Rightarrow> 'a \<times> 'w) \<Rightarrow> ('w, 'a) compute" where
  "ask f st = (case f (cs_world st) of (a, w) \<Rightarrow> (st\<lparr>cs_world := w\<rparr>, Inr a))"

definition log_event :: "store_event \<Rightarrow> ('w, unit) compute" where
  "log_event event st = (st\<lparr>cs_log := cs_log st @ [event]\<rparr>, Inr ())"

definition is_success :: "nat \<Rightarrow> bool" where
  "is_success status \<longleftrightarrow> 200 \<le> status \<and> status < 300"

definition check :: "http_reply \<Rightarrow> compute_error + json option" where
  "check reply =
     (case reply of
        None \<Rightarrow> Inl TransportFailed
      | Some (status, body) \<Rightarrow>
          if is_success status then Inr body
          else
            let code = Option.bind (Option.bind body (\<lambda>v. json_pointer v [''error'', ''status''])) json_as_str in
            if status \<in> {409, 412} \<or> code \<in> Some ` {''FAILED_PRECONDITION'', ''ABORTED'', ''ALREADY_EXISTS''}
            then Inl (InvalidRequest ''payment policy version conflict; retry with current version'')
            else Inl (ProviderFailed ''payment policy storage unavailable''))"

definition reply_json :: "http_reply \<Rightarrow> compute_error + json" where
  "reply_json reply = and_then (check reply) (ok_or TransportFailed)"

definition load ::
  "'w store_env \<Rightarrow> string \<Rightarrow> deployment_identity \<Rightarrow> ('w, stored_policy option) compute" where
  "load env token deployment =
     (let url = document_url (codec_of env) (documents_url env) deployment in
      h_bind (ask (\<lambda>w. get_document env w token url)) (\<lambda>reply.
      if map_option fst reply = Some 404 then h_lift (Inr None)
      else
        h_bind (h_lift (reply_json reply)) (\<lambda>value.
        h_bind (log_event (GotDocument url value)) (\<lambda>_.
        h_bind (h_lift (decode (codec_of env) value)) (\<lambda>stored.
        h_lift (if st_deployment stored \<noteq> deployment then Inl invalid_document else Inr (Some stored)))))))"

definition write_allowed :: "stored_policy option \<Rightarrow> stored_policy \<Rightarrow> bool" where
  "write_allowed previous next \<longleftrightarrow>
     (case previous of None \<Rightarrow> True
      | Some old \<Rightarrow> st_deployment old = st_deployment next \<and> (retired old \<longrightarrow> retired next)
          \<and> (case st_policy old of None \<Rightarrow> True
             | Some p \<Rightarrow> (case st_policy next of None \<Rightarrow> False | Some p' \<Rightarrow> version p \<le> version p')))"

definition write_policy ::
  "'w store_env \<Rightarrow> string \<Rightarrow> stored_policy option \<Rightarrow> stored_policy \<Rightarrow> ('w, unit) compute" where
  "write_policy env token previous next =
     (if \<not> write_allowed previous next then h_lift (Inl invalid_document)
      else
        h_bind (h_lift (encode_fields (codec_of env) next)) (\<lambda>fields.
        let url = document_url (codec_of env) (documents_url env) (st_deployment next);
            pre = (case previous of Some old \<Rightarrow> UpdateTimeIs (update_time old) | None \<Rightarrow> MustNotExist) in
        h_bind (log_event (PatchDocument url pre fields)) (\<lambda>_.
        h_bind (ask (\<lambda>w. patch_document env w token url pre (JObject [(''fields'', fields)]))) (\<lambda>reply.
        h_bind (h_lift (check reply)) (\<lambda>_. h_lift (Inr ()))))))"

definition purge :: "'w store_env \<Rightarrow> string \<Rightarrow> stored_policy \<Rightarrow> ('w, unit) compute" where
  "purge env token stored =
     (if \<not> retired stored \<or> absent_since stored = None then h_lift (Inl invalid_document)
      else
        let url = document_url (codec_of env) (documents_url env) (st_deployment stored) in
        h_bind (log_event (DeleteDocument url (update_time stored))) (\<lambda>_.
        h_bind (ask (\<lambda>w. delete_document env w token url (update_time stored))) (\<lambda>reply.
        if map_option fst reply = Some 404 then h_lift (Inr ())
        else h_bind (h_lift (check reply)) (\<lambda>_. h_lift (Inr ())))))"

definition page ::
  "'w store_env \<Rightarrow> string \<Rightarrow> string option \<Rightarrow> ('w, json list \<times> string option) compute" where
  "page env token page_token =
     h_bind (ask (\<lambda>w. list_documents env w token page_token)) (\<lambda>reply.
     h_lift (and_then (reply_json reply) (\<lambda>value.
       and_then (case json_get value ''documents'' of
           None \<Rightarrow> Inr []
         | Some (JArray documents) \<Rightarrow> if length documents \<le> PAGE_SIZE then Inr documents else Inl invalid_document
         | _ \<Rightarrow> Inl invalid_document) (\<lambda>documents.
       Inr (documents, non_empty (json_str_at value ''nextPageToken''))))))"

text \<open>The part of a string after the first occurrence of a separator: \<open>split_once\<close>.\<close>

fun after_first :: "string \<Rightarrow> string \<Rightarrow> string option" where
  "after_first sep s =
     (if prefix sep s then Some (drop (length sep) s)
      else case s of [] \<Rightarrow> None | ch # rest \<Rightarrow> after_first sep rest)"

declare after_first.simps [simp del]

definition validate_name :: "'w store_env \<Rightarrow> json \<Rightarrow> stored_policy \<Rightarrow> compute_error + unit" where
  "validate_name env value stored =
     and_then (ok_or invalid_document
         (after_first ''/v1/'' (document_url (codec_of env) (documents_url env) (st_deployment stored)))) (\<lambda>expected.
     ensure (json_str_at value ''name'' = Some expected) invalid_document)"

section \<open>The scan checkpoint\<close>

record scan_checkpoint =
  page_token :: "string option"
  cp_update_time :: "string option"

definition checkpoint_url :: "'w store_env \<Rightarrow> string \<Rightarrow> compute_error + string" where
  "checkpoint_url env scope =
     (let rest = dropWhile (\<lambda>ch. ch \<noteq> CHR ''/'') (rev (documents_url env)) in
      if rest = [] then Inl invalid_document
      else Inr (rev (tl rest) @ ''/pay_compute_policy_reconciliation/'' @ sha256_hex (codec_of env) scope))"

definition checkpoint :: "'w store_env \<Rightarrow> string \<Rightarrow> string \<Rightarrow> ('w, scan_checkpoint) compute" where
  "checkpoint env token scope =
     h_bind (h_lift (checkpoint_url env scope)) (\<lambda>url.
     h_bind (ask (\<lambda>w. get_checkpoint env w token url)) (\<lambda>reply.
     if map_option fst reply = Some 404 then h_lift (Inr \<lparr>page_token = None, cp_update_time = None\<rparr>)
     else
       h_lift (and_then (reply_json reply) (\<lambda>value.
         and_then (ok_or invalid_document
             (Option.bind (json_pointer value [''fields'', ''page_token'', ''stringValue'']) json_as_str)) (\<lambda>token_text.
         and_then (ok_or invalid_document (non_empty (json_str_at value ''updateTime''))) (\<lambda>time.
         Inr \<lparr>page_token = (if token_text = [] then None else Some token_text), cp_update_time = Some time\<rparr>))))))"

definition advance_checkpoint ::
  "'w store_env \<Rightarrow> string \<Rightarrow> string \<Rightarrow> scan_checkpoint \<Rightarrow> string option \<Rightarrow> ('w, scan_checkpoint) compute" where
  "advance_checkpoint env token scope cp next_page =
     h_bind (h_lift (checkpoint_url env scope)) (\<lambda>url.
     h_bind (ask (\<lambda>w. patch_checkpoint env w token url
         (case cp_update_time cp of Some time \<Rightarrow> UpdateTimeIs time | None \<Rightarrow> MustNotExist)
         (JObject [(''fields'', JObject [(''page_token'', JObject [(''stringValue'',
            JString (case next_page of Some t \<Rightarrow> t | None \<Rightarrow> []))])])]))) (\<lambda>reply.
     h_lift (and_then (reply_json reply) (\<lambda>value.
       and_then (ok_or invalid_document (non_empty (json_str_at value ''updateTime''))) (\<lambda>time.
       Inr \<lparr>page_token = next_page, cp_update_time = Some time\<rparr>)))))"

section \<open>Decoding undoes encoding\<close>

text \<open>What every decoded document satisfies, and every document that is written.\<close>

definition stored_wf :: "stored_policy \<Rightarrow> bool" where
  "stored_wf s \<longleftrightarrow>
     (case st_policy s of None \<Rightarrow> retired s
      | Some p \<Rightarrow> pol_deployment p = st_deployment s \<and> version p \<noteq> 0 \<and> (retired s \<longrightarrow> deleted p))
     \<and> (\<forall>n. absent_since s = Some n \<longrightarrow> retired s \<and> n < 2 ^ 64)"

definition codec_faithful :: "policy_codec \<Rightarrow> bool" where
  "codec_faithful cd \<longleftrightarrow>
     (\<forall>p t. policy_to_json cd p = Some t \<longrightarrow> policy_from_json cd t = Some p)
     \<and> (\<forall>d t. identity_to_json cd d = Some t \<longrightarrow> identity_from_json cd t = Some d)"

text \<open>What Firestore documents of the resource it answers with.\<close>

definition document_holds :: "json \<Rightarrow> json \<Rightarrow> string \<Rightarrow> bool" where
  "document_holds v payload time \<longleftrightarrow>
     json_get v ''fields'' = Some payload \<and> json_get v ''updateTime'' = Some (JString time) \<and> time \<noteq> []"

lemma decode_absent_bound: "decode_absent v = Inr (Some n) \<Longrightarrow> n < 2 ^ 64"
  by (auto simp: decode_absent_def parse_u64_def Let_def res_simps arith_checked bind_eq_Some_conv split: option.splits if_splits)

lemma decode_Inr:
  assumes "decode cd v = Inr s"
  shows "decode_absent v = Inr (absent_since s)"
    and "case st_policy s of Some p \<Rightarrow> pol_deployment p = st_deployment s \<and> version p \<noteq> 0 | None \<Rightarrow> True"
    and "retired s \<longrightarrow> (case st_policy s of Some p \<Rightarrow> deleted p | None \<Rightarrow> True)"
    and "\<not> retired s \<longrightarrow> st_policy s \<noteq> None \<and> absent_since s = None"
  using assms unfolding decode_def
  by (auto simp only: res_simps if_Inl_eq_Inr, auto split: option.splits)

lemma decode_wf: "decode cd v = Inr s \<Longrightarrow> stored_wf s"
  using decode_Inr [of cd v s] decode_absent_bound [of v] unfolding stored_wf_def
  by (cases "st_policy s"; cases "absent_since s"; cases "retired s") auto

lemma decode_encode:
  assumes "codec_faithful cd" and "stored_wf s" and "encode_fields cd s = Inr payload" and "document_holds v payload time"
  shows "decode cd v = Inr (s\<lparr>update_time := time\<rparr>)"
proof -
  obtain identity member where identity: "identity_to_json cd (st_deployment s) = Some identity"
      and member: "(case st_policy s of None \<Rightarrow> Inr [] | Some p \<Rightarrow> and_then (ok_or SerializationFailed (policy_to_json cd p)) (\<lambda>text.
           Inr [(''policy'', JObject [(''stringValue'', JString text)])])) = Inr member"
      and payload: "payload = JObject ((case absent_since s of None \<Rightarrow> []
         | Some n \<Rightarrow> [(''absent_since'', JObject [(''integerValue'', JString (show_nat n))])])
         @ [(''identity'', JObject [(''stringValue'', JString identity)])] @ member
         @ [(''retired'', JObject [(''booleanValue'', JBool (retired s))])])"
    using assms(3) by (auto simp: encode_fields_def res_simps)
  have at: "json_get v ''fields'' = Some payload"
    using assms(4) by (simp add: document_holds_def)
  have policy: "decode_policy cd v = Inr (st_policy s)"
    using member assms(1)
    by (auto simp: decode_policy_def at payload json_value_simps json_str_at_def codec_faithful_def res_simps split: option.splits)
  have id: "decode_identity cd v policy = Inr (st_deployment s)" for policy
    using member identity assms(1)
    by (auto simp: decode_identity_def at payload json_value_simps codec_faithful_def res_simps split: option.splits)
  have rest: "decode_retired v = Inr (retired s)"
    using member by (auto simp: decode_retired_def at payload json_value_simps res_simps split: option.splits)
  have absent: "decode_absent v = Inr (absent_since s)"
    using member assms(2)
    by (auto simp: decode_absent_def at payload json_value_simps json_str_at_def res_simps stored_wf_def parse_u64_show
        split: option.splits)
  have time: "non_empty (json_str_at v ''updateTime'') = Some time"
    using assms(4) by (simp add: document_holds_def non_empty_def json_str_at_def json_value_simps)
  show ?thesis
    using assms(2) by (auto simp: decode_def policy id rest absent time stored_wf_def split: option.splits)
qed

section \<open>What an operation may send\<close>

text \<open>
  One document may follow another: the deployment stays, retirement stays, and the policy is the same or
  has a larger version.
\<close>

definition follows :: "stored_policy \<Rightarrow> stored_policy \<Rightarrow> bool" where
  "follows old next \<longleftrightarrow> st_deployment next = st_deployment old \<and> (retired old \<longrightarrow> retired next)
     \<and> (st_policy next = st_policy old
        \<or> (\<not> retired old \<and> (\<exists>p p'. st_policy old = Some p \<and> st_policy next = Some p' \<and> version p < version p')))"

definition starts :: "stored_policy \<Rightarrow> bool" where
  "starts next \<longleftrightarrow> (case st_policy next of None \<Rightarrow> retired next | Some p \<Rightarrow> version p = 1 \<and> \<not> deleted p \<and> \<not> retired next)"

definition has_read :: "'w store_env \<Rightarrow> store_event list \<Rightarrow> string \<Rightarrow> stored_policy \<Rightarrow> bool" where
  "has_read env tr url s \<longleftrightarrow> (\<exists>v. GotDocument url v \<in> set tr \<and> decode (codec_of env) v = Inr s)"

abbreviation policy_url :: "'w store_env \<Rightarrow> deployment_identity \<Rightarrow> string" where
  "policy_url env d \<equiv> document_url (codec_of env) (documents_url env) d"

fun event_justified :: "'w store_env \<Rightarrow> store_event list \<Rightarrow> store_event \<Rightarrow> bool" where
  "event_justified env tr (GotDocument url v) = True"
| "event_justified env tr (PatchDocument url pre payload) =
     (\<exists>next. stored_wf next \<and> url = policy_url env (st_deployment next) \<and> encode_fields (codec_of env) next = Inr payload
        \<and> (case pre of MustNotExist \<Rightarrow> starts next
           | UpdateTimeIs time \<Rightarrow> \<exists>old. has_read env tr url old \<and> update_time old = time \<and> follows old next))"
| "event_justified env tr (DeleteDocument url time) =
     (\<exists>old. has_read env tr url old \<and> update_time old = time \<and> retired old \<and> absent_since old \<noteq> None)"

fun justified :: "'w store_env \<Rightarrow> store_event list \<Rightarrow> store_event list \<Rightarrow> bool" where
  "justified env before [] = True"
| "justified env before (e # tr) = (event_justified env before e \<and> justified env (before @ [e]) tr)"

lemma justified_append:
  "justified env before (xs @ ys) \<longleftrightarrow> justified env before xs \<and> justified env (before @ xs) ys"
  by (induction xs arbitrary: before) simp_all

lemma justified_take: "justified env before tr \<Longrightarrow> justified env before (take n tr)"
  using justified_append [of env before "take n tr" "drop n tr"] by simp

lemma has_read_mono: "has_read env tr url s \<Longrightarrow> set tr \<subseteq> set tr' \<Longrightarrow> has_read env tr' url s"
  unfolding has_read_def by blast

text \<open>
  A handler keeps its log justified, given what it has read before. An unlogged one logs nothing.
\<close>

definition keeps_justified ::
  "'w store_env \<Rightarrow> (store_event list \<Rightarrow> bool) \<Rightarrow> ('w, 'a) compute \<Rightarrow> bool" where
  "keeps_justified env A m \<longleftrightarrow>
     h_triple (\<lambda>st. justified env [] (cs_log st) \<and> A (cs_log st)) m (\<lambda>_ st. justified env [] (cs_log st))
       (\<lambda>st. justified env [] (cs_log st))"

abbreviation keeps :: "'w store_env \<Rightarrow> ('w, 'a) compute \<Rightarrow> bool" where
  "keeps env m \<equiv> keeps_justified env (\<lambda>_. True) m"

definition unlogged :: "('w, 'a) compute \<Rightarrow> bool" where
  "unlogged m \<longleftrightarrow> (\<forall>A. h_triple (\<lambda>st. A (cs_log st)) m (\<lambda>_ st. A (cs_log st)) (\<lambda>st. A (cs_log st)))"

lemma unlogged_steps: "unlogged (ask f)" "unlogged (h_lift r)"
  by (simp_all add: unlogged_def h_triple_def ask_def h_lift_def split: prod.split sum.split)

lemma unlogged_bind: "unlogged m \<Longrightarrow> (\<And>a. unlogged (f a)) \<Longrightarrow> unlogged (h_bind m f)"
  unfolding unlogged_def by (blast intro: h_triple_bind)

lemma unlogged_post:
  assumes "unlogged m" and "\<And>tr. A tr \<Longrightarrow> E tr"
  shows "h_triple (\<lambda>st. A (cs_log st)) m (\<lambda>_ st. A (cs_log st)) (\<lambda>st. E (cs_log st))"
  using assms(1) unfolding unlogged_def by (blast intro: h_triple_weaken assms(2))

lemma keeps_after_silent:
  assumes "unlogged m" and "\<And>a. keeps_justified env A (f a)"
  shows "keeps_justified env A (h_bind m f)"
  unfolding keeps_justified_def
  by (rule h_triple_bind [OF unlogged_post [OF assms(1), of "\<lambda>tr. justified env [] tr \<and> A tr"]])
    (use assms(2) in \<open>auto simp: keeps_justified_def\<close>)

lemma keeps_lift: "keeps_justified env A (h_lift r)"
  unfolding keeps_justified_def by (rule h_triple_lift) auto

lemma keeps_after_lift:
  assumes "\<And>a. r = Inr a \<Longrightarrow> keeps_justified env A (f a)"
  shows "keeps_justified env A (h_bind (h_lift r) f)"
proof (cases r)
  case (Inl e)
  then show ?thesis
    by (simp add: keeps_justified_def h_triple_def h_bind_def h_lift_def)
next
  case (Inr a)
  then have "h_bind (h_lift r) f = f a"
    by (simp add: fun_eq_iff h_bind_def h_lift_def)
  then show ?thesis
    using assms [OF Inr] by simp
qed

lemma keeps_bind:
  assumes "keeps_justified env A m" and "\<And>a. keeps env (f a)"
  shows "keeps_justified env A (h_bind m f)"
  unfolding keeps_justified_def
  by (rule h_triple_bind [OF assms(1) [unfolded keeps_justified_def]])
    (use assms(2) in \<open>simp add: keeps_justified_def\<close>)

lemma keeps_weaken: "keeps env m \<Longrightarrow> keeps_justified env A m"
  unfolding keeps_justified_def by (erule h_triple_weaken) auto

lemma keeps_after_log:
  assumes "\<And>tr. A tr \<Longrightarrow> event_justified env tr e" and "keeps_justified env B (f ())"
    and "\<And>tr. A tr \<Longrightarrow> B (tr @ [e])"
  shows "keeps_justified env A (h_bind (log_event e) f)"
  unfolding keeps_justified_def
proof (rule h_triple_bind)
  show "h_triple (\<lambda>st. justified env [] (cs_log st) \<and> A (cs_log st)) (log_event e)
      (\<lambda>u st. justified env [] (cs_log st) \<and> B (cs_log st)) (\<lambda>st. justified env [] (cs_log st))"
    using assms(1,3) by (simp add: h_triple_def log_event_def justified_append)
qed (use assms(2) in \<open>simp add: keeps_justified_def\<close>)

lemma keeps_load:
  assumes "keeps env (f None)"
    and "\<And>s. st_deployment s = d \<Longrightarrow> stored_wf s \<Longrightarrow> keeps_justified env (\<lambda>tr. has_read env tr (policy_url env d) s) (f (Some s))"
  shows "keeps env (h_bind (load env token d) f)"
proof -
  let ?J = "\<lambda>st. justified env [] (cs_log st)"
  have "h_triple (\<lambda>st. ?J st \<and> True) (load env token d) (\<lambda>r st. ?J st \<and> (case r of None \<Rightarrow> True
      | Some s \<Rightarrow> st_deployment s = d \<and> stored_wf s \<and> has_read env (cs_log st) (policy_url env d) s)) ?J"
  proof (rule h_tripleI)
    fix st st' r
    assume st: "?J st \<and> True" and run: "load env token d st = (st', r)"
    show "case r of Inr a \<Rightarrow> ?J st' \<and> (case a of None \<Rightarrow> True
      | Some s \<Rightarrow> st_deployment s = d \<and> stored_wf s \<and> has_read env (cs_log st') (policy_url env d) s) | Inl _ \<Rightarrow> ?J st'"
      using run st
      by (auto simp: load_def Let_def h_bind_def ask_def h_lift_def log_event_def justified_append has_read_def
          intro: decode_wf split: prod.splits sum.splits if_splits)
  qed
  then show ?thesis
    unfolding keeps_justified_def
  proof (rule h_triple_bind)
    fix a
    show "h_triple (\<lambda>st. ?J st \<and> (case a of None \<Rightarrow> True
      | Some s \<Rightarrow> st_deployment s = d \<and> stored_wf s \<and> has_read env (cs_log st) (policy_url env d) s)) (f a) (\<lambda>_. ?J) ?J"
    proof (cases a)
      case None
      then show ?thesis
        using assms(1) by (simp add: keeps_justified_def)
    next
      case (Some s)
      then show ?thesis
        using assms(2) [of s] by (cases "st_deployment s = d \<and> stored_wf s") (auto simp: keeps_justified_def h_triple_def)
    qed
  qed
qed

lemma keeps_write:
  assumes "stored_wf next"
    and "case previous of None \<Rightarrow> starts next
      | Some old \<Rightarrow> follows old next \<and> (\<forall>tr. A tr \<longrightarrow> has_read env tr (policy_url env (st_deployment next)) old)"
  shows "keeps_justified env A (write_policy env token previous next)"
proof -
  have "keeps_justified env A (h_bind (log_event (PatchDocument (policy_url env (st_deployment next))
      (case previous of Some old \<Rightarrow> UpdateTimeIs (update_time old) | None \<Rightarrow> MustNotExist) payload)) (\<lambda>_. m))"
    if "encode_fields (codec_of env) next = Inr payload" and "keeps env m" for payload and m :: "('a, unit) compute"
    by (rule keeps_after_log [of A env _ "\<lambda>_. True"])
      (use assms that in \<open>auto split: option.splits\<close>)
  moreover have "keeps env (h_bind (ask f) (\<lambda>reply. h_bind (h_lift (check reply)) (\<lambda>_. h_lift (Inr ()))))"
    for f :: "'a \<Rightarrow> http_reply \<times> 'a"
    by (intro keeps_after_silent unlogged_steps keeps_after_lift keeps_lift)
  ultimately show ?thesis
    unfolding write_policy_def Let_def
    by (cases "write_allowed previous next") (auto intro!: keeps_lift keeps_after_lift [where r = "encode_fields (codec_of env) next"])
qed

lemma keeps_purge:
  assumes "\<And>tr. A tr \<Longrightarrow> has_read env tr (policy_url env (st_deployment stored)) stored"
  shows "keeps_justified env A (purge env token stored)"
proof -
  have "keeps_justified env A (h_bind (log_event (DeleteDocument (policy_url env (st_deployment stored)) (update_time stored))) (\<lambda>_. m))"
    if "keeps env m" and "retired stored" and "absent_since stored \<noteq> None" for m :: "('a, unit) compute"
    by (rule keeps_after_log [of A env _ "\<lambda>_. True"]) (use assms that in auto)
  moreover have "keeps env (h_bind (ask f) (\<lambda>reply. if map_option fst reply = Some 404 then h_lift (Inr ())
      else h_bind (h_lift (check reply)) (\<lambda>_. h_lift (Inr ()))))" for f :: "'a \<Rightarrow> http_reply \<times> 'a"
    by (rule keeps_after_silent [OF unlogged_steps(1)]) (auto intro!: keeps_after_lift keeps_lift)
  ultimately show ?thesis
    unfolding purge_def Let_def by (auto intro!: keeps_lift)
qed

lemma unlogged_store:
  "unlogged (page env token pt)" "unlogged (checkpoint env token scope)" "unlogged (advance_checkpoint env token scope cp np)"
  unfolding page_def checkpoint_def advance_checkpoint_def by (auto intro!: unlogged_bind unlogged_steps)

lemmas keeps_rules = keeps_lift keeps_after_lift keeps_after_silent unlogged_bind unlogged_steps unlogged_store

end
