(* ===== verification/Compute_Service.thy ===== *)
theory Compute_Service
  imports Compute_Store "HOL-Library.List_Lexorder" "HOL-Library.Char_ord"
begin

text \<open>
  The writers of selling policies: the owner's operations
  (\<^verbatim>\<open>src/rust/crates/mcp-compute/src/payment_service.rs\<close>) and the retirement, deletion and reconciliation of the
  driver (\<^verbatim>\<open>src/rust/crates/mcp-compute/src/google.rs\<close>).

  Provider calls, tokens, clocks, the wallet service and date parsing are parameters. The lemmas show
  that everything these operations send to the store is justified by a document they read before.
\<close>

section \<open>Names and leases\<close>

definition GATEWAY_PREFIX :: string where
  "GATEWAY_PREFIX = ''gcf-''"

definition is_ascii_hexdigit :: "char \<Rightarrow> bool" where
  "is_ascii_hexdigit ch \<longleftrightarrow> is_ascii_digit ch \<or> ch \<in> set ''abcdefABCDEF''"

definition is_ascii_alphanumeric :: "char \<Rightarrow> bool" where
  "is_ascii_alphanumeric ch \<longleftrightarrow> is_ascii_digit ch \<or> is_ascii_lowercase ch
     \<or> (65 \<le> (of_char ch :: nat) \<and> (of_char ch :: nat) \<le> 90)"

definition ascii_lower :: "char \<Rightarrow> char" where
  "ascii_lower ch = (if 65 \<le> (of_char ch :: nat) \<and> (of_char ch :: nat) \<le> 90 then char_of (of_char ch + 32 :: nat) else ch)"

text \<open>\<open>rsplit('/').next()\<close>.\<close>

definition last_segment :: "string \<Rightarrow> string" where
  "last_segment s = rev (takeWhile (\<lambda>ch. ch \<noteq> CHR ''/'') (rev s))"

definition validate_gateway_function_name :: "string \<Rightarrow> compute_error + unit" where
  "validate_gateway_function_name name =
     ensure (prefix GATEWAY_PREFIX name \<and> length name \<le> 63
         \<and> list_all (\<lambda>ch. is_ascii_lowercase ch \<or> is_ascii_digit ch \<or> ch = CHR ''-'') name)
       (InvalidRequest ''invalid Google compute gateway deployment ID'')"

definition tenant_label_from_resource :: "string \<Rightarrow> compute_error + string" where
  "tenant_label_from_resource resource =
     (let name = last_segment resource in
      and_then (validate_gateway_function_name name) (\<lambda>_.
      let suffix = drop (length GATEWAY_PREFIX) name in
      if CHR ''-'' \<in> set suffix then Inr (takeWhile (\<lambda>ch. ch \<noteq> CHR ''-'') suffix)
      else Inl (InvalidRequest ''deployment name omitted tenant namespace'')))"

record tenant =
  tenant_key :: string
  channel_id :: string

definition channel_lease_key :: "policy_codec \<Rightarrow> string \<Rightarrow> compute_error + string" where
  "channel_lease_key cd channel =
     (if channel = [] then Inl (InvalidRequest ''resource deployment requires a verified payment channel'')
      else Inr (take 32 (sha256_hex cd channel)))"

definition label_of :: "json \<Rightarrow> string \<Rightarrow> string option" where
  "label_of value name = Option.bind (json_pointer value [''labels'', name]) json_as_str"

definition require_deployment_lease :: "policy_codec \<Rightarrow> tenant \<Rightarrow> json \<Rightarrow> compute_error + unit" where
  "require_deployment_lease cd t value =
     (if label_of value ''pay-tenant'' \<noteq> Some (tenant_key t)
      then Inl (ProviderFailed ''deployment was not found for this payer'')
      else
        case channel_lease_key cd (channel_id t) of
          Inr expected \<Rightarrow>
            if label_of value ''pay-channel'' = Some expected then Inr ()
            else Inl (ProviderFailed ''deployment was not found for this payment channel'')
        | Inl _ \<Rightarrow> Inl (ProviderFailed ''deployment was not found for this payment channel''))"

definition validate_segment :: "string \<Rightarrow> string \<Rightarrow> compute_error + unit" where
  "validate_segment label segment =
     ensure (segment \<noteq> [] \<and> length segment \<le> 63 \<and> list_all (\<lambda>ch. is_ascii_alphanumeric ch \<or> ch = CHR ''-'') segment)
       (InvalidRequest (''invalid '' @ label @ '' `'' @ segment @ ''`''))"

definition validate_function_name :: "string \<Rightarrow> compute_error + unit" where
  "validate_function_name name =
     ensure (4 \<le> length name \<and> length name \<le> 42 \<and> is_ascii_lowercase (hd name) \<and> is_ascii_alphanumeric (last name)
         \<and> list_all (\<lambda>ch. is_ascii_lowercase ch \<or> is_ascii_digit ch \<or> ch = CHR ''-'') name)
       (InvalidRequest ''function name must be 4-42 lowercase letters, digits, or hyphens; start with a letter and end with a letter or digit (the remaining Google name length is reserved for tenant isolation)'')"

definition physical_function_name :: "tenant \<Rightarrow> string \<Rightarrow> compute_error + string" where
  "physical_function_name t logical_name =
     and_then (validate_function_name logical_name) (\<lambda>_.
     if length (tenant_key t) \<noteq> 16 \<or> \<not> list_all is_ascii_hexdigit (tenant_key t)
     then Inl (Configuration ''tenant key must be 16 hexadecimal characters'')
     else Inr (GATEWAY_PREFIX @ map ascii_lower (tenant_key t) @ ''-'' @ logical_name))"

definition validate_owned_function_name :: "tenant \<Rightarrow> string \<Rightarrow> compute_error + unit" where
  "validate_owned_function_name t name =
     and_then (validate_gateway_function_name name) (\<lambda>_.
     ensure (prefix (GATEWAY_PREFIX @ tenant_key t @ ''-'') name) (InvalidRequest ''deployment belongs to a different payer''))"

section \<open>The driver\<close>

record google_config =
  project :: string
  default_region :: string
  api_base :: string
  gateway_domain :: string
  has_policies :: bool

datatype http_method = GET | DELETE

record 'w service_env =
  se_store :: "'w store_env"
  se_config :: google_config
  access_token :: "'w \<Rightarrow> (compute_error + string) \<times> 'w"
  identity_token :: "'w \<Rightarrow> (compute_error + string option) \<times> 'w"
  send_json :: "'w \<Rightarrow> http_method \<Rightarrow> string \<Rightarrow> (compute_error + nat \<times> json) \<times> 'w"
  post_wallets :: "'w \<Rightarrow> string \<Rightarrow> deployment_identity \<Rightarrow> wallet_reference list \<Rightarrow> http_reply \<times> 'w"
  wallets_from_json :: "json \<Rightarrow> owned_wallet list option"
  paths_from_json :: "string \<Rightarrow> string list option"
  bs58_address :: "string \<Rightarrow> bytes option"
  rfc3339 :: "string \<Rightarrow> int option"
  utc_now :: "'w \<Rightarrow> int \<times> 'w"
  unix_now :: "'w \<Rightarrow> 64 word option \<times> 'w"
  runs_over :: "'w \<Rightarrow> bool \<times> 'w"
  cut_after :: "'w \<Rightarrow> nat option \<times> 'w"
  status_text :: "nat \<Rightarrow> string"

definition ask_try :: "('w \<Rightarrow> (compute_error + 'a) \<times> 'w) \<Rightarrow> ('w, 'a) compute" where
  "ask_try f = h_bind (ask f) h_lift"

definition clock :: "'w service_env \<Rightarrow> ('w, nat) compute" where
  "clock env = h_bind (ask (unix_now env))
     (\<lambda>now. h_lift (ok_or (Configuration ''system clock precedes Unix epoch'') (map_option unat now)))"

definition json_provider_error :: "'w service_env \<Rightarrow> nat \<Rightarrow> json \<Rightarrow> compute_error" where
  "json_provider_error env status value =
     ProviderFailed (''Google API returned '' @ status_text env status @ '': ''
       @ (case Option.bind (json_get value ''error'') (\<lambda>v. json_str_at v ''message'') of
            Some message \<Rightarrow> message | None \<Rightarrow> ''unknown provider error''))"

definition function_path :: "google_config \<Rightarrow> string \<Rightarrow> string" where
  "function_path cfg name = ''projects/'' @ project cfg @ ''/locations/'' @ default_region cfg @ ''/functions/'' @ name"

definition parse_creation_time :: "'w service_env \<Rightarrow> string \<Rightarrow> compute_error + int" where
  "parse_creation_time env text = ok_or (Configuration ''invalid deployment creation identity'') (rfc3339 env text)"

definition is_lower_hex :: "char \<Rightarrow> bool" where
  "is_lower_hex ch \<longleftrightarrow> is_ascii_digit ch \<or> ch \<in> set ''abcdef''"

definition validate_policy_identity :: "'w service_env \<Rightarrow> deployment_identity \<Rightarrow> ('w, unit) compute" where
  "validate_policy_identity env identity =
     (let name = last_segment (resource_name identity); expected = function_path (se_config env) name;
          outside = Configuration ''payment policy identity is outside this driver'' in
      h_bind (h_lift (and_then (validate_gateway_function_name name) (\<lambda>_.
        if resource_name identity \<noteq> expected \<or> length (owner_key identity) \<noteq> 16
           \<or> \<not> list_all is_lower_hex (owner_key identity)
        then Inl outside
        else
          and_then (tenant_label_from_resource expected) (\<lambda>label.
          if label \<noteq> owner_key identity \<or> hostname identity \<noteq> name @ ''.'' @ gateway_domain (se_config env)
          then Inl outside
          else parse_creation_time env (created_at identity))))) (\<lambda>created.
      h_bind (ask (utc_now env)) (\<lambda>now.
      h_lift (ensure (created \<le> now) (Configuration ''payment policy incarnation is in the future'')))))"

definition policy_identity :: "'w service_env \<Rightarrow> string \<Rightarrow> json \<Rightarrow> ('w, deployment_identity) compute" where
  "policy_identity env resource value =
     h_bind (h_lift (and_then (tenant_label_from_resource resource) (\<lambda>owner.
       if json_str_at value ''name'' \<noteq> Some resource \<or> label_of value ''pay-tenant'' \<noteq> Some owner
          \<or> label_of value ''managed-by'' \<noteq> Some ''mcp-compute''
       then Inl (ProviderFailed ''deployment ownership metadata is invalid'')
       else
         and_then (ok_or (ProviderFailed ''deployment creation identity is missing'') (json_str_at value ''createTime'')) (\<lambda>created.
         Inr \<lparr>owner_key = owner, resource_name = resource, created_at = created,
              hostname = last_segment resource @ ''.'' @ gateway_domain (se_config env)\<rparr>)))) (\<lambda>identity.
     h_bind (validate_policy_identity env identity) (\<lambda>_. h_lift (Inr identity)))"

definition policy_incarnation_absent :: "'w service_env \<Rightarrow> deployment_identity \<Rightarrow> ('w, bool) compute" where
  "policy_incarnation_absent env identity =
     h_bind (validate_policy_identity env identity) (\<lambda>_.
     h_bind (ask (runs_over env)) (\<lambda>late.
     if late then h_lift (Inl (ProviderFailed ''provider verification timed out''))
     else
       h_bind (ask_try (\<lambda>w. send_json env w GET (api_base (se_config env) @ ''/v2/'' @ resource_name identity))) (\<lambda>(status, value).
       if status = 404 then h_lift (Inr True)
       else if \<not> is_success status then h_lift (Inl (json_provider_error env status value))
       else
         h_bind (policy_identity env (resource_name identity) value) (\<lambda>current.
         h_lift (and_then (parse_creation_time env (created_at current)) (\<lambda>current_time.
           and_then (parse_creation_time env (created_at identity)) (\<lambda>stored_time.
           if current_time < stored_time then Inl (ProviderFailed ''provider incarnation predates stored policy'')
           else Inr (stored_time < current_time))))))))"

definition retire_policy :: "'w service_env \<Rightarrow> deployment_identity \<Rightarrow> ('w, unit) compute" where
  "retire_policy env identity =
     (if \<not> has_policies (se_config env) then h_lift (Inr ())
      else
        h_bind (validate_policy_identity env identity) (\<lambda>_.
        h_bind (ask_try (access_token env)) (\<lambda>token.
        h_bind (load (se_store env) token identity) (\<lambda>stored.
        if (case stored of Some s \<Rightarrow> retired s | None \<Rightarrow> False) then h_lift (Inr ())
        else
          h_bind (h_lift (case stored of
              Some s \<Rightarrow> stored_retire s
            | None \<Rightarrow> Inr \<lparr>st_deployment = identity, st_policy = None, retired = True, absent_since = None,
                          update_time = []\<rparr>)) (\<lambda>next.
          write_policy (se_store env) token stored next)))))"

definition retention_expired :: "stored_policy \<Rightarrow> nat \<Rightarrow> bool" where
  "retention_expired stored now \<longleftrightarrow> retired stored
     \<and> (case absent_since stored of None \<Rightarrow> False
        | Some since \<Rightarrow> (case checked_sub now since of None \<Rightarrow> False | Some elapsed \<Rightarrow> RETENTION_SECONDS \<le> elapsed))"

definition reconcile_policy :: "'w service_env \<Rightarrow> stored_policy \<Rightarrow> bool \<Rightarrow> nat \<Rightarrow> ('w, bool) compute" where
  "reconcile_policy env stored dry_run now =
     (if \<not> has_policies (se_config env) then h_lift (Inl (Configuration ''payment policy repository is not configured''))
      else
        h_bind (policy_incarnation_absent env (st_deployment stored)) (\<lambda>absent.
        if \<not> absent then h_lift (Inr False)
        else
          let expired = retention_expired stored now in
          if retired stored \<and> absent_since stored \<noteq> None \<and> \<not> expired then h_lift (Inr False)
          else if dry_run then h_lift (Inr True)
          else
            h_bind (ask_try (access_token env)) (\<lambda>token.
            if expired then
              h_bind (policy_incarnation_absent env (st_deployment stored)) (\<lambda>still_absent.
              if \<not> still_absent then h_lift (Inr False)
              else h_bind (purge (se_store env) token stored) (\<lambda>_. h_lift (Inr True)))
            else
              h_bind (h_lift (stored_retire stored)) (\<lambda>next.
              h_bind (write_policy (se_store env) token (Some stored) (next\<lparr>absent_since := Some now\<rparr>)) (\<lambda>_.
              h_lift (Inr True))))))"

section \<open>Deleting a deployment\<close>

datatype operation_state = OpPending | OpSucceeded | OpFailed

record compute_operation =
  op_id :: string
  op_state :: operation_state
  op_target :: "string option"
  op_error :: "string option"
  op_metadata :: json

definition deleted_operation :: "string \<Rightarrow> compute_operation" where
  "deleted_operation resource = \<lparr>op_id = resource, op_state = OpSucceeded, op_target = Some resource, op_error = None,
     op_metadata = JObject [(''alreadyAbsent'', JBool True)]\<rparr>"

definition normalize_operation :: "json \<Rightarrow> compute_error + compute_operation" where
  "normalize_operation value =
     and_then (ok_or (ProviderFailed ''operation response omitted name'') (json_str_at value ''name'')) (\<lambda>op_name.
     let is_done = (case Option.bind (json_get value ''done'') json_as_bool of Some b \<Rightarrow> b | None \<Rightarrow> False);
         failure = Option.bind (json_get value ''error'') (\<lambda>v. json_str_at v ''message'') in
     Inr \<lparr>op_id = op_name,
          op_state = (if failure \<noteq> None then OpFailed else if is_done then OpSucceeded else OpPending),
          op_target = (case Option.bind (json_get value ''response'') (\<lambda>v. json_str_at v ''name'') of
              Some t \<Rightarrow> Some t
            | None \<Rightarrow> Option.bind (json_get value ''metadata'') (\<lambda>v. json_str_at v ''target'')),
          op_error = failure,
          op_metadata = (case json_get value ''metadata'' of Some v \<Rightarrow> v | None \<Rightarrow> JNull)\<rparr>)"

definition function_resource_name ::
  "google_config \<Rightarrow> tenant \<Rightarrow> string \<Rightarrow> string option \<Rightarrow> compute_error + string" where
  "function_resource_name cfg t function_id region =
     (if prefix ''projects/'' function_id then
        let parts = split_on (CHR ''/'') function_id in
        if length parts \<noteq> 6 \<or> parts ! 0 \<noteq> ''projects'' \<or> parts ! 2 \<noteq> ''locations'' \<or> parts ! 4 \<noteq> ''functions''
        then Inl (InvalidRequest ''invalid Google function resource name'')
        else if parts ! 1 \<noteq> project cfg then Inl (InvalidRequest ''function belongs to a different Google project'')
        else
          and_then (validate_segment ''region'' (parts ! 3)) (\<lambda>_.
          and_then (validate_owned_function_name t (parts ! 5)) (\<lambda>_. Inr function_id))
      else
        and_then (validate_function_name function_id) (\<lambda>_.
        and_then (physical_function_name t function_id) (\<lambda>physical_name.
        let chosen = (case region of Some r \<Rightarrow> r | None \<Rightarrow> default_region cfg) in
        and_then (validate_segment ''region'' chosen) (\<lambda>_.
        Inr (''projects/'' @ project cfg @ ''/locations/'' @ chosen @ ''/functions/'' @ physical_name)))))"

text \<open>A best-effort step: its failure is only logged.\<close>

definition h_attempt :: "('w, 'a) compute \<Rightarrow> ('w, unit) compute" where
  "h_attempt m st = (case m st of (st', _) \<Rightarrow> (st', Inr ()))"

definition policy_cleanup :: "'w service_env \<Rightarrow> deployment_identity \<Rightarrow> ('w, bool) compute" where
  "policy_cleanup env identity =
     h_bind (ask_try (access_token env)) (\<lambda>token.
     h_bind (load (se_store env) token identity) (\<lambda>found.
     case found of
       None \<Rightarrow> h_lift (Inr False)
     | Some stored \<Rightarrow> h_bind (clock env) (\<lambda>now. reconcile_policy env stored False now)))"

definition delete_resource ::
  "'w service_env \<Rightarrow> tenant \<Rightarrow> string \<Rightarrow> string option \<Rightarrow> (string \<times> string) option \<Rightarrow> ('w, compute_operation) compute" where
  "delete_resource env t function_id region expected_cleanup =
     (let cfg = se_config env in
      h_bind (h_lift (function_resource_name cfg t function_id region)) (\<lambda>resource.
      let url = api_base cfg @ ''/v2/'' @ resource in
      h_bind (ask_try (\<lambda>w. send_json env w GET url)) (\<lambda>(status, existing).
      if status = 404 then h_lift (Inr (deleted_operation resource))
      else if \<not> is_success status then h_lift (Inl (json_provider_error env status existing))
      else
        h_bind (h_lift (require_deployment_lease (codec_of (se_store env)) t existing)) (\<lambda>_.
        if (case expected_cleanup of None \<Rightarrow> False
            | Some (lease, created) \<Rightarrow> label_of existing ''pay-channel'' \<noteq> Some lease
                \<or> json_str_at existing ''createTime'' \<noteq> Some created
                \<or> label_of existing ''managed-by'' \<noteq> Some ''mcp-compute''
                \<or> json_str_at existing ''name'' \<noteq> Some resource)
        then h_lift (Inl (ProviderFailed ''deployment incarnation or channel lease changed during cleanup''))
        else
          h_bind (if has_policies cfg \<and> prefix (function_path cfg []) resource
            then h_bind (policy_identity env resource existing) (\<lambda>identity.
                 h_bind (retire_policy env identity) (\<lambda>_. h_lift (Inr (Some identity))))
            else h_lift (Inr None)) (\<lambda>identity.
          h_bind (ask_try (\<lambda>w. send_json env w DELETE url)) (\<lambda>(status, value).
          h_bind (h_lift (if status = 404 then Inr (deleted_operation resource)
              else if is_success status then normalize_operation value
              else Inl (json_provider_error env status value))) (\<lambda>operation.
          h_bind (case identity of None \<Rightarrow> h_lift (Inr ()) | Some d \<Rightarrow> h_attempt (policy_cleanup env d)) (\<lambda>_.
          h_lift (Inr operation)))))))))"

section \<open>Reconciliation\<close>

text \<open>
  The scan of one listed document under its time limit. A document is read under its name; when the limit
  cuts the scan, what it had sent by then stays sent.
\<close>

definition scan_document :: "'w service_env \<Rightarrow> bool \<Rightarrow> json \<Rightarrow> ('w, bool) compute" where
  "scan_document env dry_run document =
     (let store = se_store env in
      h_bind (h_lift (decode (codec_of store) document)) (\<lambda>stored.
      h_bind (h_lift (validate_name store document stored)) (\<lambda>_.
      h_bind (log_event (GotDocument (policy_url store (st_deployment stored)) document)) (\<lambda>_.
      h_bind (validate_policy_identity env (st_deployment stored)) (\<lambda>_.
      h_bind (clock env) (\<lambda>now.
      reconcile_policy env stored dry_run now))))))"

definition h_timed :: "'w service_env \<Rightarrow> ('w, 'a) compute \<Rightarrow> ('w, (compute_error + 'a) option) compute" where
  "h_timed env m st =
     (case cut_after env (cs_world st) of (limit, w) \<Rightarrow>
      case m (st\<lparr>cs_world := w\<rparr>) of (st', r) \<Rightarrow>
      case limit of
        None \<Rightarrow> (st', Inr (Some r))
      | Some n \<Rightarrow> (st'\<lparr>cs_log := cs_log st @ take n (drop (length (cs_log st)) (cs_log st'))\<rparr>, Inr None))"

fun scan_documents ::
  "'w service_env \<Rightarrow> bool \<Rightarrow> nat \<Rightarrow> nat \<Rightarrow> json list \<Rightarrow> ('w, nat \<times> nat) compute" where
  "scan_documents env dry_run candidates failures [] = h_lift (Inr (candidates, failures))"
| "scan_documents env dry_run candidates failures (document # rest) =
     h_bind (h_timed env (scan_document env dry_run document)) (\<lambda>outcome.
     case outcome of
       Some (Inr candidate) \<Rightarrow> scan_documents env dry_run (candidates + (if candidate then 1 else 0)) failures rest
     | Some (Inl _) \<Rightarrow> scan_documents env dry_run candidates (failures + 1) rest
     | None \<Rightarrow> scan_documents env dry_run candidates (failures + 1) rest)"

text \<open>The loop over at most ten pages.\<close>

fun scan_pages ::
  "'w service_env \<Rightarrow> bool \<Rightarrow> string \<Rightarrow> nat \<Rightarrow> scan_checkpoint \<Rightarrow> nat \<Rightarrow> nat \<Rightarrow> ('w, nat \<times> nat) compute" where
  "scan_pages env dry_run scope 0 cp candidates failures = h_lift (Inr (candidates, failures))"
| "scan_pages env dry_run scope (Suc n) cp candidates failures =
     h_bind (ask_try (access_token env)) (\<lambda>token.
     h_bind (\<lambda>st. case page (se_store env) token (page_token cp) st of (st', r) \<Rightarrow> (st', Inr r)) (\<lambda>listed.
     case listed of
       Inl e \<Rightarrow>
         h_bind (if \<not> dry_run \<and> page_token cp \<noteq> None
             then h_bind (advance_checkpoint (se_store env) token scope cp None) (\<lambda>_. h_lift (Inr ()))
             else h_lift (Inr ())) (\<lambda>_. h_lift (Inl e))
     | Inr (documents, next_page) \<Rightarrow>
         h_bind (scan_documents env dry_run candidates failures documents) (\<lambda>(candidates, failures).
         h_bind (if dry_run then h_lift (Inr (cp\<lparr>page_token := next_page\<rparr>))
             else advance_checkpoint (se_store env) token scope cp next_page) (\<lambda>cp.
         h_bind (ask (runs_over env)) (\<lambda>late.
         if next_page = None \<or> late then h_lift (Inr (candidates, failures))
         else scan_pages env dry_run scope n cp candidates failures)))))"

definition reconcile_orphans :: "'w service_env \<Rightarrow> bool \<Rightarrow> ('w, nat) compute" where
  "reconcile_orphans env dry_run =
     (let cfg = se_config env; scope = default_region cfg @ [CHR 0x00] @ gateway_domain cfg in
      if \<not> has_policies cfg
      then h_lift (Inl (Configuration ''COMPUTE_PAYMENT_POLICY_DATABASE is required for reconciliation''))
      else
        h_bind (ask_try (access_token env)) (\<lambda>token.
        h_bind (checkpoint (se_store env) token scope) (\<lambda>cp.
        h_bind (scan_pages env dry_run scope 10 cp 0 0) (\<lambda>(candidates, failures).
        h_lift (if failures \<noteq> 0
          then Inl (ProviderFailed (show_nat failures @ '' payment policy reconciliation records failed; retry required''))
          else Inr candidates)))))"

section \<open>Selectors\<close>

definition safe_public_path :: "string \<Rightarrow> bool" where
  "safe_public_path path \<longleftrightarrow>
     prefix ''/'' path \<and> \<not> prefix ''//'' path \<and> length path \<le> 256
     \<and> list_all (\<lambda>ch. 32 \<le> (of_char ch :: nat) \<and> (of_char ch :: nat) \<noteq> 127) path
     \<and> list_all (\<lambda>ch. ch \<notin> {CHR ''?'', CHR ''#'', CHR ''%'', CHR 0x5C}) path
     \<and> list_all (\<lambda>segment. segment \<noteq> ''.'' \<and> segment \<noteq> ''..'') (split_on (CHR ''/'') path)
     \<and> path \<noteq> ''/internal'' \<and> \<not> prefix ''/internal/'' path \<and> path \<noteq> ''/__402'' \<and> \<not> prefix ''/__402/'' path"

definition path_is_public :: "string list \<Rightarrow> string \<Rightarrow> bool" where
  "path_is_public public_paths path_and_query \<longleftrightarrow>
     (let requested = takeWhile (\<lambda>ch. ch \<noteq> CHR ''?'') path_and_query in
      safe_public_path requested \<and> requested \<in> set public_paths)"

definition validate_public_paths :: "string list \<Rightarrow> compute_error + string list" where
  "validate_public_paths paths =
     (if paths = [] \<or> 32 < length paths
      then Inl (InvalidRequest ''gateway exposure requires between 1 and 32 public paths'')
      else
        let normalized = remdups_adj (sort paths) in
        and_then (try_fold (\<lambda>_ path. ensure (safe_public_path path)
            (InvalidRequest (''public gateway path `'' @ path @ ''` must be an exact safe absolute path''))) () normalized) (\<lambda>_.
        Inr normalized))"

definition payment_deployment_value ::
  "'w service_env \<Rightarrow> string \<Rightarrow> string option \<Rightarrow> ('w, deployment_identity \<times> json) compute" where
  "payment_deployment_value env host path =
     (let cfg = se_config env in
      h_bind (h_lift (and_then (ok_or (InvalidRequest ''hostname is outside the compute gateway domain'')
          (strip_suffix (''.'' @ gateway_domain cfg) host)) (\<lambda>function_id.
        and_then (validate_gateway_function_name function_id) (\<lambda>_. Inr (function_path cfg function_id))))) (\<lambda>resource.
      h_bind (ask_try (\<lambda>w. send_json env w GET (api_base cfg @ ''/v2/'' @ resource))) (\<lambda>(status, value).
      h_lift (if \<not> is_success status then Inl (json_provider_error env status value)
        else
          and_then (tenant_label_from_resource resource) (\<lambda>owner.
          if length owner \<noteq> 16 \<or> \<not> list_all is_ascii_hexdigit owner \<or> json_str_at value ''name'' \<noteq> Some resource
             \<or> label_of value ''pay-tenant'' \<noteq> Some owner \<or> label_of value ''managed-by'' \<noteq> Some ''mcp-compute''
             \<or> label_of value ''pay-exposure'' \<noteq> Some ''gateway'' \<or> json_str_at value ''state'' \<noteq> Some ''ACTIVE''
          then Inl (InvalidRequest ''deployment is not an active owned gateway'')
          else
            and_then (case path of None \<Rightarrow> Inr ()
              | Some requested \<Rightarrow>
                  and_then (ok_or (InvalidRequest ''deployment has no public paths'')
                    (Option.bind (json_pointer value [''serviceConfig'', ''environmentVariables'', ''PAY_INTERNAL_PUBLIC_PATHS''])
                       json_as_str)) (\<lambda>text.
                  and_then (ok_or SerializationFailed (paths_from_json env text)) (\<lambda>paths.
                  and_then (validate_public_paths paths) (\<lambda>_.
                  ensure (path_is_public paths requested) (InvalidRequest ''path is not published''))))) (\<lambda>_.
            and_then (ok_or (ProviderFailed ''deployment creation identity is missing'')
                (non_empty (json_str_at value ''createTime''))) (\<lambda>created.
            Inr (\<lparr>owner_key = owner, resource_name = resource, created_at = created, hostname = host\<rparr>, value))))))))"

definition owned_payment_deployment :: "'w service_env \<Rightarrow> tenant \<Rightarrow> string \<Rightarrow> ('w, deployment_identity) compute" where
  "owned_payment_deployment env t host =
     h_bind (payment_deployment_value env host None) (\<lambda>(identity, value).
     h_lift (if owner_key identity \<noteq> tenant_key t then Inl (InvalidRequest ''deployment belongs to a different payer'')
       else and_then (require_deployment_lease (codec_of (se_store env)) t value) (\<lambda>_. Inr identity)))"

section \<open>The owner's operations\<close>

definition service_load :: "'w service_env \<Rightarrow> deployment_identity \<Rightarrow> ('w, stored_policy option) compute" where
  "service_load env deployment =
     h_bind (ask_try (access_token env)) (\<lambda>token. load (se_store env) token deployment)"

definition service_wallets ::
  "'w service_env \<Rightarrow> deployment_identity \<Rightarrow> payment_policy_spec \<Rightarrow> ('w, owned_wallet list) compute" where
  "service_wallets env deployment spec =
     h_bind (ask_try (identity_token env)) (\<lambda>token.
     h_bind (h_lift (ok_or (Configuration ''wallet resolution requires service identity'') token)) (\<lambda>token.
     h_bind (ask (\<lambda>w. post_wallets env w token deployment (primary_recipient spec # map split_recipient (policy_splits spec)))) (\<lambda>reply.
     h_lift (case reply of
         None \<Rightarrow> Inl TransportFailed
       | Some (status, body) \<Rightarrow>
           if \<not> is_success status then Inl (InvalidRequest ''recipient wallet ownership could not be verified'')
           else ok_or TransportFailed (Option.bind body (wallets_from_json env))))))"

definition service_get :: "'w service_env \<Rightarrow> tenant \<Rightarrow> string \<Rightarrow> ('w, payment_policy) compute" where
  "service_get env t host =
     h_bind (owned_payment_deployment env t host) (\<lambda>deployment.
     h_bind (service_load env deployment) (\<lambda>stored.
     h_lift (and_then (ok_or (InvalidRequest ''deployment has no payment policy'') stored) (\<lambda>s.
       ok_or (InvalidRequest ''deployment payment policy is retired'') (st_policy s)))))"

definition service_set ::
  "'w service_env \<Rightarrow> tenant \<Rightarrow> string \<Rightarrow> nat \<Rightarrow> payment_policy_spec \<Rightarrow> ('w, payment_policy) compute" where
  "service_set env t host expected_version spec =
     h_bind (owned_payment_deployment env t host) (\<lambda>deployment.
     h_bind (clock env) (\<lambda>now.
     h_bind (h_lift (spec_validate spec now)) (\<lambda>_.
     h_bind (service_load env deployment) (\<lambda>stored.
     if (case stored of Some s \<Rightarrow> retired s | None \<Rightarrow> False)
     then h_lift (Inl (InvalidRequest ''deployment payment policy is permanently retired''))
     else
       h_bind (clock env) (\<lambda>now.
       h_bind (h_lift (revision (Option.bind stored st_policy) deployment spec expected_version now)) (\<lambda>next.
       h_bind (service_wallets env deployment (policy_spec next)) (\<lambda>wallets.
       h_bind (clock env) (\<lambda>now.
       h_bind (h_lift (policy_resolve (bs58_address env) next deployment wallets now)) (\<lambda>_.
       if (case stored of Some s \<Rightarrow> st_policy s = Some next | None \<Rightarrow> False) then h_lift (Inr next)
       else
         h_bind (ask_try (access_token env)) (\<lambda>token.
         h_bind (write_policy (se_store env) token stored
             \<lparr>st_deployment = deployment, st_policy = Some next, retired = False, absent_since = None, update_time = []\<rparr>) (\<lambda>_.
         h_lift (Inr next))))))))))))"

definition service_delete ::
  "'w service_env \<Rightarrow> tenant \<Rightarrow> string \<Rightarrow> nat \<Rightarrow> ('w, payment_policy option) compute" where
  "service_delete env t host expected_version =
     h_bind (owned_payment_deployment env t host) (\<lambda>deployment.
     h_bind (service_load env deployment) (\<lambda>found.
     case found of
       None \<Rightarrow> h_lift (Inr None)
     | Some stored \<Rightarrow>
         case st_policy stored of
           None \<Rightarrow> h_lift (Inr None)
         | Some policy \<Rightarrow>
             if deleted policy then h_lift (Inr (Some policy))
             else if version policy \<noteq> expected_version then h_lift (Inl (InvalidRequest ''payment policy version conflict''))
             else
               h_bind (h_lift (ok_or (Configuration ''payment policy version exhausted'') (checked_add 64 (version policy) 1))) (\<lambda>v.
               let gone = policy\<lparr>deleted := True, version := v\<rparr> in
               h_bind (ask_try (access_token env)) (\<lambda>token.
               h_bind (write_policy (se_store env) token (Some stored) (stored\<lparr>st_policy := Some gone\<rparr>)) (\<lambda>_.
               h_lift (Inr (Some gone)))))))"

record resolved_payment_policy =
  rp_deployment :: deployment_identity
  rp_version :: nat
  rp_price_micro_usd :: nat
  rp_expires_at :: nat
  rp_schemes :: "string list"
  rp_allocations :: "allocation list"

definition service_resolve :: "'w service_env \<Rightarrow> string \<Rightarrow> string \<Rightarrow> ('w, resolved_payment_policy) compute" where
  "service_resolve env host path =
     h_bind (payment_deployment_value env host (Some path)) (\<lambda>(deployment, _).
     h_bind (service_load env deployment) (\<lambda>found.
     h_bind (h_lift (and_then (ok_or (InvalidRequest ''deployment has no payment policy'') found) (\<lambda>stored.
       and_then (ok_or (InvalidRequest ''deployment payment policy is retired'') (st_policy stored)) (\<lambda>policy.
       if deleted policy \<or> retired stored then Inl (InvalidRequest ''payment policy was deleted'') else Inr policy)))) (\<lambda>policy.
     h_bind (clock env) (\<lambda>now.
     h_bind (h_lift (spec_validate (policy_spec policy) now)) (\<lambda>_.
     h_bind (service_wallets env deployment (policy_spec policy)) (\<lambda>wallets.
     h_bind (clock env) (\<lambda>now.
     h_bind (h_lift (policy_resolve (bs58_address env) policy deployment wallets now)) (\<lambda>allocations.
     h_lift (Inr \<lparr>rp_deployment = deployment, rp_version = version policy,
       rp_price_micro_usd = price_micro_usd (policy_spec policy), rp_expires_at = spec_expires_at (policy_spec policy),
       rp_schemes = schemes (policy_spec policy), rp_allocations = allocations\<rparr>)))))))))"

record admitted_policy =
  ad_deployment :: deployment_identity
  ad_version :: nat
  ad_price_micro_usd :: nat

definition require_admitted :: "'w service_env \<Rightarrow> admitted_policy \<Rightarrow> ('w, unit) compute" where
  "require_admitted env admitted =
     (let stale = InvalidRequest ''admitted payment policy is no longer current'' in
      h_bind (service_load env (ad_deployment admitted)) (\<lambda>found.
      h_lift (and_then (ok_or stale found) (\<lambda>stored.
        and_then (ok_or stale (st_policy stored)) (\<lambda>policy.
        ensure (\<not> (retired stored \<or> deleted policy \<or> pol_deployment policy \<noteq> ad_deployment admitted
             \<or> version policy \<noteq> ad_version admitted \<or> price_micro_usd (policy_spec policy) \<noteq> ad_price_micro_usd admitted))
          stale)))))"

section \<open>Every write is justified\<close>

named_theorems unlogged_calls \<open>handlers that neither read nor write documents\<close>

lemma unlogged_ask_try [unlogged_calls]: "unlogged (ask_try f)"
  unfolding ask_try_def by (intro unlogged_bind unlogged_steps)

lemma unlogged_clock [unlogged_calls]: "unlogged (clock env)"
  unfolding clock_def by (intro unlogged_bind unlogged_steps)

lemma unlogged_identity [unlogged_calls]:
  "unlogged (validate_policy_identity env identity)" "unlogged (policy_identity env resource value)"
proof -
  show validate: "unlogged (validate_policy_identity env identity)" for identity
    unfolding validate_policy_identity_def Let_def by (intro unlogged_bind unlogged_steps)
  show "unlogged (policy_identity env resource value)"
    unfolding policy_identity_def by (intro unlogged_bind unlogged_steps validate)
qed

lemma unlogged_absent [unlogged_calls]: "unlogged (policy_incarnation_absent env identity)"
  unfolding policy_incarnation_absent_def
  by (auto intro!: unlogged_bind unlogged_steps unlogged_calls)

lemma unlogged_selectors [unlogged_calls]:
  "unlogged (payment_deployment_value env host path)" "unlogged (owned_payment_deployment env t host)"
  "unlogged (service_wallets env deployment spec)"
  unfolding owned_payment_deployment_def payment_deployment_value_def service_wallets_def Let_def
  by (auto intro!: unlogged_bind unlogged_steps unlogged_calls)

text \<open>Which documents follow the one that was read.\<close>

lemma stored_retire_follows:
  assumes "stored_wf s" and "stored_retire s = Inr next"
  shows "stored_wf next" and "follows s next" and "retired next" and "st_deployment next = st_deployment s"
  using assms
  by (auto simp: stored_retire_def stored_wf_def follows_def res_simps arith_checked split: if_splits option.splits)

lemma keeps_retire_policy: "keeps (se_store env) (retire_policy env identity)"
proof -
  have "keeps_justified (se_store env) (\<lambda>tr. has_read (se_store env) tr (policy_url (se_store env) (st_deployment s)) s)
      (h_bind (h_lift (stored_retire s)) (\<lambda>next. write_policy (se_store env) token (Some s) next))"
    if "stored_wf s" for s token
  proof (rule keeps_after_lift)
    fix "next" assume "next": "stored_retire s = Inr next"
    show "keeps_justified (se_store env) (\<lambda>tr. has_read (se_store env) tr (policy_url (se_store env) (st_deployment s)) s)
        (write_policy (se_store env) token (Some s) next)"
      using stored_retire_follows [OF that "next"] by (intro keeps_write) simp_all
  qed
  moreover have "keeps (se_store env) (h_bind (h_lift (Inr \<lparr>st_deployment = identity, st_policy = None, retired = True,
      absent_since = None, update_time = []\<rparr>)) (\<lambda>next. write_policy (se_store env) token None next))" for token
    by (rule keeps_after_lift, rule keeps_write) (auto simp: stored_wf_def starts_def)
  ultimately have "keeps (se_store env) (h_bind (load (se_store env) token identity) (\<lambda>stored.
        if (case stored of Some s \<Rightarrow> retired s | None \<Rightarrow> False) then h_lift (Inr ())
        else
          h_bind (h_lift (case stored of
              Some s \<Rightarrow> stored_retire s
            | None \<Rightarrow> Inr \<lparr>st_deployment = identity, st_policy = None, retired = True, absent_since = None,
                          update_time = []\<rparr>)) (\<lambda>next. write_policy (se_store env) token stored next)))" for token
    by (intro keeps_load) (auto intro: keeps_lift)
  then show ?thesis
    unfolding retire_policy_def
    by (cases "has_policies (se_config env)")
      (simp_all add: keeps_lift keeps_after_silent [OF unlogged_identity(1)] keeps_after_silent [OF unlogged_ask_try])
qed

lemma keeps_reconcile_policy:
  assumes "stored_wf stored" and "now < 2 ^ 64"
  shows "keeps_justified (se_store env) (\<lambda>tr. has_read (se_store env) tr (policy_url (se_store env) (st_deployment stored)) stored)
    (reconcile_policy env stored dry_run now)"
proof -
  let ?A = "\<lambda>tr. has_read (se_store env) tr (policy_url (se_store env) (st_deployment stored)) stored"
  have "keeps_justified (se_store env) ?A (h_bind (h_lift (stored_retire stored)) (\<lambda>next.
      h_bind (write_policy (se_store env) token (Some stored) (next\<lparr>absent_since := Some now\<rparr>)) (\<lambda>_. h_lift (Inr True))))" for token
  proof (rule keeps_after_lift)
    fix "next" assume "next": "stored_retire stored = Inr next"
    have "stored_wf (next\<lparr>absent_since := Some now\<rparr>)" "follows stored (next\<lparr>absent_since := Some now\<rparr>)"
      using stored_retire_follows [OF assms(1) "next"] assms(2)
      by (simp_all add: stored_wf_def follows_def split: option.splits)
    then show "keeps_justified (se_store env) ?A
        (h_bind (write_policy (se_store env) token (Some stored) (next\<lparr>absent_since := Some now\<rparr>)) (\<lambda>_. h_lift (Inr True)))"
      using stored_retire_follows(4) [OF assms(1) "next"] by (intro keeps_bind keeps_write keeps_lift) auto
  qed
  moreover have "keeps_justified (se_store env) ?A (h_bind (purge (se_store env) token stored) (\<lambda>_. h_lift (Inr True)))" for token
    by (intro keeps_bind keeps_purge keeps_lift)
  ultimately show ?thesis
    unfolding reconcile_policy_def Let_def
    by (auto intro!: keeps_lift keeps_after_silent [OF unlogged_absent] keeps_after_silent [OF unlogged_ask_try])
qed

lemma keeps_clock:
  assumes "\<And>now. now < 2 ^ 64 \<Longrightarrow> keeps_justified env A (f now)"
  shows "keeps_justified env A (h_bind (clock senv) f)"
proof -
  have "h_bind (clock senv) f = h_bind (ask (unix_now senv)) (\<lambda>now.
      h_bind (h_lift (ok_or (Configuration ''system clock precedes Unix epoch'') (map_option unat now))) f)"
    by (simp add: fun_eq_iff clock_def h_bind_def split: prod.split sum.split)
  moreover have "keeps_justified env A (f (unat w))" for w :: "64 word"
    using assms [of "unat w"] unsigned_less [of w] by simp
  ultimately show ?thesis
    by (auto intro!: keeps_after_silent unlogged_steps keeps_after_lift simp: res_simps)
qed

lemma keeps_cleanup: "keeps (se_store env) (policy_cleanup env identity)"
  unfolding policy_cleanup_def
  by (auto intro!: keeps_after_silent [OF unlogged_ask_try] keeps_load keeps_lift keeps_clock keeps_reconcile_policy)

lemma keeps_attempt: "keeps env m \<Longrightarrow> keeps env (h_attempt m)"
  by (auto simp: keeps_justified_def h_triple_def h_attempt_def split: prod.splits sum.splits)

lemma keeps_delete_resource: "keeps (se_store env) (delete_resource env t function_id region expected)"
proof -
  have fence: "keeps (se_store env) (h_bind (policy_identity env resource existing) (\<lambda>identity.
      h_bind (retire_policy env identity) (\<lambda>_. h_lift (Inr (Some identity)))))" for resource existing
    by (intro keeps_after_silent [OF unlogged_identity(2)] keeps_bind keeps_retire_policy keeps_lift)
  have tail: "keeps (se_store env) (h_bind (case identity of None \<Rightarrow> h_lift (Inr ()) | Some d \<Rightarrow> h_attempt (policy_cleanup env d))
      (\<lambda>_. h_lift (Inr operation)))" for identity and operation :: compute_operation
    by (cases identity) (auto intro!: keeps_bind keeps_lift keeps_attempt keeps_cleanup)
  show ?thesis
    unfolding delete_resource_def Let_def
    by (auto split: prod.split intro!: keeps_after_lift keeps_lift keeps_after_silent [OF unlogged_ask_try] keeps_bind [OF fence] tail)
qed

text \<open>A scan that is cut short has sent a prefix of what it would have sent.\<close>

lemma keeps_timed:
  assumes "keeps env m" and "\<And>st st' r. m st = (st', r) \<Longrightarrow> \<exists>es. cs_log st' = cs_log st @ es"
  shows "keeps env (h_timed senv m)"
  unfolding keeps_justified_def
proof (rule h_tripleI)
  fix st st' r
  assume st: "justified env [] (cs_log st) \<and> True" and run: "h_timed senv m st = (st', r)"
  obtain limit w st1 r1 where draw: "cut_after senv (cs_world st) = (limit, w)" and m: "m (st\<lparr>cs_world := w\<rparr>) = (st1, r1)"
    by (metis prod.exhaust)
  obtain es where es: "cs_log st1 = cs_log st @ es"
    using assms(2) [OF m] by auto
  have all: "justified env [] (cs_log st1)"
    using h_triple_apply [OF assms(1) [unfolded keeps_justified_def] _ m] st by (auto split: sum.splits)
  then have part: "justified env [] (cs_log st @ take n es)" for n
    by (simp add: es justified_append justified_take)
  have "justified env [] (cs_log st')"
  proof (cases limit)
    case None
    then have "st' = st1"
      using run by (simp add: h_timed_def draw m)
    then show ?thesis
      using all by simp
  next
    case (Some n)
    then have "cs_log st' = cs_log st @ take n es"
      using run by (auto simp: h_timed_def draw m es)
    then show ?thesis
      using part by simp
  qed
  then show "case r of Inr a \<Rightarrow> justified env [] (cs_log st') | Inl _ \<Rightarrow> justified env [] (cs_log st')"
    by (simp split: sum.split)
qed

text \<open>Logs only grow.\<close>

definition grows :: "('w, 'a) compute \<Rightarrow> bool" where
  "grows m \<longleftrightarrow> (\<forall>tr. h_triple (\<lambda>st. prefix tr (cs_log st)) m (\<lambda>_ st. prefix tr (cs_log st)) (\<lambda>st. prefix tr (cs_log st)))"

lemma grows_silent: "unlogged m \<Longrightarrow> grows m"
  unfolding unlogged_def grows_def by blast

lemma grows_bind: "grows m \<Longrightarrow> (\<And>a. grows (f a)) \<Longrightarrow> grows (h_bind m f)"
  unfolding grows_def by (blast intro: h_triple_bind)

lemma grows_log: "grows (log_event e)"
  by (auto simp: grows_def h_triple_def log_event_def prefix_def)

lemma growsD: "grows m \<Longrightarrow> m st = (st', r) \<Longrightarrow> \<exists>es. cs_log st' = cs_log st @ es"
proof -
  assume "grows m" and run: "m st = (st', r)"
  then have "h_triple (\<lambda>s. prefix (cs_log st) (cs_log s)) m (\<lambda>_ s. prefix (cs_log st) (cs_log s)) (\<lambda>s. prefix (cs_log st) (cs_log s))"
    unfolding grows_def by blast
  from h_triple_apply [OF this _ run] show ?thesis
    by (auto simp: prefix_def split: sum.splits)
qed

lemmas grows_rules = grows_bind grows_log unlogged_steps [THEN grows_silent] unlogged_calls [THEN grows_silent]

lemma grows_load: "grows (load env token d)"
  unfolding load_def Let_def by (auto intro!: grows_rules)

lemma grows_write: "grows (write_policy env token previous next)"
  unfolding write_policy_def Let_def by (auto intro!: grows_rules)

lemma grows_purge: "grows (purge env token stored)"
  unfolding purge_def Let_def by (auto intro!: grows_rules)

lemma grows_reconcile: "grows (reconcile_policy env stored dry_run now)"
  unfolding reconcile_policy_def Let_def
  by (auto intro!: grows_rules grows_write grows_purge)

lemma grows_scan: "grows (scan_document env dry_run document)"
  unfolding scan_document_def Let_def
  by (intro grows_rules grows_reconcile)

lemma keeps_scan_document: "keeps (se_store env) (scan_document env dry_run document)"
proof -
  have "keeps (se_store env) (h_bind (log_event (GotDocument (policy_url (se_store env) (st_deployment stored)) document)) (\<lambda>_.
      h_bind (validate_policy_identity env (st_deployment stored)) (\<lambda>_. h_bind (clock env) (\<lambda>now. reconcile_policy env stored dry_run now))))"
    if "decode (codec_of (se_store env)) document = Inr stored" for stored
  proof (rule keeps_after_log)
    let ?A = "\<lambda>tr. has_read (se_store env) tr (policy_url (se_store env) (st_deployment stored)) stored"
    show "keeps_justified (se_store env) ?A (h_bind (validate_policy_identity env (st_deployment stored)) (\<lambda>_.
        h_bind (clock env) (\<lambda>now. reconcile_policy env stored dry_run now)))"
      by (intro keeps_after_silent [OF unlogged_identity(1)] keeps_clock keeps_reconcile_policy decode_wf [OF that])
    show "?A (tr @ [GotDocument (policy_url (se_store env) (st_deployment stored)) document])" for tr
      using that by (auto simp: has_read_def)
  qed simp
  then show ?thesis
    unfolding scan_document_def Let_def by (intro keeps_after_lift)
qed

lemma keeps_scan_documents: "keeps (se_store env) (scan_documents env dry_run candidates failures documents)"
proof (induction documents arbitrary: candidates failures)
  case (Cons document documents)
  have "keeps (se_store env) (h_timed env (scan_document env dry_run document))"
    by (rule keeps_timed [OF keeps_scan_document]) (rule growsD [OF grows_scan])
  then show ?case
    using Cons.IH by (auto intro!: keeps_bind split: option.split sum.split)
qed (simp add: keeps_lift)

lemma keeps_scan_pages: "keeps (se_store env) (scan_pages env dry_run scope n cp candidates failures)"
proof (induction n arbitrary: cp candidates failures)
  case (Suc n)
  have listed: "unlogged (\<lambda>st. case page (se_store env) token pt st of (st', r) \<Rightarrow> (st', Inr r))" for token pt
    using unlogged_store(1) [of "se_store env" token pt]
    unfolding unlogged_def h_triple_def by (fastforce split: prod.splits sum.splits)
  have advance: "unlogged (if b then h_lift (Inr x) else advance_checkpoint (se_store env) token scope cp np)" for b x token cp np
    by (simp add: unlogged_steps unlogged_store)
  have reset: "unlogged (if b then h_bind (advance_checkpoint (se_store env) token scope cp None) (\<lambda>_. h_lift (Inr ())) else h_lift (Inr ()))"
    for b token cp
    by (simp add: unlogged_steps unlogged_store unlogged_bind)
  have rest: "keeps (se_store env) (h_bind (scan_documents env dry_run candidates failures documents) (\<lambda>(candidates, failures).
      h_bind (if dry_run then h_lift (Inr (cp\<lparr>page_token := np\<rparr>)) else advance_checkpoint (se_store env) token scope cp np) (\<lambda>cp.
      h_bind (ask (runs_over env)) (\<lambda>late. if np = None \<or> late then h_lift (Inr (candidates, failures))
         else scan_pages env dry_run scope n cp candidates failures))))" for documents np token cp
  proof (rule keeps_bind [OF keeps_scan_documents])
    fix counted :: "nat \<times> nat"
    have "keeps (se_store env) (if np = None \<or> late then h_lift (Inr counted)
        else scan_pages env dry_run scope n cp (fst counted) (snd counted))" for late cp
      using Suc.IH by (simp add: keeps_lift)
    then show "keeps (se_store env) (case counted of (candidates, failures) \<Rightarrow>
        h_bind (if dry_run then h_lift (Inr (cp\<lparr>page_token := np\<rparr>)) else advance_checkpoint (se_store env) token scope cp np) (\<lambda>cp.
        h_bind (ask (runs_over env)) (\<lambda>late. if np = None \<or> late then h_lift (Inr (candidates, failures))
           else scan_pages env dry_run scope n cp candidates failures)))"
      unfolding case_prod_beta prod.collapse
      by (intro keeps_after_silent [OF advance] keeps_after_silent [OF unlogged_steps(1)])
  qed
  have failed: "keeps (se_store env) (h_bind (if b then h_bind (advance_checkpoint (se_store env) token scope cp None) (\<lambda>_. h_lift (Inr ()))
      else h_lift (Inr ())) (\<lambda>_. h_lift r))" for b token cp and r :: "compute_error + nat \<times> nat"
    by (intro keeps_after_silent [OF reset] keeps_lift)
  have outcome: "keeps (se_store env) (case listed of Inl e \<Rightarrow> f e | Inr (documents, np) \<Rightarrow> g documents np)"
    if "\<And>e. keeps (se_store env) (f e)" and "\<And>documents np. keeps (se_store env) (g documents np)"
    for listed :: "compute_error + json list \<times> string option" and f and g :: "json list \<Rightarrow> string option \<Rightarrow> ('a, nat \<times> nat) compute"
    using that by (auto split: sum.split prod.split)
  show ?case
    unfolding scan_pages.simps
    by (intro keeps_after_silent [OF unlogged_ask_try] keeps_after_silent [OF listed] outcome failed rest)
qed (simp add: keeps_lift)

lemma keeps_reconcile_orphans: "keeps (se_store env) (reconcile_orphans env dry_run)"
  unfolding reconcile_orphans_def Let_def
  by (auto intro!: keeps_lift keeps_after_silent [OF unlogged_ask_try] keeps_after_silent [OF unlogged_store(2)]
      keeps_bind [OF keeps_scan_pages] split: prod.split)

lemma service_load_bind:
  "h_bind (service_load env d) f = h_bind (ask_try (access_token env)) (\<lambda>token. h_bind (load (se_store env) token d) f)"
  by (simp add: fun_eq_iff service_load_def h_bind_def split: prod.split sum.split)

lemma keeps_service_set: "keeps (se_store env) (service_set env t host expected spec)"
proof -
  let ?new = "\<lambda>d nw. \<lparr>st_deployment = d, st_policy = Some nw, retired = False, absent_since = None, update_time = []\<rparr>"
  have written: "keeps_justified (se_store env) A (write_policy (se_store env) token stored (?new d nw))"
    if nw: "revision (Option.bind stored st_policy) d spec expected now = Inr nw"
      and stored: "case stored of None \<Rightarrow> True | Some s \<Rightarrow> stored_wf s \<and> st_deployment s = d \<and> \<not> retired s \<and> st_policy s \<noteq> Some nw"
      and A: "case stored of None \<Rightarrow> True | Some s \<Rightarrow> \<forall>tr. A tr \<longrightarrow> has_read (se_store env) tr (policy_url (se_store env) d) s"
    for A token stored d nw now
  proof (rule keeps_write)
    note rev = revision_Inr [OF nw]
    show "stored_wf (?new d nw)"
      using rev(1,2) by (simp add: stored_wf_def)
    show "case stored of None \<Rightarrow> starts (?new d nw) | Some old \<Rightarrow> follows old (?new d nw)
        \<and> (\<forall>tr. A tr \<longrightarrow> has_read (se_store env) tr (policy_url (se_store env) (st_deployment (?new d nw))) old)"
    proof (cases stored)
      case None
      then show ?thesis
        using rev(3,5) by (simp add: starts_def)
    next
      case (Some s)
      obtain p where p: "st_policy s = Some p"
        using stored Some by (auto simp: stored_wf_def split: option.splits)
      then have "version nw = version p + 1"
        using rev(5) stored Some by auto
      then show ?thesis
        using stored A Some p by (simp add: follows_def)
    qed
  qed
  have body: "keeps_justified (se_store env) A (
       h_bind (clock env) (\<lambda>now.
       h_bind (h_lift (revision (Option.bind stored st_policy) d spec expected now)) (\<lambda>nw.
       h_bind (service_wallets env d (policy_spec nw)) (\<lambda>wallets.
       h_bind (clock env) (\<lambda>now.
       h_bind (h_lift (policy_resolve (bs58_address env) nw d wallets now)) (\<lambda>_.
       if (case stored of Some s \<Rightarrow> st_policy s = Some nw | None \<Rightarrow> False) then h_lift (Inr nw)
       else
         h_bind (ask_try (access_token env)) (\<lambda>token.
         h_bind (write_policy (se_store env) token stored (?new d nw)) (\<lambda>_. h_lift (Inr nw)))))))))"
    if stored: "case stored of None \<Rightarrow> True | Some s \<Rightarrow> stored_wf s \<and> st_deployment s = d \<and> \<not> retired s"
      and A: "case stored of None \<Rightarrow> True | Some s \<Rightarrow> \<forall>tr. A tr \<longrightarrow> has_read (se_store env) tr (policy_url (se_store env) d) s"
    for A stored d
  proof (rule keeps_after_silent [OF unlogged_clock], rule keeps_after_lift)
    fix now nw
    assume nw: "revision (Option.bind stored st_policy) d spec expected now = Inr nw"
    have "keeps_justified (se_store env) A (if (case stored of Some s \<Rightarrow> st_policy s = Some nw | None \<Rightarrow> False) then h_lift (Inr nw)
       else h_bind (ask_try (access_token env)) (\<lambda>token.
         h_bind (write_policy (se_store env) token stored (?new d nw)) (\<lambda>_. h_lift (Inr nw))))"
    proof (cases "case stored of Some s \<Rightarrow> st_policy s = Some nw | None \<Rightarrow> False")
      case False
      then have "keeps_justified (se_store env) A (write_policy (se_store env) token stored (?new d nw))" for token
        by (intro written [OF nw _ A]) (use stored in \<open>auto split: option.splits\<close>)
      with False show ?thesis
        by (simp only: if_False) (intro keeps_after_silent [OF unlogged_ask_try] keeps_bind keeps_lift)
    qed (simp add: keeps_lift)
    then show "keeps_justified (se_store env) A (h_bind (service_wallets env d (policy_spec nw)) (\<lambda>wallets.
       h_bind (clock env) (\<lambda>now.
       h_bind (h_lift (policy_resolve (bs58_address env) nw d wallets now)) (\<lambda>_.
       if (case stored of Some s \<Rightarrow> st_policy s = Some nw | None \<Rightarrow> False) then h_lift (Inr nw)
       else h_bind (ask_try (access_token env)) (\<lambda>token.
         h_bind (write_policy (se_store env) token stored (?new d nw)) (\<lambda>_. h_lift (Inr nw)))))))"
      by (intro keeps_after_silent [OF unlogged_selectors(3)] keeps_after_silent [OF unlogged_clock] keeps_after_lift)
  qed
  show ?thesis
    unfolding service_set_def service_load_bind
    by (intro keeps_after_silent [OF unlogged_selectors(2)] keeps_after_silent [OF unlogged_clock] keeps_after_lift
        keeps_after_silent [OF unlogged_ask_try] keeps_load)
      (auto intro!: keeps_lift body [where stored = None, simplified] body [where stored = "Some s" for s, simplified])
qed

lemma keeps_service_delete: "keeps (se_store env) (service_delete env t host expected)"
proof -
  have written: "keeps_justified (se_store env) (\<lambda>tr. has_read (se_store env) tr (policy_url (se_store env) (st_deployment s)) s)
      (h_bind (ask_try (access_token env)) (\<lambda>token.
       h_bind (write_policy (se_store env) token (Some s) (s\<lparr>st_policy := Some (p\<lparr>deleted := True, version := v\<rparr>)\<rparr>)) (\<lambda>_.
       h_lift (Inr r))))"
    if "stored_wf s" "st_policy s = Some p" "\<not> deleted p" "version p < v" for s p v and r :: "payment_policy option"
  proof -
    have "stored_wf (s\<lparr>st_policy := Some (p\<lparr>deleted := True, version := v\<rparr>)\<rparr>)"
        "follows s (s\<lparr>st_policy := Some (p\<lparr>deleted := True, version := v\<rparr>)\<rparr>)"
      using that by (auto simp: stored_wf_def follows_def)
    then show ?thesis
      by (intro keeps_after_silent [OF unlogged_ask_try] keeps_bind keeps_write keeps_lift) simp_all
  qed
  show ?thesis
    unfolding service_delete_def service_load_bind Let_def
    by (intro keeps_after_silent [OF unlogged_selectors(2)] keeps_after_silent [OF unlogged_ask_try] keeps_load)
      (auto intro!: keeps_lift keeps_after_lift written simp: res_simps arith_checked split: option.split)
qed

end
