(* ===== verification/Compute_History.thy ===== *)
theory Compute_History
  imports Compute_Service
begin

text \<open>
  The life of a selling policy under any number of concurrent writers. Owners, deletions and the
  reconciler interleave in any order; each works on documents it read at some earlier time, and Firestore
  applies a write exactly when its precondition holds, stamping the document with a new update time.

  The theorems say that the documents of one life supersede each other in order, so that a version
  identifies its policy and retirement is final, and that a request admitted under a resolved price is
  served under that very policy.
\<close>

section \<open>The store under interleaved writers\<close>

text \<open>The log of one operation, from its start.\<close>

inductive sends :: "'w service_env \<Rightarrow> store_event list \<Rightarrow> bool" for env where
  by_set: "service_set env t host expected spec st = (st', r) \<Longrightarrow> cs_log st = [] \<Longrightarrow> sends env (cs_log st')"
| by_delete: "service_delete env t host expected st = (st', r') \<Longrightarrow> cs_log st = [] \<Longrightarrow> sends env (cs_log st')"
| by_removal: "delete_resource env t function_id region cleanup st = (st', r'') \<Longrightarrow> cs_log st = [] \<Longrightarrow> sends env (cs_log st')"
| by_reconciler: "reconcile_orphans env dry_run st = (st', r''') \<Longrightarrow> cs_log st = [] \<Longrightarrow> sends env (cs_log st')"

lemma keeps_from_empty:
  assumes "keeps env m" and "m st = (st', r)" and "cs_log st = []"
  shows "justified env [] (cs_log st')"
  using h_triple_apply [OF assms(1) [unfolded keeps_justified_def] _ assms(2)] assms(3) by (auto split: sum.splits)

lemma sends_justified: "sends env tr \<Longrightarrow> justified (se_store env) [] tr"
  by (induction rule: sends.induct)
    (auto intro: keeps_from_empty keeps_service_set keeps_service_delete keeps_delete_resource keeps_reconcile_orphans)

text \<open>The documents now, all that ever were, and those since the current one was created.\<close>

record store_state =
  docs :: "string \<rightharpoonup> json"
  ever :: "(string \<times> json) set"
  life :: "string \<Rightarrow> json list"

definition empty_store :: store_state where
  "empty_store = \<lparr>docs = Map.empty, ever = {}, life = (\<lambda>_. [])\<rparr>"

definition has_update_time :: "json \<Rightarrow> string \<Rightarrow> bool" where
  "has_update_time v time \<longleftrightarrow> json_get v ''updateTime'' = Some (JString time)"

definition precondition_holds :: "precondition \<Rightarrow> json option \<Rightarrow> bool" where
  "precondition_holds pre doc \<longleftrightarrow>
     (case pre of MustNotExist \<Rightarrow> doc = None | UpdateTimeIs time \<Rightarrow> (\<exists>v. doc = Some v \<and> has_update_time v time))"

definition reads_from :: "store_state \<Rightarrow> store_event list \<Rightarrow> bool" where
  "reads_from s tr \<longleftrightarrow> (\<forall>url v. GotDocument url v \<in> set tr \<longrightarrow> (url, v) \<in> ever s)"

definition put_document :: "store_state \<Rightarrow> string \<Rightarrow> json \<Rightarrow> store_state" where
  "put_document s url v = \<lparr>docs = (docs s)(url \<mapsto> v), ever = insert (url, v) (ever s), life = (life s)(url := life s url @ [v])\<rparr>"

definition drop_document :: "store_state \<Rightarrow> string \<Rightarrow> store_state" where
  "drop_document s url = \<lparr>docs = (docs s)(url := None), ever = ever s, life = (life s)(url := [])\<rparr>"

inductive policy_store :: "'w service_env \<Rightarrow> store_state \<Rightarrow> bool" for env where
  no_documents: "policy_store env empty_store"
| patched:
    "policy_store env s \<Longrightarrow> sends env (before @ PatchDocument url pre payload # after) \<Longrightarrow> reads_from s before \<Longrightarrow>
     precondition_holds pre (docs s url) \<Longrightarrow> document_holds v payload time \<Longrightarrow>
     (\<And>v'. (url, v') \<in> ever s \<Longrightarrow> \<not> has_update_time v' time) \<Longrightarrow> policy_store env (put_document s url v)"
| purged:
    "policy_store env s \<Longrightarrow> sends env (before @ DeleteDocument url time # after) \<Longrightarrow> reads_from s before \<Longrightarrow>
     precondition_holds (UpdateTimeIs time) (docs s url) \<Longrightarrow> policy_store env (drop_document s url)"

section \<open>What a life looks like\<close>

definition supersedes :: "stored_policy \<Rightarrow> stored_policy \<Rightarrow> bool" where
  "supersedes old new \<longleftrightarrow> st_deployment new = st_deployment old
     \<and> (retired old \<longrightarrow> retired new \<and> st_policy new = st_policy old)
     \<and> (st_policy new = st_policy old
        \<or> (\<exists>p p'. st_policy old = Some p \<and> st_policy new = Some p' \<and> version p < version p'))"

lemma supersedes_trans: "supersedes a b \<Longrightarrow> supersedes b c \<Longrightarrow> supersedes a c"
  unfolding supersedes_def by (auto intro: less_trans)

lemma follows_supersedes: "follows a b \<Longrightarrow> supersedes a (b\<lparr>update_time := time\<rparr>)"
  by (auto simp: follows_def supersedes_def)

definition life_ordered :: "policy_codec \<Rightarrow> json list \<Rightarrow> bool" where
  "life_ordered cd vs \<longleftrightarrow> sorted_wrt (\<lambda>v v'. \<exists>a b. decode cd v = Inr a \<and> decode cd v' = Inr b \<and> supersedes a b) vs"

definition store_inv :: "'w service_env \<Rightarrow> store_state \<Rightarrow> bool" where
  "store_inv env s \<longleftrightarrow>
     (\<forall>url. docs s url = None \<longrightarrow> life s url = [])
     \<and> (\<forall>url v. docs s url = Some v \<longrightarrow> (\<exists>vs. life s url = vs @ [v]))
     \<and> (\<forall>url v. v \<in> set (life s url) \<longrightarrow> (url, v) \<in> ever s)
     \<and> (\<forall>url v v' time. (url, v) \<in> ever s \<longrightarrow> (url, v') \<in> ever s \<longrightarrow> has_update_time v time \<longrightarrow> has_update_time v' time \<longrightarrow> v = v')
     \<and> (\<forall>url. life_ordered (codec_of (se_store env)) (life s url))"

lemma store_invD:
  assumes "store_inv env s"
  shows "docs s url = None \<Longrightarrow> life s url = []" and "docs s url = Some v \<Longrightarrow> \<exists>vs. life s url = vs @ [v]"
    and "v \<in> set (life s url) \<Longrightarrow> (url, v) \<in> ever s"
    and "(url, v) \<in> ever s \<Longrightarrow> (url, v') \<in> ever s \<Longrightarrow> has_update_time v time \<Longrightarrow> has_update_time v' time \<Longrightarrow> v = v'"
    and "life_ordered (codec_of (se_store env)) (life s url)"
  using assms unfolding store_inv_def by blast+

lemma store_invI:
  assumes "\<And>url. docs s url = None \<Longrightarrow> life s url = []" and "\<And>url v. docs s url = Some v \<Longrightarrow> \<exists>vs. life s url = vs @ [v]"
    and "\<And>url v. v \<in> set (life s url) \<Longrightarrow> (url, v) \<in> ever s"
    and "\<And>url v v' time. (url, v) \<in> ever s \<Longrightarrow> (url, v') \<in> ever s \<Longrightarrow> has_update_time v time \<Longrightarrow> has_update_time v' time \<Longrightarrow> v = v'"
    and "\<And>url. life_ordered (codec_of (se_store env)) (life s url)"
  shows "store_inv env s"
  using assms unfolding store_inv_def by blast

lemma decode_time:
  assumes "decode cd v = Inr s"
  shows "has_update_time v (update_time s)"
proof -
  have "non_empty (json_str_at v ''updateTime'') = Some (update_time s)"
    using assms unfolding decode_def by (auto simp only: res_simps if_Inl_eq_Inr) simp_all
  then show ?thesis
    by (auto simp: non_empty_def json_str_at_def bind_eq_Some_conv has_update_time_def json_as_str_Some split: if_splits)
qed

lemma life_ordered_snoc:
  assumes "life_ordered cd (vs @ [v])" and "decode cd v = Inr a" and "decode cd v' = Inr b" and "supersedes a b"
  shows "life_ordered cd (vs @ [v, v'])"
proof -
  have "\<exists>a b. decode cd x = Inr a \<and> decode cd v' = Inr b \<and> supersedes a b" if "x \<in> set vs" for x
    using assms that supersedes_trans unfolding life_ordered_def sorted_wrt_append by fastforce
  then show ?thesis
    using assms unfolding life_ordered_def sorted_wrt_append by auto
qed

lemma store_inv_put:
  assumes inv: "store_inv env s" and "decode (codec_of (se_store env)) v = Inr b" and time: "has_update_time v time"
    and fresh: "\<And>v'. (url, v') \<in> ever s \<Longrightarrow> \<not> has_update_time v' time"
    and "\<And>cur. docs s url = Some cur \<Longrightarrow> \<exists>a. decode (codec_of (se_store env)) cur = Inr a \<and> supersedes a b"
  shows "store_inv env (put_document s url v)"
proof (rule store_invI)
  have ordered: "life_ordered (codec_of (se_store env)) (life s url @ [v])"
  proof (cases "docs s url")
    case None
    then show ?thesis
      using store_invD(1) [OF inv] by (simp add: life_ordered_def)
  next
    case (Some cur)
    then obtain vs a where "life s url = vs @ [cur]" "decode (codec_of (se_store env)) cur = Inr a" "supersedes a b"
      using store_invD(2) [OF inv Some] assms(5) [OF Some] by blast
    then show ?thesis
      using life_ordered_snoc [of "codec_of (se_store env)" vs cur a v b] store_invD(5) [OF inv, of url] assms(2) by simp
  qed
  have only: "has_update_time v time' \<Longrightarrow> time' = time" for time'
    using time by (simp add: has_update_time_def)
  show "docs (put_document s url v) u = None \<Longrightarrow> life (put_document s url v) u = []" for u
    using store_invD(1) [OF inv, of u] by (simp add: put_document_def split: if_splits)
  show "\<exists>vs. life (put_document s url v) u = vs @ [x]" if "docs (put_document s url v) u = Some x" for u x
    using that store_invD(2) [OF inv, of u x] by (cases "u = url") (simp_all add: put_document_def)
  show "x \<in> set (life (put_document s url v) u) \<Longrightarrow> (u, x) \<in> ever (put_document s url v)" for u x
    using store_invD(3) [OF inv, of x u] by (auto simp: put_document_def split: if_splits)
  show "x = x'" if "(u, x) \<in> ever (put_document s url v)" "(u, x') \<in> ever (put_document s url v)"
      "has_update_time x time'" "has_update_time x' time'" for u x x' time'
    using that store_invD(4) [OF inv, of u x x' time'] only fresh by (auto simp: put_document_def)
  show "life_ordered (codec_of (se_store env)) (life (put_document s url v) u)" for u
    using ordered store_invD(5) [OF inv, of u] by (simp add: put_document_def)
qed

lemma store_inv_drop:
  assumes "store_inv env s"
  shows "store_inv env (drop_document s url)"
proof (rule store_invI)
  show "docs (drop_document s url) u = None \<Longrightarrow> life (drop_document s url) u = []" for u
    using store_invD(1) [OF assms, of u] by (simp add: drop_document_def split: if_splits)
  show "docs (drop_document s url) u = Some x \<Longrightarrow> \<exists>vs. life (drop_document s url) u = vs @ [x]" for u x
    using store_invD(2) [OF assms, of u x] by (simp add: drop_document_def split: if_splits)
  show "x \<in> set (life (drop_document s url) u) \<Longrightarrow> (u, x) \<in> ever (drop_document s url)" for u x
    using store_invD(3) [OF assms, of x u] by (auto simp: drop_document_def split: if_splits)
  show "(u, x) \<in> ever (drop_document s url) \<Longrightarrow> (u, x') \<in> ever (drop_document s url) \<Longrightarrow>
      has_update_time x time \<Longrightarrow> has_update_time x' time \<Longrightarrow> x = x'" for u x x' time
    using store_invD(4) [OF assms, of u x x' time] by (simp add: drop_document_def)
  show "life_ordered (codec_of (se_store env)) (life (drop_document s url) u)" for u
    using store_invD(5) [OF assms, of u] by (simp add: drop_document_def life_ordered_def)
qed

lemma justified_at: "justified env [] (before @ e # after) \<Longrightarrow> event_justified env before e"
  by (simp add: justified_append)

text \<open>The document a write was computed from is the current one: its update time is unique.\<close>

lemma read_is_current:
  assumes "store_inv env s" and "reads_from s before" and "has_read (se_store env) before url old"
    and "precondition_holds (UpdateTimeIs (update_time old)) (docs s url)"
  shows "\<exists>cur. docs s url = Some cur \<and> decode (codec_of (se_store env)) cur = Inr old"
proof -
  obtain v where v: "GotDocument url v \<in> set before" "decode (codec_of (se_store env)) v = Inr old"
    using assms(3) by (auto simp: has_read_def)
  then have "(url, v) \<in> ever s" "has_update_time v (update_time old)"
    using assms(2) decode_time by (auto simp: reads_from_def)
  moreover obtain cur where cur: "docs s url = Some cur" "has_update_time cur (update_time old)"
    using assms(4) by (auto simp: precondition_holds_def)
  moreover have "(url, cur) \<in> ever s"
    using store_invD(2) [OF assms(1) cur(1)] store_invD(3) [OF assms(1), of cur url] by auto
  ultimately have "v = cur"
    using store_invD(4) [OF assms(1)] by blast
  then show ?thesis
    using v cur by blast
qed

lemma policy_store_inv:
  assumes "policy_store env s" and "codec_faithful (codec_of (se_store env))"
  shows "store_inv env s"
  using assms(1)
proof (induction rule: policy_store.induct)
  case no_documents
  then show ?case
    by (simp add: store_inv_def empty_store_def life_ordered_def)
next
  case (patched s before url pre payload after v time)
  let ?cd = "codec_of (se_store env)"
  obtain nw where nw: "stored_wf nw" "encode_fields ?cd nw = Inr payload"
      "case pre of MustNotExist \<Rightarrow> starts nw
       | UpdateTimeIs time \<Rightarrow> \<exists>old. has_read (se_store env) before url old \<and> update_time old = time \<and> follows old nw"
    using justified_at [OF sends_justified [OF patched.hyps(2)]] by auto
  have decoded: "decode ?cd v = Inr (nw\<lparr>update_time := time\<rparr>)"
    by (rule decode_encode [OF assms(2) nw(1,2) patched.hyps(5)])
  have "has_update_time v time"
    using patched.hyps(5) by (simp add: document_holds_def has_update_time_def)
  moreover have "\<exists>a. decode ?cd cur = Inr a \<and> supersedes a (nw\<lparr>update_time := time\<rparr>)" if "docs s url = Some cur" for cur
  proof (cases pre)
    case MustNotExist
    then show ?thesis
      using patched.hyps(4) that by (simp add: precondition_holds_def)
  next
    case (UpdateTimeIs t)
    then obtain old where old: "has_read (se_store env) before url old" "update_time old = t" "follows old nw"
      using nw(3) by auto
    then show ?thesis
      using read_is_current [OF patched.IH patched.hyps(3) old(1)] patched.hyps(4) UpdateTimeIs follows_supersedes [OF old(3)] that
      by auto
  qed
  ultimately show ?case
    using store_inv_put [OF patched.IH decoded _ patched.hyps(6)] by blast
next
  case (purged s before url time after)
  then show ?case
    by (simp add: store_inv_drop)
qed

section \<open>What was resolved is what is served\<close>

text \<open>The document an operation worked on.\<close>

lemma unlogged_log: "unlogged m \<Longrightarrow> m st = (st', r) \<Longrightarrow> cs_log st' = cs_log st"
proof -
  assume "unlogged m" and run: "m st = (st', r)"
  then have "h_triple (\<lambda>x. cs_log x = cs_log st) m (\<lambda>_ x. cs_log x = cs_log st) (\<lambda>x. cs_log x = cs_log st)"
    unfolding unlogged_def by (auto dest!: spec [of _ "\<lambda>tr. tr = cs_log st"])
  from h_triple_apply [OF this refl run] show ?thesis
    by (simp split: sum.splits)
qed

lemma service_load_Some:
  assumes "service_load env d st = (st', Inr (Some s))"
  shows "\<exists>v. cs_log st' = cs_log st @ [GotDocument (policy_url (se_store env) d) v]
    \<and> decode (codec_of (se_store env)) v = Inr s \<and> st_deployment s = d"
proof -
  obtain token st1 where "ask_try (access_token env) st = (st1, Inr token)" and run: "load (se_store env) token d st1 = (st', Inr (Some s))"
    using assms by (auto simp: service_load_def h_bind_Inr)
  then have "cs_log st1 = cs_log st"
    by (intro unlogged_log [OF unlogged_ask_try])
  then show ?thesis
    using run by (auto simp: load_def Let_def h_bind_Inr h_lift_Inr ask_def log_event_def split: prod.splits if_splits)
qed

lemma require_admitted_reads:
  assumes "require_admitted env a st = (st', Inr ())"
  shows "\<exists>v s p. cs_log st' = cs_log st @ [GotDocument (policy_url (se_store env) (ad_deployment a)) v]
    \<and> decode (codec_of (se_store env)) v = Inr s \<and> st_policy s = Some p \<and> \<not> retired s \<and> \<not> deleted p
    \<and> version p = ad_version a"
proof -
  obtain s p where "service_load env (ad_deployment a) st = (st', Inr (Some s))"
      "st_policy s = Some p" "\<not> retired s" "\<not> deleted p" "version p = ad_version a"
    using assms by (auto simp: require_admitted_def Let_def h_bind_Inr h_lift_Inr res_simps)
  then show ?thesis
    using service_load_Some [of env "ad_deployment a" st st' s] by blast
qed

lemma service_resolve_reads:
  assumes "service_resolve env host path st = (st', Inr rp)"
  shows "\<exists>v s p wallets now. cs_log st' = cs_log st @ [GotDocument (policy_url (se_store env) (rp_deployment rp)) v]
    \<and> decode (codec_of (se_store env)) v = Inr s \<and> st_policy s = Some p \<and> version p = rp_version rp
    \<and> policy_resolve (bs58_address env) p (rp_deployment rp) wallets now = Inr (rp_allocations rp)"
proof -
  obtain d doc st1 st2 s p now st3 wallets st4 now' st5 allocations where
      steps: "payment_deployment_value env host (Some path) st = (st1, Inr (d, doc))" "service_load env d st1 = (st2, Inr (Some s))"
        "st_policy s = Some p" "clock env st2 = (st3, Inr now)"
        "service_wallets env d (policy_spec p) st3 = (st4, Inr wallets)" "clock env st4 = (st', Inr now')"
        "policy_resolve (bs58_address env) p d wallets now' = Inr allocations"
      and rp: "rp = \<lparr>rp_deployment = d, rp_version = version p, rp_price_micro_usd = price_micro_usd (policy_spec p),
        rp_expires_at = spec_expires_at (policy_spec p), rp_schemes = schemes (policy_spec p), rp_allocations = allocations\<rparr>"
    using assms by (auto simp: service_resolve_def h_bind_Inr h_lift_Inr res_simps split: if_splits)
  have "cs_log st1 = cs_log st" "cs_log st3 = cs_log st2" "cs_log st4 = cs_log st3" "cs_log st' = cs_log st4"
    using steps unlogged_log unlogged_selectors unlogged_clock by blast+
  then show ?thesis
    using service_load_Some [OF steps(2)] steps(3,7) rp by (auto intro!: exI [of _ wallets] exI [of _ now'])
qed

lemma same_version_same_policy:
  assumes "life_ordered cd vs" and "v \<in> set vs" and "v' \<in> set vs"
    and "decode cd v = Inr a" and "decode cd v' = Inr b" and "st_policy a = Some p" and "st_policy b = Some p'"
    and "version p = version p'"
  shows "p = p'"
proof -
  obtain i j where ij: "i < length vs" "v = vs ! i" "j < length vs" "v' = vs ! j"
    using assms(2,3) by (auto simp: in_set_conv_nth)
  have rel: "\<exists>a b. decode cd (vs ! m) = Inr a \<and> decode cd (vs ! n) = Inr b \<and> supersedes a b" if "m < n" "n < length vs" for m n
    using assms(1) that unfolding life_ordered_def by (auto simp: sorted_wrt_iff_nth_less)
  consider "i < j" | "i = j" | "j < i"
    by linarith
  then show ?thesis
  proof cases
    case 1
    then show ?thesis
      using rel [of i j] ij assms(4-8) by (auto simp: supersedes_def)
  next
    case 3
    then show ?thesis
      using rel [of j i] ij assms(4-8) by (auto simp: supersedes_def)
  qed (use ij assms(4-7) in auto)
qed

section \<open>A concrete life\<close>

text \<open>A deployment whose owner sets a price and changes it; the world is the document that a read finds.\<close>

definition shop :: deployment_identity where
  "shop = \<lparr>owner_key = ''0123456789abcdef'', resource_name = ''projects/p/locations/r/functions/gcf-0123456789abcdef-shop'',
     created_at = ''2026'', hostname = ''gcf-0123456789abcdef-shop.d''\<rparr>"

definition shop_policy :: "nat \<Rightarrow> nat \<Rightarrow> payment_policy" where
  "shop_policy v price = \<lparr>pol_deployment = shop, version = v, deleted = False, policy_spec = sample_spec price\<rparr>"

definition shop_codec :: policy_codec where
  "shop_codec = \<lparr>
     policy_to_json = (\<lambda>p. if p = shop_policy 1 50003 then Some ''one'' else if p = shop_policy 2 60000 then Some ''two'' else None),
     policy_from_json = (\<lambda>t. if t = ''one'' then Some (shop_policy 1 50003) else if t = ''two'' then Some (shop_policy 2 60000) else None),
     identity_to_json = (\<lambda>d. if d = shop then Some ''shop'' else None),
     identity_from_json = (\<lambda>t. if t = ''shop'' then Some shop else None),
     sha256_hex = (\<lambda>_. ''key'')\<rparr>"

definition shop_store :: "json option store_env" where
  "shop_store = \<lparr>codec_of = shop_codec, documents_url = ''https://f/v1/docs'',
     get_document = (\<lambda>w token url. (case w of None \<Rightarrow> Some (404, None) | Some v \<Rightarrow> Some (200, Some v), w)),
     patch_document = (\<lambda>w token url pre body. (Some (200, Some JNull), w)),
     delete_document = (\<lambda>w token url time. (Some (200, None), w)),
     list_documents = (\<lambda>w token pt. (None, w)), get_checkpoint = (\<lambda>w token url. (None, w)),
     patch_checkpoint = (\<lambda>w token url pre body. (None, w))\<rparr>"

definition shop_function :: json where
  "shop_function = JObject [(''name'', JString ''projects/p/locations/r/functions/gcf-0123456789abcdef-shop''),
     (''state'', JString ''ACTIVE''), (''createTime'', JString ''2026''),
     (''labels'', JObject [(''pay-tenant'', JString ''0123456789abcdef''), (''managed-by'', JString ''mcp-compute''),
        (''pay-exposure'', JString ''gateway''), (''pay-channel'', JString ''key'')]),
     (''serviceConfig'', JObject [(''environmentVariables'', JObject [(''PAY_INTERNAL_PUBLIC_PATHS'', JString ''paths'')])])]"

definition shop_wallets :: "owned_wallet list" where
  "shop_wallets = map (\<lambda>w. w\<lparr>ow_owner_key := ''0123456789abcdef''\<rparr>) sample_wallets"

definition shop_env :: "json option service_env" where
  "shop_env = \<lparr>se_store = shop_store,
     se_config = \<lparr>project = ''p'', default_region = ''r'', api_base = ''g'', gateway_domain = ''d'', has_policies = True\<rparr>,
     access_token = (\<lambda>w. (Inr ''token'', w)), identity_token = (\<lambda>w. (Inr (Some ''id''), w)),
     send_json = (\<lambda>w meth url. (Inr (200, shop_function), w)),
     post_wallets = (\<lambda>w token d refs. (Some (200, Some JNull), w)), wallets_from_json = (\<lambda>_. Some shop_wallets),
     paths_from_json = (\<lambda>_. Some [''/buy'']), bs58_address = sample_decode, rfc3339 = (\<lambda>_. Some 0), utc_now = (\<lambda>w. (1, w)),
     unix_now = (\<lambda>w. (Some 1, w)), runs_over = (\<lambda>w. (False, w)), cut_after = (\<lambda>w. (None, w)), status_text = (\<lambda>_. [])\<rparr>"

abbreviation shop_url :: string where
  "shop_url \<equiv> policy_url shop_store shop"

definition shop_document :: "string \<Rightarrow> string \<Rightarrow> json" where
  "shop_document policy_text time = JObject [(''fields'', JObject [(''identity'', JObject [(''stringValue'', JString ''shop'')]),
     (''policy'', JObject [(''stringValue'', JString policy_text)]), (''retired'', JObject [(''booleanValue'', JBool False)])]),
     (''updateTime'', JString time)]"

lemma shop_faithful: "codec_faithful (codec_of (se_store shop_env))"
  by (auto simp: codec_faithful_def shop_env_def shop_store_def shop_codec_def split: if_splits)

lemma shop_names:
  "strip_suffix ''.d'' ''gcf-0123456789abcdef-shop.d'' = Some ''gcf-0123456789abcdef-shop''"
  "validate_gateway_function_name ''gcf-0123456789abcdef-shop'' = Inr ()"
  "tenant_label_from_resource ''projects/p/locations/r/functions/gcf-0123456789abcdef-shop'' = Inr ''0123456789abcdef''"
  "list_all is_ascii_hexdigit ''0123456789abcdef''"
  "validate_public_paths [''/buy''] = Inr [''/buy'']" "path_is_public [''/buy''] ''/buy''"
  by code_simp+

lemma shop_value:
  assumes "path \<in> {None, Some ''/buy''}"
  shows "payment_deployment_value shop_env ''gcf-0123456789abcdef-shop.d'' path st = (st, Inr (shop, shop_function))"
  using assms shop_names(4)
  by (auto simp: payment_deployment_value_def Let_def shop_env_def shop_names h_bind_def h_lift_def ask_try_def ask_def function_path_def
      is_success_def shop_function_def json_str_at_def label_of_def json_value_simps non_empty_def shop_def)

definition shop_tenant :: tenant where
  "shop_tenant = \<lparr>tenant_key = ''0123456789abcdef'', channel_id = ''c''\<rparr>"

lemma shop_owned:
  "owned_payment_deployment shop_env shop_tenant ''gcf-0123456789abcdef-shop.d'' st = (st, Inr shop)"
  by (simp add: owned_payment_deployment_def h_bind_def h_lift_def shop_value)
    (simp add: shop_def shop_tenant_def require_deployment_lease_def channel_lease_key_def shop_env_def shop_store_def
      shop_codec_def shop_function_def label_of_def json_value_simps)

lemma shop_clock: "clock shop_env st = (st, Inr 1)"
  by (simp add: clock_def h_bind_def h_lift_def ask_def shop_env_def)

lemma shop_asks:
  "ask_try (access_token shop_env) st = (st, Inr ''token'')"
  "service_wallets shop_env shop spec st = (st, Inr shop_wallets)"
  by (simp_all add: service_wallets_def ask_try_def h_bind_def h_lift_def ask_def shop_env_def is_success_def)

lemma shop_fields:
  "encode_fields shop_codec \<lparr>st_deployment = shop, st_policy = Some (shop_policy 1 50003), retired = False, absent_since = None, update_time = time\<rparr>
     = Inr (the (json_get (shop_document ''one'' t) ''fields''))"
  "encode_fields shop_codec \<lparr>st_deployment = shop, st_policy = Some (shop_policy 2 60000), retired = False, absent_since = None, update_time = time\<rparr>
     = Inr (the (json_get (shop_document ''two'' t) ''fields''))"
  by (simp_all add: encode_fields_def shop_codec_def shop_document_def json_value_simps) (simp add: shop_policy_def)

lemma shop_decodes:
  "decode shop_codec (shop_document ''one'' ''t1'') = Inr \<lparr>st_deployment = shop, st_policy = Some (shop_policy 1 50003),
     retired = False, absent_since = None, update_time = ''t1''\<rparr>"
proof -
  have "decode shop_codec (shop_document ''one'' ''t1'') = Inr (\<lparr>st_deployment = shop, st_policy = Some (shop_policy 1 50003),
     retired = False, absent_since = None, update_time = []\<rparr>\<lparr>update_time := ''t1''\<rparr>)"
    by (rule decode_encode [OF _ _ shop_fields(1) [of _ "''t1''"]])
      (use shop_faithful in \<open>auto simp: shop_env_def shop_store_def stored_wf_def shop_policy_def document_holds_def shop_document_def json_value_simps\<close>)
  then show ?thesis
    by simp
qed

lemma shop_load:
  "load shop_store token shop \<lparr>cs_world = None, cs_log = tr\<rparr> = (\<lparr>cs_world = None, cs_log = tr\<rparr>, Inr None)"
  "load shop_store token shop \<lparr>cs_world = Some (shop_document ''one'' ''t1''), cs_log = tr\<rparr>
     = (\<lparr>cs_world = Some (shop_document ''one'' ''t1''), cs_log = tr @ [GotDocument shop_url (shop_document ''one'' ''t1'')]\<rparr>,
        Inr (Some \<lparr>st_deployment = shop, st_policy = Some (shop_policy 1 50003), retired = False, absent_since = None, update_time = ''t1''\<rparr>))"
  using shop_decodes
  by (simp_all add: load_def h_bind_def h_lift_def ask_def log_event_def shop_store_def Let_def reply_json_def check_def is_success_def)

lemma shop_resolves:
  assumes "price \<in> {50003, 60000}" and "0 < v"
  shows "\<exists>allocations. policy_resolve sample_decode (shop_policy v price) shop shop_wallets 1 = Inr allocations"
proof -
  have wallets: "try_fold (resolve_wallet sample_decode shop shop_wallets) []
      [sample_reference ''infra'', sample_reference ''tax'', sample_reference ''profit''] = Inr [''infra'', ''tax'', ''profit'']"
    by (simp add: resolve_wallet_def shop_wallets_def sample_wallets_def shop_def sample_reference_def)
  have "price_micro_usd (policy_spec (shop_policy v price)) < 2 ^ 64" "spec_validate (sample_spec price) 1 = Inr ()"
    using assms by (auto simp: shop_policy_def sample_spec_valid) (auto simp: sample_spec_def)
  then show ?thesis
    using wallets assms
    by (subst policy_resolve_eq) (auto simp: shop_policy_def Let_def sample_spec_def)
qed

lemma shop_revisions:
  "revision None shop (sample_spec 50003) 0 1 = Inr (shop_policy 1 50003)"
  "revision (Some (shop_policy 1 50003)) shop (sample_spec 60000) 1 1 = Inr (shop_policy 2 60000)"
  using sample_spec_valid [of 50003 1] sample_spec_valid [of 60000 1]
  by (simp_all add: revision_def shop_policy_def checked_add_def) (simp_all add: shop_def sample_spec_def)

lemma shop_parts:
  "se_store shop_env = shop_store" "bs58_address shop_env = sample_decode" "codec_of shop_store = shop_codec"
  "policy_spec (shop_policy v price) = sample_spec price"
  by (simp_all add: shop_env_def shop_store_def shop_policy_def)

abbreviation shop_write :: "nat \<Rightarrow> nat \<Rightarrow> stored_policy" where
  "shop_write v price \<equiv> \<lparr>st_deployment = shop, st_policy = Some (shop_policy v price), retired = False, absent_since = None, update_time = []\<rparr>"

lemma shop_writes:
  "write_policy shop_store token None (shop_write 1 50003) \<lparr>cs_world = w, cs_log = tr\<rparr>
     = (\<lparr>cs_world = w, cs_log = tr @ [PatchDocument shop_url MustNotExist (the (json_get (shop_document ''one'' ''t1'') ''fields''))]\<rparr>, Inr ())"
  "write_policy shop_store token (Some \<lparr>st_deployment = shop, st_policy = Some (shop_policy 1 50003), retired = False,
       absent_since = None, update_time = ''t1''\<rparr>) (shop_write 2 60000) \<lparr>cs_world = w, cs_log = tr\<rparr>
     = (\<lparr>cs_world = w, cs_log = tr @ [PatchDocument shop_url (UpdateTimeIs ''t1'') (the (json_get (shop_document ''two'' ''t2'') ''fields''))]\<rparr>, Inr ())"
  unfolding write_policy_def shop_parts shop_fields(1) [of _ "''t1''"] shop_fields(2) [of _ "''t2''"]
  by (simp_all add: h_bind_def h_lift_def ask_def log_event_def Let_def check_def is_success_def write_allowed_def)
    (simp_all add: shop_store_def shop_policy_def is_success_def)

lemma shop_set:
  "\<exists>st' r. service_set shop_env shop_tenant ''gcf-0123456789abcdef-shop.d'' 0 (sample_spec 50003) \<lparr>cs_world = None, cs_log = []\<rparr> = (st', r)
     \<and> cs_log st' = [PatchDocument shop_url MustNotExist (the (json_get (shop_document ''one'' ''t1'') ''fields''))]"
  "\<exists>st' r. service_set shop_env shop_tenant ''gcf-0123456789abcdef-shop.d'' 1 (sample_spec 60000)
       \<lparr>cs_world = Some (shop_document ''one'' ''t1''), cs_log = []\<rparr> = (st', r)
     \<and> cs_log st' = [GotDocument shop_url (shop_document ''one'' ''t1''),
         PatchDocument shop_url (UpdateTimeIs ''t1'') (the (json_get (shop_document ''two'' ''t2'') ''fields''))]"
proof -
  obtain a1 where "policy_resolve sample_decode (shop_policy 1 50003) shop shop_wallets 1 = Inr a1"
    using shop_resolves [of 50003 1] by auto
  then show "\<exists>st' r. service_set shop_env shop_tenant ''gcf-0123456789abcdef-shop.d'' 0 (sample_spec 50003) \<lparr>cs_world = None, cs_log = []\<rparr> = (st', r)
     \<and> cs_log st' = [PatchDocument shop_url MustNotExist (the (json_get (shop_document ''one'' ''t1'') ''fields''))]"
    using shop_revisions(1) sample_spec_valid [of 50003 1] shop_writes(1) [of "''token''" None "[]"]
    by (simp add: service_set_def service_load_def h_bind_def shop_owned shop_clock h_lift_def shop_asks shop_parts shop_load)
  obtain a2 where "policy_resolve sample_decode (shop_policy 2 60000) shop shop_wallets 1 = Inr a2"
    using shop_resolves [of 60000 2] by auto
  moreover have "shop_policy 1 50003 \<noteq> shop_policy 2 60000"
    by (simp add: shop_policy_def)
  ultimately show "\<exists>st' r. service_set shop_env shop_tenant ''gcf-0123456789abcdef-shop.d'' 1 (sample_spec 60000)
       \<lparr>cs_world = Some (shop_document ''one'' ''t1''), cs_log = []\<rparr> = (st', r)
     \<and> cs_log st' = [GotDocument shop_url (shop_document ''one'' ''t1''),
         PatchDocument shop_url (UpdateTimeIs ''t1'') (the (json_get (shop_document ''two'' ''t2'') ''fields''))]"
    using shop_revisions(2) sample_spec_valid [of 60000 1]
      shop_writes(2) [of "''token''" "Some (shop_document ''one'' ''t1'')" "[GotDocument shop_url (shop_document ''one'' ''t1'')]"]
      shop_load(2) [of "''token''" "[]"]
    by (simp add: service_set_def service_load_def h_bind_def shop_owned shop_clock h_lift_def shop_asks shop_parts)
qed

lemma shop_first: "policy_store shop_env (put_document empty_store shop_url (shop_document ''one'' ''t1''))"
proof -
  obtain st' r where "service_set shop_env shop_tenant ''gcf-0123456789abcdef-shop.d'' 0 (sample_spec 50003) \<lparr>cs_world = None, cs_log = []\<rparr> = (st', r)"
      and tr: "cs_log st' = [PatchDocument shop_url MustNotExist (the (json_get (shop_document ''one'' ''t1'') ''fields''))]"
    using shop_set(1) by blast
  then have "sends shop_env ([] @ PatchDocument shop_url MustNotExist (the (json_get (shop_document ''one'' ''t1'') ''fields'')) # [])"
    using sends.by_set by fastforce
  from policy_store.patched [OF policy_store.no_documents this, of "shop_document ''one'' ''t1''" "''t1''"] show ?thesis
    by (simp add: reads_from_def precondition_holds_def empty_store_def document_holds_def shop_document_def json_value_simps)
qed

lemma shop_second:
  "policy_store shop_env (put_document (put_document empty_store shop_url (shop_document ''one'' ''t1'')) shop_url (shop_document ''two'' ''t2''))"
proof -
  obtain st' r where "service_set shop_env shop_tenant ''gcf-0123456789abcdef-shop.d'' 1 (sample_spec 60000)
       \<lparr>cs_world = Some (shop_document ''one'' ''t1''), cs_log = []\<rparr> = (st', r)"
      and tr: "cs_log st' = [GotDocument shop_url (shop_document ''one'' ''t1''),
         PatchDocument shop_url (UpdateTimeIs ''t1'') (the (json_get (shop_document ''two'' ''t2'') ''fields''))]"
    using shop_set(2) by blast
  then have "sends shop_env ([GotDocument shop_url (shop_document ''one'' ''t1'')]
      @ PatchDocument shop_url (UpdateTimeIs ''t1'') (the (json_get (shop_document ''two'' ''t2'') ''fields'')) # [])"
    using sends.by_set by fastforce
  from policy_store.patched [OF shop_first this, of "shop_document ''two'' ''t2''" "''t2''"] show ?thesis
    by (simp add: reads_from_def precondition_holds_def has_update_time_def put_document_def empty_store_def document_holds_def
        shop_document_def json_value_simps)
qed

section \<open>Properties\<close>

text \<open>
  C12: the documents of a selling policy supersede each other in order, whatever the interleaving of
  owners, deletions and the reconciler. In one life of a document, of any two of its states the later
  one belongs to the same deployment, has a policy if the earlier had one, at a version that is not
  smaller and with the very same policy if the versions are equal, and stays retired with an unchanged
  policy once the earlier is retired.
\<close>
theorem policy_versions_identify_policies:
  assumes "policy_store env s" and "codec_faithful (codec_of (se_store env))" and "i < j" and "j < length (life s url)"
  shows "\<exists>a b. decode (codec_of (se_store env)) (life s url ! i) = Inr a \<and> decode (codec_of (se_store env)) (life s url ! j) = Inr b
    \<and> st_deployment b = st_deployment a
    \<and> (\<forall>p. st_policy a = Some p \<longrightarrow> (\<exists>p'. st_policy b = Some p' \<and> version p \<le> version p' \<and> (version p = version p' \<longrightarrow> p' = p)))
    \<and> (retired a \<longrightarrow> retired b \<and> st_policy b = st_policy a)"
proof -
  have "life_ordered (codec_of (se_store env)) (life s url)"
    by (rule store_invD(5) [OF policy_store_inv [OF assms(1,2)]])
  then obtain a b where ab: "decode (codec_of (se_store env)) (life s url ! i) = Inr a" "decode (codec_of (se_store env)) (life s url ! j) = Inr b"
      and "supersedes a b"
    using sorted_wrt_nth_less [OF _ assms(3,4)] unfolding life_ordered_def by blast
  from this(3) show ?thesis
    by (intro exI [of _ a] exI [of _ b]) (auto simp: ab supersedes_def)
qed

theorem policy_versions_identify_policies_witness:
  "\<exists>s. policy_store shop_env s \<and> length (life s shop_url) = 2
     \<and> (\<exists>a b. decode shop_codec (life s shop_url ! 0) = Inr a \<and> decode shop_codec (life s shop_url ! 1) = Inr b
          \<and> st_deployment b = st_deployment a)"
proof -
  let ?s = "put_document (put_document empty_store shop_url (shop_document ''one'' ''t1'')) shop_url (shop_document ''two'' ''t2'')"
  have "length (life ?s shop_url) = 2"
    by (simp add: put_document_def empty_store_def)
  then show ?thesis
    using shop_second policy_versions_identify_policies [OF shop_second shop_faithful, of 0 1 shop_url] by (auto simp: shop_parts)
qed

text \<open>
  C13: a request is served under the policy that was resolved for it. Suppose the gate resolved a price
  for a request and, at any later time in the same life of the document, \<open>require_admitted\<close> accepts what
  it admitted. Then both read documents with the same policy, which is neither deleted nor retired, and
  the allocations of the admitted price are those of that policy.
\<close>
theorem admitted_request_meets_resolved_policy:
  assumes "policy_store env s" and "codec_faithful (codec_of (se_store env))"
    and "service_resolve env host path st = (st', Inr rp)" and "cs_log st = []"
    and "require_admitted env \<lparr>ad_deployment = rp_deployment rp, ad_version = rp_version rp,
       ad_price_micro_usd = rp_price_micro_usd rp\<rparr> st2 = (st2', Inr ())" and "cs_log st2 = []"
    and "\<And>url v. GotDocument url v \<in> set (cs_log st' @ cs_log st2') \<Longrightarrow> v \<in> set (life s url)"
  shows "\<exists>url v v' old now p wallets time. cs_log st' = [GotDocument url v] \<and> cs_log st2' = [GotDocument url v']
    \<and> decode (codec_of (se_store env)) v = Inr old \<and> decode (codec_of (se_store env)) v' = Inr now
    \<and> st_policy old = Some p \<and> st_policy now = Some p \<and> \<not> retired now \<and> \<not> deleted p
    \<and> policy_resolve (bs58_address env) p (rp_deployment rp) wallets time = Inr (rp_allocations rp)"
proof -
  let ?url = "policy_url (se_store env) (rp_deployment rp)" and ?cd = "codec_of (se_store env)"
  obtain v old p wallets time where v: "cs_log st' = [GotDocument ?url v]" "decode ?cd v = Inr old" "st_policy old = Some p"
      "version p = rp_version rp" "policy_resolve (bs58_address env) p (rp_deployment rp) wallets time = Inr (rp_allocations rp)"
    using service_resolve_reads [OF assms(3)] assms(4) by auto
  obtain v' now p' where v': "cs_log st2' = [GotDocument ?url v']" "decode ?cd v' = Inr now" "st_policy now = Some p'"
      "\<not> retired now" "\<not> deleted p'" "version p' = rp_version rp"
    using require_admitted_reads [OF assms(5)] assms(6) by auto
  have "p = p'"
    by (rule same_version_same_policy [OF store_invD(5) [OF policy_store_inv [OF assms(1,2)], of ?url] _ _ v(2) v'(2) v(3) v'(3)])
      (use assms(7) v(1,4) v'(1,6) in auto)
  then show ?thesis
    using v v' by blast
qed

theorem admitted_request_meets_resolved_policy_witness:
  "\<exists>st' rp st2'. service_resolve shop_env ''gcf-0123456789abcdef-shop.d'' ''/buy'' \<lparr>cs_world = Some (shop_document ''one'' ''t1''), cs_log = []\<rparr>
        = (st', Inr rp)
     \<and> require_admitted shop_env \<lparr>ad_deployment = rp_deployment rp, ad_version = rp_version rp, ad_price_micro_usd = rp_price_micro_usd rp\<rparr>
        \<lparr>cs_world = Some (shop_document ''one'' ''t1''), cs_log = []\<rparr> = (st2', Inr ())
     \<and> (\<exists>p wallets time. \<not> deleted p \<and> policy_resolve sample_decode p (rp_deployment rp) wallets time = Inr (rp_allocations rp))"
proof -
  let ?st = "\<lparr>cs_world = Some (shop_document ''one'' ''t1''), cs_log = []\<rparr>"
  let ?log = "[GotDocument shop_url (shop_document ''one'' ''t1'')]"
  let ?s = "put_document empty_store shop_url (shop_document ''one'' ''t1'')"
  obtain a where a: "policy_resolve sample_decode (shop_policy 1 50003) shop shop_wallets 1 = Inr a"
    using shop_resolves [of 50003 1] by auto
  define rp where "rp = \<lparr>rp_deployment = shop, rp_version = 1, rp_price_micro_usd = 50003, rp_expires_at = 100,
     rp_schemes = [''mpp-session''], rp_allocations = a\<rparr>"
  have parts: "version (shop_policy v price) = v" "\<not> deleted (shop_policy v price)" "pol_deployment (shop_policy v price) = shop"
    for v price
    by (simp_all add: shop_policy_def)
  have resolved: "service_resolve shop_env ''gcf-0123456789abcdef-shop.d'' ''/buy'' ?st = (?st\<lparr>cs_log := ?log\<rparr>, Inr rp)"
    using a sample_spec_valid [of 50003 1] shop_load(2) [of "''token''" "[]"]
    by (simp add: service_resolve_def service_load_def h_bind_def shop_value h_lift_def shop_asks shop_clock shop_parts rp_def parts)
      (simp add: sample_spec_def)
  have admitted: "require_admitted shop_env \<lparr>ad_deployment = rp_deployment rp, ad_version = rp_version rp,
      ad_price_micro_usd = rp_price_micro_usd rp\<rparr> ?st = (?st\<lparr>cs_log := ?log\<rparr>, Inr ())"
    using shop_load(2) [of "''token''" "[]"]
    by (simp add: require_admitted_def Let_def service_load_def h_bind_def h_lift_def shop_asks shop_parts rp_def parts)
      (simp add: sample_spec_def)
  have "\<exists>p wallets time. \<not> deleted p \<and> policy_resolve sample_decode p (rp_deployment rp) wallets time = Inr (rp_allocations rp)"
    using admitted_request_meets_resolved_policy [OF shop_first shop_faithful resolved _ admitted]
    by (auto simp: put_document_def empty_store_def shop_parts)
  then show ?thesis
    using resolved admitted by blast
qed

end
