(* ===== verification/Api_Rpc.thy ===== *)
theory Api_Rpc
  imports Json_Value Token_Amount
begin

text \<open>
  The JSON-RPC client of the payment API (\<^verbatim>\<open>src/rust/crates/pay-api-core/src/rpc.rs\<close>) and its errors
  (\<^verbatim>\<open>error.rs\<close>). HTTP, the clock, sleeping, base64 and base58 are the record \<open>rpc_http\<close> on an opaque world.

  The lemmas show that a signature is reported as confirmed only on a node's word for the asked
  commitment, and that waiting for it ends: each round sleeps at least 400 milliseconds, so a clock that
  moves reaches the deadline.
\<close>

section \<open>Errors\<close>

text \<open>\<open>PollsExhausted\<close> stands for a wait that is still going on when the fuel of the model is used up.\<close>

datatype api_error =
    ApiInvalidAddress
  | ApiInvalidMint string string
  | ApiInvalidCreditProgram string
  | ApiNetworkNotConfigured string
  | ApiSendNotConfigured string
  | ApiUnsupportedCurrency string
  | ApiInvalidAmount string
  | ApiPriceUnavailable
  | ApiPaymentChallenge
  | ApiInvalidPaymentCredential
  | ApiConflict string
  | ApiFeePayerSigner
  | ApiUnknownNetwork string
  | RpcTransport
  | RpcTimeout nat
  | RpcRateLimited
  | RpcResponse string
  | RpcMalformed
  | TokenAccountDecode
  | CreditAccountDecode
  | PollsExhausted

definition api_http_status :: "api_error \<Rightarrow> nat" where
  "api_http_status e =
     (case e of
        ApiInvalidAddress \<Rightarrow> 400 | ApiInvalidMint _ _ \<Rightarrow> 400 | ApiInvalidCreditProgram _ \<Rightarrow> 400
      | ApiInvalidAmount _ \<Rightarrow> 400 | ApiUnsupportedCurrency _ \<Rightarrow> 400 | ApiUnknownNetwork _ \<Rightarrow> 400
      | ApiNetworkNotConfigured _ \<Rightarrow> 400
      | ApiSendNotConfigured _ \<Rightarrow> 503
      | RpcRateLimited \<Rightarrow> 429
      | ApiInvalidPaymentCredential \<Rightarrow> 402
      | ApiConflict _ \<Rightarrow> 409
      | RpcTimeout _ \<Rightarrow> 504
      | _ \<Rightarrow> 502)"

section \<open>Calls\<close>

text \<open>An HTTP answer: a time-out, another transport error, or a status with a body that is JSON or not.\<close>

datatype http_answer =
    TimedOut
  | NotSent
  | Answered nat "json option"

record 'w rpc_http =
  http_post :: "'w \<Rightarrow> string \<Rightarrow> json \<Rightarrow> http_answer \<times> 'w"
  http_timeout_ms :: nat
  instant :: "'w \<Rightarrow> nat \<times> 'w"
  sleep_ms :: "'w \<Rightarrow> nat \<Rightarrow> 'w"
  base64_bytes :: "string \<Rightarrow> bytes option"
  bs58_text :: "bytes \<Rightarrow> string"
  status_text :: "nat \<Rightarrow> string"
  value_text :: "json \<Rightarrow> string"

type_synonym ('w, 'a) rpc = "('w, api_error, 'a) handler"

definition world_call :: "('w \<Rightarrow> 'a \<times> 'w) \<Rightarrow> ('w, 'e, 'a) handler" where
  "world_call f w = (case f w of (a, w') \<Rightarrow> (w', Inr a))"

definition rpc_body :: "string \<Rightarrow> json list \<Rightarrow> json" where
  "rpc_body method params = JObject [(''jsonrpc'', JString ''2.0''), (''id'', JNumber 1),
     (''method'', JString method), (''params'', JArray params)]"

definition http_body :: "'w rpc_http \<Rightarrow> http_answer \<Rightarrow> api_error + json" where
  "http_body http answer =
     (case answer of
        TimedOut \<Rightarrow> Inl (RpcTimeout (http_timeout_ms http))
      | NotSent \<Rightarrow> Inl RpcTransport
      | Answered status body \<Rightarrow>
          if status = 429 then Inl RpcRateLimited
          else if \<not> (200 \<le> status \<and> status < 300) then Inl (RpcResponse (''HTTP '' @ status_text http status))
          else ok_or RpcTransport body)"

text \<open>
  The member \<open>error\<close> of an envelope: absent or null is none, else an object with a message. Envelopes are
  objects; anything else does not deserialize.
\<close>

definition envelope_error :: "json \<Rightarrow> api_error + string option" where
  "envelope_error envelope =
     (case envelope of
        JObject _ \<Rightarrow>
          (case json_get envelope ''error'' of
             None \<Rightarrow> Inr None
           | Some JNull \<Rightarrow> Inr None
           | Some err \<Rightarrow> map_err (\<lambda>_. RpcTransport) (ok_or () (map_option Some (json_str_at err ''message''))))
      | _ \<Rightarrow> Inl RpcTransport)"

definition envelope_result :: "json \<Rightarrow> api_error + json" where
  "envelope_result envelope =
     and_then (envelope_error envelope) (\<lambda>err.
     case err of
       Some message \<Rightarrow> Inl (RpcResponse message)
     | None \<Rightarrow> ok_or RpcMalformed (json_get envelope ''result''))"

definition post_rpc_value :: "'w rpc_http \<Rightarrow> string \<Rightarrow> json \<Rightarrow> ('w, json) rpc" where
  "post_rpc_value http url body =
     h_bind (world_call (\<lambda>w. http_post http w url body)) (\<lambda>answer.
     h_lift (and_then (http_body http answer) envelope_result))"

datatype commitment = Confirmed | Finalized

definition commitment_str :: "commitment \<Rightarrow> string" where
  "commitment_str c = (case c of Confirmed \<Rightarrow> ''confirmed'' | Finalized \<Rightarrow> ''finalized'')"

definition reaches_commitment :: "string \<Rightarrow> commitment \<Rightarrow> bool" where
  "reaches_commitment status c =
     (case c of
        Confirmed \<Rightarrow> status = ''confirmed'' \<or> status = ''finalized''
      | Finalized \<Rightarrow> status = ''finalized'')"

definition at_commitment :: "commitment \<Rightarrow> json" where
  "at_commitment c = JObject [(''commitment'', JString (commitment_str c))]"

section \<open>Accounts\<close>

text \<open>
  The typed envelope of \<open>getMultipleAccounts\<close>: an account is null or an object whose \<open>data\<close> lists strings;
  a null result counts as missing.
\<close>

definition rpc_account :: "json \<Rightarrow> api_error + string list option" where
  "rpc_account entry =
     (if entry = JNull then Inr None
      else map_err (\<lambda>_. RpcTransport) (ok_or ()
        (map_option Some (Option.bind (Option.bind (json_get entry ''data'') json_as_array)
           (\<lambda>ds. those (map json_as_str ds))))))"

definition accounts_envelope :: "json \<Rightarrow> api_error + string list option list option" where
  "accounts_envelope envelope =
     (case json_get envelope ''result'' of
        None \<Rightarrow> Inr None
      | Some JNull \<Rightarrow> Inr None
      | Some result \<Rightarrow>
          and_then (ok_or RpcTransport (Option.bind (json_get result ''value'') json_as_array)) (\<lambda>found.
          and_then (collect_results (map rpc_account found)) (\<lambda>accounts. Inr (Some accounts))))"

definition account_data :: "'w rpc_http \<Rightarrow> string list option \<Rightarrow> api_error + bytes option" where
  "account_data http account =
     (case account of
        None \<Rightarrow> Inr None
      | Some [] \<Rightarrow> Inl RpcMalformed
      | Some (b64 # _) \<Rightarrow> and_then (ok_or RpcMalformed (base64_bytes http b64)) (\<lambda>bytes. Inr (Some bytes)))"

definition get_multiple_accounts :: "'w rpc_http \<Rightarrow> string \<Rightarrow> string list \<Rightarrow> ('w, bytes option list) rpc" where
  "get_multiple_accounts http url addresses =
     h_bind (world_call (\<lambda>w. http_post http w url (rpc_body ''getMultipleAccounts''
       [JArray (map JString addresses),
        JObject [(''commitment'', JString ''confirmed''), (''encoding'', JString ''base64'')]]))) (\<lambda>answer.
     h_lift (
       and_then (http_body http answer) (\<lambda>envelope.
       and_then (envelope_error envelope) (\<lambda>err.
       and_then (accounts_envelope envelope) (\<lambda>accounts.
       case err of
         Some message \<Rightarrow> Inl (RpcResponse message)
       | None \<Rightarrow>
           and_then (ok_or RpcMalformed accounts) (\<lambda>accounts.
           collect_results (map (account_data http) accounts)))))))"

record account_info =
  ai_owner :: string
  ai_data :: bytes

definition multiple_accounts_body :: "string list \<Rightarrow> commitment \<Rightarrow> json" where
  "multiple_accounts_body addresses c = rpc_body ''getMultipleAccounts''
     [JArray (map JString addresses),
      JObject [(''commitment'', JString (commitment_str c)), (''encoding'', JString ''base64'')]]"

definition parse_account_with_owner :: "'w rpc_http \<Rightarrow> json \<Rightarrow> api_error + account_info option" where
  "parse_account_with_owner http entry =
     (if entry = JNull then Inr None
      else
        and_then (ok_or RpcMalformed (json_str_at entry ''owner'')) (\<lambda>owner.
        and_then (ok_or RpcMalformed (Option.bind (Option.bind (json_get entry ''data'') json_as_array)
          (\<lambda>ds. case ds of [] \<Rightarrow> None | d # _ \<Rightarrow> json_as_str d))) (\<lambda>b64.
        and_then (ok_or RpcMalformed (base64_bytes http b64)) (\<lambda>bytes.
        Inr (Some \<lparr>ai_owner = owner, ai_data = bytes\<rparr>)))))"

definition parse_accounts_with_owner :: "'w rpc_http \<Rightarrow> json \<Rightarrow> api_error + account_info option list" where
  "parse_accounts_with_owner http result =
     and_then (ok_or RpcMalformed (Option.bind (json_get result ''value'') json_as_array)) (\<lambda>found.
     collect_results (map (parse_account_with_owner http) found))"

definition get_multiple_accounts_with_owner ::
  "'w rpc_http \<Rightarrow> string \<Rightarrow> string list \<Rightarrow> ('w, account_info option list) rpc" where
  "get_multiple_accounts_with_owner http url addresses =
     h_bind (post_rpc_value http url (multiple_accounts_body addresses Confirmed)) (\<lambda>result.
     h_lift (parse_accounts_with_owner http result))"

definition get_multiple_accounts_with_owner_at ::
  "'w rpc_http \<Rightarrow> string \<Rightarrow> string list \<Rightarrow> commitment \<Rightarrow> ('w, nat \<times> account_info option list) rpc" where
  "get_multiple_accounts_with_owner_at http url addresses c =
     h_bind (post_rpc_value http url (multiple_accounts_body addresses c)) (\<lambda>result.
     h_lift (
       and_then (ok_or RpcMalformed (Option.bind (json_pointer result [''context'', ''slot'']) json_as_u64)) (\<lambda>slot.
       and_then (parse_accounts_with_owner http result) (\<lambda>accounts. Inr (slot, accounts)))))"

definition get_slot :: "'w rpc_http \<Rightarrow> string \<Rightarrow> ('w, nat) rpc" where
  "get_slot http url =
     h_bind (post_rpc_value http url (rpc_body ''getSlot'' [at_commitment Confirmed])) (\<lambda>result.
     h_lift (ok_or RpcMalformed (json_as_u64 result)))"

text \<open>The pointer token \<open>0\<close>: the first element of an array, or the member of that name.\<close>

definition json_zeroth :: "json \<Rightarrow> json option" where
  "json_zeroth v =
     (case v of JArray (x # _) \<Rightarrow> Some x | JObject members \<Rightarrow> map_of members ''0'' | _ \<Rightarrow> None)"

record program_account =
  pa_pubkey :: string
  pa_data :: bytes

definition parse_program_account :: "'w rpc_http \<Rightarrow> json \<Rightarrow> api_error + program_account" where
  "parse_program_account http entry =
     and_then (ok_or RpcMalformed (json_str_at entry ''pubkey'')) (\<lambda>key.
     and_then (ok_or RpcMalformed (Option.bind (Option.bind (json_pointer entry [''account'', ''data'']) json_zeroth) json_as_str)) (\<lambda>b64.
     and_then (ok_or RpcMalformed (base64_bytes http b64)) (\<lambda>bytes.
     Inr \<lparr>pa_pubkey = key, pa_data = bytes\<rparr>)))"

definition get_program_accounts_filtered ::
  "'w rpc_http \<Rightarrow> string \<Rightarrow> string \<Rightarrow> nat \<Rightarrow> nat \<Rightarrow> bytes \<Rightarrow> ('w, program_account list) rpc" where
  "get_program_accounts_filtered http url program_key data_size offset bytes =
     h_bind (post_rpc_value http url (rpc_body ''getProgramAccounts''
       [JString program_key,
        JObject [(''commitment'', JString ''confirmed''), (''encoding'', JString ''base64''),
          (''filters'', JArray [JObject [(''dataSize'', JNumber (int data_size))],
             JObject [(''memcmp'', JObject [(''offset'', JNumber (int offset)),
                (''bytes'', JString (bs58_text http bytes))])]])]])) (\<lambda>result.
     h_lift (
       and_then (ok_or RpcMalformed (json_as_array result)) (\<lambda>found.
       collect_results (map (parse_program_account http) found))))"

section \<open>Signatures and transactions\<close>

definition history_options :: "string option \<Rightarrow> nat \<Rightarrow> json" where
  "history_options before limit =
     JObject ([(''limit'', JNumber (int limit)), (''commitment'', JString ''confirmed'')]
       @ (case before of None \<Rightarrow> [] | Some s \<Rightarrow> [(''before'', JString s)]))"

definition get_signatures_for_address ::
  "'w rpc_http \<Rightarrow> string \<Rightarrow> string \<Rightarrow> string option \<Rightarrow> nat \<Rightarrow> ('w, string list) rpc" where
  "get_signatures_for_address http url address before limit =
     h_bind (post_rpc_value http url
       (rpc_body ''getSignaturesForAddress'' [JString address, history_options before limit])) (\<lambda>result.
     h_lift (
       and_then (ok_or RpcMalformed (json_as_array result)) (\<lambda>found.
       collect_results (map (\<lambda>entry. ok_or RpcMalformed (json_str_at entry ''signature'')) found))))"

record signature_info =
  si_signature :: string
  si_slot :: nat
  si_failed :: bool

definition parse_signature_info :: "json \<Rightarrow> api_error + signature_info" where
  "parse_signature_info entry =
     and_then (ok_or RpcMalformed (json_str_at entry ''signature'')) (\<lambda>signature.
     and_then (ok_or RpcMalformed (json_u64_at entry ''slot'')) (\<lambda>slot.
     Inr \<lparr>si_signature = signature, si_slot = slot,
          si_failed = (case json_get entry ''err'' of Some err \<Rightarrow> err \<noteq> JNull | None \<Rightarrow> False)\<rparr>))"

definition get_signature_infos_for_address ::
  "'w rpc_http \<Rightarrow> string \<Rightarrow> string \<Rightarrow> string option \<Rightarrow> nat \<Rightarrow> ('w, signature_info list) rpc" where
  "get_signature_infos_for_address http url address before limit =
     h_bind (post_rpc_value http url
       (rpc_body ''getSignaturesForAddress'' [JString address, history_options before limit])) (\<lambda>result.
     h_lift (
       and_then (ok_or RpcMalformed (json_as_array result)) (\<lambda>found.
       collect_results (map parse_signature_info found))))"

definition get_transaction_body :: "string \<Rightarrow> string \<Rightarrow> json" where
  "get_transaction_body signature encoding = rpc_body ''getTransaction''
     [JString signature, JObject [(''commitment'', JString ''confirmed''), (''encoding'', JString encoding),
        (''maxSupportedTransactionVersion'', JNumber 1)]]"

definition get_transaction_json_parsed :: "'w rpc_http \<Rightarrow> string \<Rightarrow> string \<Rightarrow> ('w, json option) rpc" where
  "get_transaction_json_parsed http url signature =
     h_bind (post_rpc_value http url (get_transaction_body signature ''jsonParsed'')) (\<lambda>result.
     h_lift (Inr (if result = JNull then None else Some result)))"

definition get_transaction_base64 :: "'w rpc_http \<Rightarrow> string \<Rightarrow> string \<Rightarrow> ('w, string option) rpc" where
  "get_transaction_base64 http url signature =
     h_bind (post_rpc_value http url (get_transaction_body signature ''base64'')) (\<lambda>result.
     h_lift (
       if result = JNull then Inr None
       else
         and_then (ok_or RpcMalformed (Option.bind (Option.bind (json_get result ''transaction'') json_zeroth) json_as_str)) (\<lambda>b64. Inr (Some b64))))"

definition statuses_body :: "string list \<Rightarrow> json" where
  "statuses_body signatures = rpc_body ''getSignatureStatuses''
     [JArray (map JString signatures), JObject [(''searchTransactionHistory'', JBool True)]]"

definition get_signature_status :: "'w rpc_http \<Rightarrow> string \<Rightarrow> string \<Rightarrow> ('w, json option) rpc" where
  "get_signature_status http url signature =
     h_bind (post_rpc_value http url (statuses_body [signature])) (\<lambda>result.
     h_lift (Inr (case Option.bind (json_get result ''value'') json_zeroth of
        Some entry \<Rightarrow> if entry = JNull then None else Some entry
      | None \<Rightarrow> None)))"

definition api_signature_statuses :: "'w rpc_http \<Rightarrow> string \<Rightarrow> string list \<Rightarrow> ('w, nat \<times> json list) rpc" where
  "api_signature_statuses http url signatures =
     h_bind (post_rpc_value http url (statuses_body signatures)) (\<lambda>result.
     h_lift (
       and_then (ok_or RpcMalformed (Option.bind (json_pointer result [''context'', ''slot'']) json_as_u64)) (\<lambda>slot.
       and_then (ok_or RpcMalformed (Option.bind (Option.bind (json_get result ''value'') json_as_array)
         (\<lambda>found. if length found = length signatures then Some found else None))) (\<lambda>found.
       Inr (slot, found)))))"

definition get_finalized_tip :: "'w rpc_http \<Rightarrow> string \<Rightarrow> ('w, nat \<times> nat) rpc" where
  "get_finalized_tip http url =
     h_bind (post_rpc_value http url (rpc_body ''getEpochInfo'' [at_commitment Finalized])) (\<lambda>result.
     h_lift (case (json_u64_at result ''absoluteSlot'', json_u64_at result ''blockHeight'') of
        (Some slot, Some height) \<Rightarrow> Inr (slot, height)
      | _ \<Rightarrow> Inl RpcMalformed))"

definition get_minimum_balance_for_rent_exemption :: "'w rpc_http \<Rightarrow> string \<Rightarrow> nat \<Rightarrow> ('w, nat) rpc" where
  "get_minimum_balance_for_rent_exemption http url data_len =
     h_bind (post_rpc_value http url (rpc_body ''getMinimumBalanceForRentExemption'' [JNumber (int data_len)])) (\<lambda>result.
     h_lift (ok_or RpcMalformed (json_as_u64 result)))"

definition get_latest_blockhash :: "'w rpc_http \<Rightarrow> string \<Rightarrow> ('w, string) rpc" where
  "get_latest_blockhash http url =
     h_bind (post_rpc_value http url (rpc_body ''getLatestBlockhash'' [at_commitment Confirmed])) (\<lambda>result.
     h_lift (ok_or RpcMalformed (Option.bind (json_get result ''value'') (\<lambda>v. json_str_at v ''blockhash''))))"

definition get_latest_blockhash_with_last_valid_height :: "'w rpc_http \<Rightarrow> string \<Rightarrow> ('w, string \<times> nat) rpc" where
  "get_latest_blockhash_with_last_valid_height http url =
     h_bind (post_rpc_value http url (rpc_body ''getLatestBlockhash'' [at_commitment Confirmed])) (\<lambda>result.
     h_lift (
       and_then (ok_or RpcMalformed (json_get result ''value'')) (\<lambda>v.
       and_then (ok_or RpcMalformed (json_str_at v ''blockhash'')) (\<lambda>blockhash.
       and_then (ok_or RpcMalformed (json_u64_at v ''lastValidBlockHeight'')) (\<lambda>last_valid.
       Inr (blockhash, last_valid))))))"

definition get_finalized_block_height :: "'w rpc_http \<Rightarrow> string \<Rightarrow> ('w, nat) rpc" where
  "get_finalized_block_height http url =
     h_bind (post_rpc_value http url (rpc_body ''getBlockHeight'' [at_commitment Finalized])) (\<lambda>result.
     h_lift (ok_or RpcMalformed (json_as_u64 result)))"

definition send_raw_transaction :: "'w rpc_http \<Rightarrow> string \<Rightarrow> string \<Rightarrow> ('w, string) rpc" where
  "send_raw_transaction http url signed_tx =
     h_bind (post_rpc_value http url (rpc_body ''sendTransaction''
       [JString signed_tx, JObject [(''encoding'', JString ''base64''), (''skipPreflight'', JBool False),
          (''preflightCommitment'', JString ''confirmed''), (''maxRetries'', JNumber 0)]])) (\<lambda>result.
     h_lift (ok_or RpcMalformed (json_as_str result)))"

section \<open>Waiting for a signature\<close>

text \<open>The first entry of the array \<open>value\<close>, or null.\<close>

definition first_status :: "json \<Rightarrow> json" where
  "first_status result =
     (case Option.bind (json_get result ''value'') json_as_array of Some (entry # _) \<Rightarrow> entry | _ \<Rightarrow> JNull)"

text \<open>What one polled entry says: an error to return, confirmation, or nothing yet.\<close>

definition confirm_entry :: "'w rpc_http \<Rightarrow> commitment \<Rightarrow> json \<Rightarrow> (api_error + unit) option" where
  "confirm_entry http c entry =
     (if entry = JNull then None
      else
        case json_get entry ''err'' of
          Some err \<Rightarrow>
            if err \<noteq> JNull then Some (Inl (RpcResponse (''Transaction failed on-chain: '' @ value_text http err)))
            else if reaches_commitment (case json_str_at entry ''confirmationStatus'' of Some s \<Rightarrow> s | None \<Rightarrow> []) c
            then Some (Inr ()) else None
        | None \<Rightarrow>
            if reaches_commitment (case json_str_at entry ''confirmationStatus'' of Some s \<Rightarrow> s | None \<Rightarrow> []) c
            then Some (Inr ()) else None)"

fun confirm_loop ::
  "'w rpc_http \<Rightarrow> string \<Rightarrow> string \<Rightarrow> nat \<Rightarrow> commitment \<Rightarrow> nat \<Rightarrow> nat \<Rightarrow> nat \<Rightarrow> ('w, unit) rpc" where
  "confirm_loop http url signature max_wait c deadline backoff 0 = h_lift (Inl PollsExhausted)"
| "confirm_loop http url signature max_wait c deadline backoff (Suc fuel) =
     h_bind (post_rpc_value http url (statuses_body [signature])) (\<lambda>result.
     case confirm_entry http c (first_status result) of
       Some answer \<Rightarrow> h_lift answer
     | None \<Rightarrow>
         h_bind (world_call (instant http)) (\<lambda>now.
         if deadline \<le> now then h_lift (Inl (RpcTimeout max_wait))
         else
           h_bind (world_call (\<lambda>w. ((), sleep_ms http w backoff))) (\<lambda>_.
           confirm_loop http url signature max_wait c deadline (min (backoff * 2) 2000) fuel)))"

definition confirm_signature_at ::
  "nat \<Rightarrow> 'w rpc_http \<Rightarrow> string \<Rightarrow> string \<Rightarrow> nat \<Rightarrow> commitment \<Rightarrow> ('w, unit) rpc" where
  "confirm_signature_at fuel http url signature max_wait c =
     h_bind (world_call (instant http)) (\<lambda>now.
     confirm_loop http url signature max_wait c (now + max_wait) 400 fuel)"

definition confirm_signature :: "nat \<Rightarrow> 'w rpc_http \<Rightarrow> string \<Rightarrow> string \<Rightarrow> nat \<Rightarrow> ('w, unit) rpc" where
  "confirm_signature fuel http url signature max_wait =
     confirm_signature_at fuel http url signature max_wait Confirmed"

section \<open>Waiting ends, and confirms only on a node's word\<close>

lemma http_body_answers: "http_body http answer \<noteq> Inl PollsExhausted"
  by (cases answer) (simp_all add: http_body_def ok_or_def split: option.split)

lemma envelope_result_answers: "envelope_result envelope \<noteq> Inl PollsExhausted"
  by (auto simp: envelope_result_def envelope_error_def res_simps split: json.splits option.splits)

lemma post_rpc_value_answers: "post_rpc_value http url body w \<noteq> (w', Inl PollsExhausted)"
  using http_body_answers envelope_result_answers
  by (auto simp: post_rpc_value_def h_bind_def h_lift_def world_call_def and_then_eq_Inl split: prod.splits)

lemma confirm_entry_answers: "confirm_entry http c entry \<noteq> Some (Inl PollsExhausted)"
  by (auto simp: confirm_entry_def split: option.split)

lemma confirm_entry_ok:
  "confirm_entry http c entry = Some (Inr ()) \<longleftrightarrow>
     entry \<noteq> JNull \<and> json_get entry ''err'' \<in> {None, Some JNull}
     \<and> (\<exists>s. json_str_at entry ''confirmationStatus'' = Some s \<and> reaches_commitment s c)"
  by (auto simp: confirm_entry_def reaches_commitment_def split: option.splits if_splits commitment.splits)

text \<open>
  A monotone clock: \<open>now w\<close> is the instant a world shows; calls do not turn it back and a sleep takes its
  time.
\<close>

definition moving_clock :: "'w rpc_http \<Rightarrow> ('w \<Rightarrow> nat) \<Rightarrow> bool" where
  "moving_clock http now \<longleftrightarrow>
     (\<forall>w. fst (instant http w) = now w \<and> now w \<le> now (snd (instant http w)))
     \<and> (\<forall>w url body. now w \<le> now (snd (http_post http w url body)))
     \<and> (\<forall>w d. now w + d \<le> now (sleep_ms http w d))"

lemma post_rpc_value_world: "fst (post_rpc_value http url body w) = snd (http_post http w url body)"
  by (simp add: post_rpc_value_def h_bind_def h_lift_def world_call_def split: prod.split)

lemma confirm_loop_ends:
  assumes "moving_clock http now" and "400 \<le> backoff" and "0 < fuel" and "deadline \<le> now w + 400 * (fuel - 1)"
  shows "snd (confirm_loop http url sig max_wait c deadline backoff fuel w) \<noteq> Inl PollsExhausted"
  using assms(2-4)
proof (induction fuel arbitrary: backoff w)
  case (Suc fuel)
  obtain w1 r where polled: "post_rpc_value http url (statuses_body [sig]) w = (w1, r)"
    by (cases "post_rpc_value http url (statuses_body [sig]) w")
  have w1: "now w \<le> now w1"
    using assms(1) post_rpc_value_world [of http url "statuses_body [sig]" w] polled by (simp add: moving_clock_def)
  have r: "r \<noteq> Inl PollsExhausted"
    using post_rpc_value_answers polled by metis
  let ?w2 = "snd (instant http w1)"
  let ?w3 = "sleep_ms http ?w2 backoff"
  have clock: "fst (instant http w1) = now w1" "now w1 \<le> now ?w2" "now ?w2 + backoff \<le> now ?w3"
    using assms(1) by (simp_all add: moving_clock_def)
  have later: "snd (confirm_loop http url sig max_wait c deadline (min (backoff * 2) 2000) fuel ?w3) \<noteq> Inl PollsExhausted"
    if "\<not> deadline \<le> now w1"
  proof (rule Suc.IH)
    show "0 < fuel"
      using that Suc.prems(3) w1 by (cases fuel) simp_all
    then show "deadline \<le> now ?w3 + 400 * (fuel - 1)"
      using Suc.prems w1 clock by (cases fuel) simp_all
  qed (use Suc.prems(1) in simp)
  show ?case
    using r later clock(1) confirm_entry_answers
    by (auto simp: h_bind_def h_lift_def world_call_def polled split: sum.splits option.splits prod.splits)
qed simp

lemma confirm_loop_sound:
  "confirm_loop http url sig max_wait c deadline backoff fuel w = (w', Inr ()) \<Longrightarrow>
   \<exists>w1 w2 result. post_rpc_value http url (statuses_body [sig]) w1 = (w2, Inr result)
     \<and> confirm_entry http c (first_status result) = Some (Inr ())"
proof (induction fuel arbitrary: backoff w)
  case (Suc fuel)
  then show ?case
    by (auto simp: h_bind_Inr h_lift_Inr split: option.splits if_splits) blast
qed (simp add: h_lift_def)

lemma confirm_signature_at_sound:
  assumes "confirm_signature_at fuel http url sig max_wait c w = (w', Inr ())"
  shows "\<exists>w1 w2 result. post_rpc_value http url (statuses_body [sig]) w1 = (w2, Inr result)
    \<and> confirm_entry http c (first_status result) = Some (Inr ())"
  using assms by (auto simp: confirm_signature_at_def h_bind_Inr intro: confirm_loop_sound)

text \<open>
  C38: waiting for a signature ends. Whatever the node answers, if the clock never runs backwards and a
  sleep takes its time, then one poll per 400 milliseconds of the allowed wait, and two more, are enough
  for an answer; and the answer is a confirmation only if a node reported the signature, without an
  error, at the commitment asked for.
\<close>
theorem confirm_signature_decides:
  assumes "moving_clock http now" and "max_wait div 400 + 2 \<le> fuel"
  shows "\<exists>w' r. confirm_signature_at fuel http url sig max_wait c w = (w', r) \<and> r \<noteq> Inl PollsExhausted
    \<and> (r = Inr () \<longrightarrow>
         (\<exists>w1 w2 result s. post_rpc_value http url (statuses_body [sig]) w1 = (w2, Inr result)
            \<and> json_get (first_status result) ''err'' \<in> {None, Some JNull}
            \<and> json_str_at (first_status result) ''confirmationStatus'' = Some s \<and> reaches_commitment s c))"
proof -
  obtain w' r where run: "confirm_signature_at fuel http url sig max_wait c w = (w', r)"
    by (cases "confirm_signature_at fuel http url sig max_wait c w")
  let ?w1 = "snd (instant http w)"
  have clock: "fst (instant http w) = now w" "now w \<le> now ?w1"
    using assms(1) by (simp_all add: moving_clock_def)
  have "max_wait \<le> 400 * (max_wait div 400 + 1)"
    using div_mult_mod_eq [of max_wait 400] mod_less_divisor [of 400 max_wait] by simp
  also have "\<dots> \<le> 400 * (fuel - 1)"
    using assms(2) by (intro mult_left_mono) simp_all
  finally have "now w + max_wait \<le> now ?w1 + 400 * (fuel - 1)"
    using clock(2) by (intro add_mono)
  then have "snd (confirm_loop http url sig max_wait c (now w + max_wait) 400 fuel ?w1) \<noteq> Inl PollsExhausted"
    using assms by (intro confirm_loop_ends) simp_all
  then have "r \<noteq> Inl PollsExhausted"
    using run clock(1) by (auto simp: confirm_signature_at_def h_bind_def world_call_def split: prod.splits)
  moreover have "\<exists>w1 w2 result s. post_rpc_value http url (statuses_body [sig]) w1 = (w2, Inr result)
            \<and> json_get (first_status result) ''err'' \<in> {None, Some JNull}
            \<and> json_str_at (first_status result) ''confirmationStatus'' = Some s \<and> reaches_commitment s c" if "r = Inr ()"
    using confirm_signature_at_sound [of fuel http url sig max_wait c w w'] run that unfolding confirm_entry_ok by blast
  ultimately show ?thesis
    using run by blast
qed

text \<open>A node that confirms a signature from the second poll on, on a world that is the clock.\<close>

definition slow_node :: "nat rpc_http" where
  "slow_node = \<lparr>http_post = (\<lambda>w url body. (Answered 200 (Some (JObject [(''result'', JObject [(''value'', JArray
       [if w < 400 then JNull else JObject [(''confirmationStatus'', JString ''finalized'')]])])])), w)),
     http_timeout_ms = 1000, instant = (\<lambda>w. (w, w)), sleep_ms = (\<lambda>w d. w + d),
     base64_bytes = (\<lambda>_. None), bs58_text = (\<lambda>_. []), status_text = show_nat, value_text = (\<lambda>_. [])\<rparr>"

theorem confirm_signature_decides_witness:
  "moving_clock slow_node id \<and> (30000 :: nat) div 400 + 2 \<le> 77
   \<and> (\<exists>w' r. confirm_signature_at 77 slow_node [] ''sig'' 30000 Confirmed 0 = (w', r) \<and> r \<noteq> Inl PollsExhausted)
   \<and> confirm_signature_at 77 slow_node [] ''sig'' 30000 Confirmed 0 = (400, Inr ())"
proof -
  have clock: "moving_clock slow_node id"
    by (simp add: moving_clock_def slow_node_def)
  have fuel: "(30000 :: nat) div 400 + 2 \<le> 77"
    by simp
  have "confirm_signature_at (Suc (Suc n)) slow_node [] ''sig'' 30000 Confirmed 0 = (400, Inr ())" for n
    by (simp add: confirm_signature_at_def h_bind_def world_call_def slow_node_def post_rpc_value_def h_lift_def
        http_body_def envelope_result_def envelope_error_def json_get_def first_status_def json_as_array_def
        confirm_entry_def json_str_at_def json_as_str_def reaches_commitment_def)
  from this [of 75] have run: "confirm_signature_at 77 slow_node [] ''sig'' 30000 Confirmed 0 = (400, Inr ())"
    by simp
  show ?thesis
    using clock fuel run confirm_signature_decides [OF clock fuel, of "[]" "''sig''" Confirmed 0] by blast
qed

end
