(* ===== verification/Sponsor_Batch.thy ===== *)
theory Sponsor_Batch
  imports Push_Transport Api_Rpc Float64
begin

text \<open>
  The sponsor of gasless payouts (\<^verbatim>\<open>src/rust/crates/pay-api-core/src/transfer_batch.rs\<close>, its wire types in
  \<^verbatim>\<open>pay-api-types/src/transfer_batch.rs\<close> and its endpoint \<^verbatim>\<open>pay-api/src/endpoints/transfer_batches.rs\<close>): a
  request for one chunk is validated, quoted, and on submission its transaction is checked against the
  request, co-signed as fee payer and sent.

  Keys, transaction codecs, signatures, the fee payer's signer and HTTP are the record \<open>batch_env\<close>. The
  state is the outside world and the log of what the fee payer's key was asked to sign and what was sent.

  The lemmas give the exact set of transactions the sponsor signs, relate its validator to the one of the
  signing permit, which is a separate implementation of the same contract, and follow a chunk from the
  permit through the request to the sponsor.
\<close>

section \<open>Wire types\<close>

datatype transfer_network = Mainnet | Devnet | Localnet

definition transfer_network_str :: "transfer_network \<Rightarrow> string" where
  "transfer_network_str n = (case n of Mainnet \<Rightarrow> ''mainnet'' | Devnet \<Rightarrow> ''devnet'' | Localnet \<Rightarrow> ''localnet'')"

definition transfer_network_from_str :: "string \<Rightarrow> string + transfer_network" where
  "transfer_network_from_str s =
     (if s = ''mainnet'' then Inr Mainnet else if s = ''devnet'' then Inr Devnet
      else if s = ''localnet'' then Inr Localnet else Inl s)"

record transfer_batch_entry =
  tbe_row_id :: nat
  tbe_recipient :: string
  tbe_amount :: string

record transfer_batch_request =
  tb_batch_id :: string
  tb_chunk_index :: nat
  tb_sender :: string
  tb_currency :: string
  tb_network :: transfer_network
  tb_transfers :: "transfer_batch_entry list"

record transfer_batch_challenge =
  ch_batch_id :: string
  ch_chunk_index :: nat
  ch_transfer_count :: nat
  ch_recipient_amount_raw :: string
  ch_fee_reimbursement_raw :: string
  ch_total_amount_raw :: string
  ch_estimated_fee_lamports :: nat
  ch_missing_ata_count :: nat
  ch_fee_payer :: string
  ch_recent_blockhash :: string
  ch_expires_at :: string
  ch_last_valid_block_height :: nat

text \<open>The status of a response has the one value \<open>Confirmed\<close> and is left out.\<close>

record transfer_batch_response =
  rs_batch_id :: string
  rs_chunk_index :: nat
  rs_row_ids :: "nat list"
  rs_signature :: string

section \<open>Errors\<close>

text \<open>What a mismatch says: a detail the permit's validator knows too, or one of the two sums.\<close>

datatype mismatch_detail =
    Detail permit_detail
  | RecipientTotalOverflow
  | TotalOverflow

datatype transfer_batch_error =
    InvalidBatchId
  | InvalidSender
  | UnsupportedCurrency string
  | TransferCountOutOfBounds nat
  | InvalidRecipient nat
  | InvalidAmount nat string nat
  | DuplicateRowId nat nat nat
  | NetworkNotConfigured string
  | MalformedCredential string
  | TransactionMismatch mismatch_detail
  | InvalidSenderSignature
  | FeePayerSlotAlreadySigned
  | SponsorNotConfigured string
  | SigningFailed string
  | Rpc api_error

definition batch_http_status :: "transfer_batch_error \<Rightarrow> nat" where
  "batch_http_status e =
     (case e of
        Rpc err \<Rightarrow> api_http_status err
      | SponsorNotConfigured _ \<Rightarrow> 503
      | SigningFailed _ \<Rightarrow> 502
      | _ \<Rightarrow> 400)"

definition batch_error_code :: "transfer_batch_error \<Rightarrow> string" where
  "batch_error_code e =
     (case e of
        InvalidBatchId \<Rightarrow> ''invalid_batch_id''
      | InvalidSender \<Rightarrow> ''invalid_sender''
      | UnsupportedCurrency _ \<Rightarrow> ''unsupported_currency''
      | TransferCountOutOfBounds _ \<Rightarrow> ''invalid_transfer_count''
      | InvalidRecipient _ \<Rightarrow> ''invalid_recipient''
      | InvalidAmount _ _ _ \<Rightarrow> ''invalid_amount''
      | DuplicateRowId _ _ _ \<Rightarrow> ''duplicate_row_id''
      | NetworkNotConfigured _ \<Rightarrow> ''network_not_configured''
      | MalformedCredential _ \<Rightarrow> ''malformed_credential''
      | TransactionMismatch _ \<Rightarrow> ''transaction_mismatch''
      | InvalidSenderSignature \<Rightarrow> ''invalid_sender_signature''
      | FeePayerSlotAlreadySigned \<Rightarrow> ''fee_payer_slot_already_signed''
      | SponsorNotConfigured _ \<Rightarrow> ''sponsor_not_configured''
      | SigningFailed _ \<Rightarrow> ''signing_failed''
      | Rpc _ \<Rightarrow> ''rpc_error'')"

definition batch_error_field :: "transfer_batch_error \<Rightarrow> string option" where
  "batch_error_field e =
     (case e of
        InvalidBatchId \<Rightarrow> Some ''batchId''
      | InvalidSender \<Rightarrow> Some ''sender''
      | UnsupportedCurrency _ \<Rightarrow> Some ''currency''
      | TransferCountOutOfBounds _ \<Rightarrow> Some ''transfers''
      | InvalidRecipient index \<Rightarrow> Some (''transfers['' @ show_nat index @ ''].recipient'')
      | InvalidAmount index _ _ \<Rightarrow> Some (''transfers['' @ show_nat index @ ''].amount'')
      | DuplicateRowId index _ _ \<Rightarrow> Some (''transfers['' @ show_nat index @ ''].rowId'')
      | NetworkNotConfigured _ \<Rightarrow> Some ''network''
      | _ \<Rightarrow> None)"

definition batch_error_retryable :: "transfer_batch_error \<Rightarrow> bool" where
  "batch_error_retryable e =
     (case e of
        SponsorNotConfigured _ \<Rightarrow> True
      | SigningFailed _ \<Rightarrow> True
      | Rpc err \<Rightarrow> (case err of RpcTimeout _ \<Rightarrow> True | RpcRateLimited \<Rightarrow> True | RpcTransport \<Rightarrow> True | _ \<Rightarrow> False)
      | _ \<Rightarrow> False)"

section \<open>The sponsor's environment\<close>

record stablecoin =
  coin_symbol :: string
  coin_mint :: pubkey
  coin_token_program :: pubkey
  coin_decimals :: nat

record 'w batch_env =
  be_chain :: chain_env
  be_http :: "'w rpc_http"
  parse_units :: "string \<Rightarrow> nat \<Rightarrow> string option"
  pubkey_of_text :: "string \<Rightarrow> pubkey option"
  pubkey_display :: "pubkey \<Rightarrow> string"
  blake3_from_hex :: "string \<Rightarrow> bytes option"
  base64_standard :: "string \<Rightarrow> string + bytes"
  decode_transaction :: "bytes \<Rightarrow> string + versioned_transaction"
  check_envelope_v0 :: "versioned_transaction \<Rightarrow> string + unit"
  serialize_message :: "versioned_transaction \<Rightarrow> bytes"
  verify_signature :: "bytes \<Rightarrow> pubkey \<Rightarrow> bytes \<Rightarrow> bool"
  cosign_fee_payer :: "'w \<Rightarrow> pubkey \<Rightarrow> versioned_transaction \<Rightarrow> (string + versioned_transaction) \<times> 'w"
  encode_transaction :: "versioned_transaction \<Rightarrow> string + string"
  expiry_text :: "'w \<Rightarrow> nat \<Rightarrow> string \<times> 'w"

record transfer_batch_settings =
  max_unit_price :: nat
  max_unit_limit :: nat
  base_fee_lamports :: nat
  ata_rent_lamports :: nat
  usd_per_sol :: f64
  challenge_ttl :: nat
  confirm_timeout :: nat

record transfer_batch_runtime =
  rt_url :: string
  sponsor_key :: pubkey
  rt_settings :: transfer_batch_settings

section \<open>Validation of a request\<close>

record validated_transfer =
  vt_row_id :: nat
  vt_recipient :: pubkey
  vt_amount_raw :: nat

record validated_chunk =
  vc_batch_id :: string
  vc_chunk_index :: nat
  vc_sender :: pubkey
  vc_network :: transfer_network
  vc_coin :: stablecoin
  vc_transfers :: "validated_transfer list"
  vc_memo :: string

definition recipient_amount_raw :: "validated_chunk \<Rightarrow> nat option" where
  "recipient_amount_raw chunk = checked_sum 64 0 (map vt_amount_raw (vc_transfers chunk))"

definition MIN_TRANSFER_BATCH_TRANSFERS :: nat where
  "MIN_TRANSFER_BATCH_TRANSFERS = 1"

definition MAX_TRANSFER_BATCH_TRANSFERS :: nat where
  "MAX_TRANSFER_BATCH_TRANSFERS = 8"

definition BATCH_ID_HEX_LEN :: nat where
  "BATCH_ID_HEX_LEN = 64"

definition is_ascii_uppercase :: "char \<Rightarrow> bool" where
  "is_ascii_uppercase ch \<longleftrightarrow> 65 \<le> (of_char ch :: nat) \<and> (of_char ch :: nat) \<le> 90"

definition parse_positive_base_units :: "'w batch_env \<Rightarrow> string \<Rightarrow> nat \<Rightarrow> nat option" where
  "parse_positive_base_units env amount decs =
     Option.bind (parse_units env (trim amount) decs) (\<lambda>raw.
     Option.bind (parse_u64 raw) (\<lambda>parsed.
     if parsed = 0 then None else Some parsed))"

text \<open>One turn of the loop over the transfers: the row ids seen and the transfers validated so far.\<close>

definition validate_transfer ::
  "'w batch_env \<Rightarrow> stablecoin \<Rightarrow> nat list \<times> validated_transfer list \<Rightarrow> nat \<times> transfer_batch_entry
     \<Rightarrow> transfer_batch_error + nat list \<times> validated_transfer list" where
  "validate_transfer env coin st item =
     (case st of (seen, transfers) \<Rightarrow>
      case item of (index, entry) \<Rightarrow>
      case position (\<lambda>r. r = tbe_row_id entry) seen of
        Some first_index \<Rightarrow> Inl (DuplicateRowId index first_index (tbe_row_id entry))
      | None \<Rightarrow>
          and_then (ok_or (InvalidRecipient index) (pubkey_of_text env (trim (tbe_recipient entry)))) (\<lambda>recipient.
          and_then (ok_or (InvalidAmount index (tbe_amount entry) (coin_decimals coin))
            (parse_positive_base_units env (tbe_amount entry) (coin_decimals coin))) (\<lambda>amount.
          Inr (seen @ [tbe_row_id entry],
               transfers @ [\<lparr>vt_row_id = tbe_row_id entry, vt_recipient = recipient, vt_amount_raw = amount\<rparr>]))))"

definition validate_request ::
  "'w batch_env \<Rightarrow> stablecoin list \<Rightarrow> transfer_batch_request \<Rightarrow> transfer_batch_error + validated_chunk" where
  "validate_request env stablecoins request =
     (if length (tb_batch_id request) \<noteq> BATCH_ID_HEX_LEN \<or> list_ex is_ascii_uppercase (tb_batch_id request)
         \<or> blake3_from_hex env (tb_batch_id request) = None
      then Inl InvalidBatchId
      else
        and_then (ok_or InvalidSender (pubkey_of_text env (trim (tb_sender request)))) (\<lambda>sender.
        let currency = trim (tb_currency request) in
        and_then (ok_or (UnsupportedCurrency (tb_currency request))
          (find (\<lambda>c. eq_ignore_ascii_case (coin_symbol c) currency \<or> pubkey_display env (coin_mint c) = currency)
             stablecoins)) (\<lambda>coin.
        if length (tb_transfers request) < MIN_TRANSFER_BATCH_TRANSFERS
           \<or> MAX_TRANSFER_BATCH_TRANSFERS < length (tb_transfers request)
        then Inl (TransferCountOutOfBounds (length (tb_transfers request)))
        else
          and_then (try_fold (validate_transfer env coin) ([], []) (enumerate 0 (tb_transfers request)))
            (\<lambda>(seen, transfers).
          let lower = to_ascii_lowercase (tb_batch_id request);
              prefix = take 8 lower;
              text = ''pay-push:v1:'' @ prefix @ '':'' @ show_nat (tb_chunk_index request) in
          Inr \<lparr>vc_batch_id = lower, vc_chunk_index = tb_chunk_index request, vc_sender = sender,
               vc_network = tb_network request, vc_coin = coin, vc_transfers = transfers, vc_memo = text\<rparr>))))"

definition runtime_resolve ::
  "validated_chunk \<Rightarrow> (transfer_network \<rightharpoonup> string) \<Rightarrow> pubkey \<Rightarrow> transfer_batch_settings
     \<Rightarrow> transfer_batch_error + transfer_batch_runtime" where
  "runtime_resolve chunk networks payer settings =
     and_then (ok_or (NetworkNotConfigured (transfer_network_str (vc_network chunk))) (networks (vc_network chunk))) (\<lambda>url.
     Inr \<lparr>rt_url = url, sponsor_key = payer, rt_settings = settings\<rparr>)"

section \<open>Handlers\<close>

datatype sponsor_event =
    AskedToSign versioned_transaction
  | SentTransaction string

record 'w sponsor_state =
  ss_world :: 'w
  ss_log :: "sponsor_event list"

type_synonym ('w, 'a) sponsor = "('w sponsor_state, transfer_batch_error, 'a) handler"

definition on_rpc :: "('w, 'a) rpc \<Rightarrow> ('w, 'a) sponsor" where
  "on_rpc m st = (case m (ss_world st) of (w, r) \<Rightarrow> (st\<lparr>ss_world := w\<rparr>, map_err Rpc r))"

definition on_world :: "('w \<Rightarrow> 'a \<times> 'w) \<Rightarrow> ('w, 'a) sponsor" where
  "on_world f st = (case f (ss_world st) of (a, w) \<Rightarrow> (st\<lparr>ss_world := w\<rparr>, Inr a))"

definition log_sponsor :: "sponsor_event \<Rightarrow> ('w, unit) sponsor" where
  "log_sponsor e st = (st\<lparr>ss_log := ss_log st @ [e]\<rparr>, Inr ())"

subsection \<open>Quotes\<close>

definition sponsor_ata :: "'w batch_env \<Rightarrow> stablecoin \<Rightarrow> pubkey \<Rightarrow> pubkey" where
  "sponsor_ata env coin owner =
     find_program_address (be_chain env) [owner, coin_token_program coin, coin_mint coin]
       (associated_token_program_id (be_chain env))"

definition fee_reimbursement_base_units :: "nat \<Rightarrow> f64 \<Rightarrow> nat \<Rightarrow> transfer_batch_error + nat" where
  "fee_reimbursement_base_units lamports usd decs =
     (if \<not> is_finite usd \<or> f64_le usd (Finite 0)
      then Inl (SponsorNotConfigured ''push.usdPerSol must be a positive finite number'')
      else
        let scale = ten_powi decs;
            raw = f64_ceil (f64_mul (f64_mul (f64_div_const (f64_of_nat lamports) 1000000000) usd) scale) in
        if \<not> is_finite raw \<or> f64_less raw (Finite 0) \<or> f64_less (f64_of_nat (2 ^ 64 - 1)) raw
        then Inl (SponsorNotConfigured ''computed fee reimbursement is out of range'')
        else Inr (f64_to_u64 raw))"

definition batch_quote ::
  "'w batch_env \<Rightarrow> transfer_batch_runtime \<Rightarrow> validated_chunk \<Rightarrow> ('w, transfer_batch_challenge) sponsor" where
  "batch_quote env rt chunk =
     (let settings = rt_settings rt;
          dest_atas = map (\<lambda>t. pubkey_display env (sponsor_ata env (vc_coin chunk) (vt_recipient t))) (vc_transfers chunk) in
      h_bind (on_rpc (get_multiple_accounts (be_http env) (rt_url rt) dest_atas)) (\<lambda>found.
      let missing = length (filter (\<lambda>a. a = None) found) in
      h_bind (on_rpc (get_latest_blockhash_with_last_valid_height (be_http env) (rt_url rt))) (\<lambda>(blockhash, last_valid).
      h_bind (h_lift (ok_or (TransactionMismatch RecipientTotalOverflow) (recipient_amount_raw chunk))) (\<lambda>recipient_amount.
      let fee_lamports = saturating_add 64 (base_fee_lamports settings)
            (saturating_mul 64 missing (ata_rent_lamports settings)) in
      h_bind (h_lift (fee_reimbursement_base_units fee_lamports (usd_per_sol settings) (coin_decimals (vc_coin chunk)))) (\<lambda>fee_raw.
      h_bind (h_lift (ok_or (TransactionMismatch TotalOverflow) (checked_add 64 recipient_amount fee_raw))) (\<lambda>total_raw.
      h_bind (on_world (\<lambda>w. expiry_text env w (challenge_ttl settings))) (\<lambda>expires.
      h_lift (Inr \<lparr>ch_batch_id = vc_batch_id chunk, ch_chunk_index = vc_chunk_index chunk,
         ch_transfer_count = length (vc_transfers chunk), ch_recipient_amount_raw = show_nat recipient_amount,
         ch_fee_reimbursement_raw = show_nat fee_raw, ch_total_amount_raw = show_nat total_raw,
         ch_estimated_fee_lamports = fee_lamports, ch_missing_ata_count = missing,
         ch_fee_payer = pubkey_display env (sponsor_key rt), ch_recent_blockhash = blockhash,
         ch_expires_at = expires, ch_last_valid_block_height = last_valid\<rparr>))))))))"

subsection \<open>Checks of a submitted transaction\<close>

definition mismatch :: "permit_detail \<Rightarrow> transfer_batch_error" where
  "mismatch d = TransactionMismatch (Detail d)"

definition sponsor_instruction_at :: "versioned_transaction \<Rightarrow> nat \<Rightarrow> transfer_batch_error + compiled_instruction" where
  "sponsor_instruction_at message index = ok_or (mismatch MissingInstruction) (nth_opt (instructions message) index)"

definition sponsor_account_at :: "versioned_transaction \<Rightarrow> byte \<Rightarrow> transfer_batch_error + pubkey" where
  "sponsor_account_at message i = ok_or (mismatch AccountIndexOutOfRange) (nth_opt (account_keys message) (unat i))"

definition sponsor_decode_price ::
  "chain_env \<Rightarrow> versioned_transaction \<Rightarrow> compiled_instruction \<Rightarrow> transfer_batch_error + nat" where
  "sponsor_decode_price chain message ix =
     and_then (sponsor_account_at message (program_id_index ix)) (\<lambda>program.
     if program \<noteq> compute_budget_program_id chain then Inl (mismatch ExpectedPrice)
     else if nth_opt (data ix) 0 \<noteq> Some 3 \<or> length (data ix) \<noteq> 9 then Inl (mismatch MalformedPrice)
     else Inr (from_le_bytes (take 8 (drop 1 (data ix)))))"

definition sponsor_decode_limit ::
  "chain_env \<Rightarrow> versioned_transaction \<Rightarrow> compiled_instruction \<Rightarrow> transfer_batch_error + nat" where
  "sponsor_decode_limit chain message ix =
     and_then (sponsor_account_at message (program_id_index ix)) (\<lambda>program.
     if program \<noteq> compute_budget_program_id chain then Inl (mismatch ExpectedLimit)
     else if nth_opt (data ix) 0 \<noteq> Some 2 \<or> length (data ix) \<noteq> 5 then Inl (mismatch MalformedLimit)
     else Inr (from_le_bytes (take 4 (drop 1 (data ix)))))"

definition sponsor_validate_ata_create ::
  "chain_env \<Rightarrow> versioned_transaction \<Rightarrow> compiled_instruction \<Rightarrow> pubkey \<Rightarrow> pubkey \<Rightarrow> pubkey \<Rightarrow> pubkey \<Rightarrow> pubkey
     \<Rightarrow> transfer_batch_error + unit" where
  "sponsor_validate_ata_create chain message ix payer_key owner expected_ata mint_key program_key =
     (if data ix \<noteq> [1] then Inl (mismatch AtaCreateNotIdempotent)
      else if length (accounts ix) \<noteq> 6 then Inl (mismatch MalformedAtaCreate)
      else
        and_then (sponsor_account_at message (accounts ix ! 0)) (\<lambda>payer.
        and_then (sponsor_account_at message (accounts ix ! 1)) (\<lambda>ata.
        and_then (sponsor_account_at message (accounts ix ! 2)) (\<lambda>owner_account.
        and_then (sponsor_account_at message (accounts ix ! 3)) (\<lambda>mint_account.
        and_then (sponsor_account_at message (accounts ix ! 4)) (\<lambda>system_program.
        and_then (sponsor_account_at message (accounts ix ! 5)) (\<lambda>token_program_account.
        if payer \<noteq> payer_key then Inl (mismatch AtaCreatePayer)
        else if ata \<noteq> expected_ata then Inl (mismatch AtaCreateAddress)
        else if owner_account \<noteq> owner then Inl (mismatch AtaCreateOwner)
        else if mint_account \<noteq> mint_key then Inl (mismatch AtaCreateMint)
        else if system_program \<noteq> system_program_id chain then Inl (mismatch AtaCreateSystemProgram)
        else if token_program_account \<noteq> program_key then Inl (mismatch AtaCreateTokenProgram)
        else Inr ())))))))"

definition sponsor_validate_transfer ::
  "chain_env \<Rightarrow> versioned_transaction \<Rightarrow> compiled_instruction \<Rightarrow> pubkey \<Rightarrow> pubkey \<Rightarrow> pubkey \<Rightarrow> pubkey \<Rightarrow> nat \<Rightarrow> nat
     \<Rightarrow> transfer_batch_error + unit" where
  "sponsor_validate_transfer chain message ix source mint_key destination authority amount decs =
     and_then (sponsor_account_at message (program_id_index ix)) (\<lambda>program.
     if program \<noteq> token_program_id chain \<and> program \<noteq> token_2022_program_id chain
     then Inl (mismatch ExpectedTransfer)
     else if length (accounts ix) \<noteq> 4 then Inl (mismatch MalformedTransfer)
     else if length (data ix) \<noteq> 10 \<or> data ix ! 0 \<noteq> 12 then Inl (mismatch ExpectedTransferChecked)
     else
       let ix_amount = from_le_bytes (take 8 (drop 1 (data ix)));
           ix_decimals = data ix ! 9 in
       and_then (sponsor_account_at message (accounts ix ! 0)) (\<lambda>source_account.
       and_then (sponsor_account_at message (accounts ix ! 1)) (\<lambda>mint_account.
       and_then (sponsor_account_at message (accounts ix ! 2)) (\<lambda>destination_account.
       and_then (sponsor_account_at message (accounts ix ! 3)) (\<lambda>authority_account.
       if source_account \<noteq> source then Inl (mismatch TransferSource)
       else if mint_account \<noteq> mint_key then Inl (mismatch TransferMint)
       else if destination_account \<noteq> destination then Inl (mismatch TransferDestination)
       else if authority_account \<noteq> authority then Inl (mismatch TransferAuthority)
       else if ix_amount \<noteq> amount then Inl (mismatch (TransferAmount ix_amount amount))
       else if unat ix_decimals \<noteq> decs then Inl (mismatch TransferDecimals)
       else Inr ())))))"

definition sponsor_validate_memo ::
  "chain_env \<Rightarrow> versioned_transaction \<Rightarrow> compiled_instruction \<Rightarrow> string \<Rightarrow> transfer_batch_error + unit" where
  "sponsor_validate_memo chain message ix expected_memo =
     and_then (sponsor_account_at message (program_id_index ix)) (\<lambda>program.
     if program \<noteq> memo_program_id chain then Inl (mismatch ExpectedMemo)
     else if \<not> utf8_valid (data ix) then Inl (mismatch MemoNotUtf8)
     else if data ix = bytes_of_string expected_memo then Inr ()
     else Inl (mismatch MemoMismatch))"

definition sponsor_check_program ::
  "chain_env \<Rightarrow> versioned_transaction \<Rightarrow> unit \<Rightarrow> compiled_instruction \<Rightarrow> transfer_batch_error + unit" where
  "sponsor_check_program chain message u ix =
     and_then (sponsor_account_at message (program_id_index ix)) (\<lambda>program.
     ensure (program \<in> {compute_budget_program_id chain, associated_token_program_id chain, token_program_id chain,
       token_2022_program_id chain, memo_program_id chain}) (mismatch (DisallowedProgram program)))"

text \<open>One transfer: an account creation in front of it is optional, and recognised by its program.\<close>

definition sponsor_check_transfer ::
  "'w batch_env \<Rightarrow> transfer_batch_runtime \<Rightarrow> validated_chunk \<Rightarrow> versioned_transaction \<Rightarrow> nat \<Rightarrow> validated_transfer
     \<Rightarrow> transfer_batch_error + nat" where
  "sponsor_check_transfer env rt chunk message cursor entry =
     (let chain = be_chain env; coin = vc_coin chunk;
          expected_dest_ata = sponsor_ata env coin (vt_recipient entry) in
      and_then
        (case nth_opt (instructions message) cursor of
           None \<Rightarrow> Inr cursor
         | Some ix \<Rightarrow>
             and_then (sponsor_account_at message (program_id_index ix)) (\<lambda>pid.
             if pid = associated_token_program_id chain then
               and_then (sponsor_validate_ata_create chain message ix (sponsor_key rt) (vt_recipient entry)
                 expected_dest_ata (coin_mint coin) (coin_token_program coin)) (\<lambda>_. Inr (cursor + 1))
             else Inr cursor)) (\<lambda>cursor.
      and_then (sponsor_instruction_at message cursor) (\<lambda>ix.
      and_then (sponsor_validate_transfer chain message ix (sponsor_ata env coin (vc_sender chunk)) (coin_mint coin)
        expected_dest_ata (vc_sender chunk) (vt_amount_raw entry) (coin_decimals coin)) (\<lambda>_.
      Inr (cursor + 1)))))"

definition sponsor_validate_transaction ::
  "'w batch_env \<Rightarrow> transfer_batch_runtime \<Rightarrow> validated_chunk \<Rightarrow> versioned_transaction \<Rightarrow> transfer_batch_error + unit" where
  "sponsor_validate_transaction env rt chunk tx =
     (let chain = be_chain env in
      and_then (ok_or (mismatch NoAccounts) (nth_opt (account_keys tx) 0)) (\<lambda>actual_fee_payer.
      if actual_fee_payer \<noteq> sponsor_key rt then Inl (mismatch (WrongFeePayer actual_fee_payer))
      else
        and_then (try_fold (sponsor_check_program chain tx) () (instructions tx)) (\<lambda>_.
        and_then (sponsor_instruction_at tx 0) (\<lambda>price_ix.
        and_then (sponsor_decode_price chain tx price_ix) (\<lambda>price.
        if max_unit_price (rt_settings rt) < price then Inl (mismatch (PriceTooHigh price))
        else
          and_then (sponsor_instruction_at tx 1) (\<lambda>limit_ix.
          and_then (sponsor_decode_limit chain tx limit_ix) (\<lambda>limit.
          if max_unit_limit (rt_settings rt) < limit then Inl (mismatch (LimitTooHigh limit))
          else
            and_then (try_fold (sponsor_check_transfer env rt chunk tx) 2 (vc_transfers chunk)) (\<lambda>cursor.
            and_then (sponsor_instruction_at tx cursor) (\<lambda>memo_ix.
            and_then (sponsor_validate_memo chain tx memo_ix (vc_memo chunk)) (\<lambda>_.
            ensure (cursor + 1 = length (instructions tx))
              (mismatch (TrailingInstructions (length (instructions tx) - (cursor + 1))))))))))))))"

text \<open>An empty slot holds the default signature, 64 zero bytes.\<close>

definition default_signature :: bytes where
  "default_signature = replicate 64 0"

definition verify_sender_signature ::
  "'w batch_env \<Rightarrow> versioned_transaction \<Rightarrow> pubkey \<Rightarrow> transfer_batch_error + unit" where
  "verify_sender_signature env tx sender =
     and_then (ok_or InvalidSenderSignature (position (\<lambda>k. k = sender) (account_keys tx))) (\<lambda>index.
     and_then (ok_or InvalidSenderSignature (nth_opt (signatures tx) index)) (\<lambda>signature.
     if signature = default_signature then Inl InvalidSenderSignature
     else if \<not> verify_signature env signature sender (serialize_message env tx) then Inl InvalidSenderSignature
     else Inr ()))"

text \<open>Everything \<open>submit\<close> checks before the fee payer's key is used.\<close>

definition submit_checks ::
  "'w batch_env \<Rightarrow> transfer_batch_runtime \<Rightarrow> validated_chunk \<Rightarrow> string \<Rightarrow> transfer_batch_error + versioned_transaction" where
  "submit_checks env rt chunk prepared =
     and_then (map_err MalformedCredential (base64_standard env (trim prepared))) (\<lambda>bytes.
     and_then (map_err MalformedCredential (decode_transaction env bytes)) (\<lambda>tx.
     and_then (map_err MalformedCredential (check_envelope_v0 env tx)) (\<lambda>_.
     and_then (sponsor_validate_transaction env rt chunk tx) (\<lambda>_.
     and_then (verify_sender_signature env tx (vc_sender chunk)) (\<lambda>_.
     if (case nth_opt (signatures tx) 0 of Some s \<Rightarrow> s | None \<Rightarrow> default_signature) \<noteq> default_signature
     then Inl FeePayerSlotAlreadySigned
     else Inr tx)))))"

definition batch_submit ::
  "nat \<Rightarrow> 'w batch_env \<Rightarrow> transfer_batch_runtime \<Rightarrow> validated_chunk \<Rightarrow> string \<Rightarrow> ('w, transfer_batch_response) sponsor" where
  "batch_submit fuel env rt chunk prepared =
     h_bind (h_lift (submit_checks env rt chunk prepared)) (\<lambda>tx.
     h_bind (log_sponsor (AskedToSign tx)) (\<lambda>_.
     h_bind (on_world (\<lambda>w. cosign_fee_payer env w (sponsor_key rt) tx)) (\<lambda>signed.
     h_bind (h_lift (map_err SigningFailed signed)) (\<lambda>tx.
     h_bind (h_lift (map_err SigningFailed (encode_transaction env tx))) (\<lambda>encoded.
     h_bind (log_sponsor (SentTransaction encoded)) (\<lambda>_.
     h_bind (on_rpc (send_raw_transaction (be_http env) (rt_url rt) encoded)) (\<lambda>signature.
     h_bind (on_rpc (confirm_signature fuel (be_http env) (rt_url rt) signature (confirm_timeout (rt_settings rt)))) (\<lambda>_.
     h_lift (Inr \<lparr>rs_batch_id = vc_batch_id chunk, rs_chunk_index = vc_chunk_index chunk,
       rs_row_ids = map vt_row_id (vc_transfers chunk), rs_signature = signature\<rparr>)))))))))"

subsection \<open>The endpoint\<close>

record push_state =
  push_networks :: "transfer_network \<rightharpoonup> string"
  push_sponsor :: pubkey
  push_settings :: transfer_batch_settings

datatype batch_reply =
    PaymentRequired transfer_batch_challenge
  | Settled200 transfer_batch_response

text \<open>
  The \<open>Authorization\<close> header is absent, not text, or text. A failing request is answered with the status,
  code, field and retry hint of its error.
\<close>

definition bearer_credential :: "string \<Rightarrow> string" where
  "bearer_credential header =
     trim (if take 7 header = ''Bearer '' then drop 7 header else header)"

definition batch_handler ::
  "nat \<Rightarrow> 'w batch_env \<Rightarrow> push_state option \<Rightarrow> stablecoin list \<Rightarrow> string option option \<Rightarrow> transfer_batch_request
     \<Rightarrow> ('w, batch_reply) sponsor" where
  "batch_handler fuel env push stablecoins header request =
     h_bind (h_lift (ok_or (SponsorNotConfigured
       ''set PAY_API_PUSH__ENABLED=true and configure push.fee_payer / push.networks'') push)) (\<lambda>push.
     h_bind (h_lift (validate_request env stablecoins request)) (\<lambda>chunk.
     h_bind (h_lift (runtime_resolve chunk (push_networks push) (push_sponsor push) (push_settings push))) (\<lambda>rt.
     case header of
       None \<Rightarrow> h_bind (batch_quote env rt chunk) (\<lambda>body. h_lift (Inr (PaymentRequired body)))
     | Some None \<Rightarrow> h_lift (Inl (MalformedCredential ''Authorization header is not valid UTF-8''))
     | Some (Some text) \<Rightarrow>
         h_bind (batch_submit fuel env rt chunk (bearer_credential text)) (\<lambda>body. h_lift (Inr (Settled200 body))))))"

section \<open>The sponsor's validator and the permit's\<close>

text \<open>
  A validated request read as a permit and a plan; \<open>flags\<close> says in front of which transfers an account is
  created, which the request leaves open.
\<close>

definition sponsored_permit :: "'w batch_env \<Rightarrow> transfer_batch_runtime \<Rightarrow> validated_chunk \<Rightarrow> batch_signing_permit" where
  "sponsored_permit env rt chunk =
     \<lparr>pm_manifest_hash = [], account_pubkey = vc_sender chunk, pm_network_genesis_hash = [],
      pm_mint = coin_mint (vc_coin chunk), pm_token_program = coin_token_program (vc_coin chunk),
      pm_decimals = coin_decimals (vc_coin chunk), source_ata = sponsor_ata env (vc_coin chunk) (vc_sender chunk),
      pm_fee_payer_mode = Gasless, pm_fee_payer = sponsor_key rt, pm_chunks = [], max_token_raw = 0,
      max_transactions = 0, expires_at = 0, signed_amount_raw = 0, signed_tx_count = 0, signed_chunks = Map.empty\<rparr>"

definition sponsored_entry :: "validated_transfer \<times> bool \<Rightarrow> planned_transfer_entry" where
  "sponsored_entry item =
     \<lparr>entry_row_number = vt_row_id (fst item), entry_recipient = vt_recipient (fst item),
      entry_amount_raw = vt_amount_raw (fst item), ata_creation_required = snd item\<rparr>"

definition sponsored_plan :: "transfer_batch_runtime \<Rightarrow> validated_chunk \<Rightarrow> bool list \<Rightarrow> planned_chunk" where
  "sponsored_plan rt chunk flags =
     \<lparr>chunk_index = vc_chunk_index chunk, entries = map sponsored_entry (zip (vc_transfers chunk) flags),
      compute_unit_price_micro_lamports = max_unit_price (rt_settings rt),
      compute_unit_limit = max_unit_limit (rt_settings rt), memo = vc_memo chunk, serialized_len = 0\<rparr>"

lemmas sponsored_defs = sponsored_permit_def sponsored_entry_def sponsored_plan_def

text \<open>The two implementations agree function by function on what they accept.\<close>

lemma sponsor_account_at_Inr: "sponsor_account_at tx i = Inr k \<longleftrightarrow> account_at tx i index = Inr k"
  by (simp add: sponsor_account_at_def account_at_def ok_or_eq_Inr)

lemma sponsor_instruction_at_Inr: "sponsor_instruction_at tx c = Inr ix \<longleftrightarrow> instruction_at tx c index = Inr ix"
  by (simp add: sponsor_instruction_at_def instruction_at_def ok_or_eq_Inr)

lemma sponsor_decode_price_Inr:
  "sponsor_decode_price chain tx ix = Inr v \<longleftrightarrow> decode_compute_unit_price chain tx ix index = Inr v"
  unfolding sponsor_decode_price_def decode_compute_unit_price_def and_then_eq_Inr if_Inl_eq_Inr
    sponsor_account_at_Inr [of _ _ _ index] COMPUTE_UNIT_PRICE_DISCRIMINATOR_def by simp

lemma sponsor_decode_limit_Inr:
  "sponsor_decode_limit chain tx ix = Inr v \<longleftrightarrow> decode_compute_unit_limit chain tx ix index = Inr v"
  unfolding sponsor_decode_limit_def decode_compute_unit_limit_def and_then_eq_Inr if_Inl_eq_Inr
    sponsor_account_at_Inr [of _ _ _ index] COMPUTE_UNIT_LIMIT_DISCRIMINATOR_def by simp

lemma sponsor_validate_memo_Inr:
  "sponsor_validate_memo chain tx ix text = Inr u \<longleftrightarrow> validate_memo chain tx ix text index = Inr u"
  by (auto simp: sponsor_validate_memo_def validate_memo_def and_then_eq_Inr sponsor_account_at_Inr [of _ _ _ index])

lemma sponsor_validate_transfer_Inr:
  "sponsor_validate_transfer chain tx ix src m dest auth amount decs = Inr u
   \<longleftrightarrow> validate_transfer_checked chain tx ix src m dest auth amount decs index = Inr u"
  unfolding sponsor_validate_transfer_def validate_transfer_checked_def Let_def and_then_eq_Inr if_Inl_eq_Inr
    sponsor_account_at_Inr [of _ _ _ index] TRANSFER_CHECKED_DISCRIMINATOR_def by simp

lemma sponsor_validate_ata_create_Inr:
  "key_at tx (program_id_index ix) = Some (associated_token_program_id chain)
     \<and> sponsor_validate_ata_create chain tx ix payer owner ata m prog = Inr u
   \<longleftrightarrow> validate_ata_create chain tx ix payer owner ata m prog index = Inr u"
  unfolding sponsor_validate_ata_create_def validate_ata_create_def and_then_eq_Inr if_Inl_eq_Inr
    sponsor_account_at_Inr [of _ _ _ index] account_at_Inr ATA_CREATE_IDEMPOTENT_DISCRIMINATOR_def by auto

lemma sponsor_check_programs_Inr:
  "try_fold (sponsor_check_program chain tx) () ixs = Inr u \<longleftrightarrow> try_fold (check_program chain tx index) () ixs = Inr u"
  by (induction ixs)
    (auto simp: sponsor_check_program_def check_program_def and_then_eq_Inr ok_or_eq_Inr ensure_eq_Inr
      sponsor_account_at_def allowed_programs_def)

text \<open>Programs that the sponsor tells apart by their key.\<close>

definition distinct_programs :: "chain_env \<Rightarrow> bool" where
  "distinct_programs chain \<longleftrightarrow>
     associated_token_program_id chain \<notin> {token_program_id chain, token_2022_program_id chain}"

lemma sponsor_check_transfer_Inr:
  assumes "distinct_programs (be_chain env)"
  shows "sponsor_check_transfer env rt chunk tx c t = Inr c' \<longleftrightarrow>
    (\<exists>flag. check_entry (be_chain env) (sponsored_permit env rt chunk) tx index c (sponsored_entry (t, flag)) = Inr c')"
  (is "?lhs \<longleftrightarrow> ?rhs")
proof -
  let ?chain = "be_chain env" and ?p = "sponsored_permit env rt chunk"
  let ?dest = "sponsor_ata env (vc_coin chunk) (vt_recipient t)"
  let ?create = "\<lambda>ix. validate_ata_create ?chain tx ix (sponsor_key rt) (vt_recipient t) ?dest
      (coin_mint (vc_coin chunk)) (coin_token_program (vc_coin chunk)) index = Inr ()"
  let ?pay = "\<lambda>ix. validate_transfer_checked ?chain tx ix (sponsor_ata env (vc_coin chunk) (vc_sender chunk))
      (coin_mint (vc_coin chunk)) ?dest (vc_sender chunk) (vt_amount_raw t) (coin_decimals (vc_coin chunk)) index = Inr ()"
  have dest: "derive_associated_token_address ?chain (vt_recipient t) (coin_mint (vc_coin chunk))
      (coin_token_program (vc_coin chunk)) = ?dest"
    by (simp add: derive_associated_token_address_def sponsor_ata_def)
  have pay: "?pay ix \<Longrightarrow> \<exists>prog. prog \<noteq> associated_token_program_id ?chain \<and> key_at tx (program_id_index ix) = Some prog" for ix
    using assms by (auto simp: validate_transfer_checked_def and_then_eq_Inr account_at_Inr Let_def distinct_programs_def)
  have create: "?create ix \<Longrightarrow> key_at tx (program_id_index ix) = Some (associated_token_program_id ?chain)" for ix
    using sponsor_validate_ata_create_Inr [of tx ix ?chain "sponsor_key rt" "vt_recipient t" ?dest] by blast
  have "?lhs \<longleftrightarrow>
      (\<exists>ix ix'. nth_opt (instructions tx) c = Some ix \<and> ?create ix \<and> nth_opt (instructions tx) (c + 1) = Some ix' \<and> ?pay ix' \<and> c' = c + 2)
      \<or> (\<exists>ix. nth_opt (instructions tx) c = Some ix \<and> ?pay ix \<and> c' = c + 1)"
    using pay create
    by (auto simp: sponsor_check_transfer_def Let_def and_then_eq_Inr sponsor_instruction_at_Inr [of _ _ _ index]
        instruction_at_Inr sponsor_validate_transfer_Inr [of _ _ _ _ _ _ _ _ _ _ index]
        sponsor_validate_ata_create_Inr [symmetric, where index = index] sponsor_account_at_Inr [of _ _ _ index] account_at_Inr
        split: option.splits if_splits) blast
  also have "\<dots> \<longleftrightarrow> ?rhs"
    by (auto simp: check_entry_def Let_def sponsored_defs dest and_then_eq_Inr instruction_at_Inr ex_bool_eq)
  finally show ?thesis .
qed

lemma sponsor_check_transfers_Inr:
  assumes "distinct_programs (be_chain env)"
  shows "try_fold (sponsor_check_transfer env rt chunk tx) c ts = Inr c' \<longleftrightarrow>
    (\<exists>flags. length flags = length ts
       \<and> try_fold (check_entry (be_chain env) (sponsored_permit env rt chunk) tx index) c
           (map sponsored_entry (zip ts flags)) = Inr c')"
proof (induction ts arbitrary: c)
  case (Cons t ts)
  show ?case (is "?lhs \<longleftrightarrow> ?rhs")
  proof
    assume ?lhs
    then obtain c1 flag flags where
      "check_entry (be_chain env) (sponsored_permit env rt chunk) tx index c (sponsored_entry (t, flag)) = Inr c1"
      "length flags = length ts"
      "try_fold (check_entry (be_chain env) (sponsored_permit env rt chunk) tx index) c1
         (map sponsored_entry (zip ts flags)) = Inr c'"
      by (auto simp: and_then_eq_Inr sponsor_check_transfer_Inr [OF assms, where index = index] Cons.IH)
    then show ?rhs
      by (intro exI [of _ "flag # flags"]) simp
  next
    assume ?rhs
    then show ?lhs
      by (auto simp: length_Suc_conv and_then_eq_Inr sponsor_check_transfer_Inr [OF assms, where index = index] Cons.IH)
        blast
  qed
qed simp

lemma sponsor_validate_transaction_iff:
  assumes "distinct_programs (be_chain env)"
  shows "sponsor_validate_transaction env rt chunk tx = Inr () \<longleftrightarrow>
    (\<exists>flags. length flags = length (vc_transfers chunk)
       \<and> validate_prepared_transaction (be_chain env) (sponsored_permit env rt chunk) (sponsored_plan rt chunk flags) tx = Inr ())"
proof -
  let ?i = "vc_chunk_index chunk"
  note agree = sponsor_instruction_at_Inr [where index = ?i] sponsor_decode_price_Inr [where index = ?i]
    sponsor_decode_limit_Inr [where index = ?i] sponsor_validate_memo_Inr [where index = ?i]
    sponsor_check_programs_Inr [where index = ?i] sponsor_check_transfers_Inr [OF assms, where index = ?i]
  have fields: "chunk_index (sponsored_plan rt chunk flags) = ?i" "memo (sponsored_plan rt chunk flags) = vc_memo chunk"
    "compute_unit_price_micro_lamports (sponsored_plan rt chunk flags) = max_unit_price (rt_settings rt)"
    "compute_unit_limit (sponsored_plan rt chunk flags) = max_unit_limit (rt_settings rt)"
    "entries (sponsored_plan rt chunk flags) = map sponsored_entry (zip (vc_transfers chunk) flags)"
    "pm_fee_payer (sponsored_permit env rt chunk) = sponsor_key rt" for flags
    by (simp_all add: sponsored_plan_def sponsored_permit_def)
  show ?thesis
    unfolding sponsor_validate_transaction_def validate_prepared_transaction_def Let_def and_then_eq_Inr if_Inl_eq_Inr
      agree fields ok_or_eq_Inr ensure_eq_Inr
    by blast
qed

text \<open>
  The transactions the sponsor signs for a chunk, without reference to any validator: its own key pays
  the fee; the instructions are the two compute-budget settings within the configured ceilings, for every
  requested transfer, in order, possibly the creation of the recipient's token account and then the exact
  transfer out of the sender's account under the sender's authority, and the memo; nothing else.
\<close>

definition sponsored_transaction ::
  "'w batch_env \<Rightarrow> transfer_batch_runtime \<Rightarrow> validated_chunk \<Rightarrow> versioned_transaction \<Rightarrow> bool" where
  "sponsored_transaction env rt chunk tx \<longleftrightarrow>
     (\<exists>flags. length flags = length (vc_transfers chunk)
        \<and> transaction_matches (be_chain env) (sponsored_permit env rt chunk) (sponsored_plan rt chunk flags) tx)"

definition sender_signed :: "'w batch_env \<Rightarrow> pubkey \<Rightarrow> versioned_transaction \<Rightarrow> bool" where
  "sender_signed env sender tx \<longleftrightarrow>
     (\<exists>i s. position (\<lambda>k. k = sender) (account_keys tx) = Some i \<and> nth_opt (signatures tx) i = Some s
        \<and> s \<noteq> default_signature \<and> verify_signature env s sender (serialize_message env tx))"

definition fee_payer_open :: "versioned_transaction \<Rightarrow> bool" where
  "fee_payer_open tx \<longleftrightarrow> nth_opt (signatures tx) 0 \<in> {None, Some default_signature}"

lemma verify_sender_signature_Inr: "verify_sender_signature env tx sender = Inr () \<longleftrightarrow> sender_signed env sender tx"
  by (auto simp: verify_sender_signature_def sender_signed_def and_then_eq_Inr ok_or_eq_Inr if_Inl_eq_Inr)

lemma submit_checks_Inr:
  assumes "distinct_programs (be_chain env)"
  shows "submit_checks env rt chunk prepared = Inr tx \<longleftrightarrow>
    (\<exists>bytes. base64_standard env (trim prepared) = Inr bytes \<and> decode_transaction env bytes = Inr tx)
    \<and> check_envelope_v0 env tx = Inr () \<and> sponsored_transaction env rt chunk tx
    \<and> sender_signed env (vc_sender chunk) tx \<and> fee_payer_open tx"
proof -
  have slot: "(case nth_opt (signatures t) 0 of Some s \<Rightarrow> s | None \<Rightarrow> default_signature) \<noteq> default_signature \<longleftrightarrow> \<not> fee_payer_open t"
    for t
    by (simp add: fee_payer_open_def split: option.split)
  have valid: "sponsor_validate_transaction env rt chunk t = Inr u \<longleftrightarrow> sponsored_transaction env rt chunk t" for t u
    using sponsor_validate_transaction_iff [OF assms, of rt chunk t]
    by (simp add: validate_prepared_transaction_iff sponsored_transaction_def)
  show ?thesis
    unfolding submit_checks_def and_then_eq_Inr map_err_eq_Inr if_Inl_eq_Inr slot valid
    using verify_sender_signature_Inr [of env tx "vc_sender chunk"] by auto
qed

section \<open>What the sponsor's key signs\<close>

definition unlogged_sponsor :: "('w, 'a) sponsor \<Rightarrow> bool" where
  "unlogged_sponsor m \<longleftrightarrow> (\<forall>st. ss_log (fst (m st)) = ss_log st)"

lemma unlogged_sponsor_steps [intro, simp]:
  "unlogged_sponsor (h_lift r)" "unlogged_sponsor (on_rpc m)" "unlogged_sponsor (on_world f)"
  by (simp_all add: unlogged_sponsor_def h_lift_def on_rpc_def on_world_def split: prod.split)

lemma unlogged_sponsor_bind [intro]:
  "unlogged_sponsor m \<Longrightarrow> (\<And>a. unlogged_sponsor (f a)) \<Longrightarrow> unlogged_sponsor (h_bind m f)"
  unfolding unlogged_sponsor_def h_bind_def by (auto split: prod.split sum.split) (metis fst_conv)+

lemma unlogged_sponsor_case: "(\<And>a b. unlogged_sponsor (f a b)) \<Longrightarrow> unlogged_sponsor (case p of (a, b) \<Rightarrow> f a b)"
  by (cases p) simp

lemma unlogged_quote: "unlogged_sponsor (batch_quote env rt chunk)"
  unfolding batch_quote_def Let_def by (intro unlogged_sponsor_bind unlogged_sponsor_case unlogged_sponsor_steps)

text \<open>What a submission adds to the log once its transaction has passed the checks.\<close>

definition signing_log :: "'w batch_env \<Rightarrow> transfer_batch_runtime \<Rightarrow> versioned_transaction \<Rightarrow> sponsor_event list \<Rightarrow> bool" where
  "signing_log env rt tx evs \<longleftrightarrow>
     evs = [AskedToSign tx]
     \<or> (\<exists>w w' tx' enc. cosign_fee_payer env w (sponsor_key rt) tx = (Inr tx', w') \<and> encode_transaction env tx' = Inr enc
          \<and> evs = [AskedToSign tx, SentTransaction enc])"

lemma h_bind_lift: "h_bind (h_lift r) f st = (case r of Inl e \<Rightarrow> (st, Inl e) | Inr a \<Rightarrow> f a st)"
  by (cases r) (simp_all add: h_bind_def h_lift_def)

lemma h_bind_log: "h_bind (log_sponsor e) f st = f () (st\<lparr>ss_log := ss_log st @ [e]\<rparr>)"
  by (simp add: h_bind_def log_sponsor_def)

lemma unlogged_sponsor_log: "unlogged_sponsor m \<Longrightarrow> ss_log (fst (m st)) = ss_log st"
  by (simp add: unlogged_sponsor_def)

lemma batch_submit_log:
  assumes "batch_submit fuel env rt chunk prepared st = (st', r)"
  shows "case submit_checks env rt chunk prepared of
      Inl e \<Rightarrow> ss_log st' = ss_log st
    | Inr tx \<Rightarrow> \<exists>evs. signing_log env rt tx evs \<and> ss_log st' = ss_log st @ evs"
proof (cases "submit_checks env rt chunk prepared")
  case (Inl e)
  then show ?thesis
    using assms by (auto simp: batch_submit_def h_bind_def h_lift_def)
next
  case (Inr tx)
  obtain signed w where cosigned: "cosign_fee_payer env (ss_world st) (sponsor_key rt) tx = (signed, w)"
    by (cases "cosign_fee_payer env (ss_world st) (sponsor_key rt) tx")
  let ?tail = "\<lambda>encoded. h_bind (on_rpc (send_raw_transaction (be_http env) (rt_url rt) encoded)) (\<lambda>signature.
     h_bind (on_rpc (confirm_signature fuel (be_http env) (rt_url rt) signature (confirm_timeout (rt_settings rt)))) (\<lambda>_.
     h_lift (Inr \<lparr>rs_batch_id = vc_batch_id chunk, rs_chunk_index = vc_chunk_index chunk,
       rs_row_ids = map vt_row_id (vc_transfers chunk), rs_signature = signature\<rparr>)))"
  have tail: "ss_log (fst (?tail encoded st1)) = ss_log st1" for encoded st1
    by (rule unlogged_sponsor_log) auto
  let ?st1 = "st\<lparr>ss_world := w, ss_log := ss_log st @ [AskedToSign tx]\<rparr>"
  have run: "batch_submit fuel env rt chunk prepared st =
      (case and_then (map_err SigningFailed signed) (\<lambda>tx. map_err SigningFailed (encode_transaction env tx)) of
         Inl e \<Rightarrow> (?st1, Inl e)
       | Inr encoded \<Rightarrow> ?tail encoded (?st1\<lparr>ss_log := ss_log st @ [AskedToSign tx, SentTransaction encoded]\<rparr>))"
    unfolding batch_submit_def
    by (auto simp: Inr h_bind_log h_bind_def [of "h_lift _"] h_bind_def [of "on_world _"] h_lift_def [of "Inr tx"] on_world_def cosigned
        h_lift_def [of "map_err _ _"] and_then_eq_Inr split: sum.split)
  show ?thesis
  proof (cases "and_then (map_err SigningFailed signed) (\<lambda>tx. map_err SigningFailed (encode_transaction env tx))")
    case (Inl e)
    then have "ss_log st' = ss_log st @ [AskedToSign tx]"
      using run assms by auto
    then show ?thesis
      using Inr by (simp add: signing_log_def)
  next
    case enc: (Inr encoded)
    then have "?tail encoded (?st1\<lparr>ss_log := ss_log st @ [AskedToSign tx, SentTransaction encoded]\<rparr>) = (st', r)"
      using run assms by simp
    from tail [of encoded "?st1\<lparr>ss_log := ss_log st @ [AskedToSign tx, SentTransaction encoded]\<rparr>", unfolded this]
    have "ss_log st' = ss_log st @ [AskedToSign tx, SentTransaction encoded]"
      by simp
    moreover obtain tx' where "signed = Inr tx'" "encode_transaction env tx' = Inr encoded"
      using enc by (auto simp: and_then_eq_Inr map_err_eq_Inr)
    ultimately show ?thesis
      using Inr cosigned by (auto simp: signing_log_def)
  qed
qed

lemma batch_handler_log:
  assumes "batch_handler fuel env push coins header request st = (st', r)"
  shows "ss_log st' = ss_log st
    \<or> (\<exists>ps chunk rt text tx evs. push = Some ps \<and> header = Some (Some text) \<and> validate_request env coins request = Inr chunk
         \<and> runtime_resolve chunk (push_networks ps) (push_sponsor ps) (push_settings ps) = Inr rt
         \<and> submit_checks env rt chunk (bearer_credential text) = Inr tx \<and> signing_log env rt tx evs
         \<and> ss_log st' = ss_log st @ evs)"
proof -
  have quoted: "ss_log (fst (h_bind (batch_quote env rt chunk) (\<lambda>body. h_lift (Inr (PaymentRequired body))) st)) = ss_log st"
    for rt chunk
    by (intro unlogged_sponsor_log unlogged_sponsor_bind unlogged_quote) simp
  have submitted: "ss_log (fst (h_bind m (\<lambda>body. h_lift (Inr (Settled200 body))) st)) = ss_log (fst (m st))"
    for m :: "('a, transfer_batch_response) sponsor"
    by (auto simp: h_bind_def h_lift_def split: prod.split sum.split)
  show ?thesis
  proof (cases "\<exists>ps chunk rt text. push = Some ps \<and> validate_request env coins request = Inr chunk
       \<and> runtime_resolve chunk (push_networks ps) (push_sponsor ps) (push_settings ps) = Inr rt \<and> header = Some (Some text)")
    case False
    then have "ss_log (fst (batch_handler fuel env push coins header request st)) = ss_log st"
      using quoted by (cases push) (auto simp: batch_handler_def h_bind_lift h_lift_def split: sum.split option.split)
    then show ?thesis
      using assms by simp
  next
    case True
    then obtain ps chunk rt credential where run: "push = Some ps" "validate_request env coins request = Inr chunk"
      "runtime_resolve chunk (push_networks ps) (push_sponsor ps) (push_settings ps) = Inr rt" "header = Some (Some credential)"
      by blast
    have "ss_log (fst (batch_handler fuel env push coins header request st))
        = ss_log (fst (batch_submit fuel env rt chunk (bearer_credential credential) st))"
      using submitted by (simp add: batch_handler_def run h_bind_lift)
    then have "ss_log st' = ss_log (fst (batch_submit fuel env rt chunk (bearer_credential credential) st))"
      using assms by simp
    moreover obtain st2 r2 where submit: "batch_submit fuel env rt chunk (bearer_credential credential) st = (st2, r2)"
      by (cases "batch_submit fuel env rt chunk (bearer_credential credential) st")
    ultimately have "ss_log st' = ss_log st2"
      by simp
    then show ?thesis
      using batch_submit_log [OF submit] run by (auto split: sum.splits)
  qed
qed

lemma batch_handler_signs:
  assumes "validate_request env coins request = Inr chunk"
    and "runtime_resolve chunk (push_networks ps) (push_sponsor ps) (push_settings ps) = Inr rt"
    and "submit_checks env rt chunk (bearer_credential credential) = Inr tx"
  shows "\<exists>evs. signing_log env rt tx evs
    \<and> ss_log (fst (batch_handler fuel env (Some ps) coins (Some (Some credential)) request st)) = ss_log st @ evs"
proof -
  obtain st2 r2 where submit: "batch_submit fuel env rt chunk (bearer_credential credential) st = (st2, r2)"
    by (cases "batch_submit fuel env rt chunk (bearer_credential credential) st")
  have "ss_log (fst (batch_handler fuel env (Some ps) coins (Some (Some credential)) request st)) = ss_log st2"
    by (cases r2) (simp_all add: batch_handler_def h_bind_lift assms(1,2) h_bind_def [of "batch_submit _ _ _ _ _"] submit h_lift_def)
  then show ?thesis
    using batch_submit_log [OF submit] assms(3) by auto
qed

section \<open>From the permit to the sponsor\<close>

text \<open>A validated request describes a planned chunk of a permit.\<close>

definition describes :: "batch_signing_permit \<Rightarrow> planned_chunk \<Rightarrow> validated_chunk \<Rightarrow> bool" where
  "describes p ch chunk \<longleftrightarrow>
     vc_sender chunk = account_pubkey p \<and> coin_mint (vc_coin chunk) = pm_mint p
     \<and> coin_token_program (vc_coin chunk) = pm_token_program p \<and> coin_decimals (vc_coin chunk) = pm_decimals p
     \<and> vc_memo chunk = memo ch
     \<and> map (\<lambda>t. (vt_row_id t, vt_recipient t, vt_amount_raw t)) (vc_transfers chunk) = map entry_triple (entries ch)"

lemma ix_matches_fields:
  assumes "pm_fee_payer p = pm_fee_payer p'" "pm_mint p = pm_mint p'" "pm_token_program p = pm_token_program p'"
    "pm_decimals p = pm_decimals p'" "source_ata p = source_ata p'" "account_pubkey p = account_pubkey p'"
  shows "ix_matches chain p tx sp ix \<longleftrightarrow> ix_matches chain p' tx sp ix"
  by (cases sp) (simp_all add: assms)

lemma transaction_matches_message:
  assumes "account_keys tx = account_keys tx'" and "instructions tx = instructions tx'"
  shows "transaction_matches chain p ch tx \<longleftrightarrow> transaction_matches chain p ch tx'"
proof -
  have "key_at tx = key_at tx'"
    by (intro ext) (simp add: key_at_def assms(1))
  then have "ix_matches chain p tx sp ix \<longleftrightarrow> ix_matches chain p tx' sp ix" for sp ix
    by (cases sp) simp_all
  then show ?thesis
    by (simp add: transaction_matches_def assms cong: list.rel_cong)
qed

lemma described_entries:
  assumes "map (\<lambda>t. (vt_row_id t, vt_recipient t, vt_amount_raw t)) ts = map entry_triple es"
  shows "map sponsored_entry (zip ts (map ata_creation_required es)) = es"
proof -
  have "length ts = length es"
    using assms by (auto dest: map_eq_imp_length_eq)
  then show ?thesis
    using assms
  proof (induction ts es rule: list_induct2)
    case (Cons t ts e es)
    then show ?case
      by (cases e) (simp add: sponsored_entry_def entry_triple_def)
  qed simp
qed

text \<open>
  What the permit accepts for a chunk the sponsor accepts too, if the sponsor pays the fee and the chunk
  stays within the sponsor's ceilings.
\<close>

lemma planned_is_sponsored:
  assumes "describes p ch chunk" and "transaction_matches (be_chain env) p ch tx"
    and "pm_fee_payer p = sponsor_key rt"
    and "source_ata p = derive_associated_token_address (be_chain env) (account_pubkey p) (pm_mint p) (pm_token_program p)"
    and "compute_unit_price_micro_lamports ch \<le> max_unit_price (rt_settings rt)"
    and "compute_unit_limit ch \<le> max_unit_limit (rt_settings rt)"
  shows "sponsored_transaction env rt chunk tx"
proof -
  let ?chain = "be_chain env" and ?p = "sponsored_permit env rt chunk"
  let ?flags = "map ata_creation_required (entries ch)"
  let ?ch = "sponsored_plan rt chunk ?flags"
  have fields: "pm_fee_payer p = pm_fee_payer ?p" "pm_mint p = pm_mint ?p" "pm_token_program p = pm_token_program ?p"
    "pm_decimals p = pm_decimals ?p" "source_ata p = source_ata ?p" "account_pubkey p = account_pubkey ?p"
    using assms(1,3,4) by (simp_all add: describes_def sponsored_permit_def sponsor_ata_def derive_associated_token_address_def)
  have es: "entries ?ch = entries ch" "memo ?ch = memo ch"
    using assms(1) described_entries [of "vc_transfers chunk" "entries ch"] by (simp_all add: describes_def sponsored_plan_def)
  let ?rest = "concat (map (entry_specs ?chain p) (entries ch)) @ [PostMemo (memo ch)]"
  have rest: "concat (map (entry_specs ?chain ?p) (entries ?ch)) @ [PostMemo (memo ?ch)] = ?rest"
    by (simp add: es entry_specs_def fields cong: map_cong)
  have "list_all2 (ix_matches ?chain p tx)
      (SetPriceUpTo (compute_unit_price_micro_lamports ch) # SetLimitUpTo (compute_unit_limit ch) # ?rest) (instructions tx)"
    using assms(2) by (simp add: transaction_matches_def chunk_specs_def)
  then obtain i1 i2 more where ixs: "instructions tx = i1 # i2 # more"
    "ix_matches ?chain p tx (SetPriceUpTo (compute_unit_price_micro_lamports ch)) i1"
    "ix_matches ?chain p tx (SetLimitUpTo (compute_unit_limit ch)) i2" "list_all2 (ix_matches ?chain p tx) ?rest more"
    by (auto simp: list_all2_Cons1 simp del: ix_matches.simps)
  have "ix_matches ?chain p tx (SetPriceUpTo (max_unit_price (rt_settings rt))) i1"
    "ix_matches ?chain p tx (SetLimitUpTo (max_unit_limit (rt_settings rt))) i2"
    using ixs(2,3) assms(5,6) by (auto dest: le_trans)
  moreover have "chunk_specs ?chain ?p ?ch =
      SetPriceUpTo (max_unit_price (rt_settings rt)) # SetLimitUpTo (max_unit_limit (rt_settings rt)) # ?rest"
    unfolding chunk_specs_def rest by (simp add: sponsored_plan_def)
  moreover have "ix_matches ?chain ?p tx = ix_matches ?chain p tx"
    by (intro ext) (rule ix_matches_fields [OF fields, symmetric])
  ultimately have "list_all2 (ix_matches ?chain ?p tx) (chunk_specs ?chain ?p ?ch) (instructions tx)"
    using ixs(1,4) by (simp del: ix_matches.simps)
  moreover have "nth_opt (account_keys tx) 0 = Some (pm_fee_payer ?p)"
    using assms(2) fields(1) by (simp add: transaction_matches_def)
  moreover have "length ?flags = length (vc_transfers chunk)"
    using assms(1) by (auto simp: describes_def dest!: map_eq_imp_length_eq)
  ultimately show ?thesis
    unfolding sponsored_transaction_def transaction_matches_def by blast
qed

text \<open>
  The client's request as a typed value, and its JSON as the wire types derive it: one member per field,
  in camel case.
\<close>

definition client_entry :: "'w http_client \<Rightarrow> gasless_config \<Rightarrow> planned_transfer_entry \<Rightarrow> transfer_batch_entry option" where
  "client_entry http gc e =
     map_option (\<lambda>amount. \<lparr>tbe_row_id = entry_row_number e, tbe_recipient = base58_text http (entry_recipient e),
         tbe_amount = amount\<rparr>) (format_token_amount (entry_amount_raw e) (gasless_decimals gc))"

definition client_request ::
  "'w http_client \<Rightarrow> gasless_config \<Rightarrow> transfer_network \<Rightarrow> planned_chunk \<Rightarrow> transfer_batch_request option" where
  "client_request http gc net ch =
     map_option (\<lambda>transfers. \<lparr>tb_batch_id = batch_id gc, tb_chunk_index = chunk_index ch,
         tb_sender = base58_text http (gasless_sender gc), tb_currency = currency gc, tb_network = net,
         tb_transfers = transfers\<rparr>) (those (map (client_entry http gc) (entries ch)))"

definition entry_json :: "transfer_batch_entry \<Rightarrow> json" where
  "entry_json t = JObject [(''rowId'', JNumber (int (tbe_row_id t))), (''recipient'', JString (tbe_recipient t)),
     (''amount'', JString (tbe_amount t))]"

definition request_json :: "transfer_batch_request \<Rightarrow> json" where
  "request_json r = JObject [(''batchId'', JString (tb_batch_id r)), (''chunkIndex'', JNumber (int (tb_chunk_index r))),
     (''sender'', JString (tb_sender r)), (''currency'', JString (tb_currency r)),
     (''network'', JString (transfer_network_str (tb_network r))), (''transfers'', JArray (map entry_json (tb_transfers r)))]"

lemma those_map_option: "those (map (\<lambda>x. map_option f (g x)) xs) = map_option (map f) (those (map g xs))"
  by (induction xs) (auto split: option.split simp: option.map_comp comp_def)

lemma request_body_client:
  assumes "network gc = transfer_network_str net"
  shows "request_body http gc ch = map_option request_json (client_request http gc net ch)"
proof -
  have "transfer_json http gc = (\<lambda>e. map_option entry_json (client_entry http gc e))"
    by (intro ext) (simp add: transfer_json_def client_entry_def entry_json_def option.map_comp comp_def)
  then show ?thesis
    by (simp add: request_body_def client_request_def those_map_option option.map_comp comp_def request_json_def assms)
qed

lemma client_request_fields:
  assumes "client_request http gc net ch = Some r"
  shows "tb_chunk_index r = chunk_index ch" and "tb_network r = net"
    and "map tbe_row_id (tb_transfers r) = map entry_row_number (entries ch)"
proof -
  obtain ts where ts: "list_all2 (\<lambda>e t. client_entry http gc e = Some t) (entries ch) ts" "tb_transfers r = ts"
    and "tb_chunk_index r = chunk_index ch" "tb_network r = net"
    using assms by (auto simp: client_request_def those_list_all2)
  then show "tb_chunk_index r = chunk_index ch" "tb_network r = net"
    by simp_all
  show "map tbe_row_id (tb_transfers r) = map entry_row_number (entries ch)"
    unfolding ts(2) using ts(1) by (induction rule: list_all2_induct) (auto simp: client_entry_def)
qed

lemma position_None: "position P xs = None \<longleftrightarrow> (\<forall>x\<in>set xs. \<not> P x)"
  by (induction xs) auto

text \<open>The text forms both sides use: keys read back, and amounts printed in token units parse to base units.\<close>

definition texts_agree :: "'w batch_env \<Rightarrow> 'v http_client \<Rightarrow> pubkey set \<Rightarrow> bool" where
  "texts_agree env http keys \<longleftrightarrow> (\<forall>k\<in>keys. pubkey_of_text env (trim (base58_text http k)) = Some k)"

definition units_agree :: "'w batch_env \<Rightarrow> nat \<Rightarrow> bool" where
  "units_agree env decs \<longleftrightarrow>
     (\<forall>n s. n < 2 ^ 64 \<and> format_token_amount n decs = Some s \<longrightarrow> parse_units env (trim s) decs = Some (show_nat n))"

lemma client_entries_valid:
  assumes "units_agree env (coin_decimals coin)" and "gasless_decimals gc = coin_decimals coin"
    and "texts_agree env http (set (map entry_recipient es))"
    and "\<forall>e\<in>set es. 0 < entry_amount_raw e \<and> entry_amount_raw e < 2 ^ 64"
    and "distinct (seen @ map entry_row_number es)" and "those (map (client_entry http gc) es) = Some ts"
  shows "try_fold (validate_transfer env coin) (seen, acc) (enumerate n ts) =
    Inr (seen @ map entry_row_number es, acc @ map (\<lambda>e. \<lparr>vt_row_id = entry_row_number e, vt_recipient = entry_recipient e,
       vt_amount_raw = entry_amount_raw e\<rparr>) es)"
  using assms(3-6)
proof (induction es arbitrary: seen acc n ts)
  case (Cons e es)
  obtain s ts' where ts: "ts = \<lparr>tbe_row_id = entry_row_number e, tbe_recipient = base58_text http (entry_recipient e),
      tbe_amount = s\<rparr> # ts'" "format_token_amount (entry_amount_raw e) (coin_decimals coin) = Some s"
    "those (map (client_entry http gc) es) = Some ts'"
    using Cons.prems(4) by (auto simp: client_entry_def [of http gc e] assms(2) split: option.splits)
  have key: "pubkey_of_text env (trim (base58_text http (entry_recipient e))) = Some (entry_recipient e)"
    using Cons.prems(1) by (simp add: texts_agree_def)
  have amount: "parse_positive_base_units env s (coin_decimals coin) = Some (entry_amount_raw e)"
  proof -
    have n: "0 < entry_amount_raw e" "entry_amount_raw e < 2 ^ 64"
      using Cons.prems(2) by (simp_all only: list.set ball_simps)
    then have "parse_units env (trim s) (coin_decimals coin) = Some (show_nat (entry_amount_raw e))"
      using assms(1) ts(2) unfolding units_agree_def by blast
    then show ?thesis
      using n by (simp only: parse_positive_base_units_def bind.bind_lunit parse_u64_show) simp
  qed
  have "position (\<lambda>r. r = entry_row_number e) seen = None"
    using Cons.prems(3) by (auto simp: position_None)
  then have "validate_transfer env coin (seen, acc) (n, hd ts) = Inr (seen @ [entry_row_number e],
      acc @ [\<lparr>vt_row_id = entry_row_number e, vt_recipient = entry_recipient e, vt_amount_raw = entry_amount_raw e\<rparr>])"
    by (simp add: validate_transfer_def ts(1) key amount)
  moreover have "texts_agree env http (set (map entry_recipient es))"
    "\<forall>e\<in>set es. 0 < entry_amount_raw e \<and> entry_amount_raw e < 2 ^ 64"
    "distinct ((seen @ [entry_row_number e]) @ map entry_row_number es)"
    using Cons.prems by (simp_all add: texts_agree_def)
  ultimately show ?case
    using Cons.IH [OF _ _ _ ts(3)] by (simp add: ts(1))
qed simp

lemma to_ascii_lowercase_id: "\<not> list_ex is_ascii_uppercase s \<Longrightarrow> to_ascii_lowercase s = s"
  by (induction s) (auto simp: to_ascii_lowercase_def is_ascii_uppercase_def Let_def)

text \<open>
  What the client's configuration and the sponsor's have to agree on for a chunk of a permit: the batch
  id is the hex of a hash, client and permit name the same sender and decimals, the currency is listed
  with the permit's mint, the texts agree, and the chunk is a gasless one of the planner: one to eight
  payouts, distinct rows, positive amounts, the planner's memo.
\<close>

definition agreed_terms ::
  "'w batch_env \<Rightarrow> stablecoin list \<Rightarrow> 'v http_client \<Rightarrow> gasless_config \<Rightarrow> batch_signing_permit \<Rightarrow> planned_chunk \<Rightarrow> bool" where
  "agreed_terms env coins http gc p ch \<longleftrightarrow>
     length (batch_id gc) = BATCH_ID_HEX_LEN \<and> \<not> list_ex is_ascii_uppercase (batch_id gc)
     \<and> blake3_from_hex env (batch_id gc) \<noteq> None
     \<and> gasless_sender gc = account_pubkey p \<and> gasless_decimals gc = pm_decimals p
     \<and> (\<exists>coin. find (\<lambda>c. eq_ignore_ascii_case (coin_symbol c) (trim (currency gc))
            \<or> pubkey_display env (coin_mint c) = trim (currency gc)) coins = Some coin
          \<and> coin_mint coin = pm_mint p \<and> coin_token_program coin = pm_token_program p \<and> coin_decimals coin = pm_decimals p)
     \<and> texts_agree env http (insert (account_pubkey p) (set (map entry_recipient (entries ch))))
     \<and> units_agree env (pm_decimals p)
     \<and> entries ch \<noteq> [] \<and> length (entries ch) \<le> MAX_TRANSFER_BATCH_TRANSFERS
     \<and> distinct (map entry_row_number (entries ch))
     \<and> (\<forall>e\<in>set (entries ch). 0 < entry_amount_raw e \<and> entry_amount_raw e < 2 ^ 64)
     \<and> memo ch = chunk_memo (manifest_hash_prefix (batch_id gc)) (chunk_index ch)"

lemma client_request_valid:
  assumes "agreed_terms env coins http gc p ch" and "client_request http gc net ch = Some r"
  shows "\<exists>chunk. validate_request env coins r = Inr chunk \<and> describes p ch chunk"
proof -
  note terms = assms(1) [unfolded agreed_terms_def]
  obtain coin where coin: "find (\<lambda>c. eq_ignore_ascii_case (coin_symbol c) (trim (currency gc))
      \<or> pubkey_display env (coin_mint c) = trim (currency gc)) coins = Some coin"
    "coin_mint coin = pm_mint p" "coin_token_program coin = pm_token_program p" "coin_decimals coin = pm_decimals p"
    using terms by blast
  obtain ts where ts: "those (map (client_entry http gc) (entries ch)) = Some ts"
    and r: "r = \<lparr>tb_batch_id = batch_id gc, tb_chunk_index = chunk_index ch,
      tb_sender = base58_text http (account_pubkey p), tb_currency = currency gc, tb_network = net, tb_transfers = ts\<rparr>"
    using assms(2) terms by (auto simp: client_request_def)
  have len: "length ts = length (entries ch)"
    using ts unfolding those_list_all2 by (auto dest: list_all2_lengthD)
  have loop: "try_fold (validate_transfer env coin) ([], []) (enumerate 0 ts) =
      Inr (map entry_row_number (entries ch), map (\<lambda>e. \<lparr>vt_row_id = entry_row_number e, vt_recipient = entry_recipient e,
         vt_amount_raw = entry_amount_raw e\<rparr>) (entries ch))"
    using client_entries_valid [of env coin gc http "entries ch" "[]" ts "[]" 0] terms coin(4) ts
    by (simp add: texts_agree_def)
  have count: "\<not> (length ts < MIN_TRANSFER_BATCH_TRANSFERS \<or> MAX_TRANSFER_BATCH_TRANSFERS < length ts)"
    using terms len by (cases "entries ch") (simp_all add: MIN_TRANSFER_BATCH_TRANSFERS_def)
  have prefix: "manifest_hash_prefix (batch_id gc) = take 8 (batch_id gc)"
    using terms by (simp add: manifest_hash_prefix_def MANIFEST_HASH_PREFIX_LEN_def BATCH_ID_HEX_LEN_def)
  have sender: "pubkey_of_text env (trim (base58_text http (account_pubkey p))) = Some (account_pubkey p)"
    using terms by (simp add: texts_agree_def)
  have "validate_request env coins r = Inr \<lparr>vc_batch_id = batch_id gc, vc_chunk_index = chunk_index ch,
      vc_sender = account_pubkey p, vc_network = net, vc_coin = coin,
      vc_transfers = map (\<lambda>e. \<lparr>vt_row_id = entry_row_number e, vt_recipient = entry_recipient e,
         vt_amount_raw = entry_amount_raw e\<rparr>) (entries ch), vc_memo = memo ch\<rparr>"
  proof -
    have id: "length (batch_id gc) = BATCH_ID_HEX_LEN" "\<not> list_ex is_ascii_uppercase (batch_id gc)"
      "blake3_from_hex env (batch_id gc) \<noteq> None"
      and memo: "memo ch = ''pay-push:v1:'' @ take 8 (batch_id gc) @ '':'' @ show_nat (chunk_index ch)"
      using terms by (simp_all add: prefix chunk_memo_def)
    show ?thesis
      using count by (simp add: validate_request_def r sender coin(1) loop id to_ascii_lowercase_id [OF id(2)] memo Let_def)
  qed
  then show ?thesis
    using coin by (auto simp: describes_def entry_triple_def)
qed

section \<open>A concrete sponsor\<close>

text \<open>
  A sponsor for the sample permit: its key is \<open>[8]\<close>, the node accepts and confirms everything, the one
  credential \<open>tx\<close> is the sample transaction signed by the sender.
\<close>

definition sample_batch_id :: string where
  "sample_batch_id = ''abcd0102'' @ replicate 56 (CHR ''0'')"

definition sample_signed_tx :: versioned_transaction where
  "sample_signed_tx = sample_tx\<lparr>signatures := [default_signature, [42]]\<rparr>"

definition agreeable_node :: "nat rpc_http" where
  "agreeable_node = slow_node\<lparr>http_post := (\<lambda>w url body. (Answered 200 (Some (JObject [(''result'',
     if json_get body ''method'' = Some (JString ''sendTransaction'') then JString ''sig''
     else JObject [(''value'', JArray [JObject [(''confirmationStatus'', JString ''confirmed'')]])])])), w + 1))\<rparr>"

definition sample_batch_env :: "nat batch_env" where
  "sample_batch_env =
     \<lparr>be_chain = sample_env, be_http = agreeable_node,
      parse_units = (\<lambda>s d. case parse_token_amount s d of Inr n \<Rightarrow> Some (show_nat n) | Inl _ \<Rightarrow> None),
      pubkey_of_text = (\<lambda>s. if s = ''9'' then Some [9] else if s = ''3'' then Some [3] else None),
      pubkey_display = (\<lambda>_. ''8''), blake3_from_hex = (\<lambda>_. Some []), base64_standard = (\<lambda>_. Inr []),
      decode_transaction = (\<lambda>_. Inr sample_signed_tx), check_envelope_v0 = (\<lambda>_. Inr ()),
      serialize_message = (\<lambda>tx. recent_blockhash tx), verify_signature = (\<lambda>s k m. s = [42] \<and> k = [9]),
      cosign_fee_payer = (\<lambda>w k tx. (Inr (tx\<lparr>signatures := [[1], [42]]\<rparr>), w)),
      encode_transaction = (\<lambda>_. Inr ''signed''), expiry_text = (\<lambda>w d. ([], w))\<rparr>"

definition sample_coin :: stablecoin where
  "sample_coin = \<lparr>coin_symbol = ''USDC'', coin_mint = replicate 32 8, coin_token_program = replicate 32 9, coin_decimals = 6\<rparr>"

definition default_settings :: transfer_batch_settings where
  "default_settings = \<lparr>max_unit_price = 10000, max_unit_limit = 400000, base_fee_lamports = 10000,
     ata_rent_lamports = 2039280, usd_per_sol = Finite 150, challenge_ttl = 120, confirm_timeout = 30000\<rparr>"

definition sample_push :: push_state where
  "sample_push = \<lparr>push_networks = [Localnet \<mapsto> ''http://node''], push_sponsor = [8], push_settings = default_settings\<rparr>"

definition sample_request :: transfer_batch_request where
  "sample_request = \<lparr>tb_batch_id = sample_batch_id, tb_chunk_index = 4, tb_sender = ''9'', tb_currency = ''8'',
     tb_network = Localnet, tb_transfers = [\<lparr>tbe_row_id = 4, tbe_recipient = ''3'', tbe_amount = ''0.000007''\<rparr>]\<rparr>"

definition sample_chunk_request :: validated_chunk where
  "sample_chunk_request = \<lparr>vc_batch_id = sample_batch_id, vc_chunk_index = 4, vc_sender = [9], vc_network = Localnet,
     vc_coin = sample_coin, vc_transfers = [\<lparr>vt_row_id = 4, vt_recipient = [3], vt_amount_raw = 7\<rparr>],
     vc_memo = ''pay-push:v1:abcd0102:4''\<rparr>"

definition sample_runtime :: transfer_batch_runtime where
  "sample_runtime = \<lparr>rt_url = ''http://node'', sponsor_key = [8], rt_settings = default_settings\<rparr>"

lemma sample_id: "length sample_batch_id = 64" "\<not> list_ex is_ascii_uppercase sample_batch_id"
  "take 8 sample_batch_id = ''abcd0102''"
  by (simp_all add: sample_batch_id_def is_ascii_uppercase_def list_ex_iff)

lemma sponsor_texts: "trim ''9'' = ''9''" "trim ''3'' = ''3''" "trim ''8'' = ''8''" "trim ''0.000007'' = ''0.000007''"
  "show_nat 4 = ''4''" "parse_u64 (show_nat 7) = Some 7" "parse_token_amount ''0.000007'' 6 = Inr 7"
proof -
  show "trim ''9'' = ''9''" "trim ''3'' = ''3''" "trim ''8'' = ''8''" "trim ''0.000007'' = ''0.000007''"
    by (rule trim_id; simp add: is_ascii_digit_def)+
  show "show_nat 4 = ''4''"
    by code_simp
  show "parse_u64 (show_nat 7) = Some 7"
    by (rule parse_u64_show) simp
  show "parse_token_amount ''0.000007'' 6 = Inr 7"
    using format_parse [of 7 6] by (simp add: sample_format)
qed

lemma sample_request_valid: "validate_request sample_batch_env [sample_coin] sample_request = Inr sample_chunk_request"
  by (simp add: validate_request_def sample_request_def sample_batch_env_def sample_id sponsor_texts BATCH_ID_HEX_LEN_def
      MIN_TRANSFER_BATCH_TRANSFERS_def MAX_TRANSFER_BATCH_TRANSFERS_def validate_transfer_def parse_positive_base_units_def
      sample_coin_def to_ascii_lowercase_id [OF sample_id(2)] sample_chunk_request_def Let_def)

lemma sample_terms: "distinct_programs (be_chain sample_batch_env)"
  by (simp add: distinct_programs_def sample_batch_env_def sample_env_def)

lemma sample_sponsored: "sponsored_transaction sample_batch_env sample_runtime sample_chunk_request sample_signed_tx"
proof (rule planned_is_sponsored)
  show "describes sample_permit (chunks sample_plan ! 1) sample_chunk_request"
    by (simp add: describes_def sample_chunk_request_def sample_coin_def sample_permit_def sample_plan_def entry_triple_def)
  have "transaction_matches sample_env sample_permit (chunks sample_plan ! 1) sample_signed_tx
      = transaction_matches sample_env sample_permit (chunks sample_plan ! 1) sample_tx"
    by (rule transaction_matches_message) (simp_all add: sample_signed_tx_def)
  then show "transaction_matches (be_chain sample_batch_env) sample_permit (chunks sample_plan ! 1) sample_signed_tx"
    using sample_tx_matches by (simp add: sample_batch_env_def)
qed (simp_all add: sample_permit_def sample_runtime_def sample_batch_env_def sample_env_def derive_associated_token_address_def
    sample_plan_def default_settings_def)

lemma sample_submission: "submit_checks sample_batch_env sample_runtime sample_chunk_request ''7'' = Inr sample_signed_tx"
proof -
  have "length default_signature \<noteq> length [42 :: byte]"
    by (simp add: default_signature_def)
  then have "[42] \<noteq> default_signature"
    by metis
  moreover have "position (\<lambda>k. k = [9]) (account_keys sample_signed_tx) = Some 1"
    by (simp add: sample_signed_tx_def sample_tx_def Let_def)
  moreover have "nth_opt (signatures sample_signed_tx) 1 = Some [42]"
    by (simp add: sample_signed_tx_def nth_opt_def)
  moreover have "verify_signature sample_batch_env [42] [9] m" for m
    by (simp add: sample_batch_env_def)
  ultimately have "sender_signed sample_batch_env [9] sample_signed_tx"
    unfolding sender_signed_def by blast
  moreover have "fee_payer_open sample_signed_tx"
    by (simp add: fee_payer_open_def sample_signed_tx_def nth_opt_def)
  moreover have "vc_sender sample_chunk_request = [9]"
    by (simp add: sample_chunk_request_def)
  ultimately show ?thesis
    using sample_sponsored by (simp add: submit_checks_Inr [OF sample_terms]) (simp add: sample_batch_env_def)
qed

lemma sample_settled:
  "\<exists>st'. batch_handler 1 sample_batch_env (Some sample_push) [sample_coin] (Some (Some ''Bearer 7'')) sample_request
      \<lparr>ss_world = 0, ss_log = []\<rparr> = (st', Inr (Settled200 \<lparr>rs_batch_id = sample_batch_id, rs_chunk_index = 4,
        rs_row_ids = [4], rs_signature = ''sig''\<rparr>))
    \<and> ss_log st' = [AskedToSign sample_signed_tx, SentTransaction ''signed'']"
proof -
  have rt: "runtime_resolve sample_chunk_request (push_networks sample_push) (push_sponsor sample_push) (push_settings sample_push)
      = Inr sample_runtime"
    by (simp add: runtime_resolve_def sample_chunk_request_def sample_push_def sample_runtime_def)
  have "trim ''7'' = ''7''"
    by (rule trim_id; simp add: is_ascii_digit_def)
  then have credential: "bearer_credential ''Bearer 7'' = ''7''"
    by (simp add: bearer_credential_def)
  have fields: "sponsor_key sample_runtime = [8]" "rt_url sample_runtime = ''http://node''"
    "confirm_timeout (rt_settings sample_runtime) = 30000" "vc_batch_id sample_chunk_request = sample_batch_id"
    "vc_chunk_index sample_chunk_request = 4" "map vt_row_id (vc_transfers sample_chunk_request) = [4]"
    by (simp_all add: sample_runtime_def sample_chunk_request_def default_settings_def)
  have env: "cosign_fee_payer sample_batch_env w k tx = (Inr (tx\<lparr>signatures := [[1], [42]]\<rparr>), w)"
    "encode_transaction sample_batch_env tx = Inr ''signed''" "be_http sample_batch_env = agreeable_node" for w k tx
    by (simp_all add: sample_batch_env_def)
  have sent: "send_raw_transaction agreeable_node url tx w = (w + 1, Inr ''sig'')" for url tx w
    by (simp add: send_raw_transaction_def post_rpc_value_def h_bind_def h_lift_def world_call_def agreeable_node_def rpc_body_def
        json_get_def http_body_def envelope_result_def envelope_error_def json_as_str_def)
  have confirmed: "confirm_signature 1 agreeable_node url sig d w = (w + 1, Inr ())" for url sig d w
    by (simp add: confirm_signature_def confirm_signature_at_def post_rpc_value_def h_bind_def h_lift_def world_call_def
        agreeable_node_def slow_node_def rpc_body_def statuses_body_def json_get_def http_body_def envelope_result_def
        envelope_error_def json_as_str_def first_status_def json_as_array_def confirm_entry_def json_str_at_def
        reaches_commitment_def)
  show ?thesis
    by (simp add: batch_handler_def h_bind_lift sample_request_valid rt credential batch_submit_def sample_submission
        h_bind_def on_world_def on_rpc_def log_sponsor_def env sent confirmed [simplified] fields h_lift_def)
qed

section \<open>Properties\<close>

text \<open>
  C9: the sponsor pays for the requested payouts only. Whatever the request, the header and the answers
  of the network, a call of the endpoint asks the fee payer's key for at most one signature, and then the
  transaction is one of the chunk that the request describes: the sponsor pays its fee, compute price and
  limit are within the ceilings, the transfers are exactly the requested ones out of the sender's own
  account, each at most preceded by the creation of its recipient's account, followed by the memo of the
  chunk and nothing else; it carries a valid signature of the sender, and the fee payer's slot was empty.
  Only that transaction, co-signed, is sent.
\<close>
theorem sponsor_signs_only_requested_payouts:
  assumes "distinct_programs (be_chain env)"
    and "batch_handler fuel env push coins header request st = (st', r)"
  shows "ss_log st' = ss_log st
    \<or> (\<exists>chunk rt tx evs. validate_request env coins request = Inr chunk \<and> Some (sponsor_key rt) = map_option push_sponsor push
         \<and> Some (rt_settings rt) = map_option push_settings push
         \<and> ss_log st' = ss_log st @ evs \<and> signing_log env rt tx evs
         \<and> sponsored_transaction env rt chunk tx \<and> sender_signed env (vc_sender chunk) tx \<and> fee_payer_open tx)"
proof -
  have "sponsor_key rt = push_sponsor ps \<and> rt_settings rt = push_settings ps"
    if "runtime_resolve chunk (push_networks ps) (push_sponsor ps) (push_settings ps) = Inr rt" for chunk ps rt
    using that by (auto simp: runtime_resolve_def and_then_eq_Inr)
  then show ?thesis
    using batch_handler_log [OF assms(2)] unfolding submit_checks_Inr [OF assms(1)] by fastforce
qed

theorem sponsor_signs_only_requested_payouts_witness:
  "\<exists>st' chunk rt tx. batch_handler 1 sample_batch_env (Some sample_push) [sample_coin] (Some (Some ''Bearer 7'')) sample_request
      \<lparr>ss_world = 0, ss_log = []\<rparr> = (st', Inr (Settled200 \<lparr>rs_batch_id = sample_batch_id, rs_chunk_index = 4,
        rs_row_ids = [4], rs_signature = ''sig''\<rparr>))
    \<and> validate_request sample_batch_env [sample_coin] sample_request = Inr chunk \<and> sponsor_key rt = [8]
    \<and> AskedToSign tx \<in> set (ss_log st')
    \<and> sponsored_transaction sample_batch_env rt chunk tx \<and> sender_signed sample_batch_env (vc_sender chunk) tx"
proof -
  obtain st' where run: "batch_handler 1 sample_batch_env (Some sample_push) [sample_coin] (Some (Some ''Bearer 7'')) sample_request
      \<lparr>ss_world = 0, ss_log = []\<rparr> = (st', Inr (Settled200 \<lparr>rs_batch_id = sample_batch_id, rs_chunk_index = 4,
        rs_row_ids = [4], rs_signature = ''sig''\<rparr>))"
    "ss_log st' = [AskedToSign sample_signed_tx, SentTransaction ''signed'']"
    using sample_settled by blast
  show ?thesis
    using sponsor_signs_only_requested_payouts [OF sample_terms run(1)] run
    by (auto simp: sample_push_def signing_log_def)
qed

text \<open>
  C11: the sponsor's validator and the permit's are two implementations of one contract. For every
  validated request, every transaction and whatever the sponsor's settings: the sponsor accepts the
  transaction exactly if the permit's validator accepts it for the payouts of the request under the
  sponsor's ceilings, for some choice of the recipients whose token account is created first.
\<close>
theorem sponsor_and_permit_agree:
  assumes "distinct_programs (be_chain env)"
  shows "sponsor_validate_transaction env rt chunk tx = Inr () \<longleftrightarrow>
    (\<exists>flags. length flags = length (vc_transfers chunk)
       \<and> validate_prepared_transaction (be_chain env) (sponsored_permit env rt chunk) (sponsored_plan rt chunk flags) tx = Inr ())"
  by (rule sponsor_validate_transaction_iff [OF assms])

theorem sponsor_and_permit_agree_witness:
  "\<exists>flags. length flags = length (vc_transfers sample_chunk_request)
     \<and> validate_prepared_transaction (be_chain sample_batch_env)
         (sponsored_permit sample_batch_env sample_runtime sample_chunk_request)
         (sponsored_plan sample_runtime sample_chunk_request flags) sample_signed_tx = Inr ()"
proof -
  have "sponsor_validate_transaction sample_batch_env sample_runtime sample_chunk_request sample_signed_tx = Inr ()"
    using sample_submission by (auto simp: submit_checks_def and_then_eq_Inr map_err_eq_Inr sample_batch_env_def)
  then show ?thesis
    using sponsor_and_permit_agree [OF sample_terms] by blast
qed

end
