(* ===== verification/Spec2Isabelle.thy ===== *)
theory Spec2Isabelle
  imports Split_Rules Upto_Usage Fanout_History Spend_Policy Sell_Queue Compute_History Sponsor_Batch
begin

text \<open>
  Verification of the money-handling core of \<open>pay\<close> (\<^verbatim>\<open>src/rust/crates\<close>).

  \<^bold>\<open>The program.\<close> \<open>pay\<close> answers HTTP 402 challenges with stablecoin payments, sells metered access on
  the server side, and pays out CSV manifests on Solana. Six parts carry its own logic about money.
  The \<^emph>\<open>payout pipeline\<close> (\<open>pay fanout\<close>) reads a CSV into a canonical manifest, packs its rows into
  transactions, has the plan approved once, signs and sends chunk by chunk under a write-ahead journal,
  and resumes from that journal after an interruption; for gasless chunks the API's \<^emph>\<open>sponsor\<close> checks and
  co-signs each transaction. The \<^emph>\<open>price tables\<close> of an API specification say what a call costs, how the
  charge is split, and how a usage-metered call settles from its response. The \<^emph>\<open>metering gate\<close> of a session server turns
  observed usage into voucher demands and settlements. The \<^emph>\<open>spending policy\<close> of the MCP server caps
  what agents may spend, behind an approval prompt. The \<^emph>\<open>seller queue\<close> hands paid requests of a
  tunnelled endpoint to its worker under memory budgets. The \<^emph>\<open>selling policies\<close> of deployed functions fix
  what a request costs and who is paid, in a document store that several writers share.

  \<^bold>\<open>Theories, in the order of imports.\<close>
  \<^item> \<open>Pay_Prelude\<close>: results as sums (\<open>and_then\<close>, \<open>ok_or\<close>, \<open>map_err\<close>, \<open>ensure\<close>, \<open>try_fold\<close>), Rust's checked,
    wrapping and saturating integers on naturals, ordered maps (\<open>BTreeMap\<close>), little-endian bytes, request
    handlers over an outside world (\<open>h_bind\<close>, \<open>h_lift\<close>, with the triples \<open>h_triple\<close>), and the simplification
    rules on them.
  \<^item> \<open>Json_Value\<close>: the values and accessors of \<open>serde_json\<close> that several components read.
  \<^item> \<open>Token_Amount\<close> (\<^verbatim>\<open>core/src/client/send.rs\<close>): decimal amounts; parsing accepts exactly the canonical
    numerals that fit, and printing is its inverse.
  \<^item> \<open>Push_Manifest\<close> (\<^verbatim>\<open>core/src/client/push/manifest.rs\<close>): the CSV is accepted exactly when it denotes a
    list of positive payouts within the limits; the canonical hash binds the plan.
  \<^item> \<open>Push_Planner\<close> (\<^verbatim>\<open>push/planner.rs\<close>): packing partitions the rows in order, and every chunk boundary
    is forced by a size, compute, account or split limit.
  \<^item> \<open>Push_Permit\<close> (\<^verbatim>\<open>push/permit.rs\<close>): what is approved, and that signing never leaves it: amounts,
    counts, exact instructions, and re-signing only after expiry. Operations are steps of an inductive
    relation; invariants go by rule induction.
  \<^item> \<open>Tx_Landing\<close> (\<^verbatim>\<open>types/src/landing.rs\<close>): when a recorded payout may be replaced; over a ledger model
    of the cluster, a replaceable transaction never succeeds.
  \<^item> \<open>Push_Journal\<close> (\<^verbatim>\<open>push/journal.rs\<close>): the event log as a file, with torn writes, locking, loading and
    the reducer that decides what a resume does with a chunk.
  \<^item> \<open>Push_Executor\<close> (\<^verbatim>\<open>push/executor.rs\<close>): the run as a state-and-error computation over any transport;
    write-ahead order, in-flight window, exact tally and termination, with Hoare triples and the locale
    \<open>executor_invariant\<close>, interpreted on the run.
  \<^item> \<open>Push_Transport\<close> (\<^verbatim>\<open>push/executor.rs\<close>): the direct and the gasless transport over an HTTP client.
  \<^item> \<open>Float64\<close>: the binary64 arithmetic the code uses on money, as rationals rounded after every operation.
  \<^item> \<open>Api_Rpc\<close> (\<^verbatim>\<open>pay-api-core/src/rpc.rs\<close>): the API's JSON-RPC client; the wait for a signature ends and
    confirms only on a node's word.
  \<^item> \<open>Sponsor_Batch\<close> (\<^verbatim>\<open>pay-api-core/src/transfer_batch.rs\<close> and its endpoint): what the sponsor of gasless chunks
    signs; its validator and the permit's, kept in sync by hand in the code, accept the same transactions.
    The last section of this theory follows a chunk from the permit's signature to the sponsor's.
  \<^item> \<open>Fanout_Resume\<close>, \<open>Fanout_Command\<close>, \<open>Fanout_History\<close> (\<^verbatim>\<open>cli/src/commands/fanout.rs\<close>): the RPC client,
    the resume planner, the whole command, and histories of runs: indices are used once, and a resume
    never pays a row twice.
  \<^item> \<open>Session_Metering\<close> (\<^verbatim>\<open>core/src/server/session_metering.rs\<close>): rating and the usage gate.
  \<^item> \<open>Float64_Ops\<close>: comparison, division, parsing and printing of \<open>f64\<close>; rounding is monotone.
  \<^item> \<open>Price_Table\<close> (\<^verbatim>\<open>types/src/metering.rs\<close>, \<^verbatim>\<open>core/src/server/metering.rs\<close>, \<^verbatim>\<open>core/src/server/accounting.rs\<close>):
    endpoints, variants, tiers, volume accounting (the locale \<open>usage_accounting\<close>, interpreted on the in-memory
    store) and the prices of fixed schemes, which never undercharge; the meter of a session built from a table.
  \<^item> \<open>Split_Rules\<close> (\<^verbatim>\<open>types/src/splits.rs\<close>, the checks of \<^verbatim>\<open>types/src/metering.rs\<close>): who is paid what of a
    charge, what a checked specification guarantees of it, and when rounding leaves the primary recipient nothing.
  \<^item> \<open>Upto_Usage\<close> (\<^verbatim>\<open>core/src/server/metering.rs\<close>): usage read from a response, and its settlement in base units
    within the authorization.
  \<^item> \<open>Auth_Intent\<close> (\<^verbatim>\<open>keystore/src/auth.rs\<close>), \<open>Spend_Policy\<close> (\<^verbatim>\<open>mcp/src/policy.rs\<close>, \<^verbatim>\<open>mcp/src/context.rs\<close>): dollar
    amounts of approvals, the ledger of charges and the gates; the ledger refines a book of charges. Calls read
    the clock before they lock the ledger, so the daily cap holds up to calls overtaken across midnight.
  \<^item> \<open>Sell_Queue\<close> (\<^verbatim>\<open>connect/src/sell/queue.rs\<close>): the queue with its semaphores.
  \<^item> \<open>Compute_Policy\<close> (\<^verbatim>\<open>mcp-compute/src/payment_policy.rs\<close>): prices, splits and revisions; a resolved policy
    allocates the whole price. \<open>Compute_Store\<close> (\<^verbatim>\<open>payment_repository.rs\<close>): the documents with their codec, and
    conditional writes. \<open>Compute_Service\<close> (\<^verbatim>\<open>payment_service.rs\<close> and the policy part of \<^verbatim>\<open>google.rs\<close>): every
    handler that writes a policy keeps its log of writes justified. \<open>Compute_History\<close>: the store under
    interleaved writers; a version identifies one policy forever, and an admitted request meets the policy it
    was resolved against. Of Firestore it is assumed that a write takes effect only under its precondition and
    that update times are fresh; of the codec, that it is faithful on the values written.

  \<^bold>\<open>Conventions.\<close> A fallible function returns \<open>'e + 'a\<close> with a constructor per error; Rust integers are
  naturals with the width written out at every operation that can overflow; a loop that may wait forever
  takes fuel and says so when it runs out (\<open>OutOfFuel\<close>, which a run never reports once the fuel exceeds the
  polls the transport needs: \<open>run_ends\<close>; \<open>PollsExhausted\<close>, which \<open>confirm_signature_decides\<close> excludes).
  An \<open>f64\<close> is a rational rounded after every operation, with one zero. Code outside the repository (RPC nodes, PayKit builders, serde
  codecs, hash functions, base58, the keystore prompt, the operating system) is a parameter: a record of
  functions on an opaque world that each call advances. Properties assume of it only what is written in
  their hypotheses, and each has a witness on concrete functions.

  \<^bold>\<open>Not modelled.\<close> Terminal and web interfaces, argument parsing, HTTP servers and OAuth, keystore
  back ends, the skill catalogue, telemetry, deployment drivers and tests: they are I/O, glue over
  third-party services, or presentation. Of a specification document the codecs, routing and
  authentication are left out. The settlement worker, the session server, the x402 and MPP clients and
  the receipt parsers are logic of the same kind as the modelled parts and remain open.
\<close>

section \<open>A gasless chunk from the permit to the sponsor\<close>

lemma sign_chunk_credential:
  assumes "sign_chunk chain sg now p i tx last_valid = (p', Inr sc)" and "plan_for p i = Inr ch" and "sign_slot sg tx = Inr tx'"
  shows "transaction_matches chain p ch tx" and "encode_tx sg tx' = Inr (signed_transaction_base64 sc)"
proof -
  show "transaction_matches chain p ch tx"
    using assms(1,2) by (auto simp: sign_chunk_def sign_chunk_checks_def and_then_eq_Inr if_Inl_eq_Inr
        validate_prepared_transaction_iff [symmetric] Let_def split: sum.splits prod.splits)
  show "encode_tx sg tx' = Inr (signed_transaction_base64 sc)"
    using assms(1,3) by (auto simp: sign_chunk_def sign_transaction_bytes_def and_then_eq_Inr map_err_eq_Inr Let_def
        split: sum.splits prod.splits)
qed

text \<open>
  C10: what the permit signs the sponsor sponsors. Let client and sponsor agree on the terms of a chunk,
  the sponsor be the plan's fee payer and the chunk be within its ceilings. If the permit signs the
  transaction of the chunk, then the request the gasless transport sends is read and validated by the
  sponsor, and, sent with the signed transaction as its bearer credential, makes the sponsor ask its key
  to sign exactly that transaction. Of PayKit's signer it is assumed that it leaves the message alone,
  fills the sender's slot with a valid signature and not the fee payer's; of the codecs, that the sponsor
  reads back what the client wrote.
\<close>
theorem permit_signature_reaches_sponsor:
  assumes "distinct_programs (be_chain env)" and "agreed_terms env coins http gc p ch"
    and "\<forall>r. tb_chunk_index r < 2 ^ 32 \<and> (\<forall>t\<in>set (tb_transfers r). tbe_row_id t < 2 ^ 64) \<longrightarrow> read_request (request_json r) = Some r"
    and "chunk_index ch < 2 ^ 32" and "\<forall>e\<in>set (entries ch). entry_row_number e < 2 ^ 64"
    and "network gc = transfer_network_str net" and "request_body http gc ch = Some body"
    and "sign_chunk (be_chain env) sg now p i tx last_valid = (p', Inr sc)" and "plan_for p i = Inr ch"
    and "sign_slot sg tx = Inr tx'" and "account_keys tx' = account_keys tx" and "instructions tx' = instructions tx"
    and "sender_signed env (account_pubkey p) tx'" and "fee_payer_open tx'" and "check_envelope_v0 env tx' = Inr ()"
    and "\<forall>enc. encode_tx sg tx' = Inr enc \<longrightarrow>
           trim enc = enc \<and> (\<exists>bytes. base64_standard env enc = Inr bytes \<and> decode_transaction env bytes = Inr tx')"
    and "source_ata p = derive_associated_token_address (be_chain env) (account_pubkey p) (pm_mint p) (pm_token_program p)"
    and "push_sponsor ps = pm_fee_payer p" and "push_networks ps net = Some url"
    and "compute_unit_price_micro_lamports ch \<le> max_unit_price (push_settings ps)"
    and "compute_unit_limit ch \<le> max_unit_limit (push_settings ps)"
  shows "\<exists>r. read_request body = Some r
    \<and> AskedToSign tx' \<in> set (ss_log (fst (batch_handler fuel env (Some ps) coins
          (Some (Some (''Bearer '' @ signed_transaction_base64 sc))) r st)))"
proof -
  obtain r where r: "client_request http gc net ch = Some r" "body = request_json r"
    using assms(7) request_body_client [OF assms(6), of http ch] by auto
  obtain chunk where chunk: "validate_request env coins r = Inr chunk" "describes p ch chunk"
    using client_request_valid [OF assms(2) r(1)] by blast
  have "read_request body = Some r"
  proof -
    have "\<forall>n\<in>set (map tbe_row_id (tb_transfers r)). n < 2 ^ 64"
      unfolding client_request_fields(3) [OF r(1)] using assms(5) by simp
    then have "\<forall>t\<in>set (tb_transfers r). tbe_row_id t < 2 ^ 64"
      by simp
    then show ?thesis
      using assms(3,4) r(2) client_request_fields(1) [OF r(1)] by simp
  qed
  moreover define rt where "rt = \<lparr>rt_url = url, sponsor_key = push_sponsor ps, rt_settings = push_settings ps\<rparr>"
  have net: "vc_network chunk = net"
    using chunk(1) client_request_fields(2) [OF r(1)]
    by (auto simp: validate_request_def and_then_eq_Inr Let_def split: if_splits)
  then have resolved: "runtime_resolve chunk (push_networks ps) (push_sponsor ps) (push_settings ps) = Inr rt"
    using assms(19) by (simp add: runtime_resolve_def rt_def)
  have "transaction_matches (be_chain env) p ch tx'"
    using sign_chunk_credential(1) [OF assms(8-10)] transaction_matches_message [OF assms(11,12)] by blast
  then have "sponsored_transaction env rt chunk tx'"
    using chunk(2) assms(17,18,20,21) by (intro planned_is_sponsored) (simp_all add: rt_def)
  moreover have "vc_sender chunk = account_pubkey p"
    using chunk(2) by (simp add: describes_def)
  moreover have enc: "encode_tx sg tx' = Inr (signed_transaction_base64 sc)"
    by (rule sign_chunk_credential(2) [OF assms(8-10)])
  moreover have "trim (signed_transaction_base64 sc) = signed_transaction_base64 sc"
    "\<exists>bytes. base64_standard env (signed_transaction_base64 sc) = Inr bytes \<and> decode_transaction env bytes = Inr tx'"
    using assms(16) enc by blast+
  ultimately have "submit_checks env rt chunk (bearer_credential (''Bearer '' @ signed_transaction_base64 sc)) = Inr tx'"
    unfolding submit_checks_Inr [OF assms(1)] using assms(13-15) by (simp add: bearer_credential_def)
  from batch_handler_signs [OF chunk(1) resolved this, of fuel st]
  have "AskedToSign tx' \<in> set (ss_log (fst (batch_handler fuel env (Some ps) coins
          (Some (Some (''Bearer '' @ signed_transaction_base64 sc))) r st)))"
    by (auto simp: signing_log_def)
  with \<open>read_request body = Some r\<close> show ?thesis
    by blast
qed

text \<open>The sample permit with a signer that fills the sender's slot, and a client that names the sample sponsor.\<close>

definition slot_signer :: signer where
  "slot_signer = \<lparr>sign_slot = (\<lambda>tx. Inr (tx\<lparr>signatures := [default_signature, [42]]\<rparr>)), encode_tx = (\<lambda>_. Inr ''7'')\<rparr>"

definition sample_client :: "nat http_client" where
  "sample_client = (sample_http (\<lambda>_ body. body) 200)\<lparr>base58_text := (\<lambda>k. if k = [9] then ''9'' else ''3'')\<rparr>"

definition sample_terms_of_client :: gasless_config where
  "sample_terms_of_client = sample_gasless\<lparr>batch_id := sample_batch_id, currency := ''8''\<rparr>"

lemma slot_signer_signs:
  "\<exists>p' sc. sign_chunk sample_env slot_signer 1001 sample_permit 4 sample_tx 500 = (p', Inr sc)
     \<and> signed_transaction_base64 sc = ''7''"
proof -
  have "sign_chunk_checks sample_env 1001 sample_permit 4 sample_tx = Inr (chunks sample_plan ! 1, 7)"
    unfolding sign_chunk_checks_Inr
    using sample_tx_matches by (simp add: sample_permit_def plan_for_def sample_plan_def)
  moreover have "sign_transaction_bytes slot_signer (sample_permit\<lparr>signed_amount_raw := 7, signed_tx_count := 1\<rparr>) sample_tx
      = Inr ([42], [77], ''7'')"
    by (simp add: sign_transaction_bytes_def slot_signer_def sample_tx_def sample_permit_def nth_opt_def Let_def)
  ultimately show ?thesis
    by (simp add: sign_chunk_def) (simp add: sample_permit_def)
qed

lemma sample_agreed:
  "agreed_terms sample_batch_env [sample_coin] sample_client sample_terms_of_client sample_permit (chunks sample_plan ! 1)"
proof -
  have "units_agree sample_batch_env 6"
    unfolding units_agree_def
  proof (intro allI impI)
    fix n s
    assume n: "n < 2 ^ 64 \<and> format_token_amount n 6 = Some s"
    then have "parse_token_amount s 6 = Inr n" "trim s = s"
      using format_parse_trim [of n 6] by simp_all
    then show "parse_units sample_batch_env (trim s) 6 = Some (show_nat n)"
      by (simp add: sample_batch_env_def)
  qed
  moreover have "texts_agree sample_batch_env sample_client {[9], [3]}"
    by (simp add: texts_agree_def sample_batch_env_def sample_client_def sponsor_texts)
  moreover have "manifest_hash_prefix sample_batch_id = ''abcd0102''"
    by (simp add: manifest_hash_prefix_def MANIFEST_HASH_PREFIX_LEN_def sample_id)
  then have "memo (chunks sample_plan ! 1) = chunk_memo (manifest_hash_prefix sample_batch_id) 4"
    by (simp add: sample_plan_def chunk_memo_def sponsor_texts)
  ultimately show ?thesis
    by (simp add: agreed_terms_def sample_terms_of_client_def sample_gasless_def sample_id BATCH_ID_HEX_LEN_def
        sample_permit_def sample_plan_def sample_coin_def sample_batch_env_def sponsor_texts MAX_TRANSFER_BATCH_TRANSFERS_def)
qed

text \<open>A reader of requests, member by member.\<close>

definition read_entry_json :: "json \<Rightarrow> transfer_batch_entry option" where
  "read_entry_json j =
     Option.bind (json_u64_at j ''rowId'') (\<lambda>n. Option.bind (json_str_at j ''recipient'') (\<lambda>k.
     map_option (\<lambda>a. \<lparr>tbe_row_id = n, tbe_recipient = k, tbe_amount = a\<rparr>) (json_str_at j ''amount'')))"

definition read_request_json :: "json \<Rightarrow> transfer_batch_request option" where
  "read_request_json j =
     Option.bind (json_str_at j ''batchId'') (\<lambda>batch. Option.bind (json_u64_at j ''chunkIndex'') (\<lambda>index.
     Option.bind (json_str_at j ''sender'') (\<lambda>sender. Option.bind (json_str_at j ''currency'') (\<lambda>cur.
     Option.bind (json_str_at j ''network'') (\<lambda>net.
     case transfer_network_from_str net of
       Inl _ \<Rightarrow> None
     | Inr net \<Rightarrow>
         Option.bind (Option.bind (json_get j ''transfers'') json_as_array) (\<lambda>js.
         map_option (\<lambda>ts. \<lparr>tb_batch_id = batch, tb_chunk_index = index, tb_sender = sender, tb_currency = cur,
           tb_network = net, tb_transfers = ts\<rparr>) (those (map read_entry_json js))))))))"

lemma json_u64_number: "n < 2 ^ 64 \<Longrightarrow> json_as_u64 (JNumber (int n)) = Some n"
proof -
  assume "n < 2 ^ 64"
  then have "int n < int (2 ^ 64)"
    by (simp only: of_nat_less_iff)
  then show ?thesis
    by (simp add: json_as_u64_def)
qed

lemma read_request_json_reads:
  "tb_chunk_index r < 2 ^ 32 \<and> (\<forall>t\<in>set (tb_transfers r). tbe_row_id t < 2 ^ 64) \<Longrightarrow> read_request_json (request_json r) = Some r"
proof -
  assume r: "tb_chunk_index r < 2 ^ 32 \<and> (\<forall>t\<in>set (tb_transfers r). tbe_row_id t < 2 ^ 64)"
  have "read_entry_json (entry_json t) = Some t" if "tbe_row_id t < 2 ^ 64" for t
    using that
    by (simp add: read_entry_json_def entry_json_def json_u64_at_def json_str_at_def json_get_def json_as_str_def json_u64_number)
  then have "those (map read_entry_json (map entry_json ts)) = Some ts" if "\<forall>t\<in>set ts. tbe_row_id t < 2 ^ 64" for ts
    using that by (induction ts) simp_all
  moreover have "transfer_network_from_str (transfer_network_str n) = Inr n" for n
    by (cases n) (simp_all add: transfer_network_from_str_def transfer_network_str_def)
  moreover have "tb_chunk_index r < 2 ^ 64"
    using r by simp
  ultimately show ?thesis
    using r by (simp add: read_request_json_def request_json_def json_u64_at_def json_str_at_def json_get_def json_as_str_def
        json_as_array_def json_u64_number)
qed

lemma sample_body: "\<exists>body. request_body sample_client sample_terms_of_client (chunks sample_plan ! 1) = Some body"
  by (simp add: request_body_def transfer_json_def sample_chunk [simplified] sample_terms_of_client_def sample_gasless_def sample_format)

theorem permit_signature_reaches_sponsor_witness:
  "\<exists>body r sc p'. sign_chunk sample_env slot_signer 1001 sample_permit 4 sample_tx 500 = (p', Inr sc)
    \<and> request_body sample_client sample_terms_of_client (chunks sample_plan ! 1) = Some body \<and> read_request_json body = Some r
    \<and> AskedToSign sample_signed_tx \<in> set (ss_log (fst (batch_handler 1 sample_batch_env (Some sample_push) [sample_coin]
          (Some (Some (''Bearer '' @ signed_transaction_base64 sc))) r \<lparr>ss_world = 0, ss_log = []\<rparr>)))"
proof -
  obtain p' sc where signed: "sign_chunk sample_env slot_signer 1001 sample_permit 4 sample_tx 500 = (p', Inr sc)"
    using slot_signer_signs by blast
  obtain body where body: "request_body sample_client sample_terms_of_client (chunks sample_plan ! 1) = Some body"
    using sample_body by blast
  have chain: "be_chain sample_batch_env = sample_env"
    by (simp add: sample_batch_env_def)
  have sender: "sender_signed sample_batch_env (account_pubkey sample_permit) sample_signed_tx" "fee_payer_open sample_signed_tx"
    using sample_submission unfolding submit_checks_Inr [OF sample_terms]
    by (simp_all add: sample_chunk_request_def sample_permit_def)
  have seven: "trim ''7'' = ''7''"
    by (rule trim_id) (simp_all add: is_ascii_digit_def)
  have "\<exists>r. read_request_json body = Some r
    \<and> AskedToSign sample_signed_tx \<in> set (ss_log (fst (batch_handler 1 sample_batch_env (Some sample_push) [sample_coin]
          (Some (Some (''Bearer '' @ signed_transaction_base64 sc))) r \<lparr>ss_world = 0, ss_log = []\<rparr>)))"
  proof (rule permit_signature_reaches_sponsor [where p = sample_permit and ch = "chunks sample_plan ! 1" and i = 4
        and tx = sample_tx and net = Localnet and url = "''http://node''" and sg = slot_signer and now = 1001
        and last_valid = 500 and p' = p' and http = sample_client and gc = sample_terms_of_client])
    show "sign_chunk (be_chain sample_batch_env) slot_signer 1001 sample_permit 4 sample_tx 500 = (p', Inr sc)"
      using signed by (simp add: chain)
  qed (fact sample_terms sample_agreed body sender | use read_request_json_reads in blast
      | simp add: chain sample_terms_of_client_def sample_gasless_def transfer_network_str_def slot_signer_def sample_signed_tx_def
          sample_batch_env_def sample_push_def default_settings_def sample_plan_def plan_for_def sample_permit_def seven
          sample_env_def derive_associated_token_address_def)+
  then show ?thesis
    using signed body by blast
qed

end
